(* ===== verification/Prelude.thy ===== *)
theory Prelude
  imports Main "HOL-Library.Word" "HOL-Library.Finite_Map"
begin

text \<open>
  What the components share: names for the machine types of \<^verbatim>\<open>share/inc/typedef.h\<close>,
  the ordered containers the code uses (\<^verbatim>\<open>define_unordered_map\<close> is \<^verbatim>\<open>std::map\<close> and
  \<^verbatim>\<open>define_unordered_set\<close> is \<^verbatim>\<open>std::set\<close> there, so iteration is in key order),
  \<^verbatim>\<open>std::remove_if\<close> as the standard library defines it, and two interfaces, stated as
  locales: a machine with an invariant, and a machine that refines an abstract one.
\<close>

section \<open>Machine types\<close>

type_synonym u8 = "8 word"
type_synonym u16 = "16 word"
type_synonym u32 = "32 word"
type_synonym u64 = "64 word"
type_synonym guid = u64

named_theorems eval_rules "equations that evaluate closed terms of the model"

lemmas word_eval [eval_rules] = word_less_nat_alt word_le_nat_alt

lemma nat_int_uint [simp]: "nat (int a + uint w) = a + unat w"
  by (simp add: nat_add_distrib)

section \<open>Ordered maps and sets\<close>

text \<open>A \<^verbatim>\<open>std::map\<close> is a finite map read in key order, a \<^verbatim>\<open>std::set\<close> a finite set read in order.\<close>

definition fm_items :: "('k::linorder, 'v) fmap \<Rightarrow> ('k \<times> 'v) list" where
  "fm_items m = sorted_list_of_fmap m"

definition fs_items :: "'a::linorder fset \<Rightarrow> 'a list" where
  "fs_items s = sorted_list_of_fset s"

lemma set_fs_items [simp]: "set (fs_items s) = fset s"
  by (simp add: fs_items_def)

lemma fset_of_list_fs_items [simp]: "fset_of_list (fs_items s) = s"
  by (simp add: fset_inject [symmetric] fset_of_list.rep_eq)

lemma distinct_fs_items [simp]: "distinct (fs_items s)"
  by (simp add: fs_items_def sorted_list_of_fset.rep_eq)

lemma fs_items_empty [simp]: "fs_items {||} = []"
  by (simp add: fs_items_def sorted_list_of_fset.rep_eq)

lemma fs_items_finsert [eval_rules]:
  "fs_items (finsert x s) = insort x (fs_items (s |-| {|x|}))"
  by (simp add: fs_items_def sorted_list_of_fset.rep_eq)

lemma fs_items_eq_Nil [simp]: "fs_items s = [] \<longleftrightarrow> s = {||}"
  by (metis bot_fset.rep_eq fset_inject set_empty set_fs_items)

lemma fm_items_keys: "map fst (fm_items m) = fs_items (fmdom m)"
  by (simp add: fm_items_def sorted_list_of_fmap_def fs_items_def comp_def)

lemma fm_items_map: "fm_items m = map (\<lambda>k. (k, the (fmlookup m k))) (fs_items (fmdom m))"
  by (simp add: fm_items_def sorted_list_of_fmap_def fs_items_def)

lemma set_fm_items [simp]: "(k, v) \<in> set (fm_items m) \<longleftrightarrow> fmlookup m k = Some v"
  by (auto simp: fm_items_map fmlookup_dom_iff image_iff)

lemma distinct_fm_items [simp]: "distinct (map fst (fm_items m))"
  by (simp add: fm_items_keys)

lemma fm_items_empty [simp]: "fm_items fmempty = []"
  by (simp add: fm_items_map)

lemma fm_items_eq_Nil [simp]: "fm_items m = [] \<longleftrightarrow> m = fmempty"
  by (metis fm_items_keys fmdom_empty fmrestrict_fset_dom fmrestrict_fset_null fs_items_eq_Nil
      list.map_disc_iff)

section \<open>Logs\<close>

text \<open>Every entry of a log has the property, given the entries before it.\<close>

definition at_each :: "('a list \<Rightarrow> 'a \<Rightarrow> bool) \<Rightarrow> 'a list \<Rightarrow> bool" where
  "at_each P xs \<longleftrightarrow> (\<forall>ys x zs. xs = ys @ x # zs \<longrightarrow> P ys x)"

lemma at_each_Nil [simp]: "at_each P []"
  by (simp add: at_each_def)

lemma at_each_snoc [simp]: "at_each P (xs @ [x]) \<longleftrightarrow> at_each P xs \<and> P xs x"
proof
  assume l: "at_each P (xs @ [x])"
  have "P xs x" using l unfolding at_each_def by blast
  moreover have "P ys y" if "xs = ys @ y # us" for ys y us
  proof -
    have "xs @ [x] = ys @ y # (us @ [x])" using that by simp
    then show ?thesis using l unfolding at_each_def by blast
  qed
  ultimately show "at_each P xs \<and> P xs x" by (simp add: at_each_def)
next
  assume r: "at_each P xs \<and> P xs x"
  have "P ys y" if e: "xs @ [x] = ys @ y # zs" for ys y zs
  proof (cases zs rule: rev_cases)
    case Nil
    then show ?thesis using e r by simp
  next
    case (snoc us z)
    then have "xs @ [x] = (ys @ y # us) @ [z]" using e by simp
    then have "xs = ys @ y # us" by (simp only: append1_eq_conv)
    then show ?thesis using r unfolding at_each_def by blast
  qed
  then show "at_each P (xs @ [x])" by (simp add: at_each_def)
qed

section \<open>std::remove_if\<close>

text \<open>
  The algorithm moves the kept elements to the front and returns the new logical end; it never
  changes the length of the container. The elements behind the new end keep their old values
  (for the trivially copyable elements the code uses it on, a move is a copy).
\<close>

definition std_remove_if :: "('a \<Rightarrow> bool) \<Rightarrow> 'a list \<Rightarrow> 'a list" where
  "std_remove_if p xs =
     (let kept = filter (\<lambda>x. \<not> p x) xs in kept @ drop (length kept) xs)"

lemma length_std_remove_if [simp]: "length (std_remove_if p xs) = length xs"
  by (simp add: std_remove_if_def Let_def)

lemma std_remove_if_none: "\<forall>x \<in> set xs. \<not> p x \<Longrightarrow> std_remove_if p xs = xs"
  by (simp add: std_remove_if_def Let_def)

section \<open>Machines\<close>

primrec run_events :: "('e \<Rightarrow> 's \<Rightarrow> 's) \<Rightarrow> 'e list \<Rightarrow> 's \<Rightarrow> 's" where
  "run_events step [] s = s"
| "run_events step (e # es) s = run_events step es (step e s)"

primrec all_allowed :: "('e \<Rightarrow> 's \<Rightarrow> 's) \<Rightarrow> ('e \<Rightarrow> 's \<Rightarrow> bool) \<Rightarrow> 'e list \<Rightarrow> 's \<Rightarrow> bool" where
  "all_allowed step allowed [] s \<longleftrightarrow> True"
| "all_allowed step allowed (e # es) s \<longleftrightarrow> allowed e s \<and> all_allowed step allowed es (step e s)"

lemma all_allowed_True [simp]: "all_allowed step (\<lambda>_ _. True) es s"
  by (induction es arbitrary: s) simp_all

lemma run_events_append: "run_events step (xs @ ys) s = run_events step ys (run_events step xs s)"
  by (induction xs arbitrary: s) auto

locale invariant_machine =
  fixes step :: "'e \<Rightarrow> 's \<Rightarrow> 's"
    and allowed :: "'e \<Rightarrow> 's \<Rightarrow> bool"
    and inv :: "'s \<Rightarrow> bool"
  assumes step_keeps: "inv s \<Longrightarrow> allowed e s \<Longrightarrow> inv (step e s)"
begin

lemma run_keeps: "inv s \<Longrightarrow> all_allowed step allowed es s \<Longrightarrow> inv (run_events step es s)"
  by (induction es arbitrary: s) (auto intro: step_keeps)

end

text \<open>A machine that refines an abstract one: the abstraction commutes with every step.\<close>

locale refining_machine = invariant_machine +
  fixes abs :: "'b \<Rightarrow> 'c"
    and astep :: "'a \<Rightarrow> 'c \<Rightarrow> 'c"
  assumes step_refines: "inv s \<Longrightarrow> allowed e s \<Longrightarrow> abs (step e s) = astep e (abs s)"
begin

lemma run_refines:
  "inv s \<Longrightarrow> all_allowed step allowed es s \<Longrightarrow>
    abs (run_events step es s) = run_events astep es (abs s)"
proof (induction es arbitrary: s)
  case (Cons e es)
  then show ?case
    using step_keeps [of s e] step_refines [of s e] by simp
qed simp

lemma run_allowed:
  assumes "\<And>e s. allowed e s \<Longrightarrow> aallowed e (abs s)" "inv s" "all_allowed step allowed es s"
  shows "all_allowed astep aallowed es (abs s)"
  using assms(2,3)
proof (induction es arbitrary: s)
  case (Cons e es)
  then show ?case
    using step_keeps [of s e] step_refines [of s e] assms(1) [of e s] by fastforce
qed simp

end

end
