(* ===== verification/Guid.thy ===== *)
theory Guid
  imports Prelude
begin

text \<open>
  The guid macros of \<^verbatim>\<open>share/inc/coredef.h\<close>: a guid is 64 bits, the entity type in the top
  byte, the seed of the guid server in the next one, and a 48 bit index. The lemmas say which
  bits of the arguments reach which field (the fields are masked, so a seed of 256 is a seed of
  0) and that a guid determines its three fields.
\<close>

unbundle bit_operations_syntax

section \<open>Entity types\<close>

text \<open>The members of \<^verbatim>\<open>enum EntityType\<close> that the modelled code names.\<close>

definition et_null :: u8 where "et_null = 0"
definition et_player :: u8 where "et_player = 1"
definition et_role :: u8 where "et_role = 2"
definition et_monster :: u8 where "et_monster = 6"
definition et_coin :: u8 where "et_coin = 68"
definition et_container_container :: u8 where "et_container_container = 83"
definition et_container :: u8 where "et_container = 84"

section \<open>The macros\<close>

definition make_guid :: "u64 \<Rightarrow> u64 \<Rightarrow> u64 \<Rightarrow> guid" where
  "make_guid ty seed ix =
     ((push_bit 56 ty AND 0xFF00000000000000) OR (push_bit 48 seed AND 0x00FF000000000000))
       OR (ix AND 0x0000FFFFFFFFFFFF)"

text \<open>In C, \<^verbatim>\<open>&\<close> binds tighter than \<^verbatim>\<open>|\<close>: the mask of the old guid is applied before the union.\<close>

definition switch_guid_type :: "u64 \<Rightarrow> guid \<Rightarrow> guid" where
  "switch_guid_type ty g = (push_bit 56 ty AND 0xFF00000000000000) OR (g AND 0x00FFFFFFFFFFFFFF)"

definition make_map_guid :: "u64 \<Rightarrow> u64 \<Rightarrow> u64 \<Rightarrow> guid" where
  "make_map_guid line_no dup_index template_id =
     make_guid 0xC 15
       ((push_bit 40 line_no OR push_bit 24 dup_index) OR (0x0000000000FFFFFF AND template_id))"

definition extract_entity_type :: "guid \<Rightarrow> u64" where
  "extract_entity_type g = drop_bit 56 (g AND 0xFF00000000000000)"

definition guid_type :: "guid \<Rightarrow> u8" where
  "guid_type g = ucast (drop_bit 56 g AND 0xFF)"

definition is_player_guid :: "guid \<Rightarrow> bool" where
  "is_player_guid g \<longleftrightarrow> guid_type g = et_player"

definition is_role_guid :: "guid \<Rightarrow> bool" where
  "is_role_guid g \<longleftrightarrow> guid_type g = et_role"

definition is_monster_guid :: "guid \<Rightarrow> bool" where
  "is_monster_guid g \<longleftrightarrow> guid_type g = et_monster"

text \<open>The other two fields, which the code never reads back but which make a guid unique.\<close>

definition guid_seed :: "guid \<Rightarrow> u64" where
  "guid_seed g = drop_bit 48 g AND 0xFF"

definition guid_index :: "guid \<Rightarrow> u64" where
  "guid_index g = g AND 0x0000FFFFFFFFFFFF"

section \<open>Fields\<close>

lemma guid_masks:
  "(0xFF00000000000000 :: u64) = push_bit 56 (mask 8)"
  "(0x00FF000000000000 :: u64) = push_bit 48 (mask 8)"
  "(0x0000FFFFFFFFFFFF :: u64) = mask 48"
  "(0x00FFFFFFFFFFFFFF :: u64) = mask 56"
  "(0x0000000000FFFFFF :: u64) = mask 24"
  "(0xFF :: u64) = mask 8"
  by (simp_all add: mask_eq_exp_minus_1)

lemmas guid_defs =
  make_guid_def switch_guid_type_def make_map_guid_def extract_entity_type_def guid_type_def
  guid_seed_def guid_index_def guid_masks

lemma guid_type_make_guid [simp]: "guid_type (make_guid ty seed ix) = ucast ty"
  unfolding guid_defs by (rule bit_word_eqI) (auto simp: bit_simps)

lemma guid_seed_make_guid [simp]: "guid_seed (make_guid ty seed ix) = seed AND mask 8"
  unfolding guid_defs by (rule bit_word_eqI) (auto simp: bit_simps)

lemma guid_index_make_guid [simp]: "guid_index (make_guid ty seed ix) = ix AND mask 48"
  unfolding guid_defs by (rule bit_word_eqI) (auto simp: bit_simps)

lemma extract_entity_type_eq: "extract_entity_type g = ucast (guid_type g)"
  unfolding guid_defs by (rule bit_word_eqI) (auto simp: bit_simps)

lemma guid_of_fields: "make_guid (extract_entity_type g) (guid_seed g) (guid_index g) = g"
proof (rule bit_word_eqI)
  fix n assume "n < LENGTH(64)"
  then consider "n < 48" | "48 \<le> n" "n < 56" | "56 \<le> n" "n < 64" by fastforce
  then show "bit (make_guid (extract_entity_type g) (guid_seed g) (guid_index g)) n = bit g n"
    unfolding guid_defs by cases (auto simp: bit_simps)
qed

lemma guid_type_switch [simp]: "guid_type (switch_guid_type ty g) = ucast ty"
  unfolding guid_defs by (rule bit_word_eqI) (auto simp: bit_simps)

lemma guid_seed_switch [simp]: "guid_seed (switch_guid_type ty g) = guid_seed g"
  unfolding guid_defs by (rule bit_word_eqI) (auto simp: bit_simps)

lemma guid_index_switch [simp]: "guid_index (switch_guid_type ty g) = guid_index g"
  unfolding guid_defs by (rule bit_word_eqI) (auto simp: bit_simps)

lemma switch_back: "switch_guid_type (extract_entity_type g) (switch_guid_type ty g) = g"
  unfolding guid_defs by (rule bit_word_eqI) (auto simp: bit_simps)

lemma mask_small: "x < 2 ^ n \<Longrightarrow> x AND mask n = (x :: u64)"
  by (simp add: less_mask_eq)

lemma make_guid_inj:
  assumes "seed < 2 ^ 8" "seed' < 2 ^ 8" "ix < 2 ^ 48" "ix' < 2 ^ 48"
    and "make_guid ty seed ix = make_guid ty' seed' ix'"
  shows "(ucast ty :: u8) = ucast ty' \<and> seed = seed' \<and> ix = ix'"
proof -
  have "guid_seed (make_guid ty seed ix) = guid_seed (make_guid ty' seed' ix')"
    "guid_index (make_guid ty seed ix) = guid_index (make_guid ty' seed' ix')"
    "guid_type (make_guid ty seed ix) = guid_type (make_guid ty' seed' ix')"
    using assms(5) by simp_all
  then show ?thesis
    using assms(1-4) by (simp add: mask_small)
qed

section \<open>Properties\<close>

text \<open>a guid built by MAKE_GUID holds its arguments: the entity type of the result is the
  low byte of the type, and two guids built from seeds below 256 and indexes below
  $2^{48}$ are equal only when all three fields agree.\<close>

theorem make_guid_fields:
  assumes "seed < 2 ^ 8" "seed' < 2 ^ 8" "ix < 2 ^ 48" "ix' < 2 ^ 48"
  shows "guid_type (make_guid ty seed ix) = ucast ty \<and>
    (make_guid ty seed ix = make_guid ty' seed' ix' \<longleftrightarrow>
      (ucast ty :: u8) = ucast ty' \<and> seed = seed' \<and> ix = ix')"
proof -
  have "make_guid ty seed ix = make_guid ty' seed ix" if "(ucast ty :: u8) = ucast ty'"
  proof -
    have "push_bit 56 ty AND push_bit 56 (mask 8) = push_bit 56 (ucast (ucast ty :: u8) :: u64)" for ty :: u64
      by (rule bit_word_eqI) (auto simp: bit_simps)
    then show ?thesis using that unfolding make_guid_def guid_masks by simp
  qed
  then have "make_guid ty seed ix = make_guid ty' seed' ix' \<longleftrightarrow>
      (ucast ty :: u8) = ucast ty' \<and> seed = seed' \<and> ix = ix'"
    using make_guid_inj [OF assms, of ty ty'] by metis
  then show ?thesis by (simp only: guid_type_make_guid simp_thms)
qed

lemma make_guid_fields_witness:
  "guid_type (make_guid 68 3 9) = 68 \<and> make_guid 68 3 9 \<noteq> make_guid 68 3 10"
proof -
  have lt: "(3::u64) < 2 ^ 8" "(9::u64) < 2 ^ 48" "(10::u64) < 2 ^ 48" by simp_all
  have "(ucast (68::u64) :: u8) = 68"
    by simp
  moreover have "(9::u64) \<noteq> 10"
    by simp
  ultimately show ?thesis using make_guid_fields [OF lt(1) lt(1) lt(2) lt(3), of 68 68]
    by metis
qed

end
