(* ===== verification/Packets.thy ===== *)
theory Packets
  imports Guid
begin

text \<open>
  Packets and framing. \<^verbatim>\<open>share/inc/Packet.h\<close> and \<^verbatim>\<open>share/src/Packet.cpp\<close> hold the packet the
  servers exchange (a 12 byte head of opcode, size and guid, then the body);
  \<^verbatim>\<open>gate/src/PacketStream.h\<close> is the gate's own packet over the same head, and its
  \<^verbatim>\<open>ClientHeader\<close> of 4 bytes is what clients send. The receiving loops are
  \<^verbatim>\<open>Sessionx::parseInputPacket\<close>, \<^verbatim>\<open>MakeGuid::parsePack\<close> and
  \<^verbatim>\<open>ClientSession::parseInputPacket\<close>.

  The structs are packed and copied with \<^verbatim>\<open>memcpy\<close>, so the bytes on the wire are those of the
  host; the model is for the little endian hosts the servers are built for. A message block is
  seen through the bytes between its read and its write pointer, oldest first.

  The locale \<open>framing\<close> states what a receiving loop promises about one frame and proves what
  follows for streams: whole frames come out in order, and the way the bytes are cut into
  chunks does not matter. It is interpreted on the two loops.
\<close>

section \<open>Little endian bytes\<close>

primrec le_bytes :: "nat \<Rightarrow> 'a::len word \<Rightarrow> u8 list" where
  "le_bytes 0 w = []"
| "le_bytes (Suc n) w = ucast w # le_bytes n (drop_bit 8 w)"

primrec le_word :: "u8 list \<Rightarrow> 'a::len word" where
  "le_word [] = 0"
| "le_word (b # bs) = ucast b OR push_bit 8 (le_word bs)"

lemma le_bytes_numeral [eval_rules]:
  "le_bytes (numeral k) w = ucast w # le_bytes (pred_numeral k) (drop_bit 8 w)"
  by (simp add: numeral_eq_Suc)

lemma length_le_bytes [simp]: "length (le_bytes n w) = n"
  by (induction n arbitrary: w) auto

lemma bit_le_word_le_bytes:
  fixes w :: "'a::len word"
  shows "bit (le_word (le_bytes n w) :: 'a word) i \<longleftrightarrow> i < 8 * n \<and> bit w i"
proof (induction n arbitrary: w i)
  case (Suc n)
  show ?case
  proof (cases "i < LENGTH('a)")
    case True
    show ?thesis
    proof (cases "i < 8")
      case False
      then have "8 + (i - 8) = i" by simp
      with True False show ?thesis by (auto simp: bit_simps Suc.IH)
    qed (use True in \<open>auto simp: bit_simps\<close>)
  next
    case False
    then have "\<not> bit v i" for v :: "'a word" using bit_imp_le_length [of v i] by auto
    then show ?thesis by (simp del: le_word.simps le_bytes.simps)
  qed
qed simp

lemma le_word_le_bytes [simp]:
  "LENGTH('a) \<le> 8 * n \<Longrightarrow> (le_word (le_bytes n w) :: 'a::len word) = w"
  by (rule bit_word_eqI) (auto simp: bit_le_word_le_bytes)

lemma le_bytes_le_word:
  "8 * length bs \<le> LENGTH('a) \<Longrightarrow> le_bytes (length bs) (le_word bs :: 'a::len word) = bs"
proof (induction bs)
  case (Cons b bs)
  have "ucast (ucast b OR push_bit 8 (le_word bs :: 'a word)) = b"
    using Cons.prems by (intro bit_word_eqI) (auto simp: bit_simps)
  moreover have "le_bytes (length bs) (drop_bit 8 (ucast b OR push_bit 8 (le_word bs :: 'a word))) = bs"
    if "8 * Suc (length bs) \<le> LENGTH('a)"
  proof -
    have shape: "n < 8 * length xs" if "bit (le_word xs :: 'a word) n" for n and xs :: "u8 list"
      using that
    proof (induction xs arbitrary: n)
      case (Cons x xs)
      show ?case
      proof (cases "n < 8")
        case False
        then show ?thesis using Cons.IH [of "n - 8"] Cons.prems
          by (auto simp: bit_simps dest: bit_imp_le_length)
      qed simp
    qed simp
    have "drop_bit 8 (ucast b OR push_bit 8 (le_word bs :: 'a word)) = le_word bs"
    proof (rule bit_word_eqI)
      fix n assume "n < LENGTH('a)"
      then show "bit (drop_bit 8 (ucast b OR push_bit 8 (le_word bs :: 'a word))) n = bit (le_word bs :: 'a word) n"
        using shape [of bs n] that by (auto simp: bit_simps dest: bit_imp_le_length)
    qed
    then show ?thesis using Cons by simp
  qed
  ultimately show ?case using Cons.prems by simp
qed simp

section \<open>The packet of the servers\<close>

record head =
  h_opcode :: u16
  h_size :: u16
  h_guid :: guid

definition head_size :: nat where "head_size = 12"

definition encode_head :: "head \<Rightarrow> u8 list" where
  "encode_head h = le_bytes 2 (h_opcode h) @ le_bytes 2 (h_size h) @ le_bytes 8 (h_guid h)"

definition decode_head :: "u8 list \<Rightarrow> head" where
  "decode_head bs =
     \<lparr> h_opcode = le_word (take 2 bs), h_size = le_word (take 2 (drop 2 bs)),
       h_guid = le_word (take 8 (drop 4 bs)) \<rparr>"

text \<open>\<^verbatim>\<open>m_buffer\<close> is NULL (\<open>None\<close>) or an array that holds the head and the body; the owner is
  the address of a session, 0 when there is none.\<close>

record packet =
  p_head :: head
  p_buffer :: "u8 list option"
  p_owner :: nat

definition empty_packet :: packet where
  "empty_packet = \<lparr> p_head = \<lparr> h_opcode = 0, h_size = 0, h_guid = 0 \<rparr>, p_buffer = None, p_owner = 0 \<rparr>"

definition new_packet :: "u16 \<Rightarrow> guid \<Rightarrow> u8 list \<Rightarrow> packet" where
  "new_packet op g buf =
     (let h = \<lparr> h_opcode = op, h_size = of_nat (length buf), h_guid = g \<rparr>
      in \<lparr> p_head = h, p_buffer = Some (encode_head h @ buf), p_owner = 0 \<rparr>)"

definition packet_opcode :: "packet \<Rightarrow> u16" where "packet_opcode p = h_opcode (p_head p)"
definition packet_guid :: "packet \<Rightarrow> guid" where "packet_guid p = h_guid (p_head p)"
definition body_size :: "packet \<Rightarrow> u16" where "body_size p = h_size (p_head p)"

text \<open>\<^verbatim>\<open>stream_size\<close> returns a \<^verbatim>\<open>uint16\<close>: the sum is cut to 16 bits.\<close>

definition stream_size :: "packet \<Rightarrow> u16" where
  "stream_size p = of_nat head_size + h_size (p_head p)"

text \<open>\<^verbatim>\<open>ch_body\<close> makes the buffer, zeroed, with the head in front, when there is none.\<close>

definition ch_body :: "packet \<Rightarrow> packet" where
  "ch_body p = (case p_buffer p of
       None \<Rightarrow> p\<lparr> p_buffer := Some (encode_head (p_head p) @ replicate (unat (body_size p)) 0) \<rparr>
     | Some b \<Rightarrow> p)"

definition write_body :: "u8 list \<Rightarrow> packet \<Rightarrow> packet" where
  "write_body src p = p\<lparr> p_buffer := map_option (\<lambda>b. take head_size b @ src @ drop (head_size + length src) b)
                                     (p_buffer p) \<rparr>"

definition packet_body :: "packet \<Rightarrow> u8 list" where
  "packet_body p = (case p_buffer (ch_body p) of
       None \<Rightarrow> [] | Some b \<Rightarrow> take (unat (body_size p)) (drop head_size b))"

definition set_owner :: "nat \<Rightarrow> packet \<Rightarrow> packet" where "set_owner a p = p\<lparr> p_owner := a \<rparr>"

text \<open>The bytes a sender copies out: \<^verbatim>\<open>stream_size()\<close> bytes from \<^verbatim>\<open>stream()\<close>.\<close>

definition packet_stream :: "packet \<Rightarrow> u8 list" where
  "packet_stream p = take (unat (stream_size p)) (case p_buffer p of None \<Rightarrow> [] | Some b \<Rightarrow> b)"

text \<open>\<^verbatim>\<open>parsePacket\<close> hands the body to protobuf, which is the parameter \<open>parse\<close>.\<close>

definition parse_packet :: "(u8 list \<Rightarrow> 'm option) \<Rightarrow> packet \<Rightarrow> 'm option" where
  "parse_packet parse p = parse (packet_body p)"

lemma length_encode_head [simp]: "length (encode_head h) = head_size"
  by (simp add: encode_head_def head_size_def)

lemma decode_encode_head [simp]: "decode_head (encode_head h @ bs) = h"
  by (simp add: decode_head_def encode_head_def)

lemma decode_encode_head_eq [simp]: "decode_head (encode_head h) = h"
  using decode_encode_head [of h "[]"] by simp

lemma le_bytes_le_word': "length bs = n \<Longrightarrow> 8 * n \<le> LENGTH('a) \<Longrightarrow> le_bytes n (le_word bs :: 'a::len word) = bs"
  using le_bytes_le_word by blast

lemma encode_decode_head:
  assumes "head_size \<le> length bs"
  shows "encode_head (decode_head bs) = take head_size bs"
proof -
  have "take 12 bs = take 2 bs @ take 2 (drop 2 bs) @ take 8 (drop 4 bs)"
    by (simp add: take_add [of 2 10, simplified] take_add [of 2 8, simplified])
  then show ?thesis
    using assms by (simp add: encode_head_def decode_head_def head_size_def le_bytes_le_word')
qed

lemma decode_head_take: "decode_head (take head_size bs) = decode_head bs"
  by (simp add: decode_head_def head_size_def drop_take)

section \<open>Framing\<close>

text \<open>Feeding a stream to a receiving loop chunk by chunk; \<open>None\<close> is a connection given up.\<close>

primrec feed_chunks ::
  "(u8 list \<Rightarrow> 'q list \<times> u8 list option) \<Rightarrow> u8 list \<Rightarrow> u8 list list \<Rightarrow> 'q list \<times> u8 list option" where
  "feed_chunks parse r [] = ([], Some r)"
| "feed_chunks parse r (c # cs) =
     (case parse (r @ c) of
        (qs, None) \<Rightarrow> (qs, None)
      | (qs, Some r') \<Rightarrow> (let (qs', t) = feed_chunks parse r' cs in (qs @ qs', t)))"

locale framing =
  fixes hsize :: nat
    and need :: "u8 list \<Rightarrow> nat"
    and bad :: "u8 list \<Rightarrow> bool"
    and out :: "u8 list \<Rightarrow> 'q"
    and parse :: "u8 list \<Rightarrow> 'q list \<times> u8 list option"
  assumes hsize_pos: "0 < hsize"
    and need_head: "hsize \<le> need h"
    and parse_short: "length bs < hsize \<Longrightarrow> parse bs = ([], Some bs)"
    and parse_bad: "hsize \<le> length bs \<Longrightarrow> bad (take hsize bs) \<Longrightarrow> parse bs = ([], None)"
    and parse_wait: "hsize \<le> length bs \<Longrightarrow> \<not> bad (take hsize bs) \<Longrightarrow>
      length bs < need (take hsize bs) \<Longrightarrow> parse bs = ([], Some bs)"
    and parse_full: "hsize \<le> length bs \<Longrightarrow> \<not> bad (take hsize bs) \<Longrightarrow>
      need (take hsize bs) \<le> length bs \<Longrightarrow>
      parse bs = (let (qs, t) = parse (drop (need (take hsize bs)) bs)
                  in (out (take (need (take hsize bs)) bs) # qs, t))"
begin

lemma parse_induct [case_names short bad wait full]:
  assumes "\<And>bs. length bs < hsize \<Longrightarrow> P bs"
    and "\<And>bs. hsize \<le> length bs \<Longrightarrow> bad (take hsize bs) \<Longrightarrow> P bs"
    and "\<And>bs. hsize \<le> length bs \<Longrightarrow> \<not> bad (take hsize bs) \<Longrightarrow> length bs < need (take hsize bs) \<Longrightarrow> P bs"
    and "\<And>bs. hsize \<le> length bs \<Longrightarrow> \<not> bad (take hsize bs) \<Longrightarrow> need (take hsize bs) \<le> length bs \<Longrightarrow>
           P (drop (need (take hsize bs)) bs) \<Longrightarrow> P bs"
  shows "P bs"
proof (induction "length bs" arbitrary: bs rule: less_induct)
  case less
  show ?case
  proof (cases "hsize \<le> length bs \<and> \<not> bad (take hsize bs) \<and> need (take hsize bs) \<le> length bs")
    case True
    then have "length (drop (need (take hsize bs)) bs) < length bs"
      using hsize_pos need_head [of "take hsize bs"] by auto
    then show ?thesis using True less assms(4) by blast
  next
    case False
    then show ?thesis using assms(1-3) [of bs] by (meson not_le)
  qed
qed

lemma parse_append:
  "parse (bs @ cs) =
     (case parse bs of
        (qs, None) \<Rightarrow> (qs, None)
      | (qs, Some r) \<Rightarrow> (let (qs', t) = parse (r @ cs) in (qs @ qs', t)))"
proof (induction bs rule: parse_induct)
  case (full bs)
  then show ?case
    by (simp add: parse_full [of bs] parse_full [of "bs @ cs"] split: prod.splits option.splits)
next
  case (bad bs)
  then show ?case by (simp add: parse_bad [of bs] parse_bad [of "bs @ cs"])
qed (simp_all add: parse_short parse_wait)

lemma parse_stuck:
  "parse bs = (qs, Some r) \<Longrightarrow> parse r = ([], Some r)"
proof (induction bs arbitrary: qs r rule: parse_induct)
  case (full bs)
  then show ?case by (auto simp: parse_full [of bs] split: prod.splits)
qed (simp_all add: parse_short parse_wait parse_bad)

lemma feed_parse:
  "parse r = ([], Some r) \<Longrightarrow> feed_chunks parse r cs = parse (r @ concat cs)"
proof (induction cs arbitrary: r)
  case (Cons c cs)
  then show ?case
    using parse_stuck [of "r @ c"] parse_append [of "r @ c" "concat cs"]
    by (auto split: prod.splits option.splits)
qed simp

lemma parse_frames:
  assumes "\<And>f. f \<in> set fs \<Longrightarrow>
    hsize \<le> length f \<and> \<not> bad (take hsize f) \<and> need (take hsize f) = length f"
  shows "parse (concat fs @ tail) = (let (qs, t) = parse tail in (map out fs @ qs, t))"
  using assms
proof (induction fs)
  case (Cons f fs)
  then have f: "hsize \<le> length f" "\<not> bad (take hsize f)" "need (take hsize f) = length f" by auto
  then have h: "take hsize (f @ concat fs @ tail) = take hsize f" by simp
  have ih: "parse (concat fs @ tail) = (let (qs, t) = parse tail in (map out fs @ qs, t))"
    using Cons by simp
  have "parse (f @ concat fs @ tail) =
      (let (qs, t) = parse (concat fs @ tail) in (out f # qs, t))"
    using parse_full [of "f @ concat fs @ tail"] f unfolding h by simp
  then show ?case unfolding ih by (simp split: prod.splits)
qed simp

lemma parse_nil [simp]: "parse [] = ([], Some [])"
  using parse_short [of "[]"] hsize_pos by simp

text \<open>However the bytes of whole frames arrive, exactly the frames come out, nothing is left.\<close>

lemma chunks_of_frames:
  assumes "\<And>f. f \<in> set fs \<Longrightarrow>
    hsize \<le> length f \<and> \<not> bad (take hsize f) \<and> need (take hsize f) = length f"
    and "concat cs = concat fs"
  shows "feed_chunks parse [] cs = (map out fs, Some [])"
  using feed_parse [of "[]" cs] parse_frames [OF assms(1), of fs "[]"] assms(2) by simp

text \<open>What is kept back is shorter than the frame it starts, so a block that holds the largest
  frame always has room for more.\<close>

lemma parse_rest_bound:
  "parse bs = (qs, Some r) \<Longrightarrow> length r < hsize \<or> length r < need (take hsize r)"
proof (induction bs arbitrary: qs r rule: parse_induct)
  case (full bs)
  then show ?case by (auto simp: parse_full [of bs] split: prod.splits)
qed (auto simp: parse_short parse_wait parse_bad)

end

section \<open>Receiving from another server\<close>

text \<open>A received packet: the head is copied in first, then the body into the zeroed buffer.\<close>

definition recv_packet :: "head \<Rightarrow> u8 list \<Rightarrow> packet" where
  "recv_packet h body = write_body body (ch_body (empty_packet\<lparr> p_head := h \<rparr>))"

function (sequential) session_parse :: "nat \<Rightarrow> u8 list \<Rightarrow> packet list \<times> u8 list" where
  "session_parse owner bs =
     (if length bs < head_size then ([], bs)
      else let h = decode_head bs; n = head_size + unat (h_size h) in
        if n \<le> length bs then
          (let p = set_owner owner (recv_packet h (take (unat (h_size h)) (drop head_size bs)));
               (ps, rest) = session_parse owner (drop n bs)
           in (p # ps, rest))
        else ([], bs))"
  by pat_completeness auto
termination by (relation "measure (length \<circ> snd)") (auto simp: head_size_def)

declare session_parse.simps [simp del]

text \<open>\<^verbatim>\<open>MakeGuid::parsePack\<close> takes one packet off the block, or nothing.\<close>

definition make_guid_parse_pack :: "u8 list \<Rightarrow> packet option \<times> u8 list" where
  "make_guid_parse_pack bs =
     (if length bs < head_size then (None, bs)
      else let h = decode_head bs; n = unat (h_size h) in
        if head_size + n \<le> length bs
        then (Some (recv_packet h (take n (drop head_size bs))), drop (head_size + n) bs)
        else (None, bs))"

definition packet_need :: "u8 list \<Rightarrow> nat" where
  "packet_need bs = head_size + unat (h_size (decode_head bs))"

definition packet_out :: "nat \<Rightarrow> u8 list \<Rightarrow> packet" where
  "packet_out owner bs =
     set_owner owner (recv_packet (decode_head bs) (take (unat (h_size (decode_head bs))) (drop head_size bs)))"

lemma packet_need_take [simp]: "packet_need (take head_size bs) = packet_need bs"
  by (simp add: packet_need_def decode_head_take)

lemma decode_head_take_more: "head_size \<le> n \<Longrightarrow> decode_head (take n bs) = decode_head bs"
  by (metis decode_head_take min.absorb1 take_take)

lemma packet_out_take:
  "packet_out owner (take (head_size + unat (h_size (decode_head bs))) bs) =
    set_owner owner (recv_packet (decode_head bs) (take (unat (h_size (decode_head bs))) (drop head_size bs)))"
  by (simp add: packet_out_def decode_head_take_more drop_take)

lemma length_le_need: "length bs < head_size \<Longrightarrow> session_parse owner bs = ([], bs)"
  by (simp add: session_parse.simps)

interpretation servers: framing head_size packet_need "\<lambda>_. False" "packet_out owner"
  "\<lambda>bs. map_prod id Some (session_parse owner bs)" for owner
proof
  show "0 < head_size" by (simp add: head_size_def)
  show "head_size \<le> packet_need h" for h by (simp add: packet_need_def)
next
  fix bs assume "head_size \<le> length bs" "packet_need (take head_size bs) \<le> length bs"
  then show "map_prod id Some (session_parse owner bs) =
      (let (qs, t) = map_prod id Some (session_parse owner (drop (packet_need (take head_size bs)) bs))
       in (packet_out owner (take (packet_need (take head_size bs)) bs) # qs, t))"
    by (subst session_parse.simps)
       (simp add: packet_out_take Let_def packet_need_def [of bs] split: prod.splits)
qed (simp_all add: length_le_need session_parse.simps [of _ bs for bs] packet_need_def
       decode_head_take Let_def)

lemma session_parse_recv: "map_prod id Some (session_parse owner bs) = (ps, Some r) \<longleftrightarrow>
    session_parse owner bs = (ps, r)"
  by (cases "session_parse owner bs") simp

text \<open>What the sender's packet is on the other side.\<close>

definition fits :: "u8 list \<Rightarrow> bool" where
  "fits body \<longleftrightarrow> length body + head_size < 2 ^ 16"

lemma unat_of_nat_u16: "n < 2 ^ 16 \<Longrightarrow> unat (of_nat n :: u16) = n"
  by (simp add: unat_of_nat take_bit_nat_eq_self)

lemma packet_body_new_packet: "fits b \<Longrightarrow> packet_body (new_packet op g b) = b"
  using unat_of_nat_u16 [of "length b"]
  by (simp add: packet_body_def ch_body_def new_packet_def body_size_def fits_def Let_def)

lemma packet_body_set_owner [simp]: "packet_body (set_owner a p) = packet_body p"
  by (simp add: packet_body_def ch_body_def set_owner_def body_size_def split: option.splits)

lemma packet_opcode_simps [simp]:
  "packet_opcode (new_packet op g b) = op" "packet_opcode (set_owner a p) = packet_opcode p"
  "packet_guid (new_packet op g b) = g" "p_owner (new_packet op g b) = 0"
  by (simp_all add: packet_opcode_def packet_guid_def new_packet_def set_owner_def Let_def)

lemma packet_stream_new_packet:
  assumes "fits body"
  shows "packet_stream (new_packet op g body) =
    encode_head \<lparr> h_opcode = op, h_size = of_nat (length body), h_guid = g \<rparr> @ body"
proof -
  have "unat (stream_size (new_packet op g body)) = head_size + length body"
    using assms unat_of_nat_u16 [of "head_size + length body"]
    by (simp add: stream_size_def new_packet_def fits_def Let_def)
  then show ?thesis by (simp add: packet_stream_def new_packet_def Let_def)
qed

lemma decode_new_packet: "decode_head (encode_head h @ body) = h" by simp

lemma packet_out_new_packet:
  assumes "fits body"
  shows "packet_out owner (packet_stream (new_packet op g body)) = set_owner owner (new_packet op g body)"
  unfolding packet_stream_new_packet [OF assms]
  using assms unat_of_nat_u16 [of "length body"]
  by (simp add: packet_out_def recv_packet_def write_body_def ch_body_def
      empty_packet_def new_packet_def Let_def fits_def body_size_def set_owner_def head_size_def)

lemma packet_stream_whole:
  assumes "fits body"
  shows "head_size \<le> length (packet_stream (new_packet op g body)) \<and>
    packet_need (packet_stream (new_packet op g body)) = length (packet_stream (new_packet op g body))"
  unfolding packet_stream_new_packet [OF assms]
  using assms unat_of_nat_u16 [of "length body"]
  by (simp add: packet_need_def fits_def)

text \<open>C6: whatever packets a server sends whose body and head together stay below $2^{16}$
  bytes, and however the network cuts their bytes into chunks, the receiving loop hands over
  exactly these packets, with opcode, guid and body as sent, in order, and keeps nothing
  back.\<close>

theorem packets_roundtrip:
  assumes "\<forall>(op, g, body) \<in> set sent. fits body"
    and "concat chunks = concat (map (\<lambda>(op, g, body). packet_stream (new_packet op g body)) sent)"
  shows "feed_chunks (\<lambda>bs. map_prod id Some (session_parse owner bs)) [] chunks =
    (map (\<lambda>(op, g, body). set_owner owner (new_packet op g body)) sent, Some [])"
proof -
  let ?frames = "map (\<lambda>(op, g, body). packet_stream (new_packet op g body)) sent"
  have "feed_chunks (\<lambda>bs. map_prod id Some (session_parse owner bs)) [] chunks =
      (map (packet_out owner) ?frames, Some [])"
    using assms packet_stream_whole by (intro servers.chunks_of_frames) force+
  also have "map (packet_out owner) ?frames =
      map (\<lambda>(op, g, body). set_owner owner (new_packet op g body)) sent"
    using assms(1) packet_out_new_packet by (auto simp: case_prod_beta)
  finally show ?thesis .
qed

lemma packets_roundtrip_witness:
  "feed_chunks (\<lambda>bs. map_prod id Some (session_parse 5 bs)) []
     [[1, 0, 2, 0, 7, 0, 0], [0, 0, 0, 0, 0, 65, 66, 2, 0], [0, 0, 9, 0, 0, 0, 0, 0, 0, 0]] =
   ([set_owner 5 (new_packet 1 7 [65, 66]), set_owner 5 (new_packet 2 9 [])], Some [])"
proof -
  let ?sent = "[(1 :: u16, 7 :: guid, [65, 66 :: u8]), (2, 9, [])]"
  have fits: "\<forall>(op, g, body) \<in> set ?sent. fits body"
    by (simp add: fits_def head_size_def)
  then have "concat (map (\<lambda>(op, g, body). packet_stream (new_packet op g body)) ?sent) =
    [1, 0, 2, 0, 7, 0, 0, 0, 0, 0, 0, 0, 65, 66, 2, 0, 0, 0, 9, 0, 0, 0, 0, 0, 0, 0]"
    by (simp add: packet_stream_new_packet encode_head_def le_bytes_numeral)
  then show ?thesis
    using packets_roundtrip [OF fits, of "[[1, 0, 2, 0, 7, 0, 0], [0, 0, 0, 0, 0, 65, 66, 2, 0], [0, 0, 9, 0, 0, 0, 0, 0, 0, 0]]" 5]
    by (simp only: concat.simps append.simps list.map prod.case simp_thms)
qed

text \<open>The size of a packet is 16 bits wide and so is its sum with the head: of a packet
  whose body has $2^{16} - 12$ to $2^{16} - 1$ bytes, the sender copies out only what is left of
  the sum after it wraps, less than a head, so the receiver never gets the packet.\<close>

theorem oversized_packet_truncated:
  assumes "\<not> fits body" "length body < 2 ^ 16"
  shows "length (packet_stream (new_packet op g body)) < head_size \<and>
    session_parse owner (packet_stream (new_packet op g body)) = ([], packet_stream (new_packet op g body))"
proof -
  have "unat (stream_size (new_packet op g body)) = (head_size + length body) mod 2 ^ 16"
    using unat_of_nat [of "head_size + length body", where ?'a = 16]
    by (simp add: stream_size_def new_packet_def Let_def)
  also have "\<dots> < head_size" using assms by (simp add: fits_def head_size_def mod_if) linarith
  finally have "length (packet_stream (new_packet op g body)) < head_size"
    by (simp add: packet_stream_def min_less_iff_disj)
  then show ?thesis by (simp add: length_le_need)
qed

lemma oversized_packet_truncated_witness:
  "session_parse 0 (packet_stream (new_packet 1 7 (replicate 65530 0))) =
     ([], packet_stream (new_packet 1 7 (replicate 65530 0)))"
  using oversized_packet_truncated [of "replicate 65530 0" 1 7 0]
  by (simp add: fits_def head_size_def)

section \<open>The gate's packets\<close>

text \<open>\<^verbatim>\<open>PacketStream\<close> of the gate: \<^verbatim>\<open>m_total_buffer\<close> holds 12 bytes for the head and then the
  body, \<^verbatim>\<open>m_buffer\<close> points behind the head. The bytes of the head in the buffer are written
  from \<^verbatim>\<open>m_header\<close> by \<^verbatim>\<open>stream()\<close> before they are read, so the model keeps the body part:
  \<open>None\<close> when the buffer is NULL.\<close>

record gate_packet =
  ps_header :: head
  ps_body :: "u8 list option"
  ps_total :: int
  ps_handler :: nat
  ps_location :: u64
  ps_line :: int

definition gate_packet0 :: gate_packet where
  "gate_packet0 = \<lparr> ps_header = \<lparr> h_opcode = 0, h_size = 0, h_guid = 0 \<rparr>, ps_body = None,
     ps_total = int head_size, ps_handler = 0, ps_location = 0, ps_line = 0 \<rparr>"

definition new_gate_packet :: "u16 \<Rightarrow> guid \<Rightarrow> u8 list \<Rightarrow> gate_packet" where
  "new_gate_packet op g msg =
     \<lparr> ps_header = \<lparr> h_opcode = op, h_size = of_nat (length msg), h_guid = g \<rparr>, ps_body = Some msg,
       ps_total = int (head_size + length msg), ps_handler = 0, ps_location = 0, ps_line = 0 \<rparr>"

definition ps_set_header :: "u16 \<Rightarrow> u16 \<Rightarrow> guid \<Rightarrow> gate_packet \<Rightarrow> gate_packet" where
  "ps_set_header op sz g ps = ps\<lparr> ps_header := \<lparr> h_opcode = op, h_size = sz, h_guid = g \<rparr> \<rparr>"

definition ps_guid :: "gate_packet \<Rightarrow> guid" where
  "ps_guid ps = h_guid (ps_header ps)"

definition ps_set_guid :: "guid \<Rightarrow> gate_packet \<Rightarrow> gate_packet" where
  "ps_set_guid g ps = ps\<lparr> ps_header := (ps_header ps)\<lparr> h_guid := g \<rparr> \<rparr>"

definition ps_opcode :: "gate_packet \<Rightarrow> u16" where "ps_opcode ps = h_opcode (ps_header ps)"
definition ps_body_size :: "gate_packet \<Rightarrow> u16" where "ps_body_size ps = h_size (ps_header ps)"

text \<open>\<^verbatim>\<open>re_body\<close> allocates the body; the fresh memory is the parameter \<open>fresh\<close>. \<^verbatim>\<open>memcpy\<close> to
  the result follows.\<close>

definition re_body :: "(nat \<Rightarrow> u8 list) \<Rightarrow> gate_packet \<Rightarrow> gate_packet" where
  "re_body fresh ps =
     (if ps_body ps = None \<and> 0 < ps_body_size ps
      then ps\<lparr> ps_total := int (head_size + unat (ps_body_size ps)),
               ps_body := Some (fresh (unat (ps_body_size ps))) \<rparr>
      else ps)"

definition memcpy_body :: "u8 list \<Rightarrow> gate_packet \<Rightarrow> gate_packet" where
  "memcpy_body src ps = ps\<lparr> ps_body := map_option (\<lambda>b. src @ drop (length src) b) (ps_body ps) \<rparr>"

text \<open>The bytes at \<^verbatim>\<open>stream()\<close>, \<^verbatim>\<open>stream_size()\<close> of them.\<close>

definition ps_stream :: "gate_packet \<Rightarrow> u8 list" where
  "ps_stream ps = take (nat (ps_total ps))
     (case ps_body ps of None \<Rightarrow> encode_head (ps_header ps) | Some b \<Rightarrow> encode_head (ps_header ps) @ b)"

text \<open>\<^verbatim>\<open>resetBody\<close> and \<^verbatim>\<open>clone\<close> copy through the buffer without looking whether there is one:
  \<open>None\<close> is the copy through NULL.\<close>

definition reset_body :: "u8 list \<Rightarrow> gate_packet \<Rightarrow> gate_packet option" where
  "reset_body body ps =
     (let ps' = ps\<lparr> ps_header := (ps_header ps)\<lparr> h_size := of_nat (length body) \<rparr>,
                    ps_total := int (head_size + length body) \<rparr>
      in if unat (ps_body_size ps) < length body
         then Some (ps'\<lparr> ps_body := Some body \<rparr>)
         else map_option (\<lambda>b. ps'\<lparr> ps_body := Some (body @ drop (length body) b) \<rparr>) (ps_body ps))"

definition clone_packet :: "gate_packet \<Rightarrow> gate_packet option" where
  "clone_packet ps =
     map_option (\<lambda>b. ps\<lparr> ps_body := Some (take (nat (ps_total ps) - head_size) b) \<rparr>) (ps_body ps)"

definition reset_packet :: "gate_packet \<Rightarrow> gate_packet" where
  "reset_packet ps = ps\<lparr> ps_body := None \<rparr>"

section \<open>Receiving from a client\<close>

definition client_head_size :: nat where "client_head_size = 4"

definition encode_client_head :: "u16 \<Rightarrow> u16 \<Rightarrow> u8 list" where
  "encode_client_head op sz = le_bytes 2 op @ le_bytes 2 sz"

definition client_opcode :: "u8 list \<Rightarrow> u16" where "client_opcode bs = le_word (take 2 bs)"
definition client_size :: "u8 list \<Rightarrow> u16" where "client_size bs = le_word (take 2 (drop 2 bs))"

definition max_client_body :: nat where "max_client_body = 20000"

text \<open>What the packet of one client frame is; the guid is the one the account plays, whatever
  the client sends.\<close>

definition client_packet :: "(nat \<Rightarrow> u8 list) \<Rightarrow> guid \<Rightarrow> u64 \<Rightarrow> int \<Rightarrow> u8 list \<Rightarrow> gate_packet" where
  "client_packet fresh role location line bs =
     (let ps = ps_set_header (client_opcode bs) (client_size bs) role gate_packet0;
          ps = ps\<lparr> ps_location := location, ps_line := line \<rparr>;
          ps = (if 0 < ps_body_size ps
                then memcpy_body (take (unat (client_size bs)) (drop client_head_size bs)) (re_body fresh ps)
                else ps)
      in ps_set_guid role ps)"

text \<open>\<^verbatim>\<open>ClientSession::parseInputPacket\<close>; no rest is the return value -1.\<close>

function (sequential) client_parse ::
  "(nat \<Rightarrow> u8 list) \<Rightarrow> guid \<Rightarrow> u64 \<Rightarrow> int \<Rightarrow> u8 list \<Rightarrow> gate_packet list \<times> u8 list option" where
  "client_parse fresh role location line bs =
     (if length bs < client_head_size then ([], Some bs)
      else if max_client_body < unat (client_size bs) then ([], None)
      else let n = client_head_size + unat (client_size bs) in
        if n \<le> length bs then
          (let (ps, rest) = client_parse fresh role location line (drop n bs)
           in (client_packet fresh role location line bs # ps, rest))
        else ([], Some bs))"
  by pat_completeness auto
termination
  by (relation "measure (\<lambda>(_, _, _, _, bs). length bs)") (auto simp: client_head_size_def)

declare client_parse.simps [simp del]

definition client_need :: "u8 list \<Rightarrow> nat" where
  "client_need bs = client_head_size + unat (client_size bs)"

definition client_bad :: "u8 list \<Rightarrow> bool" where
  "client_bad bs \<longleftrightarrow> max_client_body < unat (client_size bs)"

lemma client_size_take [simp]: "client_head_size \<le> n \<Longrightarrow> client_size (take n bs) = client_size bs"
  by (simp add: client_size_def client_head_size_def drop_take min_def)

lemma client_opcode_take [simp]: "client_head_size \<le> n \<Longrightarrow> client_opcode (take n bs) = client_opcode bs"
  by (simp add: client_opcode_def client_head_size_def min_def)

lemma client_packet_take:
  "client_packet fresh role loc line (take (client_head_size + unat (client_size bs)) bs) =
    client_packet fresh role loc line bs"
  by (simp add: client_packet_def drop_take Let_def)

interpretation clients: framing client_head_size client_need client_bad
  "client_packet fresh role loc line" "client_parse fresh role loc line" for fresh role loc line
proof
  show "0 < client_head_size" by (simp add: client_head_size_def)
  show "client_head_size \<le> client_need h" for h by (simp add: client_need_def)
next
  fix bs assume "client_head_size \<le> length bs" "\<not> client_bad (take client_head_size bs)"
    "client_need (take client_head_size bs) \<le> length bs"
  then show "client_parse fresh role loc line bs =
      (let (qs, t) = client_parse fresh role loc line (drop (client_need (take client_head_size bs)) bs)
       in (client_packet fresh role loc line (take (client_need (take client_head_size bs)) bs) # qs, t))"
    by (subst client_parse.simps) (simp add: client_need_def client_bad_def client_packet_take)
qed (simp_all add: client_parse.simps [of _ _ _ _ bs for bs] client_need_def client_bad_def)

text \<open>What every packet of a client satisfies when it reaches the gate's queues.\<close>

definition client_packet_ok :: "guid \<Rightarrow> gate_packet \<Rightarrow> bool" where
  "client_packet_ok role ps \<longleftrightarrow> ps_guid ps = role \<and> unat (ps_body_size ps) \<le> max_client_body \<and>
     length (case ps_body ps of None \<Rightarrow> [] | Some b \<Rightarrow> b) = unat (ps_body_size ps) \<and>
     ps_total ps = int (head_size + unat (ps_body_size ps)) \<and>
     length (ps_stream ps) = head_size + unat (ps_body_size ps)"

lemma client_packet_is_ok:
  assumes "\<And>n. length (fresh n) = n" "client_need bs \<le> length bs" "\<not> client_bad bs"
  shows "client_packet_ok role (client_packet fresh role loc line bs)"
proof -
  let ?n = "unat (client_size bs)" and ?body = "take (unat (client_size bs)) (drop client_head_size bs)"
  have len: "length ?body = ?n" "?n \<le> max_client_body"
    using assms(2,3) by (simp_all add: client_need_def client_bad_def)
  show ?thesis
  proof (cases "client_size bs = 0")
    case True
    then show ?thesis
      by (simp add: client_packet_ok_def client_packet_def ps_guid_def ps_set_guid_def ps_body_size_def
          ps_set_header_def gate_packet0_def ps_stream_def Let_def)
  next
    case False
    then have "0 < client_size bs" by (simp add: word_neq_0_conv)
    then have eq: "client_packet fresh role loc line bs =
      \<lparr> ps_header = \<lparr> h_opcode = client_opcode bs, h_size = client_size bs, h_guid = role \<rparr>,
        ps_body = Some ?body, ps_total = int (head_size + ?n), ps_handler = 0, ps_location = loc,
        ps_line = line \<rparr>"
      using len(1) assms(1)
      by (simp add: client_packet_def ps_set_guid_def ps_body_size_def memcpy_body_def re_body_def
          ps_set_header_def gate_packet0_def Let_def)
    show ?thesis unfolding eq using len
      by (simp add: client_packet_ok_def ps_guid_def ps_body_size_def ps_stream_def nat_int_add)
  qed
qed

lemma client_parse_ok:
  assumes "\<And>n. length (fresh n) = n"
  shows "\<forall>ps \<in> set (fst (client_parse fresh role loc line bs)). client_packet_ok role ps"
proof (induction bs rule: clients.parse_induct)
  case (full bs)
  then have "client_packet_ok role (client_packet fresh role loc line bs)"
    using assms by (intro client_packet_is_ok) (simp_all add: client_need_def client_bad_def)
  then show ?case
    using full clients.parse_full [OF full(1-3), of fresh role loc line]
    by (auto simp: client_packet_take client_need_def split: prod.splits)
qed (simp_all add: clients.parse_short clients.parse_wait clients.parse_bad)

text \<open>C27: the gate reads a client's stream the same way however it is cut into chunks: the
  packets and the outcome are those of the whole stream, every packet carries the guid of the
  account and at most 20000 body bytes, all of them present, and what is kept back between two
  reads is less than one frame of the largest size.\<close>

theorem client_stream:
  assumes "\<And>n. length (fresh n) = n"
  shows "feed_chunks (client_parse fresh role loc line) [] chunks = client_parse fresh role loc line (concat chunks) \<and>
    (\<forall>ps \<in> set (fst (client_parse fresh role loc line (concat chunks))). client_packet_ok role ps) \<and>
    (case snd (client_parse fresh role loc line (concat chunks)) of None \<Rightarrow> True
     | Some rest \<Rightarrow> length rest < client_head_size + max_client_body)"
proof -
  have "length r < client_head_size + max_client_body"
    if "client_parse fresh role loc line (concat chunks) = (qs, Some r)" for qs r
  proof -
    have "client_parse fresh role loc line r = ([], Some r)" using that by (rule clients.parse_stuck)
    then have "length r < client_head_size \<or> length r < client_need r \<and> \<not> client_bad r"
      using clients.parse_rest_bound [OF that]
      by (cases "client_head_size \<le> length r")
        (auto simp: client_need_def clients.parse_bad client_bad_def client_parse.simps [of _ _ _ _ r])
    then show ?thesis by (auto simp: client_need_def client_bad_def max_client_body_def)
  qed
  then show ?thesis
    using clients.feed_parse [of fresh role loc line "[]" chunks] client_parse_ok [OF assms]
    by (auto split: option.splits)
      (metis surjective_pairing)
qed

lemma client_stream_witness:
  "feed_chunks (client_parse (\<lambda>n. replicate n 0) 7 0 1) [] [[1, 0, 1], [0, 65, 2]] =
    ([\<lparr> ps_header = \<lparr> h_opcode = 1, h_size = 1, h_guid = 7 \<rparr>, ps_body = Some [65],
        ps_total = 13, ps_handler = 0, ps_location = 0, ps_line = 1 \<rparr>], Some [2])"
proof -
  have "feed_chunks (client_parse (\<lambda>n. replicate n 0) 7 0 1) [] [[1, 0, 1], [0, 65, 2]] =
      client_parse (\<lambda>n. replicate n 0) 7 0 1 [1, 0, 1, 0, 65, 2]"
    using client_stream [of "\<lambda>n. replicate n 0" 7 0 1 "[[1, 0, 1], [0, 65, 2]]"]
    by (simp del: feed_chunks.simps)
  also have "client_parse (\<lambda>n. replicate n 0) 7 0 1 [2] = ([], Some [2])"
    by (simp add: client_parse.simps client_head_size_def)
  then have "client_parse (\<lambda>n. replicate n 0) 7 0 1 [1, 0, 1, 0, 65, 2] =
    ([\<lparr> ps_header = \<lparr> h_opcode = 1, h_size = 1, h_guid = 7 \<rparr>, ps_body = Some [65],
        ps_total = 13, ps_handler = 0, ps_location = 0, ps_line = 1 \<rparr>], Some [2])"
    by (subst client_parse.simps)
       (simp add: client_head_size_def client_size_def client_opcode_def max_client_body_def
        client_packet_def ps_set_header_def ps_body_size_def gate_packet0_def memcpy_body_def
        re_body_def ps_set_guid_def head_size_def numeral_eq_Suc)
  finally show ?thesis .
qed

section \<open>Rewriting a packet of the gate\<close>

definition gate_packet_ok :: "gate_packet \<Rightarrow> bool" where
  "gate_packet_ok ps \<longleftrightarrow>
     (case ps_body ps of
        None \<Rightarrow> ps_body_size ps = 0 \<and> ps_total ps = int head_size
      | Some b \<Rightarrow> unat (ps_body_size ps) \<le> length b \<and> ps_total ps = int (head_size + unat (ps_body_size ps)))"

lemma length_ps_stream:
  "gate_packet_ok ps \<Longrightarrow> length (ps_stream ps) = head_size + unat (ps_body_size ps)"
  by (auto simp: gate_packet_ok_def ps_stream_def split: option.splits)

lemma new_gate_packet_ok: "fits msg \<Longrightarrow> gate_packet_ok (new_gate_packet op g msg)"
  using unat_of_nat_u16 [of "length msg"]
  by (simp add: gate_packet_ok_def new_gate_packet_def ps_body_size_def fits_def)

text \<open>On a packet whose sizes agree, \<^verbatim>\<open>resetBody\<close> with a body that fits leaves a packet
  whose stream is the old opcode and guid, the new size and the new body, and whose sizes agree
  again; \<^verbatim>\<open>clone\<close> gives a packet with the same stream. Both fail, by a copy through NULL, on a
  packet that has no buffer: for \<^verbatim>\<open>resetBody\<close> when the new body is empty, for \<^verbatim>\<open>clone\<close> always.\<close>

theorem gate_packet_rewrite:
  assumes "gate_packet_ok ps" "fits body"
  shows "(case reset_body body ps of
      None \<Rightarrow> ps_body ps = None \<and> body = []
    | Some ps' \<Rightarrow> gate_packet_ok ps' \<and>
        ps_stream ps' = encode_head \<lparr> h_opcode = ps_opcode ps, h_size = of_nat (length body), h_guid = ps_guid ps \<rparr> @ body) \<and>
    (case clone_packet ps of
      None \<Rightarrow> ps_body ps = None
    | Some ps' \<Rightarrow> gate_packet_ok ps' \<and> ps_stream ps' = ps_stream ps)"
proof
  have u: "unat (of_nat (length body) :: u16) = length body"
    using assms(2) unat_of_nat_u16 [of "length body"] by (simp add: fits_def)
  have e: "encode_head (h\<lparr> h_size := s \<rparr>) = encode_head \<lparr> h_opcode = h_opcode h, h_size = s, h_guid = h_guid h \<rparr>"
    for h :: head and s by (simp add: encode_head_def)
  from assms(1) u show "case reset_body body ps of
      None \<Rightarrow> ps_body ps = None \<and> body = []
    | Some ps' \<Rightarrow> gate_packet_ok ps' \<and>
        ps_stream ps' = encode_head \<lparr> h_opcode = ps_opcode ps, h_size = of_nat (length body), h_guid = ps_guid ps \<rparr> @ body"
    by (auto simp: reset_body_def gate_packet_ok_def ps_stream_def ps_opcode_def ps_guid_def
        ps_body_size_def Let_def nat_add_distrib e split: option.splits if_splits)
  from assms(1) show "case clone_packet ps of
      None \<Rightarrow> ps_body ps = None
    | Some ps' \<Rightarrow> gate_packet_ok ps' \<and> ps_stream ps' = ps_stream ps"
    by (auto simp: clone_packet_def gate_packet_ok_def ps_stream_def ps_body_size_def split: option.splits)
qed

lemma gate_packet_rewrite_witness:
  "case reset_body [1, 2] (new_gate_packet 3 4 [9]) of None \<Rightarrow> False
   | Some ps \<Rightarrow> ps_stream ps = encode_head \<lparr> h_opcode = 3, h_size = 2, h_guid = 4 \<rparr> @ [1, 2]"
  using gate_packet_rewrite [of "new_gate_packet 3 4 [9]" "[1, 2]"]
    new_gate_packet_ok [of "[9]" 3 4]
  by (simp add: fits_def head_size_def ps_opcode_def ps_guid_def new_gate_packet_def split: option.splits)

end
