(* ===== verification/Session.thy ===== *)
theory Session
  imports Packets
begin

text \<open>
  One connection of \<^verbatim>\<open>netcore\<close>: \<^verbatim>\<open>src/Sessionx.cpp\<close> and \<^verbatim>\<open>src/CellSessionx.cpp\<close>. Bytes
  come in through \<^verbatim>\<open>rd_stream\<close>, which parses whole packets out of the input block, and leave
  through \<^verbatim>\<open>wt_stream\<close>, which moves the deferred packets into the output block and sends what
  the socket takes.

  \<^verbatim>\<open>ACE_Message_Block\<close> and the socket are not in this repository. The block is the parameter
  \<open>ops\<close>, a record of the operations the code calls, and \<open>block_laws\<close> is what the ACE manual
  says of them; what the socket takes or gives is an argument of each call.
\<close>

section \<open>The message block\<close>

record 'b block_ops =
  mb_data :: "'b \<Rightarrow> u8 list"
  mb_space :: "'b \<Rightarrow> nat"
  mb_size :: "'b \<Rightarrow> nat"
  mb_rd_ptr :: "nat \<Rightarrow> 'b \<Rightarrow> 'b"
  mb_copy :: "u8 list \<Rightarrow> 'b \<Rightarrow> 'b"
  mb_crunch :: "'b \<Rightarrow> 'b"

definition block_laws :: "'b block_ops \<Rightarrow> bool" where
  "block_laws ops \<longleftrightarrow>
     (\<forall>b n. n \<le> length (mb_data ops b) \<longrightarrow>
        mb_data ops (mb_rd_ptr ops n b) = drop n (mb_data ops b) \<and>
        mb_space ops (mb_rd_ptr ops n b) = mb_space ops b \<and>
        mb_size ops (mb_rd_ptr ops n b) = mb_size ops b) \<and>
     (\<forall>b xs. length xs \<le> mb_space ops b \<longrightarrow>
        mb_data ops (mb_copy ops xs b) = mb_data ops b @ xs \<and>
        mb_space ops (mb_copy ops xs b) = mb_space ops b - length xs \<and>
        mb_size ops (mb_copy ops xs b) = mb_size ops b) \<and>
     (\<forall>b. mb_data ops (mb_crunch ops b) = mb_data ops b \<and>
        mb_space ops (mb_crunch ops b) = mb_size ops b - length (mb_data ops b) \<and>
        mb_size ops (mb_crunch ops b) = mb_size ops b)"

lemma block_rd:
  assumes "block_laws ops" "n \<le> length (mb_data ops b)"
  shows "mb_data ops (mb_rd_ptr ops n b) = drop n (mb_data ops b)"
    and "mb_space ops (mb_rd_ptr ops n b) = mb_space ops b"
    and "mb_size ops (mb_rd_ptr ops n b) = mb_size ops b"
  using assms by (auto simp: block_laws_def)

lemma block_copy:
  assumes "block_laws ops" "length xs \<le> mb_space ops b"
  shows "mb_data ops (mb_copy ops xs b) = mb_data ops b @ xs"
    and "mb_space ops (mb_copy ops xs b) = mb_space ops b - length xs"
    and "mb_size ops (mb_copy ops xs b) = mb_size ops b"
  using assms by (auto simp: block_laws_def)

lemma block_crunch:
  assumes "block_laws ops"
  shows "mb_data ops (mb_crunch ops b) = mb_data ops b"
    and "mb_space ops (mb_crunch ops b) = mb_size ops b - length (mb_data ops b)"
    and "mb_size ops (mb_crunch ops b) = mb_size ops b"
  using assms by (auto simp: block_laws_def)

text \<open>A block of the kind the manual describes: the bytes, how many were read off the front,
  and the size. It shows that the laws can hold.\<close>

record ref_block =
  rb_front :: nat
  rb_bytes :: "u8 list"
  rb_size :: nat

definition ref_ops :: "ref_block block_ops" where
  "ref_ops = \<lparr> mb_data = rb_bytes,
     mb_space = (\<lambda>b. rb_size b - rb_front b - length (rb_bytes b)),
     mb_size = rb_size,
     mb_rd_ptr = (\<lambda>n b. b\<lparr> rb_front := rb_front b + n, rb_bytes := drop n (rb_bytes b) \<rparr>),
     mb_copy = (\<lambda>xs b. if length xs \<le> rb_size b - rb_front b - length (rb_bytes b)
                       then b\<lparr> rb_bytes := rb_bytes b @ xs \<rparr> else b),
     mb_crunch = (\<lambda>b. b\<lparr> rb_front := 0 \<rparr>) \<rparr>"

lemma ref_ops_laws: "block_laws ref_ops"
  by (auto simp: block_laws_def ref_ops_def)

section \<open>The session\<close>

datatype session_state = SS_NONE | SS_OPEN | SS_CONNECTED | SS_CLOSE

record 'b session =
  s_state :: session_state
  s_in :: 'b
  s_out :: 'b
  s_deferred :: "packet list"
  s_has_handler :: bool

definition socket_buffer_length :: nat where "socket_buffer_length = 102400"

text \<open>The outcome of one \<^verbatim>\<open>recv\<close>: data, an orderly close, one of the errors that mean try again,
  or another error. The same for one \<^verbatim>\<open>send\<close>, which says how many bytes it took.\<close>

datatype recv_result = Recv "u8 list" | Recv_closed | Recv_again | Recv_failed
datatype send_result = Sent nat | Send_again | Send_failed

text \<open>\<^verbatim>\<open>Sessionx::rd_stream\<close>: the session, the packets handed to the input handler, and the
  result. Without a handler the packets are deleted.\<close>

definition sess_rd_stream ::
  "'b block_ops \<Rightarrow> nat \<Rightarrow> (nat \<Rightarrow> recv_result) \<Rightarrow> 'b session \<Rightarrow> 'b session \<times> packet list \<times> int" where
  "sess_rd_stream ops self recv s =
     (let b = mb_crunch ops (s_in s) in
      case recv (mb_space ops b) of
        Recv bs \<Rightarrow>
          (let b = mb_copy ops bs b;
               (ps, rest) = session_parse self (mb_data ops b);
               b = mb_rd_ptr ops (length (mb_data ops b) - length rest) b
           in (s\<lparr> s_in := b \<rparr>, if s_has_handler s then ps else [], 0))
      | Recv_closed \<Rightarrow> (s\<lparr> s_in := b \<rparr>, [], -1)
      | Recv_again \<Rightarrow> (s\<lparr> s_in := b \<rparr>, [], 0)
      | Recv_failed \<Rightarrow> (s\<lparr> s_in := b \<rparr>, [], -1))"

text \<open>\<^verbatim>\<open>CellSessionx::output\<close> only queues the packet.\<close>

definition sess_output :: "packet \<Rightarrow> 'b session \<Rightarrow> 'b session" where
  "sess_output p s = s\<lparr> s_deferred := s_deferred s @ [p] \<rparr>"

text \<open>The loop of \<^verbatim>\<open>CellSessionx::wt_stream\<close>: packets move while they are smaller than the space.\<close>

fun copy_deferred :: "'b block_ops \<Rightarrow> packet list \<Rightarrow> 'b \<Rightarrow> packet list \<times> 'b" where
  "copy_deferred ops [] b = ([], b)"
| "copy_deferred ops (p # ps) b =
     (if unat (stream_size p) < mb_space ops b
      then copy_deferred ops ps (mb_copy ops (packet_stream p) b)
      else (p # ps, b))"

text \<open>The sending half, shared with \<^verbatim>\<open>Sessionx::wt_stream\<close>: the session, the bytes that left and
  the result.\<close>

definition sess_send ::
  "'b block_ops \<Rightarrow> (u8 list \<Rightarrow> send_result) \<Rightarrow> 'b \<Rightarrow> 'b \<times> u8 list \<times> int" where
  "sess_send ops send b =
     (let (b, sent, res) =
        (if mb_data ops b \<noteq> [] then
           (case send (mb_data ops b) of
              Sent n \<Rightarrow> (mb_rd_ptr ops n b, take n (mb_data ops b), 0)
            | Send_again \<Rightarrow> (b, [], 0)
            | Send_failed \<Rightarrow> (b, [], -1))
         else (b, [], 0))
      in (if length (mb_data ops b) < 500 then mb_crunch ops b else b, sent, res))"

definition sess_wt_stream ::
  "'b block_ops \<Rightarrow> (u8 list \<Rightarrow> send_result) \<Rightarrow> 'b session \<Rightarrow> 'b session \<times> u8 list \<times> int" where
  "sess_wt_stream ops send s =
     (if s_deferred s = [] \<and> mb_data ops (s_out s) = [] then (s, [], 1)
      else
        let (ds, b) = copy_deferred ops (s_deferred s) (s_out s);
            (b, sent, res) = sess_send ops send b
        in (s\<lparr> s_deferred := ds, s_out := b \<rparr>, sent, res))"

text \<open>\<^verbatim>\<open>Sessionx::wt_stream\<close>, for a session without a deferred queue.\<close>

definition base_wt_stream ::
  "'b block_ops \<Rightarrow> (u8 list \<Rightarrow> send_result) \<Rightarrow> 'b session \<Rightarrow> 'b session \<times> u8 list \<times> int" where
  "base_wt_stream ops send s =
     (let (b, sent, res) = sess_send ops send (s_out s)
      in (s\<lparr> s_out := b \<rparr>, sent, if mb_data ops (s_out s) = [] then 1 else res))"

text \<open>\<^verbatim>\<open>handle_input\<close>, \<^verbatim>\<open>handle_output\<close> and \<^verbatim>\<open>close\<close>; the flag says that \<^verbatim>\<open>net_closed\<close> was called.\<close>

definition sess_handle_output ::
  "'b block_ops \<Rightarrow> (u8 list \<Rightarrow> send_result) \<Rightarrow> 'b session \<Rightarrow> 'b session \<times> int" where
  "sess_handle_output ops send s =
     (case sess_wt_stream ops send s of (s', _, r) \<Rightarrow> (s', if r = -1 then -1 else 0))"

text \<open>\<^verbatim>\<open>open\<close>: the result of \<^verbatim>\<open>ACE_Svc_Handler::open\<close> is an argument; the flag says that the pool is
  notified.\<close>

definition sess_open :: "int \<Rightarrow> 'b session \<Rightarrow> 'b session \<times> int \<times> bool" where
  "sess_open super_open s =
     (let s = s\<lparr> s_state := SS_OPEN \<rparr>
      in if super_open = -1 then (s, -1, False) else (s, 0, True))"

definition sess_close :: "'b session \<Rightarrow> 'b session \<times> bool" where
  "sess_close s = (if s_state s \<noteq> SS_CLOSE then (s\<lparr> s_state := SS_CLOSE \<rparr>, True) else (s, False))"

definition new_session :: "'b \<Rightarrow> 'b session" where
  "new_session blk = \<lparr> s_state = SS_NONE, s_in = blk, s_out = blk, s_deferred = [],
     s_has_handler = False \<rparr>"

section \<open>Receiving\<close>

text \<open>Between two reads the input block holds the start of one packet.\<close>

definition in_ok :: "'b block_ops \<Rightarrow> nat \<Rightarrow> 'b session \<Rightarrow> bool" where
  "in_ok ops self s \<longleftrightarrow> mb_size ops (s_in s) = socket_buffer_length \<and>
     session_parse self (mb_data ops (s_in s)) = ([], mb_data ops (s_in s))"

definition max_packet :: nat where "max_packet = 12 + 65535"

lemma packet_need_le_max: "packet_need bs \<le> max_packet"
  using unsigned_less [of "h_size (decode_head bs)", where ?'a = nat]
  by (simp add: packet_need_def head_size_def max_packet_def)

lemma session_parse_suffix:
  "session_parse self bs = (ps, r) \<Longrightarrow> length r \<le> length bs \<and> r = drop (length bs - length r) bs"
proof (induction self bs arbitrary: ps r rule: session_parse.induct)
  case (1 self bs)
  let ?h = "decode_head bs" and ?n = "head_size + unat (h_size (decode_head bs))"
  show ?case
  proof (cases "length bs < head_size \<or> length bs < ?n")
    case True
    then show ?thesis using 1(2) by (auto simp: session_parse.simps [of self bs] Let_def split: if_splits)
  next
    case False
    then obtain ps' where r: "session_parse self (drop ?n bs) = (ps', r)"
      using 1(2) by (auto simp: session_parse.simps [of self bs] Let_def split: if_splits prod.splits)
    have "length r \<le> length (drop ?n bs) \<and> r = drop (length (drop ?n bs) - length r) (drop ?n bs)"
      using 1(1) [OF _ refl refl _ refl r [symmetric, THEN sym]] False by auto
    then show ?thesis using False by (auto simp: add.commute)
  qed
qed

lemma session_parse_bound:
  assumes "session_parse self bs = (ps, r)"
  shows "length r < max_packet"
proof -
  have "map_prod id Some (session_parse self bs) = (ps, Some r)"
    using assms by simp
  moreover have "head_size < max_packet" by (simp add: head_size_def max_packet_def)
  ultimately show ?thesis
    using servers.parse_rest_bound [of self bs ps r] packet_need_le_max [of r] by auto
qed

lemma session_parse_stuck: "session_parse self bs = (ps, r) \<Longrightarrow> session_parse self r = ([], r)"
  using servers.parse_stuck [of self bs ps r] by (simp add: session_parse_recv)

text \<open>A session whose block holds the start of one packet always offers \<^verbatim>\<open>recv\<close> more than
  36000 bytes of space, so a zero from \<^verbatim>\<open>recv\<close> means that the peer closed; whatever bytes come,
  the packets handed over are those the buffered and the new bytes hold, the rest is kept, and
  the block again holds the start of one packet. Only a close or an error gives -1.\<close>

theorem rd_stream_step:
  assumes "block_laws ops" "in_ok ops self s" "s_has_handler s"
    and "\<And>n bs. recv n = Recv bs \<Longrightarrow> length bs \<le> n"
  shows "case sess_rd_stream ops self recv s of (s', ps, res) \<Rightarrow>
    (\<exists>n > 36000. mb_space ops (mb_crunch ops (s_in s)) = n \<and>
      (case recv n of
         Recv bs \<Rightarrow> session_parse self (mb_data ops (s_in s) @ bs) = (ps, mb_data ops (s_in s')) \<and> res = 0
       | Recv_again \<Rightarrow> ps = [] \<and> mb_data ops (s_in s') = mb_data ops (s_in s) \<and> res = 0
       | _ \<Rightarrow> ps = [] \<and> mb_data ops (s_in s') = mb_data ops (s_in s) \<and> res = -1)) \<and>
    in_ok ops self s'"
proof -
  let ?b = "mb_crunch ops (s_in s)"
  note crunch = block_crunch [OF assms(1)]
  have "length (mb_data ops (s_in s)) < max_packet"
    using assms(2) session_parse_bound by (auto simp: in_ok_def)
  then have space: "36000 < mb_space ops ?b"
    using assms(2) by (simp add: in_ok_def crunch socket_buffer_length_def max_packet_def)
  show ?thesis
  proof (cases "recv (mb_space ops ?b)")
    case (Recv bs)
    let ?c = "mb_copy ops bs ?b"
    have copy: "mb_data ops ?c = mb_data ops (s_in s) @ bs" "mb_size ops ?c = socket_buffer_length"
      using block_copy [OF assms(1), of bs ?b] assms(2,4) Recv by (auto simp: crunch in_ok_def)
    obtain ps r where p: "session_parse self (mb_data ops (s_in s) @ bs) = (ps, r)" by fastforce
    note suffix = session_parse_suffix [OF p]
    have "mb_data ops (mb_rd_ptr ops (length (mb_data ops ?c) - length r) ?c) = r"
      "mb_size ops (mb_rd_ptr ops (length (mb_data ops ?c) - length r) ?c) = socket_buffer_length"
      using block_rd [OF assms(1), of "length (mb_data ops ?c) - length r" ?c] suffix copy by auto
    then show ?thesis
      using space Recv p assms(3) session_parse_stuck [OF p]
      by (simp add: sess_rd_stream_def copy in_ok_def)
  qed (use space assms(2) in \<open>simp_all add: sess_rd_stream_def in_ok_def crunch\<close>)
qed

text \<open>A session as the constructor leaves it, over a block of the manual's kind.\<close>

definition ref_session :: "ref_block session" where
  "ref_session = (new_session \<lparr> rb_front = 0, rb_bytes = [], rb_size = socket_buffer_length \<rparr>)
     \<lparr> s_has_handler := True \<rparr>"

lemma rd_stream_step_witness:
  "case sess_rd_stream ref_ops 3 (\<lambda>n. Recv (take n [1, 0])) ref_session of (s', ps, res) \<Rightarrow>
     session_parse 3 [1, 0] = (ps, rb_bytes (s_in s')) \<and> res = 0"
proof -
  have "in_ok ref_ops 3 ref_session"
    by (simp add: in_ok_def ref_session_def new_session_def ref_ops_def length_le_need head_size_def)
  then have "case sess_rd_stream ref_ops 3 (\<lambda>n. Recv (take n [1, 0])) ref_session of (s', ps, res) \<Rightarrow>
    (\<exists>n > 36000. mb_space ref_ops (mb_crunch ref_ops (s_in ref_session)) = n \<and>
      session_parse 3 (mb_data ref_ops (s_in ref_session) @ take n [1, 0]) = (ps, mb_data ref_ops (s_in s')) \<and> res = 0)"
    using rd_stream_step [OF ref_ops_laws, of 3 ref_session "\<lambda>n. Recv (take n [1, 0])"]
    by (auto simp: ref_session_def split: prod.splits)
  then show ?thesis
    by (auto simp: ref_session_def new_session_def ref_ops_def split: prod.splits)
qed

section \<open>Sending\<close>

text \<open>What is still to be sent: the output block and then the deferred packets.\<close>

definition wire :: "'b block_ops \<Rightarrow> 'b session \<Rightarrow> u8 list" where
  "wire ops s = mb_data ops (s_out s) @ concat (map packet_stream (s_deferred s))"

definition stream_ok :: "packet \<Rightarrow> bool" where
  "stream_ok p \<longleftrightarrow> length (packet_stream p) = unat (stream_size p)"

definition out_ok :: "'b block_ops \<Rightarrow> 'b session \<Rightarrow> bool" where
  "out_ok ops s \<longleftrightarrow> mb_size ops (s_out s) = socket_buffer_length \<and>
     (length (mb_data ops (s_out s)) < 500 \<longrightarrow>
        mb_space ops (s_out s) = socket_buffer_length - length (mb_data ops (s_out s))) \<and>
     (\<forall>p \<in> set (s_deferred s). stream_ok p)"

definition takes :: "(u8 list \<Rightarrow> send_result) \<Rightarrow> bool" where
  "takes send \<longleftrightarrow> (\<forall>xs n. send xs = Sent n \<longrightarrow> 0 < n \<and> n \<le> length xs)"

lemma stream_ok_new_packet: "stream_ok (new_packet op g body)"
proof -
  have "unat (stream_size (new_packet op g body)) \<le> head_size + length body"
  proof -
    have "stream_size (new_packet op g body) = of_nat (head_size + length body)"
      by (simp add: stream_size_def new_packet_def Let_def)
    then show ?thesis by (metis unat_of_nat mod_less_eq_dividend)
  qed
  moreover have "stream_ok p" if "p_buffer p = Some b" "unat (stream_size p) \<le> length b" for p b
    using that by (simp add: stream_ok_def packet_stream_def)
  ultimately show ?thesis by (simp add: new_packet_def Let_def)
qed

lemma copy_deferred_spec:
  assumes "block_laws ops" "\<forall>p \<in> set ds. stream_ok p" "copy_deferred ops ds b = (ds', b')"
  shows "mb_data ops b' @ concat (map packet_stream ds') = mb_data ops b @ concat (map packet_stream ds)"
    and "mb_size ops b' = mb_size ops b" and "set ds' \<subseteq> set ds" and "length ds' \<le> length ds"
    and "ds' \<noteq> [] \<Longrightarrow> mb_space ops b' \<le> unat (stream_size (hd ds'))"
    and "ds' = ds \<and> b' = b \<or> length ds' < length ds"
  using assms(2,3)
proof (induction ds arbitrary: b)
  case (Cons p ds)
  { case 1 then show ?case
      using Cons(1) [of "mb_copy ops (packet_stream p) b"] block_copy [OF assms(1), of "packet_stream p" b]
      by (auto simp: stream_ok_def split: if_splits) }
  { case 2 then show ?case
      using Cons(2) [of "mb_copy ops (packet_stream p) b"] block_copy [OF assms(1), of "packet_stream p" b]
      by (auto simp: stream_ok_def split: if_splits) }
  { case 3 then show ?case
      using Cons(3) [of "mb_copy ops (packet_stream p) b"] by (auto split: if_splits) }
  { case 4 then show ?case
      using Cons(4) [of "mb_copy ops (packet_stream p) b"] by (auto split: if_splits) }
  { case 5 then show ?case
      using Cons(5) [of "mb_copy ops (packet_stream p) b"] by (auto split: if_splits) }
  { case 6 then show ?case
      using Cons(4) [of "mb_copy ops (packet_stream p) b"] by (auto split: if_splits) }
qed simp_all

lemma sess_send_spec:
  assumes "block_laws ops" "takes send" "sess_send ops send b = (b', sent, res)"
  shows "sent @ mb_data ops b' = mb_data ops b" and "mb_size ops b' = mb_size ops b"
    and "length (mb_data ops b') < 500 \<Longrightarrow> mb_space ops b' = mb_size ops b' - length (mb_data ops b')"
    and "mb_data ops b \<noteq> [] \<Longrightarrow> (\<exists>n. send (mb_data ops b) = Sent n) \<Longrightarrow> sent \<noteq> []"
    and "res = -1 \<longleftrightarrow> mb_data ops b \<noteq> [] \<and> send (mb_data ops b) = Send_failed" and "res \<in> {0, -1}"
proof -
  have "send xs \<noteq> Sent 0" for xs using assms(2) by (auto simp: takes_def)
  note facts = assms block_rd [OF assms(1)] this
  show "sent @ mb_data ops b' = mb_data ops b" "mb_size ops b' = mb_size ops b"
    "res = -1 \<longleftrightarrow> mb_data ops b \<noteq> [] \<and> send (mb_data ops b) = Send_failed" "res \<in> {0, -1}"
    using facts by (auto simp: sess_send_def takes_def block_crunch split: if_splits send_result.splits)
  show "mb_space ops b' = mb_size ops b' - length (mb_data ops b')" if "length (mb_data ops b') < 500"
    using facts that by (auto simp: sess_send_def takes_def block_crunch split: if_splits send_result.splits)
  show "sent \<noteq> []" if "mb_data ops b \<noteq> []" "\<exists>n. send (mb_data ops b) = Sent n"
    using facts that by (auto simp: sess_send_def takes_def split: if_splits)
qed

text \<open>The bytes one call offers to the socket.\<close>

definition to_send :: "'b block_ops \<Rightarrow> 'b session \<Rightarrow> u8 list" where
  "to_send ops s = mb_data ops (snd (copy_deferred ops (s_deferred s) (s_out s)))"

lemma stream_size_bound: "unat (stream_size p) < 2 ^ 16"
  using unsigned_less [of "stream_size p", where ?'a = nat] by simp

lemma wt_stream_spec:
  assumes "block_laws ops" "takes send" "out_ok ops s" "sess_wt_stream ops send s = (s', sent, res)"
  shows "sent @ wire ops s' = wire ops s" "out_ok ops s'"
    "res = 1 \<longleftrightarrow> s_deferred s = [] \<and> mb_data ops (s_out s) = []"
    "res = -1 \<longleftrightarrow> to_send ops s \<noteq> [] \<and> send (to_send ops s) = Send_failed"
proof -
  have "sent @ wire ops s' = wire ops s \<and> out_ok ops s' \<and>
    (res = 1 \<longleftrightarrow> s_deferred s = [] \<and> mb_data ops (s_out s) = []) \<and>
    (res = -1 \<longleftrightarrow> to_send ops s \<noteq> [] \<and> send (to_send ops s) = Send_failed)"
  proof (cases "s_deferred s = [] \<and> mb_data ops (s_out s) = []")
    case True
    with assms(4) have "s' = s" "sent = []" "res = 1" by (simp_all add: sess_wt_stream_def)
    then show ?thesis using True assms(3) by (simp add: to_send_def)
  next
    case False
    obtain ds b where cd: "copy_deferred ops (s_deferred s) (s_out s) = (ds, b)" by fastforce
    obtain b' sent' res' where sd: "sess_send ops send b = (b', sent', res')" by (metis prod_cases3)
    have ok: "\<forall>p \<in> set (s_deferred s). stream_ok p" using assms(3) by (simp add: out_ok_def)
    note c = copy_deferred_spec [OF assms(1) ok cd] and d = sess_send_spec [OF assms(1,2) sd]
    have w: "sent' @ mb_data ops b' @ concat (map packet_stream ds) = wire ops s"
      using c(1) d(1) by (metis append.assoc wire_def)
    have eqs: "s' = s\<lparr> s_deferred := ds, s_out := b' \<rparr>" "sent = sent'" "res = res'"
      using assms(4) False by (simp_all add: sess_wt_stream_def cd sd)
    have "out_ok ops s'" using assms(3) c(2,3) d(2,3) by (auto simp: out_ok_def eqs)
    moreover have "res' \<noteq> 1" using d(6) by auto
    ultimately show ?thesis
      using False w d(5) by (simp add: eqs wire_def to_send_def cd)
  qed
  then show "sent @ wire ops s' = wire ops s" "out_ok ops s'"
    "res = 1 \<longleftrightarrow> s_deferred s = [] \<and> mb_data ops (s_out s) = []"
    "res = -1 \<longleftrightarrow> to_send ops s \<noteq> [] \<and> send (to_send ops s) = Send_failed" by blast+
qed

text \<open>C29: no byte is lost, doubled or reordered on the way out: what one call of
  \<^verbatim>\<open>wt_stream\<close> hands to the socket, followed by what is still to be sent after it, is what was
  to be sent before, whether the socket takes some of it, none of it or fails. The result is 1
  exactly when there is nothing to send, and -1 exactly when the socket failed.\<close>

theorem wt_stream_conserves:
  assumes "block_laws ops" "takes send" "out_ok ops s"
  shows "case sess_wt_stream ops send s of (s', sent, res) \<Rightarrow>
    sent @ wire ops s' = wire ops s \<and> out_ok ops s' \<and>
    (res = 1 \<longleftrightarrow> s_deferred s = [] \<and> mb_data ops (s_out s) = []) \<and>
    (res = -1 \<longleftrightarrow> to_send ops s \<noteq> [] \<and> send (to_send ops s) = Send_failed)"
proof -
  obtain s' sent res where st: "sess_wt_stream ops send s = (s', sent, res)" by (metis prod_cases3)
  show ?thesis using wt_stream_spec [OF assms st] unfolding st prod.case by blast
qed

text \<open>Calling it again and again, with the bytes that left.\<close>

primrec wt_run :: "'b block_ops \<Rightarrow> (u8 list \<Rightarrow> send_result) \<Rightarrow> nat \<Rightarrow> 'b session \<Rightarrow> 'b session \<times> u8 list" where
  "wt_run ops send 0 s = (s, [])"
| "wt_run ops send (Suc n) s =
     (let (s', sent, _) = sess_wt_stream ops send s; (s'', rest) = wt_run ops send n s'
      in (s'', sent @ rest))"

definition unsent :: "'b block_ops \<Rightarrow> 'b session \<Rightarrow> nat" where
  "unsent ops s = length (wire ops s) + length (s_deferred s)"

lemma wt_stream_progress:
  assumes "block_laws ops" "takes send" "out_ok ops s" "\<And>xs. xs \<noteq> [] \<Longrightarrow> \<exists>n. send xs = Sent n"
    and "s_deferred s \<noteq> [] \<or> mb_data ops (s_out s) \<noteq> []"
  shows "unsent ops (fst (sess_wt_stream ops send s)) < unsent ops s"
proof -
  obtain ds b where cd: "copy_deferred ops (s_deferred s) (s_out s) = (ds, b)" by fastforce
  obtain b' sent res where sd: "sess_send ops send b = (b', sent, res)" by (metis prod_cases3)
  have ok: "\<forall>p \<in> set (s_deferred s). stream_ok p" using assms(3) by (simp add: out_ok_def)
  note c = copy_deferred_spec [OF assms(1) ok cd] and d = sess_send_spec [OF assms(1,2) sd]
  have len: "length sent + length (mb_data ops b' @ concat (map packet_stream ds)) = length (wire ops s)"
    using c(1) d(1) by (metis append.assoc length_append wire_def)
  have "0 < length sent \<or> length ds < length (s_deferred s)"
  proof (cases "mb_data ops b = []")
    case True
    show ?thesis
    proof (rule ccontr)
      assume "\<not> ?thesis"
      then have eq: "ds = s_deferred s" "b = s_out s" using c(6) by auto
      with True assms(5) have "mb_space ops b \<le> unat (stream_size (hd ds))" using c(5) by simp
      then show False
        using eq True assms(3) stream_size_bound [of "hd ds"]
        by (simp add: out_ok_def socket_buffer_length_def)
    qed
  next
    case False
    then show ?thesis using d(4) assms(4) by blast
  qed
  then have key: "length ds < length sent + length (s_deferred s)"
    using c(4) by linarith
  then show ?thesis
    using assms(5) len by (auto simp: sess_wt_stream_def cd sd unsent_def wire_def)
qed

text \<open>When the socket takes at least a byte at each call, enough calls of \<^verbatim>\<open>wt_stream\<close> send
  everything that was queued, in order, and leave nothing behind: no packet is too large for
  the output block and none blocks the queue.\<close>

theorem wt_stream_drains:
  assumes "block_laws ops" "takes send" "out_ok ops s" "\<And>xs. xs \<noteq> [] \<Longrightarrow> \<exists>n. send xs = Sent n"
  shows "\<exists>n. case wt_run ops send n s of (s', sent) \<Rightarrow>
    sent = wire ops s \<and> s_deferred s' = [] \<and> mb_data ops (s_out s') = []"
  using assms(3)
proof (induction "unsent ops s" arbitrary: s rule: less_induct)
  case less
  show ?case
  proof (cases "s_deferred s = [] \<and> mb_data ops (s_out s) = []")
    case True
    then have "case wt_run ops send 0 s of (s', sent) \<Rightarrow>
        sent = wire ops s \<and> s_deferred s' = [] \<and> mb_data ops (s_out s') = []"
      by (simp add: wire_def)
    then show ?thesis by (rule exI)
  next
    case False
    obtain s' sent res where st: "sess_wt_stream ops send s = (s', sent, res)" by (metis prod_cases3)
    note ok = wt_stream_spec [OF assms(1,2) less.prems st]
    have lt: "unsent ops s' < unsent ops s"
      using wt_stream_progress [OF assms(1,2) less.prems assms(4)] False st by auto
    obtain n where "case wt_run ops send n s' of (s'', rest) \<Rightarrow>
        rest = wire ops s' \<and> s_deferred s'' = [] \<and> mb_data ops (s_out s'') = []"
      using less.hyps [OF lt ok(2)] ..
    then have "case wt_run ops send (Suc n) s of (s'', rest) \<Rightarrow>
        rest = wire ops s \<and> s_deferred s'' = [] \<and> mb_data ops (s_out s'') = []"
      using st ok by (auto split: prod.splits)
    then show ?thesis by (rule exI)
  qed
qed

lemma out_ok_ref: "\<forall>p \<in> set ps. stream_ok p \<Longrightarrow> out_ok ref_ops (ref_session\<lparr> s_deferred := ps \<rparr>)"
  by (simp add: out_ok_def ref_session_def new_session_def ref_ops_def)

text \<open>A socket that takes at most \<open>k\<close> bytes at a time.\<close>

definition slow_socket :: "nat \<Rightarrow> u8 list \<Rightarrow> send_result" where
  "slow_socket k xs = (if xs = [] then Send_again else Sent (min (Suc k) (length xs)))"

lemma takes_slow_socket: "takes (slow_socket k)"
  by (auto simp: takes_def slow_socket_def split: if_splits)

lemma slow_socket_sends: "xs \<noteq> [] \<Longrightarrow> \<exists>n. slow_socket k xs = Sent n"
  by (simp add: slow_socket_def)

lemma wire_ref_session: "wire ref_ops (ref_session\<lparr> s_deferred := ps \<rparr>) = concat (map packet_stream ps)"
  by (simp add: wire_def ref_session_def new_session_def ref_ops_def)

lemma wt_stream_drains_witness:
  "\<exists>n. case wt_run ref_ops (slow_socket 4) n
      (ref_session\<lparr> s_deferred := [new_packet 1 2 [3], new_packet 4 5 []] \<rparr>) of (s', sent) \<Rightarrow>
    sent = concat (map packet_stream [new_packet 1 2 [3], new_packet 4 5 []]) \<and>
    s_deferred s' = [] \<and> mb_data ref_ops (s_out s') = []"
proof -
  have "\<forall>p \<in> set [new_packet 1 2 [3], new_packet 4 5 []]. stream_ok p"
    by (simp add: stream_ok_new_packet)
  from wt_stream_drains [OF ref_ops_laws takes_slow_socket out_ok_ref [OF this] slow_socket_sends]
  show ?thesis unfolding wire_ref_session .
qed

lemma wt_stream_conserves_witness:
  "case sess_wt_stream ref_ops (slow_socket 4) (ref_session\<lparr> s_deferred := [new_packet 1 2 [3]] \<rparr>) of
    (s', sent, res) \<Rightarrow> sent @ wire ref_ops s' = packet_stream (new_packet 1 2 [3]) \<and> res \<noteq> 1"
proof -
  have "\<forall>p \<in> set [new_packet 1 2 [3]]. stream_ok p"
    by (simp add: stream_ok_new_packet)
  from wt_stream_conserves [OF ref_ops_laws takes_slow_socket [of 4] out_ok_ref [OF this]]
  show ?thesis unfolding wire_ref_session by (simp split: prod.splits)
qed

end
