(* ===== verification/SessionPool.thy ===== *)
theory SessionPool
  imports Prelude
begin

text \<open>
  Who owns a connection: \<^verbatim>\<open>netcore/src/SessionPoolImp.cpp\<close>, \<^verbatim>\<open>InputSessionPool.cpp\<close> and
  \<^verbatim>\<open>OutputSessionPool.cpp\<close>. A session object is counted twice in \<^verbatim>\<open>m_cell_session_map\<close>, once
  for the input thread, which reports the close, and once for the output thread it was assigned
  to; the object is deleted when both have let go. Sessions are named by their address. The
  handlers run under the mutexes of the code, one event at a time.

  The output threads keep their sessions in a \<^verbatim>\<open>boost::unordered_set\<close>; the iterations over it
  commute, the model takes the order of the addresses.
\<close>

section \<open>State\<close>

record out_thread =
  ot_add :: "nat fset"
  ot_remove :: "nat fset"
  ot_cells :: "nat fset"

record session_pool =
  sp_refs :: "nat \<Rightarrow> int option"
  sp_in_threads :: nat
  sp_in_index :: nat
  sp_in_map :: "nat \<Rightarrow> nat option"
  sp_out_index :: nat
  sp_out_map :: "nat \<Rightarrow> nat option"
  sp_threads :: "out_thread list"
  sp_deleted :: "nat list"

definition empty_out_thread :: out_thread where
  "empty_out_thread = \<lparr> ot_add = {||}, ot_remove = {||}, ot_cells = {||} \<rparr>"

definition new_session_pool :: "nat \<Rightarrow> nat \<Rightarrow> session_pool" where
  "new_session_pool ins outs =
     \<lparr> sp_refs = (\<lambda>_. None), sp_in_threads = ins, sp_in_index = 0, sp_in_map = (\<lambda>_. None),
       sp_out_index = 0, sp_out_map = (\<lambda>_. None), sp_threads = replicate outs empty_out_thread,
       sp_deleted = [] \<rparr>"

section \<open>Operations\<close>

text \<open>\<^verbatim>\<open>InputSessionPool::handleSession\<close> and \<^verbatim>\<open>OutputSessionPool::handleSession\<close>: the next thread
  in turn takes the session.\<close>

definition in_handle_session :: "nat \<Rightarrow> session_pool \<Rightarrow> session_pool" where
  "in_handle_session a p =
     (if sp_in_threads p = 0 then p
      else p\<lparr> sp_in_map := (sp_in_map p)(a \<mapsto> sp_in_index p mod sp_in_threads p),
              sp_in_index := sp_in_index p + 1 \<rparr>)"

definition out_handle_session :: "nat \<Rightarrow> session_pool \<Rightarrow> session_pool" where
  "out_handle_session a p =
     (if sp_threads p = [] then p
      else let i = sp_out_index p mod length (sp_threads p); t = sp_threads p ! i
           in p\<lparr> sp_out_index := sp_out_index p + 1,
                 sp_threads := (sp_threads p)[i := t\<lparr> ot_add := finsert a (ot_add t) \<rparr>],
                 sp_out_map := (sp_out_map p)(a \<mapsto> i) \<rparr>)"

definition out_remove_session :: "nat \<Rightarrow> session_pool \<Rightarrow> session_pool" where
  "out_remove_session a p =
     (case sp_out_map p a of
        None \<Rightarrow> p
      | Some i \<Rightarrow>
          let t = sp_threads p ! i
          in p\<lparr> sp_threads := (sp_threads p)[i := t\<lparr> ot_remove := finsert a (ot_remove t) \<rparr>],
                sp_out_map := (sp_out_map p)(a := None) \<rparr>)"

text \<open>\<^verbatim>\<open>SessionPoolImp::sessionOpen\<close>; \<^verbatim>\<open>std::map::insert\<close> keeps an entry that is there.\<close>

definition sp_session_open :: "nat \<Rightarrow> session_pool \<Rightarrow> session_pool" where
  "sp_session_open a p =
     (let p = (if sp_refs p a = None then p\<lparr> sp_refs := (sp_refs p)(a \<mapsto> 2) \<rparr> else p)
      in out_handle_session a (in_handle_session a p))"

text \<open>\<^verbatim>\<open>SessionPoolImp::connect\<close>: for each address the session object and whether the connection
  and its \<^verbatim>\<open>open\<close> succeed; it stops at the first failure.\<close>

fun sp_connect :: "(nat \<times> bool \<times> bool) list \<Rightarrow> session_pool \<Rightarrow> session_pool \<times> bool" where
  "sp_connect [] p = (p, True)"
| "sp_connect ((a, connected, opened) # cs) p =
     (if connected \<and> opened then sp_connect cs (sp_session_open a p) else (p, False))"

text \<open>\<^verbatim>\<open>SessionPoolImp::removeSession\<close>: the object goes when its count reaches 0.\<close>

definition sp_remove_session :: "nat \<Rightarrow> session_pool \<Rightarrow> session_pool" where
  "sp_remove_session a p =
     (case sp_refs p a of
        None \<Rightarrow> p
      | Some n \<Rightarrow>
          if n - 1 = 0 then p\<lparr> sp_refs := (sp_refs p)(a := None), sp_deleted := a # sp_deleted p \<rparr>
          else p\<lparr> sp_refs := (sp_refs p)(a \<mapsto> n - 1) \<rparr>)"

definition sp_session_closed :: "nat \<Rightarrow> session_pool \<Rightarrow> session_pool" where
  "sp_session_closed a p = out_remove_session a (sp_remove_session a p)"

text \<open>The head of the loop of \<^verbatim>\<open>OutputSessionPool::svc\<close> in thread \<open>i\<close>: first the sessions to
  remove are let go, then the new ones are taken.\<close>

definition out_let_go :: "nat \<Rightarrow> nat \<Rightarrow> session_pool \<Rightarrow> session_pool" where
  "out_let_go i a p =
     (let t = sp_threads p ! i in
      if a |\<in>| ot_cells t
      then sp_remove_session a (p\<lparr> sp_threads := (sp_threads p)[i := t\<lparr> ot_cells := ot_cells t |-| {|a|} \<rparr>] \<rparr>)
      else p)"

definition out_collect :: "nat \<Rightarrow> session_pool \<Rightarrow> session_pool" where
  "out_collect i p =
     (let p = fold (out_let_go i) (fs_items (ot_remove (sp_threads p ! i))) p;
          t = sp_threads p ! i
      in p\<lparr> sp_threads := (sp_threads p)[i :=
              t\<lparr> ot_remove := {||}, ot_cells := ot_cells t |\<union>| ot_add t, ot_add := {||} \<rparr>] \<rparr>)"

text \<open>The writing half of the loop: what matters here is that a session whose write failed leaves
  the set of the thread.\<close>

definition out_write :: "nat \<Rightarrow> nat \<Rightarrow> int \<Rightarrow> session_pool \<Rightarrow> session_pool" where
  "out_write i a res p =
     (let t = sp_threads p ! i in
      if a |\<in>| ot_cells t \<and> res = -1
      then p\<lparr> sp_threads := (sp_threads p)[i := t\<lparr> ot_cells := ot_cells t |-| {|a|} \<rparr>] \<rparr>
      else p)"

section \<open>Events\<close>

datatype pool_event = Session_open nat | Session_closed nat | Collect nat | Write_result nat nat int

fun pool_event_step :: "pool_event \<Rightarrow> session_pool \<Rightarrow> session_pool" where
  "pool_event_step (Session_open a) p = sp_session_open a p"
| "pool_event_step (Session_closed a) p = sp_session_closed a p"
| "pool_event_step (Collect i) p = out_collect i p"
| "pool_event_step (Write_result i a r) p = out_write i a r p"

text \<open>What the environment guarantees: a new object has an address no live object has, the input
  thread reports the close of a session once, the output threads are those that exist.\<close>

fun pool_event_allowed :: "pool_event \<Rightarrow> session_pool \<Rightarrow> bool" where
  "pool_event_allowed (Session_open a) p \<longleftrightarrow> sp_refs p a = None"
| "pool_event_allowed (Session_closed a) p \<longleftrightarrow> sp_refs p a = Some 2"
| "pool_event_allowed (Collect i) p \<longleftrightarrow> i < length (sp_threads p)"
| "pool_event_allowed (Write_result i a r) p \<longleftrightarrow> i < length (sp_threads p)"

section \<open>Invariant\<close>

definition touched :: "out_thread \<Rightarrow> nat set" where
  "touched t = fset (ot_cells t) \<union> fset (ot_add t) \<union> fset (ot_remove t)"

definition pool_ok :: "session_pool \<Rightarrow> bool" where
  "pool_ok p \<longleftrightarrow> sp_threads p \<noteq> [] \<and>
     (\<forall>a. sp_refs p a = None \<and> sp_out_map p a = None \<or>
          sp_refs p a = Some 2 \<and> sp_out_map p a \<noteq> None \<or>
          sp_refs p a = Some 1 \<and> sp_out_map p a = None) \<and>
     (\<forall>a i. sp_out_map p a = Some i \<longrightarrow> i < length (sp_threads p) \<and>
          (\<forall>j < length (sp_threads p). a \<in> touched (sp_threads p ! j) \<longrightarrow> j = i)) \<and>
     (\<forall>i < length (sp_threads p). \<forall>a. a \<in> touched (sp_threads p ! i) \<longrightarrow> sp_refs p a \<noteq> None) \<and>
     (\<forall>i < length (sp_threads p). \<forall>a. a |\<in>| ot_remove (sp_threads p ! i) \<longrightarrow> sp_refs p a = Some 1) \<and>
     (\<forall>i < length (sp_threads p). \<forall>j < length (sp_threads p). \<forall>a.
        a \<in> touched (sp_threads p ! i) \<longrightarrow> a \<in> touched (sp_threads p ! j) \<longrightarrow> i = j) \<and>
     (\<forall>i < length (sp_threads p). ot_cells (sp_threads p ! i) |\<inter>| ot_add (sp_threads p ! i) = {||})"

lemma pool_ok_new: "0 < outs \<Longrightarrow> pool_ok (new_session_pool ins outs)"
  by (auto simp: pool_ok_def new_session_pool_def empty_out_thread_def touched_def)

lemma out_let_go_fold:
  assumes "i < length (sp_threads p)" "distinct xs" "\<forall>a \<in> set xs. sp_refs p a = Some 1"
  shows "fold (out_let_go i) xs p =
    p\<lparr> sp_threads := (sp_threads p)[i := (sp_threads p ! i)
         \<lparr> ot_cells := ot_cells (sp_threads p ! i) |-| fset_of_list xs \<rparr>],
       sp_refs := (\<lambda>a. if a \<in> set xs \<and> a |\<in>| ot_cells (sp_threads p ! i) then None else sp_refs p a),
       sp_deleted := rev (filter (\<lambda>a. a |\<in>| ot_cells (sp_threads p ! i)) xs) @ sp_deleted p \<rparr>"
  using assms
proof (induction xs arbitrary: p)
  case Nil
  have "t\<lparr> ot_cells := ot_cells t |-| {||} \<rparr> = t" for t :: out_thread by (cases t) simp
  then show ?case by (cases p) simp
next
  case (Cons a xs)
  let ?t = "sp_threads p ! i"
  show ?case
  proof (cases "a |\<in>| ot_cells ?t")
    case True
    define q where "q = p\<lparr> sp_threads := (sp_threads p)[i := ?t\<lparr> ot_cells := ot_cells ?t |-| {|a|} \<rparr>],
      sp_refs := (sp_refs p)(a := None), sp_deleted := a # sp_deleted p \<rparr>"
    have q: "out_let_go i a p = q"
      using True Cons.prems by (simp add: out_let_go_def sp_remove_session_def q_def Let_def)
    have "fold (out_let_go i) xs q = q\<lparr> sp_threads := (sp_threads q)[i := (sp_threads q ! i)
         \<lparr> ot_cells := ot_cells (sp_threads q ! i) |-| fset_of_list xs \<rparr>],
       sp_refs := (\<lambda>a. if a \<in> set xs \<and> a |\<in>| ot_cells (sp_threads q ! i) then None else sp_refs q a),
       sp_deleted := rev (filter (\<lambda>a. a |\<in>| ot_cells (sp_threads q ! i)) xs) @ sp_deleted q \<rparr>"
      using Cons.prems by (intro Cons.IH) (auto simp: q_def)
    moreover have "ot_cells ?t |-| {|a|} |-| fset_of_list xs = ot_cells ?t |-| finsert a (fset_of_list xs)"
      by auto
    moreover have "filter (\<lambda>b. b |\<in>| ot_cells ?t \<and> b \<noteq> a) xs = filter (\<lambda>b. b |\<in>| ot_cells ?t) xs"
      using Cons.prems by (intro filter_cong) auto
    ultimately show ?thesis
      using True Cons.prems q by (auto simp: q_def fun_eq_iff)
  next
    case False
    then have "out_let_go i a p = p" by (simp add: out_let_go_def Let_def)
    moreover have "ot_cells ?t |-| finsert a (fset_of_list xs) = ot_cells ?t |-| fset_of_list xs"
      using False by auto
    ultimately show ?thesis using False Cons.prems Cons.IH [of p] by (auto simp: fun_eq_iff)
  qed
qed

lemma out_collect_eq:
  assumes "pool_ok p" "i < length (sp_threads p)"
  defines "t \<equiv> sp_threads p ! i"
  shows "out_collect i p =
    p\<lparr> sp_threads := (sp_threads p)[i :=
         \<lparr> ot_add = {||}, ot_remove = {||}, ot_cells = (ot_cells t |-| ot_remove t) |\<union>| ot_add t \<rparr>],
       sp_refs := (\<lambda>a. if a |\<in>| ot_remove t \<and> a |\<in>| ot_cells t then None else sp_refs p a),
       sp_deleted := rev (filter (\<lambda>a. a |\<in>| ot_cells t) (fs_items (ot_remove t))) @ sp_deleted p \<rparr>"
proof -
  have "\<forall>a \<in> set (fs_items (ot_remove t)). sp_refs p a = Some 1"
    using assms by (auto simp: pool_ok_def)
  note f = out_let_go_fold [OF assms(2) distinct_fs_items this [unfolded t_def]]
  have u: "u\<lparr> ot_remove := {||}, ot_cells := c, ot_add := {||} \<rparr> = \<lparr> ot_add = {||}, ot_remove = {||}, ot_cells = c \<rparr>"
    for u :: out_thread and c by (cases u) simp
  show ?thesis
    using assms(2) by (intro session_pool.equality) (simp_all add: out_collect_def t_def f Let_def u)
qed

lemma pool_ok_D:
  assumes "pool_ok p"
  shows "sp_threads p \<noteq> []"
    and "\<And>a. sp_refs p a = None \<Longrightarrow> sp_out_map p a = None"
    and "\<And>a. sp_refs p a = Some 2 \<longleftrightarrow> sp_out_map p a \<noteq> None"
    and "\<And>a n. sp_refs p a = Some n \<Longrightarrow> n = 1 \<or> n = 2"
    and "\<And>a i. sp_out_map p a = Some i \<Longrightarrow> i < length (sp_threads p)"
    and "\<And>a i j. sp_out_map p a = Some i \<Longrightarrow> j < length (sp_threads p) \<Longrightarrow>
           a \<in> touched (sp_threads p ! j) \<Longrightarrow> j = i"
    and "\<And>a i. i < length (sp_threads p) \<Longrightarrow> a \<in> touched (sp_threads p ! i) \<Longrightarrow> sp_refs p a \<noteq> None"
    and "\<And>a i. i < length (sp_threads p) \<Longrightarrow> a |\<in>| ot_remove (sp_threads p ! i) \<Longrightarrow> sp_refs p a = Some 1"
    and "\<And>a i j. i < length (sp_threads p) \<Longrightarrow> j < length (sp_threads p) \<Longrightarrow>
           a \<in> touched (sp_threads p ! i) \<Longrightarrow> a \<in> touched (sp_threads p ! j) \<Longrightarrow> i = j"
    and "\<And>i. i < length (sp_threads p) \<Longrightarrow> ot_cells (sp_threads p ! i) |\<inter>| ot_add (sp_threads p ! i) = {||}"
proof -
  have refs: "sp_refs p a = None \<and> sp_out_map p a = None \<or> sp_refs p a = Some 2 \<and> sp_out_map p a \<noteq> None \<or>
      sp_refs p a = Some 1 \<and> sp_out_map p a = None" for a
    using assms unfolding pool_ok_def by blast
  show "sp_refs p a = None \<Longrightarrow> sp_out_map p a = None" "sp_refs p a = Some 2 \<longleftrightarrow> sp_out_map p a \<noteq> None"
    "sp_refs p a = Some n \<Longrightarrow> n = 1 \<or> n = 2" for a n
    using refs [of a] by auto
qed (use assms in \<open>unfold pool_ok_def, elim conjE, meson\<close>)+

lemma pool_ok_I:
  assumes "sp_threads p \<noteq> []"
    and "\<And>a. sp_refs p a = None \<and> sp_out_map p a = None \<or>
          sp_refs p a = Some 2 \<and> sp_out_map p a \<noteq> None \<or> sp_refs p a = Some 1 \<and> sp_out_map p a = None"
    and "\<And>a i. sp_out_map p a = Some i \<Longrightarrow> i < length (sp_threads p)"
    and "\<And>a i j. sp_out_map p a = Some i \<Longrightarrow> j < length (sp_threads p) \<Longrightarrow>
           a \<in> touched (sp_threads p ! j) \<Longrightarrow> j = i"
    and "\<And>a i. i < length (sp_threads p) \<Longrightarrow> a \<in> touched (sp_threads p ! i) \<Longrightarrow> sp_refs p a \<noteq> None"
    and "\<And>a i. i < length (sp_threads p) \<Longrightarrow> a |\<in>| ot_remove (sp_threads p ! i) \<Longrightarrow> sp_refs p a = Some 1"
    and "\<And>a i j. i < length (sp_threads p) \<Longrightarrow> j < length (sp_threads p) \<Longrightarrow>
           a \<in> touched (sp_threads p ! i) \<Longrightarrow> a \<in> touched (sp_threads p ! j) \<Longrightarrow> i = j"
    and "\<And>i. i < length (sp_threads p) \<Longrightarrow> ot_cells (sp_threads p ! i) |\<inter>| ot_add (sp_threads p ! i) = {||}"
  shows "pool_ok p"
  unfolding pool_ok_def using assms by blast

lemma pool_ok_open:
  assumes ok: "pool_ok p" and fresh: "sp_refs p a = None"
  shows "pool_ok (sp_session_open a p)"
proof -
  define i where "i = sp_out_index p mod length (sp_threads p)"
  define t where "t = sp_threads p ! i"
  define q where "q = sp_session_open a p"
  have i: "i < length (sp_threads p)" using pool_ok_D(1) [OF ok] by (simp add: i_def)
  have q: "sp_refs q = (sp_refs p)(a \<mapsto> 2)" "sp_out_map q = (sp_out_map p)(a \<mapsto> i)"
    "sp_threads q = (sp_threads p)[i := t\<lparr> ot_add := finsert a (ot_add t) \<rparr>]"
    using fresh pool_ok_D(1) [OF ok]
    by (simp_all add: q_def sp_session_open_def out_handle_session_def in_handle_session_def i_def t_def Let_def)
  have untouched: "a \<notin> touched (sp_threads p ! j)" if "j < length (sp_threads p)" for j
    using pool_ok_D(7) [OF ok that] fresh by blast
  have tq: "touched (sp_threads q ! j) = (if j = i then insert a (touched (sp_threads p ! j)) else touched (sp_threads p ! j))"
    "ot_remove (sp_threads q ! j) = ot_remove (sp_threads p ! j)"
    if "j < length (sp_threads p)" for j
    using i that by (auto simp: q touched_def t_def nth_list_update)
  have len: "length (sp_threads q) = length (sp_threads p)" by (simp add: q)
  note D = pool_ok_D [OF ok]
  show ?thesis unfolding q_def [symmetric]
  proof (rule pool_ok_I)
    show "sp_threads q \<noteq> []" using D(1) by (simp add: q)
    show "sp_refs q b = None \<and> sp_out_map q b = None \<or>
          sp_refs q b = Some 2 \<and> sp_out_map q b \<noteq> None \<or> sp_refs q b = Some 1 \<and> sp_out_map q b = None" for b
      using ok by (auto simp: q pool_ok_def)
    show "k < length (sp_threads q)" if "sp_out_map q b = Some k" for b k
      using that i D(5) by (auto simp: q split: if_splits)
    show "j = k" if "sp_out_map q b = Some k" "j < length (sp_threads q)" "b \<in> touched (sp_threads q ! j)" for b j k
      using that i D(6) untouched by (auto simp: len tq q(2) split: if_splits)
    show "sp_refs q b \<noteq> None" if "k < length (sp_threads q)" "b \<in> touched (sp_threads q ! k)" for b k
      using that D(7) by (auto simp: len tq q(1) split: if_splits)
    show "sp_refs q b = Some 1" if "k < length (sp_threads q)" "b |\<in>| ot_remove (sp_threads q ! k)" for b k
      using that D(8) fresh by (auto simp: len tq q(1))
    show "k = j" if "k < length (sp_threads q)" "j < length (sp_threads q)"
      "b \<in> touched (sp_threads q ! k)" "b \<in> touched (sp_threads q ! j)" for b j k
      using that D(9) untouched by (auto simp: len tq split: if_splits)
    show "ot_cells (sp_threads q ! k) |\<inter>| ot_add (sp_threads q ! k) = {||}" if "k < length (sp_threads q)" for k
      using that D(10) [of k] untouched [of k] i by (auto simp: len q(3) t_def nth_list_update touched_def)
  qed
qed

lemma pool_ok_closed:
  assumes ok: "pool_ok p" and op: "sp_refs p a = Some 2"
  shows "pool_ok (sp_session_closed a p)"
proof -
  note D = pool_ok_D [OF ok]
  obtain i where i: "sp_out_map p a = Some i" using D(3) op by auto
  define t where "t = sp_threads p ! i"
  define q where "q = sp_session_closed a p"
  have il: "i < length (sp_threads p)" using D(5) i .
  have q: "sp_refs q = (sp_refs p)(a \<mapsto> 1)" "sp_out_map q = (sp_out_map p)(a := None)"
    "sp_threads q = (sp_threads p)[i := t\<lparr> ot_remove := finsert a (ot_remove t) \<rparr>]"
    using op i by (simp_all add: q_def sp_session_closed_def sp_remove_session_def out_remove_session_def t_def Let_def)
  have tq: "touched (sp_threads q ! j) = (if j = i then insert a (touched (sp_threads p ! j)) else touched (sp_threads p ! j))"
    "fset (ot_remove (sp_threads q ! j)) = (if j = i then insert a (fset (ot_remove (sp_threads p ! j))) else fset (ot_remove (sp_threads p ! j)))"
    if "j < length (sp_threads p)" for j
    using il that by (auto simp: q touched_def t_def nth_list_update)
  have len: "length (sp_threads q) = length (sp_threads p)" by (simp add: q)
  have only: "j = i" if "j < length (sp_threads p)" "a \<in> touched (sp_threads p ! j)" for j
    using D(6) [OF i that] .
  show ?thesis unfolding q_def [symmetric]
  proof (rule pool_ok_I)
    show "sp_threads q \<noteq> []" using D(1) by (simp add: q)
    show "sp_refs q b = None \<and> sp_out_map q b = None \<or>
          sp_refs q b = Some 2 \<and> sp_out_map q b \<noteq> None \<or> sp_refs q b = Some 1 \<and> sp_out_map q b = None" for b
      using ok by (auto simp: q pool_ok_def)
    show "k < length (sp_threads q)" if "sp_out_map q b = Some k" for b k
      using that D(5) by (auto simp: q split: if_splits)
    show "j = k" if "sp_out_map q b = Some k" "j < length (sp_threads q)" "b \<in> touched (sp_threads q ! j)" for b j k
      using that D(6) by (auto simp: len tq q(2) split: if_splits)
    show "sp_refs q b \<noteq> None" if "k < length (sp_threads q)" "b \<in> touched (sp_threads q ! k)" for b k
      using that D(7) by (auto simp: len tq q(1) split: if_splits)
    show "sp_refs q b = Some 1" if "k < length (sp_threads q)" "b |\<in>| ot_remove (sp_threads q ! k)" for b k
      using that D(8) by (auto simp: len tq q(1) split: if_splits)
    show "k = j" if "k < length (sp_threads q)" "j < length (sp_threads q)"
      "b \<in> touched (sp_threads q ! k)" "b \<in> touched (sp_threads q ! j)" for b j k
      using that D(9) only by (auto simp: len tq split: if_splits)
    show "ot_cells (sp_threads q ! k) |\<inter>| ot_add (sp_threads q ! k) = {||}" if "k < length (sp_threads q)" for k
      using that D(10) [of k] il by (auto simp: len q(3) t_def nth_list_update)
  qed
qed

lemma pool_ok_collect:
  assumes ok: "pool_ok p" and il: "i < length (sp_threads p)"
  shows "pool_ok (out_collect i p)"
proof -
  note D = pool_ok_D [OF ok]
  define t where "t = sp_threads p ! i"
  define q where "q = out_collect i p"
  have q: "sp_refs q = (\<lambda>a. if a |\<in>| ot_remove t \<and> a |\<in>| ot_cells t then None else sp_refs p a)"
    "sp_out_map q = sp_out_map p"
    "sp_threads q = (sp_threads p)[i :=
         \<lparr> ot_add = {||}, ot_remove = {||}, ot_cells = (ot_cells t |-| ot_remove t) |\<union>| ot_add t \<rparr>]"
    unfolding q_def t_def out_collect_eq [OF ok il] by simp_all
  have sub: "touched (sp_threads q ! j) \<subseteq> touched (sp_threads p ! j)"
    "fset (ot_remove (sp_threads q ! j)) \<subseteq> (if j = i then {} else fset (ot_remove (sp_threads p ! j)))"
    if "j < length (sp_threads p)" for j
    using il that by (auto simp: q touched_def t_def nth_list_update split: if_splits)
  have len: "length (sp_threads q) = length (sp_threads p)" by (simp add: q)
  have gone: "sp_refs p b = Some 1 \<and> sp_out_map p b = None" if "b |\<in>| ot_remove t" for b
    using D(8) [OF il] that D(2,3) [of b] by (force simp: t_def)
  have other: "\<not> (b |\<in>| ot_remove t)"
    if "k < length (sp_threads p)" "k \<noteq> i" "b \<in> touched (sp_threads p ! k)" for b k
    using D(9) [OF that(1) il that(3)] that(2) by (auto simp: touched_def t_def)
  show ?thesis unfolding q_def [symmetric]
  proof (rule pool_ok_I)
    show "sp_threads q \<noteq> []" using D(1) by (simp add: q)
    show "sp_refs q b = None \<and> sp_out_map q b = None \<or>
          sp_refs q b = Some 2 \<and> sp_out_map q b \<noteq> None \<or> sp_refs q b = Some 1 \<and> sp_out_map q b = None" for b
      using ok gone by (auto simp: q pool_ok_def)
    show "k < length (sp_threads q)" if "sp_out_map q b = Some k" for b k
      using that D(5) by (auto simp: q)
    show "j = k" if "sp_out_map q b = Some k" "j < length (sp_threads q)" "b \<in> touched (sp_threads q ! j)" for b j k
      using that D(6) [of b k j] sub(1) [of j] by (auto simp: len q(2))
    show "sp_refs q b \<noteq> None" if k: "k < length (sp_threads q)" "b \<in> touched (sp_threads q ! k)" for b k
    proof (cases "k = i")
      case True
      have "b |\<in>| ot_cells t \<and> \<not> b |\<in>| ot_remove t \<or> b |\<in>| ot_add t"
        using k il True by (auto simp: q touched_def)
      moreover have "\<not> (b |\<in>| ot_cells t \<and> b |\<in>| ot_add t)"
        using D(10) [OF il] by (auto simp: t_def)
      moreover have "sp_refs p b \<noteq> None"
        using D(7) [OF il] k sub(1) [of i] True by (auto simp: len)
      ultimately show ?thesis by (auto simp: q(1))
    next
      case False
      then show ?thesis using k sub(1) [of k] other [of k b] D(7) [of k b] by (auto simp: len q(1))
    qed
    show "sp_refs q b = Some 1" if "k < length (sp_threads q)" "b |\<in>| ot_remove (sp_threads q ! k)" for b k
    proof -
      have "k \<noteq> i" "b |\<in>| ot_remove (sp_threads p ! k)"
        using that sub(2) [of k] by (auto simp: len split: if_splits)
      then show ?thesis
        using that D(8) [of k b] other [of k b] by (auto simp: len q(1) touched_def)
    qed
    show "k = j" if "k < length (sp_threads q)" "j < length (sp_threads q)"
      "b \<in> touched (sp_threads q ! k)" "b \<in> touched (sp_threads q ! j)" for b j k
      using that D(9) [of k j b] sub(1) [of j] sub(1) [of k] by (auto simp: len)
    show "ot_cells (sp_threads q ! k) |\<inter>| ot_add (sp_threads q ! k) = {||}" if "k < length (sp_threads q)" for k
      using that D(10) [of k] il by (auto simp: len q(3) nth_list_update)
  qed
qed

lemma pool_ok_write:
  assumes ok: "pool_ok p" and il: "i < length (sp_threads p)"
  shows "pool_ok (out_write i a r p)"
proof (cases "a |\<in>| ot_cells (sp_threads p ! i) \<and> r = -1")
  case True
  note D = pool_ok_D [OF ok]
  define t where "t = sp_threads p ! i"
  define q where "q = out_write i a r p"
  have q: "sp_refs q = sp_refs p" "sp_out_map q = sp_out_map p"
    "sp_threads q = (sp_threads p)[i := t\<lparr> ot_cells := ot_cells t |-| {|a|} \<rparr>]"
    using True by (simp_all add: q_def out_write_def t_def Let_def)
  have sub: "touched (sp_threads q ! j) \<subseteq> touched (sp_threads p ! j)"
    "ot_remove (sp_threads q ! j) = ot_remove (sp_threads p ! j)"
    if "j < length (sp_threads p)" for j
    using il that by (auto simp: q touched_def t_def nth_list_update)
  have len: "length (sp_threads q) = length (sp_threads p)" by (simp add: q)
  show ?thesis unfolding q_def [symmetric]
  proof (rule pool_ok_I)
    show "sp_threads q \<noteq> []" using D(1) by (simp add: q)
    show "sp_refs q b = None \<and> sp_out_map q b = None \<or>
          sp_refs q b = Some 2 \<and> sp_out_map q b \<noteq> None \<or> sp_refs q b = Some 1 \<and> sp_out_map q b = None" for b
      using ok by (auto simp: q pool_ok_def)
    show "k < length (sp_threads q)" if "sp_out_map q b = Some k" for b k
      using that D(5) by (auto simp: q)
    show "j = k" if "sp_out_map q b = Some k" "j < length (sp_threads q)" "b \<in> touched (sp_threads q ! j)" for b j k
      using that D(6) [of b k j] sub(1) [of j] by (auto simp: len q(2))
    show "sp_refs q b \<noteq> None" if "k < length (sp_threads q)" "b \<in> touched (sp_threads q ! k)" for b k
      using that D(7) [of k b] sub(1) [of k] by (auto simp: len q(1))
    show "sp_refs q b = Some 1" if "k < length (sp_threads q)" "b |\<in>| ot_remove (sp_threads q ! k)" for b k
      using that D(8) [of k b] sub(2) [of k] by (auto simp: len q(1))
    show "k = j" if "k < length (sp_threads q)" "j < length (sp_threads q)"
      "b \<in> touched (sp_threads q ! k)" "b \<in> touched (sp_threads q ! j)" for b j k
      using that D(9) [of k j b] sub(1) [of j] sub(1) [of k] by (auto simp: len)
    show "ot_cells (sp_threads q ! k) |\<inter>| ot_add (sp_threads q ! k) = {||}" if "k < length (sp_threads q)" for k
      using that D(10) [of k] il by (auto simp: len q(3) nth_list_update t_def)
  qed
next
  case False
  then show ?thesis using ok by (auto simp: out_write_def Let_def)
qed

interpretation sessions: invariant_machine pool_event_step pool_event_allowed pool_ok
proof
  fix p :: session_pool and e
  show "pool_ok p \<Longrightarrow> pool_event_allowed e p \<Longrightarrow> pool_ok (pool_event_step e p)"
    by (cases e) (auto intro: pool_ok_open pool_ok_closed pool_ok_collect pool_ok_write)
qed

section \<open>Every object is deleted at most once\<close>

definition live :: "nat \<Rightarrow> session_pool \<Rightarrow> nat" where
  "live a p = (if sp_refs p a = None then 0 else 1)"

primrec opens :: "nat \<Rightarrow> pool_event list \<Rightarrow> nat" where
  "opens a [] = 0"
| "opens a (e # es) = (if e = Session_open a then 1 else 0) + opens a es"

lemma count_list_distinct: "distinct xs \<Longrightarrow> count_list xs a = (if a \<in> set xs then 1 else 0)"
  by (induction xs) auto

lemma deleted_step:
  assumes "pool_ok p" "pool_event_allowed e p"
  shows "count_list (sp_deleted (pool_event_step e p)) a + live a (pool_event_step e p) =
    count_list (sp_deleted p) a + live a p + (if e = Session_open a then 1 else 0)"
proof (cases e)
  case (Session_open b)
  then show ?thesis using assms pool_ok_D(1) [OF assms(1)]
    by (auto simp: sp_session_open_def out_handle_session_def in_handle_session_def live_def Let_def)
next
  case (Session_closed b)
  then obtain i where "sp_out_map p b = Some i" using assms pool_ok_D(3) [OF assms(1), of b] by auto
  then show ?thesis using assms Session_closed
    by (auto simp: sp_session_closed_def out_remove_session_def sp_remove_session_def live_def Let_def)
next
  case (Collect i)
  define t where "t = sp_threads p ! i"
  have gone: "sp_refs p a \<noteq> None" if "a |\<in>| ot_remove t"
    using pool_ok_D(8) [OF assms(1), of i a] assms(2) Collect that by (simp add: t_def)
  have "count_list (rev (filter (\<lambda>a. a |\<in>| ot_cells t) (fs_items (ot_remove t)))) a =
      (if a |\<in>| ot_remove t \<and> a |\<in>| ot_cells t then 1 else 0)"
    by (subst count_list_distinct) auto
  then show ?thesis
    using out_collect_eq [OF assms(1)] assms(2) Collect gone by (auto simp: live_def t_def)
next
  case (Write_result i b r)
  then show ?thesis by (simp add: out_write_def live_def Let_def)
qed

lemma deleted_run:
  "pool_ok p \<Longrightarrow> all_allowed pool_event_step pool_event_allowed es p \<Longrightarrow>
    count_list (sp_deleted (run_events pool_event_step es p)) a + live a (run_events pool_event_step es p) =
    count_list (sp_deleted p) a + live a p + opens a es"
  using sessions.step_keeps by (induction es arbitrary: p) (auto simp: deleted_step)

text \<open>C22: whatever the interleaving of opens, closes, collections and failed writes, no output
  thread holds a session that was deleted, and every session object that was made is either
  still counted or was deleted exactly once.\<close>

theorem session_pool_safe:
  assumes "0 < outs" "all_allowed pool_event_step pool_event_allowed es (new_session_pool ins outs)"
  defines "p \<equiv> run_events pool_event_step es (new_session_pool ins outs)"
  shows "(\<forall>t \<in> set (sp_threads p). \<forall>a \<in> touched t. sp_refs p a \<noteq> None) \<and>
    count_list (sp_deleted p) a + live a p = opens a es"
proof -
  have "pool_ok p"
    unfolding p_def using assms(2) pool_ok_new [OF assms(1)] by (intro sessions.run_keeps)
  then have "\<forall>t \<in> set (sp_threads p). \<forall>a \<in> touched t. sp_refs p a \<noteq> None"
    using pool_ok_D(7) by (metis in_set_conv_nth)
  moreover have "count_list (sp_deleted p) a + live a p = opens a es"
    using deleted_run [OF pool_ok_new [OF assms(1)] assms(2), of a]
    by (simp add: p_def new_session_pool_def live_def)
  ultimately show ?thesis by blast
qed

lemmas pool_eval = new_session_pool_def empty_out_thread_def sp_session_open_def
  out_handle_session_def in_handle_session_def sp_session_closed_def out_remove_session_def
  sp_remove_session_def out_collect_def out_let_go_def out_write_def Let_def

lemma session_pool_safe_witness:
  "let p = run_events pool_event_step [Session_open 7, Collect 0, Session_closed 7, Collect 0] (new_session_pool 1 1)
   in count_list (sp_deleted p) 7 + live 7 p = 1"
proof -
  let ?es = "[Session_open 7, Collect 0, Session_closed 7, Collect 0]"
  have "all_allowed pool_event_step pool_event_allowed ?es (new_session_pool 1 1)"
    by (simp add: pool_eval)
  from session_pool_safe [OF _ this, of 7] show ?thesis by (simp add: Let_def)
qed

section \<open>Who is deleted and who is not\<close>

lemma closed_then_collected:
  assumes "pool_ok p" "sp_out_map p a = Some i"
  defines "q \<equiv> run_events pool_event_step [Session_closed a, Collect i] p"
  shows "pool_ok q" and "sp_refs q a = (if a |\<in>| ot_cells (sp_threads p ! i) then None else Some 1)"
    and "\<forall>j < length (sp_threads q). \<not> a |\<in>| ot_remove (sp_threads q ! j)"
    and "a |\<in>| ot_cells (sp_threads p ! i) \<Longrightarrow> a \<in> set (sp_deleted q)"
proof -
  note D = pool_ok_D [OF assms(1)]
  have r: "sp_refs p a = Some 2" using D(3) [of a] assms(2) by simp
  have il: "i < length (sp_threads p)" using D(5) assms(2) .
  define c where "c = sp_session_closed a p"
  have c: "sp_refs c = (sp_refs p)(a \<mapsto> 1)" "sp_deleted c = sp_deleted p"
    "sp_threads c = (sp_threads p)[i := (sp_threads p ! i)\<lparr> ot_remove := finsert a (ot_remove (sp_threads p ! i)) \<rparr>]"
    using r assms(2) by (simp_all add: c_def sp_session_closed_def sp_remove_session_def out_remove_session_def Let_def)
  have ok: "pool_ok c" unfolding c_def using assms(1) r by (rule pool_ok_closed)
  have ilc: "i < length (sp_threads c)" using il by (simp add: c)
  have q: "q = out_collect i c" by (simp add: q_def c_def)
  show "pool_ok q" unfolding q using ok ilc by (rule pool_ok_collect)
  show "sp_refs q a = (if a |\<in>| ot_cells (sp_threads p ! i) then None else Some 1)"
    unfolding q out_collect_eq [OF ok ilc] using il by (simp add: c)
  show "a \<in> set (sp_deleted q)" if "a |\<in>| ot_cells (sp_threads p ! i)"
    unfolding q out_collect_eq [OF ok ilc] using il that by (simp add: c)
  have "\<not> a |\<in>| ot_remove (sp_threads p ! j)" if "j < length (sp_threads p)" for j
    using D(8) [OF that, of a] r by auto
  then show "\<forall>j < length (sp_threads q). \<not> a |\<in>| ot_remove (sp_threads q ! j)"
    unfolding q out_collect_eq [OF ok ilc] using il by (auto simp: c nth_list_update)
qed

text \<open>A session that the input thread has given up and no output thread will ever let go.\<close>

definition stranded :: "nat \<Rightarrow> session_pool \<Rightarrow> bool" where
  "stranded a p \<longleftrightarrow> pool_ok p \<and> sp_refs p a = Some 1 \<and>
     (\<forall>i < length (sp_threads p). \<not> a |\<in>| ot_remove (sp_threads p ! i))"

interpretation stranding: invariant_machine pool_event_step pool_event_allowed "stranded a" for a
proof
  fix p :: session_pool and e
  assume st: "stranded a p" and al: "pool_event_allowed e p"
  then have ok: "pool_ok (pool_event_step e p)"
    by (auto simp: stranded_def intro: sessions.step_keeps)
  note s = st [unfolded stranded_def]
  have "sp_refs (pool_event_step e p) a = Some 1 \<and>
      (\<forall>i < length (sp_threads (pool_event_step e p)). \<not> a |\<in>| ot_remove (sp_threads (pool_event_step e p) ! i))"
  proof (cases e)
    case (Session_open b)
    then show ?thesis using s al
      by (auto simp: sp_session_open_def out_handle_session_def in_handle_session_def Let_def nth_list_update)
  next
    case (Session_closed b)
    then have "b \<noteq> a" using s al by auto
    then show ?thesis using s al Session_closed pool_ok_D(5) [of p b]
      by (auto simp: sp_session_closed_def out_remove_session_def sp_remove_session_def Let_def
          nth_list_update split: option.splits)
  next
    case (Collect i)
    then show ?thesis using s al out_collect_eq [of p i] by (auto simp: nth_list_update)
  next
    case (Write_result i b r)
    then show ?thesis using s al by (auto simp: out_write_def Let_def nth_list_update)
  qed
  with ok show "stranded a (pool_event_step e p)" by (simp add: stranded_def)
qed

text \<open>C34: a session whose close is reported is deleted at the next collection of its output
  thread when that thread holds it; when the thread does not hold it, either because it
  has not taken it yet (the thread empties its list of removals before its list of additions) or
  because a failed write made it drop the session, the object is never deleted, whatever
  happens afterwards.\<close>

theorem closed_session_fate:
  assumes "0 < outs" "all_allowed pool_event_step pool_event_allowed es0 (new_session_pool ins outs)"
    and "p = run_events pool_event_step es0 (new_session_pool ins outs)"
    and "sp_out_map p a = Some i"
    and "q = run_events pool_event_step [Session_closed a, Collect i] p"
    and "all_allowed pool_event_step pool_event_allowed es q"
  shows "if a |\<in>| ot_cells (sp_threads p ! i) then sp_refs q a = None \<and> a \<in> set (sp_deleted q)
    else sp_refs (run_events pool_event_step es q) a = Some 1"
proof -
  have "pool_ok p"
    unfolding assms(3) using assms(2) pool_ok_new [OF assms(1)] by (intro sessions.run_keeps)
  note f = closed_then_collected [OF this assms(4), folded assms(5)]
  show ?thesis
  proof (cases "a |\<in>| ot_cells (sp_threads p ! i)")
    case False
    then have "stranded a q" using f by (simp add: stranded_def)
    then have "stranded a (run_events pool_event_step es q)" using assms(6) by (rule stranding.run_keeps)
    then show ?thesis using False by (simp add: stranded_def)
  qed (use f in simp)
qed

lemma closed_session_fate_witness:
  "sp_refs (run_events pool_event_step [Collect 0]
     (run_events pool_event_step [Session_closed 7, Collect 0]
       (run_events pool_event_step [Session_open 7, Collect 0, Write_result 0 7 (-1)] (new_session_pool 1 1)))) 7 = Some 1"
proof -
  let ?p0 = "new_session_pool 1 1" and ?es0 = "[Session_open 7, Collect 0, Write_result 0 7 (-1)]"
  have *: "all_allowed pool_event_step pool_event_allowed ?es0 ?p0"
    "sp_out_map (run_events pool_event_step ?es0 ?p0) 7 = Some 0"
    "\<not> 7 |\<in>| ot_cells (sp_threads (run_events pool_event_step ?es0 ?p0) ! 0)"
    "all_allowed pool_event_step pool_event_allowed [Collect 0]
      (run_events pool_event_step [Session_closed 7, Collect 0] (run_events pool_event_step ?es0 ?p0))"
    by (simp_all add: pool_eval fs_items_finsert)
  from closed_session_fate [OF _ *(1) refl *(2) refl *(4)] show ?thesis using *(3) by simp
qed

end
