(* ===== verification/GuidService.thy ===== *)
theory GuidService
  imports Packets "HOL-Library.Multiset"
begin

text \<open>
  Handing out guids. The guid server (\<^verbatim>\<open>guidsys/src/AllocGuid.cpp\<close>, with its file through
  \<^verbatim>\<open>guidsys/src/ManageConfig.cpp\<close>) gives ranges of indexes to the other servers; each of them
  (\<^verbatim>\<open>charsys/src/MakeGuid.cpp\<close>, \<^verbatim>\<open>scene/src/MakeGuid.cpp\<close>) makes guids of the ranges it got.

  The messages are protobuf messages: the parameter \<open>codec\<close> holds their printing and parsing,
  and \<open>codec_ok\<close> that parsing inverts printing and that the messages are small. Whether the
  file could be saved is an argument of each request.
\<close>

section \<open>The server\<close>

definition smsg_guid_request :: u16 where "smsg_guid_request = 2"
definition smsg_guid_return :: u16 where "smsg_guid_return = 3"
definition max_guid_index :: u64 where "max_guid_index = 0x0000FFFFFFFFFFFF"

record guid_cfg =
  cfg_seed :: u32
  cfg_index :: u64

text \<open>The file is what \<^verbatim>\<open>guid_config.xml\<close> holds; \<open>gs_document\<close> says that the document and its
  two attributes were loaded.\<close>

record guid_server =
  gs_seed :: u32
  gs_index :: u64
  gs_document :: bool
  gs_file :: guid_cfg

definition alloc_guid_init :: "u32 \<Rightarrow> u64 \<Rightarrow> guid_server \<Rightarrow> guid_server" where
  "alloc_guid_init seed_value last_index s = s\<lparr> gs_seed := seed_value, gs_index := last_index \<rparr>"

definition write_guid_cfg :: "bool \<Rightarrow> u32 \<Rightarrow> u64 \<Rightarrow> guid_server \<Rightarrow> guid_server \<times> bool" where
  "write_guid_cfg saved seed_value index s =
     (if \<not> gs_document s then (s, False)
      else if saved then (s\<lparr> gs_file := \<lparr> cfg_seed = seed_value, cfg_index = index \<rparr> \<rparr>, True)
      else (s, False))"

text \<open>\<^verbatim>\<open>generateGuid\<close>: the state, the result, the number and the start index. The start index is
  read before the index moves.\<close>

definition generate_guid :: "bool \<Rightarrow> u32 \<Rightarrow> guid_server \<Rightarrow> guid_server \<times> bool \<times> u32 \<times> u64" where
  "generate_guid saved request_no s =
     (let start_index = gs_index s;
          s = (if gs_index s + ucast request_no < max_guid_index
               then s\<lparr> gs_index := gs_index s + ucast request_no \<rparr>
               else s\<lparr> gs_index := 1 + ucast request_no, gs_seed := gs_seed s + 1 \<rparr>);
          (s, ok) = write_guid_cfg saved (gs_seed s) (gs_index s) s
      in (s, ok, request_no, start_index))"

record guid_codec =
  ser_request :: "u32 \<Rightarrow> u8 list"
  parse_request :: "u8 list \<Rightarrow> u32 option"
  ser_return :: "u32 \<times> u32 \<times> u64 \<Rightarrow> u8 list"
  parse_return :: "u8 list \<Rightarrow> (u32 \<times> u32 \<times> u64) option"

definition codec_ok :: "guid_codec \<Rightarrow> bool" where
  "codec_ok c \<longleftrightarrow> (\<forall>n. parse_request c (ser_request c n) = Some n \<and> fits (ser_request c n)) \<and>
     (\<forall>r. parse_return c (ser_return c r) = Some r \<and> fits (ser_return c r))"

text \<open>\<^verbatim>\<open>processRequest\<close>; the reply goes to the session the request came from.\<close>

definition process_request :: "guid_codec \<Rightarrow> bool \<Rightarrow> packet \<Rightarrow> guid_server \<Rightarrow> guid_server \<times> packet option" where
  "process_request c saved packet s =
     (if packet_opcode packet = smsg_guid_request then
        (case parse_packet (parse_request c) packet of
           Some request_no \<Rightarrow>
             (case generate_guid saved request_no s of
                (s, ok, generate_no, start_index) \<Rightarrow>
                  if ok then
                    (s, Some (set_owner (p_owner packet)
                       (new_packet smsg_guid_return 0 (ser_return c (gs_seed s, generate_no, start_index)))))
                  else (s, None))
         | None \<Rightarrow> (s, None))
      else (s, None))"

text \<open>\<^verbatim>\<open>ManageSession::input\<close> of the guid server hands requests to it.\<close>

definition guid_session_input :: "guid_codec \<Rightarrow> bool \<Rightarrow> packet \<Rightarrow> guid_server \<Rightarrow> guid_server \<times> packet option" where
  "guid_session_input c saved packet s =
     (if packet_opcode packet = smsg_guid_request then process_request c saved packet s else (s, None))"

text \<open>A restart reads the file back: \<^verbatim>\<open>loadConfig\<close>, then \<^verbatim>\<open>AllocGuid::init\<close> from
  \<^verbatim>\<open>ManageSession::init\<close>.\<close>

definition guid_restart :: "guid_server \<Rightarrow> guid_server" where
  "guid_restart s = alloc_guid_init (cfg_seed (gs_file s)) (cfg_index (gs_file s)) (s\<lparr> gs_document := True \<rparr>)"

section \<open>The client\<close>

record guid_info =
  gi_seed :: u32
  gi_no :: u32
  gi_rest :: u32
  gi_index :: u64

record guid_client =
  gc_info :: guid_info
  gc_que :: "guid_info list"
  gc_request_no :: u32

definition new_guid_client :: "u32 \<Rightarrow> guid_client" where
  "new_guid_client n =
     \<lparr> gc_info = \<lparr> gi_seed = 0, gi_no = 0, gi_rest = 0, gi_index = 0 \<rparr>, gc_que = [], gc_request_no = n \<rparr>"

definition get_guid_info :: "guid_client \<Rightarrow> guid_client \<times> bool" where
  "get_guid_info c =
     (case gc_que c of [] \<Rightarrow> (c, False) | g # gs \<Rightarrow> (c\<lparr> gc_info := g, gc_que := gs \<rparr>, True))"

definition get_guid :: "u8 \<Rightarrow> guid_client \<Rightarrow> guid_client \<times> guid option" where
  "get_guid entity_type c =
     (let (c, have) = (if gi_rest (gc_info c) = 0 then get_guid_info c else (c, True)) in
      if \<not> have then (c, None)
      else let g = gc_info c in
        (c\<lparr> gc_info := g\<lparr> gi_index := gi_index g + 1, gi_rest := gi_rest g - 1 \<rparr> \<rparr>,
         Some (make_guid (ucast entity_type) (ucast (gi_seed g)) (gi_index g))))"

text \<open>The thread of \<^verbatim>\<open>MakeGuid::svc\<close> asks for a range when the queue is empty.\<close>

definition guid_request_packet :: "guid_codec \<Rightarrow> guid_client \<Rightarrow> packet option" where
  "guid_request_packet c cl =
     (if gc_que cl \<noteq> [] then None
      else Some (new_packet smsg_guid_request 0 (ser_request c (gc_request_no cl))))"

definition guid_parse_return :: "guid_codec \<Rightarrow> packet \<Rightarrow> guid_client \<Rightarrow> guid_client" where
  "guid_parse_return c packet cl =
     (if packet_opcode packet = smsg_guid_return then
        (case parse_packet (parse_return c) packet of
           Some (seed, no, start) \<Rightarrow>
             cl\<lparr> gc_que := gc_que cl @ [\<lparr> gi_seed = seed, gi_no = no, gi_rest = no, gi_index = start \<rparr>] \<rparr>
         | None \<Rightarrow> cl)
      else cl)"

section \<open>The server and its clients\<close>

text \<open>The guids every client has handed out are collected in \<open>gw_issued\<close>.\<close>

record guid_world =
  gw_server :: guid_server
  gw_clients :: "guid_client list"
  gw_issued :: "guid list"

text \<open>Client \<open>k\<close> asks, and the server can or cannot save its file; client \<open>k\<close> takes a guid; the
  server is started again; client \<open>k\<close> is started again, and the ranges it had are gone.\<close>

datatype guid_event = Ask nat bool | Take nat u8 | Restart | Client_restart nat

fun guid_step :: "guid_codec \<Rightarrow> guid_event \<Rightarrow> guid_world \<Rightarrow> guid_world" where
  "guid_step c (Ask k saved) w =
     (case guid_request_packet c (gw_clients w ! k) of
        None \<Rightarrow> w
      | Some p \<Rightarrow>
          (case guid_session_input c saved p (gw_server w) of
             (s, None) \<Rightarrow> w\<lparr> gw_server := s \<rparr>
           | (s, Some r) \<Rightarrow>
               w\<lparr> gw_server := s,
                 gw_clients := (gw_clients w)[k := guid_parse_return c r (gw_clients w ! k)] \<rparr>))"
| "guid_step c (Take k entity_type) w =
     (case get_guid entity_type (gw_clients w ! k) of
        (cl, None) \<Rightarrow> w\<lparr> gw_clients := (gw_clients w)[k := cl] \<rparr>
      | (cl, Some g) \<Rightarrow>
          w\<lparr> gw_clients := (gw_clients w)[k := cl], gw_issued := gw_issued w @ [g] \<rparr>)"
| "guid_step c Restart w = w\<lparr> gw_server := guid_restart (gw_server w) \<rparr>"
| "guid_step c (Client_restart k) w =
     w\<lparr> gw_clients := (gw_clients w)[k := new_guid_client (gc_request_no (gw_clients w ! k))] \<rparr>"

text \<open>The indexes of the current seed must not be used up.\<close>

fun guid_allowed :: "guid_event \<Rightarrow> guid_world \<Rightarrow> bool" where
  "guid_allowed (Ask k saved) w \<longleftrightarrow> k < length (gw_clients w) \<and>
     unat (gs_index (gw_server w)) + unat (gc_request_no (gw_clients w ! k)) < 2 ^ 48 - 1"
| "guid_allowed (Take k entity_type) w \<longleftrightarrow> k < length (gw_clients w)"
| "guid_allowed Restart w \<longleftrightarrow> True"
| "guid_allowed (Client_restart k) w \<longleftrightarrow> k < length (gw_clients w)"

definition span :: "guid_info \<Rightarrow> nat list" where
  "span g = [unat (gi_index g) ..< unat (gi_index g) + unat (gi_rest g)]"

definition avail :: "guid_client \<Rightarrow> nat list" where
  "avail c = span (gc_info c) @ concat (map span (gc_que c))"

definition client_ok :: "guid_client \<Rightarrow> bool" where
  "client_ok c \<longleftrightarrow> gc_request_no c \<noteq> 0 \<and> (\<forall>g \<in> set (gc_que c). gi_rest g \<noteq> 0)"

text \<open>Every index that was replied is either still with a client or issued, nowhere twice, and
  below the index in the server's file.\<close>

definition indexes :: "guid_world \<Rightarrow> nat list" where
  "indexes w = concat (map avail (gw_clients w)) @ map (unat \<circ> guid_index) (gw_issued w)"

definition guid_world_ok :: "guid_world \<Rightarrow> bool" where
  "guid_world_ok w \<longleftrightarrow> distinct (indexes w) \<and>
     (\<forall>i \<in> set (indexes w). i < unat (cfg_index (gs_file (gw_server w)))) \<and>
     unat (cfg_index (gs_file (gw_server w))) \<le> unat (gs_index (gw_server w)) \<and>
     unat (gs_index (gw_server w)) < 2 ^ 48 \<and>
     (\<forall>c \<in> set (gw_clients w). client_ok c)"

lemma unat_ucast_u32 [simp]: "unat (ucast (b :: u32) :: u64) = unat b"
proof -
  have "unat b < 2 ^ 64" using unsigned_less [of b, where ?'a = nat] by simp
  then show ?thesis by (simp add: unsigned_ucast_eq take_bit_nat_eq_self)
qed

lemma unat_add_small: "unat (a :: u64) + unat (b :: u32) < 2 ^ 48 \<Longrightarrow> unat (a + ucast b) = unat a + unat b"
  by (simp add: unat_word_ariths unat_ucast_u32)

lemma generate_guid_room:
  assumes "unat (gs_index s) + unat n < 2 ^ 48 - 1"
  shows "generate_guid saved n s =
    (let s' = s\<lparr> gs_index := gs_index s + ucast n \<rparr>
     in if gs_document s \<and> saved
        then (s'\<lparr> gs_file := \<lparr> cfg_seed = gs_seed s, cfg_index = gs_index s + ucast n \<rparr> \<rparr>, True, n, gs_index s)
        else (s', False, n, gs_index s))"
proof -
  have "unat (gs_index s + ucast n) = unat (gs_index s) + unat n"
    using assms by (intro unat_add_small) simp
  then have "gs_index s + ucast n < max_guid_index"
    using assms by (simp add: word_less_nat_alt max_guid_index_def)
  then show ?thesis by (simp add: generate_guid_def write_guid_cfg_def Let_def)
qed

text \<open>One question and its answer: either nothing but the server's index and nothing for the
  client, or a range from the server's index on.\<close>

lemma guid_step_Ask:
  assumes "codec_ok c" "guid_allowed (Ask k saved) w"
  defines "cl \<equiv> gw_clients w ! k" and "s \<equiv> gw_server w"
  defines "n \<equiv> gc_request_no (gw_clients w ! k)"
  shows "guid_step c (Ask k saved) w =
    (if gc_que cl \<noteq> [] then w
     else let s' = s\<lparr> gs_index := gs_index s + ucast n \<rparr> in
       if gs_document s \<and> saved
       then w\<lparr> gw_server := s'\<lparr> gs_file := \<lparr> cfg_seed = gs_seed s, cfg_index = gs_index s + ucast n \<rparr> \<rparr>,
               gw_clients := (gw_clients w)[k := cl\<lparr> gc_que :=
                 [\<lparr> gi_seed = gs_seed s, gi_no = n, gi_rest = n, gi_index = gs_index s \<rparr>] \<rparr>] \<rparr>
       else w\<lparr> gw_server := s' \<rparr>)"
proof -
  have room: "unat (gs_index s) + unat n < 2 ^ 48 - 1"
    using assms(2) by (simp add: s_def n_def)
  have "smsg_guid_return \<noteq> smsg_guid_request" by (simp add: smsg_guid_return_def smsg_guid_request_def)
  then show ?thesis
    using assms(1) generate_guid_room [OF room, of saved]
    by (simp add: guid_request_packet_def guid_session_input_def process_request_def parse_packet_def
        packet_body_new_packet codec_ok_def guid_parse_return_def cl_def s_def n_def Let_def)
qed

lemma mset_concat_update:
  "k < length xs \<Longrightarrow> mset (concat (map f (xs[k := y]))) + mset (f (xs ! k)) =
    mset (concat (map f xs)) + mset (f y)"
proof (induction xs arbitrary: k)
  case (Cons x xs)
  then show ?case by (cases k) (auto simp: ac_simps)
qed simp

lemma indexes_bound: "guid_world_ok w \<Longrightarrow> i \<in> set (indexes w) \<Longrightarrow> i < 2 ^ 48"
  by (fastforce simp: guid_world_ok_def)

lemma guid_world_ok_grow:
  assumes "guid_world_ok w" "mset (indexes w') = mset (indexes w) + mset [a ..< b]"
    and "unat (cfg_index (gs_file (gw_server w))) \<le> a"
    and "b \<le> unat (cfg_index (gs_file (gw_server w')))"
    and "unat (cfg_index (gs_file (gw_server w))) \<le> unat (cfg_index (gs_file (gw_server w')))"
    and "unat (cfg_index (gs_file (gw_server w'))) \<le> unat (gs_index (gw_server w'))"
    and "unat (gs_index (gw_server w')) < 2 ^ 48"
    and "\<forall>c \<in> set (gw_clients w'). client_ok c"
  shows "guid_world_ok w'"
proof -
  have m: "mset (indexes w') = mset (indexes w @ [a ..< b])" using assms(2) by simp
  have "distinct (indexes w @ [a ..< b])"
    using assms(1,3) by (fastforce simp: guid_world_ok_def)
  then have "distinct (indexes w')" using m by (metis mset_eq_imp_distinct_iff)
  moreover have "set (indexes w') = set (indexes w) \<union> {a ..< b}"
    using m by (metis mset_eq_setD set_append set_upt)
  ultimately show ?thesis using assms by (fastforce simp: guid_world_ok_def)
qed

lemma guid_ok_Ask:
  assumes "codec_ok c" "guid_world_ok w" "guid_allowed (Ask k saved) w"
  shows "guid_world_ok (guid_step c (Ask k saved) w)"
proof -
  let ?cl = "gw_clients w ! k" and ?s = "gw_server w"
  let ?n = "gc_request_no ?cl"
  have k: "k < length (gw_clients w)" and room: "unat (gs_index ?s) + unat ?n < 2 ^ 48 - 1"
    using assms(3) by simp_all
  have ix: "unat (gs_index ?s + ucast ?n) = unat (gs_index ?s) + unat ?n"
    using room by (intro unat_add_small) simp
  have ok: "client_ok ?cl" using assms(2) k by (simp add: guid_world_ok_def)
  show ?thesis
  proof (cases "gc_que ?cl = [] \<and> gs_document ?s \<and> saved")
    case True
    let ?g = "\<lparr> gi_seed = gs_seed ?s, gi_no = ?n, gi_rest = ?n, gi_index = gs_index ?s \<rparr>"
    let ?w = "w\<lparr> gw_server := ?s\<lparr> gs_index := gs_index ?s + ucast ?n,
        gs_file := \<lparr> cfg_seed = gs_seed ?s, cfg_index = gs_index ?s + ucast ?n \<rparr> \<rparr>,
      gw_clients := (gw_clients w)[k := ?cl\<lparr> gc_que := [?g] \<rparr>] \<rparr>"
    have eq: "guid_step c (Ask k saved) w = ?w"
      using True guid_step_Ask [OF assms(1,3)] by (simp add: Let_def)
    have "mset (indexes ?w) = mset (indexes w) + mset [unat (gs_index ?s) ..< unat (gs_index ?s) + unat ?n]"
      using mset_concat_update [OF k, of avail "?cl\<lparr> gc_que := [?g] \<rparr>"] True
      by (simp add: indexes_def avail_def span_def)
    moreover have "\<forall>c \<in> set (gw_clients ?w). client_ok c"
      using assms(2) ok set_update_subset_insert [of "gw_clients w" k]
      by (fastforce simp: guid_world_ok_def client_ok_def)
    ultimately show ?thesis
      unfolding eq using assms(2) room ix
      by (intro guid_world_ok_grow [OF assms(2)]) (auto simp: guid_world_ok_def)
  next
    case False
    then have "guid_step c (Ask k saved) w = w \<or>
        guid_step c (Ask k saved) w = w\<lparr> gw_server := ?s\<lparr> gs_index := gs_index ?s + ucast ?n \<rparr> \<rparr>"
      using guid_step_Ask [OF assms(1,3)] by (auto simp: Let_def)
    moreover have "guid_world_ok (w\<lparr> gw_server := ?s\<lparr> gs_index := gs_index ?s + ucast ?n \<rparr> \<rparr>)"
      using assms(2) ix room by (simp add: guid_world_ok_def indexes_def)
    ultimately show ?thesis using assms(2) by auto
  qed
qed

lemma span_step:
  assumes "gi_rest g \<noteq> 0" "unat (gi_index g) < 2 ^ 48"
  shows "span g = unat (gi_index g) # span (g\<lparr> gi_index := gi_index g + 1, gi_rest := gi_rest g - 1 \<rparr>)"
proof -
  have "unat (gi_index g + 1) = unat (gi_index g) + 1"
    using unat_add_small [of "gi_index g" 1] assms(2) by (simp add: unat_word_ariths)
  moreover have "unat (gi_rest g - 1) = unat (gi_rest g) - 1"
    using assms(1) by (simp add: unat_minus_one)
  moreover have "0 < unat (gi_rest g)" using assms(1) by (simp add: unat_gt_0)
  ultimately show ?thesis by (simp add: span_def upt_conv_Cons)
qed

lemma get_guid_avail:
  assumes "client_ok cl" "\<forall>i \<in> set (avail cl). i < 2 ^ 48" "get_guid ty cl = (cl', r)"
  shows "client_ok cl'"
    and "r = None \<Longrightarrow> avail cl = [] \<and> avail cl' = []"
    and "r = Some g \<Longrightarrow> avail cl = unat (guid_index g) # avail cl' \<and> guid_type g = ty"
proof -
  let ?next = "\<lambda>g. g\<lparr> gi_index := gi_index g + 1, gi_rest := gi_rest g - 1 \<rparr>"
  let ?make = "\<lambda>g. make_guid (ucast ty) (ucast (gi_seed g)) (gi_index g)"
  have index: "unat (i AND mask 48) = unat i" if "unat i < 2 ^ 48" for i :: u64
  proof -
    have "i < 2 ^ 48" using that by (simp add: word_less_nat_alt)
    then show ?thesis by (simp add: mask_small)
  qed
  have up: "(ucast (ucast ty :: u64) :: u8) = ty" by (rule bit_word_eqI) (simp add: bit_simps)
  have head: "unat (gi_index g) \<in> set (span g)" if "gi_rest g \<noteq> 0" for g
    using that by (simp add: span_def unat_gt_0)
  have "client_ok cl' \<and> (r = None \<longrightarrow> avail cl = [] \<and> avail cl' = []) \<and>
    (\<forall>g. r = Some g \<longrightarrow> avail cl = unat (guid_index g) # avail cl' \<and> guid_type g = ty)"
  proof (cases "gi_rest (gc_info cl) = 0")
    case False
    then have "unat (gi_index (gc_info cl)) < 2 ^ 48" using assms(2) head by (simp add: avail_def)
    then show ?thesis
      using assms(1,3) False span_step [OF False] index up
      by (auto simp: get_guid_def Let_def avail_def client_ok_def)
  next
    case True
    then have e: "span (gc_info cl) = []" by (simp add: span_def)
    show ?thesis
    proof (cases "gc_que cl")
      case Nil
      then show ?thesis using assms(1,3) True e
        by (auto simp: get_guid_def get_guid_info_def Let_def avail_def)
    next
      case (Cons g gs)
      then have g: "gi_rest g \<noteq> 0" using assms(1) by (simp add: client_ok_def)
      then have "unat (gi_index g) < 2 ^ 48" using assms(2) head [OF g] Cons by (simp add: avail_def)
      then show ?thesis
        using assms(1,3) True e Cons span_step [OF g] index up
        by (auto simp: get_guid_def get_guid_info_def Let_def avail_def client_ok_def)
    qed
  qed
  then show "client_ok cl'" "r = None \<Longrightarrow> avail cl = [] \<and> avail cl' = []"
    "r = Some g \<Longrightarrow> avail cl = unat (guid_index g) # avail cl' \<and> guid_type g = ty" by auto
qed

lemma guid_ok_Take:
  assumes "guid_world_ok w" "guid_allowed (Take k ty) w"
  shows "guid_world_ok (guid_step c (Take k ty) w)"
proof -
  let ?cl = "gw_clients w ! k"
  have k: "k < length (gw_clients w)" using assms(2) by simp
  obtain cl' r where g: "get_guid ty ?cl = (cl', r)" by fastforce
  have ok: "client_ok ?cl" using assms(1) k by (simp add: guid_world_ok_def)
  have "set (avail ?cl) \<subseteq> set (indexes w)" using k by (auto simp: indexes_def)
  then have "\<forall>i \<in> set (avail ?cl). i < 2 ^ 48" using indexes_bound [OF assms(1)] by blast
  note a = get_guid_avail [OF ok this g]
  define w' where "w' = guid_step c (Take k ty) w"
  have w': "gw_server w' = gw_server w" "gw_clients w' = (gw_clients w)[k := cl']"
    "gw_issued w' = gw_issued w @ (case r of None \<Rightarrow> [] | Some g \<Rightarrow> [g])"
    by (simp_all add: w'_def g split: option.splits)
  have "mset (indexes w') = mset (indexes w) + mset [0 ..< 0]"
    using mset_concat_update [OF k, of avail cl'] a(2,3)
    by (cases r) (auto simp: indexes_def w')
  moreover have "\<forall>c \<in> set (gw_clients w'). client_ok c"
    using assms(1) a(1) set_update_subset_insert [of "gw_clients w" k cl']
    by (auto simp: guid_world_ok_def w')
  ultimately have "mset (indexes w') = mset (indexes w)" "\<forall>c \<in> set (gw_clients w'). client_ok c" by simp_all
  then show ?thesis
    using assms(1) unfolding w'_def [symmetric] guid_world_ok_def w'(1)
    by (metis mset_eq_imp_distinct_iff mset_eq_setD)
qed

lemma guid_ok_Restart:
  "guid_world_ok w \<Longrightarrow> guid_world_ok (guid_step c Restart w)"
  by (auto simp: guid_world_ok_def indexes_def guid_restart_def alloc_guid_init_def)

lemma avail_new: "avail (new_guid_client n) = []"
  by (simp add: avail_def span_def new_guid_client_def)

lemma guid_ok_Client_restart:
  assumes "guid_world_ok w" "guid_allowed (Client_restart k) w"
  shows "guid_world_ok (guid_step c (Client_restart k) w)"
proof -
  let ?cl = "gw_clients w ! k"
  have k: "k < length (gw_clients w)" using assms(2) by simp
  define w' where "w' = guid_step c (Client_restart k) w"
  have w': "gw_server w' = gw_server w" "gw_clients w' = (gw_clients w)[k := new_guid_client (gc_request_no ?cl)]"
    "gw_issued w' = gw_issued w" by (simp_all add: w'_def)
  have ok: "\<forall>c \<in> set (gw_clients w). client_ok c" using assms(1) by (simp add: guid_world_ok_def)
  then have "client_ok (new_guid_client (gc_request_no ?cl))"
    using k by (simp add: client_ok_def new_guid_client_def)
  then have "\<forall>c \<in> set (gw_clients w'). client_ok c"
    using ok set_update_subset_insert [of "gw_clients w" k "new_guid_client (gc_request_no ?cl)"] unfolding w' by blast
  moreover have "mset (indexes w') + mset (avail ?cl) = mset (indexes w)"
    using mset_concat_update [OF k, of avail "new_guid_client (gc_request_no ?cl)"]
    by (simp add: indexes_def w' avail_new)
  then have "mset (indexes w' @ avail ?cl) = mset (indexes w)" by simp
  then have "distinct (indexes w' @ avail ?cl)" "set (indexes w' @ avail ?cl) = set (indexes w)"
    using assms(1) by (metis guid_world_ok_def mset_eq_imp_distinct_iff, metis mset_eq_setD)
  ultimately show ?thesis using assms(1) unfolding w'_def [symmetric] guid_world_ok_def w'(1) by auto
qed

text \<open>The parameter as a world with a codec of its own, so that the interface fits.\<close>

interpretation guids: invariant_machine "guid_step c" guid_allowed "\<lambda>w. codec_ok c \<and> guid_world_ok w" for c
proof
  fix w e
  show "codec_ok c \<and> guid_world_ok w \<Longrightarrow> guid_allowed e w \<Longrightarrow> codec_ok c \<and> guid_world_ok (guid_step c e w)"
    by (cases e) (auto intro: guid_ok_Ask guid_ok_Take guid_ok_Restart guid_ok_Client_restart simp del: guid_step.simps guid_allowed.simps)
qed

definition guid_start :: "u32 \<Rightarrow> u64 \<Rightarrow> u32 list \<Rightarrow> guid_world" where
  "guid_start seed index ns = \<lparr> gw_server = \<lparr> gs_seed = seed, gs_index = index, gs_document = True,
       gs_file = \<lparr> cfg_seed = seed, cfg_index = index \<rparr> \<rparr>,
     gw_clients = map new_guid_client ns, gw_issued = [] \<rparr>"

lemma guid_start_ok: "index < 2 ^ 48 \<Longrightarrow> 0 \<notin> set ns \<Longrightarrow> guid_world_ok (guid_start seed index ns)"
  by (induction ns) (auto simp: guid_world_ok_def guid_start_def indexes_def avail_def span_def
      new_guid_client_def client_ok_def word_less_nat_alt)

text \<open>C21: no guid is handed out twice. Start the guid server with any seed and any index
  below $2^{48}$ and any number of servers that ask for at least one guid at a time; whatever the
  order in which they ask, take guids of any type and are started again, and the server fails to
  save its file and is restarted from it, all guids taken are different, even in their index, as long as the
  requests stay below the last index of the seed.\<close>

theorem guids_unique:
  assumes "codec_ok c" "index < 2 ^ 48" "0 \<notin> set ns"
    and "all_allowed (guid_step c) guid_allowed es (guid_start seed index ns)"
  shows "distinct (map guid_index (gw_issued (run_events (guid_step c) es (guid_start seed index ns))))"
proof -
  let ?w = "run_events (guid_step c) es (guid_start seed index ns)"
  have "codec_ok c \<and> guid_world_ok ?w"
    using assms guid_start_ok by (intro guids.run_keeps) auto
  then have "distinct (map (unat \<circ> guid_index) (gw_issued ?w))"
    by (simp add: guid_world_ok_def indexes_def)
  then show ?thesis by (auto simp: distinct_map inj_on_def)
qed

text \<open>A codec that shows that the hypothesis can hold: the fields as little endian bytes.\<close>

definition ref_codec :: guid_codec where
  "ref_codec = \<lparr> ser_request = le_bytes 4, parse_request = (\<lambda>bs. Some (le_word bs)),
     ser_return = (\<lambda>(seed, no, start). le_bytes 4 seed @ le_bytes 4 no @ le_bytes 8 start),
     parse_return = (\<lambda>bs. Some (le_word (take 4 bs), le_word (take 4 (drop 4 bs)), le_word (drop 8 bs))) \<rparr>"

lemma ref_codec_ok: "codec_ok ref_codec"
  by (auto simp: codec_ok_def ref_codec_def fits_def head_size_def)

lemma guids_unique_witness:
  "let w = run_events (guid_step ref_codec) [Ask 0 True, Take 0 1, Ask 1 False, Restart, Ask 1 True, Take 1 2, Client_restart 0, Ask 0 True, Take 0 1]
       (guid_start 3 100 [5, 5])
   in distinct (map guid_index (gw_issued w)) \<and> length (gw_issued w) = 3"
proof -
  let ?es = "[Ask 0 True, Take 0 1, Ask 1 False, Restart, Ask 1 True, Take 1 2, Client_restart 0, Ask 0 True, Take 0 1]"
    and ?w = "guid_start 3 100 [5, 5]"
  have *: "(100 :: u64) < 2 ^ 48" "(0 :: u32) \<notin> set [5, 5]" by simp_all
  have ask: "guid_allowed (Ask k sv) w \<Longrightarrow> guid_step ref_codec (Ask k sv) w = (let cl = gw_clients w ! k;
      s = gw_server w; n = gc_request_no (gw_clients w ! k) in
      if gc_que cl \<noteq> [] then w
     else let s' = s\<lparr> gs_index := gs_index s + ucast n \<rparr> in
       if gs_document s \<and> sv
       then w\<lparr> gw_server := s'\<lparr> gs_file := \<lparr> cfg_seed = gs_seed s, cfg_index = gs_index s + ucast n \<rparr> \<rparr>,
               gw_clients := (gw_clients w)[k := cl\<lparr> gc_que :=
                 [\<lparr> gi_seed = gs_seed s, gi_no = n, gi_rest = n, gi_index = gs_index s \<rparr>] \<rparr>] \<rparr>
       else w\<lparr> gw_server := s' \<rparr>)" for k sv w
    unfolding Let_def using guid_step_Ask [OF ref_codec_ok] by (simp add: Let_def)
  note ev = guid_start_def new_guid_client_def ask get_guid_def get_guid_info_def guid_restart_def
    alloc_guid_init_def Let_def
  have "all_allowed (guid_step ref_codec) guid_allowed ?es ?w"
    by (simp add: ev del: guid_step.simps(1))
  from guids_unique [OF ref_codec_ok * this]
  show ?thesis by (simp add: ev Let_def del: guid_step.simps(1))
qed

text \<open>When the indexes of the seed are used up the server starts the next seed and keeps the
  indexes from 1 for the request, but it replies with the start index it had before: the range
  a client gets lies at the end of the index space, is not the one that was kept, and as long
  as the request is larger than what was left the client's indexes run past 48 bits, where
  MAKE_GUID cuts them off.\<close>

theorem exhausted_reply:
  assumes "gs_document s" "unat (gs_index s) < 2 ^ 48" "2 ^ 48 - 1 \<le> unat (gs_index s) + unat n"
  shows "case generate_guid True n s of (s', ok, no, start) \<Rightarrow>
    ok \<and> gs_seed s' = gs_seed s + 1 \<and> gs_index s' = 1 + ucast n \<and> no = n \<and> start = gs_index s \<and>
    gs_file s' = \<lparr> cfg_seed = gs_seed s', cfg_index = gs_index s' \<rparr> \<and>
    (unat n + 1 < unat (gs_index s) \<longrightarrow> {unat start ..< unat start + unat no} \<inter> {1 ..< unat (gs_index s')} = {}) \<and>
    (2 ^ 48 < unat (gs_index s) + unat n \<longrightarrow>
       (\<exists>k < unat n. guid_index (make_guid 1 (ucast (gs_seed s')) (start + of_nat k)) \<noteq> start + of_nat k))"
proof -
  have n: "unat n < 2 ^ 32" using unsigned_less [of n, where ?'a = nat] by simp
  have "unat (gs_index s + ucast n) = unat (gs_index s) + unat n"
    using n assms(2) by (simp add: unat_word_ariths)
  then have "\<not> gs_index s + ucast n < max_guid_index"
    using assms(3) by (simp add: word_less_nat_alt max_guid_index_def)
  then have eq: "generate_guid True n s =
    (s\<lparr> gs_index := 1 + ucast n, gs_seed := gs_seed s + 1,
        gs_file := \<lparr> cfg_seed = gs_seed s + 1, cfg_index = 1 + ucast n \<rparr> \<rparr>, True, n, gs_index s)"
    using assms(1) by (simp add: generate_guid_def write_guid_cfg_def Let_def)
  have one: "unat (1 + ucast n :: u64) = 1 + unat n"
    using n by (simp add: unat_word_ariths)
  have run_over: "\<exists>k < unat n. guid_index (make_guid 1 x (gs_index s + of_nat k)) \<noteq> gs_index s + of_nat k"
    if "2 ^ 48 < unat (gs_index s) + unat n" for x
  proof (intro exI conjI)
    let ?k = "2 ^ 48 - unat (gs_index s)"
    show "?k < unat n" using that assms(2) by simp
    have "gs_index s + of_nat ?k = of_nat (unat (gs_index s)) + of_nat ?k" by simp
    also have "\<dots> = of_nat (unat (gs_index s) + ?k)" by (simp only: of_nat_add)
    also have "\<dots> = 2 ^ 48" using assms(2) by simp
    finally show "guid_index (make_guid 1 x (gs_index s + of_nat ?k)) \<noteq> gs_index s + of_nat ?k"
      by (simp add: mask_eq_exp_minus_1)
  qed
  show ?thesis unfolding eq using one run_over by simp
qed

lemma exhausted_reply_witness:
  "case generate_guid True 100 \<lparr> gs_seed = 4, gs_index = 0xFFFFFFFFFFF0, gs_document = True,
      gs_file = \<lparr> cfg_seed = 4, cfg_index = 0xFFFFFFFFFFF0 \<rparr> \<rparr> of
    (s, ok, no, start) \<Rightarrow> gs_seed s = 5 \<and> gs_index s = 101 \<and> start = 0xFFFFFFFFFFF0"
  using exhausted_reply [of "\<lparr> gs_seed = 4, gs_index = 0xFFFFFFFFFFF0, gs_document = True,
      gs_file = \<lparr> cfg_seed = 4, cfg_index = 0xFFFFFFFFFFF0 \<rparr> \<rparr>" 100]
  by (simp split: prod.splits)

end
