(* ===== verification/RoleName.thy ===== *)
theory RoleName
  imports Prelude "HOL-Library.Sublist"
begin

unbundle bit_operations_syntax

text \<open>
  Checking the name of a new role: \<^verbatim>\<open>charsys/src/checkname/CheckRoleName.cpp\<close>. Strings are
  lists of bytes. The unlawful words are kept in a trie of bytes. The XML document and
  \<^verbatim>\<open>boost::to_lower\<close> are not in this repository: the texts of the document and the lowering are
  arguments.
\<close>

section \<open>The trie of unlawful words\<close>

datatype word_info = Word_Info (wi_end: bool) (wi_children: "u8 \<Rightarrow> word_info option")

definition new_word_info :: word_info where
  "new_word_info = Word_Info False (\<lambda>_. None)"

text \<open>The inner loop of \<^verbatim>\<open>processUnlawfulWord\<close>: the mark is set only on a node that is made for
  the last byte.\<close>

primrec insert_word :: "u8 list \<Rightarrow> word_info \<Rightarrow> word_info" where
  "insert_word [] t = t"
| "insert_word (b # bs) t =
     Word_Info (wi_end t)
       ((wi_children t)(b \<mapsto> insert_word bs
          (case wi_children t b of
             None \<Rightarrow> Word_Info (bs = []) (\<lambda>_. None)
           | Some child \<Rightarrow> child)))"

primrec process_unlawful_word :: "u8 list list \<Rightarrow> word_info \<Rightarrow> word_info" where
  "process_unlawful_word [] t = t"
| "process_unlawful_word (w # ws) t =
     process_unlawful_word ws (if w = [] then t else insert_word w t)"

text \<open>\<^verbatim>\<open>isUnlawfulWord\<close> at one position: the flag is the variable \<^verbatim>\<open>result\<close>.\<close>

primrec unlawful_at :: "bool \<Rightarrow> u8 list \<Rightarrow> word_info \<Rightarrow> bool" where
  "unlawful_at result [] t = result"
| "unlawful_at result (b # bs) t =
     (case wi_children t b of
        Some child \<Rightarrow> if wi_end child then True else unlawful_at False bs child
      | None \<Rightarrow> False)"

primrec is_unlawful_word :: "u8 list \<Rightarrow> word_info \<Rightarrow> bool" where
  "is_unlawful_word [] t = False"
| "is_unlawful_word (b # bs) t = (unlawful_at True (b # bs) t \<or> is_unlawful_word bs t)"

section \<open>Letters and length\<close>

definition lawful_letter :: "u8 \<Rightarrow> bool" where
  "lawful_letter c \<longleftrightarrow> (0x61 \<le> c \<and> c \<le> 0x7A) \<or> (0x30 \<le> c \<and> c \<le> 0x39)"

primrec unlawful_letter_loop :: "bool \<Rightarrow> u8 list \<Rightarrow> bool" where
  "unlawful_letter_loop result [] = result"
| "unlawful_letter_loop result (c # cs) =
     (if c < 0x80 then (if lawful_letter c then unlawful_letter_loop False cs else True)
      else unlawful_letter_loop False cs)"

definition include_unlawful_letter :: "u8 list \<Rightarrow> bool" where
  "include_unlawful_letter name = unlawful_letter_loop False name"

text \<open>A read of the string: its bytes, the NUL behind them, and nothing else.\<close>

definition read_byte :: "u8 list \<Rightarrow> nat \<Rightarrow> u8 option" where
  "read_byte src i = (if i < length src then Some (src ! i) else if i = length src then Some 0 else None)"

definition utf8_bytes :: "u8 \<Rightarrow> nat option" where
  "utf8_bytes b =
     (if b AND 0xE0 = 0xC0 then Some 1
      else if b AND 0xF0 = 0xE0 then Some 2
      else if b AND 0xF8 = 0xF0 then Some 3
      else if b AND 0xFC = 0xF8 then Some 4
      else if b AND 0xFE = 0xFC then Some 5
      else None)"

text \<open>The inner loop: at most \<open>n\<close> continuation bytes from \<open>p\<close> on; \<open>None\<close> is a read outside the
  string.\<close>

primrec skip_continuation :: "u8 list \<Rightarrow> nat \<Rightarrow> nat \<Rightarrow> nat option" where
  "skip_continuation src 0 p = Some p"
| "skip_continuation src (Suc n) p =
     (case read_byte src p of
        None \<Rightarrow> None
      | Some b \<Rightarrow> if b AND 0xC0 \<noteq> 0x80 then Some p else skip_continuation src n (p + 1))"

lemma skip_continuation_ge: "skip_continuation src n p = Some q \<Longrightarrow> p \<le> q"
  by (induction n arbitrary: p) (force split: option.splits if_splits)+

function (sequential) utf8_loop :: "u8 list \<Rightarrow> nat \<Rightarrow> nat \<Rightarrow> nat \<Rightarrow> nat option" where
  "utf8_loop src p char_size chinese_size =
     (if length src \<le> p then Some (char_size + chinese_size * 2)
      else case read_byte src p of
        None \<Rightarrow> None
      | Some b \<Rightarrow>
          if b < 0x80 then utf8_loop src (p + 1) (char_size + 1) chinese_size
          else case utf8_bytes b of
            None \<Rightarrow> Some (char_size + chinese_size * 2)
          | Some n \<Rightarrow>
              (case skip_continuation src n (p + 1) of
                 None \<Rightarrow> None
               | Some q \<Rightarrow> utf8_loop src q char_size (chinese_size + 1)))"
  by pat_completeness auto
termination
  by (relation "measure (\<lambda>(src, p, _, _). length src - p)") (auto dest: skip_continuation_ge)

declare utf8_loop.simps [simp del]

definition get_utf8_strlen :: "u8 list \<Rightarrow> nat option" where
  "get_utf8_strlen src = utf8_loop src 0 0 0"

section \<open>The check\<close>

record role_name_strategy =
  min_name_length :: nat
  max_name_length :: nat
  not_allowed_words :: "u8 list list"

definition new_strategy :: role_name_strategy where
  "new_strategy = \<lparr> min_name_length = 4, max_name_length = 12, not_allowed_words = [] \<rparr>"

record role_name_checker =
  rc_strategy :: role_name_strategy
  rc_words :: word_info

text \<open>\<^verbatim>\<open>loadUnlawfulWord\<close>: the texts of the elements, when the document could be read.\<close>

definition load_unlawful_word ::
  "(u8 list \<Rightarrow> u8 list) \<Rightarrow> u8 list list option \<Rightarrow> role_name_checker \<Rightarrow> role_name_checker option" where
  "load_unlawful_word lower texts rc =
     (case texts of
        None \<Rightarrow> None
      | Some ts \<Rightarrow> Some (rc\<lparr> rc_strategy := (rc_strategy rc)
           \<lparr> not_allowed_words := not_allowed_words (rc_strategy rc) @ map lower ts \<rparr> \<rparr>))"

definition checker_init ::
  "(u8 list \<Rightarrow> u8 list) \<Rightarrow> u8 list list option \<Rightarrow> role_name_checker option" where
  "checker_init lower texts =
     (case load_unlawful_word lower texts \<lparr> rc_strategy = new_strategy, rc_words = new_word_info \<rparr> of
        None \<Rightarrow> None
      | Some rc \<Rightarrow> Some (rc\<lparr> rc_words := process_unlawful_word (not_allowed_words (rc_strategy rc)) (rc_words rc) \<rparr>))"

text \<open>\<^verbatim>\<open>checkRoleName\<close>; no result is a read outside the name.\<close>

definition check_role_name :: "(u8 list \<Rightarrow> u8 list) \<Rightarrow> role_name_checker \<Rightarrow> u8 list \<Rightarrow> bool option" where
  "check_role_name lower rc name =
     (case get_utf8_strlen name of
        None \<Rightarrow> None
      | Some name_len \<Rightarrow>
          let check_str = lower name in
          Some (if name_len < min_name_length (rc_strategy rc) then False
                else if max_name_length (rc_strategy rc) < name_len then False
                else if include_unlawful_letter check_str then False
                else if is_unlawful_word check_str (rc_words rc) then False
                else True))"

section \<open>What the trie holds\<close>

fun node_at :: "u8 list \<Rightarrow> word_info \<Rightarrow> word_info option" where
  "node_at [] t = Some t"
| "node_at (b # bs) t = (case wi_children t b of None \<Rightarrow> None | Some c \<Rightarrow> node_at bs c)"

definition ends :: "word_info \<Rightarrow> u8 list \<Rightarrow> bool" where
  "ends t v \<longleftrightarrow> (case node_at v t of None \<Rightarrow> False | Some n \<Rightarrow> wi_end n)"

lemma wi_end_insert [simp]: "wi_end (insert_word w t) = wi_end t"
  by (cases w) auto

lemma ends_simps [simp]:
  "ends t [] = wi_end t"
  "ends t (b # bs) = (case wi_children t b of None \<Rightarrow> False | Some c \<Rightarrow> ends c bs)"
  by (simp_all add: ends_def split: option.splits)

lemma node_at_leaf [simp]: "node_at v (Word_Info e (\<lambda>_. None)) = (if v = [] then Some (Word_Info e (\<lambda>_. None)) else None)"
  by (cases v) auto

lemma node_at_insert:
  "node_at v (insert_word w t) \<noteq> None \<longleftrightarrow> node_at v t \<noteq> None \<or> prefix v w"
proof (induction w arbitrary: v t)
  case (Cons b bs)
  show ?case
  proof (cases v)
    case (Cons c cs)
    then show ?thesis using Cons.IH [of cs "Word_Info (bs = []) (\<lambda>_. None)"] Cons.IH [of cs]
      by (auto split: option.splits)
  qed simp
qed (auto simp: prefix_def)

lemma ends_insert:
  "ends (insert_word w t) v \<longleftrightarrow> ends t v \<or> v = w \<and> w \<noteq> [] \<and> node_at w t = None"
proof (induction w arbitrary: v t)
  case (Cons b bs)
  show ?case
  proof (cases v)
    case (Cons c cs)
    show ?thesis
    proof (cases "c = b")
      case True
      show ?thesis
      proof (cases "wi_children t b")
        case None
        have "ends (Word_Info (bs = []) (\<lambda>_. None)) cs \<longleftrightarrow> cs = [] \<and> bs = []"
          by (cases cs) auto
        then show ?thesis using Cons Cons.IH [of "Word_Info (bs = []) (\<lambda>_. None)" cs] None True
          by auto
      next
        case (Some d)
        then show ?thesis using Cons Cons.IH [of d cs] True by (cases bs) auto
      qed
    next
      case False
      then show ?thesis using Cons by simp
    qed
  qed simp
qed simp

text \<open>The words that end up marked: a word keeps its mark when no word before its first
  occurrence starts with it.\<close>

primrec marked :: "u8 list list \<Rightarrow> u8 list list \<Rightarrow> u8 list set" where
  "marked seen [] = {}"
| "marked seen (w # ws) =
     (if w \<noteq> [] \<and> (\<forall>u \<in> set seen. \<not> prefix w u) then {w} else {}) \<union> marked (seen @ [w]) ws"

lemma ends_process:
  assumes "\<And>v. v \<noteq> [] \<Longrightarrow> node_at v t \<noteq> None \<longleftrightarrow> (\<exists>u \<in> set seen. prefix v u)" and "\<not> wi_end t"
  shows "ends (process_unlawful_word ws t) v \<longleftrightarrow> ends t v \<or> v \<in> marked seen ws"
  using assms
proof (induction ws arbitrary: t seen)
  case (Cons w ws)
  show ?case
  proof (cases "w = []")
    case True
    have "ends (process_unlawful_word ws t) v \<longleftrightarrow> ends t v \<or> v \<in> marked (seen @ [w]) ws"
      using Cons.prems True by (intro Cons.IH) auto
    then show ?thesis using True by simp
  next
    case False
    have "node_at v (insert_word w t) \<noteq> None \<longleftrightarrow> (\<exists>u \<in> set (seen @ [w]). prefix v u)" if "v \<noteq> []" for v
      unfolding node_at_insert using Cons.prems(1) [OF that] by (auto simp del: not_None_eq)
    then have "ends (process_unlawful_word ws (insert_word w t)) v \<longleftrightarrow>
        ends (insert_word w t) v \<or> v \<in> marked (seen @ [w]) ws"
      using Cons.prems(2) by (intro Cons.IH) simp_all
    moreover have "node_at w t = None \<longleftrightarrow> (\<forall>u \<in> set seen. \<not> prefix w u)"
      using Cons.prems(1) [OF False] by auto
    ultimately show ?thesis using False by (auto simp: ends_insert)
  qed
qed simp

definition words_trie :: "u8 list list \<Rightarrow> word_info" where
  "words_trie ws = process_unlawful_word ws new_word_info"

lemma ends_words_trie: "ends (words_trie ws) v \<longleftrightarrow> v \<in> marked [] ws"
proof -
  have "ends (process_unlawful_word ws new_word_info) v \<longleftrightarrow> ends new_word_info v \<or> v \<in> marked [] ws"
    by (rule ends_process) (simp_all add: new_word_info_def)
  moreover have "\<not> ends new_word_info v" by (cases v) (auto simp: new_word_info_def)
  ultimately show ?thesis by (simp add: words_trie_def)
qed

section \<open>What the search finds\<close>

lemma unlawful_at_ends:
  "unlawful_at r bs t \<longleftrightarrow> (if bs = [] then r else \<exists>v. v \<noteq> [] \<and> prefix v bs \<and> ends t v)"
proof (induction bs arbitrary: r t)
  case (Cons b bs)
  show ?case
  proof (cases "wi_children t b")
    case None
    then have "\<not> ends t v" if "v \<noteq> []" "prefix v (b # bs)" for v
      using that by (cases v) auto
    then show ?thesis using None by auto
  next
    case (Some c)
    have ex: "(\<exists>v. v \<noteq> [] \<and> prefix v (b # bs) \<and> ends t v) \<longleftrightarrow> (\<exists>v. prefix v bs \<and> ends c v)"
    proof
      assume "\<exists>v. v \<noteq> [] \<and> prefix v (b # bs) \<and> ends t v"
      then obtain v where "v \<noteq> []" "prefix v (b # bs)" "ends t v" by blast
      then show "\<exists>v. prefix v bs \<and> ends c v" using Some by (cases v) auto
    next
      assume "\<exists>v. prefix v bs \<and> ends c v"
      then obtain v where "prefix v bs" "ends c v" by blast
      then have "prefix (b # v) (b # bs) \<and> ends t (b # v)" using Some by simp
      then show "\<exists>v. v \<noteq> [] \<and> prefix v (b # bs) \<and> ends t v" by blast
    qed
    have "(\<exists>v. prefix v bs \<and> ends c v) \<longleftrightarrow> wi_end c \<or> (\<exists>v. v \<noteq> [] \<and> prefix v bs \<and> ends c v)"
      by (metis ends_simps(1) Nil_prefix)
    then show ?thesis using Some ex Cons.IH [of False c]
      by (auto simp: prefix_Nil)
  qed
qed simp

lemma is_unlawful_word_ends:
  "is_unlawful_word bs t \<longleftrightarrow> (\<exists>v. v \<noteq> [] \<and> sublist v bs \<and> ends t v)"
proof (induction bs)
  case (Cons b bs)
  show ?case using Cons unlawful_at_ends [of True "b # bs" t]
    by (auto simp: sublist_Cons_right)
qed (auto)

lemma marked_iff:
  "w \<in> marked seen ws \<longleftrightarrow>
    (\<exists>us vs. ws = us @ w # vs \<and> w \<noteq> [] \<and> (\<forall>u \<in> set seen \<union> set us. \<not> prefix w u))"
proof (induction ws arbitrary: seen)
  case (Cons x xs)
  have "(\<exists>us vs. x # xs = us @ w # vs \<and> w \<noteq> [] \<and> (\<forall>u \<in> set seen \<union> set us. \<not> prefix w u)) \<longleftrightarrow>
      w = x \<and> w \<noteq> [] \<and> (\<forall>u \<in> set seen. \<not> prefix w u) \<or>
      (\<exists>us vs. xs = us @ w # vs \<and> w \<noteq> [] \<and> (\<forall>u \<in> set (seen @ [x]) \<union> set us. \<not> prefix w u))"
    (is "?l \<longleftrightarrow> ?a \<or> ?b")
  proof
    assume ?l
    then obtain us vs where l: "x # xs = us @ w # vs" "w \<noteq> []" "\<forall>u \<in> set seen \<union> set us. \<not> prefix w u" by blast
    show "?a \<or> ?b"
    proof (cases us)
      case (Cons y ys)
      then have "xs = ys @ w # vs \<and> w \<noteq> [] \<and> (\<forall>u \<in> set (seen @ [x]) \<union> set ys. \<not> prefix w u)" using l by auto
      then show ?thesis by blast
    qed (use l in auto)
  next
    assume "?a \<or> ?b"
    then show ?l
    proof
      assume ?a
      then have "x # xs = [] @ w # xs \<and> w \<noteq> [] \<and> (\<forall>u \<in> set seen \<union> set []. \<not> prefix w u)" by auto
      then show ?l by blast
    next
      assume ?b
      then obtain us vs where "xs = us @ w # vs" "w \<noteq> []" "\<forall>u \<in> set (seen @ [x]) \<union> set us. \<not> prefix w u" by blast
      then have "x # xs = (x # us) @ w # vs \<and> w \<noteq> [] \<and> (\<forall>u \<in> set seen \<union> set (x # us). \<not> prefix w u)" by auto
      then show ?l by blast
    qed
  qed
  then show ?case using Cons.IH by auto
qed simp

lemma marked_iff0:
  "w \<in> marked [] ws \<longleftrightarrow> (\<exists>us vs. ws = us @ w # vs \<and> w \<noteq> [] \<and> (\<forall>u \<in> set us. \<not> prefix w u))"
  using marked_iff [of w "[]" ws] by simp

lemma marked_nonempty: "w \<in> marked seen ws \<Longrightarrow> w \<noteq> []"
  by (auto simp: marked_iff)

lemma is_unlawful_word_marked:
  "is_unlawful_word name (words_trie ws) \<longleftrightarrow> (\<exists>w \<in> marked [] ws. sublist w name)"
  using is_unlawful_word_ends [of name "words_trie ws"] ends_words_trie marked_nonempty by blast

text \<open>C33: the search finds a name unlawful exactly when it contains a word of the list that no
  earlier word of the list starts with; so when no word of the list is a proper beginning of
  an earlier one, exactly the names that contain a nonempty word of the list.\<close>

theorem unlawful_words_found:
  "(is_unlawful_word name (words_trie ws) \<longleftrightarrow>
      (\<exists>us w vs. ws = us @ w # vs \<and> w \<noteq> [] \<and> (\<forall>u \<in> set us. \<not> prefix w u) \<and> sublist w name)) \<and>
   ((\<forall>us w vs. ws = us @ w # vs \<longrightarrow> (\<forall>u \<in> set us. \<not> strict_prefix w u)) \<longrightarrow>
      (is_unlawful_word name (words_trie ws) \<longleftrightarrow> (\<exists>w \<in> set ws. w \<noteq> [] \<and> sublist w name)))"
proof -
  have a: "is_unlawful_word name (words_trie ws) \<longleftrightarrow>
      (\<exists>us w vs. ws = us @ w # vs \<and> w \<noteq> [] \<and> (\<forall>u \<in> set us. \<not> prefix w u) \<and> sublist w name)"
    unfolding is_unlawful_word_marked Bex_def marked_iff0 by blast
  have "is_unlawful_word name (words_trie ws)"
    if sp: "\<forall>us w vs. ws = us @ w # vs \<longrightarrow> (\<forall>u \<in> set us. \<not> strict_prefix w u)"
      and w: "w \<in> set ws" "w \<noteq> []" "sublist w name" for w
  proof -
    obtain us vs where ws: "ws = us @ w # vs" "w \<notin> set us" using split_list_first [OF w(1)] by blast
    then have "\<forall>u \<in> set us. \<not> prefix w u" using sp by (metis prefix_order.le_less)
    then show ?thesis using a ws w by blast
  qed
  then show ?thesis using a by auto
qed

lemma unlawful_words_found_witness:
  "is_unlawful_word [0x78, 0x61, 0x62] (words_trie [[0x61, 0x62], [0x7A]])"
proof -
  have "\<exists>us w vs. [[0x61, 0x62], [0x7A :: u8]] = us @ w # vs \<and> w \<noteq> [] \<and> (\<forall>u \<in> set us. \<not> prefix w u) \<and>
      sublist w [0x78, 0x61, 0x62]"
    by (intro exI [of _ "[]"] exI [of _ "[0x61, 0x62]"] exI [of _ "[[0x7A]]"]) (simp add: sublist_Cons_right)
  then show ?thesis using unlawful_words_found by blast
qed

text \<open>A word that comes after a longer word that starts with it gets no mark, so a name that
  is just that word, and contains no other word of the list, is found lawful.\<close>

theorem shadowed_word_missed:
  assumes "ws = us @ w # vs" "u \<in> set us" "prefix w u"
    and "\<forall>v \<in> set ws. v = w \<or> v = [] \<or> \<not> sublist v w" and "w \<notin> set us"
  shows "\<not> is_unlawful_word w (words_trie ws)"
proof
  assume "is_unlawful_word w (words_trie ws)"
  then obtain us' w' vs' where l: "ws = us' @ w' # vs'" "w' \<noteq> []" "\<forall>u \<in> set us'. \<not> prefix w' u" "sublist w' w"
    using unlawful_words_found [of w ws] by blast
  then have "w' = w" using assms(4) by auto
  then have "us' @ w # vs' = us @ w # vs" using l(1) assms(1) by simp
  then have "set us \<subseteq> set us'"
    using assms(5) unfolding append_eq_append_conv2 by (auto simp: Cons_eq_append_conv)
  then show False using l(3) \<open>w' = w\<close> assms(2,3) by blast
qed

lemma shadowed_word_missed_witness:
  "\<not> is_unlawful_word [0x61, 0x62] (words_trie [[0x61, 0x62, 0x63], [0x61, 0x62]])"
proof -
  have "\<not> sublist [0x61, 0x62, 0x63] [0x61, 0x62 :: u8]"
    by (auto dest: sublist_length_le)
  then show ?thesis
    by (intro shadowed_word_missed [where us = "[[0x61, 0x62, 0x63]]" and vs = "[]" and u = "[0x61, 0x62, 0x63]"]) simp_all
qed

section \<open>Length of a name\<close>

lemma skip_continuation_total:
  "p \<le> length src \<Longrightarrow> \<exists>q. skip_continuation src n p = Some q \<and> p \<le> q \<and> q \<le> length src"
proof (induction n arbitrary: p)
  case (Suc n)
  show ?case
  proof (cases "p = length src")
    case False
    then have lt: "p < length src" using Suc.prems by simp
    obtain q where "skip_continuation src n (p + 1) = Some q" "p + 1 \<le> q" "q \<le> length src"
      using Suc.IH [of "p + 1"] lt by auto
    then show ?thesis using lt by (auto simp: read_byte_def)
  qed (simp add: read_byte_def)
qed simp

lemma utf8_loop_total:
  "p \<le> length src \<Longrightarrow>
    \<exists>k. utf8_loop src p a c = Some k \<and> a + c * 2 \<le> k \<and> k \<le> a + c * 2 + 2 * (length src - p)"
proof (induction src p a c rule: utf8_loop.induct)
  case (1 src p a c)
  show ?case
  proof (cases "length src \<le> p")
    case False
    then have r: "read_byte src p = Some (src ! p)" by (simp add: read_byte_def)
    show ?thesis
    proof (cases "src ! p < 0x80")
      case True
      from 1(1) [OF False r True] obtain k where
        "utf8_loop src (p + 1) (a + 1) c = Some k" "a + 1 + c * 2 \<le> k"
        "k \<le> a + 1 + c * 2 + 2 * (length src - (p + 1))" using False by auto
      moreover have "utf8_loop src p a c = utf8_loop src (p + 1) (a + 1) c"
        using False r True by (simp add: utf8_loop.simps [of src p])
      ultimately show ?thesis using False by auto
    next
      case wide: False
      show ?thesis
      proof (cases "utf8_bytes (src ! p)")
        case None
        then show ?thesis using False r wide by (simp add: utf8_loop.simps [of src p])
      next
        case (Some n)
        obtain q where q: "skip_continuation src n (p + 1) = Some q" "p + 1 \<le> q" "q \<le> length src"
          using skip_continuation_total [of "p + 1" src n] False by auto
        from 1(2) [OF False r wide Some q(1)] q(3) obtain k where
          "utf8_loop src q a (c + 1) = Some k" "a + (c + 1) * 2 \<le> k" "k \<le> a + (c + 1) * 2 + 2 * (length src - q)"
          by auto
        moreover have "utf8_loop src p a c = utf8_loop src q a (c + 1)"
          using False r wide Some q(1) by (simp add: utf8_loop.simps [of src p])
        ultimately show ?thesis using q(2,3) False by auto
      qed
    qed
  qed (simp add: utf8_loop.simps [of src p])
qed

text \<open>One character of UTF-8: an ASCII byte, or a lead byte with the continuation bytes it
  announces. The check counts it once or twice.\<close>

definition continuation :: "u8 \<Rightarrow> bool" where
  "continuation b \<longleftrightarrow> b AND 0xC0 = 0x80"

fun utf8_char :: "u8 list \<Rightarrow> bool" where
  "utf8_char [] \<longleftrightarrow> False"
| "utf8_char (b # bs) \<longleftrightarrow>
     (if b < 0x80 then bs = [] else utf8_bytes b = Some (length bs) \<and> (\<forall>c \<in> set bs. continuation c))"

definition utf8_width :: "u8 list \<Rightarrow> nat" where
  "utf8_width cs = (if hd cs < 0x80 then 1 else 2)"

lemma skip_continuation_exact:
  "\<forall>c \<in> set bs. continuation c \<Longrightarrow>
    skip_continuation (pre @ bs @ post) (length bs) (length pre) = Some (length pre + length bs)"
proof (induction bs arbitrary: pre)
  case (Cons b bs)
  have "skip_continuation ((pre @ [b]) @ bs @ post) (length bs) (length (pre @ [b])) =
      Some (length (pre @ [b]) + length bs)"
    using Cons by (intro Cons.IH) auto
  then show ?case using Cons.prems by (simp add: read_byte_def continuation_def nth_append)
qed simp

lemma utf8_loop_valid:
  "\<forall>ch \<in> set chs. utf8_char ch \<Longrightarrow>
    utf8_loop (pre @ concat chs) (length pre) a c = Some (a + c * 2 + sum_list (map utf8_width chs))"
proof (induction chs arbitrary: pre a c)
  case Nil
  then show ?case by (simp add: utf8_loop.simps)
next
  case (Cons ch chs)
  then obtain b bs where ch: "ch = b # bs" by (cases ch) auto
  have r: "read_byte (pre @ concat (ch # chs)) (length pre) = Some b"
    by (simp add: read_byte_def ch nth_append)
  have ih: "utf8_loop (pre @ concat (ch # chs)) (length pre + length ch) a c =
      Some (a + c * 2 + sum_list (map utf8_width chs))" for a c
    using Cons.IH [of "pre @ ch" a c] Cons.prems by simp
  show ?case
  proof (cases "b < 0x80")
    case True
    then have "bs = []" using Cons.prems ch by auto
    moreover have "utf8_width ch = 1" using True by (simp add: utf8_width_def ch)
    ultimately show ?thesis using r True ih [of "a + 1" c]
      by (simp add: utf8_loop.simps [of "pre @ b # concat chs" "length pre"] ch)
  next
    case False
    then have u: "utf8_bytes b = Some (length bs)" "\<forall>c \<in> set bs. continuation c"
      using Cons.prems ch by auto
    have "skip_continuation (pre @ concat (ch # chs)) (length bs) (length pre + 1) = Some (length pre + length ch)"
      using skip_continuation_exact [OF u(2), of "pre @ [b]" "concat chs"] by (simp add: ch)
    moreover have "utf8_width ch = 2" using False by (simp add: utf8_width_def ch)
    ultimately show ?thesis using r False u(1) ih [of a "c + 1"]
      by (simp add: utf8_loop.simps [of "pre @ b # bs @ concat chs" "length pre"] ch)
  qed
qed

lemma unlawful_letter_iff: "include_unlawful_letter name \<longleftrightarrow> (\<exists>c \<in> set name. c < 0x80 \<and> \<not> lawful_letter c)"
proof -
  have "unlawful_letter_loop r name \<longleftrightarrow>
      (if name = [] then r else \<exists>c \<in> set name. c < 0x80 \<and> \<not> lawful_letter c)" for r
    by (induction name arbitrary: r) auto
  then show ?thesis by (auto simp: include_unlawful_letter_def)
qed

text \<open>The check of a name reads no byte outside the name and its NUL and always answers. A
  name of well formed UTF-8 is accepted exactly when it has 4 to 12 columns (an ASCII character
  counts one, any other two), its lowered form has no ASCII byte but small letters and digits,
  and the lowered form contains no marked word of the lowered list.\<close>

theorem role_name_accepted:
  assumes "checker_init lower texts = Some rc"
  shows "(\<exists>b. check_role_name lower rc name = Some b) \<and>
    ((\<forall>ch \<in> set chs. utf8_char ch) \<longrightarrow>
      check_role_name lower rc (concat chs) = Some
        (4 \<le> sum_list (map utf8_width chs) \<and> sum_list (map utf8_width chs) \<le> 12 \<and>
         (\<forall>c \<in> set (lower (concat chs)). c < 0x80 \<longrightarrow> lawful_letter c) \<and>
         \<not> (\<exists>us w vs. map lower (the texts) = us @ w # vs \<and> w \<noteq> [] \<and> (\<forall>u \<in> set us. \<not> prefix w u) \<and>
             sublist w (lower (concat chs)))))"
proof -
  obtain ts where ts: "texts = Some ts" using assms
    by (cases texts) (auto simp: checker_init_def load_unlawful_word_def)
  have rc: "rc_words rc = words_trie (map lower ts)" "min_name_length (rc_strategy rc) = 4"
    "max_name_length (rc_strategy rc) = 12"
    using assms by (auto simp: ts checker_init_def load_unlawful_word_def new_strategy_def words_trie_def)
  have "\<exists>k. get_utf8_strlen name = Some k"
    using utf8_loop_total [of 0 name 0 0] by (auto simp: get_utf8_strlen_def)
  then have "\<exists>b. check_role_name lower rc name = Some b"
    by (auto simp: check_role_name_def Let_def)
  moreover have "check_role_name lower rc (concat chs) = Some
      (4 \<le> sum_list (map utf8_width chs) \<and> sum_list (map utf8_width chs) \<le> 12 \<and>
       (\<forall>c \<in> set (lower (concat chs)). c < 0x80 \<longrightarrow> lawful_letter c) \<and>
       \<not> (\<exists>us w vs. map lower (the texts) = us @ w # vs \<and> w \<noteq> [] \<and> (\<forall>u \<in> set us. \<not> prefix w u) \<and>
             sublist w (lower (concat chs))))"
    if "\<forall>ch \<in> set chs. utf8_char ch"
  proof -
    have len: "get_utf8_strlen (concat chs) = Some (sum_list (map utf8_width chs))"
      using utf8_loop_valid [OF that, of "[]" 0 0] by (simp add: get_utf8_strlen_def)
    have w: "is_unlawful_word (lower (concat chs)) (rc_words rc) \<longleftrightarrow>
      (\<exists>us w vs. map lower (the texts) = us @ w # vs \<and> w \<noteq> [] \<and> (\<forall>u \<in> set us. \<not> prefix w u) \<and>
             sublist w (lower (concat chs)))"
      unfolding rc ts option.sel is_unlawful_word_marked Bex_def marked_iff0 by blast
    show ?thesis
      unfolding check_role_name_def len option.case Let_def w [symmetric] unlawful_letter_iff rc(2,3)
      by auto
  qed
  ultimately show ?thesis by blast
qed

lemma role_name_accepted_witness:
  "check_role_name (\<lambda>s. s) \<lparr> rc_strategy = new_strategy\<lparr> not_allowed_words := [[0x61]] \<rparr>,
       rc_words = words_trie [[0x61]] \<rparr> (concat [[0x62], [0xE4, 0xBD, 0xA0], [0x63]]) = Some True"
proof -
  let ?rc = "\<lparr> rc_strategy = new_strategy\<lparr> not_allowed_words := [[0x61]] \<rparr>, rc_words = words_trie [[0x61]] \<rparr>"
    and ?chs = "[[0x62], [0xE4, 0xBD, 0xA0], [0x63]] :: u8 list list"
  have init: "checker_init (\<lambda>s. s) (Some [[0x61]]) = Some ?rc"
    by (simp add: checker_init_def load_unlawful_word_def new_strategy_def words_trie_def)
  have chars: "\<forall>ch \<in> set ?chs. utf8_char ch"
    by (simp add: utf8_bytes_def continuation_def word_eval)
  have letters: "\<forall>c \<in> set (concat ?chs). c < 0x80 \<longrightarrow> lawful_letter c"
    by (simp add: lawful_letter_def word_eval)
  have width: "sum_list (map utf8_width ?chs) = 4"
    by (simp add: utf8_width_def word_eval)
  have "\<not> (\<exists>us w vs. map (\<lambda>s. s) (the (Some [[0x61]])) = us @ w # vs \<and> w \<noteq> [] \<and>
      (\<forall>u \<in> set us. \<not> prefix w u) \<and> sublist w (concat ?chs))"
  proof -
    have "\<not> sublist [0x61] (concat ?chs)" by (simp add: sublist_Cons_right)
    then show ?thesis by (auto simp: Cons_eq_append_conv)
  qed
  with role_name_accepted [OF init, of undefined ?chs] chars letters width show ?thesis by simp
qed

end
