(* ===== verification/Pool.thy ===== *)
theory Pool
  imports Guid
begin

unbundle bit_operations_syntax

text \<open>
  The entity pool of a game server: \<^verbatim>\<open>pool/src/PoolImp.cpp\<close> and \<^verbatim>\<open>pool/src/PoolAssistant.cpp\<close>.
  It keeps the entities of a scene in memory, collects per owner what has to be written to the
  cache service, sends one request list per owner at a time and waits for the replies.
  \<^verbatim>\<open>scene/src/PoolImp.cpp\<close> is a second copy of the same code.

  Protobuf messages are values of type \<open>'m\<close>; \<open>ser\<close> and \<open>name_of\<close> stand for their
  \<^verbatim>\<open>SerializeAsString\<close> and \<^verbatim>\<open>GetTypeName\<close>. The requests to the cache are kept as records, their
  printing is protobuf's. Packets go to the function \<^verbatim>\<open>handle_output\<close> of the configuration; each
  operation of the model returns the packets it hands over, in order.
\<close>

section \<open>Data\<close>

datatype entity_op = EOT_NULL | EOT_ADD | EOT_REMOVE | EOT_UPDATE | EOT_QUERY | EOT_FLUSH

definition eot_code :: "entity_op \<Rightarrow> u32" where
  "eot_code op = (case op of EOT_NULL \<Rightarrow> 0 | EOT_ADD \<Rightarrow> 1 | EOT_REMOVE \<Rightarrow> 2 | EOT_UPDATE \<Rightarrow> 4
     | EOT_QUERY \<Rightarrow> 8 | EOT_FLUSH \<Rightarrow> 16)"

record 'm entity_info =
  ei_op :: u32
  ei_flushing :: bool
  ei_owner :: guid
  ei_message :: "'m option"
  ei_remove :: bool

definition new_entity_info :: "entity_op \<Rightarrow> 'm \<Rightarrow> guid \<Rightarrow> 'm entity_info" where
  "new_entity_info op msg owner =
     \<lparr> ei_op = eot_code op, ei_flushing = False, ei_owner = owner, ei_message = Some msg, ei_remove = False \<rparr>"

record db_entity_info =
  di_op :: entity_op
  di_guid :: guid
  di_requested :: bool
  di_owner :: guid

definition new_db_entity_info :: "entity_op \<Rightarrow> guid \<Rightarrow> guid \<Rightarrow> db_entity_info" where
  "new_db_entity_info op g owner = \<lparr> di_op = op, di_guid = g, di_requested = False, di_owner = owner \<rparr>"

datatype request_type = RT_ADD | RT_LOAD | RT_QUERY | RT_UPDATE | RT_FLUSH | RT_DELETE
  | RT_LOADONCE | RT_ADD_WITH_FLUSH

record 'm request =
  rq_type :: request_type
  rq_guid :: guid
  rq_success :: bool
  rq_owner :: guid
  rq_message :: "'m option"
  rq_name :: "u8 list"

record 'm request_list =
  rl_id :: u64
  rl_requests :: "'m request list"
  rl_completed :: bool
  rl_count :: nat

datatype dc_opcode = DCMSG_NEW_ENEITY | DCMSG_NEW_ENEITY_WITH_FLUSH | DCMSG_LOAD_ENTITY
  | DCMSG_QUERY_ENTITY | DCMSG_UPDATE_ENTITY | DCMSG_FLUSH_ENTITY | DCMSG_REMOVE_ENTITY
  | DCMSG_LOAD_ENTITY_ONCE | DCMSG_ONLY_REMOVE_ENTITY

record db_data_request =
  dr_index :: u32
  dr_num :: u32
  dr_trans :: u32
  dr_line :: u32
  dr_stream :: "u8 list"
  dr_owner :: guid
  dr_name :: "u8 list"

text \<open>A packet with the arguments \<^verbatim>\<open>handle_output\<close> gets besides the map.\<close>

record db_packet =
  dp_opcode :: dc_opcode
  dp_guid :: guid
  dp_request :: db_data_request
  dp_request_id :: u64
  dp_owner :: guid

text \<open>The call back of a request list is either the pool's own \<^verbatim>\<open>updateToDbCallback\<close> or one of
  the user of the pool.\<close>

record 'm request_info =
  ri_list :: "'m request_list"
  ri_update :: bool

type_synonym db_entity_map = "(guid, db_entity_info) fmap"

record 'm pool =
  pl_request_id :: u64
  pl_trans_id :: u32
  pl_update_num :: int
  pl_no_reply :: int
  pl_entities :: "(guid, 'm entity_info) fmap"
  pl_pending :: "(guid, db_entity_map) fmap"
  pl_updating :: "(guid, db_entity_map) fmap"
  pl_requests :: "'m request_info list"
  pl_owner_of :: "(guid, guid) fmap"
  pl_line :: u32

definition new_pool :: "u32 \<Rightarrow> 'm pool" where
  "new_pool line = \<lparr> pl_request_id = 0, pl_trans_id = 0, pl_update_num = 0, pl_no_reply = 0,
     pl_entities = fmempty, pl_pending = fmempty, pl_updating = fmempty, pl_requests = [],
     pl_owner_of = fmempty, pl_line = line \<rparr>"

section \<open>Entities in memory\<close>

definition pool_get :: "guid \<Rightarrow> 'm pool \<Rightarrow> 'm option" where
  "pool_get g p =
     (case fmlookup (pl_entities p) g of
        None \<Rightarrow> None | Some e \<Rightarrow> if ei_flushing e then None else ei_message e)"

definition get_entity_info :: "guid \<Rightarrow> 'm pool \<Rightarrow> 'm entity_info option" where
  "get_entity_info g p = fmlookup (pl_entities p) g"

definition get_while_flush :: "guid \<Rightarrow> 'm pool \<Rightarrow> 'm pool \<times> 'm option" where
  "get_while_flush g p =
     (case fmlookup (pl_entities p) g of
        None \<Rightarrow> (p, None)
      | Some e \<Rightarrow>
          if ei_flushing e then (p, None)
          else (p\<lparr> pl_entities := fmupd g (e\<lparr> ei_flushing := True \<rparr>) (pl_entities p) \<rparr>, ei_message e))"

definition clear_flush_state :: "guid \<Rightarrow> 'm pool \<Rightarrow> 'm pool" where
  "clear_flush_state g p =
     (case fmlookup (pl_entities p) g of
        None \<Rightarrow> p
      | Some e \<Rightarrow> p\<lparr> pl_entities := fmupd g (e\<lparr> ei_flushing := False \<rparr>) (pl_entities p) \<rparr>)"

definition get_entity_number :: "'m pool \<Rightarrow> nat" where
  "get_entity_number p = fcard (fmdom (pl_entities p))"

section \<open>Collecting changes\<close>

text \<open>\<^verbatim>\<open>updateToDb\<close>. The change that waits for an entity and the new one become one.\<close>

definition update_db_info :: "entity_op \<Rightarrow> db_entity_info \<Rightarrow> db_entity_info option" where
  "update_db_info eot di =
     (let di = di\<lparr> di_requested := False \<rparr>
      in if di_op di = EOT_ADD then (if eot = EOT_REMOVE then None else Some di)
         else Some (di\<lparr> di_op := eot \<rparr>))"

definition update_to_db :: "guid \<Rightarrow> guid \<Rightarrow> entity_op \<Rightarrow> 'm pool \<Rightarrow> 'm pool" where
  "update_to_db owner g eot p =
     (case fmlookup (pl_pending p) owner of
        None \<Rightarrow> p\<lparr> pl_pending := fmupd owner (fmupd g (new_db_entity_info eot g owner) fmempty) (pl_pending p) \<rparr>
      | Some m \<Rightarrow>
          let m' = (case fmlookup m g of
              None \<Rightarrow> fmupd g (new_db_entity_info eot g owner) m
            | Some di \<Rightarrow>
                (case update_db_info eot di of
                   None \<Rightarrow> fmdrop g m
                 | Some di' \<Rightarrow> fmupd g di' m))
          in p\<lparr> pl_pending := fmupd owner m' (pl_pending p) \<rparr>)"

definition is_updating :: "guid \<Rightarrow> guid \<Rightarrow> 'm pool \<Rightarrow> bool" where
  "is_updating owner g p =
     (case fmlookup (pl_pending p) owner of
        None \<Rightarrow> False
      | Some m \<Rightarrow> (case fmlookup m g of None \<Rightarrow> False | Some di \<Rightarrow> di_op di = EOT_ADD))"

definition next_trans_id :: "u32 \<Rightarrow> u32" where
  "next_trans_id t = (let t = (t + 1) mod 0xFFFFFFFF in if t = 0 then 1 else t)"

definition direct_update_to_db :: "('m \<Rightarrow> u8 list) \<Rightarrow> 'm \<Rightarrow> guid \<Rightarrow> guid \<Rightarrow> 'm pool \<Rightarrow> 'm pool \<times> db_packet list" where
  "direct_update_to_db ser msg g owner p =
     (let p = p\<lparr> pl_trans_id := next_trans_id (pl_trans_id p), pl_request_id := pl_request_id p + 1 \<rparr>
      in (p, [\<lparr> dp_opcode = DCMSG_NEW_ENEITY, dp_guid = g,
                dp_request = \<lparr> dr_index = pl_trans_id p, dr_num = 1, dr_trans = 1, dr_line = pl_line p,
                  dr_stream = ser msg, dr_owner = owner, dr_name = [] \<rparr>,
                dp_request_id = pl_request_id p, dp_owner = owner \<rparr>]))"

text \<open>\<^verbatim>\<open>add\<close>: the owner is recorded before the entity is looked up.\<close>

definition pool_add :: "('m \<Rightarrow> u8 list) \<Rightarrow> guid \<Rightarrow> 'm option \<Rightarrow> bool \<Rightarrow> guid \<Rightarrow> 'm pool \<Rightarrow>
    'm pool \<times> bool \<times> db_packet list" where
  "pool_add ser g message add_to_db owner p =
     (case message of
        None \<Rightarrow> (p, False, [])
      | Some msg \<Rightarrow>
          let p = p\<lparr> pl_owner_of := fmupd g owner (pl_owner_of p) \<rparr> in
          (case fmlookup (pl_entities p) g of
             Some _ \<Rightarrow> (p, False, [])
           | None \<Rightarrow>
               let p = p\<lparr> pl_entities := fmupd g (new_entity_info EOT_ADD msg owner) (pl_entities p) \<rparr> in
               if \<not> add_to_db then (p, True, [])
               else if extract_entity_type g = ucast et_coin then
                 (let (p, out) = direct_update_to_db ser msg g owner p in (p, True, out))
               else (update_to_db owner g EOT_ADD p, True, [])))"

definition pool_remove :: "guid \<Rightarrow> bool \<Rightarrow> bool \<Rightarrow> 'm pool \<Rightarrow> 'm pool \<times> bool" where
  "pool_remove g remove_from_db remove_entity_msg p =
     (case fmlookup (pl_owner_of p) g of
        None \<Rightarrow> (p, False)
      | Some owner \<Rightarrow>
          let p = p\<lparr> pl_owner_of := fmdrop g (pl_owner_of p) \<rparr> in
          (case fmlookup (pl_entities p) g of
             None \<Rightarrow> (p, False)
           | Some e \<Rightarrow>
               let updating = (if remove_from_db then False else is_updating owner g p);
                   p = (if remove_from_db then update_to_db owner g EOT_REMOVE p else p);
                   e = (if remove_entity_msg then e else e\<lparr> ei_message := None \<rparr>)
               in (p\<lparr> pl_entities := (if updating then fmupd g (e\<lparr> ei_remove := True \<rparr>) (pl_entities p)
                                      else fmdrop g (pl_entities p)) \<rparr>, True)))"

definition pool_update :: "guid \<Rightarrow> 'm pool \<Rightarrow> 'm pool \<times> bool" where
  "pool_update g p =
     (if is_player_guid g \<or> is_role_guid g then (p, True)
      else case fmlookup (pl_owner_of p) g of
        None \<Rightarrow> (p, False)
      | Some owner \<Rightarrow>
          (case fmlookup (pl_entities p) g of
             None \<Rightarrow> (p, True)
           | Some e \<Rightarrow>
               (update_to_db owner g EOT_UPDATE
                  (p\<lparr> pl_entities := fmupd g (e\<lparr> ei_op := ei_op e OR eot_code EOT_UPDATE \<rparr>) (pl_entities p) \<rparr>),
                True)))"

definition only_remove_entity :: "guid \<Rightarrow> guid \<Rightarrow> 'm pool \<Rightarrow> db_packet list" where
  "only_remove_entity g owner p =
     [\<lparr> dp_opcode = DCMSG_ONLY_REMOVE_ENTITY, dp_guid = g,
        dp_request = \<lparr> dr_index = 0, dr_num = 0, dr_trans = 0, dr_line = pl_line p, dr_stream = [],
          dr_owner = 0, dr_name = [] \<rparr>,
        dp_request_id = 0, dp_owner = owner \<rparr>]"

definition is_last_update_finish :: "'m pool \<Rightarrow> bool" where
  "is_last_update_finish p \<longleftrightarrow> pl_update_num p = 0"

definition update_entity_number :: "'m pool \<Rightarrow> int" where
  "update_entity_number p = pl_update_num p + int (fcard (fmdom (pl_pending p)))"

text \<open>\<^verbatim>\<open>clearUpdateEntity\<close>: the changes that wait for an owner are given up; the guids to insert
  and to remove are reported.\<close>

definition clear_update_entity :: "guid \<Rightarrow> 'm pool \<Rightarrow> 'm pool \<times> guid list \<times> guid list" where
  "clear_update_entity owner p =
     (case fmlookup (pl_pending p) owner of
        None \<Rightarrow> (p, [], [])
      | Some m \<Rightarrow>
          (p\<lparr> pl_pending := fmdrop owner (pl_pending p) \<rparr>,
           map (di_guid \<circ> snd) (filter (\<lambda>(_, di). di_op di = EOT_ADD) (fm_items m)),
           map (di_guid \<circ> snd) (filter (\<lambda>(_, di). di_op di = EOT_REMOVE) (fm_items m))))"

section \<open>Request lists\<close>

definition new_request :: "('m \<Rightarrow> u8 list) \<Rightarrow> request_type \<Rightarrow> guid \<Rightarrow> 'm option \<Rightarrow> guid \<Rightarrow> 'm request" where
  "new_request name_of rt g msg owner =
     \<lparr> rq_type = rt, rq_guid = g, rq_success = False, rq_owner = owner, rq_message = msg,
       rq_name = (case msg of None \<Rightarrow> [] | Some m \<Rightarrow> name_of m) \<rparr>"

definition rl_push :: "'m request \<Rightarrow> 'm request_list \<Rightarrow> 'm request_list" where
  "rl_push r rl = rl\<lparr> rl_requests := rl_requests rl @ [r] \<rparr>"

definition create_request_list :: "'m pool \<Rightarrow> 'm pool \<times> 'm request_list" where
  "create_request_list p =
     (let p = p\<lparr> pl_request_id := pl_request_id p + 1 \<rparr>
      in (p, \<lparr> rl_id = pl_request_id p, rl_requests = [], rl_completed = False, rl_count = 0 \<rparr>))"

definition rl_is_success :: "'m request_list \<Rightarrow> bool" where
  "rl_is_success rl \<longleftrightarrow> list_all rq_success (rl_requests rl)"

definition rl_is_all_failed :: "'m request_list \<Rightarrow> bool" where
  "rl_is_all_failed rl \<longleftrightarrow> list_all (\<lambda>r. \<not> rq_success r) (rl_requests rl)"

text \<open>The switch of \<^verbatim>\<open>commit\<close>: which packet a request becomes and what its stream is; a request
  that needs a message and has none becomes no packet.\<close>

definition request_packet :: "('m \<Rightarrow> u8 list) \<Rightarrow> 'm request \<Rightarrow> (dc_opcode \<times> u8 list) option" where
  "request_packet ser r =
     (case rq_type r of
        RT_ADD \<Rightarrow> map_option (\<lambda>m. (DCMSG_NEW_ENEITY, ser m)) (rq_message r)
      | RT_ADD_WITH_FLUSH \<Rightarrow> map_option (\<lambda>m. (DCMSG_NEW_ENEITY_WITH_FLUSH, ser m)) (rq_message r)
      | RT_LOAD \<Rightarrow> Some (DCMSG_LOAD_ENTITY, [])
      | RT_QUERY \<Rightarrow> Some (DCMSG_QUERY_ENTITY, [])
      | RT_UPDATE \<Rightarrow> map_option (\<lambda>m. (DCMSG_UPDATE_ENTITY, ser m)) (rq_message r)
      | RT_FLUSH \<Rightarrow> map_option (\<lambda>m. (DCMSG_FLUSH_ENTITY, ser m)) (rq_message r)
      | RT_DELETE \<Rightarrow> Some (DCMSG_REMOVE_ENTITY, [])
      | RT_LOADONCE \<Rightarrow> Some (DCMSG_LOAD_ENTITY_ONCE, []))"

primrec commit_packets :: "('m \<Rightarrow> u8 list) \<Rightarrow> u32 \<Rightarrow> u32 \<Rightarrow> u32 \<Rightarrow> u64 \<Rightarrow> u32 \<Rightarrow> 'm request list \<Rightarrow> db_packet list" where
  "commit_packets ser line num tid rid index [] = []"
| "commit_packets ser line num tid rid index (r # rs) =
     (case request_packet ser r of
        None \<Rightarrow> []
      | Some (op, stream) \<Rightarrow>
          [\<lparr> dp_opcode = op, dp_guid = rq_guid r,
             dp_request = \<lparr> dr_index = index + 1, dr_num = num, dr_trans = tid, dr_line = line,
               dr_stream = stream, dr_owner = rq_owner r, dr_name = rq_name r \<rparr>,
             dp_request_id = rid, dp_owner = rq_owner r \<rparr>])
     @ commit_packets ser line num tid rid (index + 1) rs"

definition pool_commit :: "('m \<Rightarrow> u8 list) \<Rightarrow> 'm request_list \<Rightarrow> bool \<Rightarrow> 'm pool \<Rightarrow> 'm pool \<times> db_packet list" where
  "pool_commit ser rl is_update p =
     (let p = p\<lparr> pl_requests := pl_requests p @ [\<lparr> ri_list = rl, ri_update = is_update \<rparr>],
                 pl_trans_id := next_trans_id (pl_trans_id p) \<rparr>
      in (p, commit_packets ser (pl_line p) (of_nat (length (rl_requests rl))) (pl_trans_id p) (rl_id rl) 0
               (rl_requests rl)))"

section \<open>Writing the changes\<close>

text \<open>The loop of \<^verbatim>\<open>updateDbEntity\<close> over the changes of one owner: what is left of them, marked as
  requested, and the requests.\<close>

fun update_db_entity_loop :: "('m \<Rightarrow> u8 list) \<Rightarrow> (guid, 'm entity_info) fmap \<Rightarrow> (guid \<times> db_entity_info) list \<Rightarrow>
    (guid \<times> db_entity_info) list \<times> 'm request list" where
  "update_db_entity_loop name_of es [] = ([], [])"
| "update_db_entity_loop name_of es ((g, di) # rest) =
     (let (kept, reqs) = update_db_entity_loop name_of es rest;
          request = (\<lambda>msg.
            ((g, di\<lparr> di_requested := True \<rparr>) # kept,
             (case di_op di of
                EOT_ADD \<Rightarrow> [new_request name_of RT_ADD (di_guid di) msg (di_owner di)]
              | EOT_REMOVE \<Rightarrow> [new_request name_of RT_DELETE (di_guid di) None (di_owner di)]
              | EOT_UPDATE \<Rightarrow> [new_request name_of RT_UPDATE (di_guid di) msg (di_owner di)]
              | _ \<Rightarrow> []) @ reqs))
      in if di_requested di then (kept, reqs)
         else if di_op di = EOT_REMOVE then request None
         else case fmlookup es (di_guid di) of
           None \<Rightarrow> (kept, reqs)
         | Some e \<Rightarrow> if ei_flushing e then (kept, reqs) else request (ei_message e))"

definition update_db_entity :: "('m \<Rightarrow> u8 list) \<Rightarrow> ('m \<Rightarrow> u8 list) \<Rightarrow> db_entity_map \<Rightarrow> 'm pool \<Rightarrow>
    'm pool \<times> db_entity_map \<times> bool \<times> db_packet list" where
  "update_db_entity ser name_of m p =
     (let (p, rl) = create_request_list p;
          (kept, reqs) = update_db_entity_loop name_of (pl_entities p) (fm_items m);
          m = fmap_of_list kept
      in if reqs = [] then (p, m, False, [])
         else
           let p = p\<lparr> pl_update_num := pl_update_num p + 1 \<rparr>;
               (p, out) = pool_commit ser (rl\<lparr> rl_requests := reqs \<rparr>) True p
           in (p, m, True, out))"

text \<open>The loop of the frame update over the owners.\<close>

fun update_owners :: "('m \<Rightarrow> u8 list) \<Rightarrow> ('m \<Rightarrow> u8 list) \<Rightarrow> (guid \<times> db_entity_map) list \<Rightarrow> 'm pool \<Rightarrow>
    'm pool \<times> db_packet list" where
  "update_owners ser name_of [] p = (p, [])"
| "update_owners ser name_of ((owner, m) # rest) p =
     (if m = fmempty
      then update_owners ser name_of rest (p\<lparr> pl_updating := fmdrop owner (pl_updating p) \<rparr>)
      else
        let (p, m', sent, out) = update_db_entity ser name_of m p;
            p = p\<lparr> pl_updating := (if sent then fmupd owner m' (pl_updating p) else fmdrop owner (pl_updating p)) \<rparr>;
            (p, out') = update_owners ser name_of rest p
        in (p, out @ out'))"

definition watchdog_frames :: int where "watchdog_frames = 200 * 10"

definition pool_frame_update :: "('m \<Rightarrow> u8 list) \<Rightarrow> ('m \<Rightarrow> u8 list) \<Rightarrow> 'm pool \<Rightarrow> 'm pool \<times> db_packet list" where
  "pool_frame_update ser name_of p =
     (if pl_pending p = fmempty then (p, [])
      else if pl_update_num p \<noteq> 0 then
        (let p = p\<lparr> pl_no_reply := pl_no_reply p + 1 \<rparr>
         in (if watchdog_frames < pl_no_reply p then p\<lparr> pl_update_num := 0 \<rparr> else p, []))
      else
        let changes = pl_pending p;
            p = p\<lparr> pl_no_reply := 0, pl_updating := changes, pl_pending := fmempty \<rparr>
        in update_owners ser name_of (fm_items changes) p)"

section \<open>Replies\<close>

text \<open>\<^verbatim>\<open>extractEntity\<close>: the message is a local pointer that nothing sets.\<close>

definition extract_entity :: "(u8 list \<Rightarrow> 'm option) \<Rightarrow> guid \<Rightarrow> u8 list \<Rightarrow> 'm option" where
  "extract_entity parse g stream =
     (let message = (None :: 'm option)
      in case message of None \<Rightarrow> None | Some _ \<Rightarrow> parse stream)"

text \<open>A reply as protobuf gives it: nothing when it cannot be parsed, else whether the status is
  STATE_NORMAL and the message it carries.\<close>

type_synonym cache_result = "(bool \<times> u8 list option) option"

text \<open>\<^verbatim>\<open>RequestImp::handlePacket\<close>, with the value it returns.\<close>

definition request_handle :: "(u8 list \<Rightarrow> 'm option) \<Rightarrow> cache_result \<Rightarrow> 'm request \<Rightarrow> 'm request \<times> int" where
  "request_handle parse res r =
     (case res of
        None \<Rightarrow> (r, 0)
      | Some (normal, message) \<Rightarrow>
          let r = r\<lparr> rq_success := normal \<rparr> in
          if normal \<and> rq_type r \<in> {RT_LOAD, RT_LOADONCE, RT_QUERY} then
            (case message of
               None \<Rightarrow> (r, 0)
             | Some stream \<Rightarrow>
                 (case extract_entity parse (rq_guid r) stream of
                    None \<Rightarrow> (r, 0)
                  | Some m \<Rightarrow> (r\<lparr> rq_message := Some m \<rparr>, 0)))
          else (r, 0))"

text \<open>\<^verbatim>\<open>RequestListImp::handlePacket\<close>: the first request for the guid takes the reply.\<close>

fun handle_first :: "(u8 list \<Rightarrow> 'm option) \<Rightarrow> guid \<Rightarrow> cache_result \<Rightarrow> 'm request list \<Rightarrow> 'm request list option" where
  "handle_first parse g res [] = None"
| "handle_first parse g res (r # rs) =
     (if rq_guid r = g then Some (fst (request_handle parse res r) # rs)
      else map_option ((#) r) (handle_first parse g res rs))"

definition rl_handle :: "(u8 list \<Rightarrow> 'm option) \<Rightarrow> guid \<Rightarrow> cache_result \<Rightarrow> 'm request_list \<Rightarrow> 'm request_list" where
  "rl_handle parse g res rl =
     (case handle_first parse g res (rl_requests rl) of
        None \<Rightarrow> rl
      | Some rs \<Rightarrow>
          let rl = rl\<lparr> rl_requests := rs, rl_count := rl_count rl + 1 \<rparr>
          in if rl_count rl = length rs then rl\<lparr> rl_completed := True \<rparr> else rl)"

definition check_should_removed_entity :: "guid \<Rightarrow> 'm pool \<Rightarrow> 'm pool" where
  "check_should_removed_entity g p =
     (case fmlookup (pl_entities p) g of
        None \<Rightarrow> p
      | Some e \<Rightarrow> if ei_remove e then p\<lparr> pl_entities := fmdrop g (pl_entities p) \<rparr> else p)"

definition do_remove_back :: "guid \<Rightarrow> 'm pool \<Rightarrow> 'm pool" where
  "do_remove_back g p = p\<lparr> pl_entities := fmdrop g (pl_entities p) \<rparr>"

definition update_to_db_reply :: "'m pool \<Rightarrow> 'm pool" where
  "update_to_db_reply p = (if 0 < pl_update_num p then p\<lparr> pl_update_num := pl_update_num p - 1 \<rparr> else p)"

definition remove_db_info :: "guid \<Rightarrow> guid \<Rightarrow> bool \<Rightarrow> 'm pool \<Rightarrow> 'm pool" where
  "remove_db_info owner g success p =
     (case fmlookup (pl_updating p) owner of
        None \<Rightarrow> p
      | Some m \<Rightarrow>
          let (p, m) =
            (case fmlookup m g of
               None \<Rightarrow> (p, m)
             | Some di \<Rightarrow>
                 if success \<and> di_requested di then
                   (case di_op di of
                      EOT_ADD \<Rightarrow> check_should_removed_entity (di_guid di) p
                    | EOT_UPDATE \<Rightarrow> check_should_removed_entity (di_guid di) p
                    | EOT_REMOVE \<Rightarrow> check_should_removed_entity (di_guid di) p
                    | EOT_FLUSH \<Rightarrow> fst (pool_remove (di_guid di) False True p)
                    | _ \<Rightarrow> p, fmdrop g m)
                 else if \<not> success then (p, fmupd g (di\<lparr> di_requested := False \<rparr>) m)
                 else (p, m))
          in p\<lparr> pl_updating := (if m = fmempty then fmdrop owner (pl_updating p)
                                else fmupd owner m (pl_updating p)) \<rparr>)"

definition update_to_db_callback :: "'m request_list \<Rightarrow> 'm pool \<Rightarrow> 'm pool" where
  "update_to_db_callback rl p =
     fold (\<lambda>r. remove_db_info (rq_owner r) (rq_guid r) (rq_success r)) (rl_requests rl) (update_to_db_reply p)"

text \<open>\<^verbatim>\<open>PoolImp::handlePacket\<close>: the list with the request id takes the packet; when it is
  completed it leaves the vector and its call back runs. A completed list of a user is
  returned.\<close>

fun take_reply :: "(u8 list \<Rightarrow> 'm option) \<Rightarrow> guid \<Rightarrow> u64 \<Rightarrow> cache_result \<Rightarrow> 'm request_info list \<Rightarrow>
    'm request_info list \<times> 'm request_info option" where
  "take_reply parse g rid res [] = ([], None)"
| "take_reply parse g rid res (ri # ris) =
     (if rl_id (ri_list ri) \<noteq> rid then
        (let (ris', done) = take_reply parse g rid res ris in (ri # ris', done))
      else
        let ri = ri\<lparr> ri_list := rl_handle parse g res (ri_list ri) \<rparr>
        in if rl_completed (ri_list ri) then (ris, Some ri) else (ri # ris, None))"

definition pool_cache_input :: "(u8 list \<Rightarrow> 'm option) \<Rightarrow> guid \<Rightarrow> u64 \<Rightarrow> cache_result \<Rightarrow> 'm pool \<Rightarrow>
    'm pool \<times> 'm request_list option" where
  "pool_cache_input parse g rid res p =
     (let (ris, finished) = take_reply parse g rid res (pl_requests p);
          p = p\<lparr> pl_requests := ris \<rparr>
      in case finished of
           None \<Rightarrow> (p, None)
         | Some ri \<Rightarrow>
             if ri_update ri then (update_to_db_callback (ri_list ri) p, None)
             else (p, Some (ri_list ri)))"

end
