(* ===== verification/PoolSync.thy ===== *)
theory PoolSync
  imports Pool
begin

text \<open>
  What the pool promises about the database: changes of entities are collected and written
  later, yet the database ends up with what is to be stored. The database is seen through the
  packets the pool sends: it takes a new entity only when it has none with that guid, it
  updates only what it has, and it drops a request that carries an entity without the name of
  its message. Entities are stored when they are added so, loaded and unloaded, or kept in
  memory only; the rules for the use of the pool are \<open>use_allowed\<close>, and two theorems show what
  is lost when they are broken.
\<close>

section \<open>The database, as the pool sees it\<close>

type_synonym db = "guid \<Rightarrow> u8 list option"

definition db_change :: "dc_opcode \<Rightarrow> u8 list \<Rightarrow> u8 list option \<Rightarrow> u8 list option" where
  "db_change op stream v =
     (case op of
        DCMSG_NEW_ENEITY \<Rightarrow> (case v of None \<Rightarrow> Some stream | Some _ \<Rightarrow> v)
      | DCMSG_UPDATE_ENTITY \<Rightarrow> (case v of None \<Rightarrow> None | Some _ \<Rightarrow> Some stream)
      | DCMSG_REMOVE_ENTITY \<Rightarrow> None
      | _ \<Rightarrow> v)"

definition nameless :: "db_packet \<Rightarrow> bool" where
  "nameless pk \<longleftrightarrow> dp_opcode pk \<in> {DCMSG_NEW_ENEITY, DCMSG_UPDATE_ENTITY} \<and> dr_name (dp_request pk) = []"

definition db_apply :: "db_packet \<Rightarrow> db \<Rightarrow> db" where
  "db_apply pk d =
     (if nameless pk then d
      else d(dp_guid pk := db_change (dp_opcode pk) (dr_stream (dp_request pk)) (d (dp_guid pk))))"

text \<open>The content of memory.\<close>

definition memory :: "'m pool \<Rightarrow> guid \<Rightarrow> 'm option" where
  "memory p g = (case fmlookup (pl_entities p) g of None \<Rightarrow> None | Some e \<Rightarrow> ei_message e)"

section \<open>Using the pool\<close>

text \<open>An entity is added with its owner \<open>own g\<close>, to be stored or, for instance when it was loaded, in memory
  alone; changed through the pointer \<^verbatim>\<open>get\<close> gave and reported by \<^verbatim>\<open>update\<close>; or removed, from memory and the
  database or from memory alone. The frame update runs; a reply comes.\<close>

datatype 'm use = Use_add guid 'm bool | Use_update guid 'm | Use_remove guid bool bool | Use_frame
  | Use_reply guid u64 cache_result

definition set_message :: "guid \<Rightarrow> 'm \<Rightarrow> 'm pool \<Rightarrow> 'm pool" where
  "set_message g m p =
     (case fmlookup (pl_entities p) g of
        None \<Rightarrow> p
      | Some e \<Rightarrow> p\<lparr> pl_entities := fmupd g (e\<lparr> ei_message := Some m \<rparr>) (pl_entities p) \<rparr>)"

record 'm codec =
  cd_ser :: "'m \<Rightarrow> u8 list"
  cd_name :: "'m \<Rightarrow> u8 list"
  cd_parse :: "u8 list \<Rightarrow> 'm option"

fun pool_call :: "'m codec \<Rightarrow> (guid \<Rightarrow> guid) \<Rightarrow> 'm use \<Rightarrow> 'm pool \<Rightarrow> 'm pool \<times> db_packet list" where
  "pool_call c own (Use_add g m add_to_db) p =
     (let (p, _, out) = pool_add (cd_ser c) g (Some m) add_to_db (own g) p in (p, out))"
| "pool_call c own (Use_update g m) p = (fst (pool_update g (set_message g m p)), [])"
| "pool_call c own (Use_remove g remove_from_db remove_entity_msg) p = (fst (pool_remove g remove_from_db remove_entity_msg p), [])"
| "pool_call c own Use_frame p = pool_frame_update (cd_ser c) (cd_name c) p"
| "pool_call c own (Use_reply g rid res) p = (fst (pool_cache_input (cd_parse c) g rid res p), [])"

text \<open>The change that waits for an entity.\<close>

definition change_of :: "(guid, db_entity_map) fmap \<Rightarrow> guid \<Rightarrow> guid \<Rightarrow> db_entity_info option" where
  "change_of ms owner g = (case fmlookup ms owner of None \<Rightarrow> None | Some m \<Rightarrow> fmlookup m g)"

definition waiting :: "(guid \<Rightarrow> guid) \<Rightarrow> 'm pool \<Rightarrow> guid \<Rightarrow> entity_op option" where
  "waiting own p g = map_option di_op (change_of (pl_pending p) (own g) g)"

text \<open>What is to be stored: entities that were added so, with the changes reported since. A new coin is sent without
  the name of its message and never stored; players and roles are stored when they are new, and afterwards written by
  the flushes of their users, which are not among the uses.\<close>

definition flushed_only :: "guid \<Rightarrow> bool" where
  "flushed_only g \<longleftrightarrow> is_player_guid g \<or> is_role_guid g"

fun store_step :: "(guid \<Rightarrow> guid) \<Rightarrow> 'm use \<Rightarrow> 'm pool \<Rightarrow> (guid \<Rightarrow> 'm option) \<Rightarrow> guid \<Rightarrow> 'm option" where
  "store_step own (Use_add g m add_to_db) p st =
     (if memory p g = None \<and> add_to_db \<and> extract_entity_type g \<noteq> ucast et_coin then st(g := Some m) else st)"
| "store_step own (Use_update g m) p st =
     (if memory p g \<noteq> None \<and> st g \<noteq> None \<and> (flushed_only g \<longrightarrow> waiting own p g = Some EOT_ADD)
      then st(g := Some m) else st)"
| "store_step own (Use_remove g remove_from_db remove_entity_msg) p st =
     (if memory p g \<noteq> None \<and> remove_from_db then st(g := None) else st)"
| "store_step own Use_frame p st = st"
| "store_step own (Use_reply g rid res) p st = st"

type_synonym 'm store_state = "'m pool \<times> db \<times> (guid \<Rightarrow> 'm option)"

definition use_step :: "'m codec \<Rightarrow> (guid \<Rightarrow> guid) \<Rightarrow> 'm use \<Rightarrow> 'm store_state \<Rightarrow> 'm store_state" where
  "use_step c own e s =
     (case s of (p, d, st) \<Rightarrow>
        let (p', out) = pool_call c own e p in (p', fold db_apply out d, store_step own e p st))"

text \<open>The rules: nothing is added while its removal still waits; what is stored is not added as new, and is loaded with
  the content it is stored with; nothing is unloaded while a change of it waits.\<close>

fun use_allowed :: "(guid \<Rightarrow> guid) \<Rightarrow> 'm use \<Rightarrow> 'm store_state \<Rightarrow> bool" where
  "use_allowed own (Use_add g m add_to_db) (p, d, st) \<longleftrightarrow>
     waiting own p g \<noteq> Some EOT_REMOVE \<and> (memory p g = None \<longrightarrow> st g = None \<or> \<not> add_to_db \<and> st g = Some m)"
| "use_allowed own (Use_update g m) (p, d, st) \<longleftrightarrow> True"
| "use_allowed own (Use_remove g remove_from_db remove_entity_msg) (p, d, st) \<longleftrightarrow>
     (\<not> remove_from_db \<longrightarrow> waiting own p g = None)"
| "use_allowed own Use_frame (p, d, st) \<longleftrightarrow> True"
| "use_allowed own (Use_reply g rid res) (p, d, st) \<longleftrightarrow> True"

section \<open>Invariant\<close>

definition entities_ok :: "(guid \<Rightarrow> guid) \<Rightarrow> 'm pool \<Rightarrow> bool" where
  "entities_ok own p \<longleftrightarrow> (\<forall>g e. fmlookup (pl_entities p) g = Some e \<longrightarrow>
     ei_message e \<noteq> None \<and> \<not> ei_flushing e \<and> \<not> ei_remove e \<and> fmlookup (pl_owner_of p) g = Some (own g))"

definition change_ok :: "(guid \<Rightarrow> guid) \<Rightarrow> guid \<Rightarrow> guid \<Rightarrow> db_entity_info \<Rightarrow> bool" where
  "change_ok own owner g di \<longleftrightarrow> owner = own g \<and> di_guid di = g \<and> di_owner di = owner \<and> \<not> di_requested di \<and>
     di_op di \<in> {EOT_ADD, EOT_UPDATE, EOT_REMOVE}"

definition pending_ok :: "(guid \<Rightarrow> guid) \<Rightarrow> 'm pool \<Rightarrow> bool" where
  "pending_ok own p \<longleftrightarrow> (\<forall>owner g di. change_of (pl_pending p) owner g = Some di \<longrightarrow> change_ok own owner g di)"

definition updating_ok :: "'m pool \<Rightarrow> bool" where
  "updating_ok p \<longleftrightarrow> (\<forall>owner g di. change_of (pl_updating p) owner g = Some di \<longrightarrow> di_op di \<noteq> EOT_FLUSH)"

text \<open>For one entity: whether only flushes write it, the change that waits, and its content in memory, as it is to be
  stored, and in the database.\<close>

definition sync1 :: "('m \<Rightarrow> u8 list) \<Rightarrow> bool \<Rightarrow> entity_op option \<Rightarrow> 'm option \<Rightarrow> 'm option \<Rightarrow> u8 list option \<Rightarrow> bool" where
  "sync1 ser fl w mem st v \<longleftrightarrow>
     (case w of
        None \<Rightarrow> v = map_option ser st \<and> (mem \<noteq> None \<and> st \<noteq> None \<and> \<not> fl \<longrightarrow> st = mem)
      | Some EOT_ADD \<Rightarrow> v = None \<and> mem \<noteq> None \<and> st = mem
      | Some EOT_UPDATE \<Rightarrow> \<not> fl \<and> mem \<noteq> None \<and> (v = None \<longleftrightarrow> st = None) \<and> (st \<noteq> None \<longrightarrow> st = mem)
      | Some EOT_REMOVE \<Rightarrow> mem = None \<and> st = None
      | _ \<Rightarrow> False)"

definition names_ok :: "'m codec \<Rightarrow> bool" where
  "names_ok c \<longleftrightarrow> (\<forall>m. cd_name c m \<noteq> [])"

definition pool_sync :: "'m codec \<Rightarrow> (guid \<Rightarrow> guid) \<Rightarrow> 'm store_state \<Rightarrow> bool" where
  "pool_sync c own s \<longleftrightarrow> (case s of (p, d, st) \<Rightarrow>
     names_ok c \<and> entities_ok own p \<and> pending_ok own p \<and> updating_ok p \<and>
     (\<forall>g. sync1 (cd_ser c) (flushed_only g) (waiting own p g) (memory p g) (st g) (d g)))"

section \<open>Collecting a change\<close>

definition chain :: "entity_op option \<Rightarrow> entity_op \<Rightarrow> entity_op option" where
  "chain w op = (case w of None \<Rightarrow> Some op
     | Some EOT_ADD \<Rightarrow> if op = EOT_REMOVE then None else Some EOT_ADD | Some _ \<Rightarrow> Some op)"

lemma update_to_db_simps [simp]:
  "pl_entities (update_to_db owner g op p) = pl_entities p"
  "pl_owner_of (update_to_db owner g op p) = pl_owner_of p"
  "pl_updating (update_to_db owner g op p) = pl_updating p"
  "pl_requests (update_to_db owner g op p) = pl_requests p"
  "pl_update_num (update_to_db owner g op p) = pl_update_num p"
  by (simp_all add: update_to_db_def Let_def split: option.splits)

lemma change_of_update_to_db:
  "change_of (pl_pending (update_to_db owner g op p)) ow h =
    (if ow = owner \<and> h = g
     then (case change_of (pl_pending p) owner g of
             None \<Rightarrow> Some (new_db_entity_info op g owner) | Some di \<Rightarrow> update_db_info op di)
     else change_of (pl_pending p) ow h)"
proof (cases "fmlookup (pl_pending p) owner")
  case None
  then show ?thesis by (auto simp: change_of_def update_to_db_def)
next
  case (Some m)
  then show ?thesis
    by (cases "fmlookup m g"; cases "update_db_info op (the (fmlookup m g))")
       (auto simp: change_of_def update_to_db_def Let_def)
qed

lemma map_di_op_update_db_info:
  "map_option di_op (update_db_info op di) = chain (Some (di_op di)) op"
  by (cases "di_op di") (simp_all add: update_db_info_def chain_def Let_def)

lemma waiting_update_to_db:
  "waiting own (update_to_db (own g) g op p) h = (if h = g then chain (waiting own p g) op else waiting own p h)"
proof -
  have "map_option di_op (case c of None \<Rightarrow> Some (new_db_entity_info op g (own g)) | Some di \<Rightarrow> update_db_info op di)
      = chain (map_option di_op c) op" for c
    by (cases c) (simp_all add: map_di_op_update_db_info new_db_entity_info_def chain_def [of None])
  then show ?thesis by (simp add: waiting_def change_of_update_to_db)
qed

lemma change_ok_update:
  assumes "change_ok own owner g di" "op \<in> {EOT_ADD, EOT_UPDATE, EOT_REMOVE}" "update_db_info op di = Some di'"
  shows "change_ok own owner g di'"
  using assms by (auto simp: change_ok_def update_db_info_def Let_def split: if_splits)

lemma pending_ok_update_to_db:
  assumes "pending_ok own p" "op \<in> {EOT_ADD, EOT_UPDATE, EOT_REMOVE}"
  shows "pending_ok own (update_to_db (own g) g op p)"
  unfolding pending_ok_def
proof (intro allI impI)
  fix owner h di
  assume c: "change_of (pl_pending (update_to_db (own g) g op p)) owner h = Some di"
  show "change_ok own owner h di"
  proof (cases "owner = own g \<and> h = g")
    case False
    then show ?thesis using c assms(1) by (simp only: change_of_update_to_db pending_ok_def if_False)
  next
    case True
    show ?thesis
    proof (cases "change_of (pl_pending p) (own g) g")
      case None
      then show ?thesis using c True assms(2)
        by (auto simp: change_of_update_to_db change_ok_def new_db_entity_info_def)
    next
      case (Some di0)
      then have "change_ok own (own g) g di0" using assms(1) by (simp add: pending_ok_def)
      then show ?thesis
        using c True Some assms(2) change_ok_update by (auto simp: change_of_update_to_db)
    qed
  qed
qed

lemma pending_ok_cong:
  "pl_pending p = pl_pending q \<Longrightarrow> pending_ok own p \<longleftrightarrow> pending_ok own q"
  by (simp add: pending_ok_def)

lemma waiting_cong: "pl_pending p = pl_pending q \<Longrightarrow> waiting own p = waiting own q"
  by (auto simp: waiting_def)

lemma updating_ok_cong: "pl_updating p = pl_updating q \<Longrightarrow> updating_ok p \<longleftrightarrow> updating_ok q"
  by (simp add: updating_ok_def)

lemma is_updating_waiting: "is_updating (own g) g p \<longleftrightarrow> waiting own p g = Some EOT_ADD"
  by (auto simp: is_updating_def waiting_def change_of_def split: option.split)

lemma sync1_chain_add:
  "sync1 ser fl w None None v \<Longrightarrow> w \<noteq> Some EOT_REMOVE \<Longrightarrow> sync1 ser fl (chain w EOT_ADD) (Some m) (Some m) v"
  by (auto simp: sync1_def chain_def split: option.splits entity_op.splits)

lemma sync1_load:
  "sync1 ser fl w None st v \<Longrightarrow> w \<noteq> Some EOT_REMOVE \<Longrightarrow> st = None \<or> st = Some m \<Longrightarrow> sync1 ser fl w (Some m) st v"
  by (auto simp: sync1_def split: option.splits entity_op.splits)

lemma sync1_chain_update:
  "sync1 ser False w (Some m) st v \<Longrightarrow>
    sync1 ser False (chain w EOT_UPDATE) (Some m') (if st = None then st else Some m') v"
  by (auto simp: sync1_def chain_def split: option.splits entity_op.splits)

lemma sync1_flushed_update:
  "sync1 ser True w (Some m) st v \<Longrightarrow>
    sync1 ser True w (Some m') (if st \<noteq> None \<and> w = Some EOT_ADD then Some m' else st) v"
  by (auto simp: sync1_def split: option.splits entity_op.splits)

lemma sync1_chain_remove:
  "sync1 ser fl w (Some m) st v \<Longrightarrow> sync1 ser fl (chain w EOT_REMOVE) None None v"
  by (auto simp: sync1_def chain_def split: option.splits entity_op.splits)

lemma sync1_unload: "sync1 ser fl None mem st v \<Longrightarrow> sync1 ser fl None None st v"
  by (simp add: sync1_def)

lemma pool_sync_I:
  assumes "names_ok c" "entities_ok own p" "pending_ok own p" "updating_ok p"
    and "\<And>g. sync1 (cd_ser c) (flushed_only g) (waiting own p g) (memory p g) (st g) (d g)"
  shows "pool_sync c own (p, d, st)"
  using assms by (simp add: pool_sync_def)

lemma pool_sync_D:
  assumes "pool_sync c own (p, d, st)"
  shows "names_ok c" "entities_ok own p" "pending_ok own p" "updating_ok p"
    "sync1 (cd_ser c) (flushed_only g) (waiting own p g) (memory p g) (st g) (d g)"
  using assms by (simp_all add: pool_sync_def)

lemma memory_Some: "entities_ok own p \<Longrightarrow> memory p g = None \<longleftrightarrow> fmlookup (pl_entities p) g = None"
  by (auto simp: memory_def entities_ok_def split: option.split)

text \<open>An entity comes to memory, the changes that wait are as they were.\<close>

lemma pool_sync_memory:
  assumes sync: "pool_sync c own (p, d, st)" and new: "memory p g = None"
    and al: "waiting own p g \<noteq> Some EOT_REMOVE" "st g = None \<or> st g = Some m"
    and r: "pl_entities r = fmupd g (new_entity_info EOT_ADD m (own g)) (pl_entities p)"
      "pl_owner_of r = fmupd g (own g) (pl_owner_of p)" "pl_pending r = pl_pending p" "pl_updating r = pl_updating p"
  shows "pool_sync c own (r, d, st)"
proof (rule pool_sync_I)
  note D = pool_sync_D [OF sync]
  show "names_ok c" by (rule D(1))
  show "entities_ok own r" using D(2) by (auto simp: entities_ok_def r new_entity_info_def)
  show "pending_ok own r" "updating_ok r"
    using D(3,4) pending_ok_cong [OF r(3)] updating_ok_cong [OF r(4)] by simp_all
  show "sync1 (cd_ser c) (flushed_only h) (waiting own r h) (memory r h) (st h) (d h)" for h
  proof (cases "h = g")
    case True
    then show ?thesis using D(5) [of g] al new sync1_load [of "cd_ser c" "flushed_only g"] waiting_cong [OF r(3)]
      by (simp add: memory_def r new_entity_info_def)
  next
    case False
    then show ?thesis using D(5) [of h] waiting_cong [OF r(3)] by (simp add: memory_def r)
  qed
qed

text \<open>An entity comes to memory and is to be stored.\<close>

lemma pool_sync_new_entity:
  assumes sync: "pool_sync c own (p, d, st)" and new: "memory p g = None"
    and al: "waiting own p g \<noteq> Some EOT_REMOVE" "st g = None"
    and q: "pl_entities q = fmupd g (new_entity_info EOT_ADD m (own g)) (pl_entities p)"
      "pl_owner_of q = fmupd g (own g) (pl_owner_of p)" "pl_pending q = pl_pending p" "pl_updating q = pl_updating p"
  shows "pool_sync c own (update_to_db (own g) g EOT_ADD q, d, st(g := Some m))" (is "pool_sync c own (?r, _, _)")
proof (rule pool_sync_I)
  note D = pool_sync_D [OF sync]
  show "names_ok c" by (rule D(1))
  show "entities_ok own ?r" using D(2) by (auto simp: entities_ok_def q new_entity_info_def)
  show "pending_ok own ?r"
    by (rule pending_ok_update_to_db) (use D(3) pending_ok_cong [OF q(3)] in simp_all)
  show "updating_ok ?r" using D(4) by (simp add: updating_ok_def q)
  show "sync1 (cd_ser c) (flushed_only h) (waiting own ?r h) (memory ?r h) ((st(g := Some m)) h) (d h)" for h
  proof (cases "h = g")
    case True
    then show ?thesis using D(5) [of g] al new sync1_chain_add [of "cd_ser c" "flushed_only g" "waiting own p g" "d g" m]
      by (simp add: waiting_update_to_db waiting_cong [OF q(3)] memory_def q new_entity_info_def)
  next
    case False
    then show ?thesis using D(5) [of h]
      by (simp add: waiting_update_to_db waiting_cong [OF q(3)] memory_def q)
  qed
qed

lemma pool_sync_add:
  assumes sync: "pool_sync c own (p, d, st)" and al: "use_allowed own (Use_add g m b) (p, d, st)"
  shows "pool_sync c own (use_step c own (Use_add g m b) (p, d, st))"
proof -
  note D = pool_sync_D [OF sync]
  define q where "q = p\<lparr> pl_owner_of := fmupd g (own g) (pl_owner_of p) \<rparr>"
  define q' where "q' = q\<lparr> pl_entities := fmupd g (new_entity_info EOT_ADD m (own g)) (pl_entities q) \<rparr>"
  have q': "pl_entities q' = fmupd g (new_entity_info EOT_ADD m (own g)) (pl_entities p)"
      "pl_owner_of q' = fmupd g (own g) (pl_owner_of p)" "pl_pending q' = pl_pending p" "pl_updating q' = pl_updating p"
    by (simp_all add: q'_def q_def)
  show ?thesis
  proof (cases "memory p g")
    case (Some m0)
    have "pool_sync c own (q, d, st)"
    proof (rule pool_sync_I)
      show "entities_ok own q" using D(2) by (auto simp: q_def entities_ok_def)
    qed (use D in \<open>simp_all add: q_def pending_ok_def updating_ok_def waiting_def memory_def\<close>)
    moreover obtain e where "fmlookup (pl_entities p) g = Some e"
      using Some memory_Some [OF D(2), of g] by (cases "fmlookup (pl_entities p) g") simp_all
    ultimately show ?thesis using Some by (simp add: use_step_def pool_add_def q_def Let_def)
  next
    case None
    then have none: "fmlookup (pl_entities p) g = None" using memory_Some [OF D(2), of g] by simp
    have w: "waiting own p g \<noteq> Some EOT_REMOVE" and st: "st g = None \<or> \<not> b \<and> st g = Some m" using al None by simp_all
    consider "\<not> b" | "b" "extract_entity_type g = ucast et_coin" | "b" "extract_entity_type g \<noteq> ucast et_coin" by blast
    then show ?thesis
    proof cases
      case 1
      have "pool_sync c own (q', d, st)" by (rule pool_sync_memory [OF sync None w _ q']) (use st in auto)
      then show ?thesis using 1 none by (simp add: use_step_def pool_add_def q'_def q_def Let_def)
    next
      case 2
      obtain r out where r: "direct_update_to_db (cd_ser c) m g (own g) q' = (r, out)" by fastforce
      have rf: "pl_entities r = pl_entities q'" "pl_owner_of r = pl_owner_of q'" "pl_pending r = pl_pending q'"
          "pl_updating r = pl_updating q'" "fold db_apply out d = d"
        using r by (auto simp: direct_update_to_db_def Let_def db_apply_def nameless_def)
      have "pool_sync c own (r, d, st)"
        by (rule pool_sync_memory [OF sync None w, of m]) (use st 2 rf q' in auto)
      moreover have "use_step c own (Use_add g m b) (p, d, st) = (r, d, st)"
        using 2 none r rf(5) by (simp add: use_step_def pool_add_def q'_def q_def Let_def)
      ultimately show ?thesis by simp
    next
      case 3
      have "pool_sync c own (update_to_db (own g) g EOT_ADD q', d, st(g := Some m))"
        by (rule pool_sync_new_entity [OF sync None w _ q']) (use st 3 in auto)
      then show ?thesis using 3 none None by (simp add: use_step_def pool_add_def q'_def q_def Let_def)
    qed
  qed
qed

lemma pool_sync_update:
  assumes sync: "pool_sync c own (p, d, st)"
  shows "pool_sync c own (use_step c own (Use_update g m) (p, d, st))"
proof (cases "memory p g")
  case None
  note D = pool_sync_D [OF sync]
  have "fmlookup (pl_entities p) g = None" using None memory_Some [OF D(2)] by simp
  then have "use_step c own (Use_update g m) (p, d, st) = (p, d, st)"
    using None by (auto simp: use_step_def set_message_def pool_update_def split: option.splits)
  then show ?thesis using sync by simp
next
  case (Some m0)
  note D = pool_sync_D [OF sync]
  obtain e where e: "fmlookup (pl_entities p) g = Some e"
    using Some memory_Some [OF D(2), of g] by (cases "fmlookup (pl_entities p) g") simp_all
  have own: "fmlookup (pl_owner_of p) g = Some (own g)" using D(2) e by (auto simp: entities_ok_def)
  define q where "q = p\<lparr> pl_entities := fmupd g (e\<lparr> ei_message := Some m \<rparr>) (pl_entities p) \<rparr>"
  define st' where "st' = store_step own (Use_update g m) p st"
  have st': "h \<noteq> g \<Longrightarrow> st' h = st h" for h by (simp add: st'_def)
  have mq: "memory q h = (if h = g then Some m else memory p h)" for h by (simp add: q_def memory_def)
  have wq: "waiting own q = waiting own p" by (rule waiting_cong) (simp add: q_def)
  have eq: "entities_ok own q" using D(2) e by (auto simp: entities_ok_def q_def)
  have set: "set_message g m p = q" using e by (simp add: set_message_def q_def)
  show ?thesis
  proof (cases "flushed_only g")
    case True
    have "pool_sync c own (q, d, st')"
    proof (rule pool_sync_I)
      show "sync1 (cd_ser c) (flushed_only h) (waiting own q h) (memory q h) (st' h) (d h)" for h
      proof (cases "h = g")
        case h: True
        have "sync1 (cd_ser c) True (waiting own p g) (Some m0) (st g) (d g)" using D(5) [of g] Some True by simp
        then have "sync1 (cd_ser c) True (waiting own p g) (Some m)
            (if st g \<noteq> None \<and> waiting own p g = Some EOT_ADD then Some m else st g) (d g)"
          by (rule sync1_flushed_update)
        moreover have "st' g = (if st g \<noteq> None \<and> waiting own p g = Some EOT_ADD then Some m else st g)"
          using Some True by (simp add: st'_def)
        ultimately show ?thesis unfolding h wq mq using True by (simp only: simp_thms if_True)
      qed (use D(5) [of h] st' in \<open>simp add: wq mq\<close>)
    qed (use D eq in \<open>simp_all add: q_def pending_ok_def updating_ok_def\<close>)
    moreover have "use_step c own (Use_update g m) (p, d, st) = (q, d, st')"
      using True set by (simp add: use_step_def pool_update_def st'_def [symmetric] flushed_only_def del: store_step.simps)
    ultimately show ?thesis by simp
  next
    case False
    define r where "r = update_to_db (own g) g EOT_UPDATE
      (q\<lparr> pl_entities := fmupd g (e\<lparr> ei_message := Some m, ei_op := ei_op e OR eot_code EOT_UPDATE \<rparr>) (pl_entities q) \<rparr>)"
    have call: "use_step c own (Use_update g m) (p, d, st) = (r, d, st')"
      using False set own by (simp add: use_step_def pool_update_def st'_def flushed_only_def q_def r_def)
    have wr: "waiting own r h = (if h = g then chain (waiting own p g) EOT_UPDATE else waiting own p h)" for h
      unfolding r_def waiting_update_to_db by (simp add: waiting_def q_def)
    have mr: "memory r h = (if h = g then Some m else memory p h)" for h by (simp add: memory_def q_def r_def)
    show ?thesis unfolding call
    proof (rule pool_sync_I)
      show "entities_ok own r" using D(2) e by (auto simp: entities_ok_def q_def r_def)
      show "pending_ok own r" unfolding r_def
        by (rule pending_ok_update_to_db) (use D(3) in \<open>simp_all add: pending_ok_def q_def\<close>)
      show "updating_ok r" using D(4) by (simp add: updating_ok_def q_def r_def)
      show "sync1 (cd_ser c) (flushed_only h) (waiting own r h) (memory r h) (st' h) (d h)" for h
      proof (cases "h = g")
        case True
        have "sync1 (cd_ser c) False (waiting own p g) (Some m0) (st g) (d g)" using D(5) [of g] Some False by simp
        from sync1_chain_update [OF this, of m] show ?thesis
          using True Some False by (cases "st g") (simp_all add: wr mr st'_def)
      qed (use D(5) [of h] st' in \<open>simp add: wr mr\<close>)
    qed (use D in simp)
  qed
qed

lemma pool_sync_remove:
  assumes sync: "pool_sync c own (p, d, st)" and al: "use_allowed own (Use_remove g b del) (p, d, st)"
  shows "pool_sync c own (use_step c own (Use_remove g b del) (p, d, st))"
proof (cases "memory p g")
  case None
  note D = pool_sync_D [OF sync]
  have none: "fmlookup (pl_entities p) g = None" using None memory_Some [OF D(2)] by simp
  let ?q = "p\<lparr> pl_owner_of := fmdrop g (pl_owner_of p) \<rparr>"
  have "use_step c own (Use_remove g b del) (p, d, st) = (?q, d, st) \<or> use_step c own (Use_remove g b del) (p, d, st) = (p, d, st)"
    using none None by (auto simp: use_step_def pool_remove_def Let_def split: option.splits)
  moreover have "pool_sync c own (?q, d, st)"
  proof (rule pool_sync_I)
    show "entities_ok own ?q" using D(2) none by (auto simp: entities_ok_def)
  qed (use D in \<open>simp_all add: pending_ok_def updating_ok_def waiting_def memory_def\<close>)
  ultimately show ?thesis using sync by auto
next
  case (Some m0)
  note D = pool_sync_D [OF sync]
  obtain e where e: "fmlookup (pl_entities p) g = Some e"
    using Some memory_Some [OF D(2), of g] by (cases "fmlookup (pl_entities p) g") simp_all
  have own: "fmlookup (pl_owner_of p) g = Some (own g)" using D(2) e by (auto simp: entities_ok_def)
  define q where "q = p\<lparr> pl_owner_of := fmdrop g (pl_owner_of p) \<rparr>"
  define r where "r = (if b then update_to_db (own g) g EOT_REMOVE q else q)\<lparr> pl_entities := fmdrop g (pl_entities p) \<rparr>"
  define st' where "st' = (if b then st(g := None) else st)"
  have "is_updating (own g) g q = (waiting own p g = Some EOT_ADD)"
    by (simp add: is_updating_waiting) (simp add: waiting_def q_def)
  then have call: "use_step c own (Use_remove g b del) (p, d, st) = (r, d, st')"
    using e own Some al by (cases b) (simp_all add: use_step_def pool_remove_def r_def q_def Let_def st'_def)
  have wq: "waiting own q = waiting own p" by (rule waiting_cong) (simp add: q_def)
  have "waiting own r = waiting own (if b then update_to_db (own g) g EOT_REMOVE q else q)"
    by (rule waiting_cong) (simp add: r_def)
  then have wr: "waiting own r h = (if b \<and> h = g then chain (waiting own p g) EOT_REMOVE else waiting own p h)" for h
    by (simp add: waiting_update_to_db wq)
  have mr: "memory r h = (if h = g then None else memory p h)" for h by (simp add: memory_def r_def)
  show ?thesis unfolding call
  proof (rule pool_sync_I)
    show "entities_ok own r" using D(2) by (auto simp: entities_ok_def r_def q_def)
    have "pending_ok own (update_to_db (own g) g EOT_REMOVE q)"
      by (rule pending_ok_update_to_db) (use D(3) in \<open>simp_all add: pending_ok_def q_def\<close>)
    then show "pending_ok own r" using D(3) by (simp add: pending_ok_def r_def q_def)
    show "updating_ok r" using D(4) by (simp add: updating_ok_def r_def q_def)
    show "sync1 (cd_ser c) (flushed_only h) (waiting own r h) (memory r h) (st' h) (d h)" for h
    proof (cases "h = g")
      case True
      have s: "sync1 (cd_ser c) (flushed_only g) (waiting own p g) (Some m0) (st g) (d g)" using D(5) [of g] Some by simp
      show ?thesis
      proof (cases b)
        case b: True
        show ?thesis using sync1_chain_remove [OF s] True b by (simp add: wr mr st'_def)
      next
        case False
        then have "waiting own p g = None" using al by simp
        then have "sync1 (cd_ser c) (flushed_only g) None None (st g) (d g)" using s by (intro sync1_unload) simp
        then show ?thesis using True False \<open>waiting own p g = None\<close> by (simp add: wr mr st'_def)
      qed
    qed (use D(5) [of h] in \<open>simp add: wr mr st'_def\<close>)
  qed (use D in simp)
qed

section \<open>The packets of a pool\<close>

definition pool_packet :: "('m \<Rightarrow> u8 list) \<Rightarrow> ('m \<Rightarrow> u8 list) \<Rightarrow> db_packet \<Rightarrow> bool" where
  "pool_packet ser name_of pk \<longleftrightarrow>
     dp_opcode pk \<in> {DCMSG_NEW_ENEITY, DCMSG_UPDATE_ENTITY} \<and>
       (\<exists>m. dr_stream (dp_request pk) = ser m \<and> dr_name (dp_request pk) = name_of m) \<or>
     dp_opcode pk = DCMSG_REMOVE_ENTITY \<and> dr_stream (dp_request pk) = []"

text \<open>A new coin.\<close>

definition coin_packet :: "('m \<Rightarrow> u8 list) \<Rightarrow> db_packet \<Rightarrow> bool" where
  "coin_packet ser pk \<longleftrightarrow> dp_opcode pk = DCMSG_NEW_ENEITY \<and> dr_stream (dp_request pk) \<in> range ser \<and>
     dr_name (dp_request pk) = []"

definition change_request :: "('m \<Rightarrow> u8 list) \<Rightarrow> 'm request \<Rightarrow> bool" where
  "change_request name_of r \<longleftrightarrow> rq_type r \<in> {RT_ADD, RT_UPDATE, RT_DELETE} \<and>
     (\<forall>m. rq_message r = Some m \<longrightarrow> rq_name r = name_of m)"

lemma commit_packets_ok:
  assumes "\<forall>r \<in> set rs. change_request name_of r"
  shows "\<forall>pk \<in> set (commit_packets ser line num tid rid i rs). pool_packet ser name_of pk"
  using assms
proof (induction rs arbitrary: i)
  case (Cons r rs)
  then show ?case
    by (cases "rq_type r"; cases "rq_message r")
      (auto simp: request_packet_def pool_packet_def change_request_def)
qed simp

lemma loop_requests: "\<forall>r \<in> set (snd (update_db_entity_loop name_of es xs)). change_request name_of r"
proof (induction name_of es xs rule: update_db_entity_loop.induct)
  case (2 name_of es g di rest)
  then show ?case
    by (auto simp: Let_def new_request_def change_request_def split: prod.splits option.splits entity_op.splits if_splits)
qed simp

lemma update_owners_packets:
  "update_owners ser name_of xs p = (p', out) \<Longrightarrow> \<forall>pk \<in> set out. pool_packet ser name_of pk"
proof (induction ser name_of xs p arbitrary: p' out rule: update_owners.induct)
  case (2 ser name_of owner m rest p)
  show ?case
  proof (cases "m = fmempty")
    case True
    then show ?thesis using 2 by simp
  next
    case False
    obtain p1 m1 sent out1 where u: "update_db_entity ser name_of m p = (p1, m1, sent, out1)" by (metis prod_cases4)
    define p2 where "p2 = p1\<lparr> pl_updating := (if sent then fmupd owner m1 (pl_updating p1) else fmdrop owner (pl_updating p1)) \<rparr>"
    obtain p3 out2 where r: "update_owners ser name_of rest p2 = (p3, out2)" by fastforce
    have "\<forall>pk \<in> set out1. pool_packet ser name_of pk"
      using u loop_requests [of name_of "pl_entities p" "fm_items m"]
      by (auto simp: update_db_entity_def create_request_list_def pool_commit_def Let_def
          split: prod.splits if_splits dest: commit_packets_ok [THEN bspec, rotated])
    moreover have "\<forall>pk \<in> set out2. pool_packet ser name_of pk"
      using "2.IH"(2) [OF False u [symmetric] refl refl refl p2_def r] by simp
    moreover have "out = out1 @ out2" using "2.prems" False u r by (simp add: Let_def p2_def)
    ultimately show ?thesis by auto
  qed
qed simp

lemma frame_packets: "pool_frame_update ser name_of p = (p', out) \<Longrightarrow> \<forall>pk \<in> set out. pool_packet ser name_of pk"
  by (auto simp: pool_frame_update_def Let_def split: if_splits dest: update_owners_packets)

lemma call_packets:
  "pool_call c own e p = (p', out) \<Longrightarrow>
    \<forall>pk \<in> set out. pool_packet (cd_ser c) (cd_name c) pk \<or> coin_packet (cd_ser c) pk"
proof (cases e)
  case Use_frame
  then show "pool_call c own e p = (p', out) \<Longrightarrow> ?thesis" using frame_packets [of "cd_ser c" "cd_name c" p] by simp
qed (auto simp: pool_add_def Let_def direct_update_to_db_def coin_packet_def split: option.splits if_splits prod.splits)

lemma pool_packet_named: "pool_packet ser name_of pk \<Longrightarrow> \<forall>m. name_of m \<noteq> [] \<Longrightarrow> \<not> nameless pk"
  by (auto simp: pool_packet_def nameless_def)

section \<open>The frame update\<close>

text \<open>What one change does to the database: its guid, opcode and stream.\<close>

definition change_eff :: "('m \<Rightarrow> u8 list) \<Rightarrow> (guid, 'm entity_info) fmap \<Rightarrow> guid \<times> db_entity_info \<Rightarrow>
    guid \<times> dc_opcode \<times> u8 list" where
  "change_eff ser es gdi =
     (case gdi of (g, di) \<Rightarrow>
       (g, case di_op di of
             EOT_ADD \<Rightarrow> (DCMSG_NEW_ENEITY, ser (the (ei_message (the (fmlookup es g)))))
           | EOT_REMOVE \<Rightarrow> (DCMSG_REMOVE_ENTITY, [])
           | _ \<Rightarrow> (DCMSG_UPDATE_ENTITY, ser (the (ei_message (the (fmlookup es g)))))))"

definition packet_eff :: "db_packet \<Rightarrow> guid \<times> dc_opcode \<times> u8 list" where
  "packet_eff pk = (dp_guid pk, dp_opcode pk, dr_stream (dp_request pk))"

definition eff_apply :: "guid \<times> dc_opcode \<times> u8 list \<Rightarrow> db \<Rightarrow> db" where
  "eff_apply x d = (case x of (g, op, stream) \<Rightarrow> d(g := db_change op stream (d g)))"

lemma fold_db_apply:
  "\<forall>pk \<in> set out. \<not> nameless pk \<Longrightarrow> fold db_apply out d = fold eff_apply (map packet_eff out) d"
  by (induction out arbitrary: d) (simp_all add: db_apply_def eff_apply_def packet_eff_def)

lemma fold_eff_apply:
  "distinct (map fst xs) \<Longrightarrow> fold eff_apply xs d g =
    (case map_of xs g of None \<Rightarrow> d g | Some (op, stream) \<Rightarrow> db_change op stream (d g))"
proof (induction xs arbitrary: d)
  case (Cons x xs)
  obtain h op stream where x: "x = (h, op, stream)" by (metis prod_cases3)
  then have none: "map_of xs h = None" using Cons.prems by (simp add: map_of_eq_None_iff)
  define d' where "d' = eff_apply (h, op, stream) d"
  have d': "d' h = db_change op stream (d h)" "g \<noteq> h \<Longrightarrow> d' g = d g"
    by (simp_all add: d'_def eff_apply_def)
  have "fold eff_apply xs d' g =
      (case map_of xs g of None \<Rightarrow> d' g | Some (op, stream) \<Rightarrow> db_change op stream (d' g))"
    using Cons.IH [of d'] Cons.prems by simp
  moreover have "fold eff_apply (x # xs) d g = fold eff_apply xs d' g" by (simp add: x d'_def)
  moreover have "map_of (x # xs) g = (if g = h then Some (op, stream) else map_of xs g)" by (simp add: x)
  ultimately show ?case using d' none by (cases "g = h"; cases "map_of xs g") simp_all
qed simp

text \<open>A change is skipped when its entity is not in memory, unless it is a removal.\<close>

definition change_live :: "(guid, 'm entity_info) fmap \<Rightarrow> guid \<times> db_entity_info \<Rightarrow> bool" where
  "change_live es gdi \<longleftrightarrow> di_op (snd gdi) = EOT_REMOVE \<or> fmlookup es (fst gdi) \<noteq> None"

definition change_valid :: "(guid, 'm entity_info) fmap \<Rightarrow> guid \<Rightarrow> db_entity_info \<Rightarrow> bool" where
  "change_valid es g di \<longleftrightarrow> \<not> di_requested di \<and> di_guid di = g \<and> di_op di \<in> {EOT_ADD, EOT_UPDATE, EOT_REMOVE} \<and>
     (\<forall>e. fmlookup es g = Some e \<longrightarrow> \<not> ei_flushing e \<and> ei_message e \<noteq> None)"

lemma update_db_entity_loop_valid:
  assumes "\<And>g di. (g, di) \<in> set items \<Longrightarrow> change_valid es g di"
  shows "fst (update_db_entity_loop name_of es items) =
      map (\<lambda>(g, di). (g, di\<lparr> di_requested := True \<rparr>)) (filter (change_live es) items)"
    and "map packet_eff (commit_packets ser line num tid rid k (snd (update_db_entity_loop name_of es items))) =
      map (change_eff ser es) (filter (change_live es) items)"
    and "length (snd (update_db_entity_loop name_of es items)) = length (filter (change_live es) items)"
  using assms
proof (induction items arbitrary: k)
  case Nil
  { case 1 show ?case by simp next case 2 show ?case by simp next case 3 show ?case by simp }
next
  case (Cons x items)
  obtain g di where x: "x = (g, di)" by fastforce
  { assume "\<And>h dj. (h, dj) \<in> set (x # items) \<Longrightarrow> change_valid es h dj" "change_live es x"
    then have v: "change_valid es g di" and l: "change_live es (g, di)" by (simp_all add: x)
    have "\<exists>r. update_db_entity_loop name_of es (x # items) =
        ((g, di\<lparr> di_requested := True \<rparr>) # fst (update_db_entity_loop name_of es items),
         r # snd (update_db_entity_loop name_of es items)) \<and>
      map packet_eff (commit_packets ser line num tid rid k (r # rs)) =
        change_eff ser es (g, di) # map packet_eff (commit_packets ser line num tid rid (k + 1) rs)" for k rs
    proof (cases "di_op di = EOT_REMOVE")
      case True
      then show ?thesis using v
        by (auto simp: x change_valid_def new_request_def request_packet_def packet_eff_def change_eff_def
            Let_def split: prod.splits)
    next
      case False
      then obtain e m where "fmlookup es g = Some e" "\<not> ei_flushing e" "ei_message e = Some m"
        using v l by (auto simp: change_valid_def change_live_def)
      then show ?thesis using v False
        by (auto simp: x change_valid_def new_request_def request_packet_def packet_eff_def change_eff_def
            Let_def split: prod.splits)
    qed }
  note head = this
  { assume "\<And>h dj. (h, dj) \<in> set (x # items) \<Longrightarrow> change_valid es h dj" "\<not> change_live es x"
    then have "change_valid es g di" "fmlookup es g = None" "di_op di \<noteq> EOT_REMOVE" by (simp_all add: x change_live_def)
    then have "update_db_entity_loop name_of es (x # items) = update_db_entity_loop name_of es items"
      by (auto simp: x change_valid_def Let_def split: prod.splits) }
  note skip = this
  { case 1 then show ?case using head [OF 1] skip [OF 1] Cons.IH(1) by (cases "change_live es x") (force simp: x)+
  next case 2 then show ?case using head [OF 2, where k = k] skip [OF 2] Cons.IH(2) [of k] Cons.IH(2) [of "k + 1"]
      by (cases "change_live es x") (force simp: x)+
  next case 3 then show ?case using head [OF 3] skip [OF 3] Cons.IH(3) by (cases "change_live es x") (force simp: x)+ }
qed

lemma commit_simps [simp]:
  "pl_entities (fst (pool_commit ser rl u p)) = pl_entities p"
  "pl_pending (fst (pool_commit ser rl u p)) = pl_pending p"
  "pl_owner_of (fst (pool_commit ser rl u p)) = pl_owner_of p"
  "pl_updating (fst (pool_commit ser rl u p)) = pl_updating p"
  "pl_update_num (fst (pool_commit ser rl u p)) = pl_update_num p"
  by (simp_all add: pool_commit_def Let_def)

definition map_valid :: "(guid, 'm entity_info) fmap \<Rightarrow> db_entity_map \<Rightarrow> bool" where
  "map_valid es m \<longleftrightarrow> (\<forall>g di. fmlookup m g = Some di \<longrightarrow> change_valid es g di)"

lemma update_db_entity_valid:
  assumes v: "map_valid (pl_entities p) m"
  shows "case update_db_entity ser name_of m p of (p', m', sent, out) \<Rightarrow>
    pl_entities p' = pl_entities p \<and> pl_pending p' = pl_pending p \<and> pl_owner_of p' = pl_owner_of p \<and>
    pl_updating p' = pl_updating p \<and>
    map packet_eff out = map (change_eff ser (pl_entities p)) (filter (change_live (pl_entities p)) (fm_items m)) \<and>
    (\<forall>g di. fmlookup m' g = Some di \<longrightarrow> di_op di \<noteq> EOT_FLUSH)"
proof -
  have v': "\<And>g di. (g, di) \<in> set (fm_items m) \<Longrightarrow> change_valid (pl_entities p) g di"
    using v by (simp add: map_valid_def)
  let ?live = "filter (change_live (pl_entities p)) (fm_items m)"
  have L: "fst (update_db_entity_loop name_of (pl_entities p) (fm_items m)) =
        map (\<lambda>(g, di). (g, di\<lparr> di_requested := True \<rparr>)) ?live"
      "map packet_eff (commit_packets ser line num tid rid k
         (snd (update_db_entity_loop name_of (pl_entities p) (fm_items m)))) =
        map (change_eff ser (pl_entities p)) ?live"
      "length (snd (update_db_entity_loop name_of (pl_entities p) (fm_items m))) = length ?live"
    for line num tid rid k
    by (rule update_db_entity_loop_valid; use v' in blast)+
  define q where "q = fst (create_request_list p)"
  have q: "pl_entities q = pl_entities p" "pl_pending q = pl_pending p" "pl_owner_of q = pl_owner_of p"
    "pl_updating q = pl_updating p" by (simp_all add: q_def create_request_list_def Let_def)
  have kept: "di_op di \<noteq> EOT_FLUSH"
    if "fmlookup (fmap_of_list (map (\<lambda>(g, di). (g, di\<lparr> di_requested := True \<rparr>)) ?live)) g = Some di" for g di
  proof -
    have "(g, di) \<in> set (map (\<lambda>(g, di). (g, di\<lparr> di_requested := True \<rparr>)) ?live)"
      using that by (metis fmlookup_of_list map_of_SomeD)
    then obtain di0 where "(g, di0) \<in> set (fm_items m)" "di = di0\<lparr> di_requested := True \<rparr>" by auto
    then show ?thesis using v' [of g di0] by (auto simp: change_valid_def)
  qed
  show ?thesis
  proof (cases "snd (update_db_entity_loop name_of (pl_entities p) (fm_items m)) = []")
    case True
    then have "?live = []" using L(3) by simp
    then show ?thesis using True L(1) kept q
      by (auto simp: update_db_entity_def Let_def create_request_list_def split: prod.splits)
  next
    case False
    then show ?thesis using L(1) L(2) kept q
      by (auto simp: update_db_entity_def Let_def pool_commit_def create_request_list_def split: prod.splits)
  qed
qed

lemma update_owners_valid:
  assumes "\<forall>x \<in> set owners. map_valid (pl_entities p) (snd x)" and "updating_ok p"
  shows "case update_owners ser name_of owners p of (p', out) \<Rightarrow>
    pl_entities p' = pl_entities p \<and> pl_pending p' = pl_pending p \<and> pl_owner_of p' = pl_owner_of p \<and>
    updating_ok p' \<and>
    map packet_eff out = concat (map (\<lambda>(owner, m).
      map (change_eff ser (pl_entities p)) (filter (change_live (pl_entities p)) (fm_items m))) owners)"
  using assms
proof (induction owners arbitrary: p)
  case (Cons x owners)
  obtain owner m where x: "x = (owner, m)" by fastforce
  show ?case
  proof (cases "m = fmempty")
    case True
    let ?q = "p\<lparr> pl_updating := fmdrop owner (pl_updating p) \<rparr>"
    have "updating_ok ?q" using Cons.prems(2) by (auto simp: updating_ok_def change_of_def split: if_splits option.splits)
    then show ?thesis using Cons.IH [of ?q] Cons.prems(1) by (auto simp: x True split: prod.splits)
  next
    case False
    have v: "map_valid (pl_entities p) m" using Cons.prems(1) by (auto simp: x)
    obtain q m' sent out where u: "update_db_entity ser name_of m p = (q, m', sent, out)" by (metis prod_cases4)
    note U = update_db_entity_valid [OF v, of ser name_of, unfolded u prod.case]
    let ?q = "q\<lparr> pl_updating := (if sent then fmupd owner m' (pl_updating q) else fmdrop owner (pl_updating q)) \<rparr>"
    have "updating_ok ?q"
      using Cons.prems(2) U by (auto simp: updating_ok_def change_of_def split: if_splits option.splits)
    then show ?thesis using Cons.IH [of ?q] Cons.prems(1) False U
      by (auto simp: x u Let_def split: prod.splits)
  qed
qed simp

definition all_changes :: "(guid, db_entity_map) fmap \<Rightarrow> (guid \<times> db_entity_info) list" where
  "all_changes ms = concat (map (\<lambda>(owner, m). fm_items m) (fm_items ms))"

lemma concat_map_fm_items:
  "concat (map (\<lambda>(owner, m). map f (filter P (fm_items m))) oms) =
    map f (filter P (concat (map (\<lambda>(owner, m). fm_items m) oms)))"
  by (induction oms) auto

lemma set_all_changes:
  "(g, di) \<in> set (all_changes ms) \<longleftrightarrow> (\<exists>owner. change_of ms owner g = Some di)"
  by (force simp: all_changes_def change_of_def split: option.splits)

lemma distinct_all_changes:
  assumes "\<And>owner g di. change_of ms owner g = Some di \<Longrightarrow> owner = own g"
  shows "distinct (map fst (all_changes ms))"
proof -
  have base: "distinct (map fst (concat (map (\<lambda>(owner, m). fm_items m) oms)))"
    if "distinct (map fst oms)" "\<forall>(owner, m) \<in> set oms. \<forall>g di. fmlookup m g = Some di \<longrightarrow> owner = own g"
    for oms :: "(guid \<times> db_entity_map) list"
    using that
  proof (induction oms)
    case (Cons x oms)
    obtain owner m where x: "x = (owner, m)" by fastforce
    have "g \<notin> fst ` set (concat (map (\<lambda>(owner, m). fm_items m) oms))" if gm: "g \<in> fst ` set (fm_items m)" for g
    proof
      assume "g \<in> fst ` set (concat (map (\<lambda>(owner, m). fm_items m) oms))"
      then obtain owner' m' di' where "(owner', m') \<in> set oms" "fmlookup m' g = Some di'" by auto
      moreover obtain di where "fmlookup m g = Some di" using gm by auto
      ultimately have "owner' = own g" "owner = own g" using Cons.prems(2) by (auto simp: x)
      then show False using \<open>(owner', m') \<in> set oms\<close> Cons.prems(1) by (force simp: x)
    qed
    then have "set (map fst (fm_items m)) \<inter> set (map fst (concat (map (\<lambda>(owner, m). fm_items m) oms))) = {}"
      unfolding set_map by blast
    moreover have "distinct (map fst (concat (map (\<lambda>(owner, m). fm_items m) oms)))"
      using Cons.prems by (intro Cons.IH) auto
    ultimately show ?case
      unfolding x list.map concat.simps prod.case map_append distinct_append by simp
  qed simp
  show ?thesis unfolding all_changes_def
  proof (rule base)
    show "\<forall>(owner, m) \<in> set (fm_items ms). \<forall>g di. fmlookup m g = Some di \<longrightarrow> owner = own g"
      using assms by (fastforce simp: change_of_def)
  qed simp
qed
text \<open>What a frame update that writes does for one entity.\<close>

lemma frame_sync1:
  assumes "sync1 ser fl (Some (di_op di)) mem st v" "di_op di \<in> {EOT_ADD, EOT_UPDATE, EOT_REMOVE}"
    and "mem = (case fmlookup es g of None \<Rightarrow> None | Some e \<Rightarrow> ei_message e)"
  shows "(case snd (change_eff ser es (g, di)) of (op, stream) \<Rightarrow> db_change op stream v) = map_option ser st"
  using assms by (cases "fmlookup es g"; cases v; cases "di_op di")
    (auto simp: sync1_def change_eff_def db_change_def)

lemma frame_sync1_kept:
  "sync1 ser fl (Some op) mem st v \<Longrightarrow> op \<in> {EOT_ADD, EOT_UPDATE} \<Longrightarrow> st \<noteq> None \<Longrightarrow> st = mem"
  by (auto simp: sync1_def)

lemma change_valid_pending:
  assumes "pending_ok own p" "entities_ok own p" "change_of (pl_pending p) owner g = Some di"
  shows "change_valid (pl_entities p) g di"
  using assms by (auto simp: pending_ok_def change_ok_def change_valid_def entities_ok_def)

lemma pool_frame_effect:
  assumes pend: "pending_ok own p" and ents: "entities_ok own p" and num: "pl_update_num p = 0"
    and ne: "pl_pending p \<noteq> fmempty" and names: "\<forall>m. name_of m \<noteq> []"
  shows "\<exists>r out. pool_frame_update ser name_of p = (r, out) \<and>
    pl_entities r = pl_entities p \<and> pl_pending r = fmempty \<and> pl_owner_of r = pl_owner_of p \<and> updating_ok r \<and>
    (\<forall>d g. fold db_apply out d g =
      (case change_of (pl_pending p) (own g) g of
         None \<Rightarrow> d g
       | Some di \<Rightarrow> if change_live (pl_entities p) (g, di)
           then (case snd (change_eff ser (pl_entities p) (g, di)) of (op, stream) \<Rightarrow> db_change op stream (d g))
           else d g))"
proof -
  define q where "q = p\<lparr> pl_no_reply := 0, pl_updating := pl_pending p, pl_pending := fmempty \<rparr>"
  obtain r out where u: "update_owners ser name_of (fm_items (pl_pending p)) q = (r, out)" by fastforce
  have step: "pool_frame_update ser name_of p = (r, out)"
    using num ne u by (simp add: pool_frame_update_def q_def Let_def)
  note cv = change_valid_pending [OF pend ents]
  have named: "\<forall>pk \<in> set out. \<not> nameless pk"
    using frame_packets [OF step] pool_packet_named names by blast
  have "\<forall>x \<in> set (fm_items (pl_pending p)). map_valid (pl_entities q) (snd x)"
  proof
    fix x assume "x \<in> set (fm_items (pl_pending p))"
    then have "fmlookup (pl_pending p) (fst x) = Some (snd x)" by (metis prod.collapse set_fm_items)
    then have "change_of (pl_pending p) (fst x) g = fmlookup (snd x) g" for g
      by (simp add: change_of_def)
    then show "map_valid (pl_entities q) (snd x)"
      using cv [of "fst x"] by (simp add: map_valid_def q_def)
  qed
  moreover have "updating_ok q"
    using cv by (fastforce simp: updating_ok_def q_def change_valid_def)
  ultimately have R: "pl_entities r = pl_entities p" "pl_pending r = fmempty" "pl_owner_of r = pl_owner_of p"
    "updating_ok r"
    "map packet_eff out = map (change_eff ser (pl_entities p))
       (filter (change_live (pl_entities p)) (all_changes (pl_pending p)))"
    using update_owners_valid [of "fm_items (pl_pending p)" q ser name_of] u
    by (auto simp: q_def all_changes_def concat_map_fm_items)
  define live where "live = filter (change_live (pl_entities p)) (all_changes (pl_pending p))"
  let ?xs = "map (change_eff ser (pl_entities p)) live"
  have keys: "map fst ?xs = map fst live" by (simp add: change_eff_def case_prod_beta)
  have owner: "owner = own g" if "change_of (pl_pending p) owner g = Some di" for owner g di
    using pend that by (auto simp: pending_ok_def change_ok_def)
  have dist: "distinct (map fst ?xs)"
    unfolding keys unfolding live_def
    by (rule distinct_map_filter, rule distinct_all_changes [of _ own], rule owner)
  have fold: "fold db_apply out d g = (case map_of ?xs g of None \<Rightarrow> d g | Some (op, stream) \<Rightarrow> db_change op stream (d g))"
    for d g using fold_db_apply [OF named] fold_eff_apply [OF dist, of d g] R(5) by (simp add: live_def)
  have "fold db_apply out d g =
      (case change_of (pl_pending p) (own g) g of
         None \<Rightarrow> d g
       | Some di \<Rightarrow> if change_live (pl_entities p) (g, di)
           then (case snd (change_eff ser (pl_entities p) (g, di)) of (op, stream) \<Rightarrow> db_change op stream (d g))
           else d g)"
    for d g
  proof (cases "\<exists>di. change_of (pl_pending p) (own g) g = Some di \<and> change_live (pl_entities p) (g, di)")
    case False
    then have "g \<notin> set (map fst ?xs)" unfolding keys
      using set_all_changes owner by (force simp: image_iff live_def)
    then have "map_of ?xs g = None" by (auto simp only: map_of_eq_None_iff set_map)
    then show ?thesis using False unfolding fold by (auto split: option.split)
  next
    case True
    then obtain di where di: "change_of (pl_pending p) (own g) g = Some di" "change_live (pl_entities p) (g, di)" by blast
    then have "(g, di) \<in> set live" using set_all_changes by (force simp: live_def)
    then have "change_eff ser (pl_entities p) (g, di) \<in> set ?xs" by simp
    then have "map_of ?xs g = Some (snd (change_eff ser (pl_entities p) (g, di)))"
      using dist by (intro map_of_is_SomeI) (simp_all add: change_eff_def)
    then show ?thesis using di unfolding fold by simp
  qed
  then show ?thesis using step R by blast
qed

lemma pool_frame_one:
  assumes "pending_ok own p" "entities_ok own p" "pl_update_num p = 0" "names_ok c"
    and di: "change_of (pl_pending p) (own g) g = Some di"
  obtains r out where "pool_frame_update (cd_ser c) (cd_name c) p = (r, out)" "pl_entities r = pl_entities p"
    "pl_pending r = fmempty"
    "\<And>d. fold db_apply out d g = (if change_live (pl_entities p) (g, di)
      then (case snd (change_eff (cd_ser c) (pl_entities p) (g, di)) of (op, stream) \<Rightarrow> db_change op stream (d g)) else d g)"
proof -
  have "pl_pending p \<noteq> fmempty" using di by (auto simp: change_of_def)
  moreover have "\<forall>m. cd_name c m \<noteq> []" using assms(4) by (simp add: names_ok_def)
  ultimately obtain r out where "pool_frame_update (cd_ser c) (cd_name c) p = (r, out)" "pl_entities r = pl_entities p"
    "pl_pending r = fmempty"
    and eff: "\<forall>d g. fold db_apply out d g =
      (case change_of (pl_pending p) (own g) g of
         None \<Rightarrow> d g
       | Some di \<Rightarrow> if change_live (pl_entities p) (g, di)
           then (case snd (change_eff (cd_ser c) (pl_entities p) (g, di)) of (op, stream) \<Rightarrow> db_change op stream (d g))
           else d g)"
    using pool_frame_effect [OF assms(1-3), of "cd_name c" "cd_ser c"] by blast
  then show ?thesis using that [of r out] eff [rule_format, of _ g] di by simp
qed

text \<open>The content of the database after a frame that writes, for one entity.\<close>

lemma pool_sync_live:
  assumes "pool_sync c own (p, d, st)" "change_of (pl_pending p) owner g = Some di"
  shows "change_live (pl_entities p) (g, di)"
proof -
  note D = pool_sync_D [OF assms(1)]
  have ok: "change_ok own owner g di" using D(3) assms(2) by (simp add: pending_ok_def)
  then have "sync1 (cd_ser c) (flushed_only g) (Some (di_op di)) (memory p g) (st g) (d g)"
    using D(5) [of g] assms(2) by (simp add: waiting_def change_ok_def)
  then have "di_op di \<noteq> EOT_REMOVE \<longrightarrow> memory p g \<noteq> None" using ok by (auto simp: sync1_def change_ok_def)
  then show ?thesis by (auto simp: change_live_def memory_def split: option.splits)
qed

lemma pool_sync_frame:
  assumes sync: "pool_sync c own (p, d, st)" and r: "use_step c own Use_frame (p, d, st) = (p', d', st')"
  shows "pool_sync c own (p', d', st') \<and> st' = st \<and> memory p' = memory p \<and>
    (pl_update_num p = 0 \<longrightarrow> (\<forall>g. waiting own p' g = None))"
proof -
  note D = pool_sync_D [OF sync]
  have st: "st' = st" using r by (auto simp: use_step_def split: prod.splits)
  show ?thesis
  proof (cases "pl_pending p = fmempty")
    case True
    have "waiting own p g = None" for g by (simp add: waiting_def change_of_def True)
    then show ?thesis using sync True r by (auto simp: use_step_def pool_frame_update_def)
  next
    case pending: False
    show ?thesis
    proof (cases "pl_update_num p = 0")
      case False
      then have "pl_entities p' = pl_entities p" "pl_owner_of p' = pl_owner_of p" "pl_pending p' = pl_pending p"
          "pl_updating p' = pl_updating p" "d' = d"
        using r pending by (auto simp: use_step_def pool_frame_update_def Let_def)
      moreover from this have "pool_sync c own (p', d', st')"
        using D st by (auto intro!: pool_sync_I simp: entities_ok_def pending_ok_def updating_ok_def waiting_def memory_def)
      ultimately show ?thesis using False st by (auto simp: memory_def)
    next
      case True
      have names: "\<forall>m. cd_name c m \<noteq> []" using D(1) by (simp add: names_ok_def)
      obtain out where d': "d' = fold db_apply out d" and
        R: "pl_entities p' = pl_entities p" "pl_pending p' = fmempty" "pl_owner_of p' = pl_owner_of p" "updating_ok p'" and
        eff: "\<And>d g. fold db_apply out d g =
          (case change_of (pl_pending p) (own g) g of
             None \<Rightarrow> d g
           | Some di \<Rightarrow> if change_live (pl_entities p) (g, di)
               then (case snd (change_eff (cd_ser c) (pl_entities p) (g, di)) of (op, stream) \<Rightarrow> db_change op stream (d g))
               else d g)"
        using pool_frame_effect [OF D(3,2) True pending names, of "cd_ser c"] r by (auto simp: use_step_def)
      have mem: "memory p' = memory p" using R(1) by (simp add: memory_def fun_eq_iff)
      have final: "sync1 (cd_ser c) (flushed_only g) None (memory p g) (st g) (d' g)" for g
      proof (cases "change_of (pl_pending p) (own g) g")
        case None
        then show ?thesis using D(5) [of g] eff [of d g] by (simp add: waiting_def d')
      next
        case (Some di)
        have ok: "change_ok own (own g) g di" using D(3) Some by (simp add: pending_ok_def)
        then have op: "di_op di \<in> {EOT_ADD, EOT_UPDATE, EOT_REMOVE}" by (simp add: change_ok_def)
        have s: "sync1 (cd_ser c) (flushed_only g) (Some (di_op di)) (memory p g) (st g) (d g)"
          using D(5) [of g] Some by (simp add: waiting_def)
        have "d' g = map_option (cd_ser c) (st g)"
          using eff [of d g] Some pool_sync_live [OF sync Some]
            frame_sync1 [OF s op, of "pl_entities p" g] by (simp add: memory_def d')
        moreover have "st g \<noteq> None \<Longrightarrow> st g = memory p g"
          using s op frame_sync1_kept [OF s] by (cases "di_op di = EOT_REMOVE") (auto simp: sync1_def)
        ultimately show ?thesis by (simp add: sync1_def)
      qed
      have "pool_sync c own (p', d', st')" unfolding st
      proof (rule pool_sync_I)
        show "names_ok c" by (rule D(1))
        show "entities_ok own p'" using D(2) R by (simp add: entities_ok_def)
        show "pending_ok own p'" using R by (simp add: pending_ok_def change_of_def)
        show "updating_ok p'" by (rule R(4))
        show "sync1 (cd_ser c) (flushed_only g) (waiting own p' g) (memory p' g) (st g) (d' g)" for g
          using R(2) mem final by (simp add: waiting_def change_of_def)
      qed
      then show ?thesis using st mem R(2) by (simp add: waiting_def change_of_def)
    qed
  qed
qed

section \<open>Replies\<close>

lemma remove_db_info_keeps:
  assumes "entities_ok own p" "updating_ok p"
  shows "pl_entities (remove_db_info owner g success p) = pl_entities p"
    "pl_pending (remove_db_info owner g success p) = pl_pending p"
    "pl_owner_of (remove_db_info owner g success p) = pl_owner_of p"
    "pl_update_num (remove_db_info owner g success p) = pl_update_num p"
    "updating_ok (remove_db_info owner g success p)"
proof -
  have check: "check_should_removed_entity h p = p" for h
    using assms(1) by (auto simp: check_should_removed_entity_def entities_ok_def split: option.splits)
  show "pl_entities (remove_db_info owner g success p) = pl_entities p"
    "pl_pending (remove_db_info owner g success p) = pl_pending p"
    "pl_owner_of (remove_db_info owner g success p) = pl_owner_of p"
    "pl_update_num (remove_db_info owner g success p) = pl_update_num p"
    "updating_ok (remove_db_info owner g success p)"
    using assms(2) check
    by (force simp: remove_db_info_def updating_ok_def change_of_def Let_def
        split: option.splits entity_op.splits if_splits)+
qed

lemma update_to_db_callback_keeps:
  fixes p :: "'m pool" and rl :: "'m request_list"
  assumes "entities_ok own p" "updating_ok p"
  shows "pl_entities (update_to_db_callback rl p) = pl_entities p \<and>
    pl_pending (update_to_db_callback rl p) = pl_pending p \<and>
    pl_owner_of (update_to_db_callback rl p) = pl_owner_of p \<and> updating_ok (update_to_db_callback rl p)"
proof -
  have "pl_entities (fold (\<lambda>r. remove_db_info (rq_owner r) (rq_guid r) (rq_success r)) rs q) = pl_entities q \<and>
      pl_pending (fold (\<lambda>r. remove_db_info (rq_owner r) (rq_guid r) (rq_success r)) rs q) = pl_pending q \<and>
      pl_owner_of (fold (\<lambda>r. remove_db_info (rq_owner r) (rq_guid r) (rq_success r)) rs q) = pl_owner_of q \<and>
      updating_ok (fold (\<lambda>r. remove_db_info (rq_owner r) (rq_guid r) (rq_success r)) rs q)"
    if "entities_ok own q" "updating_ok q" for rs :: "'m request list" and q :: "'m pool"
    using that
  proof (induction rs arbitrary: q)
    case (Cons r rs)
    note k = remove_db_info_keeps [OF Cons.prems, of "rq_owner r" "rq_guid r" "rq_success r"]
    have "entities_ok own (remove_db_info (rq_owner r) (rq_guid r) (rq_success r) q)"
      using Cons.prems(1) k by (simp add: entities_ok_def)
    then show ?case using Cons.IH k by simp
  qed simp
  moreover have "entities_ok own (update_to_db_reply p)" "updating_ok (update_to_db_reply p)"
    "pl_entities (update_to_db_reply p) = pl_entities p" "pl_pending (update_to_db_reply p) = pl_pending p"
    "pl_owner_of (update_to_db_reply p) = pl_owner_of p"
    using assms by (simp_all add: update_to_db_reply_def entities_ok_def updating_ok_def)
  ultimately show ?thesis by (simp add: update_to_db_callback_def)
qed

lemma pool_sync_reply:
  assumes "pool_sync c own (p, d, st)"
  shows "pool_sync c own (use_step c own (Use_reply g rid res) (p, d, st))"
proof -
  note D = pool_sync_D [OF assms]
  obtain ris fin where t: "take_reply (cd_parse c) g rid res (pl_requests p) = (ris, fin)" by fastforce
  define q where "q = p\<lparr> pl_requests := ris \<rparr>"
  have ok: "entities_ok own q" "updating_ok q" using D by (simp_all add: q_def entities_ok_def updating_ok_def)
  have "\<exists>rl. use_step c own (Use_reply g rid res) (p, d, st) = (q, d, st) \<or>
      use_step c own (Use_reply g rid res) (p, d, st) = (update_to_db_callback rl q, d, st)"
    by (cases fin) (auto simp: use_step_def pool_cache_input_def t q_def Let_def)
  moreover have "pool_sync c own (update_to_db_callback rl q, d, st)" for rl
    using update_to_db_callback_keeps [OF ok, of rl] D ok
    by (auto intro!: pool_sync_I simp: entities_ok_def pending_ok_def waiting_def memory_def q_def)
  moreover have "pool_sync c own (q, d, st)"
    using D ok by (auto intro!: pool_sync_I simp: pending_ok_def waiting_def memory_def q_def)
  ultimately show ?thesis by metis
qed

interpretation pool_use: invariant_machine "use_step c own" "use_allowed own" "pool_sync c own" for c own
proof
  fix s and e :: "'a use"
  assume s: "pool_sync c own s" and a: "use_allowed own e s"
  obtain p d st where pd: "s = (p, d, st)" by (metis prod_cases3)
  show "pool_sync c own (use_step c own e s)"
  proof (cases e)
    case Use_frame
    obtain p' d' st' where f: "use_step c own Use_frame (p, d, st) = (p', d', st')" by (metis prod_cases3)
    have "pool_sync c own (p', d', st')" using pool_sync_frame [OF s [unfolded pd] f] by blast
    then show ?thesis by (simp only: pd Use_frame f)
  qed (use s a pd in \<open>auto intro: pool_sync_add pool_sync_update pool_sync_remove pool_sync_reply simp del: use_allowed.simps\<close>)
qed

text \<open>A game server starts with an empty pool, over what is stored.\<close>

definition pool_start :: "'m codec \<Rightarrow> u32 \<Rightarrow> (guid \<Rightarrow> 'm option) \<Rightarrow> 'm store_state" where
  "pool_start c line st = (new_pool line, \<lambda>g. map_option (cd_ser c) (st g), st)"

lemma pool_sync_start: "names_ok c \<Longrightarrow> pool_sync c own (pool_start c line st)"
  by (auto intro!: pool_sync_I simp: pool_start_def new_pool_def entities_ok_def pending_ok_def updating_ok_def
      change_of_def waiting_def memory_def sync1_def)

text \<open>After a frame that writes nothing waits, so the database holds what is to be stored; and what is to be stored
  and in memory is as in memory, unless only flushes write it.\<close>

definition written :: "'m codec \<Rightarrow> 'm store_state \<Rightarrow> bool" where
  "written c s \<longleftrightarrow> (case s of (p, d, st) \<Rightarrow> \<forall>g. d g = map_option (cd_ser c) (st g) \<and>
     (st g \<noteq> None \<and> memory p g \<noteq> None \<and> \<not> flushed_only g \<longrightarrow> st g = memory p g))"

lemma pool_sync_written:
  assumes "pool_sync c own (p, d, st)" "\<forall>g. waiting own p g = None"
  shows "written c (p, d, st)"
  using pool_sync_D(5) [OF assms(1)] assms(2) by (auto simp: written_def sync1_def)

text \<open>C5: what is to be stored is written, and nothing else. From any content of the database, however entities are
  added to be stored, loaded or kept in memory only, changed, removed and unloaded, frames run and replies arrive, in
  any order and with any results: a frame update that writes leaves the database with exactly what is to be stored,
  that is the entities added to be stored and not removed from it since; and each of them that is in memory is stored
  as it is in memory, unless it is a player or a role. The rules followed are those of \<open>use_allowed\<close>: each
  entity has one owner; none is added while its removal still waits; what is stored is not added as new, and is loaded
  with the content it is stored with; none is unloaded while a change of it waits. What the pool does not store: a new
  coin, whose packet has no name of its message; and a change of a player or a role once it was written as new,
  because \<^verbatim>\<open>update\<close> ignores both. Flushes, which write those, are not among the uses.\<close>

theorem write_behind:
  assumes "names_ok c"
    and "all_allowed (use_step c own) (use_allowed own) es (pool_start c line st0)"
    and "run_events (use_step c own) es (pool_start c line st0) = (p, d, st)"
    and "pl_update_num p = 0"
    and "use_step c own Use_frame (p, d, st) = (p', d', st')"
  shows "\<forall>g. d' g = map_option (cd_ser c) (st' g) \<and>
    (st' g \<noteq> None \<and> memory p' g \<noteq> None \<and> \<not> flushed_only g \<longrightarrow> st' g = memory p' g)"
proof -
  have "pool_sync c own (p, d, st)"
    using pool_use.run_keeps [OF pool_sync_start [OF assms(1)] assms(2)] assms(3) by simp
  from pool_sync_frame [OF this assms(5)] assms(4) show ?thesis
    using pool_sync_written by (fastforce simp: written_def)
qed

text \<open>A codec for the examples: messages are byte strings.\<close>

definition bytes_codec :: "u8 list codec" where
  "bytes_codec = \<lparr> cd_ser = (\<lambda>m. m), cd_name = (\<lambda>_. [109]), cd_parse = Some \<rparr>"

lemma bytes_codec_names: "names_ok bytes_codec"
  by (simp add: names_ok_def bytes_codec_def)

text \<open>An entity that is neither a coin nor a player nor a role.\<close>

lemma plain_guid:
  "extract_entity_type 0x500000000000001 \<noteq> ucast et_coin" "\<not> is_player_guid 0x500000000000001"
  "\<not> is_role_guid 0x500000000000001" "extract_entity_type 0x500000000000002 \<noteq> ucast et_coin"
  "\<not> is_player_guid 0x500000000000002" "\<not> is_role_guid 0x500000000000002"
  by (simp_all add: extract_entity_type_def et_coin_def is_player_guid_def is_role_guid_def guid_type_def
      et_player_def et_role_def)

text \<open>One entity is new, another one is loaded and changed.\<close>

definition example_uses :: "u8 list use list" where
  "example_uses = [Use_add 0x500000000000001 [1] True, Use_update 0x500000000000001 [2],
     Use_add 0x500000000000002 [3] False, Use_update 0x500000000000002 [4]]"

lemma write_behind_witness:
  "case run_events (use_step bytes_codec (\<lambda>_. 7)) example_uses (pool_start bytes_codec 0 [0x500000000000002 \<mapsto> [3]]) of
    (p, d, st) \<Rightarrow> d 0x500000000000001 = None \<and> d 0x500000000000002 = Some [3] \<and>
      (case use_step bytes_codec (\<lambda>_. 7) Use_frame (p, d, st) of
        (p', d', st') \<Rightarrow> d' 0x500000000000001 = Some [2] \<and> d' 0x500000000000002 = Some [4])"
proof -
  let ?s = "pool_start bytes_codec 0 [0x500000000000002 \<mapsto> [3]]" and ?step = "use_step bytes_codec (\<lambda>_. 7 :: guid)"
  note ev = pool_start_def example_uses_def use_step_def new_pool_def waiting_def change_of_def flushed_only_def
    pool_add_def new_entity_info_def set_message_def pool_update_def memory_def Let_def update_to_db_def
    update_db_info_def new_db_entity_info_def plain_guid bytes_codec_def
  have al: "all_allowed ?step (use_allowed (\<lambda>_. 7)) example_uses ?s" by (simp add: ev)
  obtain p d st where r: "run_events ?step example_uses ?s = (p, d, st)" by (metis prod_cases3)
  have m: "pl_update_num p = 0" "st 0x500000000000001 = Some [2]" "st 0x500000000000002 = Some [4]"
      "d 0x500000000000001 = None" "d 0x500000000000002 = Some [3]"
    using r by (auto simp: ev)
  obtain p' d' st' where f: "?step Use_frame (p, d, st) = (p', d', st')" by (metis prod_cases3)
  have "st' = st" using f by (auto simp: use_step_def split: prod.splits)
  then have "d' 0x500000000000001 = Some [2]" "d' 0x500000000000002 = Some [4]"
    using write_behind [OF bytes_codec_names al r m(1) f] m by (simp_all add: bytes_codec_def)
  then show ?thesis using r f m by simp
qed

section \<open>What is lost when the rules are broken\<close>

text \<open>When an entity the database has is removed and added again before the removal was written, the two changes become
  one addition, which a database that has the entity rejects: memory holds the new entity, the database the old one,
  and no change waits.\<close>

lemma readded_entity_lost:
  assumes sync: "pool_sync c own (p, d, st)" and w: "waiting own p g = None" and m1: "memory p g = Some m1" "st g = Some m1"
    and coin: "extract_entity_type g \<noteq> ucast et_coin" and num: "pl_update_num p = 0"
    and kept: "d g = Some (cd_ser c m1)"
    and run: "run_events (use_step c own) [Use_remove g True True, Use_add g m2 True, Use_frame] (p, d, st) = (p', d', st')"
  shows "memory p' g = Some m2 \<and> st' g = Some m2 \<and> d' g = Some (cd_ser c m1) \<and> waiting own p' g = None"
proof -
  note D = pool_sync_D [OF sync]
  obtain e where e: "fmlookup (pl_entities p) g = Some e" using m1(1) by (auto simp: memory_def split: option.splits)
  then have o: "fmlookup (pl_owner_of p) g = Some (own g)" using D(2) by (simp add: entities_ok_def)
  define q where "q = (update_to_db (own g) g EOT_REMOVE (p\<lparr> pl_owner_of := fmdrop g (pl_owner_of p) \<rparr>))
    \<lparr> pl_entities := fmdrop g (pl_entities p) \<rparr>"
  have rem: "use_step c own (Use_remove g True True) (p, d, st) = (q, d, st(g := None))"
    using e o m1 by (simp add: use_step_def pool_remove_def q_def Let_def)
  have Q: "pool_sync c own (q, d, st(g := None))" using pool_sync_remove [OF sync, of g True True] rem by simp
  have q: "fmlookup (pl_entities q) g = None" "waiting own q g = Some EOT_REMOVE" "pl_update_num q = 0"
    using waiting_update_to_db [of own g EOT_REMOVE "p\<lparr> pl_owner_of := fmdrop g (pl_owner_of p) \<rparr>" g] num w
    by (auto simp: q_def waiting_def chain_def)
  define q' where "q' = q\<lparr> pl_owner_of := fmupd g (own g) (pl_owner_of q),
    pl_entities := fmupd g (new_entity_info EOT_ADD m2 (own g)) (pl_entities q) \<rparr>"
  define r where "r = update_to_db (own g) g EOT_ADD q'"
  have add: "use_step c own (Use_add g m2 True) (q, d, st(g := None)) = (r, d, st(g := Some m2))"
    using q coin by (simp add: use_step_def pool_add_def r_def q'_def Let_def memory_def)
  have "waiting own q' = waiting own q" by (rule waiting_cong) (simp add: q'_def)
  then have wr: "waiting own r g = Some EOT_ADD"
    using waiting_update_to_db [of own g EOT_ADD q' g] q(2) by (simp add: r_def chain_def)
  have pend: "pending_ok own r" unfolding r_def
    by (rule pending_ok_update_to_db) (use pool_sync_D(3) [OF Q] in \<open>simp_all add: pending_ok_def q'_def\<close>)
  have ents: "entities_ok own r" using pool_sync_D(2) [OF Q] by (auto simp: r_def q'_def entities_ok_def new_entity_info_def)
  obtain di where di: "change_of (pl_pending r) (own g) g = Some di" "di_op di = EOT_ADD"
    using wr by (auto simp: waiting_def)
  have rn: "pl_update_num r = 0" using q(3) by (simp add: r_def q'_def)
  obtain r' out where f: "pool_frame_update (cd_ser c) (cd_name c) r = (r', out)"
    "pl_entities r' = pl_entities r" "pl_pending r' = fmempty"
    and eff: "\<And>d. fold db_apply out d g = (if change_live (pl_entities r) (g, di)
      then (case snd (change_eff (cd_ser c) (pl_entities r) (g, di)) of (op, stream) \<Rightarrow> db_change op stream (d g)) else d g)"
    using pool_frame_one [OF pend ents rn D(1) di(1)] by blast
  have "use_step c own Use_frame (r, d, st(g := Some m2)) = (r', fold db_apply out d, st(g := Some m2))"
    using f(1) by (simp add: use_step_def)
  then have "p' = r'" "d' = fold db_apply out d" "st' = st(g := Some m2)"
    using run by (simp_all add: rem add)
  then show ?thesis
    using f eff di kept
    by (simp add: memory_def r_def q'_def new_entity_info_def change_eff_def db_change_def waiting_def change_of_def)
qed

text \<open>A change that waits is lost when its entity is unloaded: the frame update finds nothing to send.\<close>

lemma unload_loses_change:
  assumes sync: "pool_sync c own (p, d, st)" and w: "waiting own p g = Some EOT_UPDATE" and num: "pl_update_num p = 0"
    and run: "run_events (use_step c own) [Use_remove g False del, Use_frame] (p, d, st) = (p', d', st')"
  shows "memory p' g = None \<and> d' g = d g \<and> st' g = st g \<and> waiting own p' g = None"
proof -
  note D = pool_sync_D [OF sync]
  have mem: "memory p g \<noteq> None" using D(5) [of g] w by (simp add: sync1_def)
  then obtain e where e: "fmlookup (pl_entities p) g = Some e" by (auto simp: memory_def split: option.splits)
  then have o: "fmlookup (pl_owner_of p) g = Some (own g)" using D(2) by (simp add: entities_ok_def)
  define q where "q = p\<lparr> pl_owner_of := fmdrop g (pl_owner_of p), pl_entities := fmdrop g (pl_entities p) \<rparr>"
  have "\<not> is_updating (own g) g (p\<lparr> pl_owner_of := fmdrop g (pl_owner_of p) \<rparr>)"
    using w waiting_cong [of "p\<lparr> pl_owner_of := fmdrop g (pl_owner_of p) \<rparr>" p own] by (simp add: is_updating_waiting)
  then have rem: "use_step c own (Use_remove g False del) (p, d, st) = (q, d, st)"
    using e o by (simp add: use_step_def pool_remove_def q_def Let_def)
  have pend: "pending_ok own q" using D(3) by (simp add: pending_ok_def q_def)
  have ents: "entities_ok own q" using D(2) by (auto simp: entities_ok_def q_def)
  have num': "pl_update_num q = 0" using num by (simp add: q_def)
  obtain di where di: "change_of (pl_pending q) (own g) g = Some di" "di_op di = EOT_UPDATE"
    using w by (auto simp: waiting_def q_def)
  have dead: "\<not> change_live (pl_entities q) (g, di)" using di(2) by (simp add: change_live_def q_def)
  obtain r out where f: "pool_frame_update (cd_ser c) (cd_name c) q = (r, out)"
    "pl_entities r = pl_entities q" "pl_pending r = fmempty" and eff: "\<And>d. fold db_apply out d g = d g"
    using pool_frame_one [OF pend ents num' D(1) di(1)] dead by (metis (no_types, lifting))
  have "use_step c own Use_frame (q, d, st) = (r, fold db_apply out d, st)" using f(1) by (simp add: use_step_def)
  then have "p' = r" "d' = fold db_apply out d" "st' = st" using run by (simp_all add: rem)
  then show ?thesis using f eff by (simp add: memory_def q_def waiting_def change_of_def)
qed

end
