(* ===== verification/CacheService.thy ===== *)
theory CacheService
  imports Packets Pool "HOL-Library.Monad_Syntax"
begin

text \<open>
  The cache server between the pools and the database: \<^verbatim>\<open>cachesys/src/EntityHander.cpp\<close> with
  \<^verbatim>\<open>cachesys/src/serialize/ManageExpiredItem.cpp\<close>, the queue of \<^verbatim>\<open>cachesys/src/DbLoader.cpp\<close>,
  \<^verbatim>\<open>ManageSerialize::writeRecord\<close> and the reply \<^verbatim>\<open>ManageConvertSession\<close> handles.

  Entities are objects on the heap that the entity map, the map of expired items and requests
  point to. The heap is part of the state: an address maps to the content while the object
  lives. A handler returns \<open>None\<close> when it uses or deletes an object that was deleted before, or
  reads through NULL. Addresses are not used again after a delete, so such a use is always seen.
  What is sent to the session pool is the list \<open>ca_out\<close>, oldest first.
\<close>

section \<open>Data\<close>

definition dc_code :: "dc_opcode \<Rightarrow> u16" where
  "dc_code op = (case op of DCMSG_NEW_ENEITY \<Rightarrow> 1 | DCMSG_LOAD_ENTITY \<Rightarrow> 2 | DCMSG_FLUSH_ENTITY \<Rightarrow> 3
     | DCMSG_QUERY_ENTITY \<Rightarrow> 4 | DCMSG_UPDATE_ENTITY \<Rightarrow> 5 | DCMSG_REMOVE_ENTITY \<Rightarrow> 6
     | DCMSG_LOAD_ENTITY_ONCE \<Rightarrow> 7 | DCMSG_NEW_ENEITY_WITH_FLUSH \<Rightarrow> 8 | DCMSG_ONLY_REMOVE_ENTITY \<Rightarrow> 9)"

datatype record_type = RT_BASE_R | RT_INSERT_R | RT_LOAD_R | RT_QUERY_R | RT_UPDATE_R | RT_FLUSH_R
  | RT_REMOVE_R | RT_INSERT_WITH_FLUSH_R

datatype cache_status = STATE_NORMAL | STATE_ENTITY_NOT_FOUND

record data_request_info =
  dq_opcode :: u16
  dq_guid :: guid
  dq_request :: db_data_request
  dq_entity :: "nat option"
  dq_time :: u64
  dq_loaded :: bool
  dq_owner :: nat
  dq_owner_guid :: guid

definition new_data_request_info ::
  "u16 \<Rightarrow> guid \<Rightarrow> db_data_request \<Rightarrow> nat option \<Rightarrow> nat \<Rightarrow> u64 \<Rightarrow> data_request_info" where
  "new_data_request_info op g req e owner now =
     \<lparr> dq_opcode = op, dq_guid = g, dq_request = req, dq_entity = e, dq_time = now, dq_loaded = True,
       dq_owner = owner, dq_owner_guid = dr_owner req \<rparr>"

record expired_item =
  xi_time :: u64
  xi_in_use :: bool
  xi_delete :: bool
  xi_item :: "nat option"

record cache_record =
  rc_guid :: u64
  rc_object :: guid
  rc_owner :: guid
  rc_opcode :: u16
  rc_stream :: "u8 list"
  rc_type :: record_type
  rc_time :: u64
  rc_index :: u32
  rc_num :: u32
  rc_trans :: u32
  rc_line :: u32

text \<open>A reply before it is serialised: opcode, guid, status, the message and the session it goes to.\<close>

record cache_reply =
  rp_opcode :: u16
  rp_guid :: guid
  rp_status :: cache_status
  rp_message :: "u8 list option"
  rp_owner :: nat

record 'm cache =
  ca_heap :: "nat \<Rightarrow> 'm option"
  ca_next :: nat
  ca_entities :: "(guid, nat) fmap"
  ca_expired :: "(guid, expired_item) fmap"
  ca_inbox :: "packet list"
  ca_loading :: "data_request_info list"
  ca_loaded :: "data_request_info list"
  ca_records :: "cache_record list"
  ca_record_guid :: u64
  ca_out :: "cache_reply list"

definition new_cache :: "'m cache" where
  "new_cache = \<lparr> ca_heap = (\<lambda>_. None), ca_next = 0, ca_entities = fmempty, ca_expired = fmempty,
     ca_inbox = [], ca_loading = [], ca_loaded = [], ca_records = [], ca_record_guid = 0, ca_out = [] \<rparr>"

text \<open>The parser of entities (\<^verbatim>\<open>dynamicparse\<close>) and protobuf: parsing the request, making the
  empty message for a guid and a name, parsing into it, serialising it.\<close>

record 'm cache_codec =
  cc_request :: "u8 list \<Rightarrow> db_data_request option"
  cc_create :: "guid \<Rightarrow> u8 list \<Rightarrow> 'm option"
  cc_parse :: "'m \<Rightarrow> u8 list \<Rightarrow> 'm option"
  cc_ser :: "'m \<Rightarrow> u8 list"

section \<open>Objects\<close>

definition new_item :: "'m \<Rightarrow> 'm cache \<Rightarrow> 'm cache \<times> nat" where
  "new_item m c = (c\<lparr> ca_heap := (ca_heap c)(ca_next c \<mapsto> m), ca_next := ca_next c + 1 \<rparr>, ca_next c)"

definition delete_item :: "nat option \<Rightarrow> 'm cache \<Rightarrow> 'm cache option" where
  "delete_item p c =
     (case p of
        None \<Rightarrow> Some c
      | Some a \<Rightarrow> if ca_heap c a = None then None else Some (c\<lparr> ca_heap := (ca_heap c)(a := None) \<rparr>))"

definition read_item :: "nat option \<Rightarrow> 'm cache \<Rightarrow> 'm option" where
  "read_item p c = Option.bind p (ca_heap c)"

section \<open>Expired items\<close>

definition xi_update :: "guid \<Rightarrow> nat option \<Rightarrow> u64 \<Rightarrow> 'm cache \<Rightarrow> 'm cache" where
  "xi_update g item t c =
     c\<lparr> ca_expired := fmupd g \<lparr> xi_time = t, xi_in_use = False, xi_delete = False, xi_item = item \<rparr> (ca_expired c) \<rparr>"

definition xi_update_to_delete :: "guid \<Rightarrow> 'm cache \<Rightarrow> 'm cache" where
  "xi_update_to_delete g c =
     (case fmlookup (ca_expired c) g of
        None \<Rightarrow> c
      | Some x \<Rightarrow> c\<lparr> ca_expired :=
          fmupd g (x\<lparr> xi_in_use := False, xi_delete := True, xi_item := None \<rparr>) (ca_expired c) \<rparr>)"

text \<open>\<^verbatim>\<open>query\<close> gives the pointer when there is an item that is not deleted; the overload that
  copies the message reads through the pointer.\<close>

definition xi_query :: "guid \<Rightarrow> bool \<Rightarrow> 'm cache \<Rightarrow> 'm cache \<times> nat option option" where
  "xi_query g delete_after_query c =
     (case fmlookup (ca_expired c) g of
        None \<Rightarrow> (c, None)
      | Some x \<Rightarrow>
          if xi_delete x then (c, None)
          else (if delete_after_query then c\<lparr> ca_expired := fmupd g (x\<lparr> xi_in_use := True \<rparr>) (ca_expired c) \<rparr> else c,
                Some (xi_item x)))"

definition xi_query_copy :: "guid \<Rightarrow> 'm cache \<Rightarrow> 'm option option" where
  "xi_query_copy g c =
     (case fmlookup (ca_expired c) g of
        None \<Rightarrow> Some None
      | Some x \<Rightarrow> if xi_delete x then Some None else map_option Some (read_item (xi_item x) c))"

definition xi_remove :: "guid \<Rightarrow> u64 \<Rightarrow> 'm cache \<Rightarrow> ('m cache \<times> bool) option" where
  "xi_remove g t c =
     (case fmlookup (ca_expired c) g of
        None \<Rightarrow> Some (c, False)
      | Some x \<Rightarrow>
          if xi_in_use x then Some (c\<lparr> ca_expired := fmdrop g (ca_expired c) \<rparr>, True)
          else if t = xi_time x then
            do { c \<leftarrow> delete_item (xi_item x) c;
                 Some (c\<lparr> ca_expired := fmdrop g (ca_expired c) \<rparr>, True) }
          else Some (c, True))"

section \<open>The entity map\<close>

definition eh_add :: "nat option \<Rightarrow> guid \<Rightarrow> 'm cache \<Rightarrow> ('m cache \<times> bool) option" where
  "eh_add e g c =
     (case e of
        None \<Rightarrow> Some (c, False)
      | Some a \<Rightarrow>
          if fmlookup (ca_entities c) g \<noteq> None then do { c \<leftarrow> delete_item (Some a) c; Some (c, False) }
          else Some (c\<lparr> ca_entities := fmupd g a (ca_entities c) \<rparr>, True))"

definition eh_remove :: "guid \<Rightarrow> 'm cache \<Rightarrow> 'm cache option" where
  "eh_remove g c =
     (case fmlookup (ca_entities c) g of
        None \<Rightarrow> Some c
      | Some a \<Rightarrow> do { c \<leftarrow> delete_item (Some a) c; Some (c\<lparr> ca_entities := fmdrop g (ca_entities c) \<rparr>) })"

text \<open>\<^verbatim>\<open>updateEntity\<close> is only called with an entity that is not NULL.\<close>

definition eh_update :: "nat \<Rightarrow> guid \<Rightarrow> 'm cache \<Rightarrow> 'm cache option" where
  "eh_update e g c =
     (case fmlookup (ca_entities c) g of
        None \<Rightarrow> Some c
      | Some a \<Rightarrow> do { c \<leftarrow> delete_item (Some a) c; Some (c\<lparr> ca_entities := fmupd g e (ca_entities c) \<rparr>) })"

definition write_record :: "data_request_info \<Rightarrow> record_type \<Rightarrow> 'm cache \<Rightarrow> 'm cache" where
  "write_record d rt c =
     c\<lparr> ca_record_guid := ca_record_guid c + 1,
        ca_records := ca_records c @ [\<lparr> rc_guid = ca_record_guid c + 1, rc_object = dq_guid d,
          rc_owner = dq_owner_guid d, rc_opcode = dq_opcode d, rc_stream = dr_stream (dq_request d), rc_type = rt,
          rc_time = dq_time d, rc_index = dr_index (dq_request d), rc_num = dr_num (dq_request d),
          rc_trans = dr_trans (dq_request d), rc_line = dr_line (dq_request d) \<rparr>] \<rparr>"

definition eh_reply :: "data_request_info \<Rightarrow> cache_status \<Rightarrow> u8 list option \<Rightarrow> 'm cache \<Rightarrow> 'm cache" where
  "eh_reply d st msg c =
     c\<lparr> ca_out := ca_out c @ [\<lparr> rp_opcode = dq_opcode d, rp_guid = dq_guid d, rp_status = st, rp_message = msg,
          rp_owner = dq_owner d \<rparr>] \<rparr>"

text \<open>\<^verbatim>\<open>replayLoadEntity\<close> and \<^verbatim>\<open>replayLoadEntityOnce\<close>: no reply for NULL, else the entity is read.\<close>

definition eh_reply_load :: "'m cache_codec \<Rightarrow> nat option \<Rightarrow> data_request_info \<Rightarrow> 'm cache \<Rightarrow> 'm cache option" where
  "eh_reply_load cd e d c =
     (case e of
        None \<Rightarrow> Some c
      | Some a \<Rightarrow> do { m \<leftarrow> ca_heap c a; Some (eh_reply d STATE_NORMAL (Some (cc_ser cd m)) c) })"

section \<open>Handlers\<close>

text \<open>The \<^verbatim>\<open>auto_ptr\<close> of every handler deletes the request at the end, and with it the entity the
  request still points to; setting the pointer to NULL before keeps the entity.\<close>

definition handle_new_entity :: "data_request_info \<Rightarrow> 'm cache \<Rightarrow> 'm cache option" where
  "handle_new_entity d c =
     do { (c, adding_success) \<leftarrow> eh_add (dq_entity d) (dq_guid d) c;
          let c = (if adding_success then write_record d RT_INSERT_R c else c);
          Some (eh_reply d STATE_NORMAL None c) }"

definition handle_new_entity_with_flush :: "data_request_info \<Rightarrow> 'm cache \<Rightarrow> 'm cache option" where
  "handle_new_entity_with_flush d c =
     Some (eh_reply d STATE_NORMAL None
       (write_record d RT_INSERT_WITH_FLUSH_R (xi_update (dq_guid d) (dq_entity d) (dq_time d) c)))"

definition handle_load_entity :: "'m cache_codec \<Rightarrow> data_request_info \<Rightarrow> 'm cache \<Rightarrow> 'm cache option" where
  "handle_load_entity cd d c =
     (case fmlookup (ca_entities c) (dq_guid d) of
        Some a \<Rightarrow> eh_reply_load cd (Some a) d c
      | None \<Rightarrow>
          (case xi_query (dq_guid d) True c of
             (c, Some item) \<Rightarrow> do { (c, _) \<leftarrow> eh_add item (dq_guid d) c; eh_reply_load cd item d c }
           | (c, None) \<Rightarrow> Some (c\<lparr> ca_loading := ca_loading c @ [d] \<rparr>)))"

definition handle_db_load :: "'m cache_codec \<Rightarrow> data_request_info \<Rightarrow> 'm cache \<Rightarrow> 'm cache option" where
  "handle_db_load cd d c =
     (if dq_loaded d then
        if dq_opcode d = dc_code DCMSG_LOAD_ENTITY then
          do { (c, _) \<leftarrow> eh_add (dq_entity d) (dq_guid d) c; eh_reply_load cd (dq_entity d) d c }
        else if dq_opcode d = dc_code DCMSG_LOAD_ENTITY_ONCE then
          do { c \<leftarrow> eh_reply_load cd (dq_entity d) d c; delete_item (dq_entity d) c }
        else delete_item (dq_entity d) c
      else delete_item (dq_entity d) (eh_reply d STATE_ENTITY_NOT_FOUND None c))"

definition handle_flush_entity :: "data_request_info \<Rightarrow> 'm cache \<Rightarrow> 'm cache option" where
  "handle_flush_entity d c =
     (case fmlookup (ca_entities c) (dq_guid d) of
        None \<Rightarrow> delete_item (dq_entity d) (eh_reply d STATE_ENTITY_NOT_FOUND None c)
      | Some _ \<Rightarrow> eh_remove (dq_guid d) (eh_reply d STATE_NORMAL None
          (write_record d RT_FLUSH_R (xi_update (dq_guid d) (dq_entity d) (dq_time d) c))))"

definition handle_update_entity :: "data_request_info \<Rightarrow> 'm cache \<Rightarrow> 'm cache option" where
  "handle_update_entity d c =
     (case dq_entity d of
        None \<Rightarrow> Some (eh_reply d STATE_ENTITY_NOT_FOUND None c)
      | Some e \<Rightarrow>
          do { c \<leftarrow> eh_update e (dq_guid d) (write_record d RT_UPDATE_R c);
               Some (eh_reply d STATE_NORMAL None c) })"

definition handle_remove_entity :: "data_request_info \<Rightarrow> 'm cache \<Rightarrow> 'm cache option" where
  "handle_remove_entity d c =
     do { c \<leftarrow> eh_remove (dq_guid d) (write_record d RT_REMOVE_R (xi_update_to_delete (dq_guid d) c));
          delete_item (dq_entity d) (eh_reply d STATE_NORMAL None c) }"

definition handle_load_entity_once :: "'m cache_codec \<Rightarrow> data_request_info \<Rightarrow> 'm cache \<Rightarrow> 'm cache option" where
  "handle_load_entity_once cd d c =
     (case fmlookup (ca_entities c) (dq_guid d) of
        Some a \<Rightarrow> eh_reply_load cd (Some a) d c
      | None \<Rightarrow>
          do { copy \<leftarrow> xi_query_copy (dq_guid d) c;
               case copy of
                 Some m \<Rightarrow> delete_item (dq_entity d) (eh_reply d STATE_NORMAL (Some (cc_ser cd m)) c)
               | None \<Rightarrow> Some (c\<lparr> ca_loading := ca_loading c @ [d] \<rparr>) })"

definition handle_only_remove_entity :: "data_request_info \<Rightarrow> 'm cache \<Rightarrow> 'm cache option" where
  "handle_only_remove_entity d c = do { c \<leftarrow> eh_remove (dq_guid d) c; delete_item (dq_entity d) c }"

text \<open>The chain of comparisons in \<^verbatim>\<open>handlePacket\<close>; an unknown opcode leaves the request behind.\<close>

definition eh_dispatch :: "'m cache_codec \<Rightarrow> data_request_info \<Rightarrow> 'm cache \<Rightarrow> 'm cache option" where
  "eh_dispatch cd d c =
     (if dq_opcode d = dc_code DCMSG_NEW_ENEITY then handle_new_entity d c
      else if dq_opcode d = dc_code DCMSG_LOAD_ENTITY then handle_load_entity cd d c
      else if dq_opcode d = dc_code DCMSG_FLUSH_ENTITY then handle_flush_entity d c
      else if dq_opcode d = dc_code DCMSG_UPDATE_ENTITY then handle_update_entity d c
      else if dq_opcode d = dc_code DCMSG_REMOVE_ENTITY then handle_remove_entity d c
      else if dq_opcode d = dc_code DCMSG_LOAD_ENTITY_ONCE then handle_load_entity_once cd d c
      else if dq_opcode d = dc_code DCMSG_NEW_ENEITY_WITH_FLUSH then handle_new_entity_with_flush d c
      else if dq_opcode d = dc_code DCMSG_ONLY_REMOVE_ENTITY then handle_only_remove_entity d c
      else Some c)"

text \<open>The entity a request carries: none for an empty stream; \<open>None\<close> when it cannot be made or
  parsed, then the request is given up.\<close>

definition request_entity :: "'m cache_codec \<Rightarrow> guid \<Rightarrow> db_data_request \<Rightarrow> 'm option option" where
  "request_entity cd g req =
     (if dr_stream req = [] then Some None
      else (case cc_create cd g (dr_name req) of
              None \<Rightarrow> None
            | Some m \<Rightarrow> map_option Some (cc_parse cd m (dr_stream req))))"

definition eh_request :: "'m cache_codec \<Rightarrow> u64 \<Rightarrow> u16 \<Rightarrow> guid \<Rightarrow> db_data_request \<Rightarrow> nat \<Rightarrow> 'm cache \<Rightarrow> 'm cache option" where
  "eh_request cd now op g req owner c =
     (case request_entity cd g req of
        None \<Rightarrow> Some c
      | Some None \<Rightarrow> eh_dispatch cd (new_data_request_info op g req None owner now) c
      | Some (Some m) \<Rightarrow>
          (case new_item m c of
             (c, a) \<Rightarrow> eh_dispatch cd (new_data_request_info op g req (Some a) owner now) c))"

definition eh_handle_packet :: "'m cache_codec \<Rightarrow> u64 \<Rightarrow> packet \<Rightarrow> 'm cache \<Rightarrow> 'm cache option" where
  "eh_handle_packet cd now pk c =
     (case parse_packet (cc_request cd) pk of
        None \<Rightarrow> Some c
      | Some req \<Rightarrow> eh_request cd now (packet_opcode pk) (packet_guid pk) req (p_owner pk) c)"

section \<open>Threads\<close>

text \<open>\<^verbatim>\<open>EntityHander::input\<close> and one round of \<^verbatim>\<open>EntityHander::svc\<close>: both queues are taken, then the
  packets are handled, each at its time, then the answers of the database.\<close>

definition eh_input :: "packet \<Rightarrow> 'm cache \<Rightarrow> 'm cache" where
  "eh_input pk c = c\<lparr> ca_inbox := ca_inbox c @ [pk] \<rparr>"

primrec eh_packets :: "'m cache_codec \<Rightarrow> (nat \<Rightarrow> u64) \<Rightarrow> packet list \<Rightarrow> 'm cache \<Rightarrow> 'm cache option" where
  "eh_packets cd clock [] c = Some c"
| "eh_packets cd clock (pk # pks) c =
     do { c \<leftarrow> eh_handle_packet cd (clock (length pks)) pk c; eh_packets cd clock pks c }"

primrec eh_answers :: "'m cache_codec \<Rightarrow> data_request_info list \<Rightarrow> 'm cache \<Rightarrow> 'm cache option" where
  "eh_answers cd [] c = Some c"
| "eh_answers cd (d # ds) c = do { c \<leftarrow> handle_db_load cd d c; eh_answers cd ds c }"

definition eh_round :: "'m cache_codec \<Rightarrow> (nat \<Rightarrow> u64) \<Rightarrow> 'm cache \<Rightarrow> 'm cache option" where
  "eh_round cd clock c =
     (let packet_vec = ca_inbox c; db_load_replay_vec = ca_loaded c
      in do { c \<leftarrow> eh_packets cd clock packet_vec (c\<lparr> ca_inbox := [], ca_loaded := [] \<rparr>);
              eh_answers cd db_load_replay_vec c })"

text \<open>\<^verbatim>\<open>DbLoader::handleLoadRequest\<close> for request \<open>i\<close> of those that wait (several threads take
  requests); \<open>res\<close> is what the database has. The request is handed back with
  \<^verbatim>\<open>handleDbLoadReplay\<close>.\<close>

definition db_load_request :: "'m cache_codec \<Rightarrow> nat \<Rightarrow> 'm option \<Rightarrow> 'm cache \<Rightarrow> 'm cache" where
  "db_load_request cd i res c =
     (let d = ca_loading c ! i;
          c = c\<lparr> ca_loading := take i (ca_loading c) @ drop (Suc i) (ca_loading c) \<rparr>
      in case cc_create cd (dq_guid d) (dr_name (dq_request d)) of
           None \<Rightarrow> c\<lparr> ca_loaded := ca_loaded c @ [d\<lparr> dq_entity := None, dq_loaded := False \<rparr>] \<rparr>
         | Some m \<Rightarrow>
             (case new_item (case res of Some m' \<Rightarrow> m' | None \<Rightarrow> m) c of
                (c, a) \<Rightarrow> c\<lparr> ca_loaded := ca_loaded c @ [d\<lparr> dq_entity := Some a, dq_loaded := (res \<noteq> None) \<rparr>] \<rparr>))"

text \<open>The converter has written a record to the database: \<^verbatim>\<open>ManageConvertSession::handleBinaryRecord\<close>.\<close>

definition handle_binary_record :: "guid \<Rightarrow> u64 \<Rightarrow> 'm cache \<Rightarrow> 'm cache option" where
  "handle_binary_record g t c = map_option fst (xi_remove g t c)"

end
