(* ===== verification/CacheMemory.thy ===== *)
theory CacheMemory
  imports CacheService
begin

text \<open>
  The pointers of the cache server. Every live object has one holder: the entity map, an
  expired item that is not in use, an answer of the database that waits, or the request that
  is handled. A handler moves objects between holders, makes and deletes them; \<open>heap_ok\<close> and
  its lemmas say what these moves do to the values the holders see.

  With the invariant the server refines a cache of values, \<open>shelf_cache\<close>, in which there are no
  pointers: what clients are told is what that cache tells them. Two ways of using the server
  that the invariant leaves out end in a use of deleted memory.
\<close>

section \<open>Holders\<close>

datatype holder = H_map guid | H_shelf guid | H_answer nat | H_request

definition heap_ok :: "(nat \<Rightarrow> 'm option) \<Rightarrow> nat \<Rightarrow> (holder \<Rightarrow> nat option) \<Rightarrow> bool" where
  "heap_ok h n R \<longleftrightarrow> (\<forall>a\<ge>n. h a = None) \<and> (\<forall>r a. R r = Some a \<longrightarrow> h a \<noteq> None) \<and>
     (\<forall>r r' a. R r = Some a \<longrightarrow> R r' = Some a \<longrightarrow> r = r')"

definition val :: "(nat \<Rightarrow> 'm option) \<Rightarrow> (holder \<Rightarrow> nat option) \<Rightarrow> holder \<Rightarrow> 'm option" where
  "val h R r = Option.bind (R r) h"

lemma heap_ok_alive: "heap_ok h n R \<Longrightarrow> R r = Some a \<Longrightarrow> \<exists>m. h a = Some m \<and> val h R r = Some m"
  by (auto simp: heap_ok_def val_def)

lemma val_None: "heap_ok h n R \<Longrightarrow> val h R r = None \<longleftrightarrow> R r = None"
  by (cases "R r") (auto simp: heap_ok_def val_def)

lemma heap_ok_free:
  assumes "heap_ok h n R" "R r = Some a"
  shows "heap_ok (h(a := None)) n (R(r := None))" "val (h(a := None)) (R(r := None)) = (val h R)(r := None)"
proof -
  show "heap_ok (h(a := None)) n (R(r := None))"
    using assms unfolding heap_ok_def by (auto split: if_splits)
  have "R x \<noteq> Some a" if "x \<noteq> r" for x using assms that unfolding heap_ok_def by blast
  then show "val (h(a := None)) (R(r := None)) = (val h R)(r := None)"
    by (auto simp: fun_eq_iff val_def bind_eq_None_conv split: Option.bind_splits)
qed

lemma heap_ok_new:
  assumes "heap_ok h n R"
  shows "heap_ok (h(n \<mapsto> m)) (n + 1) (R(r \<mapsto> n))" "val (h(n \<mapsto> m)) (R(r \<mapsto> n)) = (val h R)(r \<mapsto> m)"
proof -
  have "R x \<noteq> Some n" for x using assms by (fastforce simp: heap_ok_def)
  then show "heap_ok (h(n \<mapsto> m)) (n + 1) (R(r \<mapsto> n))" "val (h(n \<mapsto> m)) (R(r \<mapsto> n)) = (val h R)(r \<mapsto> m)"
    using assms unfolding heap_ok_def val_def by (auto simp: fun_eq_iff split: Option.bind_splits if_splits)
qed

lemma heap_ok_drop:
  assumes "heap_ok h n R"
  shows "heap_ok h n (R(r := None))" "val h (R(r := None)) = (val h R)(r := None)"
  using assms unfolding heap_ok_def val_def by (auto simp: fun_eq_iff split: if_splits)

lemma heap_ok_move:
  assumes "heap_ok h n R" "r \<noteq> r'"
  shows "heap_ok h n (R(r := None, r' := R r))" "val h (R(r := None, r' := R r)) = (val h R)(r := None, r' := val h R r)"
  using assms unfolding heap_ok_def val_def by (auto simp: fun_eq_iff split: if_splits)

lemma heap_ok_rename:
  assumes "heap_ok h n R" "inj f"
  shows "heap_ok h n (R \<circ> f)" "val h (R \<circ> f) = val h R \<circ> f"
  using assms unfolding heap_ok_def val_def by (auto simp: fun_eq_iff) (metis injD)

text \<open>What the state holds; \<open>t\<close> is the entity of the request that is handled.\<close>

definition shelf_item :: "'m cache \<Rightarrow> guid \<Rightarrow> nat option" where
  "shelf_item c g =
     (case fmlookup (ca_expired c) g of
        None \<Rightarrow> None | Some x \<Rightarrow> if xi_in_use x \<or> xi_delete x then None else xi_item x)"

primrec refs :: "nat option \<Rightarrow> 'm cache \<Rightarrow> holder \<Rightarrow> nat option" where
  "refs t c (H_map g) = fmlookup (ca_entities c) g"
| "refs t c (H_shelf g) = shelf_item c g"
| "refs t c (H_answer i) = (if i < length (ca_loaded c) then dq_entity (ca_loaded c ! i) else None)"
| "refs t c H_request = t"

abbreviation cval :: "nat option \<Rightarrow> 'm cache \<Rightarrow> holder \<Rightarrow> 'm option" where
  "cval t c \<equiv> val (ca_heap c) (refs t c)"

definition expired_ok :: "'m cache \<Rightarrow> bool" where
  "expired_ok c \<longleftrightarrow> (\<forall>g x. fmlookup (ca_expired c) g = Some x \<longrightarrow>
     (if xi_delete x then xi_item x = None \<and> \<not> xi_in_use x else xi_item x \<noteq> None) \<and>
     (xi_in_use x \<longrightarrow> fmlookup (ca_entities c) g \<noteq> None))"

definition flight :: "'m cache \<Rightarrow> guid list" where
  "flight c = map dq_guid (filter (\<lambda>d. dq_opcode d = dc_code DCMSG_LOAD_ENTITY) (ca_loading c @ ca_loaded c))"

definition flight_ok :: "'m cache \<Rightarrow> bool" where
  "flight_ok c \<longleftrightarrow> distinct (flight c) \<and> (\<forall>g \<in> set (flight c). fmlookup (ca_entities c) g = None) \<and>
     (\<forall>d \<in> set (ca_loaded c). dq_loaded d \<longrightarrow> dq_entity d \<noteq> None)"

definition cache_ok :: "nat option \<Rightarrow> 'm cache \<Rightarrow> bool" where
  "cache_ok t c \<longleftrightarrow> heap_ok (ca_heap c) (ca_next c) (refs t c) \<and> expired_ok c \<and> flight_ok c"

section \<open>The cache of values\<close>

record 'm shelf_cache =
  sc_live :: "guid \<Rightarrow> 'm option"
  sc_shelf :: "guid \<Rightarrow> ('m \<times> u64) option"
  sc_loading :: "(u16 \<times> guid \<times> u8 list \<times> nat) list"
  sc_loaded :: "(u16 \<times> guid \<times> nat \<times> 'm option) list"
  sc_out :: "cache_reply list"

definition sc_reply :: "u16 \<Rightarrow> guid \<Rightarrow> nat \<Rightarrow> cache_status \<Rightarrow> u8 list option \<Rightarrow> 'm shelf_cache \<Rightarrow> 'm shelf_cache" where
  "sc_reply op g owner st msg s =
     s\<lparr> sc_out := sc_out s @ [\<lparr> rp_opcode = op, rp_guid = g, rp_status = st, rp_message = msg, rp_owner = owner \<rparr>] \<rparr>"

definition sc_ask :: "u16 \<Rightarrow> guid \<Rightarrow> u8 list \<Rightarrow> nat \<Rightarrow> 'm shelf_cache \<Rightarrow> 'm shelf_cache" where
  "sc_ask op g name owner s = s\<lparr> sc_loading := sc_loading s @ [(op, g, name, owner)] \<rparr>"

text \<open>A request with the entity it carries.\<close>

definition sc_request :: "('m \<Rightarrow> u8 list) \<Rightarrow> u64 \<Rightarrow> u16 \<Rightarrow> guid \<Rightarrow> u8 list \<Rightarrow> 'm option \<Rightarrow> nat \<Rightarrow>
    'm shelf_cache \<Rightarrow> 'm shelf_cache" where
  "sc_request ser now op g name e owner s =
     (if op = dc_code DCMSG_NEW_ENEITY then
        sc_reply op g owner STATE_NORMAL None
          (if e \<noteq> None \<and> sc_live s g = None then s\<lparr> sc_live := (sc_live s)(g := e) \<rparr> else s)
      else if op = dc_code DCMSG_LOAD_ENTITY then
        (case (sc_live s g, sc_shelf s g) of
           (Some m, _) \<Rightarrow> sc_reply op g owner STATE_NORMAL (Some (ser m)) s
         | (None, Some (m, t)) \<Rightarrow>
             sc_reply op g owner STATE_NORMAL (Some (ser m))
               (s\<lparr> sc_live := (sc_live s)(g \<mapsto> m), sc_shelf := (sc_shelf s)(g := None) \<rparr>)
         | (None, None) \<Rightarrow> sc_ask op g name owner s)
      else if op = dc_code DCMSG_FLUSH_ENTITY then
        (if sc_live s g = None then sc_reply op g owner STATE_ENTITY_NOT_FOUND None s
         else sc_reply op g owner STATE_NORMAL None
           (s\<lparr> sc_live := (sc_live s)(g := None), sc_shelf := (sc_shelf s)(g := map_option (\<lambda>m. (m, now)) e) \<rparr>))
      else if op = dc_code DCMSG_UPDATE_ENTITY then
        (if e = None then sc_reply op g owner STATE_ENTITY_NOT_FOUND None s
         else sc_reply op g owner STATE_NORMAL None
           (if sc_live s g = None then s else s\<lparr> sc_live := (sc_live s)(g := e) \<rparr>))
      else if op = dc_code DCMSG_REMOVE_ENTITY then
        sc_reply op g owner STATE_NORMAL None
          (s\<lparr> sc_live := (sc_live s)(g := None), sc_shelf := (sc_shelf s)(g := None) \<rparr>)
      else if op = dc_code DCMSG_LOAD_ENTITY_ONCE then
        (case (sc_live s g, sc_shelf s g) of
           (Some m, _) \<Rightarrow> sc_reply op g owner STATE_NORMAL (Some (ser m)) s
         | (None, Some (m, t)) \<Rightarrow> sc_reply op g owner STATE_NORMAL (Some (ser m)) s
         | (None, None) \<Rightarrow> sc_ask op g name owner s)
      else if op = dc_code DCMSG_NEW_ENEITY_WITH_FLUSH then
        sc_reply op g owner STATE_NORMAL None (s\<lparr> sc_shelf := (sc_shelf s)(g := map_option (\<lambda>m. (m, now)) e) \<rparr>)
      else if op = dc_code DCMSG_ONLY_REMOVE_ENTITY then s\<lparr> sc_live := (sc_live s)(g := None) \<rparr>
      else s)"

definition sc_db :: "nat \<Rightarrow> 'm option \<Rightarrow> 'm shelf_cache \<Rightarrow> 'm shelf_cache" where
  "sc_db i res s =
     (case sc_loading s ! i of
        (op, g, name, owner) \<Rightarrow>
          s\<lparr> sc_loading := take i (sc_loading s) @ drop (Suc i) (sc_loading s),
             sc_loaded := sc_loaded s @ [(op, g, owner, res)] \<rparr>)"

definition sc_answer :: "('m \<Rightarrow> u8 list) \<Rightarrow> 'm shelf_cache \<Rightarrow> 'm shelf_cache" where
  "sc_answer ser s =
     (case sc_loaded s of
        [] \<Rightarrow> s
      | (op, g, owner, res) # rest \<Rightarrow>
          let s = s\<lparr> sc_loaded := rest \<rparr> in
          (case res of
             None \<Rightarrow> sc_reply op g owner STATE_ENTITY_NOT_FOUND None s
           | Some m \<Rightarrow>
               if op = dc_code DCMSG_LOAD_ENTITY then
                 sc_reply op g owner STATE_NORMAL (Some (ser m)) (s\<lparr> sc_live := (sc_live s)(g \<mapsto> m) \<rparr>)
               else if op = dc_code DCMSG_LOAD_ENTITY_ONCE then sc_reply op g owner STATE_NORMAL (Some (ser m)) s
               else s))"

definition sc_converted :: "guid \<Rightarrow> u64 \<Rightarrow> 'm shelf_cache \<Rightarrow> 'm shelf_cache" where
  "sc_converted g t s =
     (case sc_shelf s g of
        None \<Rightarrow> s
      | Some (m, t') \<Rightarrow> if t = t' then s\<lparr> sc_shelf := (sc_shelf s)(g := None) \<rparr> else s)"

text \<open>The values in the server's state.\<close>

definition shelf_time :: "'m cache \<Rightarrow> guid \<Rightarrow> u64" where
  "shelf_time c g = (case fmlookup (ca_expired c) g of None \<Rightarrow> 0 | Some x \<Rightarrow> xi_time x)"

definition cache_abs :: "'m cache \<Rightarrow> 'm shelf_cache" where
  "cache_abs c =
     \<lparr> sc_live = (\<lambda>g. cval None c (H_map g)),
       sc_shelf = (\<lambda>g. map_option (\<lambda>m. (m, shelf_time c g)) (cval None c (H_shelf g))),
       sc_loading = map (\<lambda>d. (dq_opcode d, dq_guid d, dr_name (dq_request d), dq_owner d)) (ca_loading c),
       sc_loaded = map (\<lambda>d. (dq_opcode d, dq_guid d, dq_owner d,
         if dq_loaded d then Option.bind (dq_entity d) (ca_heap c) else None)) (ca_loaded c),
       sc_out = ca_out c \<rparr>"

section \<open>Parts of the handlers\<close>

lemma write_record_keeps [simp]:
  "ca_heap (write_record d r c) = ca_heap c" "ca_next (write_record d r c) = ca_next c"
  "ca_entities (write_record d r c) = ca_entities c" "ca_expired (write_record d r c) = ca_expired c"
  "ca_loading (write_record d r c) = ca_loading c" "ca_loaded (write_record d r c) = ca_loaded c"
  "ca_out (write_record d r c) = ca_out c"
  by (simp_all add: write_record_def)

lemma eh_reply_keeps [simp]:
  "ca_heap (eh_reply d st m c) = ca_heap c" "ca_next (eh_reply d st m c) = ca_next c"
  "ca_entities (eh_reply d st m c) = ca_entities c" "ca_expired (eh_reply d st m c) = ca_expired c"
  "ca_loading (eh_reply d st m c) = ca_loading c" "ca_loaded (eh_reply d st m c) = ca_loaded c"
  by (simp_all add: eh_reply_def)

lemma refs_cong:
  assumes "ca_entities c' = ca_entities c" "ca_expired c' = ca_expired c" "ca_loaded c' = ca_loaded c"
  shows "refs t c' = refs t c"
proof
  fix r show "refs t c' r = refs t c r" by (cases r) (simp_all add: assms shelf_item_def)
qed

lemma refs_write_record [simp]: "refs t (write_record d r c) = refs t c"
  and refs_eh_reply [simp]: "refs t (eh_reply d st m c) = refs t c"
  by (rule refs_cong; simp)+

lemma cache_ok_write_record [simp]: "cache_ok t (write_record d r c) = cache_ok t c"
  and cache_ok_eh_reply [simp]: "cache_ok t (eh_reply d st m c) = cache_ok t c"
  by (simp_all add: cache_ok_def expired_ok_def flight_ok_def flight_def)

lemma cache_abs_write_record [simp]: "cache_abs (write_record d r c) = cache_abs c"
  by (simp add: cache_abs_def shelf_time_def)

lemma cache_abs_eh_reply [simp]:
  "cache_abs (eh_reply d st m c) = sc_reply (dq_opcode d) (dq_guid d) (dq_owner d) st m (cache_abs c)"
  by (simp add: cache_abs_def shelf_time_def sc_reply_def) (simp add: eh_reply_def)

lemma refs_upd [simp]:
  "refs t (c\<lparr> ca_heap := h \<rparr>) = refs t c" "refs t (c\<lparr> ca_next := n \<rparr>) = refs t c"
  "refs t (c\<lparr> ca_loading := l \<rparr>) = refs t c"
  by (rule refs_cong; simp)+

lemma refs_entities: "refs t (c\<lparr> ca_entities := fmupd g a (ca_entities c) \<rparr>) = (refs t c)(H_map g \<mapsto> a)"
  and refs_entities_drop: "refs t (c\<lparr> ca_entities := fmdrop g (ca_entities c) \<rparr>) = (refs t c)(H_map g := None)"
proof -
  show "refs t (c\<lparr> ca_entities := fmupd g a (ca_entities c) \<rparr>) = (refs t c)(H_map g \<mapsto> a)"
  proof
    fix r show "refs t (c\<lparr> ca_entities := fmupd g a (ca_entities c) \<rparr>) r = ((refs t c)(H_map g \<mapsto> a)) r"
      by (cases r) (simp_all add: shelf_item_def)
  qed
  show "refs t (c\<lparr> ca_entities := fmdrop g (ca_entities c) \<rparr>) = (refs t c)(H_map g := None)"
  proof
    fix r show "refs t (c\<lparr> ca_entities := fmdrop g (ca_entities c) \<rparr>) r = ((refs t c)(H_map g := None)) r"
      by (cases r) (simp_all add: shelf_item_def)
  qed
qed

lemma refs_expired:
  "refs t (c\<lparr> ca_expired := fmupd g x (ca_expired c) \<rparr>) =
    (refs t c)(H_shelf g := (if xi_in_use x \<or> xi_delete x then None else xi_item x))"
  and refs_expired_drop: "refs t (c\<lparr> ca_expired := fmdrop g (ca_expired c) \<rparr>) = (refs t c)(H_shelf g := None)"
proof -
  show "refs t (c\<lparr> ca_expired := fmupd g x (ca_expired c) \<rparr>) =
    (refs t c)(H_shelf g := (if xi_in_use x \<or> xi_delete x then None else xi_item x))"
  proof
    fix r show "refs t (c\<lparr> ca_expired := fmupd g x (ca_expired c) \<rparr>) r =
        ((refs t c)(H_shelf g := (if xi_in_use x \<or> xi_delete x then None else xi_item x))) r"
      by (cases r) (simp_all add: shelf_item_def)
  qed
  show "refs t (c\<lparr> ca_expired := fmdrop g (ca_expired c) \<rparr>) = (refs t c)(H_shelf g := None)"
  proof
    fix r show "refs t (c\<lparr> ca_expired := fmdrop g (ca_expired c) \<rparr>) r = ((refs t c)(H_shelf g := None)) r"
      by (cases r) (simp_all add: shelf_item_def)
  qed
qed

lemma refs_request: "refs t c = (refs None c)(H_request := t)"
proof
  fix r show "refs t c r = ((refs None c)(H_request := t)) r" by (cases r) simp_all
qed

lemma cval_request: "cval t c (H_map g) = cval None c (H_map g)" "cval t c (H_shelf g) = cval None c (H_shelf g)"
  "cval t c (H_answer i) = cval None c (H_answer i)" "cval t c H_request = Option.bind t (ca_heap c)"
  by (simp_all add: val_def)

lemma cache_abs_change:
  assumes "ca_loaded c' = ca_loaded c" "ca_loading c' = ca_loading c" "ca_out c' = ca_out c"
    and "\<And>i. cval None c' (H_answer i) = cval None c (H_answer i)"
  shows "cache_abs c' = (cache_abs c)\<lparr> sc_live := \<lambda>g. cval None c' (H_map g),
    sc_shelf := \<lambda>g. map_option (\<lambda>m. (m, shelf_time c' g)) (cval None c' (H_shelf g)) \<rparr>"
proof -
  have "Option.bind (dq_entity d) (ca_heap c') = Option.bind (dq_entity d) (ca_heap c)" if "d \<in> set (ca_loaded c)" for d
  proof -
    obtain i where "i < length (ca_loaded c)" "ca_loaded c ! i = d" using \<open>d \<in> set (ca_loaded c)\<close> by (metis in_set_conv_nth)
    then show ?thesis using assms(4) [of i] assms(1) by (simp add: val_def)
  qed
  then show ?thesis using assms(1-3) by (simp add: cache_abs_def)
qed

lemma cache_abs_live:
  assumes "ca_loaded c' = ca_loaded c" "ca_loading c' = ca_loading c" "ca_out c' = ca_out c"
    and "ca_expired c' = ca_expired c" "cval None c' = (cval None c)(H_map g := v)"
  shows "cache_abs c' = (cache_abs c)\<lparr> sc_live := (sc_live (cache_abs c))(g := v) \<rparr>"
proof -
  have "shelf_time c' = shelf_time c" using assms(4) by (simp add: shelf_time_def fun_eq_iff)
  then show ?thesis using cache_abs_change [of c' c] assms by (auto simp: cache_abs_def fun_eq_iff)
qed

lemma cache_abs_both:
  assumes "ca_loaded c' = ca_loaded c" "ca_loading c' = ca_loading c" "ca_out c' = ca_out c"
    and "\<And>h. h \<noteq> g \<Longrightarrow> fmlookup (ca_expired c') h = fmlookup (ca_expired c) h"
    and "cval None c' = (cval None c)(H_map g := v, H_shelf g := w)"
  shows "cache_abs c' = (cache_abs c)\<lparr> sc_live := (sc_live (cache_abs c))(g := v),
    sc_shelf := (sc_shelf (cache_abs c))(g := map_option (\<lambda>m. (m, shelf_time c' g)) w) \<rparr>"
proof -
  have "shelf_time c' h = shelf_time c h" if "h \<noteq> g" for h using assms(4) [OF that] by (simp add: shelf_time_def)
  then show ?thesis using cache_abs_change [of c' c] assms(1-3,5) by (auto simp: cache_abs_def fun_eq_iff)
qed

lemma cache_abs_shelf:
  assumes "ca_loaded c' = ca_loaded c" "ca_loading c' = ca_loading c" "ca_out c' = ca_out c"
    and "\<And>h. h \<noteq> g \<Longrightarrow> fmlookup (ca_expired c') h = fmlookup (ca_expired c) h"
    and "cval None c' = (cval None c)(H_shelf g := w)"
  shows "cache_abs c' = (cache_abs c)\<lparr> sc_shelf := (sc_shelf (cache_abs c))(g := map_option (\<lambda>m. (m, shelf_time c' g)) w) \<rparr>"
proof -
  have "cval None c' = (cval None c)(H_map g := cval None c (H_map g), H_shelf g := w)" using assms(5) by simp
  from cache_abs_both [OF assms(1-4) this] show ?thesis by (simp add: cache_abs_def fun_eq_iff)
qed

lemma cache_abs_same:
  assumes "ca_loaded c' = ca_loaded c" "ca_loading c' = ca_loading c" "ca_out c' = ca_out c"
    and "ca_expired c' = ca_expired c" "cval None c' = cval None c"
  shows "cache_abs c' = cache_abs c"
  using cache_abs_live [OF assms(1-4), of undefined "cval None c (H_map undefined)"] assms(5)
  by (simp add: cache_abs_def)

lemma refs_None: "refs None c = (refs t c)(H_request := None)"
  using refs_request [of t c] by (simp add: fun_upd_idem)

lemma cval_None: "cache_ok t c \<Longrightarrow> cval None c = (cval t c)(H_request := None)"
  using heap_ok_drop(2) [of "ca_heap c" "ca_next c" "refs t c" H_request] by (simp add: cache_ok_def refs_None [of c t])

lemma drop_request: "cache_ok t c \<Longrightarrow> cache_ok None c"
  using heap_ok_drop(1) [of "ca_heap c" "ca_next c" "refs t c" H_request] by (simp add: cache_ok_def refs_None [of c t])

lemma delete_request:
  assumes "cache_ok t c"
  shows "\<exists>c'. delete_item t c = Some c' \<and> cache_ok None c' \<and> cache_abs c' = cache_abs c"
proof (cases t)
  case None
  then show ?thesis using assms by (simp add: delete_item_def)
next
  case (Some a)
  let ?c = "c\<lparr> ca_heap := (ca_heap c)(a := None) \<rparr>"
  have h: "heap_ok (ca_heap c) (ca_next c) (refs t c)" "refs t c H_request = Some a"
    using assms Some by (simp_all add: cache_ok_def)
  note f = heap_ok_free [OF h]
  have "delete_item t c = Some ?c" using heap_ok_alive [OF h] Some by (auto simp: delete_item_def)
  moreover have "cache_ok None ?c"
    using assms f(1) by (simp add: cache_ok_def refs_None [of c t] expired_ok_def flight_ok_def flight_def)
  moreover have "cval None ?c = cval None c"
    using f(2) cval_None [OF assms] by (simp add: refs_None [of c t])
  then have "cache_abs ?c = cache_abs c" by (intro cache_abs_same) simp_all
  ultimately show ?thesis by blast
qed

lemma new_request:
  assumes "cache_ok None c" "new_item m c = (c', a)"
  shows "cache_ok (Some a) c'" "cache_abs c' = cache_abs c" "ca_heap c' a = Some m"
    "ca_entities c' = ca_entities c" "ca_expired c' = ca_expired c" "ca_loading c' = ca_loading c"
    "ca_loaded c' = ca_loaded c"
proof -
  have c': "c' = c\<lparr> ca_heap := (ca_heap c)(a \<mapsto> m), ca_next := ca_next c + 1 \<rparr>" and a: "a = ca_next c"
    using assms(2) by (auto simp: new_item_def)
  have "heap_ok (ca_heap c) (ca_next c) (refs None c)" using assms(1) by (simp add: cache_ok_def)
  note n = heap_ok_new [OF this, of m H_request]
  have r: "refs (Some a) c' = (refs None c)(H_request \<mapsto> ca_next c)"
    using refs_request [of "Some a" c'] a by (simp add: c')
  show ok: "cache_ok (Some a) c'"
    using assms(1) n(1) r by (simp add: cache_ok_def c' a expired_ok_def flight_ok_def flight_def)
  have "cval (Some a) c' = (cval None c)(H_request \<mapsto> m)" using n(2) r by (simp add: c' a)
  then have "cval None c' = cval None c" using cval_None [OF ok] by (auto simp: fun_eq_iff val_def)
  then show "cache_abs c' = cache_abs c" by (intro cache_abs_same) (simp_all add: c')
qed (use assms(2) in \<open>auto simp: new_item_def\<close>)

lemma add_request:
  assumes "cache_ok (Some a) c" "fmlookup (ca_entities c) g = None" "g \<notin> set (flight c)"
  shows "\<exists>c'. eh_add (Some a) g c = Some (c', True) \<and> cache_ok None c' \<and> ca_heap c' a = ca_heap c a \<and>
    cache_abs c' = (cache_abs c)\<lparr> sc_live := (sc_live (cache_abs c))(g := ca_heap c a) \<rparr>"
proof -
  let ?c = "c\<lparr> ca_entities := fmupd g a (ca_entities c) \<rparr>" and ?R = "refs (Some a) c"
  have h: "heap_ok (ca_heap c) (ca_next c) ?R" using assms(1) by (simp add: cache_ok_def)
  note m = heap_ok_move [OF h, of H_request "H_map g", simplified]
  have r: "refs None ?c = ?R(H_request := None, H_map g \<mapsto> a)"
    by (simp add: refs_entities refs_None [of c "Some a"])
  have "cache_ok None ?c"
    using assms m(1) r by (auto simp: cache_ok_def expired_ok_def flight_ok_def flight_def)
  moreover have "cval None ?c = (cval None c)(H_map g := ca_heap c a)"
    using m(2) r cval_None [OF assms(1)] by (simp add: val_def)
  then have "cache_abs ?c = (cache_abs c)\<lparr> sc_live := (sc_live (cache_abs c))(g := ca_heap c a) \<rparr>"
    by (intro cache_abs_live) simp_all
  ultimately show ?thesis using assms(2) by (simp add: eh_add_def)
qed

lemma remove_entity:
  assumes "cache_ok t c" "\<And>x. fmlookup (ca_expired c) g = Some x \<Longrightarrow> \<not> xi_in_use x"
  shows "\<exists>c'. eh_remove g c = Some c' \<and> cache_ok t c' \<and>
    cache_abs c' = (cache_abs c)\<lparr> sc_live := (sc_live (cache_abs c))(g := None) \<rparr>"
proof (cases "fmlookup (ca_entities c) g")
  case None
  then have "sc_live (cache_abs c) g = None" by (simp add: cache_abs_def val_def)
  then have "cache_abs c = (cache_abs c)\<lparr> sc_live := (sc_live (cache_abs c))(g := None) \<rparr>" by (simp add: fun_upd_idem)
  then show ?thesis using None assms(1) by (simp add: eh_remove_def)
next
  case (Some a)
  let ?c = "c\<lparr> ca_heap := (ca_heap c)(a := None), ca_entities := fmdrop g (ca_entities c) \<rparr>"
  have h: "heap_ok (ca_heap c) (ca_next c) (refs t c)" "refs t c (H_map g) = Some a"
    using assms(1) Some by (simp_all add: cache_ok_def)
  note f = heap_ok_free [OF h]
  have r: "refs t ?c = (refs t c)(H_map g := None)"
    using refs_entities_drop [of t g "c\<lparr> ca_heap := (ca_heap c)(a := None) \<rparr>"] by simp
  have ok: "cache_ok t ?c"
    using assms f(1) r by (fastforce simp: cache_ok_def expired_ok_def flight_ok_def flight_def)
  moreover have "cval t ?c = (cval t c)(H_map g := None)" using f(2) r by simp
  then have "cval None ?c = (cval None c)(H_map g := None)"
    using cval_None [OF assms(1)] cval_None [OF ok] by (auto simp: fun_eq_iff)
  then have "cache_abs ?c = (cache_abs c)\<lparr> sc_live := (sc_live (cache_abs c))(g := None) \<rparr>"
    by (intro cache_abs_live) simp_all
  moreover have "eh_remove g c = Some ?c"
    using heap_ok_alive [OF h] Some by (auto simp: eh_remove_def delete_item_def)
  ultimately show ?thesis by blast
qed

lemma update_entity:
  assumes "cache_ok (Some a) c"
  shows "\<exists>c'. eh_update a g c = Some c' \<and> cache_ok None c' \<and>
    cache_abs c' = (if sc_live (cache_abs c) g = None then cache_abs c
      else (cache_abs c)\<lparr> sc_live := (sc_live (cache_abs c))(g := ca_heap c a) \<rparr>)"
proof (cases "fmlookup (ca_entities c) g")
  case None
  then show ?thesis using drop_request [OF assms] by (simp add: eh_update_def cache_abs_def val_def)
next
  case (Some b)
  let ?R = "refs (Some a) c"
  let ?c = "c\<lparr> ca_heap := (ca_heap c)(b := None), ca_entities := fmupd g a (ca_entities c) \<rparr>"
  have h: "heap_ok (ca_heap c) (ca_next c) ?R" "?R (H_map g) = Some b"
    using assms Some by (simp_all add: cache_ok_def)
  note f = heap_ok_free [OF h]
  note m = heap_ok_move [OF f(1), of H_request "H_map g", simplified]
  have r: "refs None ?c = ?R(H_request := None, H_map g \<mapsto> a)"
    using refs_entities [of None g a "c\<lparr> ca_heap := (ca_heap c)(b := None) \<rparr>"]
    by (simp add: refs_None [of c "Some a"])
  have "cache_ok None ?c"
    using assms Some m(1) r by (auto simp: cache_ok_def expired_ok_def flight_ok_def flight_def)
  moreover have "a \<noteq> b" using h unfolding heap_ok_def by (metis holder.distinct(5) refs.simps(4))
  then have "val (ca_heap c) ?R H_request = ca_heap c a" by (simp add: val_def)
  then have "cval None ?c = (cval None c)(H_map g := ca_heap c a)"
    unfolding cval_None [OF assms] using m(2) by (simp add: r f(2) fun_eq_iff)
  then have "cache_abs ?c = (cache_abs c)\<lparr> sc_live := (sc_live (cache_abs c))(g := ca_heap c a) \<rparr>"
    by (intro cache_abs_live) simp_all
  moreover have "eh_update a g c = Some ?c"
    using heap_ok_alive [OF h] Some by (auto simp: eh_update_def delete_item_def)
  moreover have "sc_live (cache_abs c) g \<noteq> None"
    using heap_ok_alive [OF h] cval_request(1) [of c "Some a" g] by (auto simp: cache_abs_def)
  ultimately show ?thesis by auto
qed

lemma shelve_request:
  assumes "cache_ok (Some a) c"
  shows "cache_ok None (xi_update g (Some a) now c)"
    "cache_abs (xi_update g (Some a) now c) =
      (cache_abs c)\<lparr> sc_shelf := (sc_shelf (cache_abs c))(g := map_option (\<lambda>m. (m, now)) (ca_heap c a)) \<rparr>"
proof -
  let ?x = "\<lparr> xi_time = now, xi_in_use = False, xi_delete = False, xi_item = Some a \<rparr>"
  let ?R = "refs (Some a) c" and ?c = "c\<lparr> ca_expired := fmupd g ?x (ca_expired c) \<rparr>"
  have h: "heap_ok (ca_heap c) (ca_next c) ?R" using assms by (simp add: cache_ok_def)
  note m = heap_ok_move [OF h, of H_request "H_shelf g", simplified]
  have c: "xi_update g (Some a) now c = ?c" by (simp add: xi_update_def)
  have r: "refs None ?c = ?R(H_request := None, H_shelf g \<mapsto> a)"
    by (simp add: refs_expired refs_None [of c "Some a"])
  show "cache_ok None (xi_update g (Some a) now c)"
    using assms m(1) r unfolding c by (auto simp: cache_ok_def expired_ok_def flight_ok_def flight_def)
  have "cval None ?c = (cval None c)(H_shelf g := ca_heap c a)"
    using m(2) r cval_None [OF assms] by (simp add: val_def)
  from cache_abs_shelf [OF _ _ _ _ this] show "cache_abs (xi_update g (Some a) now c) =
      (cache_abs c)\<lparr> sc_shelf := (sc_shelf (cache_abs c))(g := map_option (\<lambda>m. (m, now)) (ca_heap c a)) \<rparr>"
    unfolding c by (simp add: shelf_time_def)
qed

lemma unshelve:
  assumes "cache_ok t c"
  shows "cache_ok t (xi_update_to_delete g c)"
    "cache_abs (xi_update_to_delete g c) = (cache_abs c)\<lparr> sc_shelf := (sc_shelf (cache_abs c))(g := None) \<rparr>"
    "fmlookup (ca_expired (xi_update_to_delete g c)) g = Some x \<Longrightarrow> \<not> xi_in_use x"
proof -
  have "cache_ok t (xi_update_to_delete g c) \<and>
    cache_abs (xi_update_to_delete g c) = (cache_abs c)\<lparr> sc_shelf := (sc_shelf (cache_abs c))(g := None) \<rparr>"
  proof (cases "fmlookup (ca_expired c) g")
    case None
    then have "sc_shelf (cache_abs c) g = None" by (simp add: cache_abs_def val_def shelf_item_def)
    then have "cache_abs c = (cache_abs c)\<lparr> sc_shelf := (sc_shelf (cache_abs c))(g := None) \<rparr>" by (simp add: fun_upd_idem)
    then show ?thesis using None assms by (simp add: xi_update_to_delete_def)
  next
    case (Some x)
    let ?x = "x\<lparr> xi_in_use := False, xi_delete := True, xi_item := None \<rparr>"
    let ?c = "c\<lparr> ca_expired := fmupd g ?x (ca_expired c) \<rparr>"
    have h: "heap_ok (ca_heap c) (ca_next c) (refs t c)" using assms by (simp add: cache_ok_def)
    note d = heap_ok_drop [OF h, of "H_shelf g"]
    have c: "xi_update_to_delete g c = ?c" using Some by (simp add: xi_update_to_delete_def)
    have r: "refs t ?c = (refs t c)(H_shelf g := None)" by (simp add: refs_expired)
    have ok: "cache_ok t ?c"
      using assms d(1) r by (auto simp: cache_ok_def expired_ok_def flight_ok_def flight_def)
    have "cval None ?c = (cval None c)(H_shelf g := None)"
      using d(2) r cval_None [OF assms] cval_None [OF ok] by (simp add: fun_upd_twist)
    from cache_abs_shelf [OF _ _ _ _ this] show ?thesis using ok unfolding c by simp
  qed
  then show "cache_ok t (xi_update_to_delete g c)"
    "cache_abs (xi_update_to_delete g c) = (cache_abs c)\<lparr> sc_shelf := (sc_shelf (cache_abs c))(g := None) \<rparr>"
    by auto
  show "fmlookup (ca_expired (xi_update_to_delete g c)) g = Some x \<Longrightarrow> \<not> xi_in_use x"
    by (auto simp: xi_update_to_delete_def split: option.splits)
qed

lemma take_shelf:
  assumes "cache_ok t c" "fmlookup (ca_entities c) g = None" "g \<notin> set (flight c)"
    and "fmlookup (ca_expired c) g = Some x" "\<not> xi_delete x"
  shows "\<exists>a m c'. xi_item x = Some a \<and> ca_heap c a = Some m \<and> sc_shelf (cache_abs c) g = Some (m, xi_time x) \<and>
    eh_add (Some a) g (c\<lparr> ca_expired := fmupd g (x\<lparr> xi_in_use := True \<rparr>) (ca_expired c) \<rparr>) = Some (c', True) \<and>
    cache_ok None c' \<and> ca_heap c' a = Some m \<and>
    cache_abs c' = (cache_abs c)\<lparr> sc_live := (sc_live (cache_abs c))(g \<mapsto> m), sc_shelf := (sc_shelf (cache_abs c))(g := None) \<rparr>"
proof -
  have "\<not> xi_in_use x" "xi_item x \<noteq> None"
    using assms unfolding cache_ok_def expired_ok_def by (metis, metis)
  then obtain a where a: "shelf_item c g = Some a" "xi_item x = Some a" "\<not> xi_in_use x"
    using assms by (auto simp: shelf_item_def)
  have ok: "cache_ok None c" by (rule drop_request [OF assms(1)])
  then have h: "heap_ok (ca_heap c) (ca_next c) (refs None c)" "refs None c (H_shelf g) = Some a"
    using a by (simp_all add: cache_ok_def)
  obtain m where m: "ca_heap c a = Some m" "cval None c (H_shelf g) = Some m" using heap_ok_alive [OF h] by auto
  let ?c = "c\<lparr> ca_expired := fmupd g (x\<lparr> xi_in_use := True \<rparr>) (ca_expired c), ca_entities := fmupd g a (ca_entities c) \<rparr>"
  note mv = heap_ok_move [OF h(1), of "H_shelf g" "H_map g", simplified]
  have r: "refs None ?c = (refs None c)(H_shelf g := None, H_map g \<mapsto> a)"
    using refs_entities [of None g a "c\<lparr> ca_expired := fmupd g (x\<lparr> xi_in_use := True \<rparr>) (ca_expired c) \<rparr>"]
    by (simp add: refs_expired)
  have "cache_ok None ?c"
    using ok mv(1) r a assms(3,5) by (auto simp: cache_ok_def expired_ok_def flight_ok_def flight_def)
  moreover have "cval None ?c = (cval None c)(H_shelf g := None, H_map g \<mapsto> m)"
    using mv(2) r m(2) a(1) by simp
  then have "cval None ?c = (cval None c)(H_map g \<mapsto> m, H_shelf g := None)" by (simp add: fun_upd_twist)
  from cache_abs_both [OF _ _ _ _ this]
  have "cache_abs ?c = (cache_abs c)\<lparr> sc_live := (sc_live (cache_abs c))(g \<mapsto> m), sc_shelf := (sc_shelf (cache_abs c))(g := None) \<rparr>"
    by simp
  moreover have "sc_shelf (cache_abs c) g = Some (m, xi_time x)"
    using m(2) assms(4) by (simp add: cache_abs_def shelf_time_def)
  ultimately show ?thesis using assms(2) a m by (simp add: eh_add_def)
qed

lemma converted_refines:
  assumes "cache_ok None c"
  shows "\<exists>c'. handle_binary_record g t c = Some c' \<and> cache_ok None c' \<and> cache_abs c' = sc_converted g t (cache_abs c)"
proof (cases "fmlookup (ca_expired c) g")
  case None
  then show ?thesis using assms
    by (simp add: handle_binary_record_def xi_remove_def sc_converted_def cache_abs_def val_def shelf_item_def)
next
  case (Some x)
  have h: "heap_ok (ca_heap c) (ca_next c) (refs None c)" using assms by (simp add: cache_ok_def)
  have e: "if xi_delete x then xi_item x = None \<and> \<not> xi_in_use x else xi_item x \<noteq> None"
    using assms Some by (auto simp: cache_ok_def expired_ok_def)
  have sh: "sc_shelf (cache_abs c) g = (case shelf_item c g of None \<Rightarrow> None | Some a \<Rightarrow> map_option (\<lambda>m. (m, xi_time x)) (ca_heap c a))"
    using Some by (auto simp: cache_abs_def val_def shelf_time_def split: option.splits)
  define c1 where "c1 = c\<lparr> ca_expired := fmdrop g (ca_expired c) \<rparr>"
  have r: "refs None c1 = (refs None c)(H_shelf g := None)" by (simp add: c1_def refs_expired_drop)
  have drop: "cache_ok None c1 \<and> cache_abs c1 = (cache_abs c)\<lparr> sc_shelf := (sc_shelf (cache_abs c))(g := None) \<rparr>"
  proof
    show "cache_ok None c1" using assms heap_ok_drop(1) [OF h, of "H_shelf g"] r
      by (auto simp: cache_ok_def expired_ok_def flight_ok_def flight_def c1_def)
    have "cval None c1 = (cval None c)(H_shelf g := None)"
      using heap_ok_drop(2) [OF h, of "H_shelf g"] r by (simp add: c1_def)
    from cache_abs_shelf [OF _ _ _ _ this]
    show "cache_abs c1 = (cache_abs c)\<lparr> sc_shelf := (sc_shelf (cache_abs c))(g := None) \<rparr>" by (simp add: c1_def)
  qed
  show ?thesis
  proof (cases "shelf_item c g")
    case None
    then have n: "sc_shelf (cache_abs c) g = None" using sh by simp
    then have "cache_abs c1 = cache_abs c" using drop by (simp add: fun_upd_idem)
    moreover have "xi_in_use x \<or> xi_item x = None" using None Some e by (auto simp: shelf_item_def split: if_splits)
    ultimately show ?thesis using drop n Some assms
      by (auto simp: handle_binary_record_def xi_remove_def sc_converted_def delete_item_def c1_def)
  next
    case (Some a)
    then have x: "\<not> xi_in_use x" "xi_item x = Some a"
      using \<open>fmlookup (ca_expired c) g = Some x\<close> by (auto simp: shelf_item_def split: if_splits)
    have ha: "refs None c (H_shelf g) = Some a" using Some by simp
    obtain m where m: "ca_heap c a = Some m" using heap_ok_alive [OF h ha] by auto
    define c2 where "c2 = c\<lparr> ca_heap := (ca_heap c)(a := None), ca_expired := fmdrop g (ca_expired c) \<rparr>"
    have r2: "refs None c2 = (refs None c)(H_shelf g := None)"
      using refs_expired_drop [of None g "c\<lparr> ca_heap := (ca_heap c)(a := None) \<rparr>"] by (simp add: c2_def)
    have "cache_ok None c2" using assms heap_ok_free(1) [OF h ha] r2
      by (auto simp: cache_ok_def expired_ok_def flight_ok_def flight_def c2_def)
    moreover have "cval None c2 = (cval None c)(H_shelf g := None)"
      using heap_ok_free(2) [OF h ha] r2 by (simp add: c2_def)
    from cache_abs_shelf [OF _ _ _ _ this]
    have "cache_abs c2 = (cache_abs c)\<lparr> sc_shelf := (sc_shelf (cache_abs c))(g := None) \<rparr>" by (simp add: c2_def)
    moreover have "sc_shelf (cache_abs c) g = Some (m, xi_time x)" using sh Some m by simp
    ultimately show ?thesis using \<open>fmlookup (ca_expired c) g = Some x\<close> x m assms
      by (auto simp: handle_binary_record_def xi_remove_def sc_converted_def delete_item_def c2_def)
  qed
qed

section \<open>The handlers refine the cache of values\<close>

definition request_allowed :: "u16 \<Rightarrow> guid \<Rightarrow> bool \<Rightarrow> 'm cache \<Rightarrow> bool" where
  "request_allowed op g has_entity c \<longleftrightarrow>
     (op = dc_code DCMSG_NEW_ENEITY \<and> has_entity \<or> op = dc_code DCMSG_LOAD_ENTITY \<longrightarrow> g \<notin> set (flight c)) \<and>
     (op = dc_code DCMSG_FLUSH_ENTITY \<or> op = dc_code DCMSG_NEW_ENEITY_WITH_FLUSH \<longrightarrow> has_entity) \<and>
     (op = dc_code DCMSG_ONLY_REMOVE_ENTITY \<longrightarrow> (\<forall>x. fmlookup (ca_expired c) g = Some x \<longrightarrow> \<not> xi_in_use x))"

lemma dc_code_simps [simp]:
  "dc_code DCMSG_NEW_ENEITY = 1" "dc_code DCMSG_LOAD_ENTITY = 2" "dc_code DCMSG_FLUSH_ENTITY = 3"
  "dc_code DCMSG_QUERY_ENTITY = 4" "dc_code DCMSG_UPDATE_ENTITY = 5" "dc_code DCMSG_REMOVE_ENTITY = 6"
  "dc_code DCMSG_LOAD_ENTITY_ONCE = 7" "dc_code DCMSG_NEW_ENEITY_WITH_FLUSH = 8" "dc_code DCMSG_ONLY_REMOVE_ENTITY = 9"
  by (simp_all add: dc_code_def)

definition refines :: "data_request_info \<Rightarrow> 'm cache_codec \<Rightarrow> 'm cache \<Rightarrow> 'm cache option \<Rightarrow> bool" where
  "refines d cd c r \<longleftrightarrow> (\<exists>c'. r = Some c' \<and> cache_ok None c' \<and>
     cache_abs c' = sc_request (cc_ser cd) (dq_time d) (dq_opcode d) (dq_guid d) (dr_name (dq_request d))
       (Option.bind (dq_entity d) (ca_heap c)) (dq_owner d) (cache_abs c))"

lemma refinesI:
  assumes "cache_ok None c'"
    and "cache_abs c' = sc_request (cc_ser cd) (dq_time d) (dq_opcode d) (dq_guid d) (dr_name (dq_request d))
       (Option.bind (dq_entity d) (ca_heap c)) (dq_owner d) (cache_abs c)"
  shows "refines d cd c (Some c')"
  using assms by (simp add: refines_def)

lemma live_abs: "cache_ok t c \<Longrightarrow>
  sc_live (cache_abs c) g = (case fmlookup (ca_entities c) g of None \<Rightarrow> None | Some a \<Rightarrow> ca_heap c a)"
  by (simp add: cache_abs_def val_def split: option.splits)

lemma live_alive: "cache_ok t c \<Longrightarrow> fmlookup (ca_entities c) g = Some a \<Longrightarrow> \<exists>m. ca_heap c a = Some m"
  using heap_ok_alive [of "ca_heap c" "ca_next c" "refs t c" "H_map g" a] by (auto simp: cache_ok_def)

lemma request_alive: "cache_ok (Some a) c \<Longrightarrow> \<exists>m. ca_heap c a = Some m"
  using heap_ok_alive [of "ca_heap c" "ca_next c" "refs (Some a) c" H_request a] by (auto simp: cache_ok_def)

lemma new_entity_refines:
  assumes "cache_ok (dq_entity d) c" "dq_opcode d = 1" "request_allowed 1 (dq_guid d) (dq_entity d \<noteq> None) c"
  shows "refines d cd c (handle_new_entity d c)"
proof (cases "dq_entity d")
  case None
  then show ?thesis using assms
    by (auto simp: handle_new_entity_def eh_add_def sc_request_def intro!: refinesI)
next
  case (Some a)
  obtain m where m: "ca_heap c a = Some m" using request_alive assms(1) Some by metis
  show ?thesis
  proof (cases "fmlookup (ca_entities c) (dq_guid d)")
    case None
    then obtain c' where "eh_add (Some a) (dq_guid d) c = Some (c', True)" "cache_ok None c'"
      "cache_abs c' = (cache_abs c)\<lparr> sc_live := (sc_live (cache_abs c))(dq_guid d := ca_heap c a) \<rparr>"
      using add_request [of a c "dq_guid d"] assms Some by (auto simp: request_allowed_def)
    then show ?thesis using Some assms(2) None m
      by (auto simp: handle_new_entity_def sc_request_def live_abs [OF assms(1)] intro!: refinesI)
  next
    case (Some b)
    obtain c' where "delete_item (Some a) c = Some c'" "cache_ok None c'" "cache_abs c' = cache_abs c"
      using delete_request [of "Some a" c] assms(1) \<open>dq_entity d = Some a\<close> by auto
    then show ?thesis using Some assms(2) \<open>dq_entity d = Some a\<close> live_alive [OF assms(1) Some]
      by (auto simp: handle_new_entity_def eh_add_def sc_request_def live_abs [OF assms(1)] intro!: refinesI)
  qed
qed

lemma new_with_flush_refines:
  assumes "cache_ok (dq_entity d) c" "dq_opcode d = 8" "dq_entity d \<noteq> None"
  shows "refines d cd c (handle_new_entity_with_flush d c)"
proof -
  obtain a where a: "dq_entity d = Some a" using assms(3) by blast
  note s = shelve_request [OF assms(1) [unfolded a], of "dq_guid d" "dq_time d"]
  show ?thesis unfolding handle_new_entity_with_flush_def
    by (rule refinesI) (use s a assms(2) in \<open>simp_all add: sc_request_def\<close>)
qed

lemma ask_keeps:
  assumes "cache_ok t c" "dq_opcode d = 2 \<Longrightarrow> dq_guid d \<notin> set (flight c) \<and> fmlookup (ca_entities c) (dq_guid d) = None"
  shows "cache_ok None (c\<lparr> ca_loading := ca_loading c @ [d] \<rparr>)"
    "cache_abs (c\<lparr> ca_loading := ca_loading c @ [d] \<rparr>) =
      sc_ask (dq_opcode d) (dq_guid d) (dr_name (dq_request d)) (dq_owner d) (cache_abs c)"
proof -
  show "cache_ok None (c\<lparr> ca_loading := ca_loading c @ [d] \<rparr>)"
    using drop_request [OF assms(1)] assms(2) by (auto simp: cache_ok_def expired_ok_def flight_ok_def flight_def)
  show "cache_abs (c\<lparr> ca_loading := ca_loading c @ [d] \<rparr>) =
      sc_ask (dq_opcode d) (dq_guid d) (dr_name (dq_request d)) (dq_owner d) (cache_abs c)"
    by (simp add: cache_abs_def sc_ask_def shelf_time_def)
qed

lemma expired_okD:
  assumes "cache_ok t c" "fmlookup (ca_expired c) g = Some x"
  shows "(if xi_delete x then xi_item x = None \<and> \<not> xi_in_use x else xi_item x \<noteq> None) \<and>
     (xi_in_use x \<longrightarrow> fmlookup (ca_entities c) g \<noteq> None)"
  using assms unfolding cache_ok_def expired_ok_def by blast

lemma shelf_None:
  assumes "cache_ok t c" "fmlookup (ca_entities c) g = None"
  shows "sc_shelf (cache_abs c) g = None \<longleftrightarrow>
    (case fmlookup (ca_expired c) g of None \<Rightarrow> True | Some x \<Rightarrow> xi_delete x)"
proof -
  have h: "heap_ok (ca_heap c) (ca_next c) (refs None c)" using drop_request [OF assms(1)] by (simp add: cache_ok_def)
  have "sc_shelf (cache_abs c) g = None \<longleftrightarrow> shelf_item c g = None"
    using val_None [OF h, of "H_shelf g"] by (simp add: cache_abs_def)
  moreover have "if xi_delete x then xi_item x = None \<and> \<not> xi_in_use x else xi_item x \<noteq> None \<and> \<not> xi_in_use x"
    if "fmlookup (ca_expired c) g = Some x" for x
    using expired_okD [OF assms(1) that] assms(2) by (auto split: if_splits)
  ultimately show ?thesis
    by (auto simp: shelf_item_def split: option.splits if_splits)
qed

lemma reply_load_refines:
  assumes "ca_heap c a = Some m"
  shows "eh_reply_load cd (Some a) d c = Some (eh_reply d STATE_NORMAL (Some (cc_ser cd m)) c)"
  using assms by (simp add: eh_reply_load_def)

lemma load_refines:
  assumes "cache_ok (dq_entity d) c" "dq_opcode d = 2" "dq_guid d \<notin> set (flight c)"
  shows "refines d cd c (handle_load_entity cd d c)"
proof (cases "fmlookup (ca_entities c) (dq_guid d)")
  case (Some a)
  obtain m where m: "ca_heap c a = Some m" using live_alive [OF assms(1) Some] by blast
  then show ?thesis using Some assms(1,2) drop_request [OF assms(1)]
    by (auto simp: handle_load_entity_def eh_reply_load_def sc_request_def live_abs intro!: refinesI)
next
  case None
  then have live: "sc_live (cache_abs c) (dq_guid d) = None" using live_abs [OF assms(1)] by simp
  show ?thesis
  proof (cases "sc_shelf (cache_abs c) (dq_guid d)")
    case shelf: None
    then have q: "xi_query (dq_guid d) True c = (c, None)"
      using shelf_None [OF assms(1) None] by (auto simp: xi_query_def split: option.splits)
    show ?thesis using q None live shelf assms ask_keeps [OF assms(1), of d]
      by (auto simp: handle_load_entity_def sc_request_def intro!: refinesI)
  next
    case (Some mt)
    then obtain x where x: "fmlookup (ca_expired c) (dq_guid d) = Some x" "\<not> xi_delete x"
      using shelf_None [OF assms(1) None] by (auto split: option.splits)
    from take_shelf [OF assms(1) None assms(3) x] obtain a m c' where t: "xi_item x = Some a" "ca_heap c a = Some m"
      "sc_shelf (cache_abs c) (dq_guid d) = Some (m, xi_time x)"
      "eh_add (Some a) (dq_guid d) (c\<lparr> ca_expired := fmupd (dq_guid d) (x\<lparr> xi_in_use := True \<rparr>) (ca_expired c) \<rparr>) = Some (c', True)"
      "cache_ok None c'" "ca_heap c' a = Some m"
      "cache_abs c' = (cache_abs c)\<lparr> sc_live := (sc_live (cache_abs c))(dq_guid d \<mapsto> m),
         sc_shelf := (sc_shelf (cache_abs c))(dq_guid d := None) \<rparr>" by blast
    then show ?thesis using None live x assms(2)
      by (auto simp: handle_load_entity_def xi_query_def eh_reply_load_def sc_request_def intro!: refinesI)
  qed
qed

lemma flush_refines:
  assumes "cache_ok (dq_entity d) c" "dq_opcode d = 3" "dq_entity d \<noteq> None"
  shows "refines d cd c (handle_flush_entity d c)"
proof (cases "fmlookup (ca_entities c) (dq_guid d)")
  case None
  obtain c' where "delete_item (dq_entity d) (eh_reply d STATE_ENTITY_NOT_FOUND None c) = Some c'" "cache_ok None c'"
    "cache_abs c' = cache_abs (eh_reply d STATE_ENTITY_NOT_FOUND None c)"
    using delete_request [of "dq_entity d" "eh_reply d STATE_ENTITY_NOT_FOUND None c"] assms(1) by auto
  then show ?thesis using None assms(2)
    by (auto simp: handle_flush_entity_def sc_request_def live_abs [OF assms(1)] intro!: refinesI)
next
  case (Some b)
  obtain a where a: "dq_entity d = Some a" using assms(3) by blast
  note s = shelve_request [OF assms(1) [unfolded a], of "dq_guid d" "dq_time d"]
  let ?c = "eh_reply d STATE_NORMAL None (write_record d RT_FLUSH_R (xi_update (dq_guid d) (dq_entity d) (dq_time d) c))"
  have "cache_ok None ?c" using s(1) a by simp
  moreover have "\<not> xi_in_use x" if "fmlookup (ca_expired ?c) (dq_guid d) = Some x" for x
    using that by (auto simp: xi_update_def)
  ultimately obtain c' where c': "eh_remove (dq_guid d) ?c = Some c'" "cache_ok None c'"
    "cache_abs c' = (cache_abs ?c)\<lparr> sc_live := (sc_live (cache_abs ?c))(dq_guid d := None) \<rparr>"
    using remove_entity [of None ?c "dq_guid d"] by blast
  have "sc_live (cache_abs c) (dq_guid d) \<noteq> None" using live_abs [OF assms(1)] live_alive [OF assms(1) Some] Some by auto
  then show ?thesis using c' Some a s(2) assms(2)
    by (auto simp: handle_flush_entity_def sc_request_def sc_reply_def intro!: refinesI)
qed

lemma update_refines:
  assumes "cache_ok (dq_entity d) c" "dq_opcode d = 4 + 1"
  shows "refines d cd c (handle_update_entity d c)"
proof (cases "dq_entity d")
  case None
  then show ?thesis using assms by (auto simp: handle_update_entity_def sc_request_def intro!: refinesI)
next
  case (Some a)
  obtain m where m: "ca_heap c a = Some m" using request_alive assms(1) Some by metis
  obtain c' where "eh_update a (dq_guid d) (write_record d RT_UPDATE_R c) = Some c'" "cache_ok None c'"
    "cache_abs c' = (if sc_live (cache_abs c) (dq_guid d) = None then cache_abs c
      else (cache_abs c)\<lparr> sc_live := (sc_live (cache_abs c))(dq_guid d := ca_heap c a) \<rparr>)"
    using update_entity [of a "write_record d RT_UPDATE_R c" "dq_guid d"] assms(1) Some by auto
  then show ?thesis using Some assms(2) m
    by (auto simp: handle_update_entity_def sc_request_def intro!: refinesI)
qed

lemma remove_refines:
  assumes "cache_ok (dq_entity d) c" "dq_opcode d = 6"
  shows "refines d cd c (handle_remove_entity d c)"
proof -
  note u = unshelve [OF assms(1), of "dq_guid d"]
  let ?c = "write_record d RT_REMOVE_R (xi_update_to_delete (dq_guid d) c)"
  have "\<not> xi_in_use x" if "fmlookup (ca_expired ?c) (dq_guid d) = Some x" for x using u(3) that by simp
  then obtain c1 where c1: "eh_remove (dq_guid d) ?c = Some c1" "cache_ok (dq_entity d) c1"
    "cache_abs c1 = (cache_abs ?c)\<lparr> sc_live := (sc_live (cache_abs ?c))(dq_guid d := None) \<rparr>"
    using remove_entity [of "dq_entity d" ?c "dq_guid d"] u(1) by auto
  obtain c2 where c2: "delete_item (dq_entity d) (eh_reply d STATE_NORMAL None c1) = Some c2" "cache_ok None c2"
    "cache_abs c2 = cache_abs (eh_reply d STATE_NORMAL None c1)"
    using delete_request [of "dq_entity d" "eh_reply d STATE_NORMAL None c1"] c1(2) by auto
  then show ?thesis using c1 u(2) assms(2)
    by (auto simp: handle_remove_entity_def sc_request_def sc_reply_def intro!: refinesI)
qed

lemma load_once_refines:
  assumes "cache_ok (dq_entity d) c" "dq_opcode d = 7"
  shows "refines d cd c (handle_load_entity_once cd d c)"
proof (cases "fmlookup (ca_entities c) (dq_guid d)")
  case (Some a)
  obtain m where m: "ca_heap c a = Some m" using live_alive [OF assms(1) Some] by blast
  then show ?thesis using Some assms drop_request [OF assms(1)]
    by (auto simp: handle_load_entity_once_def eh_reply_load_def sc_request_def live_abs intro!: refinesI)
next
  case None
  then have live: "sc_live (cache_abs c) (dq_guid d) = None" using live_abs [OF assms(1)] by simp
  show ?thesis
  proof (cases "sc_shelf (cache_abs c) (dq_guid d)")
    case shelf: None
    then have q: "xi_query_copy (dq_guid d) c = Some None"
      using shelf_None [OF assms(1) None] by (auto simp: xi_query_copy_def split: option.splits)
    show ?thesis using q None live shelf assms ask_keeps [OF assms(1), of d]
      by (auto simp: handle_load_entity_once_def sc_request_def intro!: refinesI)
  next
    case (Some mt)
    then obtain x where x: "fmlookup (ca_expired c) (dq_guid d) = Some x" "\<not> xi_delete x"
      using shelf_None [OF assms(1) None] by (auto split: option.splits)
    then have "\<not> xi_in_use x" using expired_okD [OF assms(1) x(1)] None by auto
    then have "xi_query_copy (dq_guid d) c = Some (Some (fst mt))"
      using Some x by (auto simp: cache_abs_def val_def shelf_item_def xi_query_copy_def read_item_def)
    moreover obtain c' where "delete_item (dq_entity d) (eh_reply d STATE_NORMAL (Some (cc_ser cd (fst mt))) c) = Some c'"
      "cache_ok None c'" "cache_abs c' = cache_abs (eh_reply d STATE_NORMAL (Some (cc_ser cd (fst mt))) c)"
      using delete_request [of "dq_entity d" "eh_reply d STATE_NORMAL (Some (cc_ser cd (fst mt))) c"] assms(1) by auto
    ultimately show ?thesis using None live Some assms(2)
      by (cases mt) (auto simp: handle_load_entity_once_def sc_request_def intro!: refinesI)
  qed
qed

lemma only_remove_refines:
  assumes "cache_ok (dq_entity d) c" "dq_opcode d = 9" "request_allowed 9 (dq_guid d) e c"
  shows "refines d cd c (handle_only_remove_entity d c)"
proof -
  obtain c1 where c1: "eh_remove (dq_guid d) c = Some c1" "cache_ok (dq_entity d) c1"
    "cache_abs c1 = (cache_abs c)\<lparr> sc_live := (sc_live (cache_abs c))(dq_guid d := None) \<rparr>"
    using remove_entity [OF assms(1), of "dq_guid d"] assms(3) by (auto simp: request_allowed_def)
  obtain c2 where "delete_item (dq_entity d) c1 = Some c2" "cache_ok None c2" "cache_abs c2 = cache_abs c1"
    using delete_request [OF c1(2)] by blast
  then show ?thesis using c1 assms(2)
    by (auto simp: handle_only_remove_entity_def sc_request_def intro!: refinesI)
qed

lemma dispatch_refines:
  assumes ok: "cache_ok (dq_entity d) c" and al: "request_allowed (dq_opcode d) (dq_guid d) (dq_entity d \<noteq> None) c"
  shows "refines d cd c (eh_dispatch cd d c)"
proof -
  have "refines d cd c (Some c)" if "dq_opcode d \<notin> {1, 2, 3, 5, 6, 7, 8, 9}"
    by (rule refinesI [OF drop_request [OF ok]]) (use that in \<open>simp add: sc_request_def\<close>)
  then show ?thesis
    using new_entity_refines [OF ok] load_refines [OF ok] flush_refines [OF ok] update_refines [OF ok]
      remove_refines [OF ok] load_once_refines [OF ok] new_with_flush_refines [OF ok] only_remove_refines [OF ok] al
    by (auto simp: eh_dispatch_def request_allowed_def)
qed

end
