(* ===== verification/CacheRuns.thy ===== *)
theory CacheRuns
  imports CacheMemory "HOL-Library.Multiset"
begin

text \<open>
  The cache server run by its threads: packets are handled, threads load from the database, the
  answers are handled, the converter reports what it has written. Run within the rules stated
  by \<open>cache_allowed\<close> it never touches deleted memory and answers as the cache of values does;
  outside of them it does not.
\<close>

section \<open>Answers of the database\<close>

lemma db_load_refines:
  assumes ok: "cache_ok None c" and i: "i < length (ca_loading c)"
  shows "cache_ok None (db_load_request cd i res c)"
    "cache_abs (db_load_request cd i res c) =
      (case ca_loading c ! i of d \<Rightarrow>
        sc_db i (if cc_create cd (dq_guid d) (dr_name (dq_request d)) = None then None else res) (cache_abs c))"
proof -
  define d where "d = ca_loading c ! i"
  define n where "n = length (ca_loaded c)"
  define rest where "rest = take i (ca_loading c) @ drop (Suc i) (ca_loading c)"
  define made where "made = cc_create cd (dq_guid d) (dr_name (dq_request d))"
  have split: "ca_loading c = take i (ca_loading c) @ d # drop (Suc i) (ca_loading c)"
    using id_take_nth_drop [OF i] by (simp add: d_def)
  define loaded where "loaded = (made \<noteq> None \<and> res \<noteq> None)"
  define v where "v = (case made of None \<Rightarrow> None | Some m \<Rightarrow> Some (case res of Some m' \<Rightarrow> m' | None \<Rightarrow> m))"
  define e where "e = (if made = None then None else Some (ca_next c))"
  define c' where "c' = c\<lparr> ca_heap := (case v of None \<Rightarrow> ca_heap c | Some m \<Rightarrow> (ca_heap c)(ca_next c \<mapsto> m)),
    ca_next := (if made = None then ca_next c else ca_next c + 1), ca_loading := rest,
    ca_loaded := ca_loaded c @ [d\<lparr> dq_entity := e, dq_loaded := loaded \<rparr>] \<rparr>"
  have c': "db_load_request cd i res c = c'"
    by (cases made) (auto simp: db_load_request_def Let_def d_def [symmetric] made_def [symmetric] c'_def new_item_def
        rest_def [symmetric] e_def loaded_def v_def)
  have h: "heap_ok (ca_heap c) (ca_next c) (refs None c)" using ok by (simp add: cache_ok_def)
  have r: "refs None c' = (refs None c)(H_answer n := e)"
  proof
    fix x show "refs None c' x = ((refs None c)(H_answer n := e)) x"
      by (cases x) (auto simp: c'_def n_def shelf_item_def nth_append)
  qed
  have heap: "heap_ok (ca_heap c') (ca_next c') (refs None c') \<and> cval None c' = (cval None c)(H_answer n := v)"
  proof (cases made)
    case None
    then show ?thesis using heap_ok_drop [OF h, of "H_answer n"] r by (simp add: c'_def e_def v_def)
  next
    case (Some m)
    then show ?thesis using heap_ok_new [OF h, of _ "H_answer n"] r by (simp add: c'_def e_def v_def)
  qed
  moreover have "flight_ok c'"
  proof -
    obtain xs ys where "ca_loading c = xs @ d # ys" "rest = xs @ ys" using split rest_def by blast
    then have m: "mset (flight c') = mset (flight c)" by (simp add: flight_def c'_def)
    have e: "ca_entities c' = ca_entities c" by (simp add: c'_def)
    have "\<forall>x \<in> set (ca_loaded c'). dq_loaded x \<longrightarrow> dq_entity x \<noteq> None"
      using ok by (auto simp: c'_def cache_ok_def flight_ok_def loaded_def e_def)
    moreover have "flight_ok c" using ok by (simp add: cache_ok_def)
    ultimately show ?thesis
      unfolding flight_ok_def e mset_eq_setD [OF m] mset_eq_imp_distinct_iff [OF m] by blast
  qed
  moreover have "expired_ok c'" using ok by (simp add: cache_ok_def expired_ok_def c'_def)
  ultimately show "cache_ok None (db_load_request cd i res c)" unfolding c' by (simp add: cache_ok_def)
  have old: "Option.bind (dq_entity x) (ca_heap c') = Option.bind (dq_entity x) (ca_heap c)" if x: "x \<in> set (ca_loaded c)" for x
  proof -
    obtain j where j: "j < n" "ca_loaded c ! j = x" using x unfolding in_set_conv_nth n_def by blast
    have "a \<noteq> ca_next c" if "dq_entity x = Some a" for a
      using heap_ok_alive [OF h, of "H_answer j" a] h j that by (auto simp: n_def heap_ok_def)
    then show ?thesis by (cases "dq_entity x") (auto simp: c'_def split: option.splits)
  qed
  have new: "Option.bind e (ca_heap c') = v" by (simp add: e_def v_def c'_def split: option.splits)
  have maps: "cval None c' (H_map g) = cval None c (H_map g)" "cval None c' (H_shelf g) = cval None c (H_shelf g)" for g
    using heap by simp_all
  show "cache_abs (db_load_request cd i res c) =
      (case ca_loading c ! i of d \<Rightarrow>
        sc_db i (if cc_create cd (dq_guid d) (dr_name (dq_request d)) = None then None else res) (cache_abs c))"
    unfolding c'
    using i old new maps
    by (auto simp: cache_abs_def sc_db_def d_def [symmetric] made_def [symmetric] shelf_time_def c'_def rest_def loaded_def v_def
        take_map drop_map split: option.splits)
qed

definition eh_answer :: "'m cache_codec \<Rightarrow> 'm cache \<Rightarrow> 'm cache option" where
  "eh_answer cd c =
     (case ca_loaded c of [] \<Rightarrow> Some c | d # ds \<Rightarrow> handle_db_load cd d (c\<lparr> ca_loaded := ds \<rparr>))"

lemma take_answer:
  assumes ok: "cache_ok None c" and l: "ca_loaded c = d # ds"
  shows "cache_ok (dq_entity d) (c\<lparr> ca_loaded := ds \<rparr>)"
    "cache_abs (c\<lparr> ca_loaded := ds \<rparr>) = (cache_abs c)\<lparr> sc_loaded := tl (sc_loaded (cache_abs c)) \<rparr>"
    "dq_opcode d = 2 \<Longrightarrow> fmlookup (ca_entities c) (dq_guid d) = None \<and> dq_guid d \<notin> set (flight (c\<lparr> ca_loaded := ds \<rparr>))"
proof -
  let ?c = "c\<lparr> ca_loaded := ds \<rparr>"
  define f where "f x = (case x of H_answer i \<Rightarrow> H_answer (i + 1) | H_request \<Rightarrow> H_answer 0 | _ \<Rightarrow> x)" for x
  have inj: "inj f" by (auto simp: inj_def f_def split: holder.splits)
  have r: "refs (dq_entity d) ?c = refs None c \<circ> f"
  proof
    fix x show "refs (dq_entity d) ?c x = (refs None c \<circ> f) x"
      by (cases x) (auto simp: f_def l shelf_item_def)
  qed
  have h: "heap_ok (ca_heap c) (ca_next c) (refs None c)" using ok by (simp add: cache_ok_def)
  note n = heap_ok_rename [OF h inj]
  show "cache_ok (dq_entity d) ?c"
    using ok n(1) r l by (auto simp: cache_ok_def expired_ok_def flight_ok_def flight_def split: if_splits)
  have v: "cval None ?c (H_map g) = cval None c (H_map g)" "cval None ?c (H_shelf g) = cval None c (H_shelf g)" for g
    by (simp_all add: val_def shelf_item_def)
  show "cache_abs ?c = (cache_abs c)\<lparr> sc_loaded := tl (sc_loaded (cache_abs c)) \<rparr>"
    using l v by (simp add: cache_abs_def shelf_time_def)
  show "dq_opcode d = 2 \<Longrightarrow> fmlookup (ca_entities c) (dq_guid d) = None \<and> dq_guid d \<notin> set (flight ?c)"
    using ok l by (auto simp: cache_ok_def flight_ok_def flight_def)
qed

lemma answer_refines:
  assumes ok: "cache_ok None c"
  shows "\<exists>c'. eh_answer cd c = Some c' \<and> cache_ok None c' \<and> cache_abs c' = sc_answer (cc_ser cd) (cache_abs c)"
proof (cases "ca_loaded c")
  case Nil
  then show ?thesis using ok by (simp add: eh_answer_def sc_answer_def cache_abs_def)
next
  case (Cons d ds)
  define c1 where "c1 = c\<lparr> ca_loaded := ds \<rparr>"
  note t = take_answer [OF ok Cons, folded c1_def]
  have same: "ca_heap c1 = ca_heap c" "ca_entities c1 = ca_entities c" by (simp_all add: c1_def)
  have hd: "sc_loaded (cache_abs c) = (dq_opcode d, dq_guid d, dq_owner d,
      if dq_loaded d then Option.bind (dq_entity d) (ca_heap c1) else None) # tl (sc_loaded (cache_abs c))"
    using Cons by (simp add: cache_abs_def same)
  have ans: "sc_answer (cc_ser cd) (cache_abs c) =
      (case (if dq_loaded d then Option.bind (dq_entity d) (ca_heap c1) else None) of
         None \<Rightarrow> sc_reply (dq_opcode d) (dq_guid d) (dq_owner d) STATE_ENTITY_NOT_FOUND None (cache_abs c1)
       | Some m \<Rightarrow>
           if dq_opcode d = 2 then
             sc_reply (dq_opcode d) (dq_guid d) (dq_owner d) STATE_NORMAL (Some (cc_ser cd m))
               ((cache_abs c1)\<lparr> sc_live := (sc_live (cache_abs c1))(dq_guid d \<mapsto> m) \<rparr>)
           else if dq_opcode d = 7 then
             sc_reply (dq_opcode d) (dq_guid d) (dq_owner d) STATE_NORMAL (Some (cc_ser cd m)) (cache_abs c1)
           else cache_abs c1)"
    unfolding sc_answer_def by (subst hd) (simp add: t(2) Let_def split: option.splits)
  have "eh_answer cd c = handle_db_load cd d c1" by (simp add: eh_answer_def Cons c1_def)
  moreover have "\<exists>c'. handle_db_load cd d c1 = Some c' \<and> cache_ok None c' \<and> cache_abs c' = sc_answer (cc_ser cd) (cache_abs c)"
  proof (cases "dq_loaded d")
    case False
    then show ?thesis
      using delete_request [of "dq_entity d" "eh_reply d STATE_ENTITY_NOT_FOUND None c1"] t(1)
      by (auto simp: handle_db_load_def ans)
  next
    case True
    then obtain a where a: "dq_entity d = Some a" using ok Cons by (auto simp: cache_ok_def flight_ok_def)
    obtain m where m: "ca_heap c1 a = Some m" using request_alive t(1) a by metis
    show ?thesis
    proof (cases "dq_opcode d = 2")
      case load: True
      then have "fmlookup (ca_entities c1) (dq_guid d) = None" "dq_guid d \<notin> set (flight c1)"
        using t(3) same by auto
      from add_request [OF t(1) [unfolded a] this] obtain c2 where
        "eh_add (Some a) (dq_guid d) c1 = Some (c2, True)" "cache_ok None c2" "ca_heap c2 a = ca_heap c1 a"
        "cache_abs c2 = (cache_abs c1)\<lparr> sc_live := (sc_live (cache_abs c1))(dq_guid d := ca_heap c1 a) \<rparr>" by blast
      then show ?thesis using True load a m by (auto simp: handle_db_load_def ans eh_reply_load_def)
    next
      case once: False
      show ?thesis
      proof (cases "dq_opcode d = 7")
        case True
        obtain c2 where "delete_item (Some a) (eh_reply d STATE_NORMAL (Some (cc_ser cd m)) c1) = Some c2" "cache_ok None c2"
          "cache_abs c2 = cache_abs (eh_reply d STATE_NORMAL (Some (cc_ser cd m)) c1)"
          using delete_request [of "Some a" "eh_reply d STATE_NORMAL (Some (cc_ser cd m)) c1"] t(1) a by auto
        then show ?thesis using True \<open>dq_loaded d\<close> a m by (auto simp: handle_db_load_def ans eh_reply_load_def)
      next
        case False
        then show ?thesis using once \<open>dq_loaded d\<close> a m delete_request [OF t(1)] by (auto simp: handle_db_load_def ans)
      qed
    qed
  qed
  ultimately show ?thesis by simp
qed

section \<open>Runs\<close>

datatype 'm cache_event = Ca_packet u64 packet | Ca_db nat "'m option" | Ca_answer | Ca_converted guid u64

text \<open>\<open>None\<close> is a server that has touched deleted memory.\<close>

fun cache_event_step :: "'m cache_codec \<Rightarrow> 'm cache_event \<Rightarrow> 'm cache \<Rightarrow> 'm cache option" where
  "cache_event_step cd (Ca_packet now pk) c = eh_handle_packet cd now pk c"
| "cache_event_step cd (Ca_db i res) c = Some (db_load_request cd i res c)"
| "cache_event_step cd Ca_answer c = eh_answer cd c"
| "cache_event_step cd (Ca_converted g t) c = handle_binary_record g t c"

definition cache_step :: "'m cache_codec \<Rightarrow> 'm cache_event \<Rightarrow> 'm cache option \<Rightarrow> 'm cache option" where
  "cache_step cd e s = Option.bind s (cache_event_step cd e)"

text \<open>The rules for clients: an entity is not added or loaded while it is being loaded, a flush
  carries the entity, and an entity that came back from the expired items is not dropped with
  \<^verbatim>\<open>DCMSG_ONLY_REMOVE_ENTITY\<close>.\<close>

fun cache_allowed :: "'m cache_codec \<Rightarrow> 'm cache_event \<Rightarrow> 'm cache option \<Rightarrow> bool" where
  "cache_allowed cd (Ca_packet now pk) s \<longleftrightarrow>
     (\<forall>c. s = Some c \<longrightarrow>
       (case parse_packet (cc_request cd) pk of None \<Rightarrow> True
        | Some req \<Rightarrow> (case request_entity cd (packet_guid pk) req of None \<Rightarrow> True
           | Some e \<Rightarrow> request_allowed (packet_opcode pk) (packet_guid pk) (e \<noteq> None) c)))"
| "cache_allowed cd (Ca_db i res) s \<longleftrightarrow> (\<forall>c. s = Some c \<longrightarrow> i < length (ca_loading c))"
| "cache_allowed cd Ca_answer s \<longleftrightarrow> True"
| "cache_allowed cd (Ca_converted g t) s \<longleftrightarrow> True"

fun shelf_step :: "'m cache_codec \<Rightarrow> 'm cache_event \<Rightarrow> 'm shelf_cache \<Rightarrow> 'm shelf_cache" where
  "shelf_step cd (Ca_packet now pk) s =
     (case parse_packet (cc_request cd) pk of None \<Rightarrow> s
      | Some req \<Rightarrow> (case request_entity cd (packet_guid pk) req of None \<Rightarrow> s
         | Some e \<Rightarrow> sc_request (cc_ser cd) now (packet_opcode pk) (packet_guid pk) (dr_name req) e (p_owner pk) s))"
| "shelf_step cd (Ca_db i res) s =
     (case sc_loading s ! i of (op, g, name, owner) \<Rightarrow>
        sc_db i (if cc_create cd g name = None then None else res) s)"
| "shelf_step cd Ca_answer s = sc_answer (cc_ser cd) s"
| "shelf_step cd (Ca_converted g t) s = sc_converted g t s"

lemma request_refines:
  assumes ok: "cache_ok None c" and al: "\<And>e. request_entity cd g req = Some e \<Longrightarrow> request_allowed op g (e \<noteq> None) c"
  shows "\<exists>c'. eh_request cd now op g req owner c = Some c' \<and> cache_ok None c' \<and>
    cache_abs c' = (case request_entity cd g req of None \<Rightarrow> cache_abs c
      | Some e \<Rightarrow> sc_request (cc_ser cd) now op g (dr_name req) e owner (cache_abs c))"
proof (cases "request_entity cd g req")
  case None
  then show ?thesis using ok by (simp add: eh_request_def)
next
  case (Some e)
  show ?thesis
  proof (cases e)
    case None
    let ?d = "new_data_request_info op g req None owner now"
    have "refines ?d cd c (eh_dispatch cd ?d c)"
      using dispatch_refines [of ?d c cd] ok al [OF Some] None by (simp add: new_data_request_info_def)
    then show ?thesis using Some None by (simp add: refines_def eh_request_def new_data_request_info_def)
  next
    case m: (Some m)
    obtain c1 a where n: "new_item m c = (c1, a)" by fastforce
    note k = new_request [OF ok n]
    let ?d = "new_data_request_info op g req (Some a) owner now"
    have "request_allowed op g True c1"
      using al [OF Some] m k(4-7) by (simp add: request_allowed_def flight_def)
    then have "refines ?d cd c1 (eh_dispatch cd ?d c1)"
      using dispatch_refines [of ?d c1 cd] k(1) by (simp add: new_data_request_info_def)
    then show ?thesis using Some m n k(2,3)
      by (simp add: refines_def eh_request_def new_data_request_info_def)
  qed
qed

lemma cache_event_refines:
  assumes ok: "cache_ok None c" and al: "cache_allowed cd e (Some c)"
  shows "\<exists>c'. cache_event_step cd e c = Some c' \<and> cache_ok None c' \<and> cache_abs c' = shelf_step cd e (cache_abs c)"
proof (cases e)
  case (Ca_packet now pk)
  show ?thesis
  proof (cases "parse_packet (cc_request cd) pk")
    case None
    then show ?thesis using Ca_packet ok by (simp add: eh_handle_packet_def)
  next
    case (Some req)
    have "request_allowed (packet_opcode pk) (packet_guid pk) (x \<noteq> None) c"
      if "request_entity cd (packet_guid pk) req = Some x" for x
      using al Ca_packet Some that by simp
    from request_refines [OF ok this] show ?thesis using Ca_packet Some by (simp add: eh_handle_packet_def)
  qed
next
  case (Ca_db i res)
  then have "i < length (ca_loading c)" using al by simp
  then show ?thesis
    using Ca_db db_load_refines [OF ok, of i cd res] by (simp add: cache_abs_def [of c])
qed (use answer_refines [OF ok] converted_refines [OF ok] in auto)

definition cache_inv :: "'m cache option \<Rightarrow> bool" where
  "cache_inv s \<longleftrightarrow> (\<exists>c. s = Some c \<and> cache_ok None c)"

interpretation cache_server: refining_machine "cache_step cd" "cache_allowed cd" cache_inv
  "\<lambda>s. cache_abs (the s)" "shelf_step cd" for cd
proof
  fix s and e :: "'a cache_event"
  assume "cache_inv s" "cache_allowed cd e s"
  then show "cache_inv (cache_step cd e s)" "cache_abs (the (cache_step cd e s)) = shelf_step cd e (cache_abs (the s))"
    using cache_event_refines unfolding cache_inv_def cache_step_def by fastforce+
qed

lemma cache_ok_new: "cache_ok None (new_cache :: 'm cache)"
proof -
  have "refs None (new_cache :: 'm cache) = (\<lambda>_. None)"
  proof
    fix r show "refs None (new_cache :: 'm cache) r = None" by (cases r) (simp_all add: new_cache_def shelf_item_def)
  qed
  moreover have "ca_heap (new_cache :: 'm cache) = (\<lambda>_. None)" by (simp add: new_cache_def)
  ultimately have "heap_ok (ca_heap (new_cache :: 'm cache)) (ca_next (new_cache :: 'm cache)) (refs None (new_cache :: 'm cache))"
    by (simp add: heap_ok_def)
  then show ?thesis by (simp add: cache_ok_def) (simp add: expired_ok_def flight_ok_def flight_def new_cache_def)
qed

definition new_shelf_cache :: "'m shelf_cache" where
  "new_shelf_cache = \<lparr> sc_live = (\<lambda>_. None), sc_shelf = (\<lambda>_. None), sc_loading = [], sc_loaded = [], sc_out = [] \<rparr>"

lemma cache_abs_new: "cache_abs new_cache = new_shelf_cache"
  by (simp add: cache_abs_def new_cache_def new_shelf_cache_def val_def shelf_item_def)

text \<open>C4: the cache server is safe and right. However clients use it within the rules, whatever
  the database answers and whenever, no deleted object is touched, and the entities it holds,
  those it keeps after a flush and every reply are those of the cache of values.\<close>

theorem cache_server_refines:
  assumes "all_allowed (cache_step cd) (cache_allowed cd) es (Some new_cache)"
  shows "\<exists>c. run_events (cache_step cd) es (Some new_cache) = Some c \<and>
    cache_abs c = run_events (shelf_step cd) es new_shelf_cache"
proof -
  have inv: "cache_inv (Some new_cache)" by (simp add: cache_inv_def cache_ok_new)
  from cache_server.run_keeps [OF inv assms] obtain c where "run_events (cache_step cd) es (Some new_cache) = Some c"
    by (auto simp: cache_inv_def)
  moreover from cache_server.run_refines [OF inv assms] this
  have "cache_abs c = run_events (shelf_step cd) es new_shelf_cache" by (simp add: cache_abs_new)
  ultimately show ?thesis by blast
qed

section \<open>The round of the service thread\<close>

text \<open>No handler looks at the answers that wait.\<close>

abbreviation with_loaded :: "data_request_info list \<Rightarrow> 'm cache \<Rightarrow> 'm cache" where
  "with_loaded l c \<equiv> c\<lparr> ca_loaded := l \<rparr>"

lemmas part_defs = delete_item_def read_item_def xi_update_def xi_update_to_delete_def xi_query_def xi_query_copy_def
  eh_add_def eh_remove_def eh_update_def write_record_def eh_reply_def eh_reply_load_def

lemma dispatch_loaded:
  "eh_dispatch cd d (with_loaded l c) = map_option (with_loaded l) (eh_dispatch cd d c)"
proof -
  have "handle_new_entity d (with_loaded l c) = map_option (with_loaded l) (handle_new_entity d c)"
    "handle_load_entity cd d (with_loaded l c) = map_option (with_loaded l) (handle_load_entity cd d c)"
    "handle_flush_entity d (with_loaded l c) = map_option (with_loaded l) (handle_flush_entity d c)"
    "handle_update_entity d (with_loaded l c) = map_option (with_loaded l) (handle_update_entity d c)"
    "handle_remove_entity d (with_loaded l c) = map_option (with_loaded l) (handle_remove_entity d c)"
    "handle_load_entity_once cd d (with_loaded l c) = map_option (with_loaded l) (handle_load_entity_once cd d c)"
    "handle_new_entity_with_flush d (with_loaded l c) = map_option (with_loaded l) (handle_new_entity_with_flush d c)"
    "handle_only_remove_entity d (with_loaded l c) = map_option (with_loaded l) (handle_only_remove_entity d c)"
    by (auto simp: handle_new_entity_def handle_load_entity_def handle_flush_entity_def handle_update_entity_def
        handle_remove_entity_def handle_load_entity_once_def handle_new_entity_with_flush_def handle_only_remove_entity_def
        part_defs split: option.splits Option.bind_splits)
  then show ?thesis by (simp add: eh_dispatch_def)
qed

lemma packet_loaded:
  "eh_handle_packet cd now pk (with_loaded l c) = map_option (with_loaded l) (eh_handle_packet cd now pk c)"
proof -
  have "(with_loaded l c)\<lparr> ca_heap := h, ca_next := n \<rparr> = with_loaded l (c\<lparr> ca_heap := h, ca_next := n \<rparr>)" for h n
    by (cases c) simp
  then have "eh_dispatch cd d ((with_loaded l c)\<lparr> ca_heap := h, ca_next := n \<rparr>) =
      map_option (with_loaded l) (eh_dispatch cd d (c\<lparr> ca_heap := h, ca_next := n \<rparr>))" for d h n
    by (simp only: dispatch_loaded)
  then show ?thesis
    by (simp add: eh_handle_packet_def eh_request_def new_item_def dispatch_loaded split: option.splits)
qed

lemma db_load_loaded:
  "handle_db_load cd d (with_loaded l c) = map_option (with_loaded l) (handle_db_load cd d c)"
  by (simp add: handle_db_load_def part_defs split: option.splits Option.bind_splits)

primrec packet_events :: "(nat \<Rightarrow> u64) \<Rightarrow> packet list \<Rightarrow> 'm cache_event list" where
  "packet_events clock [] = []"
| "packet_events clock (pk # pks) = Ca_packet (clock (length pks)) pk # packet_events clock pks"

lemma run_None [simp]: "run_events (cache_step cd) es None = None"
  by (induction es) (simp_all add: cache_step_def)

lemma cache_step_Some [simp]: "cache_step cd e (Some c) = cache_event_step cd e c"
  by (simp add: cache_step_def)

lemma run_packets: "run_events (cache_step cd) (packet_events clock pks) (Some c) = eh_packets cd clock pks c"
proof (induction pks arbitrary: c)
  case (Cons pk pks)
  then show ?case by (cases "eh_handle_packet cd (clock (length pks)) pk c") simp_all
qed simp

lemma packets_loaded: "eh_packets cd clock pks (with_loaded l c) = map_option (with_loaded l) (eh_packets cd clock pks c)"
proof (induction pks arbitrary: c)
  case (Cons pk pks)
  then show ?case by (cases "eh_handle_packet cd (clock (length pks)) pk c") (simp_all add: packet_loaded)
qed simp

lemma run_answers:
  "run_events (cache_step cd) (replicate (length ds) Ca_answer) (Some (with_loaded ds c)) =
    eh_answers cd ds (with_loaded [] c)"
proof (induction ds arbitrary: c)
  case (Cons d ds)
  have "cache_step cd Ca_answer (Some (with_loaded (d # ds) c)) = map_option (with_loaded ds) (handle_db_load cd d c)"
    using db_load_loaded [of cd d ds c] by (simp add: eh_answer_def)
  then show ?case using Cons by (cases "handle_db_load cd d c") (simp_all add: db_load_loaded)
qed simp

text \<open>A round of the service thread, which takes both queues at once, is a run of these events:
  the packets in the order they came, then one answer after the other.\<close>

lemma service_round:
  "eh_round cd clock c =
    run_events (cache_step cd) (packet_events clock (ca_inbox c) @ replicate (length (ca_loaded c)) Ca_answer)
      (Some (c\<lparr> ca_inbox := [] \<rparr>))"
proof -
  let ?c = "c\<lparr> ca_inbox := [] \<rparr>"
  have "eh_packets cd clock (ca_inbox c) ?c =
      map_option (with_loaded (ca_loaded c)) (eh_packets cd clock (ca_inbox c) (with_loaded [] ?c))"
    using packets_loaded [of cd clock "ca_inbox c" "ca_loaded c" "with_loaded [] ?c"] by simp
  moreover have "with_loaded [] c' = c'" if "eh_packets cd clock (ca_inbox c) (with_loaded [] ?c) = Some c'" for c'
    using packets_loaded [of cd clock "ca_inbox c" "[]" "with_loaded [] ?c"] that by simp
  ultimately show ?thesis
    by (cases "eh_packets cd clock (ca_inbox c) (with_loaded [] ?c)")
      (simp_all add: eh_round_def Let_def run_events_append run_packets run_answers)
qed

text \<open>A codec for the examples: the request is its stream, the entity its bytes.\<close>

definition plain_request :: "u8 list \<Rightarrow> db_data_request" where
  "plain_request bs = \<lparr> dr_index = 0, dr_num = 0, dr_trans = 0, dr_line = 0, dr_stream = bs, dr_owner = 0, dr_name = [] \<rparr>"

definition plain_codec :: "u8 list cache_codec" where
  "plain_codec = \<lparr> cc_request = (\<lambda>bs. Some (plain_request bs)), cc_create = (\<lambda>g name. Some []),
     cc_parse = (\<lambda>m bs. Some bs), cc_ser = (\<lambda>m. m) \<rparr>"

lemma cache_server_refines_witness:
  "\<exists>c. run_events (cache_step plain_codec)
      [Ca_packet 5 (new_packet 1 9 [1, 2]), Ca_packet 6 (new_packet 3 9 [3]), Ca_packet 7 (new_packet 2 9 []), Ca_converted 9 6]
      (Some new_cache) = Some c \<and> sc_live (cache_abs c) 9 = Some [3] \<and> map rp_message (sc_out (cache_abs c)) = [None, None, Some [3]]"
proof -
  let ?es = "[Ca_packet 5 (new_packet 1 9 [1, 2]), Ca_packet 6 (new_packet 3 9 [3]), Ca_packet 7 (new_packet 2 9 []), Ca_converted 9 6]"
  have p: "parse_packet (cc_request plain_codec) (new_packet op g bs) = Some (plain_request bs)"
    "request_entity plain_codec h (plain_request bs) = Some (if bs = [] then None else Some bs)"
    if "fits bs" for op g h bs
    using that by (simp_all add: parse_packet_def packet_body_new_packet plain_codec_def plain_request_def request_entity_def)
  have f: "fits [1, 2]" "fits [3]" "fits []" by (simp_all add: fits_def head_size_def)
  have ser: "cc_ser plain_codec = (\<lambda>m. m)" by (simp add: plain_codec_def)
  note ev = p(1) [OF f(1)] p(1) [OF f(2)] p(1) [OF f(3)] p(2) [OF f(1)] p(2) [OF f(2)] p(2) [OF f(3)]
  have al: "all_allowed (cache_step plain_codec) (cache_allowed plain_codec) ?es (Some new_cache)"
    by (simp add: ev cache_step_def eh_handle_packet_def request_allowed_def eh_request_def new_item_def eh_dispatch_def
        handle_new_entity_def eh_add_def write_record_def eh_reply_def handle_flush_entity_def new_data_request_info_def
        xi_update_def eh_remove_def delete_item_def flight_def new_cache_def)
  have "run_events (shelf_step plain_codec) ?es new_shelf_cache =
      \<lparr> sc_live = [9 \<mapsto> [3]], sc_shelf = (\<lambda>_. None), sc_loading = [], sc_loaded = [],
        sc_out = [\<lparr> rp_opcode = 1, rp_guid = 9, rp_status = STATE_NORMAL, rp_message = None, rp_owner = 0 \<rparr>,
          \<lparr> rp_opcode = 3, rp_guid = 9, rp_status = STATE_NORMAL, rp_message = None, rp_owner = 0 \<rparr>,
          \<lparr> rp_opcode = 2, rp_guid = 9, rp_status = STATE_NORMAL, rp_message = Some [3], rp_owner = 0 \<rparr>] \<rparr>"
    by (simp add: ev new_shelf_cache_def sc_request_def sc_reply_def sc_converted_def ser fun_eq_iff)
  then show ?thesis using cache_server_refines [OF al] by auto
qed

end
