(* ===== verification/PoolCache.thy ===== *)
theory PoolCache
  imports PoolSync CacheRuns
begin

text \<open>
  The pool of a game server and the cache server together. The packets a pool sends are handled
  by the cache server; seen through the entities the cache holds this is the database that
  \<^verbatim>\<open>PoolSync\<close> assumes, so what is proved there holds for the two programs.
\<close>

section \<open>The cache as the database\<close>

text \<open>The parser of the cache server makes no entity for an empty name; for the name of a message it makes one that
  takes the bytes of the message, and these are not empty.\<close>

definition linked :: "'m codec \<Rightarrow> 'n cache_codec \<Rightarrow> bool" where
  "linked c cd \<longleftrightarrow> (\<forall>g. cc_create cd g [] = None) \<and>
     (\<forall>m. cd_name c m \<noteq> [] \<and> cd_ser c m \<noteq> [] \<and>
       (\<forall>g. \<exists>e0 e. cc_create cd g (cd_name c m) = Some e0 \<and> cc_parse cd e0 (cd_ser c m) = Some e \<and>
          cc_ser cd e = cd_ser c m))"

lemma linked_names: "linked c cd \<Longrightarrow> names_ok c"
  by (simp add: linked_def names_ok_def)

definition deliver :: "'n cache_codec \<Rightarrow> u64 \<Rightarrow> db_packet \<Rightarrow> 'n cache option \<Rightarrow> 'n cache option" where
  "deliver cd now pk k = Option.bind k (eh_request cd now (dc_code (dp_opcode pk)) (dp_guid pk) (dp_request pk) 1)"

text \<open>A use of the pool; the packets it sends are handled by the cache server.\<close>

type_synonym ('m, 'n) linked_state = "'m pool \<times> 'n cache option \<times> (guid \<Rightarrow> 'm option)"

definition link_step :: "'m codec \<Rightarrow> 'n cache_codec \<Rightarrow> u64 \<Rightarrow> (guid \<Rightarrow> guid) \<Rightarrow> 'm use \<Rightarrow>
    ('m, 'n) linked_state \<Rightarrow> ('m, 'n) linked_state" where
  "link_step c cd now own e s =
     (case s of (p, k, st) \<Rightarrow>
        let (p', out) = pool_call c own e p in (p', fold (deliver cd now) out k, store_step own e p st))"

definition cache_view :: "'n cache_codec \<Rightarrow> 'n cache option \<Rightarrow> db" where
  "cache_view cd k g = map_option (cc_ser cd) (sc_live (cache_abs (the k)) g)"

definition link_abs :: "'n cache_codec \<Rightarrow> ('m, 'n) linked_state \<Rightarrow> 'm store_state" where
  "link_abs cd s = (case s of (p, k, st) \<Rightarrow> (p, cache_view cd k, st))"

definition quiet :: "'n cache option \<Rightarrow> bool" where
  "quiet k \<longleftrightarrow> (\<exists>c. k = Some c \<and> cache_ok None c \<and> sc_loading (cache_abs c) = [] \<and> sc_loaded (cache_abs c) = [])"

lemma deliver_change:
  assumes l: "linked c cd" and q: "quiet k" and pk: "pool_packet (cd_ser c) (cd_name c) pk"
  shows "quiet (deliver cd now pk k) \<and> cache_view cd (deliver cd now pk k) = db_apply pk (cache_view cd k)"
proof -
  let ?g = "dp_guid pk" and ?r = "dp_request pk" and ?op = "dc_code (dp_opcode pk)"
  obtain kc where k: "k = Some kc" "cache_ok None kc" "sc_loading (cache_abs kc) = []" "sc_loaded (cache_abs kc) = []"
    using q by (auto simp: quiet_def)
  then have f: "flight kc = []" by (simp add: flight_def cache_abs_def)
  have named: "\<not> nameless pk" using pool_packet_named [OF pk] l by (simp add: linked_def)
  obtain e where e: "request_entity cd ?g ?r = Some e"
    and es: "case e of None \<Rightarrow> dp_opcode pk = DCMSG_REMOVE_ENTITY
      | Some m \<Rightarrow> dp_opcode pk \<in> {DCMSG_NEW_ENEITY, DCMSG_UPDATE_ENTITY} \<and> cc_ser cd m = dr_stream ?r"
  proof (cases "dp_opcode pk = DCMSG_REMOVE_ENTITY")
    case True
    then show ?thesis using that [of None] pk by (auto simp: pool_packet_def request_entity_def)
  next
    case False
    then obtain m where m: "dr_stream ?r = cd_ser c m" "dr_name ?r = cd_name c m"
        "dp_opcode pk \<in> {DCMSG_NEW_ENEITY, DCMSG_UPDATE_ENTITY}"
      using pk by (auto simp: pool_packet_def)
    from l obtain e0 e1 where "cd_ser c m \<noteq> []" "cc_create cd ?g (cd_name c m) = Some e0"
      "cc_parse cd e0 (cd_ser c m) = Some e1" "cc_ser cd e1 = cd_ser c m" unfolding linked_def by meson
    then show ?thesis using that [of "Some e1"] m by (auto simp: request_entity_def)
  qed
  have "request_allowed ?op ?g (e \<noteq> None) kc"
    using es f by (auto simp: request_allowed_def split: option.splits)
  then obtain kc' where k': "eh_request cd now ?op ?g ?r 1 kc = Some kc'" "cache_ok None kc'"
    "cache_abs kc' = sc_request (cc_ser cd) now ?op ?g (dr_name ?r) e 1 (cache_abs kc)"
    using request_refines [OF k(2), of cd ?g ?r ?op now 1] e by auto
  have abs: "cache_abs kc' = (let v = sc_live (cache_abs kc) ?g in
      sc_reply ?op ?g 1 STATE_NORMAL None (case e of
        None \<Rightarrow> (cache_abs kc)\<lparr> sc_live := (sc_live (cache_abs kc))(?g := None), sc_shelf := (sc_shelf (cache_abs kc))(?g := None) \<rparr>
      | Some m \<Rightarrow> if (v = None) = (dp_opcode pk = DCMSG_NEW_ENEITY)
          then (cache_abs kc)\<lparr> sc_live := (sc_live (cache_abs kc))(?g := e) \<rparr> else cache_abs kc))"
    using k'(3) es by (cases e) (auto simp: sc_request_def)
  have "sc_loading (cache_abs kc') = []" "sc_loaded (cache_abs kc') = []"
    using k(3,4) by (simp_all add: abs sc_reply_def Let_def split: option.split)
  moreover have "cache_view cd (Some kc') = db_apply pk (cache_view cd k)"
  proof
    fix h
    show "cache_view cd (Some kc') h = db_apply pk (cache_view cd k) h"
    proof (cases e)
      case None
      then show ?thesis using k(1) es named by (simp add: cache_view_def db_apply_def db_change_def abs sc_reply_def)
    next
      case (Some m)
      then show ?thesis using k(1) es named
        by (cases "sc_live (cache_abs kc) ?g") (auto simp: cache_view_def db_apply_def db_change_def abs sc_reply_def)
    qed
  qed
  ultimately show ?thesis using k' k(1) by (simp add: deliver_def quiet_def)
qed

text \<open>A new coin is dropped: the parser makes no entity without a name, and no reply is sent.\<close>

lemma deliver_coin:
  assumes "linked c cd" "coin_packet (cd_ser c) pk"
  shows "deliver cd now pk k = k"
proof -
  obtain m where "dr_stream (dp_request pk) = cd_ser c m" "dr_name (dp_request pk) = []"
    using assms(2) by (auto simp: coin_packet_def)
  moreover have "cd_ser c m \<noteq> []" "cc_create cd (dp_guid pk) [] = None" for m using assms(1) by (simp_all add: linked_def)
  ultimately have "request_entity cd (dp_guid pk) (dp_request pk) = None" by (simp add: request_entity_def)
  then show ?thesis by (cases k) (simp_all add: deliver_def eh_request_def)
qed

lemma deliver_refines:
  assumes "linked c cd" "quiet k" "pool_packet (cd_ser c) (cd_name c) pk \<or> coin_packet (cd_ser c) pk"
  shows "quiet (deliver cd now pk k) \<and> cache_view cd (deliver cd now pk k) = db_apply pk (cache_view cd k)"
  using assms(3)
proof
  assume "coin_packet (cd_ser c) pk"
  moreover from this have "nameless pk" by (simp add: coin_packet_def nameless_def)
  ultimately show ?thesis using deliver_coin [OF assms(1)] assms(2) by (simp add: db_apply_def)
qed (rule deliver_change [OF assms(1,2)])

lemma deliver_all:
  assumes "linked c cd" "quiet k" "\<forall>pk \<in> set out. pool_packet (cd_ser c) (cd_name c) pk \<or> coin_packet (cd_ser c) pk"
  shows "quiet (fold (deliver cd now) out k) \<and> cache_view cd (fold (deliver cd now) out k) = fold db_apply out (cache_view cd k)"
  using assms(2,3)
proof (induction out arbitrary: k)
  case (Cons pk out)
  then show ?case using deliver_refines [OF assms(1) Cons.prems(1), of pk now] by simp
qed simp

definition link_inv :: "'m codec \<Rightarrow> 'n cache_codec \<Rightarrow> ('m, 'n) linked_state \<Rightarrow> bool" where
  "link_inv c cd s \<longleftrightarrow> linked c cd \<and> quiet (fst (snd s))"

lemma link_step_refines:
  assumes "link_inv c cd s"
  shows "link_inv c cd (link_step c cd now own e s) \<and>
    link_abs cd (link_step c cd now own e s) = use_step c own e (link_abs cd s)"
proof -
  obtain p k st where s: "s = (p, k, st)" by (metis prod_cases3)
  have l: "linked c cd" "quiet k" using assms s by (simp_all add: link_inv_def)
  obtain p' out where a: "pool_call c own e p = (p', out)" by fastforce
  then show ?thesis using deliver_all [OF l call_packets [OF a], of now] l(1)
    by (simp add: s link_inv_def link_abs_def link_step_def use_step_def)
qed

interpretation pool_and_cache: refining_machine "link_step c cd now own" "\<lambda>e s. use_allowed own e (link_abs cd s)"
  "link_inv c cd" "link_abs cd" "use_step c own" for c cd now own
  using link_step_refines by unfold_locales blast+

lemma run_sync:
  assumes l: "linked c cd" and k: "quiet k0" "\<forall>g. cache_view cd k0 g = map_option (cd_ser c) (st0 g)"
    and al: "all_allowed (link_step c cd now own) (\<lambda>e s. use_allowed own e (link_abs cd s)) es (new_pool line, k0, st0)"
  shows "link_inv c cd (run_events (link_step c cd now own) es (new_pool line, k0, st0)) \<and>
    pool_sync c own (link_abs cd (run_events (link_step c cd now own) es (new_pool line, k0, st0)))"
proof -
  let ?s = "(new_pool line, k0, st0)"
  have inv: "link_inv c cd ?s" using l k(1) by (simp add: link_inv_def)
  have start: "link_abs cd ?s = pool_start c line st0" using k(2) by (simp add: link_abs_def pool_start_def fun_eq_iff)
  have "all_allowed (use_step c own) (use_allowed own) es (pool_start c line st0)"
    using pool_and_cache.run_allowed [of own cd "use_allowed own" c ?s now es] inv al by (simp add: start)
  from pool_use.run_keeps [OF pool_sync_start [OF linked_names [OF l]] this]
  show ?thesis using pool_and_cache.run_refines [OF inv al] pool_and_cache.run_keeps [OF inv al] by (simp add: start)
qed

text \<open>C1: the pool writes through to the cache server. The cache server starts with the entities that are stored, and
  waits for nothing from its database; the packets of the pool reach it, and no others. However entities are added to
  be stored, loaded or kept in memory only, changed, removed and unloaded, frames run and replies arrive: after a frame
  update that writes, the cache server runs on, and the entities it holds are exactly those to be stored, each one that
  is in the memory of the game server, and is neither a player nor a role, with its content there. The rules of use
  are those of \<open>write_behind\<close>, with what they leave out: new coins are not stored, players and roles only when they
  are new, and flushes are not among the uses. Of the parser of the cache server it is assumed that it makes no entity
  without a name, and for the name of each message an entity that takes its bytes.\<close>

theorem write_behind_cache:
  assumes "linked c cd" and "quiet k0" and "\<forall>g. cache_view cd k0 g = map_option (cd_ser c) (st0 g)"
    and "all_allowed (link_step c cd now own) (\<lambda>e s. use_allowed own e (link_abs cd s)) es (new_pool line, k0, st0)"
    and "run_events (link_step c cd now own) es (new_pool line, k0, st0) = (p, k, st)"
    and "pl_update_num p = 0"
    and "link_step c cd now own Use_frame (p, k, st) = (p', k', st')"
  shows "\<exists>kc. k' = Some kc \<and>
    (\<forall>g. map_option (cc_ser cd) (sc_live (cache_abs kc) g) = map_option (cd_ser c) (st' g) \<and>
      (st' g \<noteq> None \<and> memory p' g \<noteq> None \<and> \<not> flushed_only g \<longrightarrow> st' g = memory p' g))"
proof -
  have inv: "link_inv c cd (p, k, st)" and sync: "pool_sync c own (link_abs cd (p, k, st))"
    using run_sync [OF assms(1-4)] assms(5) by simp_all
  have frame: "use_step c own Use_frame (p, cache_view cd k, st) = (p', cache_view cd k', st')" and q: "quiet k'"
    using link_step_refines [OF inv, of now own Use_frame] assms(7) by (simp_all add: link_abs_def link_inv_def)
  have "pool_sync c own (p, cache_view cd k, st)" using sync by (simp add: link_abs_def)
  from pool_sync_frame [OF this frame] have "written c (p', cache_view cd k', st')"
    using pool_sync_written assms(6) by blast
  then show ?thesis using q by (auto simp: quiet_def written_def cache_view_def)
qed

text \<open>A coin that is added to be stored is not stored: the cache server drops the packet, and no change waits for the coin.\<close>

lemma new_coin_not_stored:
  assumes "linked c cd" and "quiet k" and "extract_entity_type g = ucast et_coin" and "memory p g = None"
    and "entities_ok own p"
    and "link_step c cd now own (Use_add g m True) (p, k, st) = (p', k', st')"
  shows "memory p' g = Some m \<and> k' = k \<and> waiting own p' g = waiting own p g"
proof -
  obtain q out where a: "pool_call c own (Use_add g m True) p = (q, out)" by fastforce
  have none: "fmlookup (pl_entities p) g = None" using assms(4) memory_Some [OF assms(5)] by simp
  have q: "p' = q" "k' = fold (deliver cd now) out k" using assms(6) a by (simp_all add: link_step_def)
  have out: "\<exists>pk. out = [pk] \<and> coin_packet (cd_ser c) pk" and "memory q g = Some m" "pl_pending q = pl_pending p"
    using a none assms(3)
    by (auto simp: pool_add_def Let_def direct_update_to_db_def coin_packet_def memory_def new_entity_info_def)
  then show ?thesis using q deliver_coin [OF assms(1)] waiting_cong [of q p own] by auto
qed

text \<open>Messages are byte strings, the bytes on the wire are marked, and the only name is known to the parser.\<close>

definition marked_codec :: "u8 list codec" where
  "marked_codec = \<lparr> cd_ser = (\<lambda>m. 1 # m), cd_name = (\<lambda>_. [109]), cd_parse = Some \<rparr>"

definition named_codec :: "u8 list cache_codec" where
  "named_codec = \<lparr> cc_request = (\<lambda>_. None), cc_create = (\<lambda>g name. if name = [109] then Some [] else None),
     cc_parse = (\<lambda>m bs. Some bs), cc_ser = (\<lambda>m. m) \<rparr>"

lemma marked_linked: "linked marked_codec named_codec"
  by (simp add: linked_def marked_codec_def named_codec_def)

lemma quiet_new: "quiet (Some new_cache)"
  by (simp add: quiet_def cache_ok_new cache_abs_new new_shelf_cache_def)

lemma write_behind_cache_witness:
  "case run_events (link_step marked_codec named_codec 3 (\<lambda>_. 7))
      [Use_add 0x500000000000001 [1] True, Use_update 0x500000000000001 [2]] (new_pool 0, Some new_cache, \<lambda>_. None) of
    (p, k, st) \<Rightarrow> \<exists>kc. fst (snd (link_step marked_codec named_codec 3 (\<lambda>_. 7) Use_frame (p, k, st))) = Some kc \<and>
      sc_live (cache_abs kc) 0x500000000000001 = Some [1, 2]"
proof -
  let ?es = "[Use_add 0x500000000000001 [1] True, Use_update 0x500000000000001 [2]]"
    and ?s = "(new_pool 0, Some new_cache, \<lambda>_. None)" and ?step = "link_step marked_codec named_codec 3 (\<lambda>_. 7 :: guid)"
  note ev = link_step_def new_pool_def waiting_def change_of_def flushed_only_def link_abs_def
    pool_add_def new_entity_info_def set_message_def pool_update_def memory_def Let_def update_to_db_def
    update_db_info_def new_db_entity_info_def plain_guid
  have view: "\<forall>g. cache_view named_codec (Some new_cache) g = map_option (cd_ser marked_codec) None"
    by (simp add: cache_view_def cache_abs_new new_shelf_cache_def)
  have al: "all_allowed ?step (\<lambda>e s. use_allowed (\<lambda>_. 7) e (link_abs named_codec s)) ?es ?s" by (simp add: ev)
  obtain p k st where r: "run_events ?step ?es ?s = (p, k, st)" by (metis prod_cases3)
  have m: "pl_update_num p = 0" "st 0x500000000000001 = Some [2]" using r by (auto simp: ev)
  obtain p' k' st' where f: "?step Use_frame (p, k, st) = (p', k', st')" by (metis prod_cases3)
  have st: "st' = st" using f by (auto simp: link_step_def split: prod.splits)
  obtain kc where kc: "k' = Some kc"
    "\<forall>g. map_option (cc_ser named_codec) (sc_live (cache_abs kc) g) = map_option (cd_ser marked_codec) (st' g)"
    using write_behind_cache [OF marked_linked quiet_new view al r m(1) f] by blast
  have "map_option (\<lambda>m. m) (sc_live (cache_abs kc) 0x500000000000001) = Some [1, 2]"
    using kc(2) [rule_format, of "0x500000000000001"] m(2) st by (simp add: named_codec_def marked_codec_def)
  then show ?thesis using r f kc(1) by (auto simp: map_option.identity [unfolded id_def])
qed

end
