(* ===== verification/CacheFaults.thy ===== *)
theory CacheFaults
  imports CacheRuns
begin

text \<open>
  What the rules of \<^verbatim>\<open>CacheRuns\<close> exclude happens otherwise: three sequences of requests that end
  in a use of deleted or missing memory, and one that brings a removed entity back.
\<close>

definition carries :: "'m cache_codec \<Rightarrow> packet \<Rightarrow> dc_opcode \<Rightarrow> guid \<Rightarrow> 'm option \<Rightarrow> bool" where
  "carries cd pk op g e \<longleftrightarrow> packet_opcode pk = dc_code op \<and> packet_guid pk = g \<and>
     (\<exists>req. parse_packet (cc_request cd) pk = Some req \<and> request_entity cd g req = Some e)"

lemma carriesE:
  assumes "carries cd pk op g e"
  obtains req where "packet_opcode pk = dc_code op" "packet_guid pk = g"
    "parse_packet (cc_request cd) pk = Some req" "request_entity cd g req = Some e"
  using assms by (auto simp: carries_def)

lemma plain_carries:
  "fits bs \<Longrightarrow> carries plain_codec (new_packet (dc_code op) g bs) op g (if bs = [] then None else Some bs)"
  by (simp add: carries_def parse_packet_def packet_body_new_packet plain_codec_def plain_request_def request_entity_def)

lemma fits_small [simp]: "fits []" "fits [x]" "fits [x, y]"
  by (simp_all add: fits_def head_size_def)

lemmas cache_eval = cache_step_def eh_handle_packet_def eh_request_def new_data_request_info_def eh_dispatch_def
  handle_load_entity_def xi_query_def db_load_request_def new_item_def eh_answer_def handle_db_load_def eh_add_def
  eh_reply_load_def eh_reply_def delete_item_def write_record_def

text \<open>Two loads of an entity that are both answered by the database end in a use of deleted
  memory: the second answer is deleted because the entity is there already, and then read for
  the reply.\<close>

theorem double_load_faults:
  assumes "carries cd pk DCMSG_LOAD_ENTITY g None" "carries cd pk' DCMSG_LOAD_ENTITY g None"
    and "fmlookup (ca_entities c) g = None" "fmlookup (ca_expired c) g = None"
    and "ca_loading c = []" "ca_loaded c = []" "\<And>name. cc_create cd g name \<noteq> None"
  shows "run_events (cache_step cd)
    [Ca_packet t pk, Ca_packet t' pk', Ca_db 0 (Some m), Ca_db 0 (Some m'), Ca_answer, Ca_answer] (Some c) = None"
proof -
  obtain req where r: "packet_opcode pk = dc_code DCMSG_LOAD_ENTITY" "packet_guid pk = g"
    "parse_packet (cc_request cd) pk = Some req" "request_entity cd g req = Some None" by (rule carriesE [OF assms(1)])
  obtain req' where r': "packet_opcode pk' = dc_code DCMSG_LOAD_ENTITY" "packet_guid pk' = g"
    "parse_packet (cc_request cd) pk' = Some req'" "request_entity cd g req' = Some None" by (rule carriesE [OF assms(2)])
  obtain m0 m1 where "cc_create cd g (dr_name req) = Some m0" "cc_create cd g (dr_name req') = Some m1"
    using assms(7) by blast
  then show ?thesis using r r' assms(3-6) by (simp add: cache_eval)
qed

lemma double_load_faults_witness:
  "run_events (cache_step plain_codec)
    [Ca_packet 1 (new_packet 2 9 []), Ca_packet 2 (new_packet 2 9 []), Ca_db 0 (Some [1]), Ca_db 0 (Some [1]), Ca_answer, Ca_answer]
    (Some new_cache) = None"
  using double_load_faults [OF plain_carries [of "[]" DCMSG_LOAD_ENTITY 9, simplified]
      plain_carries [of "[]" DCMSG_LOAD_ENTITY 9, simplified], of new_cache 1 2 "[1]" "[1]"]
  by (simp add: new_cache_def plain_codec_def)

text \<open>An entity that was flushed, loaded again and dropped with \<^verbatim>\<open>DCMSG_ONLY_REMOVE_ENTITY\<close>, as
  the opcode is documented to force a load from the database, is answered from deleted memory
  at the next load.\<close>

theorem only_remove_faults:
  assumes "cache_ok None c" "fmlookup (ca_entities c) g \<noteq> None"
    and "carries cd pf DCMSG_FLUSH_ENTITY g (Some m)" "carries cd pl DCMSG_LOAD_ENTITY g None"
    and "carries cd po DCMSG_ONLY_REMOVE_ENTITY g None"
  shows "run_events (cache_step cd) [Ca_packet t1 pf, Ca_packet t2 pl, Ca_packet t3 po, Ca_packet t4 pl] (Some c) = None"
proof -
  obtain rf where rf: "packet_opcode pf = dc_code DCMSG_FLUSH_ENTITY" "packet_guid pf = g"
    "parse_packet (cc_request cd) pf = Some rf" "request_entity cd g rf = Some (Some m)" by (rule carriesE [OF assms(3)])
  obtain rl where rl: "packet_opcode pl = dc_code DCMSG_LOAD_ENTITY" "packet_guid pl = g"
    "parse_packet (cc_request cd) pl = Some rl" "request_entity cd g rl = Some None" by (rule carriesE [OF assms(4)])
  obtain ro where ro: "packet_opcode po = dc_code DCMSG_ONLY_REMOVE_ENTITY" "packet_guid po = g"
    "parse_packet (cc_request cd) po = Some ro" "request_entity cd g ro = Some None" by (rule carriesE [OF assms(5)])
  obtain a where a: "fmlookup (ca_entities c) g = Some a" using assms(2) by blast
  obtain x where x: "ca_heap c a = Some x" using live_alive [OF assms(1) a] by blast
  then have ne: "a \<noteq> ca_next c" using assms(1) by (auto simp: cache_ok_def heap_ok_def)
  show ?thesis using rf rl ro a x ne
    by (simp add: cache_eval handle_flush_entity_def xi_update_def eh_remove_def handle_only_remove_entity_def)
qed

lemma only_remove_faults_witness:
  "run_events (cache_step plain_codec)
    [Ca_packet 0 (new_packet 1 9 [5]), Ca_packet 1 (new_packet 3 9 [6]), Ca_packet 2 (new_packet 2 9 []),
     Ca_packet 3 (new_packet 9 9 []), Ca_packet 4 (new_packet 2 9 [])] (Some new_cache) = None"
proof -
  let ?es = "[Ca_packet 0 (new_packet 1 9 [5])]"
  have c1: "carries plain_codec (new_packet 1 9 [5]) DCMSG_NEW_ENEITY 9 (Some [5])"
    and c3: "carries plain_codec (new_packet 3 9 [6]) DCMSG_FLUSH_ENTITY 9 (Some [6])"
    and c2: "carries plain_codec (new_packet 2 9 []) DCMSG_LOAD_ENTITY 9 None"
    and c9: "carries plain_codec (new_packet 9 9 []) DCMSG_ONLY_REMOVE_ENTITY 9 None"
    using plain_carries [of "[5]" DCMSG_NEW_ENEITY 9] plain_carries [of "[6]" DCMSG_FLUSH_ENTITY 9]
      plain_carries [of "[]" DCMSG_LOAD_ENTITY 9] plain_carries [of "[]" DCMSG_ONLY_REMOVE_ENTITY 9] by simp_all
  obtain r where r: "packet_guid (new_packet 1 9 [5]) = 9" "parse_packet (cc_request plain_codec) (new_packet 1 9 [5]) = Some r"
    "request_entity plain_codec 9 r = Some (Some [5])" by (rule carriesE [OF c1])
  have al: "all_allowed (cache_step plain_codec) (cache_allowed plain_codec) ?es (Some new_cache)"
    using r by (simp add: request_allowed_def flight_def new_cache_def)
  have inv: "cache_inv (run_events (cache_step plain_codec) ?es (Some new_cache))"
    using cache_server.run_keeps [OF _ al] by (simp add: cache_inv_def cache_ok_new)
  then obtain c where c: "cache_step plain_codec (Ca_packet 0 (new_packet 1 9 [5])) (Some new_cache) = Some c" "cache_ok None c"
    by (auto simp: cache_inv_def)
  then have "fmlookup (ca_entities c) 9 \<noteq> None"
    using r by (auto simp: cache_eval handle_new_entity_def new_cache_def)
  from only_remove_faults [OF c(2) this c3 c2 c9, of 1 2 3 4] c(1) show ?thesis by simp
qed

text \<open>An entity that is created with a flush but has no content is kept as NULL, and the
  next \<^verbatim>\<open>DCMSG_LOAD_ENTITY_ONCE\<close> reads through it.\<close>

theorem empty_flush_faults:
  assumes "fmlookup (ca_entities c) g = None"
    and "carries cd pn DCMSG_NEW_ENEITY_WITH_FLUSH g None" "carries cd po DCMSG_LOAD_ENTITY_ONCE g None"
  shows "run_events (cache_step cd) [Ca_packet t pn, Ca_packet t' po] (Some c) = None"
proof -
  obtain rn where rn: "packet_opcode pn = dc_code DCMSG_NEW_ENEITY_WITH_FLUSH" "packet_guid pn = g"
    "parse_packet (cc_request cd) pn = Some rn" "request_entity cd g rn = Some None" by (rule carriesE [OF assms(2)])
  obtain ro where ro: "packet_opcode po = dc_code DCMSG_LOAD_ENTITY_ONCE" "packet_guid po = g"
    "parse_packet (cc_request cd) po = Some ro" "request_entity cd g ro = Some None" by (rule carriesE [OF assms(3)])
  show ?thesis using assms(1) rn ro
    by (simp add: cache_eval handle_new_entity_with_flush_def handle_load_entity_once_def xi_update_def xi_query_copy_def
        read_item_def)
qed

lemma empty_flush_faults_witness:
  "run_events (cache_step plain_codec) [Ca_packet 1 (new_packet 8 9 []), Ca_packet 2 (new_packet 7 9 [])] (Some new_cache) = None"
  using empty_flush_faults [of new_cache 9 plain_codec "new_packet 8 9 []" "new_packet 7 9 []" 1 2]
    plain_carries [of "[]" DCMSG_NEW_ENEITY_WITH_FLUSH 9] plain_carries [of "[]" DCMSG_LOAD_ENTITY_ONCE 9]
  by (simp add: new_cache_def)

lemma flight_abs:
  "flight c = map (\<lambda>x. fst (snd x)) (filter (\<lambda>x. fst x = 2) (sc_loading (cache_abs c))) @
    map (\<lambda>x. fst (snd x)) (filter (\<lambda>x. fst x = 2) (sc_loaded (cache_abs c)))"
  by (simp add: flight_def cache_abs_def filter_map o_def)

text \<open>Removing an entity does not keep it away. A load after the removal asks the database,
  marked as deleted or not; as long as the converter has not removed the row there, the old
  entity is loaded, lives in the cache again and is sent as the answer.\<close>

theorem removed_entity_returns:
  assumes "cache_ok None c" "ca_loading c = []" "ca_loaded c = []"
    and "carries cd pr DCMSG_REMOVE_ENTITY g e" "carries cd pl DCMSG_LOAD_ENTITY g None"
    and "\<And>name. cc_create cd g name \<noteq> None"
  shows "\<exists>c'. run_events (cache_step cd) [Ca_packet t pr, Ca_packet t' pl, Ca_db 0 (Some m), Ca_answer] (Some c) = Some c' \<and>
    sc_live (cache_abs c') g = Some m \<and>
    last (ca_out c') = \<lparr> rp_opcode = 2, rp_guid = g, rp_status = STATE_NORMAL, rp_message = Some (cc_ser cd m),
      rp_owner = p_owner pl \<rparr>"
proof -
  obtain rr where rr: "packet_opcode pr = dc_code DCMSG_REMOVE_ENTITY" "packet_guid pr = g"
    "parse_packet (cc_request cd) pr = Some rr" "request_entity cd g rr = Some e" by (rule carriesE [OF assms(4)])
  obtain rl where rl: "packet_opcode pl = dc_code DCMSG_LOAD_ENTITY" "packet_guid pl = g"
    "parse_packet (cc_request cd) pl = Some rl" "request_entity cd g rl = Some None" by (rule carriesE [OF assms(5)])
  have q: "sc_loading (cache_abs c) = []" "sc_loaded (cache_abs c) = []" using assms(2,3) by (simp_all add: cache_abs_def)
  have "cache_allowed cd (Ca_packet t pr) (Some c)" using rr by (simp add: request_allowed_def)
  then obtain c1 where c1: "cache_event_step cd (Ca_packet t pr) c = Some c1" "cache_ok None c1"
    "cache_abs c1 = shelf_step cd (Ca_packet t pr) (cache_abs c)" using cache_event_refines [OF assms(1)] by blast
  have a1: "sc_live (cache_abs c1) g = None" "sc_shelf (cache_abs c1) g = None" "sc_loading (cache_abs c1) = []"
    "sc_loaded (cache_abs c1) = []" using c1(3) rr q by (simp_all add: sc_request_def sc_reply_def)
  then have "cache_allowed cd (Ca_packet t' pl) (Some c1)" using rl by (simp add: request_allowed_def flight_abs)
  then obtain c2 where c2: "cache_event_step cd (Ca_packet t' pl) c1 = Some c2" "cache_ok None c2"
    "cache_abs c2 = shelf_step cd (Ca_packet t' pl) (cache_abs c1)" using cache_event_refines [OF c1(2)] by blast
  have a2: "sc_loading (cache_abs c2) = [(2, g, dr_name rl, p_owner pl)]" "sc_loaded (cache_abs c2) = []"
    using c2(3) rl a1 by (simp_all add: sc_request_def sc_ask_def)
  then have "ca_loading c2 \<noteq> []" by (auto simp: cache_abs_def)
  then have "cache_allowed cd (Ca_db 0 (Some m)) (Some c2)" by simp
  then obtain c3 where c3: "cache_event_step cd (Ca_db 0 (Some m)) c2 = Some c3" "cache_ok None c3"
    "cache_abs c3 = shelf_step cd (Ca_db 0 (Some m)) (cache_abs c2)" using cache_event_refines [OF c2(2)] by blast
  have a3: "sc_loaded (cache_abs c3) = [(2, g, p_owner pl, Some m)]"
    using c3(3) a2 assms(6) by (simp add: sc_db_def)
  have "cache_allowed cd Ca_answer (Some c3)" by simp
  then obtain c4 where c4: "cache_event_step cd Ca_answer c3 = Some c4" "cache_ok None c4"
    "cache_abs c4 = shelf_step cd Ca_answer (cache_abs c3)" using cache_event_refines [OF c3(2)] by blast
  have "sc_live (cache_abs c4) g = Some m"
    "last (sc_out (cache_abs c4)) = \<lparr> rp_opcode = 2, rp_guid = g, rp_status = STATE_NORMAL, rp_message = Some (cc_ser cd m),
      rp_owner = p_owner pl \<rparr>" using c4(3) a3 by (simp_all add: sc_answer_def sc_reply_def)
  moreover have "run_events (cache_step cd) [Ca_packet t pr, Ca_packet t' pl, Ca_db 0 (Some m), Ca_answer] (Some c) = Some c4"
    using c1(1) c2(1) c3(1) c4(1) by (simp add: cache_step_def del: cache_event_step.simps)
  ultimately show ?thesis by (auto simp: cache_abs_def)
qed

lemma removed_entity_returns_witness:
  "\<exists>c. run_events (cache_step plain_codec)
    [Ca_packet 1 (new_packet 6 9 []), Ca_packet 2 (new_packet 2 9 []), Ca_db 0 (Some [4]), Ca_answer] (Some new_cache) = Some c \<and>
    sc_live (cache_abs c) 9 = Some [4]"
  using removed_entity_returns [OF cache_ok_new, of plain_codec "new_packet 6 9 []" 9 None "new_packet 2 9 []" 1 2 "[4]"]
    plain_carries [of "[]" DCMSG_REMOVE_ENTITY 9] plain_carries [of "[]" DCMSG_LOAD_ENTITY 9]
  by (auto simp: new_cache_def plain_codec_def)

end
