(* ===== verification/Grid.thy ===== *)
theory Grid
  imports Prelude "HOL-Library.Monad_Syntax"
begin

text \<open>
  Who sees whom in a scene: \<^verbatim>\<open>scene/src/ManageGridOptimize.cpp\<close>. The scene's thread calls the
  operations, which queue a request; the grid's thread takes the requests and keeps the map of
  all players, the map of the selected ones, whom everybody sees, and the set of the others.
  The two maps point to the same objects, which live on the heap; a step returns \<open>None\<close> when it
  reads or deletes an object that was deleted. What \<^verbatim>\<open>SEND_PLAYER_MESSAGE\<close> gets is the list
  \<open>gr_out\<close> of receivers and messages, before they are serialised.
\<close>

section \<open>Data\<close>

text \<open>The fields of the protobuf message \<^verbatim>\<open>typed::entity::Player\<close> the grid reads.\<close>

record player =
  py_guid :: guid
  py_role_id :: u32
  py_level :: u32
  py_sex :: u32
  py_src_x :: u32
  py_src_y :: u32
  py_dst_x :: u32
  py_dst_y :: u32
  py_direction :: u32
  py_first_role :: u64
  py_flower_rank :: u32
  py_name :: "u8 list"
  py_guild_name :: "u8 list"
  py_guild_icon :: u32
  py_follow_role_id :: u32
  py_current_title :: "u32 list"
  py_special_right :: u32
  py_horse_id :: u32
  py_wife_follow :: u32
  py_yellow_vip_level :: u32
  py_is_yellow_vip :: u32
  py_is_yellow_year_vip :: u32
  py_is_yellow_high_vip :: u32

record player_grid_info =
  pi_guid :: guid
  pi_role_id :: u32
  pi_level :: u32
  pi_sex :: u32
  pi_src_x :: u32
  pi_src_y :: u32
  pi_dst_x :: u32
  pi_dst_y :: u32
  pi_direction :: u32
  pi_first_role :: u64
  pi_is_selected :: bool
  pi_flower_rank :: u32
  pi_name :: "u8 list"
  pi_guild_name :: "u8 list"
  pi_guild_icon :: u32
  pi_follow_role_id :: u32
  pi_title_vec :: "u32 list"
  pi_special_right :: u32
  pi_horse_id :: u32
  pi_wife_follow :: u32
  pi_yellow_vip_level :: u32
  pi_is_yellow_vip :: u32
  pi_is_yellow_year_vip :: u32
  pi_is_yellow_high_vip :: u32

definition new_player_grid_info :: player_grid_info where
  "new_player_grid_info =
     \<lparr> pi_guid = 0, pi_role_id = 0, pi_level = 0, pi_sex = 0, pi_src_x = 0, pi_src_y = 0, pi_dst_x = 0, pi_dst_y = 0,
       pi_direction = 0, pi_first_role = 0, pi_is_selected = False, pi_flower_rank = 0, pi_name = [],
       pi_guild_name = [], pi_guild_icon = 0, pi_follow_role_id = 0, pi_title_vec = [], pi_special_right = 0,
       pi_horse_id = 0, pi_wife_follow = 0, pi_yellow_vip_level = 0, pi_is_yellow_vip = 0,
       pi_is_yellow_year_vip = 0, pi_is_yellow_high_vip = 0 \<rparr>"

record player_move_info =
  mv_src_x :: u32
  mv_src_y :: u32
  mv_dst_x :: u32
  mv_dst_y :: u32

datatype player_grid_op_type = PGOP_BASE | PGOP_ADD | PGOP_READD | PGOP_MOVE | PGOP_REMOVE | PGOP_LEVELUP
  | PGOP_BROADCAST | PGOP_FLOWERRANK | PGOP_UPDATE_GUILD_NAME | PGOP_UPDATE_FOLLOW_ROLE_ID | PGOP_UPDATE_TITLE
  | PGOP_UPDATE_SPECIAL_RIGHT | PGOP_UPDATE_HORSE | PGOP_UPDATE_WIFE_FOLLOW | PGOP_UPDATE_YELLOW_VIP_LEVEL

text \<open>A packet to broadcast is its opcode, guid and body.\<close>

record player_grid_operation =
  go_guid :: guid
  go_level :: u32
  go_flower_rank :: u32
  go_op :: player_grid_op_type
  go_info :: "player_grid_info option"
  go_move :: "player_move_info option"
  go_packet :: "(u16 \<times> guid \<times> u8 list) option"
  go_guild_name :: "u8 list"
  go_guild_icon :: u32
  go_follow_role_id :: u32
  go_title_vec :: "u32 list"
  go_special_right :: u32
  go_horse_id :: u32
  go_wife_follow :: u32
  go_yellow_vip_level :: u32
  go_is_yellow_vip :: u32
  go_is_yellow_year_vip :: u32
  go_is_yellow_high_vip :: u32

definition new_player_grid_operation :: player_grid_operation where
  "new_player_grid_operation =
     \<lparr> go_guid = 0, go_level = 1, go_flower_rank = 0, go_op = PGOP_BASE, go_info = None, go_move = None,
       go_packet = None, go_guild_name = [], go_guild_icon = 0, go_follow_role_id = 0, go_title_vec = [],
       go_special_right = 0, go_horse_id = 0, go_wife_follow = 0, go_yellow_vip_level = 0, go_is_yellow_vip = 0,
       go_is_yellow_year_vip = 0, go_is_yellow_high_vip = 0 \<rparr>"

text \<open>The messages to clients, each with the fields the code sets.\<close>

datatype grid_msg = SMSG_CREATE_OTHER player_grid_info | SMSG_PLAYER_MOVE guid player_move_info
  | SMSG_PLAYER_REMOVE guid | SMSG_UPDATE_FLOWER_RANK guid u32 | SMSG_UPDATE_OTHER_GUILD_NAME guid "u8 list" u32
  | SMSG_UPDATE_FOLLOW_ROLE guid u32 | SMSG_UPDATE_CURRENT_TITLE guid "u32 list" | SMSG_UPDATE_SPECIAL_RIGHT guid u32
  | SMSG_UPDATE_HORSE_ID guid u32 | SMSG_WIFE_UPDATE_FOLLOW guid u32
  | SMSG_UPDATE_YELLOW_VIP_LEVEL guid u32 u32 u32 u32 | SMSG_OTHER u16 "u8 list"

record grid =
  gr_heap :: "nat \<Rightarrow> player_grid_info option"
  gr_next :: nat
  gr_infos :: "(guid, nat) fmap"
  gr_selected :: "(guid, nat) fmap"
  gr_not_selected :: "guid fset"
  gr_num :: int
  gr_ops :: "player_grid_operation list"
  gr_out :: "(guid \<times> grid_msg) list"

definition new_grid :: grid where
  "new_grid = \<lparr> gr_heap = (\<lambda>_. None), gr_next = 0, gr_infos = fmempty, gr_selected = fmempty,
     gr_not_selected = {||}, gr_num = 100, gr_ops = [], gr_out = [] \<rparr>"

definition set_max_screen_number :: "int \<Rightarrow> grid \<Rightarrow> grid" where
  "set_max_screen_number n s = s\<lparr> gr_num := n \<rparr>"

section \<open>The calls of the scene\<close>

definition fill_player_grid_info :: "player \<Rightarrow> player_grid_info \<Rightarrow> player_grid_info" where
  "fill_player_grid_info p i =
     i\<lparr> pi_guid := py_guid p, pi_role_id := py_role_id p, pi_level := py_level p, pi_sex := py_sex p,
        pi_src_x := py_src_x p, pi_src_y := py_src_y p, pi_dst_x := py_dst_x p, pi_dst_y := py_dst_y p,
        pi_direction := py_direction p, pi_first_role := py_first_role p, pi_flower_rank := py_flower_rank p,
        pi_name := py_name p, pi_guild_name := py_guild_name p, pi_follow_role_id := py_follow_role_id p,
        pi_title_vec := pi_title_vec i @ py_current_title p, pi_special_right := py_special_right p,
        pi_horse_id := py_horse_id p, pi_wife_follow := py_wife_follow p,
        pi_yellow_vip_level := py_yellow_vip_level p, pi_is_yellow_vip := py_is_yellow_vip p,
        pi_is_yellow_year_vip := py_is_yellow_year_vip p, pi_is_yellow_high_vip := py_is_yellow_high_vip p \<rparr>"

definition fill_player_move_info :: "player \<Rightarrow> player_move_info" where
  "fill_player_move_info p =
     \<lparr> mv_src_x = py_src_x p, mv_src_y = py_src_y p, mv_dst_x = py_dst_x p, mv_dst_y = py_dst_y p \<rparr>"

definition put_op :: "player_grid_operation \<Rightarrow> grid \<Rightarrow> grid" where
  "put_op op s = s\<lparr> gr_ops := gr_ops s @ [op] \<rparr>"

definition grid_add :: "player \<Rightarrow> grid \<Rightarrow> grid" where
  "grid_add p = put_op (new_player_grid_operation\<lparr> go_op := PGOP_ADD, go_guid := py_guid p,
     go_info := Some (fill_player_grid_info p new_player_grid_info) \<rparr>)"

definition grid_readd :: "player \<Rightarrow> grid \<Rightarrow> grid" where
  "grid_readd p = put_op (new_player_grid_operation\<lparr> go_op := PGOP_READD, go_guid := py_guid p \<rparr>)"

definition grid_move :: "player \<Rightarrow> grid \<Rightarrow> grid" where
  "grid_move p = put_op (new_player_grid_operation\<lparr> go_op := PGOP_MOVE, go_guid := py_guid p,
     go_move := Some (fill_player_move_info p) \<rparr>)"

definition grid_remove :: "player \<Rightarrow> grid \<Rightarrow> grid" where
  "grid_remove p = put_op (new_player_grid_operation\<lparr> go_op := PGOP_REMOVE, go_guid := py_guid p \<rparr>)"

definition grid_levelup :: "player \<Rightarrow> grid \<Rightarrow> grid" where
  "grid_levelup p = put_op (new_player_grid_operation\<lparr> go_op := PGOP_LEVELUP, go_guid := py_guid p,
     go_level := py_level p \<rparr>)"

definition grid_flower_rank :: "player \<Rightarrow> grid \<Rightarrow> grid" where
  "grid_flower_rank p = put_op (new_player_grid_operation\<lparr> go_guid := py_guid p, go_op := PGOP_FLOWERRANK,
     go_flower_rank := py_flower_rank p \<rparr>)"

definition grid_update_guild_name :: "player \<Rightarrow> grid \<Rightarrow> grid" where
  "grid_update_guild_name p = put_op (new_player_grid_operation\<lparr> go_guid := py_guid p,
     go_op := PGOP_UPDATE_GUILD_NAME, go_guild_name := py_guild_name p, go_guild_icon := py_guild_icon p \<rparr>)"

definition grid_update_follow_role_id :: "player \<Rightarrow> grid \<Rightarrow> grid" where
  "grid_update_follow_role_id p = put_op (new_player_grid_operation\<lparr> go_guid := py_guid p,
     go_op := PGOP_UPDATE_FOLLOW_ROLE_ID, go_follow_role_id := py_follow_role_id p \<rparr>)"

definition grid_update_title :: "player \<Rightarrow> grid \<Rightarrow> grid" where
  "grid_update_title p = put_op (new_player_grid_operation\<lparr> go_guid := py_guid p,
     go_op := PGOP_UPDATE_TITLE, go_title_vec := py_current_title p \<rparr>)"

definition grid_update_special_right :: "player \<Rightarrow> grid \<Rightarrow> grid" where
  "grid_update_special_right p = put_op (new_player_grid_operation\<lparr> go_guid := py_guid p,
     go_op := PGOP_UPDATE_SPECIAL_RIGHT, go_special_right := py_special_right p \<rparr>)"

definition grid_update_horse :: "player \<Rightarrow> grid \<Rightarrow> grid" where
  "grid_update_horse p = put_op (new_player_grid_operation\<lparr> go_guid := py_guid p,
     go_op := PGOP_UPDATE_HORSE, go_horse_id := py_horse_id p \<rparr>)"

definition grid_update_wife_follow :: "player \<Rightarrow> grid \<Rightarrow> grid" where
  "grid_update_wife_follow p = put_op (new_player_grid_operation\<lparr> go_guid := py_guid p,
     go_op := PGOP_UPDATE_WIFE_FOLLOW, go_wife_follow := py_wife_follow p \<rparr>)"

definition grid_update_yellow_vip_level :: "player \<Rightarrow> grid \<Rightarrow> grid" where
  "grid_update_yellow_vip_level p = put_op (new_player_grid_operation\<lparr> go_guid := py_guid p,
     go_op := PGOP_UPDATE_YELLOW_VIP_LEVEL, go_yellow_vip_level := py_yellow_vip_level p,
     go_is_yellow_vip := py_is_yellow_vip p, go_is_yellow_year_vip := py_is_yellow_year_vip p,
     go_is_yellow_high_vip := py_is_yellow_high_vip p \<rparr>)"

definition grid_broadcast_packet :: "(u16 \<times> guid \<times> u8 list) option \<Rightarrow> grid \<Rightarrow> grid" where
  "grid_broadcast_packet packet s =
     (case packet of
        None \<Rightarrow> s
      | Some (op, g, body) \<Rightarrow> put_op (new_player_grid_operation\<lparr> go_guid := g, go_op := PGOP_BROADCAST,
          go_packet := Some (op, g, body) \<rparr>) s)"

section \<open>Sending\<close>

definition send :: "guid \<Rightarrow> grid_msg \<Rightarrow> grid \<Rightarrow> grid" where
  "send g m s = s\<lparr> gr_out := gr_out s @ [(g, m)] \<rparr>"

text \<open>The two loops over the selected players and over the others, without one of them.\<close>

definition send_others :: "guid \<Rightarrow> grid_msg \<Rightarrow> grid \<Rightarrow> grid" where
  "send_others g m s =
     (let s = fold (\<lambda>(h, a) s. if h = g then s else send h m s) (fm_items (gr_selected s)) s
      in fold (\<lambda>h s. if h = g then s else send h m s) (fs_items (gr_not_selected s)) s)"

definition do_broadcast_packet :: "grid_msg \<Rightarrow> grid \<Rightarrow> grid" where
  "do_broadcast_packet m s =
     (let s = fold (\<lambda>(h, a) s. send h m s) (fm_items (gr_selected s)) s
      in fold (\<lambda>h s. send h m s) (fs_items (gr_not_selected s)) s)"

definition player_move :: "player_grid_info \<Rightarrow> grid \<Rightarrow> grid" where
  "player_move i s =
     (let m = SMSG_PLAYER_MOVE (pi_guid i) \<lparr> mv_src_x = pi_src_x i, mv_src_y = pi_src_y i, mv_dst_x = pi_dst_x i,
                mv_dst_y = pi_dst_y i \<rparr>;
          s = fold (\<lambda>(h, a) s. send h m s) (fm_items (gr_selected s)) s
      in fold (\<lambda>h s. send h m s) (fs_items (gr_not_selected s)) s)"

definition player_remove :: "guid \<Rightarrow> grid \<Rightarrow> grid" where
  "player_remove g s = send_others g (SMSG_PLAYER_REMOVE g) s"

text \<open>The source of a created player is its destination.\<close>

definition fill_smsg_create_other :: "player_grid_info \<Rightarrow> player_grid_info" where
  "fill_smsg_create_other i = i\<lparr> pi_src_x := pi_dst_x i, pi_src_y := pi_dst_y i \<rparr>"

primrec create_other_loop :: "guid \<Rightarrow> (guid \<times> nat) list \<Rightarrow> grid \<Rightarrow> grid option" where
  "create_other_loop g [] s = Some s"
| "create_other_loop g (x # xs) s =
     do { i \<leftarrow> gr_heap s (snd x);
          create_other_loop g xs (if g = pi_guid i then s else send g (SMSG_CREATE_OTHER (fill_smsg_create_other i)) s) }"

definition create_other :: "guid \<Rightarrow> grid \<Rightarrow> grid option" where
  "create_other g s = create_other_loop g (fm_items (gr_selected s)) s"

section \<open>The selected players\<close>

definition get_player_grid_info :: "guid \<Rightarrow> grid \<Rightarrow> nat option" where
  "get_player_grid_info g s = fmlookup (gr_infos s) g"

definition set_info :: "nat \<Rightarrow> player_grid_info \<Rightarrow> grid \<Rightarrow> grid" where
  "set_info a i s = s\<lparr> gr_heap := (gr_heap s)(a \<mapsto> i) \<rparr>"

definition remove_player_grid_info :: "guid \<Rightarrow> grid \<Rightarrow> grid option" where
  "remove_player_grid_info g s =
     (case fmlookup (gr_infos s) g of
        None \<Rightarrow> Some s
      | Some a \<Rightarrow>
          if gr_heap s a = None then None
          else Some (s\<lparr> gr_heap := (gr_heap s)(a := None), gr_infos := fmdrop g (gr_infos s) \<rparr>))"

text \<open>\<^verbatim>\<open>std::map::insert\<close> keeps an entry that is there.\<close>

definition add_selected_player :: "nat \<Rightarrow> grid \<Rightarrow> grid option" where
  "add_selected_player a s =
     do { i \<leftarrow> gr_heap s a;
          let i = i\<lparr> pi_is_selected := True \<rparr>;
          let s = set_info a i s;
          let s = (if fmlookup (gr_selected s) (pi_guid i) = None
                   then s\<lparr> gr_selected := fmupd (pi_guid i) a (gr_selected s) \<rparr> else s);
          Some (send_others (pi_guid i) (SMSG_CREATE_OTHER (fill_smsg_create_other i)) s) }"

definition remove_selected_player_map :: "guid \<Rightarrow> grid \<Rightarrow> grid" where
  "remove_selected_player_map g s = s\<lparr> gr_selected := fmdrop g (gr_selected s) \<rparr>"

text \<open>The number is an \<^verbatim>\<open>int\<close> and compared with a \<^verbatim>\<open>size_t\<close>: a negative one becomes huge.\<close>

definition has_slot :: "grid \<Rightarrow> bool" where
  "has_slot s \<longleftrightarrow> gr_num s < 0 \<or> int (fcard (fmdom (gr_selected s))) < gr_num s"

definition sync_selected_player :: "nat \<Rightarrow> grid \<Rightarrow> grid option" where
  "sync_selected_player a s =
     (if has_slot s then add_selected_player a s
      else do { i \<leftarrow> gr_heap s a; Some (s\<lparr> gr_not_selected := finsert (pi_guid i) (gr_not_selected s) \<rparr>) })"

section \<open>The requests\<close>

definition process_add :: "player_grid_operation \<Rightarrow> grid \<Rightarrow> grid option" where
  "process_add op s =
     (case go_info op of
        None \<Rightarrow> Some s
      | Some i \<Rightarrow>
          if get_player_grid_info (go_guid op) s \<noteq> None then Some s
          else
            let a = gr_next s;
                s = s\<lparr> gr_heap := (gr_heap s)(a \<mapsto> i), gr_next := a + 1, gr_infos := fmupd (go_guid op) a (gr_infos s) \<rparr>
            in do { s \<leftarrow> create_other (go_guid op) s; sync_selected_player a s })"

definition process_readd :: "player_grid_operation \<Rightarrow> grid \<Rightarrow> grid option" where
  "process_readd op s =
     (if get_player_grid_info (go_guid op) s = None then Some s else create_other (go_guid op) s)"

definition process_move :: "player_grid_operation \<Rightarrow> grid \<Rightarrow> grid option" where
  "process_move op s =
     (case (go_move op, get_player_grid_info (go_guid op) s) of
        (Some m, Some a) \<Rightarrow>
          do { i \<leftarrow> gr_heap s a;
               let i = i\<lparr> pi_src_x := mv_src_x m, pi_src_y := mv_src_y m, pi_dst_x := mv_dst_x m, pi_dst_y := mv_dst_y m \<rparr>;
               let s = set_info a i s;
               Some (if pi_is_selected i then player_move i s else s) }
      | _ \<Rightarrow> Some s)"

definition process_remove :: "player_grid_operation \<Rightarrow> grid \<Rightarrow> grid option" where
  "process_remove op s =
     (case get_player_grid_info (go_guid op) s of
        None \<Rightarrow> Some s
      | Some a \<Rightarrow>
          do { i \<leftarrow> gr_heap s a;
               s \<leftarrow> (if pi_is_selected i then
                      let s = remove_selected_player_map (go_guid op) (player_remove (go_guid op) s) in
                      (case fs_items (gr_not_selected s) of
                         [] \<Rightarrow> Some s
                       | g # _ \<Rightarrow>
                           (case get_player_grid_info g s of
                              None \<Rightarrow> Some s
                            | Some b \<Rightarrow> add_selected_player b (s\<lparr> gr_not_selected := gr_not_selected s |-| {|g|} \<rparr>)))
                    else Some (s\<lparr> gr_not_selected := gr_not_selected s |-| {|go_guid op|} \<rparr>));
               remove_player_grid_info (go_guid op) s })"

definition process_levelup :: "player_grid_operation \<Rightarrow> grid \<Rightarrow> grid option" where
  "process_levelup op s =
     (case get_player_grid_info (go_guid op) s of
        None \<Rightarrow> Some s
      | Some a \<Rightarrow> do { i \<leftarrow> gr_heap s a; Some (set_info a (i\<lparr> pi_level := go_level op \<rparr>) s) })"

definition process_flower_rank :: "player_grid_operation \<Rightarrow> grid \<Rightarrow> grid option" where
  "process_flower_rank op s =
     (case get_player_grid_info (go_guid op) s of
        None \<Rightarrow> Some s
      | Some a \<Rightarrow>
          do { i \<leftarrow> gr_heap s a;
               let i = i\<lparr> pi_flower_rank := go_flower_rank op \<rparr>;
               let s = set_info a i s;
               if \<not> pi_is_selected i then sync_selected_player a s
               else Some (do_broadcast_packet (SMSG_UPDATE_FLOWER_RANK (pi_guid i) (pi_flower_rank i)) s) })"

text \<open>The other updates share this shape: the fields are set, and the message is broadcast when the
  player is selected.\<close>

definition process_update ::
  "(player_grid_info \<Rightarrow> player_grid_info) \<Rightarrow> (player_grid_info \<Rightarrow> grid_msg) \<Rightarrow> player_grid_operation \<Rightarrow> grid \<Rightarrow> grid option" where
  "process_update upd msg op s =
     (case get_player_grid_info (go_guid op) s of
        None \<Rightarrow> Some s
      | Some a \<Rightarrow>
          do { i \<leftarrow> gr_heap s a;
               let i = upd i;
               let s = set_info a i s;
               Some (if pi_is_selected i then do_broadcast_packet (msg i) s else s) })"

definition process_update_guild_name :: "player_grid_operation \<Rightarrow> grid \<Rightarrow> grid option" where
  "process_update_guild_name op =
     process_update (\<lambda>i. i\<lparr> pi_guild_name := go_guild_name op, pi_guild_icon := go_guild_icon op \<rparr>)
       (\<lambda>i. SMSG_UPDATE_OTHER_GUILD_NAME (pi_guid i) (pi_guild_name i) (pi_guild_icon i)) op"

definition process_follow_role_id :: "player_grid_operation \<Rightarrow> grid \<Rightarrow> grid option" where
  "process_follow_role_id op =
     process_update (\<lambda>i. i\<lparr> pi_follow_role_id := go_follow_role_id op \<rparr>)
       (\<lambda>i. SMSG_UPDATE_FOLLOW_ROLE (pi_guid i) (pi_follow_role_id i)) op"

definition process_update_title :: "player_grid_operation \<Rightarrow> grid \<Rightarrow> grid option" where
  "process_update_title op =
     process_update (\<lambda>i. i\<lparr> pi_title_vec := go_title_vec op \<rparr>)
       (\<lambda>i. SMSG_UPDATE_CURRENT_TITLE (pi_guid i) (go_title_vec op)) op"

definition process_special_right :: "player_grid_operation \<Rightarrow> grid \<Rightarrow> grid option" where
  "process_special_right op =
     process_update (\<lambda>i. i\<lparr> pi_special_right := go_special_right op \<rparr>)
       (\<lambda>i. SMSG_UPDATE_SPECIAL_RIGHT (pi_guid i) (go_special_right op)) op"

definition process_horse :: "player_grid_operation \<Rightarrow> grid \<Rightarrow> grid option" where
  "process_horse op =
     process_update (\<lambda>i. i\<lparr> pi_horse_id := go_horse_id op \<rparr>)
       (\<lambda>i. SMSG_UPDATE_HORSE_ID (pi_guid i) (go_horse_id op)) op"

definition process_wife_follow :: "player_grid_operation \<Rightarrow> grid \<Rightarrow> grid option" where
  "process_wife_follow op =
     process_update (\<lambda>i. i\<lparr> pi_wife_follow := go_wife_follow op \<rparr>)
       (\<lambda>i. SMSG_WIFE_UPDATE_FOLLOW (pi_guid i) (go_wife_follow op)) op"

definition process_yellow_vip_level :: "player_grid_operation \<Rightarrow> grid \<Rightarrow> grid option" where
  "process_yellow_vip_level op =
     process_update (\<lambda>i. i\<lparr> pi_yellow_vip_level := go_yellow_vip_level op, pi_is_yellow_vip := go_is_yellow_vip op,
         pi_is_yellow_year_vip := go_is_yellow_year_vip op, pi_is_yellow_high_vip := go_is_yellow_high_vip op \<rparr>)
       (\<lambda>i. SMSG_UPDATE_YELLOW_VIP_LEVEL (pi_guid i) (go_yellow_vip_level op) (go_is_yellow_vip op)
         (go_is_yellow_year_vip op) (go_is_yellow_high_vip op)) op"

definition process_broadcast :: "player_grid_operation \<Rightarrow> grid \<Rightarrow> grid option" where
  "process_broadcast op s =
     (case go_packet op of
        None \<Rightarrow> Some s
      | Some (opcode, g, body) \<Rightarrow>
          (case get_player_grid_info (go_guid op) s of
             None \<Rightarrow> Some (do_broadcast_packet (SMSG_OTHER opcode body) s)
           | Some a \<Rightarrow>
               do { i \<leftarrow> gr_heap s a;
                    Some (if pi_is_selected i then do_broadcast_packet (SMSG_OTHER opcode body) s else s) }))"

definition grid_process :: "player_grid_operation \<Rightarrow> grid \<Rightarrow> grid option" where
  "grid_process op s =
     (case go_op op of
        PGOP_BASE \<Rightarrow> Some s
      | PGOP_ADD \<Rightarrow> process_add op s
      | PGOP_READD \<Rightarrow> process_readd op s
      | PGOP_MOVE \<Rightarrow> process_move op s
      | PGOP_REMOVE \<Rightarrow> process_remove op s
      | PGOP_LEVELUP \<Rightarrow> process_levelup op s
      | PGOP_BROADCAST \<Rightarrow> process_broadcast op s
      | PGOP_FLOWERRANK \<Rightarrow> process_flower_rank op s
      | PGOP_UPDATE_GUILD_NAME \<Rightarrow> process_update_guild_name op s
      | PGOP_UPDATE_FOLLOW_ROLE_ID \<Rightarrow> process_follow_role_id op s
      | PGOP_UPDATE_TITLE \<Rightarrow> process_update_title op s
      | PGOP_UPDATE_SPECIAL_RIGHT \<Rightarrow> process_special_right op s
      | PGOP_UPDATE_HORSE \<Rightarrow> process_horse op s
      | PGOP_UPDATE_WIFE_FOLLOW \<Rightarrow> process_wife_follow op s
      | PGOP_UPDATE_YELLOW_VIP_LEVEL \<Rightarrow> process_yellow_vip_level op s)"

text \<open>A round of \<^verbatim>\<open>svc\<close>: the queue is taken and each request processed.\<close>

primrec process_all :: "player_grid_operation list \<Rightarrow> grid \<Rightarrow> grid option" where
  "process_all [] s = Some s"
| "process_all (op # ops) s = do { s \<leftarrow> grid_process op s; process_all ops s }"

definition grid_round :: "grid \<Rightarrow> grid option" where
  "grid_round s = process_all (gr_ops s) (s\<lparr> gr_ops := [] \<rparr>)"

end
