(* ===== verification/GridScreens.thy ===== *)
theory GridScreens
  imports Grid
begin

text \<open>
  What players see. The messages of the grid are applied to the screens of the clients: at every
  moment every player in the scene sees exactly the selected players except itself, as the grid
  has them. The grid touches no deleted object, and nobody is left out while there is room.
  No message tells a level, so levels are compared in runs where nobody levels up. A player that comes on a screen is
  put at its destination, so a player is seen at the source of its last movement or at the destination.
\<close>

section \<open>Invariant\<close>

text \<open>\<open>M\<close> is the map of the players, or a part of it while one of them comes or goes.\<close>

definition infos_ok :: "(guid, nat) fmap \<Rightarrow> grid \<Rightarrow> bool" where
  "infos_ok M s \<longleftrightarrow> (\<forall>a \<ge> gr_next s. gr_heap s a = None) \<and>
     (\<forall>g a. fmlookup M g = Some a \<longrightarrow> (\<exists>i. gr_heap s a = Some i \<and> pi_guid i = g \<and>
        pi_is_selected i = (fmlookup (gr_selected s) g = Some a) \<and> pi_is_selected i = (g |\<notin>| gr_not_selected s))) \<and>
     (\<forall>g a. fmlookup (gr_selected s) g = Some a \<longrightarrow> fmlookup M g = Some a) \<and>
     (\<forall>g. g |\<in>| gr_not_selected s \<longrightarrow> fmlookup M g \<noteq> None)"

definition slots_ok :: "grid \<Rightarrow> bool" where
  "slots_ok s \<longleftrightarrow> (0 \<le> gr_num s \<longrightarrow> int (fcard (fmdom (gr_selected s))) \<le> gr_num s) \<and>
     (gr_not_selected s \<noteq> {||} \<longrightarrow> \<not> has_slot s)"

text \<open>With \<open>lv\<close> nobody levels up.\<close>

definition op_ok :: "bool \<Rightarrow> player_grid_operation \<Rightarrow> bool" where
  "op_ok lv op \<longleftrightarrow> (go_op op = PGOP_ADD \<longrightarrow>
     (\<exists>i. go_info op = Some i \<and> pi_guid i = go_guid op \<and> \<not> pi_is_selected i)) \<and> (lv \<longrightarrow> go_op op \<noteq> PGOP_LEVELUP)"

definition grid_ok :: "bool \<Rightarrow> grid \<Rightarrow> bool" where
  "grid_ok lv s \<longleftrightarrow> infos_ok (gr_infos s) s \<and> slots_ok s \<and> (\<forall>op \<in> set (gr_ops s). op_ok lv op)"

definition everyone :: "grid \<Rightarrow> guid list" where
  "everyone s = map fst (fm_items (gr_selected s)) @ fs_items (gr_not_selected s)"

lemma infos_okD:
  assumes "infos_ok M s" "fmlookup M g = Some a"
  obtains i where "gr_heap s a = Some i" "pi_guid i = g" "pi_is_selected i = (fmlookup (gr_selected s) g = Some a)"
    "pi_is_selected i = (g |\<notin>| gr_not_selected s)"
  using assms unfolding infos_ok_def by blast

lemma infos_ok_selected: "infos_ok M s \<Longrightarrow> fmlookup (gr_selected s) g = Some a \<Longrightarrow> fmlookup M g = Some a"
  by (simp add: infos_ok_def)

lemma selected_not: "infos_ok M s \<Longrightarrow> fmlookup (gr_selected s) g = Some a \<Longrightarrow> g |\<notin>| gr_not_selected s"
  by (metis infos_okD infos_ok_selected)

lemma everyone_ok:
  assumes "infos_ok M s"
  shows "distinct (everyone s)" "set (everyone s) = fset (fmdom M)"
proof -
  have "g |\<notin>| gr_not_selected s" if "g |\<in>| fmdom (gr_selected s)" for g
    using selected_not [OF assms] that by (auto simp: fmlookup_dom_iff)
  then show "distinct (everyone s)" by (auto simp: everyone_def fm_items_keys)
  have "g |\<in>| fmdom M \<longleftrightarrow> g |\<in>| fmdom (gr_selected s) \<or> g |\<in>| gr_not_selected s" for g
  proof
    assume "g |\<in>| fmdom M"
    then obtain a where "fmlookup M g = Some a" by (auto simp: fmlookup_dom_iff)
    with assms show "g |\<in>| fmdom (gr_selected s) \<or> g |\<in>| gr_not_selected s"
      by (metis fmdomI infos_okD)
  next
    assume "g |\<in>| fmdom (gr_selected s) \<or> g |\<in>| gr_not_selected s"
    then show "g |\<in>| fmdom M" using assms by (auto simp: infos_ok_def fmlookup_dom_iff)
  qed
  then show "set (everyone s) = fset (fmdom M)" by (auto simp: everyone_def fm_items_keys)
qed

section \<open>What is sent\<close>

lemma fold_send: "fold (\<lambda>h s. if P h then s else send h m s) hs s =
    s\<lparr> gr_out := gr_out s @ map (\<lambda>h. (h, m)) (filter (\<lambda>h. \<not> P h) hs) \<rparr>"
  by (induction hs arbitrary: s) (auto simp: send_def)

lemma fold_send_fst: "fold (\<lambda>(h, a) s. if P h then s else send h m s) xs s = fold (\<lambda>h s. if P h then s else send h m s) (map fst xs) s"
  by (induction xs arbitrary: s) auto

lemma fold_send_all: "fold (\<lambda>(h, a) s. send h m s) xs s = fold (\<lambda>h s. if False then s else send h m s) (map fst xs) s"
  "fold (\<lambda>h s. send h m s) hs s = fold (\<lambda>h s. if False then s else send h m s) hs s"
  using fold_send_fst [of "\<lambda>_. False" m xs s] by simp_all

lemma send_others_eq:
  "send_others g m s = s\<lparr> gr_out := gr_out s @ map (\<lambda>h. (h, m)) (filter (\<lambda>h. h \<noteq> g) (everyone s)) \<rparr>"
  by (simp add: send_others_def fold_send_fst fold_send everyone_def Let_def)

lemma broadcast_eq: "do_broadcast_packet m s = s\<lparr> gr_out := gr_out s @ map (\<lambda>h. (h, m)) (everyone s) \<rparr>"
  by (simp only: do_broadcast_packet_def fold_send_all fold_send Let_def) (simp add: everyone_def)

lemma player_move_eq:
  "player_move i s = do_broadcast_packet (SMSG_PLAYER_MOVE (pi_guid i)
     \<lparr> mv_src_x = pi_src_x i, mv_src_y = pi_src_y i, mv_dst_x = pi_dst_x i, mv_dst_y = pi_dst_y i \<rparr>) s"
  by (simp add: player_move_def do_broadcast_packet_def Let_def)

lemma create_other_loop_eq:
  assumes "\<forall>(h, a) \<in> set xs. \<exists>i. gr_heap s a = Some i \<and> pi_guid i = h"
  shows "create_other_loop g xs s = Some (s\<lparr> gr_out := gr_out s @
    map (\<lambda>(h, a). (g, SMSG_CREATE_OTHER (fill_smsg_create_other (the (gr_heap s a))))) (filter (\<lambda>(h, a). h \<noteq> g) xs) \<rparr>)"
  using assms
proof (induction xs arbitrary: s)
  case (Cons x xs)
  obtain h a where x: "x = (h, a)" by fastforce
  with Cons.prems obtain i where i: "gr_heap s a = Some i" "pi_guid i = h" by auto
  define s1 where "s1 = (if g = h then s else send g (SMSG_CREATE_OTHER (fill_smsg_create_other i)) s)"
  have h1: "gr_heap s1 = gr_heap s" by (simp add: s1_def send_def)
  then have "create_other_loop g xs s1 = Some (s1\<lparr> gr_out := gr_out s1 @
    map (\<lambda>(h, a). (g, SMSG_CREATE_OTHER (fill_smsg_create_other (the (gr_heap s a))))) (filter (\<lambda>(h, a). h \<noteq> g) xs) \<rparr>)"
    using Cons by simp
  then show ?case using i x by (auto simp: s1_def send_def)
qed simp

section \<open>Screens\<close>

type_synonym screens = "guid \<Rightarrow> guid \<Rightarrow> player_grid_info option"

fun show_msg :: "grid_msg \<Rightarrow> (guid \<Rightarrow> player_grid_info option) \<Rightarrow> guid \<Rightarrow> player_grid_info option" where
  "show_msg (SMSG_CREATE_OTHER i) v = v(pi_guid i \<mapsto> i)"
| "show_msg (SMSG_PLAYER_REMOVE g) v = v(g := None)"
| "show_msg (SMSG_PLAYER_MOVE g m) v = v(g := map_option (\<lambda>i. i\<lparr> pi_src_x := mv_src_x m, pi_src_y := mv_src_y m,
     pi_dst_x := mv_dst_x m, pi_dst_y := mv_dst_y m \<rparr>) (v g))"
| "show_msg (SMSG_UPDATE_FLOWER_RANK g x) v = v(g := map_option (\<lambda>i. i\<lparr> pi_flower_rank := x \<rparr>) (v g))"
| "show_msg (SMSG_UPDATE_OTHER_GUILD_NAME g x y) v =
     v(g := map_option (\<lambda>i. i\<lparr> pi_guild_name := x, pi_guild_icon := y \<rparr>) (v g))"
| "show_msg (SMSG_UPDATE_FOLLOW_ROLE g x) v = v(g := map_option (\<lambda>i. i\<lparr> pi_follow_role_id := x \<rparr>) (v g))"
| "show_msg (SMSG_UPDATE_CURRENT_TITLE g x) v = v(g := map_option (\<lambda>i. i\<lparr> pi_title_vec := x \<rparr>) (v g))"
| "show_msg (SMSG_UPDATE_SPECIAL_RIGHT g x) v = v(g := map_option (\<lambda>i. i\<lparr> pi_special_right := x \<rparr>) (v g))"
| "show_msg (SMSG_UPDATE_HORSE_ID g x) v = v(g := map_option (\<lambda>i. i\<lparr> pi_horse_id := x \<rparr>) (v g))"
| "show_msg (SMSG_WIFE_UPDATE_FOLLOW g x) v = v(g := map_option (\<lambda>i. i\<lparr> pi_wife_follow := x \<rparr>) (v g))"
| "show_msg (SMSG_UPDATE_YELLOW_VIP_LEVEL g x y z w) v = v(g := map_option (\<lambda>i. i\<lparr> pi_yellow_vip_level := x,
     pi_is_yellow_vip := y, pi_is_yellow_year_vip := z, pi_is_yellow_high_vip := w \<rparr>) (v g))"
| "show_msg (SMSG_OTHER opcode body) v = v"

definition show_to :: "guid \<times> grid_msg \<Rightarrow> screens \<Rightarrow> screens" where
  "show_to x scr = scr(fst x := show_msg (snd x) (scr (fst x)))"

text \<open>What a player \<open>v\<close> on a screen tells of the player \<open>i\<close> of the grid.\<close>

definition agree :: "bool \<Rightarrow> player_grid_info \<Rightarrow> player_grid_info \<Rightarrow> bool" where
  "agree lv v i \<longleftrightarrow>
     v\<lparr> pi_level := pi_level i, pi_src_x := pi_src_x i, pi_src_y := pi_src_y i, pi_is_selected := pi_is_selected i \<rparr> = i \<and>
     (lv \<longrightarrow> pi_level v = pi_level i) \<and>
     (pi_src_x v = pi_src_x i \<and> pi_src_y v = pi_src_y i \<or> pi_src_x v = pi_dst_x i \<and> pi_src_y v = pi_dst_y i)"

abbreviation sees :: "bool \<Rightarrow> player_grid_info option \<Rightarrow> player_grid_info option \<Rightarrow> bool" where
  "sees lv \<equiv> rel_option (agree lv)"

definition visible :: "grid \<Rightarrow> guid \<Rightarrow> player_grid_info option" where
  "visible s g = (case fmlookup (gr_selected s) g of None \<Rightarrow> None | Some a \<Rightarrow> gr_heap s a)"

definition screens_ok :: "bool \<Rightarrow> (guid, nat) fmap \<Rightarrow> grid \<Rightarrow> screens \<Rightarrow> bool" where
  "screens_ok lv M s scr \<longleftrightarrow> (\<forall>g h. g |\<in>| fmdom M \<longrightarrow> sees lv (scr g h) (if h = g then None else visible s h))"

lemma agree_fill [simp]: "agree lv (fill_smsg_create_other i) i" "pi_guid (fill_smsg_create_other i) = pi_guid i"
  by (simp_all add: agree_def fill_smsg_create_other_def)

text \<open>The updates of the players keep the agreement.\<close>

lemma agree_upd:
  assumes "agree lv v i"
  shows "agree lv (v\<lparr> pi_flower_rank := x1 \<rparr>) (i\<lparr> pi_flower_rank := x1 \<rparr>)"
    "agree lv (v\<lparr> pi_guild_name := x2, pi_guild_icon := x3 \<rparr>) (i\<lparr> pi_guild_name := x2, pi_guild_icon := x3 \<rparr>)"
    "agree lv (v\<lparr> pi_follow_role_id := x4 \<rparr>) (i\<lparr> pi_follow_role_id := x4 \<rparr>)"
    "agree lv (v\<lparr> pi_title_vec := x5 \<rparr>) (i\<lparr> pi_title_vec := x5 \<rparr>)"
    "agree lv (v\<lparr> pi_special_right := x6 \<rparr>) (i\<lparr> pi_special_right := x6 \<rparr>)"
    "agree lv (v\<lparr> pi_horse_id := x7 \<rparr>) (i\<lparr> pi_horse_id := x7 \<rparr>)"
    "agree lv (v\<lparr> pi_wife_follow := x8 \<rparr>) (i\<lparr> pi_wife_follow := x8 \<rparr>)"
    "agree lv (v\<lparr> pi_yellow_vip_level := y1, pi_is_yellow_vip := y2, pi_is_yellow_year_vip := y3, pi_is_yellow_high_vip := y4 \<rparr>)
      (i\<lparr> pi_yellow_vip_level := y1, pi_is_yellow_vip := y2, pi_is_yellow_year_vip := y3, pi_is_yellow_high_vip := y4 \<rparr>)"
    "agree lv (v\<lparr> pi_src_x := z1, pi_src_y := z2, pi_dst_x := z3, pi_dst_y := z4 \<rparr>)
      (i\<lparr> pi_src_x := z1, pi_src_y := z2, pi_dst_x := z3, pi_dst_y := z4 \<rparr>)"
  by (cases v; cases i; use assms in \<open>simp add: agree_def\<close>)+

lemma agree_levelup: "agree False v (i\<lparr> pi_level := l \<rparr>) = agree False v i"
  by (cases v; cases i) (auto simp: agree_def)

lemma fold_show:
  "distinct hs \<Longrightarrow> fold show_to (map (\<lambda>h. (h, m)) hs) scr g = (if g \<in> set hs then show_msg m (scr g) else scr g)"
proof (induction hs arbitrary: scr)
  case (Cons h hs)
  then show ?case by (cases "g = h") (simp_all add: show_to_def)
qed simp

lemma screens_okD: "screens_ok lv M s scr \<Longrightarrow> g |\<in>| fmdom M \<Longrightarrow> sees lv (scr g h) (if h = g then None else visible s h)"
  by (simp add: screens_ok_def)

lemma screens_okI:
  assumes "\<And>g h. g |\<in>| fmdom M \<Longrightarrow> sees lv (scr g h) (if h = g then None else visible s h)"
  shows "screens_ok lv M s scr"
  using assms by (simp add: screens_ok_def)

lemma screens_ok_same:
  assumes "\<And>v h. sees lv v (visible s h) = sees lv v (visible s' h)"
  shows "screens_ok lv M s scr = screens_ok lv M s' scr"
proof -
  have "sees lv v (if b then None else visible s h) = sees lv v (if b then None else visible s' h)" for v b h
    using assms by (cases b) simp_all
  then show ?thesis by (simp only: screens_ok_def)
qed

text \<open>A message to all but \<open>x\<close> that changes what is seen of \<open>x\<close> as the grid has changed.\<close>

lemma show_others:
  assumes ok: "screens_ok lv M s scr"
    and m: "\<And>v. show_msg m v = v(x := f (v x))"
    and f: "\<And>v. sees lv v (visible s x) \<Longrightarrow> sees lv (f v) (visible s' x)"
    and same: "\<And>h. h \<noteq> x \<Longrightarrow> visible s' h = visible s h"
    and hs: "distinct hs" "set hs - {x} = fset (fmdom M) - {x}" "x \<in> set hs \<Longrightarrow> f None = None"
  shows "screens_ok lv M s' (fold show_to (map (\<lambda>h. (h, m)) hs) scr)"
proof (rule screens_okI)
  fix g h
  assume g: "g |\<in>| fmdom M"
  note old = screens_okD [OF ok g]
  have now: "fold show_to (map (\<lambda>h. (h, m)) hs) scr g = (if g \<in> set hs then (scr g)(x := f (scr g x)) else scr g)"
    by (simp add: fold_show [OF hs(1)] m)
  show "sees lv (fold show_to (map (\<lambda>h. (h, m)) hs) scr g h) (if h = g then None else visible s' h)"
  proof (cases "g = x")
    case True
    then have "scr g x = None" using old [of x] by simp
    then show ?thesis using now old [of h] hs(3) same [of h] True by (auto simp: fun_eq_iff)
  next
    case False
    then have "g \<in> set hs" using g hs(2) by blast
    then show ?thesis using now old [of h] old [of x] f [of "scr g x"] same [of h] False by auto
  qed
qed

section \<open>Updates\<close>

abbreviation screens_now :: "screens \<Rightarrow> grid \<Rightarrow> screens" where
  "screens_now scr s \<equiv> fold show_to (gr_out s) scr"

definition grid_right :: "bool \<Rightarrow> screens \<Rightarrow> grid \<Rightarrow> bool" where
  "grid_right lv scr s \<longleftrightarrow> grid_ok lv s \<and> screens_ok lv (gr_infos s) s (screens_now scr s)"

lemma infos_ok_inj: "infos_ok M s \<Longrightarrow> fmlookup M g = Some a \<Longrightarrow> fmlookup M h = Some a \<Longrightarrow> g = h"
  by (metis infos_okD option.inject)

lemma infos_ok_cong:
  assumes "gr_heap s' = gr_heap s" "gr_next s' = gr_next s" "gr_selected s' = gr_selected s"
    "gr_not_selected s' = gr_not_selected s"
  shows "infos_ok M s' = infos_ok M s"
  using assms by (simp add: infos_ok_def)

lemma visible_cong:
  "gr_heap s' = gr_heap s \<Longrightarrow> gr_selected s' = gr_selected s \<Longrightarrow> visible s' = visible s"
  by (auto simp: visible_def split: option.splits)

lemma slots_ok_cong:
  "gr_selected s' = gr_selected s \<Longrightarrow> gr_not_selected s' = gr_not_selected s \<Longrightarrow> gr_num s' = gr_num s \<Longrightarrow>
    slots_ok s' = slots_ok s"
  by (simp add: slots_ok_def has_slot_def)

lemma set_info_ok:
  assumes ok: "infos_ok M s" and a: "fmlookup M x = Some a" "gr_heap s a = Some i"
    and i': "pi_guid i' = pi_guid i" "pi_is_selected i' = pi_is_selected i"
  shows "infos_ok M (set_info a i' s)"
    "visible (set_info a i' s) h = (if h = x \<and> pi_is_selected i then Some i' else visible s h)"
proof -
  obtain j where j: "gr_heap s a = Some j" "pi_guid j = x" "pi_is_selected j = (fmlookup (gr_selected s) x = Some a)"
    "pi_is_selected j = (x |\<notin>| gr_not_selected s)" using infos_okD [OF ok a(1)] by metis
  have inj: "g = x" if "fmlookup M g = Some a" for g using infos_ok_inj [OF ok that a(1)] .
  have "\<forall>b \<ge> gr_next s. gr_heap s b = None" using ok by (simp add: infos_ok_def)
  then have n: "a < gr_next s" using a(2) by (metis not_le option.distinct(1))
  show "infos_ok M (set_info a i' s)"
    unfolding infos_ok_def
  proof (intro conjI allI impI)
    fix g b assume b: "fmlookup M g = Some b"
    obtain k where k: "gr_heap s b = Some k" "pi_guid k = g" "pi_is_selected k = (fmlookup (gr_selected s) g = Some b)"
      "pi_is_selected k = (g |\<notin>| gr_not_selected s)" using infos_okD [OF ok b] by metis
    show "\<exists>k. gr_heap (set_info a i' s) b = Some k \<and> pi_guid k = g \<and>
        pi_is_selected k = (fmlookup (gr_selected (set_info a i' s)) g = Some b) \<and>
        pi_is_selected k = (g |\<notin>| gr_not_selected (set_info a i' s))"
    proof (cases "b = a")
      case True
      then show ?thesis using inj [of g] b j i' a(2) by (simp add: set_info_def)
    next
      case False
      then show ?thesis using k by (simp add: set_info_def)
    qed
  qed (use ok n in \<open>auto simp: infos_ok_def set_info_def\<close>)
  show "visible (set_info a i' s) h = (if h = x \<and> pi_is_selected i then Some i' else visible s h)"
  proof (cases "fmlookup (gr_selected s) h")
    case None
    then show ?thesis using j a(2) by (auto simp: visible_def set_info_def)
  next
    case (Some b)
    then have "fmlookup M h = Some b" using infos_ok_selected [OF ok] by blast
    then show ?thesis using Some inj [of h] a j by (auto simp: visible_def set_info_def)
  qed
qed

lemma set_info_fields [simp]:
  "gr_next (set_info a i s) = gr_next s" "gr_infos (set_info a i s) = gr_infos s"
  "gr_selected (set_info a i s) = gr_selected s" "gr_not_selected (set_info a i s) = gr_not_selected s"
  "gr_num (set_info a i s) = gr_num s" "gr_ops (set_info a i s) = gr_ops s" "gr_out (set_info a i s) = gr_out s"
  by (simp_all add: set_info_def)

text \<open>An update that is broadcast when the player is selected.\<close>

lemma update_right:
  assumes right: "grid_right lv scr s" and a: "fmlookup (gr_infos s) x = Some a" "gr_heap s a = Some i"
    and i': "pi_guid i' = pi_guid i" "pi_is_selected i' = pi_is_selected i"
    and m: "\<And>v. show_msg m v = v(x := map_option f (v x))"
    and f: "\<And>v. agree lv v i \<Longrightarrow> agree lv (f v) i'"
  shows "grid_right lv scr (if pi_is_selected i' then do_broadcast_packet m (set_info a i' s) else set_info a i' s)"
    (is "grid_right lv scr ?s")
proof -
  have ok: "infos_ok (gr_infos s) s" "slots_ok s" "\<forall>op \<in> set (gr_ops s). op_ok lv op"
    and scr: "screens_ok lv (gr_infos s) s (screens_now scr s)"
    using right by (simp_all add: grid_right_def grid_ok_def)
  note si = set_info_ok [OF ok(1) a i']
  have ok': "grid_ok lv ?s"
    using ok si(1) slots_ok_cong [of "set_info a i' s" s]
      infos_ok_cong [of "do_broadcast_packet m (set_info a i' s)" "set_info a i' s"]
      slots_ok_cong [of "do_broadcast_packet m (set_info a i' s)" "set_info a i' s"]
    by (simp add: grid_ok_def broadcast_eq)
  have "screens_ok lv (gr_infos s) ?s (screens_now scr ?s)"
  proof (cases "pi_is_selected i'")
    case False
    then have "visible ?s = visible s" using si(2) i'(2) by (simp add: fun_eq_iff)
    then show ?thesis using scr False screens_ok_same [of lv s ?s] by simp
  next
    case True
    have vis: "visible ?s h = (if h = x then Some i' else visible s h)" for h
      using si(2) [of h] True i'(2) visible_cong [of ?s "set_info a i' s"] by (simp add: broadcast_eq)
    have "pi_guid i = x" "fmlookup (gr_selected s) x = Some a"
      using infos_okD [OF ok(1) a(1)] a(2) True i'(2) by (metis option.inject)+
    then have vx: "visible s x = Some i" using a(2) by (simp add: visible_def)
    note e = everyone_ok [OF si(1)]
    have "screens_ok lv (gr_infos s) ?s (fold show_to (map (\<lambda>h. (h, m)) (everyone (set_info a i' s))) (screens_now scr s))"
      by (rule show_others [OF scr m]) (use vis vx f e in \<open>auto simp: option_rel_Some2\<close>)
    then show ?thesis using True by (simp add: broadcast_eq)
  qed
  moreover have "gr_infos ?s = gr_infos s" by (simp add: broadcast_eq)
  ultimately show ?thesis using ok' by (simp add: grid_right_def)
qed

section \<open>Creating and joining\<close>

definition created :: "guid \<Rightarrow> grid \<Rightarrow> (guid \<times> grid_msg) list" where
  "created g s = map (\<lambda>(h, a). (g, SMSG_CREATE_OTHER (fill_smsg_create_other (the (gr_heap s a)))))
     (filter (\<lambda>(h, a). h \<noteq> g) (fm_items (gr_selected s)))"

lemma infos_ok_items:
  assumes "infos_ok M s"
  shows "\<forall>(h, a) \<in> set (fm_items (gr_selected s)). \<exists>i. gr_heap s a = Some i \<and> pi_guid i = h"
proof (clarify)
  fix h a
  assume "(h, a) \<in> set (fm_items (gr_selected s))"
  then have "fmlookup M h = Some a" using infos_ok_selected [OF assms] by simp
  then show "\<exists>i. gr_heap s a = Some i \<and> pi_guid i = h" by (metis infos_okD [OF assms])
qed

lemma create_other_eq: "infos_ok M s \<Longrightarrow> create_other g s = Some (s\<lparr> gr_out := gr_out s @ created g s \<rparr>)"
  using create_other_loop_eq [OF infos_ok_items] by (simp add: create_other_def created_def)

lemma fold_show_one:
  "fold show_to (map (\<lambda>x. (g, m x)) xs) scr = scr(g := fold (\<lambda>x. show_msg (m x)) xs (scr g))"
  by (induction xs arbitrary: scr) (auto simp: show_to_def)

lemma fold_create_absent:
  "\<forall>x \<in> set xs. pi_guid (f x) \<noteq> h \<Longrightarrow> fold (\<lambda>x. show_msg (SMSG_CREATE_OTHER (f x))) xs v h = v h"
  by (induction xs arbitrary: v) auto

lemma fold_create_present:
  assumes "x \<in> set xs" "\<forall>y \<in> set xs. pi_guid (f y) = pi_guid (f x) \<longrightarrow> y = x"
  shows "fold (\<lambda>x. show_msg (SMSG_CREATE_OTHER (f x))) xs v (pi_guid (f x)) = Some (f x)"
  using assms
proof (induction xs arbitrary: v)
  case (Cons y ys)
  show ?case
  proof (cases "x \<in> set ys")
    case True
    then show ?thesis using Cons by simp
  next
    case False
    then have "y = x" "\<forall>z \<in> set ys. pi_guid (f z) \<noteq> pi_guid (f x)" using Cons.prems by auto
    then have "fold (\<lambda>x. show_msg (SMSG_CREATE_OTHER (f x))) ys w (pi_guid (f x)) = w (pi_guid (f x))" for w
      by (intro fold_create_absent)
    then show ?thesis using \<open>y = x\<close> by (simp only: fold.simps comp_apply) simp
  qed
qed simp

text \<open>What a player sees after the creations: the selected ones as they are, else what it saw.\<close>

lemma created_shown:
  assumes ok: "infos_ok M s"
  shows "fold show_to (created g s) scr h k =
    (if h = g \<and> k \<noteq> g \<and> visible s k \<noteq> None then map_option fill_smsg_create_other (visible s k) else scr h k)"
proof -
  let ?xs = "filter (\<lambda>(h, a). h \<noteq> g) (fm_items (gr_selected s))"
  let ?f = "\<lambda>(h, a). fill_smsg_create_other (the (gr_heap s a))"
  have fold: "fold show_to (created g s) scr = scr(g := fold (\<lambda>x. show_msg (SMSG_CREATE_OTHER (?f x))) ?xs (scr g))"
    using fold_show_one [of g "\<lambda>x. SMSG_CREATE_OTHER (?f x)" ?xs] by (simp add: created_def case_prod_beta')
  have guid: "pi_guid (?f x) = fst x" if "x \<in> set ?xs" for x
    using infos_ok_items [OF ok] that by fastforce
  have item: "fmlookup (gr_selected s) (fst x) = Some (snd x)" if "x \<in> set ?xs" for x
    using that set_fm_items [of "fst x" "snd x"] by simp
  have dist: "y = x" if "x \<in> set ?xs" "y \<in> set ?xs" "fst y = fst x" for x y
    using item [OF that(1)] item [OF that(2)] that(3) by (simp add: prod_eq_iff)
  show ?thesis
  proof (cases "h = g \<and> k \<noteq> g \<and> visible s k \<noteq> None")
    case False
    have "k \<noteq> fst x" if "x \<in> set ?xs" "h = g" for x
      using False that infos_ok_items [OF ok] by (cases x) (fastforce simp: visible_def)
    then have "h = g \<Longrightarrow> fold (\<lambda>x. show_msg (SMSG_CREATE_OTHER (?f x))) ?xs (scr g) k = scr g k"
      using guid by (intro fold_create_absent) metis
    then show ?thesis using False unfolding fold by auto
  next
    case True
    then obtain a i where a: "fmlookup (gr_selected s) k = Some a" "gr_heap s a = Some i"
      by (auto simp: visible_def split: option.splits)
    then have x: "(k, a) \<in> set ?xs" using True by simp
    have "fold (\<lambda>x. show_msg (SMSG_CREATE_OTHER (?f x))) ?xs (scr g) (pi_guid (?f (k, a))) = Some (?f (k, a))"
      by (rule fold_create_present [OF x]) (metis dist guid x)
    then show ?thesis using True a guid [OF x] unfolding fold by (simp add: visible_def)
  qed
qed

lemma created_screens:
  assumes ok: "infos_ok M s" and scr: "screens_ok lv N s scr" and g: "scr g = Map.empty"
    and N': "fmdom N' |\<subseteq>| finsert g (fmdom N)"
  shows "screens_ok lv N' s (fold show_to (created g s) scr)"
proof (rule screens_okI)
  fix h k
  assume "h |\<in>| fmdom N'"
  then have h: "h = g \<or> h |\<in>| fmdom N" using N' by blast
  show "sees lv (fold show_to (created g s) scr h k) (if k = h then None else visible s k)"
  proof (cases "h = g")
    case True
    then show ?thesis using created_shown [OF ok, of g scr g k] g by (cases "visible s k") auto
  next
    case False
    then show ?thesis using created_shown [OF ok, of g scr h k] screens_okD [OF scr, of h k] h by auto
  qed
qed

end
