(* ===== verification/GridRuns.thy ===== *)
theory GridRuns
  imports GridScreens
begin

text \<open>
  The requests of the grid, one by one, keep the screens right, and the grid as a machine: the
  calls of the scene queue requests, the grid's thread processes them.
\<close>

lemma infos_ok_absent:
  assumes "infos_ok M s" "g |\<notin>| fmdom M"
  shows "fmlookup (gr_selected s) g = None" "g |\<notin>| gr_not_selected s" "fmlookup M g = None"
    "g |\<notin>| fmdom (gr_selected s)"
proof -
  show M: "fmlookup M g = None" using assms(2) by (simp add: fmdom_notD)
  then show "fmlookup (gr_selected s) g = None"
    using infos_ok_selected [OF assms(1), of g] by (cases "fmlookup (gr_selected s) g") auto
  then show "g |\<notin>| fmdom (gr_selected s)" by (rule fmdom_notI)
  show "g |\<notin>| gr_not_selected s" using assms(1) M by (auto simp: infos_ok_def)
qed

lemma infos_ok_fresh:
  assumes "infos_ok M s" "gr_heap s a = None"
  shows "fmlookup M h \<noteq> Some a" "fmlookup (gr_selected s) h \<noteq> Some a"
proof -
  show M: "fmlookup M h \<noteq> Some a" using assms(2) infos_okD [OF assms(1), of h a] by fastforce
  then show "fmlookup (gr_selected s) h \<noteq> Some a" using infos_ok_selected [OF assms(1)] by blast
qed

section \<open>A player is selected\<close>

lemma add_selected_joins:
  assumes ok: "infos_ok M s" and g: "g |\<notin>| fmdom M" "pi_guid i = g"
    and a: "gr_heap s a = Some i" "\<forall>h. fmlookup M h \<noteq> Some a"
    and scr: "screens_ok lv (fmupd g a M) s (screens_now scr s)"
  obtains s' where "add_selected_player a s = Some s'" "infos_ok (fmupd g a M) s'"
    "screens_ok lv (fmupd g a M) s' (screens_now scr s')"
    "gr_heap s' = (gr_heap s)(a \<mapsto> i\<lparr> pi_is_selected := True \<rparr>)"
    "gr_selected s' = fmupd g a (gr_selected s)" "gr_not_selected s' = gr_not_selected s"
    "gr_num s' = gr_num s" "gr_ops s' = gr_ops s" "gr_infos s' = gr_infos s" "gr_next s' = gr_next s"
proof -
  define i' where "i' = i\<lparr> pi_is_selected := True \<rparr>"
  define s1 where "s1 = s\<lparr> gr_heap := (gr_heap s)(a \<mapsto> i'), gr_selected := fmupd g a (gr_selected s) \<rparr>"
  let ?m = "SMSG_CREATE_OTHER (fill_smsg_create_other i')"
  let ?s = "send_others g ?m s1"
  let ?hs = "filter (\<lambda>h. h \<noteq> g) (everyone s1)"
  have sel: "fmlookup (gr_selected s) g = None" and nsel: "g |\<notin>| gr_not_selected s"
    using infos_ok_absent [OF ok g(1)] by simp_all
  have run: "add_selected_player a s = Some ?s"
    using a sel g(2) by (simp add: add_selected_player_def set_info_def s1_def i'_def Let_def)
  have n: "a < gr_next s" using ok a(1) unfolding infos_ok_def by (metis not_le option.distinct(1))
  have ok1: "infos_ok (fmupd g a M) s1"
    unfolding infos_ok_def
  proof (intro conjI allI impI)
    fix h b assume "fmlookup (fmupd g a M) h = Some b"
    then consider "h = g" "b = a" | "h \<noteq> g" "fmlookup M h = Some b" by (auto split: if_splits)
    then show "\<exists>k. gr_heap s1 b = Some k \<and> pi_guid k = h \<and>
        pi_is_selected k = (fmlookup (gr_selected s1) h = Some b) \<and> pi_is_selected k = (h |\<notin>| gr_not_selected s1)"
    proof cases
      case 1
      then show ?thesis using g nsel by (simp add: s1_def i'_def)
    next
      case 2
      then have "b \<noteq> a" using a(2) by auto
      then show ?thesis using 2 infos_okD [OF ok 2(2)] by (simp add: s1_def) metis
    qed
  qed (use ok n in \<open>auto simp: infos_ok_def s1_def split: if_splits\<close>)
  have ok2: "infos_ok (fmupd g a M) ?s"
    using ok1 infos_ok_cong [of ?s s1] by (simp add: send_others_eq)
  have vis: "visible ?s h = (if h = g then Some i' else visible s h)" for h
  proof -
    have "fmlookup (gr_selected s) h \<noteq> Some a" using infos_ok_selected [OF ok] a(2) by blast
    then show ?thesis by (auto simp: visible_def send_others_eq s1_def i'_def split: option.splits)
  qed
  note e = everyone_ok [OF ok1]
  have scr': "screens_ok lv (fmupd g a M) ?s (fold show_to (map (\<lambda>h. (h, ?m)) ?hs) (screens_now scr s))"
  proof (rule show_others [OF scr, where f = "\<lambda>_. Some (fill_smsg_create_other i')"])
    show "\<And>v. show_msg ?m v = v(g := Some (fill_smsg_create_other i'))" using g by (simp add: i'_def)
    show "set ?hs - {g} = fset (fmdom (fmupd g a M)) - {g}" using e by auto
  qed (use vis e in \<open>auto simp: i'_def\<close>)
  have "screens_now scr ?s = fold show_to (map (\<lambda>h. (h, ?m)) ?hs) (screens_now scr s)"
    by (simp add: send_others_eq s1_def)
  then show ?thesis using that [OF run ok2] scr' unfolding i'_def [symmetric] by (simp add: send_others_eq s1_def)
qed

text \<open>A player leaves: the map without it.\<close>

lemma infos_ok_drop:
  assumes "infos_ok M s"
  shows "infos_ok (fmdrop x M) (s\<lparr> gr_selected := fmdrop x (gr_selected s), gr_not_selected := gr_not_selected s |-| {|x|} \<rparr>)"
  using assms unfolding infos_ok_def by (auto split: if_splits)

lemma screens_ok_mono: "screens_ok lv M s scr \<Longrightarrow> fmdom N |\<subseteq>| fmdom M \<Longrightarrow> screens_ok lv N s scr"
  unfolding screens_ok_def by blast

lemma screens_ok_cong: "visible s' = visible s \<Longrightarrow> screens_ok lv M s' = screens_ok lv M s"
  by (simp add: screens_ok_def fun_eq_iff)

section \<open>ADD\<close>

lemma sync_joins:
  assumes ok: "infos_ok M s" "slots_ok s" and g: "g |\<notin>| fmdom M" "pi_guid i = g" "\<not> pi_is_selected i"
    and a: "gr_heap s a = Some i" "\<forall>h. fmlookup M h \<noteq> Some a"
    and scr: "screens_ok lv (fmupd g a M) s (screens_now scr s)"
  obtains s' where "sync_selected_player a s = Some s'" "infos_ok (fmupd g a M) s'" "slots_ok s'"
    "screens_ok lv (fmupd g a M) s' (screens_now scr s')" "gr_infos s' = gr_infos s" "gr_ops s' = gr_ops s" "gr_num s' = gr_num s"
proof (cases "has_slot s")
  case True
  obtain s' where s': "add_selected_player a s = Some s'" "infos_ok (fmupd g a M) s'"
    "screens_ok lv (fmupd g a M) s' (screens_now scr s')"
    "gr_selected s' = fmupd g a (gr_selected s)" "gr_not_selected s' = gr_not_selected s"
    "gr_num s' = gr_num s" "gr_ops s' = gr_ops s" "gr_infos s' = gr_infos s"
    using add_selected_joins [OF ok(1) g(1,2) a scr] by metis
  have "g |\<notin>| fmdom (gr_selected s)" using infos_ok_absent [OF ok(1) g(1)] by simp
  then have "slots_ok s'" using ok(2) True s' by (auto simp: slots_ok_def has_slot_def fcard_finsert_disjoint)
  then show ?thesis using that [of s'] s' True by (simp add: sync_selected_player_def)
next
  case False
  define s' where "s' = s\<lparr> gr_not_selected := finsert g (gr_not_selected s) \<rparr>"
  have run: "sync_selected_player a s = Some s'" using False a g by (simp add: sync_selected_player_def s'_def)
  have sel: "fmlookup (gr_selected s) g = None"
    using infos_ok_absent [OF ok(1) g(1)] by simp
  have "infos_ok (fmupd g a M) s'"
    unfolding infos_ok_def
  proof (intro conjI allI impI)
    fix h b assume "fmlookup (fmupd g a M) h = Some b"
    then consider "h = g" "b = a" | "h \<noteq> g" "fmlookup M h = Some b" by (auto split: if_splits)
    then show "\<exists>k. gr_heap s' b = Some k \<and> pi_guid k = h \<and>
        pi_is_selected k = (fmlookup (gr_selected s') h = Some b) \<and> pi_is_selected k = (h |\<notin>| gr_not_selected s')"
    proof cases
      case 1
      then show ?thesis using g a sel by (simp add: s'_def)
    next
      case 2
      then show ?thesis using infos_okD [OF ok(1) 2(2)] by (simp add: s'_def) metis
    qed
  qed (use ok(1) sel in \<open>auto simp: infos_ok_def s'_def split: if_splits\<close>)
  moreover have "slots_ok s'" using ok(2) False by (simp add: slots_ok_def has_slot_def s'_def)
  moreover have "screens_ok lv (fmupd g a M) s' (screens_now scr s')"
    using scr screens_ok_cong [OF visible_cong [of s' s]] by (simp add: s'_def)
  ultimately show ?thesis using that [OF run] by (simp add: s'_def)
qed

lemma process_add_right:
  assumes right: "grid_right lv scr s" and op: "op_ok lv op" "go_op op = PGOP_ADD"
    and out: "gr_out s = []"
  obtains s' where "process_add op s = Some s'" "gr_ops s' = gr_ops s" "gr_num s' = gr_num s"
    "grid_right lv (if fmlookup (gr_infos s) (go_guid op) = None then scr(go_guid op := Map.empty) else scr) s'"
proof -
  let ?g = "go_guid op" and ?M = "gr_infos s"
  have ok: "infos_ok ?M s" "slots_ok s" "\<forall>op \<in> set (gr_ops s). op_ok lv op"
    and scr: "screens_ok lv ?M s scr"
    using right out by (simp_all add: grid_right_def grid_ok_def)
  obtain i where i: "go_info op = Some i" "pi_guid i = ?g" "\<not> pi_is_selected i" using op by (auto simp: op_ok_def)
  show ?thesis
  proof (cases "fmlookup ?M ?g")
    case (Some a)
    then show ?thesis using that [of s] right i by (simp add: process_add_def get_player_grid_info_def)
  next
    case None
    let ?scr = "scr(?g := Map.empty)"
    define a where "a = gr_next s"
    define s1 where "s1 = s\<lparr> gr_heap := (gr_heap s)(a \<mapsto> i), gr_next := a + 1, gr_infos := fmupd ?g a ?M \<rparr>"
    define s2 where "s2 = s1\<lparr> gr_out := gr_out s1 @ created ?g s1 \<rparr>"
    have free: "gr_heap s a = None" using ok(1) by (simp add: infos_ok_def a_def)
    note new = infos_ok_fresh(1) [OF ok(1) free] and newsel = infos_ok_fresh(2) [OF ok(1) free]
    have ok1: "infos_ok ?M s1"
      unfolding infos_ok_def
    proof (intro conjI allI impI)
      fix h b assume h: "fmlookup ?M h = Some b"
      then have "b \<noteq> a" using new by auto
      then show "\<exists>k. gr_heap s1 b = Some k \<and> pi_guid k = h \<and>
        pi_is_selected k = (fmlookup (gr_selected s1) h = Some b) \<and> pi_is_selected k = (h |\<notin>| gr_not_selected s1)"
        using infos_okD [OF ok(1) h] by (simp add: s1_def) metis
    qed (use ok(1) in \<open>auto simp: infos_ok_def s1_def a_def\<close>)
    have vis: "visible s1 = visible s"
      using newsel by (auto simp: visible_def s1_def fun_eq_iff split: option.splits)
    have gM: "?g |\<notin>| fmdom ?M" using None by (simp add: fmlookup_dom_iff)
    have "screens_ok lv ?M s1 ?scr"
      using scr gM screens_ok_cong [OF vis] by (auto simp: screens_ok_def)
    then have "screens_ok lv (fmupd ?g a ?M) s1 (fold show_to (created ?g s1) ?scr)"
      by (rule created_screens [OF ok1]) auto
    moreover have "screens_now ?scr s2 = fold show_to (created ?g s1) ?scr" using out by (simp add: s2_def s1_def)
    moreover have "visible s2 = visible s1" by (rule visible_cong) (simp_all add: s2_def)
    ultimately have scr2: "screens_ok lv (fmupd ?g a ?M) s2 (screens_now ?scr s2)"
      using screens_ok_cong [of s2 s1] by simp
    have ok2: "infos_ok ?M s2" using ok1 infos_ok_cong [of s2 s1] by (simp add: s2_def)
    have slots2: "slots_ok s2" using ok(2) slots_ok_cong [of s2 s] by (simp add: s2_def s1_def)
    have a2: "gr_heap s2 a = Some i" by (simp add: s2_def s1_def)
    obtain s' where s': "sync_selected_player a s2 = Some s'" "infos_ok (fmupd ?g a ?M) s'" "slots_ok s'"
      "screens_ok lv (fmupd ?g a ?M) s' (screens_now ?scr s')" "gr_infos s' = gr_infos s2" "gr_ops s' = gr_ops s2" "gr_num s' = gr_num s2"
      using sync_joins [OF ok2 slots2 gM i(2,3) a2 _ scr2] new by metis
    have "process_add op s = Some s'"
      using None i s'(1) create_other_eq [OF ok1]
      by (simp add: process_add_def get_player_grid_info_def Let_def a_def s1_def s2_def)
    moreover have "gr_infos s' = fmupd ?g a ?M" using s' by (simp add: s2_def s1_def)
    ultimately show ?thesis using that [of s'] s' ok None by (simp add: grid_right_def grid_ok_def s2_def s1_def)
  qed
qed

section \<open>Updates, READD, broadcasts\<close>

definition keeps :: "bool \<Rightarrow> screens \<Rightarrow> grid \<Rightarrow> grid option \<Rightarrow> bool" where
  "keeps lv scr s r \<longleftrightarrow> (\<exists>s'. r = Some s' \<and> grid_right lv scr s' \<and> gr_ops s' = gr_ops s \<and> gr_num s' = gr_num s)"

lemma keepsI: "grid_right lv scr s' \<Longrightarrow> gr_ops s' = gr_ops s \<and> gr_num s' = gr_num s \<Longrightarrow> keeps lv scr s (Some s')"
  by (simp add: keeps_def)

lemma grid_rightD:
  assumes "grid_right lv scr s"
  shows "infos_ok (gr_infos s) s" "slots_ok s" "\<forall>op \<in> set (gr_ops s). op_ok lv op"
    "screens_ok lv (gr_infos s) s (screens_now scr s)"
  using assms by (simp_all add: grid_right_def grid_ok_def)

lemma process_update_keeps:
  assumes right: "grid_right lv scr s"
    and upd: "\<And>i. pi_guid (upd i) = pi_guid i \<and> pi_is_selected (upd i) = pi_is_selected i"
    and m: "\<And>i v. show_msg (msg (upd i)) v = v(pi_guid i := map_option upd (v (pi_guid i)))"
    and f: "\<And>i v. agree lv v i \<Longrightarrow> agree lv (upd v) (upd i)"
  shows "keeps lv scr s (process_update upd msg op s)"
proof (cases "fmlookup (gr_infos s) (go_guid op)")
  case None
  then show ?thesis using right by (simp add: process_update_def get_player_grid_info_def keeps_def)
next
  case (Some a)
  obtain i where i: "gr_heap s a = Some i" "pi_guid i = go_guid op"
    using infos_okD [OF grid_rightD(1) [OF right] Some] by metis
  let ?s = "if pi_is_selected (upd i) then do_broadcast_packet (msg (upd i)) (set_info a (upd i) s) else set_info a (upd i) s"
  have u: "pi_guid (upd i) = pi_guid i" "pi_is_selected (upd i) = pi_is_selected i" using upd by simp_all
  have m': "show_msg (msg (upd i)) v = v(go_guid op := map_option upd (v (go_guid op)))" for v
    using m [of i v] i(2) by simp
  have "grid_right lv scr ?s" by (rule update_right [OF right Some i(1) u m' f])
  then have "keeps lv scr s (Some ?s)" by (rule keepsI) (simp add: broadcast_eq)
  then show ?thesis using Some i by (simp add: process_update_def get_player_grid_info_def Let_def)
qed

lemma updates_keep:
  assumes "grid_right lv scr s"
  shows "keeps lv scr s (process_update_guild_name op s)" "keeps lv scr s (process_follow_role_id op s)"
    "keeps lv scr s (process_update_title op s)" "keeps lv scr s (process_special_right op s)"
    "keeps lv scr s (process_horse op s)" "keeps lv scr s (process_wife_follow op s)"
    "keeps lv scr s (process_yellow_vip_level op s)"
  unfolding process_update_guild_name_def process_follow_role_id_def process_update_title_def
    process_special_right_def process_horse_def process_wife_follow_def process_yellow_vip_level_def
  by (rule process_update_keeps [OF assms]; simp add: agree_upd)+

lemma process_move_keeps:
  assumes "grid_right lv scr s"
  shows "keeps lv scr s (process_move op s)"
proof (cases "go_move op")
  case None
  then show ?thesis using assms by (simp add: process_move_def keeps_def)
next
  case (Some m)
  let ?upd = "\<lambda>i. i\<lparr> pi_src_x := mv_src_x m, pi_src_y := mv_src_y m, pi_dst_x := mv_dst_x m, pi_dst_y := mv_dst_y m \<rparr>"
  have "process_move op s = process_update ?upd (\<lambda>i. SMSG_PLAYER_MOVE (pi_guid i)
     \<lparr> mv_src_x = pi_src_x i, mv_src_y = pi_src_y i, mv_dst_x = pi_dst_x i, mv_dst_y = pi_dst_y i \<rparr>) op s"
    using Some by (simp add: process_move_def process_update_def player_move_eq Let_def split: option.splits cong: if_cong)
  then show ?thesis by (elim ssubst) (rule process_update_keeps [OF assms]; simp add: agree_upd)
qed

text \<open>A level-up changes the level and sends nothing.\<close>

lemma process_levelup_keeps:
  assumes right: "grid_right False scr s"
  shows "keeps False scr s (process_levelup op s)"
proof (cases "fmlookup (gr_infos s) (go_guid op)")
  case None
  then show ?thesis using right by (simp add: process_levelup_def get_player_grid_info_def keeps_def)
next
  case (Some a)
  note ok = grid_rightD [OF right]
  obtain i where i: "gr_heap s a = Some i" and sel: "pi_is_selected i = (fmlookup (gr_selected s) (go_guid op) = Some a)"
    using infos_okD [OF ok(1) Some] by metis
  let ?s = "set_info a (i\<lparr> pi_level := go_level op \<rparr>) s"
  note si = set_info_ok [OF ok(1) Some i, of "i\<lparr> pi_level := go_level op \<rparr>"]
  have "visible s (go_guid op) = (if pi_is_selected i then Some i else None)"
    using sel i infos_ok_selected [OF ok(1), of "go_guid op"] Some
    by (cases "fmlookup (gr_selected s) (go_guid op)") (auto simp: visible_def)
  then have "sees False v (visible ?s h) = sees False v (visible s h)" for v h
    using si(2) [of h] by (cases v) (auto simp: agree_levelup)
  then have "screens_ok False (gr_infos s) ?s (screens_now scr ?s)" using ok(4) screens_ok_same [of False ?s s] by simp
  then have "grid_right False scr ?s"
    using si(1) ok slots_ok_cong [of ?s s] by (simp add: grid_right_def grid_ok_def)
  then have "keeps False scr s (Some ?s)" by (rule keepsI) simp
  then show ?thesis using Some i by (simp add: process_levelup_def get_player_grid_info_def)
qed

lemma process_flower_rank_keeps:
  assumes right: "grid_right lv scr s"
  shows "keeps lv scr s (process_flower_rank op s)"
proof (cases "fmlookup (gr_infos s) (go_guid op)")
  case None
  then show ?thesis using right by (simp add: process_flower_rank_def get_player_grid_info_def keeps_def)
next
  case (Some a)
  note ok = grid_rightD [OF right]
  obtain i where i: "gr_heap s a = Some i" "pi_guid i = go_guid op" "pi_is_selected i = (go_guid op |\<notin>| gr_not_selected s)"
    using infos_okD [OF ok(1) Some] by metis
  let ?upd = "\<lambda>i. i\<lparr> pi_flower_rank := go_flower_rank op \<rparr>"
  let ?msg = "\<lambda>i. SMSG_UPDATE_FLOWER_RANK (pi_guid i) (pi_flower_rank i)"
  have "process_flower_rank op s = process_update ?upd ?msg op s"
  proof (cases "pi_is_selected i")
    case True
    then show ?thesis using Some i(1) by (simp add: process_flower_rank_def process_update_def get_player_grid_info_def)
  next
    case False
    then have "finsert (go_guid op) (gr_not_selected s) = gr_not_selected s" "\<not> has_slot s"
      using i(3) ok(2) by (auto simp: slots_ok_def)
    moreover have "has_slot (set_info a (?upd i) s) = has_slot s" by (simp add: has_slot_def)
    ultimately have "sync_selected_player a (set_info a (?upd i) s) = Some (set_info a (?upd i) s)"
      using i by (simp add: sync_selected_player_def set_info_def)
    then show ?thesis using Some i(1) False by (simp add: process_flower_rank_def process_update_def get_player_grid_info_def Let_def)
  qed
  then show ?thesis by (elim ssubst) (rule process_update_keeps [OF right]; simp add: agree_upd)
qed

lemma broadcast_other_right:
  assumes right: "grid_right lv scr s"
  shows "grid_right lv scr (do_broadcast_packet (SMSG_OTHER opcode body) s)"
proof -
  let ?s = "do_broadcast_packet (SMSG_OTHER opcode body) s"
  note ok = grid_rightD [OF right]
  have "fold show_to (map (\<lambda>h. (h, SMSG_OTHER opcode body)) hs) scr' = scr'" for hs scr'
    by (induction hs arbitrary: scr') (simp_all add: show_to_def)
  then have "screens_now scr ?s = screens_now scr s" by (simp add: broadcast_eq)
  moreover have "visible ?s = visible s" by (rule visible_cong) (simp_all add: broadcast_eq)
  ultimately show ?thesis
    using ok infos_ok_cong [of ?s s "gr_infos s"] slots_ok_cong [of ?s s] screens_ok_cong [of ?s s]
    by (simp add: grid_right_def grid_ok_def) (simp add: broadcast_eq)
qed

lemma process_broadcast_keeps:
  assumes right: "grid_right lv scr s"
  shows "keeps lv scr s (process_broadcast op s)"
proof -
  have "\<exists>i. gr_heap s a = Some i" if "fmlookup (gr_infos s) g = Some a" for g a
    using infos_okD [OF grid_rightD(1) [OF right] that] by blast
  note heap = this
  show ?thesis
    using right broadcast_other_right [OF right]
    by (auto simp: process_broadcast_def get_player_grid_info_def keeps_def broadcast_eq
        split: option.splits prod.splits bind_splits dest: heap)
qed

text \<open>A player that enters again has seen nothing.\<close>

lemma process_readd_keeps:
  assumes right: "grid_right lv scr s" and out: "gr_out s = []"
  shows "keeps lv (if fmlookup (gr_infos s) (go_guid op) = None then scr else scr(go_guid op := Map.empty)) s (process_readd op s)"
proof (cases "fmlookup (gr_infos s) (go_guid op)")
  case None
  then show ?thesis using right by (simp add: process_readd_def get_player_grid_info_def keeps_def)
next
  case (Some a)
  let ?g = "go_guid op" and ?scr = "scr(go_guid op := Map.empty)" and ?M = "gr_infos s"
  let ?s = "s\<lparr> gr_out := gr_out s @ created ?g s \<rparr>"
  note ok = grid_rightD [OF right]
  have scr: "screens_ok lv ?M s scr" using ok(4) out by simp
  have "screens_ok lv (fmdrop ?g ?M) s ?scr" using scr by (auto simp: screens_ok_def)
  then have "screens_ok lv ?M s (fold show_to (created ?g s) ?scr)"
    by (rule created_screens [OF ok(1)]) auto
  moreover have "visible ?s = visible s" by (rule visible_cong) simp_all
  ultimately have "grid_right lv ?scr ?s"
    using ok infos_ok_cong [of ?s s ?M] slots_ok_cong [of ?s s] screens_ok_cong [of ?s s] out
    by (simp add: grid_right_def grid_ok_def)
  then show ?thesis
    using Some create_other_eq [OF ok(1)] by (simp add: process_readd_def get_player_grid_info_def keeps_def)
qed

section \<open>REMOVE\<close>

text \<open>The object of the player is deleted at the end.\<close>

lemma remove_info_right:
  assumes ok: "infos_ok M s" "slots_ok s" "\<forall>op \<in> set (gr_ops s). op_ok lv op" and scr: "screens_ok lv M s (screens_now scr s)"
    and x: "fmlookup (gr_infos s) x = Some a" "gr_heap s a \<noteq> None" "M = fmdrop x (gr_infos s)" "\<forall>h. fmlookup M h \<noteq> Some a"
  shows "keeps lv scr s (remove_player_grid_info x s)"
proof -
  let ?s = "s\<lparr> gr_heap := (gr_heap s)(a := None), gr_infos := fmdrop x (gr_infos s) \<rparr>"
  have sel: "fmlookup (gr_selected s) h \<noteq> Some a" for h using infos_ok_selected [OF ok(1)] x(4) by blast
  have "infos_ok M ?s"
    unfolding infos_ok_def
  proof (intro conjI allI impI)
    fix h b assume h: "fmlookup M h = Some b"
    then have "b \<noteq> a" using x(4) by auto
    then show "\<exists>k. gr_heap ?s b = Some k \<and> pi_guid k = h \<and>
      pi_is_selected k = (fmlookup (gr_selected ?s) h = Some b) \<and> pi_is_selected k = (h |\<notin>| gr_not_selected ?s)"
      using infos_okD [OF ok(1) h] by simp metis
  qed (use ok(1) in \<open>auto simp: infos_ok_def\<close>)
  moreover have "visible ?s = visible s"
    using sel by (auto simp: visible_def fun_eq_iff split: option.splits)
  ultimately have "grid_right lv scr ?s"
    using ok(2,3) slots_ok_cong [of ?s s] screens_ok_cong [of ?s s] scr x(3) by (simp add: grid_right_def grid_ok_def)
  then have "keeps lv scr s (Some ?s)" by (rule keepsI) simp
  then show ?thesis using x by (auto simp: remove_player_grid_info_def)
qed

lemma keeps_trans: "gr_ops s' = gr_ops s \<Longrightarrow> gr_num s' = gr_num s \<Longrightarrow> keeps lv scr s' r = keeps lv scr s r"
  by (simp add: keeps_def)

text \<open>The messages of the removal of a selected player.\<close>

lemma player_remove_screens:
  fixes x :: guid
  assumes ok: "infos_ok M s" and scr: "screens_ok lv M s (screens_now scr s)"
  defines "s' \<equiv> remove_selected_player_map x (player_remove x s)"
  shows "screens_ok lv M s' (screens_now scr s')"
proof -
  let ?m = "SMSG_PLAYER_REMOVE x" and ?hs = "filter (\<lambda>h. h \<noteq> x) (everyone s)"
  note e = everyone_ok [OF ok]
  have "visible s' h = (if h = x then None else visible s h)" for h
    by (auto simp: s'_def remove_selected_player_map_def player_remove_def send_others_eq visible_def split: option.splits)
  then have "screens_ok lv M s' (fold show_to (map (\<lambda>h. (h, ?m)) ?hs) (screens_now scr s))"
    by (intro show_others [OF scr, where f = "\<lambda>_. None"]) (use e in auto)
  then show ?thesis by (simp add: s'_def remove_selected_player_map_def player_remove_def send_others_eq)
qed

lemma process_remove_keeps:
  assumes right: "grid_right lv scr s"
  shows "keeps lv scr s (process_remove op s)"
proof (cases "fmlookup (gr_infos s) (go_guid op)")
  case None
  then show ?thesis using right by (simp add: process_remove_def get_player_grid_info_def keeps_def)
next
  case (Some a)
  let ?x = "go_guid op" and ?M = "gr_infos s"
  note ok = grid_rightD [OF right]
  obtain i where i: "gr_heap s a = Some i" "pi_is_selected i = (fmlookup (gr_selected s) ?x = Some a)"
    "pi_is_selected i = (?x |\<notin>| gr_not_selected s)" using infos_okD [OF ok(1) Some] by metis
  have only: "fmlookup (fmdrop ?x ?M) h \<noteq> Some a" for h using infos_ok_inj [OF ok(1) Some] by auto
  have mono: "fmdom (fmdrop y N) |\<subseteq>| fmdom N" for y :: guid and N :: "(guid, nat) fmap" by auto
  show ?thesis
  proof (cases "pi_is_selected i")
    case False
    define s1 where "s1 = s\<lparr> gr_not_selected := gr_not_selected s |-| {|?x|} \<rparr>"
    have sel: "fmlookup (gr_selected s) ?x = None"
      using i False infos_ok_selected [OF ok(1), of ?x] Some by (cases "fmlookup (gr_selected s) ?x") auto
    then have "fmdrop ?x (gr_selected s) = gr_selected s" by (simp add: fmdrop_idle fmdom_notI)
    then have ok1: "infos_ok (fmdrop ?x ?M) s1" using infos_ok_drop [OF ok(1), of ?x] by (simp add: s1_def)
    have slots: "slots_ok s1" using ok(2) by (auto simp: slots_ok_def has_slot_def s1_def)
    have "visible s1 = visible s" by (rule visible_cong) (simp_all add: s1_def)
    then have scr1: "screens_ok lv (fmdrop ?x ?M) s1 (screens_now scr s1)"
      using screens_ok_mono [OF ok(4) mono, of ?x] screens_ok_cong [of s1 s] by (simp add: s1_def)
    have "keeps lv scr s1 (remove_player_grid_info ?x s1)"
      by (rule remove_info_right [OF ok1 slots _ scr1, of ?x a]) (use ok(3) Some i only in \<open>auto simp: s1_def\<close>)
    then show ?thesis using Some i False keeps_trans [of s1 s lv scr]
      by (simp add: process_remove_def get_player_grid_info_def s1_def [symmetric]) (simp add: s1_def)
  next
    case True
    define s1 where "s1 = remove_selected_player_map ?x (player_remove ?x s)"
    have s1: "gr_infos s1 = ?M" "gr_heap s1 = gr_heap s" "gr_selected s1 = fmdrop ?x (gr_selected s)"
      "gr_not_selected s1 = gr_not_selected s" "gr_num s1 = gr_num s" "gr_ops s1 = gr_ops s" "gr_next s1 = gr_next s"
      by (simp_all add: s1_def remove_selected_player_map_def player_remove_def send_others_eq)
    have nsel: "?x |\<notin>| gr_not_selected s" using True i(3) by simp
    then have "gr_not_selected s |-| {|?x|} = gr_not_selected s" by auto
    then have ok1: "infos_ok (fmdrop ?x ?M) s1"
      using infos_ok_drop [OF ok(1), of ?x] infos_ok_cong [of s1 "s\<lparr> gr_selected := fmdrop ?x (gr_selected s) \<rparr>"]
      by (simp add: s1)
    have scr1: "screens_ok lv ?M s1 (screens_now scr s1)"
      using player_remove_screens [OF ok(1,4), of ?x] by (simp add: s1_def)
    have "?x |\<in>| fmdom (gr_selected s)" using True i(2) by (simp add: fmdomI)
    then have x: "fcard (fmdom (gr_selected s)) = Suc (fcard (fmdom (gr_selected s1)))"
      using fcard_Suc_fminus1 [of ?x "fmdom (gr_selected s)"] by (simp add: s1)
    show ?thesis
    proof (cases "fs_items (gr_not_selected s)")
      case Nil
      have slots: "slots_ok s1" using ok(2) Nil x by (auto simp: slots_ok_def has_slot_def s1)
      have "keeps lv scr s1 (remove_player_grid_info ?x s1)"
        by (rule remove_info_right [OF ok1 slots _ screens_ok_mono [OF scr1 mono], of ?x a])
          (use ok(3) Some i only in \<open>auto simp: s1\<close>)
      then show ?thesis using Some i True Nil keeps_trans [of s1 s lv scr] s1
        by (simp add: process_remove_def get_player_grid_info_def s1_def [symmetric])
    next
      case (Cons y ys)
      have y: "y |\<in>| gr_not_selected s" using Cons set_fs_items [of "gr_not_selected s"] by auto
      then have "y \<noteq> ?x" using nsel by blast
      obtain b where b1: "fmlookup ?M y = Some b" using y ok(1) by (auto simp: infos_ok_def)
      obtain j where "gr_heap s b = Some j" "pi_guid j = y" using infos_okD [OF ok(1) b1] by metis
      note b = b1 this
      define s2 where "s2 = s1\<lparr> gr_not_selected := gr_not_selected s1 |-| {|y|} \<rparr>"
      have ysel: "y |\<notin>| fmdom (gr_selected s1)"
        using y selected_not [OF ok(1), of y] by (cases "fmlookup (gr_selected s) y") (auto simp: s1 fmdom_notI)
      have ok2: "infos_ok (fmdrop y (fmdrop ?x ?M)) s2"
        using infos_ok_drop [OF ok1, of y] fmdrop_idle [OF ysel] by (simp add: s2_def)
      have M2: "fmupd y b (fmdrop y (fmdrop ?x ?M)) = fmdrop ?x ?M"
        using b(1) \<open>y \<noteq> ?x\<close> by (intro fmap_ext) auto
      have only2: "\<forall>h. fmlookup (fmdrop y (fmdrop ?x ?M)) h \<noteq> Some b" using infos_ok_inj [OF ok(1) b(1)] by auto
      have "visible s2 = visible s1" by (rule visible_cong) (simp_all add: s2_def)
      then have scr2: "screens_ok lv (fmdrop ?x ?M) s2 (screens_now scr s2)"
        using screens_ok_mono [OF scr1 mono, of ?x] screens_ok_cong [of s2 s1] by (simp add: s2_def)
      obtain s3 where s3: "add_selected_player b s2 = Some s3" "infos_ok (fmdrop ?x ?M) s3"
        "screens_ok lv (fmdrop ?x ?M) s3 (screens_now scr s3)" "gr_heap s3 = (gr_heap s2)(b \<mapsto> j\<lparr> pi_is_selected := True \<rparr>)"
        "gr_selected s3 = fmupd y b (gr_selected s2)" "gr_not_selected s3 = gr_not_selected s2"
        "gr_num s3 = gr_num s2" "gr_ops s3 = gr_ops s2" "gr_infos s3 = gr_infos s2"
        by (rule add_selected_joins [OF ok2, of y j b lv scr]) (use b only2 scr2 M2 in \<open>auto simp: s2_def s1\<close>)
      have "fcard (fmdom (gr_selected s3)) = fcard (fmdom (gr_selected s))"
        using fcard_finsert_disjoint [OF ysel] x s3(5) by (simp add: s2_def)
      moreover have "\<not> has_slot s" using ok(2) y by (auto simp: slots_ok_def)
      ultimately have slots: "slots_ok s3" using ok(2) s3 by (simp add: slots_ok_def has_slot_def s2_def s1)
      have "keeps lv scr s3 (remove_player_grid_info ?x s3)"
        by (rule remove_info_right [OF s3(2) slots _ s3(3), of ?x a])
          (use ok(3) Some i only s3 in \<open>auto simp: s2_def s1\<close>)
      moreover have "gr_ops s3 = gr_ops s" "gr_num s3 = gr_num s" using s3 by (simp_all add: s2_def s1)
      ultimately show ?thesis using Some i True Cons b keeps_trans [of s3 s lv scr] s3(1) s1
        by (simp add: process_remove_def get_player_grid_info_def s1_def [symmetric] s2_def)
    qed
  qed
qed

section \<open>The machine\<close>

text \<open>A player that enters the scene, for the first time or again, has an empty screen.\<close>

definition entered :: "player_grid_operation \<Rightarrow> grid \<Rightarrow> screens \<Rightarrow> screens" where
  "entered op s scr =
     (if go_op op = PGOP_ADD \<and> fmlookup (gr_infos s) (go_guid op) = None \<or>
         go_op op = PGOP_READD \<and> fmlookup (gr_infos s) (go_guid op) \<noteq> None
      then scr(go_guid op := Map.empty) else scr)"

lemma grid_process_right:
  assumes right: "grid_right lv scr s" and out: "gr_out s = []" and op: "op_ok lv op"
  shows "keeps lv (entered op s scr) s (grid_process op s)"
proof (cases "go_op op")
  case PGOP_ADD
  obtain s' where "process_add op s = Some s'" "gr_ops s' = gr_ops s" "gr_num s' = gr_num s"
    "grid_right lv (if fmlookup (gr_infos s) (go_guid op) = None then scr(go_guid op := Map.empty) else scr) s'"
    using process_add_right [OF right op PGOP_ADD out] by metis
  then show ?thesis using PGOP_ADD by (simp add: grid_process_def entered_def keeps_def)
next
  case PGOP_READD
  then show ?thesis
    using process_readd_keeps [OF right out, of op]
    by (cases "fmlookup (gr_infos s) (go_guid op)") (simp_all add: grid_process_def entered_def)
next
  case PGOP_LEVELUP
  then have "\<not> lv" using op by (simp add: op_ok_def)
  then show ?thesis using PGOP_LEVELUP right process_levelup_keeps [of scr s op] by (simp add: grid_process_def entered_def)
qed (use right updates_keep [OF right] process_move_keeps [OF right]
    process_flower_rank_keeps [OF right] process_broadcast_keeps [OF right] process_remove_keeps [OF right]
    in \<open>simp_all add: grid_process_def entered_def keeps_def\<close>)

datatype grid_event = Ge_add player | Ge_readd player | Ge_move player | Ge_remove player | Ge_levelup player
  | Ge_flower_rank player | Ge_update_guild_name player | Ge_update_follow_role_id player | Ge_update_title player | Ge_update_special_right player
  | Ge_update_horse player | Ge_update_wife_follow player | Ge_update_yellow_vip_level player
  | Ge_broadcast_packet "(u16 \<times> guid \<times> u8 list) option" | Ge_process

type_synonym grid_state = "grid option \<times> screens"

text \<open>The grid's thread takes the next request; what it sends reaches the screens.\<close>

fun grid_step :: "grid_event \<Rightarrow> grid_state \<Rightarrow> grid_state" where
  "grid_step (Ge_add p) (r, scr) = (map_option (grid_add p) r, scr)"
| "grid_step (Ge_readd p) (r, scr) = (map_option (grid_readd p) r, scr)"
| "grid_step (Ge_move p) (r, scr) = (map_option (grid_move p) r, scr)"
| "grid_step (Ge_remove p) (r, scr) = (map_option (grid_remove p) r, scr)"
| "grid_step (Ge_levelup p) (r, scr) = (map_option (grid_levelup p) r, scr)"
| "grid_step (Ge_flower_rank p) (r, scr) = (map_option (grid_flower_rank p) r, scr)"
| "grid_step (Ge_update_guild_name p) (r, scr) = (map_option (grid_update_guild_name p) r, scr)"
| "grid_step (Ge_update_follow_role_id p) (r, scr) = (map_option (grid_update_follow_role_id p) r, scr)"
| "grid_step (Ge_update_title p) (r, scr) = (map_option (grid_update_title p) r, scr)"
| "grid_step (Ge_update_special_right p) (r, scr) = (map_option (grid_update_special_right p) r, scr)"
| "grid_step (Ge_update_horse p) (r, scr) = (map_option (grid_update_horse p) r, scr)"
| "grid_step (Ge_update_wife_follow p) (r, scr) = (map_option (grid_update_wife_follow p) r, scr)"
| "grid_step (Ge_update_yellow_vip_level p) (r, scr) = (map_option (grid_update_yellow_vip_level p) r, scr)"
| "grid_step (Ge_broadcast_packet packet) (r, scr) = (map_option (grid_broadcast_packet packet) r, scr)"
| "grid_step Ge_process (r, scr) =
     (case r of
        None \<Rightarrow> (None, scr)
      | Some s \<Rightarrow>
          (case gr_ops s of
             [] \<Rightarrow> (r, scr)
           | op # ops \<Rightarrow>
               let r = grid_process op (s\<lparr> gr_ops := ops, gr_out := [] \<rparr>);
                   scr = entered op s scr
               in (r, case r of None \<Rightarrow> scr | Some s \<Rightarrow> screens_now scr s)))"

definition is_levelup :: "grid_event \<Rightarrow> bool" where
  "is_levelup e = (case e of Ge_levelup p \<Rightarrow> True | _ \<Rightarrow> False)"

definition grid_inv :: "bool \<Rightarrow> int \<Rightarrow> grid_state \<Rightarrow> bool" where
  "grid_inv lv n st \<longleftrightarrow> (\<exists>s. fst st = Some s \<and> grid_ok lv s \<and> gr_num s = n \<and> screens_ok lv (gr_infos s) s (snd st))"

lemma put_op_ok:
  assumes "op_ok lv op"
  shows "grid_inv lv n (Some s, scr) \<Longrightarrow> grid_inv lv n (Some (put_op op s), scr)"
proof -
  assume inv: "grid_inv lv n (Some s, scr)"
  have "infos_ok (gr_infos s) (put_op op s) = infos_ok (gr_infos s) s" "slots_ok (put_op op s) = slots_ok s"
    "visible (put_op op s) = visible s"
    by (rule infos_ok_cong slots_ok_cong visible_cong; simp add: put_op_def)+
  moreover have "gr_infos (put_op op s) = gr_infos s" "gr_ops (put_op op s) = gr_ops s @ [op]" "gr_num (put_op op s) = gr_num s"
    by (simp_all add: put_op_def)
  ultimately show ?thesis
    using inv assms screens_ok_cong [of "put_op op s" s] by (auto simp: grid_inv_def grid_ok_def)
qed

lemmas grid_calls = grid_add_def grid_readd_def grid_move_def grid_remove_def grid_levelup_def grid_flower_rank_def
  grid_update_guild_name_def grid_update_follow_role_id_def grid_update_title_def grid_update_special_right_def
  grid_update_horse_def grid_update_wife_follow_def grid_update_yellow_vip_level_def grid_broadcast_packet_def

lemma call_ok:
  assumes "grid_inv lv n (Some s, scr)" "lv \<longrightarrow> \<not> is_levelup e" "e \<noteq> Ge_process"
  shows "grid_inv lv n (grid_step e (Some s, scr))"
  using assms
  by (cases e) (auto simp: grid_calls is_levelup_def op_ok_def new_player_grid_operation_def fill_player_grid_info_def
      new_player_grid_info_def intro!: put_op_ok split: option.splits)

lemma process_ok:
  assumes inv: "grid_inv lv n (Some s, scr)"
  shows "grid_inv lv n (grid_step Ge_process (Some s, scr))"
proof (cases "gr_ops s")
  case Nil
  then show ?thesis using inv by simp
next
  case (Cons op ops)
  let ?s = "s\<lparr> gr_ops := ops, gr_out := [] \<rparr>"
  have "infos_ok (gr_infos s) ?s = infos_ok (gr_infos s) s" "slots_ok ?s = slots_ok s" "visible ?s = visible s"
    by (rule infos_ok_cong slots_ok_cong visible_cong; simp)+
  then have "grid_right lv scr ?s" and op: "op_ok lv op"
    using inv Cons screens_ok_cong [of ?s s] by (simp_all add: grid_inv_def grid_right_def grid_ok_def)
  then have "keeps lv (entered op ?s scr) ?s (grid_process op ?s)" by (intro grid_process_right) simp_all
  moreover have "entered op ?s scr = entered op s scr" "gr_num s = n" using inv by (simp_all add: entered_def grid_inv_def)
  ultimately show ?thesis using Cons by (auto simp: keeps_def grid_inv_def grid_right_def Let_def)
qed

interpretation grid: invariant_machine grid_step "\<lambda>e _. lv \<longrightarrow> \<not> is_levelup e" "grid_inv lv n" for lv n
proof
  fix st :: grid_state and e
  assume inv: "grid_inv lv n st" and e: "lv \<longrightarrow> \<not> is_levelup e"
  then obtain s scr where st: "st = (Some s, scr)" by (cases st) (auto simp: grid_inv_def)
  show "grid_inv lv n (grid_step e st)"
    using call_ok [of lv n s scr e] process_ok [of lv n s scr] inv e st by (cases "e = Ge_process") auto
qed

definition new_scene :: "int \<Rightarrow> grid_state" where
  "new_scene n = (Some (set_max_screen_number n new_grid), \<lambda>_. Map.empty)"

lemma new_scene_ok: "grid_inv lv n (new_scene n)"
  by (simp add: new_scene_def grid_inv_def grid_ok_def infos_ok_def slots_ok_def screens_ok_def
      set_max_screen_number_def new_grid_def fcard_fempty)

lemma levelup_allowed:
  "\<not> list_ex is_levelup es \<Longrightarrow> all_allowed grid_step (\<lambda>e _. lv \<longrightarrow> \<not> is_levelup e) es st"
  "all_allowed grid_step (\<lambda>e _. False \<longrightarrow> \<not> is_levelup e) es st"
  by (induction es arbitrary: st) simp_all

lemma scene_right:
  obtains s scr where "run_events grid_step es (new_scene n) = (Some s, scr)"
    "infos_ok (gr_infos s) s" "slots_ok s" "gr_num s = n" "screens_ok (\<not> list_ex is_levelup es) (gr_infos s) s scr"
proof -
  let ?lv = "\<not> list_ex is_levelup es"
  have "all_allowed grid_step (\<lambda>e _. ?lv \<longrightarrow> \<not> is_levelup e) es (new_scene n)"
  proof (cases ?lv)
    case True
    then show ?thesis using levelup_allowed(1) [OF True, of True "new_scene n"] by simp
  next
    case False
    then show ?thesis using levelup_allowed(2) [of es] by simp
  qed
  then have "grid_inv ?lv n (run_events grid_step es (new_scene n))" by (rule grid.run_keeps [OF new_scene_ok])
  then show ?thesis
    using that by (cases "run_events grid_step es (new_scene n)") (auto simp: grid_inv_def grid_ok_def)
qed

definition sample_player :: "guid \<Rightarrow> player" where
  "sample_player g = \<lparr> py_guid = g, py_role_id = 1, py_level = 1, py_sex = 0, py_src_x = 5, py_src_y = 6,
     py_dst_x = 7, py_dst_y = 8, py_direction = 0, py_first_role = 0, py_flower_rank = 0, py_name = [65],
     py_guild_name = [66], py_guild_icon = 3, py_follow_role_id = 0, py_current_title = [], py_special_right = 0,
     py_horse_id = 0, py_wife_follow = 0, py_yellow_vip_level = 0, py_is_yellow_vip = 0,
     py_is_yellow_year_vip = 0, py_is_yellow_high_vip = 0 \<rparr>"

text \<open>Two players enter a scene that selects at least two.\<close>

definition both_enter :: "player \<Rightarrow> player \<Rightarrow> grid_event list" where
  "both_enter p q = [Ge_add p, Ge_add q, Ge_process, Ge_process]"

lemma two_players:
  assumes "py_guid p \<noteq> py_guid q" "2 \<le> n"
  shows "\<exists>s scr i. run_events grid_step (both_enter p q) (new_scene n) = (Some s, scr) \<and> gr_ops s = [] \<and>
    py_guid p |\<in>| fmdom (gr_infos s) \<and> visible s (py_guid q) = Some i \<and>
    i\<lparr> pi_is_selected := False \<rparr> = fill_player_grid_info q new_player_grid_info"
  using assms
  by (simp add: both_enter_def new_scene_def set_max_screen_number_def new_grid_def grid_add_def put_op_def grid_process_def
      process_add_def get_player_grid_info_def create_other_def sync_selected_player_def has_slot_def fcard_fempty
      fcard_finsert_if add_selected_player_def set_info_def Let_def send_others_eq fm_items_map fs_items_finsert send_def
      fill_player_grid_info_def new_player_grid_operation_def new_player_grid_info_def visible_def)

lemma two_players_see:
  assumes "py_guid p \<noteq> py_guid q" "2 \<le> n"
  shows "\<exists>s scr v i. run_events grid_step (both_enter p q) (new_scene n) = (Some s, scr) \<and>
    scr (py_guid p) (py_guid q) = Some v \<and> agree True v i \<and>
    i\<lparr> pi_is_selected := False \<rparr> = fill_player_grid_info q new_player_grid_info"
proof -
  obtain s scr where run: "run_events grid_step (both_enter p q) (new_scene n) = (Some s, scr)"
    and scr: "screens_ok (\<not> list_ex is_levelup (both_enter p q)) (gr_infos s) s scr" by (rule scene_right)
  have lv: "\<not> list_ex is_levelup (both_enter p q)" by (simp add: both_enter_def is_levelup_def)
  obtain i where "py_guid p |\<in>| fmdom (gr_infos s)" "visible s (py_guid q) = Some i"
      "i\<lparr> pi_is_selected := False \<rparr> = fill_player_grid_info q new_player_grid_info"
    using two_players [OF assms] run by auto
  then show ?thesis
    using run screens_okD [OF scr, of "py_guid p" "py_guid q"] assms(1) lv
    by (auto simp: option_rel_Some2)
qed

text \<open>C7: Whatever the scene calls, the grid never uses a deleted player; every player in the scene sees the selected players
  other than itself and nobody else; it sees them as the grid has them, at the source or the destination of their last
  movement, and with their level as long as nobody in the scene levelled up; at most \<open>n\<close> players are selected, and while
  somebody is not, they are exactly \<open>n\<close>.\<close>

theorem grid_screens:
  "\<exists>s scr. run_events grid_step es (new_scene n) = (Some s, scr) \<and>
     (\<forall>g h. g |\<in>| fmdom (gr_infos s) \<longrightarrow>
        sees (\<not> list_ex is_levelup es) (scr g h) (if h = g then None else visible s h)) \<and>
     (\<forall>g. g |\<in>| fmdom (gr_infos s) \<longrightarrow> visible s g \<noteq> None \<or> g |\<in>| gr_not_selected s) \<and>
     (0 \<le> n \<longrightarrow> int (fcard (fmdom (gr_selected s))) \<le> n) \<and>
     (gr_not_selected s \<noteq> {||} \<longrightarrow> int (fcard (fmdom (gr_selected s))) = n)"
proof -
  obtain s scr where run: "run_events grid_step es (new_scene n) = (Some s, scr)"
    and ok: "infos_ok (gr_infos s) s" "slots_ok s" "gr_num s = n"
    and scr: "screens_ok (\<not> list_ex is_levelup es) (gr_infos s) s scr"
    by (rule scene_right)
  have "visible s g \<noteq> None \<or> g |\<in>| gr_not_selected s" if g: "g |\<in>| fmdom (gr_infos s)" for g
  proof -
    obtain a where "fmlookup (gr_infos s) g = Some a" using g by (auto simp: fmlookup_dom_iff)
    from this obtain i where "gr_heap s a = Some i" "pi_is_selected i = (fmlookup (gr_selected s) g = Some a)"
      "pi_is_selected i = (g |\<notin>| gr_not_selected s)" using infos_okD [OF ok(1)] by metis
    then show ?thesis by (cases "pi_is_selected i") (simp_all add: visible_def)
  qed
  moreover have "\<forall>g h. g |\<in>| fmdom (gr_infos s) \<longrightarrow>
      sees (\<not> list_ex is_levelup es) (scr g h) (if h = g then None else visible s h)"
    using screens_okD [OF scr] by blast
  ultimately show ?thesis using run ok(2,3) by (intro exI [of _ s] exI [of _ scr]) (auto simp: slots_ok_def has_slot_def)
qed

theorem grid_screens_witness:
  "\<exists>s scr v i. run_events grid_step (both_enter (sample_player 1) (sample_player 2)) (new_scene 2) = (Some s, scr) \<and>
     scr 1 2 = Some v \<and> visible s 2 = Some i \<and> agree True v i \<and> int (fcard (fmdom (gr_selected s))) \<le> 2"
proof -
  let ?p = "sample_player 1" and ?q = "sample_player 2"
  have g: "py_guid ?p = 1" "py_guid ?q = 2" by (simp_all add: sample_player_def)
  from grid_screens [of "both_enter ?p ?q" 2] obtain s scr where
    run: "run_events grid_step (both_enter ?p ?q) (new_scene 2) = (Some s, scr)"
    and see: "\<forall>g h. g |\<in>| fmdom (gr_infos s) \<longrightarrow>
      sees (\<not> list_ex is_levelup (both_enter ?p ?q)) (scr g h) (if h = g then None else visible s h)"
    and n: "0 \<le> (2::int) \<longrightarrow> int (fcard (fmdom (gr_selected s))) \<le> 2" by blast
  have lv: "\<not> list_ex is_levelup (both_enter ?p ?q)" by (simp add: both_enter_def is_levelup_def)
  obtain i where i: "py_guid ?p |\<in>| fmdom (gr_infos s)" "visible s (py_guid ?q) = Some i"
    using two_players [of ?p ?q 2] g run by auto
  then have "sees True (scr 1 2) (Some i)" using see [rule_format, of 1 2] g lv by simp
  then show ?thesis using run n i(2) g by (auto simp: option_rel_Some2)
qed

text \<open>C40: The grid tells nobody that a player levelled up: once the request is handled its own data have the new level, and every
  screen is what it was, the old level included.\<close>

theorem levelup_not_shown:
  assumes "run_events grid_step es (new_scene n) = (Some s, scr)" "gr_ops s = []" "visible s (py_guid p) = Some i"
  shows "\<exists>s'. run_events grid_step [Ge_levelup p, Ge_process] (Some s, scr) = (Some s', scr) \<and>
    visible s' (py_guid p) = Some (i\<lparr> pi_level := py_level p \<rparr>)"
proof -
  have ok: "infos_ok (gr_infos s) s" using scene_right [of es n] assms(1) by (metis option.inject prod.inject)
  obtain a where a: "fmlookup (gr_selected s) (py_guid p) = Some a" "gr_heap s a = Some i"
    using assms(3) by (auto simp: visible_def split: option.splits)
  then have "fmlookup (gr_infos s) (py_guid p) = Some a" using infos_ok_selected [OF ok] by blast
  then show ?thesis using a assms(2)
    by (simp add: grid_levelup_def put_op_def grid_process_def process_levelup_def get_player_grid_info_def
        set_info_def entered_def visible_def new_player_grid_operation_def Let_def)
qed

theorem levelup_not_shown_witness:
  "\<exists>s scr v i. scr 1 2 = Some v \<and> pi_level v = 1 \<and> visible s 2 = Some i \<and> pi_level i = 7 \<and>
    run_events grid_step (both_enter (sample_player 1) (sample_player 2) @
      [Ge_levelup (sample_player 2\<lparr> py_level := 7 \<rparr>), Ge_process]) (new_scene 2) = (Some s, scr)"
proof -
  let ?p = "sample_player 1" and ?q = "sample_player 2" and ?r = "sample_player 2\<lparr> py_level := 7 \<rparr>"
  have g: "py_guid ?p = 1" "py_guid ?q = 2" "py_guid ?r = 2" by (simp_all add: sample_player_def)
  obtain s scr v i where s: "run_events grid_step (both_enter ?p ?q) (new_scene 2) = (Some s, scr)"
      "scr 1 2 = Some v" "agree True v i" "i\<lparr> pi_is_selected := False \<rparr> = fill_player_grid_info ?q new_player_grid_info"
    using two_players_see [of ?p ?q 2] g by auto
  obtain j where j: "gr_ops s = []" "visible s (py_guid ?r) = Some j" using two_players [of ?p ?q 2] g s(1) by auto
  have "pi_level (i\<lparr> pi_is_selected := False \<rparr>) = 1"
    unfolding s(4) by (simp add: fill_player_grid_info_def sample_player_def)
  then have "pi_level v = 1" using s(3) by (simp add: agree_def)
  moreover obtain s' where "run_events grid_step [Ge_levelup ?r, Ge_process] (Some s, scr) = (Some s', scr)"
      "visible s' (py_guid ?r) = Some (j\<lparr> pi_level := py_level ?r \<rparr>)"
    using levelup_not_shown [OF s(1) j] by blast
  ultimately show ?thesis using s(1,2) g
    by (intro exI [of _ s'] exI [of _ scr] exI [of _ v] exI [of _ "j\<lparr> pi_level := py_level ?r \<rparr>"])
      (simp add: run_events_append)
qed

text \<open>The icon of a player's guild is not copied when the player enters, so the others see it with
  the guild's name and icon 0, whatever its icon is, until the guild's name is updated.\<close>

theorem guild_icon_not_shown:
  assumes "py_guid p \<noteq> py_guid q" "2 \<le> n"
  shows "\<exists>s scr v. run_events grid_step (both_enter p q) (new_scene n) = (Some s, scr) \<and>
    scr (py_guid p) (py_guid q) = Some v \<and> pi_guild_name v = py_guild_name q \<and> pi_guild_icon v = 0"
proof -
  obtain s scr v i where run: "run_events grid_step (both_enter p q) (new_scene n) = (Some s, scr)"
      "scr (py_guid p) (py_guid q) = Some v"
    and i: "agree True v i" "i\<lparr> pi_is_selected := False \<rparr> = fill_player_grid_info q new_player_grid_info"
    using two_players_see [OF assms] by auto
  have "pi_guild_name (i\<lparr> pi_is_selected := False \<rparr>) = py_guild_name q" "pi_guild_icon (i\<lparr> pi_is_selected := False \<rparr>) = 0"
    unfolding i(2) by (simp_all add: fill_player_grid_info_def new_player_grid_info_def)
  moreover have "pi_guild_name v = pi_guild_name i" "pi_guild_icon v = pi_guild_icon i"
    using i(1) by (cases v; cases i; simp add: agree_def)+
  ultimately show ?thesis using run by simp
qed

theorem guild_icon_not_shown_witness:
  "\<exists>s scr v. run_events grid_step (both_enter (sample_player 1) (sample_player 2)) (new_scene 2) =
      (Some s, scr) \<and> scr 1 2 = Some v \<and> pi_guild_name v = [66] \<and> pi_guild_icon v = 0 \<and> py_guild_icon (sample_player 2) = 3"
  using guild_icon_not_shown [of "sample_player 1" "sample_player 2" 2] by (simp add: sample_player_def)

end
