(* ===== verification/Wallet.thy ===== *)
theory Wallet
  imports Prelude "HOL-Library.Monad_Syntax"
begin

text \<open>
  What a player owns: \<^verbatim>\<open>plugin/manage_player/src/ManagePlayer.cpp\<close>, the changes of money, coins,
  seniority, prestige, energy, experience and vip experience. The fields of the entities are 32 and
  64 bit as in the protobuf files of \<^verbatim>\<open>common/material/entity\<close>; a C \<^verbatim>\<open>int\<close> is a word read with
  \<open>sint\<close>. What is sent, recorded and handed to the pool is kept in order in \<open>wa_out\<close>; what other
  plugins do when they are notified is not part of the model. The guid of the player, the same in
  all of them, is left out, and so are the name, the template id and the guids and ids of roles in the
  records.
\<close>

section \<open>Data\<close>

type_synonym i32 = "32 word"

record player_entity =
  pe_level :: u32
  pe_money :: u32
  pe_coin :: u32
  pe_seniority :: u32
  pe_prestige :: u32
  pe_reverence :: u32
  pe_energy :: u32
  pe_left_energy_reward :: u32
  pe_vip_level :: u32
  pe_vip_exp :: u32
  pe_level_limit :: u32
  pe_addiction_status :: u32
  pe_total_money_cost :: u64
  pe_total_coin_cost :: u64
  pe_total_seni_cost :: u64

record coin_entity =
  co_coin :: u32
  co_money :: u32

record vip_charge_info =
  vc_request_index :: u32
  vc_charge_value :: u32

record vip_entity =
  vp_charge_info :: "vip_charge_info list"
  vp_charge_coin :: u32
  vp_first_charge_gift :: u32
  vp_cost_coin :: u32

record doubleexp_entity =
  de_id :: u32
  de_left_num :: u32
  de_mutil_value :: u32

record role_entity =
  re_level :: u32
  re_exp :: u32

datatype entity_kind = Player_entity | Coin_entity | Vip_entity | Doubleexp_entity | Role_entity guid

text \<open>The attributes of a role that its level changes.\<close>

datatype role_attr_type = RAT_HP_BASE | RAT_STR_ATT_BASE | RAT_STR_DEF_BASE | RAT_AGI_ATT_BASE | RAT_AGI_DEF_BASE
  | RAT_INT_ATT_BASE | RAT_INT_DEF_BASE | RAT_INITIATIVE_LEVEL

text \<open>A record has its number, its source and its values.\<close>

datatype wallet_out = Data_record u32 u32 "u32 list" | Pool_update entity_kind
  | NMSG_MONEY_INCREASE u32 | NMSG_COIN_COST u32 u32 | NMSG_COIN_INCREASE u32 | NMSG_SENIORITY_INCREASE u32
  | NMSG_PRESTIGE_INCREASE u32 | NMSG_ENERGY_INCREASE u32 | NMSG_PLAYER_VIP_LEVEL_UP u32 u32
  | NMSG_PLAYER_LEVEL_UP u32 u32 | NMSG_PLAYER_CHARGE u32 u32 u32
  | LMSG_VIP_LEVLEUP u32 u32 | LMSG_PLAYER_UPGRADE_LEVEL u32 u32 | LMSG_PLAYER_NOTIFY u32 "u64 list"
  | STOL_PLAYER_GET_EXP u32 u32
  | SMSG_MONEY_UPDATE u32 u32 u32 | SMSG_UPDATE_PRESTIGE u32 | SMSG_UPDATE_REVERENCE u32 | SMSG_UPDATE_ENERGY u32
  | SMSG_UPDATE_PLENTIFUL_ENERGY u32 | SMSG_VIP_LEVELUP i32 i32 | SMSG_UPDATE_DOUBLEEXP_INFO u32 u32 u32
  | SMSG_ROLE_UPGRADE_LEVEL guid u32 u32 | SMSG_UPDATE_FIRST_CHARGE_GIFT u32
  | Modify_role_attr guid role_attr_type i32 | Collect_player_level u32 | Grid_levelup
  | NMSG_INHERIT_EXCUTE guid guid | SMSG_INHERIT_ROLE guid guid u32 | Notify_role_attr_update guid
  | SMSG_GAIN_OFFLINE_EXP u32

record wallet =
  wa_player :: player_entity
  wa_coin :: coin_entity
  wa_vip :: "vip_entity option"
  wa_doubleexp :: "doubleexp_entity option"
  wa_roles :: "guid \<rightharpoonup> role_entity"
  wa_first_role :: guid
  wa_out :: "wallet_out list"

definition emit :: "wallet_out \<Rightarrow> wallet \<Rightarrow> wallet" where
  "emit m w = w\<lparr> wa_out := wa_out w @ [m] \<rparr>"

definition upd_player :: "(player_entity \<Rightarrow> player_entity) \<Rightarrow> wallet \<Rightarrow> wallet" where
  "upd_player f w = w\<lparr> wa_player := f (wa_player w) \<rparr>"

definition upd_coin :: "(coin_entity \<Rightarrow> coin_entity) \<Rightarrow> wallet \<Rightarrow> wallet" where
  "upd_coin f w = w\<lparr> wa_coin := f (wa_coin w) \<rparr>"

definition source_from_line_scene :: u32 where "source_from_line_scene = 190000"

definition source_not_record :: u32 where "source_not_record = 100000"

definition is_source_from_ls :: "u32 \<Rightarrow> bool" where
  "is_source_from_ls s \<longleftrightarrow> s = source_from_line_scene"

text \<open>\<^verbatim>\<open>GET_ADDICTION_VALUE\<close>: half of the value towards zero, or nothing.\<close>

definition addiction_value :: "u32 \<Rightarrow> i32 \<Rightarrow> i32" where
  "addiction_value status v =
     (if status = 1 then word_of_int (sgn (sint v) * (\<bar>sint v\<bar> div 2)) else if status = 2 then 0 else v)"

definition record_unless_ls :: "u32 \<Rightarrow> u32 \<Rightarrow> u32 list \<Rightarrow> wallet \<Rightarrow> wallet" where
  "record_unless_ls op source vs w = (if is_source_from_ls source then w else emit (Data_record op source vs) w)"

section \<open>Currencies\<close>

text \<open>The sum of an \<^verbatim>\<open>uint32\<close> and an \<^verbatim>\<open>int\<close> is an \<^verbatim>\<open>uint32\<close>, which is then an \<^verbatim>\<open>int64\<close>.\<close>

definition update_seniority :: "i32 \<Rightarrow> u32 \<Rightarrow> wallet \<Rightarrow> wallet" where
  "update_seniority v source w =
     (let increase = 0 <s v;
          v = (if increase then addiction_value (pe_addiction_status (wa_player w)) v else v)
      in if increase \<and> v = 0 then w
         else
           let seniority_v = uint (pe_seniority (wa_player w) + v);
               w = (if 0 \<le> seniority_v then upd_player (\<lambda>p. p\<lparr> pe_seniority := word_of_int seniority_v \<rparr>) w else w);
               p = wa_player w;
               w = (if 0 <s v
                    then record_unless_ls 231 source [pe_level p, v, pe_seniority p - v, pe_seniority p] w
                    else upd_player (\<lambda>p. p\<lparr> pe_total_seni_cost := pe_total_seni_cost p - scast v \<rparr>)
                      (record_unless_ls 232 source [pe_level p, 0 - v, pe_seniority p - v, pe_seniority p] w))
           in emit (NMSG_SENIORITY_INCREASE (pe_seniority p)) w)"

definition update_money :: "i32 \<Rightarrow> u32 \<Rightarrow> wallet \<Rightarrow> wallet" where
  "update_money v source w =
     (let increase = 0 <s v;
          v = (if increase then addiction_value (pe_addiction_status (wa_player w)) v else v)
      in if increase \<and> v = 0 then w
         else
           let money_v = uint (pe_money (wa_player w) + v);
               w = (if 0 \<le> money_v then upd_player (\<lambda>p. p\<lparr> pe_money := word_of_int money_v \<rparr>) w else w);
               p = wa_player w;
               w = (if 0 <s v
                    then record_unless_ls 221 source [pe_level p, v, pe_money p - v, pe_money p] w
                    else upd_player (\<lambda>p. p\<lparr> pe_total_money_cost := pe_total_money_cost p - scast v \<rparr>)
                      (emit (Data_record 222 source [pe_level p, 0 - v, pe_money p - v, pe_money p]) w));
               w = upd_coin (\<lambda>c. c\<lparr> co_money := pe_money p \<rparr>) w
           in emit (NMSG_MONEY_INCREASE (pe_money p)) (emit (Pool_update Coin_entity) w))"

definition update_coin :: "i32 \<Rightarrow> u32 \<Rightarrow> bool \<Rightarrow> wallet \<Rightarrow> wallet" where
  "update_coin v source is_charge w =
     (let increase = 0 <s v \<and> \<not> is_charge;
          v = (if increase then addiction_value (pe_addiction_status (wa_player w)) v else v)
      in if increase \<and> v = 0 then w
         else
           let w = (if v <s 0
                    then
                      (let cost = 0 - v in
                       case wa_vip w of
                         None \<Rightarrow> emit (NMSG_COIN_COST cost cost) w
                       | Some vip \<Rightarrow>
                           let vip = vip\<lparr> vp_cost_coin := vp_cost_coin vip + cost \<rparr>
                           in emit (NMSG_COIN_COST cost (vp_cost_coin vip)) (w\<lparr> wa_vip := Some vip \<rparr>))
                    else w);
               coin_v = uint (pe_coin (wa_player w) + v);
               w = (if 0 \<le> coin_v then upd_player (\<lambda>p. p\<lparr> pe_coin := word_of_int coin_v \<rparr>) w else w);
               p = wa_player w;
               w = (if 0 <s v
                    then record_unless_ls 261 source [pe_level p, v, pe_coin p - v, pe_coin p] w
                    else upd_player (\<lambda>p. p\<lparr> pe_total_coin_cost := pe_total_coin_cost p - scast v \<rparr>)
                      (emit (Data_record 262 (source + 9000) [pe_level p, 0 - v, pe_coin p - v, pe_coin p]) w));
               w = upd_coin (\<lambda>c. c\<lparr> co_coin := pe_coin p \<rparr>) w
           in emit (NMSG_COIN_INCREASE (pe_coin p)) (emit (Pool_update Coin_entity) w))"

definition update_prestige :: "i32 \<Rightarrow> u32 \<Rightarrow> wallet \<Rightarrow> wallet" where
  "update_prestige v source w =
     (let increase = 0 <s v;
          v = (if increase then addiction_value (pe_addiction_status (wa_player w)) v else v)
      in if increase \<and> v = 0 then w
         else
           let prestige_v = uint (pe_prestige (wa_player w) + v);
               w = (if 0 \<le> prestige_v then upd_player (\<lambda>p. p\<lparr> pe_prestige := word_of_int prestige_v \<rparr>) w else w);
               p = wa_player w;
               w = record_unless_ls 241 source [pe_level p, v, pe_prestige p - v, pe_prestige p] w
           in emit (NMSG_PRESTIGE_INCREASE (word_of_int prestige_v)) w)"

definition notify_player_update_money :: "wallet \<Rightarrow> wallet" where
  "notify_player_update_money w =
     (let p = wa_player w in emit (SMSG_MONEY_UPDATE (pe_seniority p) (pe_money p) (pe_coin p)) w)"

text \<open>The request has amounts, a function id and a source; the results are what the handler
  returns and the result it sets, 0 when it sets none.\<close>

record reduce_gold_request =
  rg_money :: i32
  rg_coin :: i32
  rg_seniority :: i32
  rg_function_id :: u32
  rg_source_from :: u32

definition pmsg_reduce_gold :: "reduce_gold_request \<Rightarrow> wallet \<Rightarrow> wallet \<times> bool \<times> i32" where
  "pmsg_reduce_gold rg w =
     (if rg_money rg <s 0 \<or> rg_coin rg <s 0 \<or> rg_seniority rg <s 0 then (w, False, 0)
      else
        let p = wa_player w in
        if pe_money p < rg_money rg \<or> pe_coin p < rg_coin rg \<or> pe_seniority p < rg_seniority rg then (w, False, 2)
        else
          let w = (if rg_money rg \<noteq> 0 then update_money (0 - rg_money rg) (rg_source_from rg) w else w);
              m = pe_money (wa_player w);
              w = (if rg_coin rg \<noteq> 0 then update_coin (0 - rg_coin rg) (rg_function_id rg) False w else w);
              c = pe_coin (wa_player w);
              w = (if rg_seniority rg \<noteq> 0 then update_seniority (0 - rg_seniority rg) (rg_source_from rg) w else w)
          in (emit (SMSG_MONEY_UPDATE (pe_seniority (wa_player w)) m c) w, True, 1))"

section \<open>Energy\<close>

text \<open>The results are what the handler returns and the result it sets.\<close>

definition notify_client_provide_energy :: "wallet \<Rightarrow> wallet" where
  "notify_client_provide_energy w = emit (SMSG_UPDATE_PLENTIFUL_ENERGY (pe_left_energy_reward (wa_player w))) w"

definition notify_player_update_energy :: "wallet \<Rightarrow> wallet" where
  "notify_player_update_energy w = emit (SMSG_UPDATE_ENERGY (pe_energy (wa_player w))) w"

definition pmsg_reduce_energy :: "i32 \<Rightarrow> u32 \<Rightarrow> wallet \<Rightarrow> wallet \<times> bool \<times> u32" where
  "pmsg_reduce_energy v source w =
     (if v \<le>s 0 then (w, True, 1)
      else
        let left = pe_left_energy_reward (wa_player w);
            (w, result, energy) =
              (if 0 < left then
                 (if v \<le> left
                  then (notify_client_provide_energy (upd_player (\<lambda>p. p\<lparr> pe_left_energy_reward := left - v \<rparr>) w), 1, 0)
                  else (notify_client_provide_energy (upd_player (\<lambda>p. p\<lparr> pe_left_energy_reward := 0 \<rparr>) w), 2, v - left))
               else (w, 2, v))
        in if energy = 0 then (w, True, result)
           else
             let e = pe_energy (wa_player w) - energy in
             if e <s 0 then (w, False, result)
             else
               let old = pe_energy (wa_player w);
                   w = notify_player_update_energy (upd_player (\<lambda>p. p\<lparr> pe_energy := e \<rparr>) w);
                   w = emit (Data_record 252 source [pe_level (wa_player w), v, old, pe_energy (wa_player w)]) w
               in (emit (Pool_update Player_entity) w, True, 1))"

definition pmsg_query_energy :: "wallet \<Rightarrow> u32" where
  "pmsg_query_energy w = pe_energy (wa_player w) + pe_left_energy_reward (wa_player w)"

text \<open>\<open>tili\<close> is the limit of the system resource.\<close>

definition pmsg_add_energy :: "u32 \<Rightarrow> i32 \<Rightarrow> bool \<Rightarrow> u32 \<Rightarrow> wallet \<Rightarrow> wallet" where
  "pmsg_add_energy tili v can_exceed source w =
     (let old = pe_energy (wa_player w) in
      if \<not> can_exceed \<and> tili \<le> old then w
      else
        let e = (if can_exceed then old + v else if old + v <s tili then old + v else tili);
            w = upd_player (\<lambda>p. p\<lparr> pe_energy := e \<rparr>) w;
            w = notify_player_update_energy (emit (Pool_update Player_entity) w);
            w = record_unless_ls 251 source [pe_level (wa_player w), e - old, old, e] w
        in emit (NMSG_ENERGY_INCREASE e) w)"

section \<open>Reverence and prestige\<close>

definition pmsg_update_prestige :: "i32 \<Rightarrow> u32 \<Rightarrow> wallet \<Rightarrow> wallet" where
  "pmsg_update_prestige v source w =
     (let w = update_prestige v source w
      in emit (Pool_update Player_entity) (emit (SMSG_UPDATE_PRESTIGE (pe_prestige (wa_player w))) w))"

definition pmsg_update_reverence :: "i32 \<Rightarrow> wallet \<Rightarrow> wallet \<times> bool" where
  "pmsg_update_reverence v w =
     (let v = addiction_value (pe_addiction_status (wa_player w)) v in
      if v = 0 then (w, True)
      else
        let r = pe_reverence (wa_player w) + v in
        if r <s 0 then (w, False)
        else (emit (SMSG_UPDATE_REVERENCE r) (upd_player (\<lambda>p. p\<lparr> pe_reverence := r \<rparr>) w), True))"

definition pmsg_reduce_reverence :: "u32 \<Rightarrow> wallet \<Rightarrow> wallet \<times> u32" where
  "pmsg_reduce_reverence v w =
     (let r = pe_reverence (wa_player w) in
      if v \<le> r then (emit (SMSG_UPDATE_REVERENCE (r - v)) (upd_player (\<lambda>p. p\<lparr> pe_reverence := r - v \<rparr>) w), 1)
      else (w, 2))"

end
