(* ===== verification/PlayerGrowth.thy ===== *)
theory PlayerGrowth
  imports Wallet
begin

text \<open>
  Experience, levels and vip levels of \<^verbatim>\<open>ManagePlayer.cpp\<close>, and the rewards and payments that
  change them. The tables of the resource files are parameters: the experience a level needs, the
  vip experience of each vip level, the growth of a role, the launch of the server.
\<close>

section \<open>Levels\<close>

text \<open>\<^verbatim>\<open>calcUpdateLevel\<close>: the level is an \<^verbatim>\<open>int\<close>, its experience is looked up as an \<^verbatim>\<open>uint32\<close>;
  \<open>cap\<close> is the smaller of the player's limit and that of the system.\<close>

definition level_cap :: "i32 \<Rightarrow> player_entity \<Rightarrow> int" where
  "level_cap system_cap p = min (sint (pe_level_limit p)) (sint system_cap)"

function calc_update_level :: "(u32 \<rightharpoonup> u32) \<Rightarrow> int \<Rightarrow> u32 \<Rightarrow> int \<Rightarrow> u32 \<times> int" where
  "calc_update_level need cap exp level =
     (case need (word_of_int level) of
        None \<Rightarrow> (exp, level)
      | Some n \<Rightarrow>
          if cap \<le> level then (0, level)
          else if n \<le> exp then calc_update_level need cap (exp - n) (level + 1)
          else (exp, level))"
  by pat_completeness auto
termination by (relation "measure (\<lambda>(_, cap, _, level). nat (cap - level))") auto

declare calc_update_level.simps [simp del]

record role_res_info =
  rr_hp_growth :: i32
  rr_phy_att_growth :: i32
  rr_phy_def_growth :: i32
  rr_agi_att_growth :: i32
  rr_agi_def_growth :: i32
  rr_int_att_growth :: i32
  rr_int_def_growth :: i32

record growth_res =
  gr_need :: "u32 \<rightharpoonup> u32"
  gr_system_cap :: i32
  gr_first_strike :: u32
  gr_role_res :: "guid \<rightharpoonup> role_res_info"
  gr_vip_exp :: "(u32, i32) fmap"
  gr_tili :: u32
  gr_date :: "u64 \<Rightarrow> u64 \<times> u64 \<times> u64"
  gr_launch_time :: u64

definition level_upgrade :: "growth_res \<Rightarrow> guid \<Rightarrow> i32 \<Rightarrow> i32 \<Rightarrow> wallet \<Rightarrow> wallet" where
  "level_upgrade res role from to w =
     (case gr_role_res res role of
        None \<Rightarrow> w
      | Some rr \<Rightarrow>
          fold (\<lambda>(attr, v). emit (Modify_role_attr role attr ((to - from) * v)))
            [(RAT_HP_BASE, rr_hp_growth rr), (RAT_STR_ATT_BASE, rr_phy_att_growth rr),
             (RAT_STR_DEF_BASE, rr_phy_def_growth rr), (RAT_AGI_ATT_BASE, rr_agi_att_growth rr),
             (RAT_AGI_DEF_BASE, rr_agi_def_growth rr), (RAT_INT_ATT_BASE, rr_int_att_growth rr),
             (RAT_INT_DEF_BASE, rr_int_def_growth rr), (RAT_INITIATIVE_LEVEL, gr_first_strike res)] w)"

definition level_reduce :: "growth_res \<Rightarrow> guid \<Rightarrow> i32 \<Rightarrow> i32 \<Rightarrow> wallet \<Rightarrow> wallet" where
  "level_reduce res role from to w =
     (case gr_role_res res role of
        None \<Rightarrow> w
      | Some rr \<Rightarrow>
          fold (\<lambda>(attr, v). emit (Modify_role_attr role attr (- (from - to) * v)))
            [(RAT_HP_BASE, rr_hp_growth rr), (RAT_STR_ATT_BASE, rr_phy_att_growth rr),
             (RAT_STR_DEF_BASE, rr_phy_def_growth rr), (RAT_AGI_ATT_BASE, rr_agi_att_growth rr),
             (RAT_AGI_DEF_BASE, rr_agi_def_growth rr), (RAT_INT_ATT_BASE, rr_int_att_growth rr),
             (RAT_INT_DEF_BASE, rr_int_def_growth rr), (RAT_INITIATIVE_LEVEL, gr_first_strike res)] w)"

text \<open>The first role carries the level of the player.\<close>

definition notify_role_level_up :: "guid \<Rightarrow> role_entity \<Rightarrow> u32 \<Rightarrow> wallet \<Rightarrow> wallet" where
  "notify_role_level_up g role pre w =
     (let w = (if g = wa_first_role w
               then
                 let w = upd_player (\<lambda>p. p\<lparr> pe_level := re_level role \<rparr>) w
                 in fold emit [Collect_player_level (re_level role), Pool_update Player_entity,
                      LMSG_PLAYER_UPGRADE_LEVEL (re_level role) pre, Grid_levelup,
                      NMSG_PLAYER_LEVEL_UP pre (re_level role)] w
               else w)
      in emit (SMSG_ROLE_UPGRADE_LEVEL g (re_level role) (re_exp role)) w)"

definition notify_role_update_exp :: "guid \<Rightarrow> role_entity \<Rightarrow> wallet \<Rightarrow> wallet" where
  "notify_role_update_exp g role w = emit (SMSG_ROLE_UPGRADE_LEVEL g (re_level role) (re_exp role)) w"

definition update_role_exp :: "growth_res \<Rightarrow> guid \<Rightarrow> i32 \<Rightarrow> u32 \<Rightarrow> u32 \<Rightarrow> wallet \<Rightarrow> wallet" where
  "update_role_exp res g v status source w =
     (case wa_roles w g of
        None \<Rightarrow> w
      | Some role \<Rightarrow>
          let v = addiction_value status v in
          if v = 0 then w
          else if word_of_int (level_cap (gr_system_cap res) (wa_player w)) \<le> re_level role then w
          else
            let (exp, level) = calc_update_level (gr_need res) (level_cap (gr_system_cap res) (wa_player w))
                  (re_exp role + v) (sint (re_level role));
                role' = role\<lparr> re_exp := exp, re_level := word_of_int level \<rparr>;
                w = w\<lparr> wa_roles := (wa_roles w)(g \<mapsto> role') \<rparr>;
                w = (if re_level role < re_level role'
                     then record_unless_ls 211 source
                            [pe_level (wa_player w), re_level role, re_level role', v, re_exp role, re_exp role']
                            (notify_role_level_up g role' (re_level role)
                              (level_upgrade res g (re_level role) (re_level role') w))
                     else notify_role_update_exp g role' w);
                w = (if wa_first_role w = g then emit (STOL_PLAYER_GET_EXP (re_level role') (re_exp role')) w else w);
                w = (if source = source_not_record then w
                     else record_unless_ls 201 source [pe_level (wa_player w), v, re_exp role, re_exp role'] w)
            in emit (Pool_update (Role_entity g)) w)"

section \<open>Vip experience\<close>

text \<open>The loop over the table in the order of the levels.\<close>

fun vip_level_loop :: "i32 \<Rightarrow> (u32 \<times> i32) list \<Rightarrow> i32 \<Rightarrow> i32" where
  "vip_level_loop exp [] level = level"
| "vip_level_loop exp ((l, n) # xs) level = (if exp <s n then l - 1 else vip_level_loop exp xs l)"

definition update_vip_exp :: "growth_res \<Rightarrow> i32 \<Rightarrow> u32 \<Rightarrow> wallet \<Rightarrow> wallet" where
  "update_vip_exp res v source w =
     (let from = pe_vip_level (wa_player w);
          vip_exp = pe_vip_exp (wa_player w) + v
      in if vip_exp \<le>s 0 then w
         else
           let level = vip_level_loop vip_exp (fm_items (gr_vip_exp res)) 0;
               w = upd_player (\<lambda>p. p\<lparr> pe_vip_exp := vip_exp \<rparr>) w;
               w = emit (SMSG_VIP_LEVELUP level vip_exp) w;
               w = (if from < level
                    then
                      let w = upd_player (\<lambda>p. p\<lparr> pe_vip_level := level \<rparr>) w in
                      fold emit [NMSG_PLAYER_VIP_LEVEL_UP from level, LMSG_VIP_LEVLEUP from level,
                        Data_record 274 source [pe_level (wa_player w), from, level, v, vip_exp - v]] w
                    else w);
               w = emit (Data_record 271 source [pe_level (wa_player w), v, vip_exp - v, vip_exp, pe_vip_level (wa_player w)]) w
           in emit (Pool_update Player_entity) w)"

section \<open>Rewards\<close>

definition use_mutilexp :: "u32 \<Rightarrow> bool" where
  "use_mutilexp source \<longleftrightarrow> source = 302 \<or> source = 1402"

definition update_doubleexp_info :: "wallet \<Rightarrow> wallet" where
  "update_doubleexp_info w =
     (case wa_doubleexp w of
        None \<Rightarrow> w
      | Some de \<Rightarrow> emit (SMSG_UPDATE_DOUBLEEXP_INFO (de_id de) (de_left_num de) (de_mutil_value de)) w)"

record update_reward =
  ur_seniority :: i32
  ur_money :: i32
  ur_coin :: i32
  ur_prestige :: i32
  ur_role_guid :: "guid list"
  ur_role_exp :: "u32 list"
  ur_source_from :: u32

definition take_doubleexp :: "u32 \<Rightarrow> doubleexp_entity \<Rightarrow> wallet \<Rightarrow> wallet \<times> u32" where
  "take_doubleexp source de w =
     (if 0 < de_left_num de \<and> use_mutilexp source
      then
        let value = de_mutil_value de;
            de = de\<lparr> de_left_num := de_left_num de - 1 \<rparr>;
            de = (if de_left_num de = 0 then de\<lparr> de_id := 0, de_left_num := 0, de_mutil_value := 1 \<rparr> else de);
            w = emit (Pool_update Doubleexp_entity) (w\<lparr> wa_doubleexp := Some de \<rparr>)
        in (update_doubleexp_info w, value)
      else (w, 1))"

definition rmsg_update_reward :: "growth_res \<Rightarrow> update_reward \<Rightarrow> wallet \<Rightarrow> wallet \<times> bool" where
  "rmsg_update_reward res ur w =
     (if ur_money ur <s 0 \<or> ur_coin ur <s 0 \<or> ur_seniority ur <s 0 \<or> ur_prestige ur <s 0 then (w, False)
      else
        case wa_doubleexp w of
          None \<Rightarrow> (w, False)
        | Some de \<Rightarrow>
            let source = ur_source_from ur;
                (w, value) = take_doubleexp source de w;
                w = (if length (ur_role_guid ur) = length (ur_role_exp ur)
                     then fold (\<lambda>(g, e) w. update_role_exp res g (e * value) (pe_addiction_status (wa_player w)) source w)
                            (zip (ur_role_guid ur) (ur_role_exp ur)) w
                     else w);
                w = (if ur_seniority ur \<noteq> 0 then update_seniority (ur_seniority ur) source w else w);
                w = (if ur_money ur \<noteq> 0 then update_money (ur_money ur) source w else w);
                w = (if ur_coin ur \<noteq> 0 then update_coin (ur_coin ur) source False w else w);
                w = (if ur_prestige ur \<noteq> 0
                     then let w = update_prestige (ur_prestige ur) source w
                          in emit (SMSG_UPDATE_PRESTIGE (pe_prestige (wa_player w))) w
                     else w)
            in (notify_player_update_money (emit (Pool_update Player_entity) w), True))"

section \<open>Payments\<close>

text \<open>The line scene sends the request index, the value and the time of a payment; the confirmation
  has a result. The hour, minute and second of a time, which \<^verbatim>\<open>ACE_Date_Time\<close> computes, are
  a parameter.\<close>

definition get_time_different_day :: "(u64 \<Rightarrow> u64 \<times> u64 \<times> u64) \<Rightarrow> u64 \<Rightarrow> u64 \<Rightarrow> u32" where
  "get_time_different_day date big small =
     (if big \<le> small then 0
      else
        let (hour, minute, second) = date small;
            small_zero = small - hour * 3600 - minute * 60 - second
        in ucast ((big - small_zero) div (3600 * 24)))"

record player_charge =
  ch_request_index :: u64
  ch_charge_value :: u64
  ch_charge_time :: u64

record charge_confirm =
  cc_request_index :: u64
  cc_charge_value :: u64
  cc_result :: u32

definition is_valid_charge_request :: "vip_entity \<Rightarrow> u32 \<Rightarrow> bool" where
  "is_valid_charge_request vip request_index \<longleftrightarrow>
     \<not> list_ex (\<lambda>c. vc_request_index c = request_index) (vp_charge_info vip)"

definition recode_charge_info :: "u32 \<Rightarrow> u32 \<Rightarrow> vip_entity \<Rightarrow> vip_entity" where
  "recode_charge_info request_index charge_value vip =
     vip\<lparr> vp_charge_info := vp_charge_info vip @ [\<lparr> vc_request_index = request_index, vc_charge_value = charge_value \<rparr>],
          vp_charge_coin := vp_charge_coin vip + charge_value \<rparr>"

definition charge_first_gift :: "vip_entity \<Rightarrow> wallet \<Rightarrow> wallet" where
  "charge_first_gift vip w =
     (if vp_first_charge_gift vip = 1
      then fold emit [Pool_update Vip_entity, SMSG_UPDATE_FIRST_CHARGE_GIFT 2] (w\<lparr> wa_vip := Some (vip\<lparr> vp_first_charge_gift := 2 \<rparr>) \<rparr>)
      else w)"

definition lmsg_player_charge ::
  "growth_res \<Rightarrow> player_charge \<Rightarrow> wallet \<Rightarrow> wallet \<times> charge_confirm option" where
  "lmsg_player_charge res ch w =
     (case wa_vip w of
        None \<Rightarrow> (w, None)
      | Some vip \<Rightarrow>
          let index = ucast (ch_request_index ch);
              v = ucast (ch_charge_value ch);
              valid = is_valid_charge_request vip index;
              w = (if valid
                   then
                     let w = charge_first_gift vip w;
                         w = update_coin v 264 True (update_vip_exp res v 264 w);
                         w = w\<lparr> wa_vip := map_option (recode_charge_info index v) (wa_vip w) \<rparr>;
                         w = notify_player_update_money (emit (Pool_update Vip_entity) w);
                         total = (case wa_vip w of None \<Rightarrow> 0 | Some vip \<Rightarrow> vp_charge_coin vip)
                     in fold emit [NMSG_PLAYER_CHARGE v total (get_time_different_day (gr_date res) (ch_charge_time ch) (gr_launch_time res) + 1),
                          LMSG_PLAYER_NOTIFY 403 [ch_charge_value ch, ucast (pe_vip_level (wa_player w))]] w
                   else w)
          in (w, Some \<lparr> cc_request_index = ch_request_index ch, cc_charge_value = ch_charge_value ch,
                    cc_result = (if valid then 1 else 2) \<rparr>))"

end
