(* ===== verification/PlayerCommands.thy ===== *)
theory PlayerCommands
  imports PlayerGrowth
begin

text \<open>
  The other handlers of \<^verbatim>\<open>ManagePlayer.cpp\<close> that change what a player owns or its levels: a role
  inherits the level of another, the commands of a game master, the experience of the time offline and
  the payments made before the first login. \<open>wa_roles\<close> holds the roles of the player, so a role of
  somebody else is not found, which the code refuses with another error code. The numbers that \<^verbatim>\<open>atoi\<close>
  reads from the parameters of a command are its arguments.
\<close>

text \<open>What a handler returns: 0 or one of its error codes.\<close>

datatype command_code = Command_ok | CE_NCHECK_CODE | SE_NGUID_CODE | SE_GMCMD_PARAM_CODE

section \<open>Inheritance\<close>

text \<open>The price of the resource file.\<close>

record inherit_gold_res =
  ig_coin :: i32
  ig_fun_id :: u32

definition reduce_inherit_money :: "inherit_gold_res \<Rightarrow> wallet \<Rightarrow> wallet \<times> bool" where
  "reduce_inherit_money ig w =
     (let (w, ok, result) = pmsg_reduce_gold
            \<lparr> rg_money = 0, rg_coin = ig_coin ig, rg_seniority = 0, rg_function_id = ig_fun_id ig, rg_source_from = 2902 \<rparr> w
      in (w, ok \<and> result = 1))"

text \<open>The plugin of the equipments is asked first: \<open>check\<close> is whether it sets the result 1. The roles' fight
  powers, which the scene computes for the answer, and the counters of inheritances are left out.\<close>

definition cmsg_inherit_role ::
  "growth_res \<Rightarrow> inherit_gold_res \<Rightarrow> bool \<Rightarrow> guid \<Rightarrow> guid \<Rightarrow> wallet \<Rightarrow> wallet \<times> command_code" where
  "cmsg_inherit_role res ig check from to w =
     (if from = to then (w, CE_NCHECK_CODE)
      else
        case (wa_roles w from, wa_roles w to) of
          (None, _) \<Rightarrow> (w, SE_NGUID_CODE)
        | (_, None) \<Rightarrow> (w, SE_NGUID_CODE)
        | (Some from_role, Some to_role) \<Rightarrow>
            if wa_first_role w = from \<or> wa_first_role w = to \<or> \<not> check then (w, CE_NCHECK_CODE)
            else
              let (w, paid) = reduce_inherit_money ig w in
              if \<not> paid then (emit (SMSG_INHERIT_ROLE from to 2) w, Command_ok)
              else
                let w = emit (NMSG_INHERIT_EXCUTE from to) w;
                    from_level = re_level from_role;
                    to_level = re_level to_role;
                    w = (if to_level < from_level
                         then level_upgrade res to to_level from_level (level_reduce res from from_level to_level w)
                         else if from_level < to_level
                         then level_reduce res to to_level from_level (level_upgrade res from from_level to_level w)
                         else w);
                    from_role' = from_role\<lparr> re_level := to_level, re_exp := re_exp to_role \<rparr>;
                    to_role' = to_role\<lparr> re_level := from_level, re_exp := re_exp from_role \<rparr>;
                    w = w\<lparr> wa_roles := (wa_roles w)(from \<mapsto> from_role', to \<mapsto> to_role') \<rparr>;
                    w = notify_role_level_up from from_role' from_level (notify_role_level_up to to_role' to_level w)
                in (fold emit [SMSG_INHERIT_ROLE from to 1, Notify_role_attr_update from, Notify_role_attr_update to,
                      Pool_update (Role_entity to), Pool_update (Role_entity from),
                      Data_record 2902 2902 [pe_level (wa_player w), 0, ig_coin ig, to_level, to_level, from_level]] w,
                    Command_ok))"

section \<open>Commands of a game master\<close>

text \<open>The roles of the player in the order of its list, the first one first.\<close>

definition gm_role :: "guid list \<Rightarrow> i32 list \<Rightarrow> wallet \<Rightarrow> guid" where
  "gm_role roles ps w =
     (case ps of
        _ # i # _ \<Rightarrow> (if 0 <s i \<and> sint i \<le> int (length roles) then roles ! (unat i - 1) else wa_first_role w)
      | _ \<Rightarrow> wa_first_role w)"

text \<open>The level, an \<^verbatim>\<open>uint32\<close>, makes the comparisons with the cap unsigned; the attributes are raised from the new
  level on.\<close>

definition gmcmd_levelup :: "growth_res \<Rightarrow> guid list \<Rightarrow> i32 list \<Rightarrow> wallet \<Rightarrow> wallet \<times> command_code" where
  "gmcmd_levelup res roles ps w =
     (case ps of
        [] \<Rightarrow> (w, SE_GMCMD_PARAM_CODE)
      | up # _ \<Rightarrow>
          if up \<le>s 0 then (w, SE_GMCMD_PARAM_CODE)
          else
            let g = gm_role roles ps w in
            case wa_roles w g of
              None \<Rightarrow> (w, SE_NGUID_CODE)
            | Some role \<Rightarrow>
                let cap = word_of_int (level_cap (gr_system_cap res) (wa_player w)) in
                if cap \<le> re_level role then (w, Command_ok)
                else
                  let up = (if cap < re_level role + up then cap - re_level role else up);
                      role' = role\<lparr> re_level := re_level role + up \<rparr>;
                      w = w\<lparr> wa_roles := (wa_roles w)(g \<mapsto> role') \<rparr>;
                      w = level_upgrade res g (re_level role') (re_level role' + up) w;
                      w = emit (Pool_update (Role_entity g)) w;
                      w = emit (Data_record 211 212 [pe_level (wa_player w), re_level role, re_level role',
                            re_exp role, re_exp role, re_exp role]) w
                  in (notify_role_level_up g role' (re_level role) w, Command_ok))"

definition gmcmd_addexp :: "growth_res \<Rightarrow> i32 list \<Rightarrow> wallet \<Rightarrow> wallet \<times> command_code" where
  "gmcmd_addexp res ps w =
     (case ps of
        [v] \<Rightarrow>
          if v \<le>s 0 then (w, SE_GMCMD_PARAM_CODE)
          else if wa_roles w (wa_first_role w) = None then (w, SE_NGUID_CODE)
          else
            let w = update_role_exp res (wa_first_role w) v (pe_addiction_status (wa_player w)) 202 w
            in (emit (Pool_update (Role_entity (wa_first_role w))) w, Command_ok)
      | _ \<Rightarrow> (w, SE_GMCMD_PARAM_CODE))"

text \<open>The sum of the amount and what the player has is read as an \<^verbatim>\<open>int\<close>.\<close>

definition gmcmd_addmoney :: "i32 list \<Rightarrow> wallet \<Rightarrow> wallet \<times> command_code" where
  "gmcmd_addmoney ps w =
     (case ps of
        [v] \<Rightarrow> if pe_money (wa_player w) + v <s 0 then (w, SE_GMCMD_PARAM_CODE)
               else (notify_player_update_money (update_money v 223 w), Command_ok)
      | _ \<Rightarrow> (w, SE_GMCMD_PARAM_CODE))"

definition gmcmd_addcoin :: "i32 list \<Rightarrow> wallet \<Rightarrow> wallet \<times> command_code" where
  "gmcmd_addcoin ps w =
     (case ps of
        [v] \<Rightarrow> if pe_coin (wa_player w) + v <s 0 then (w, SE_GMCMD_PARAM_CODE)
               else (notify_player_update_money (update_coin v 263 False w), Command_ok)
      | _ \<Rightarrow> (w, SE_GMCMD_PARAM_CODE))"

definition gmcmd_addseni :: "i32 list \<Rightarrow> wallet \<Rightarrow> wallet \<times> command_code" where
  "gmcmd_addseni ps w =
     (case ps of
        [v] \<Rightarrow> if pe_seniority (wa_player w) + v <s 0 then (w, SE_GMCMD_PARAM_CODE)
               else (notify_player_update_money (update_seniority v 233 w), Command_ok)
      | _ \<Rightarrow> (w, SE_GMCMD_PARAM_CODE))"

text \<open>These commands send the requests that other plugins send to the handlers of this file.\<close>

definition gmcmd_addenergy :: "growth_res \<Rightarrow> i32 list \<Rightarrow> wallet \<Rightarrow> wallet \<times> command_code" where
  "gmcmd_addenergy res ps w =
     (case ps of
        [v] \<Rightarrow> if v <s 0 then (w, SE_GMCMD_PARAM_CODE) else (pmsg_add_energy (gr_tili res) v True 253 w, Command_ok)
      | _ \<Rightarrow> (w, SE_GMCMD_PARAM_CODE))"

definition gmcmd_addpres :: "i32 list \<Rightarrow> wallet \<Rightarrow> wallet \<times> command_code" where
  "gmcmd_addpres ps w =
     (case ps of [v] \<Rightarrow> (pmsg_update_prestige v 242 w, Command_ok) | _ \<Rightarrow> (w, SE_GMCMD_PARAM_CODE))"

definition gmcmd_addrever :: "i32 list \<Rightarrow> wallet \<Rightarrow> wallet \<times> command_code" where
  "gmcmd_addrever ps w =
     (case ps of [v] \<Rightarrow> (fst (pmsg_update_reverence v w), Command_ok) | _ \<Rightarrow> (w, SE_GMCMD_PARAM_CODE))"

definition gmcmd_addvipexp :: "growth_res \<Rightarrow> i32 list \<Rightarrow> wallet \<Rightarrow> wallet \<times> command_code" where
  "gmcmd_addvipexp res ps w =
     (case ps of
        [v] \<Rightarrow> if 0 <s v then (update_vip_exp res v 272 w, Command_ok) else (w, SE_GMCMD_PARAM_CODE)
      | _ \<Rightarrow> (w, SE_GMCMD_PARAM_CODE))"

section \<open>Logins\<close>

text \<open>The experience for the time offline is computed with \<^verbatim>\<open>double\<close>s; the result, a positive number, is an argument.\<close>

definition gain_offline_exp :: "growth_res \<Rightarrow> i32 \<Rightarrow> wallet \<Rightarrow> wallet" where
  "gain_offline_exp res v w =
     emit (SMSG_GAIN_OFFLINE_EXP v) (update_role_exp res (wa_first_role w) v (pe_addiction_status (wa_player w)) 0 w)"

text \<open>A payment made before the account had a player.\<close>

definition charge_pre_charge_info :: "growth_res \<Rightarrow> u32 \<Rightarrow> u32 \<Rightarrow> wallet \<Rightarrow> wallet" where
  "charge_pre_charge_info res charge_coin vipexp w =
     (let w = update_coin charge_coin 10000 False w
      in update_vip_exp res vipexp 10000 (emit (SMSG_MONEY_UPDATE 0 0 (pe_coin (wa_player w))) w))"

end
