(* ===== verification/WalletLaws.thy ===== *)
theory WalletLaws
  imports PlayerCommands
begin

text \<open>
  The laws of a player's possessions: a payment takes exactly what it says or nothing, the entities
  that repeat a value agree, levels follow the table and the cap and are only exchanged otherwise, and what a failed payment of energy
  leaves behind.
\<close>

section \<open>Signed words\<close>

lemma sint_uint_pos:
  fixes m :: "32 word"
  assumes "0 \<le>s m"
  shows "sint m = uint m" "uint m < 2 ^ 31"
proof -
  have "0 \<le> sint m" "sint m < 2 ^ 31" using assms sint_lt [of m] by (simp_all add: word_sle_eq)
  then show "sint m = uint m" by (simp add: uint_sint take_bit_int_eq_self)
  then show "uint m < 2 ^ 31" using \<open>sint m < 2 ^ 31\<close> by simp
qed

lemma sint_neg:
  fixes m :: "32 word"
  assumes "0 \<le>s m"
  shows "sint (- m) = - uint m"
proof -
  have "signed_take_bit 31 (- uint m) = - uint m"
    by (rule signed_take_bit_int_eq_self) (use sint_uint_pos(2) [OF assms] uint_ge_0 [of m] in linarith)+
  then show ?thesis using sint_uint_pos [OF assms] by (simp add: sint_word_ariths)
qed

lemma neg_pos_simps [simp]:
  fixes m :: "32 word"
  assumes "0 \<le>s m"
  shows "\<not> 0 <s - m" "m \<noteq> 0 \<Longrightarrow> - m <s 0"
  using sint_neg [OF assms] uint_ge_0 [of m] by (auto simp: word_sless_alt uint_0_iff less_le)

text \<open>A cost that is subtracted as a negative number is added.\<close>

lemma minus_scast_neg:
  fixes m :: "32 word"
  assumes "0 \<le>s m"
  shows "(t :: u64) - scast (- m) = t + ucast m"
proof -
  have "(scast (- m) :: u64) = - ucast m"
    by (simp only: scast_eq ucast_eq sint_neg [OF assms] wi_hom_neg)
  then show ?thesis by simp
qed

section \<open>Costs\<close>

lemma update_money_cost:
  assumes "0 \<le>s m" "m \<noteq> 0"
  shows "wa_player (update_money (- m) source w) = (wa_player w)\<lparr> pe_money := pe_money (wa_player w) - m,
      pe_total_money_cost := pe_total_money_cost (wa_player w) + ucast m \<rparr>"
    "wa_coin (update_money (- m) source w) = (wa_coin w)\<lparr> co_money := pe_money (wa_player w) - m \<rparr>"
    "wa_vip (update_money (- m) source w) = wa_vip w"
  using assms minus_scast_neg [OF assms(1)]
  by (simp_all add: update_money_def Let_def upd_player_def upd_coin_def emit_def)

lemma update_coin_cost:
  assumes "0 \<le>s m" "m \<noteq> 0"
  shows "wa_player (update_coin (- m) source is_charge w) = (wa_player w)\<lparr> pe_coin := pe_coin (wa_player w) - m,
      pe_total_coin_cost := pe_total_coin_cost (wa_player w) + ucast m \<rparr>"
    "wa_coin (update_coin (- m) source is_charge w) = (wa_coin w)\<lparr> co_coin := pe_coin (wa_player w) - m \<rparr>"
    "wa_vip (update_coin (- m) source is_charge w) =
      map_option (\<lambda>v. v\<lparr> vp_cost_coin := vp_cost_coin v + m \<rparr>) (wa_vip w)"
  using assms minus_scast_neg [OF assms(1)]
  by (simp_all add: update_coin_def Let_def upd_player_def upd_coin_def emit_def split: option.splits)

lemma update_seniority_cost:
  assumes "0 \<le>s m" "m \<noteq> 0"
  shows "wa_player (update_seniority (- m) source w) = (wa_player w)\<lparr> pe_seniority := pe_seniority (wa_player w) - m,
      pe_total_seni_cost := pe_total_seni_cost (wa_player w) + ucast m \<rparr>"
    "wa_coin (update_seniority (- m) source w) = wa_coin w" "wa_vip (update_seniority (- m) source w) = wa_vip w"
  using assms minus_scast_neg [OF assms(1)]
  by (simp_all add: update_seniority_def Let_def upd_player_def upd_coin_def emit_def record_unless_ls_def)

lemma emit_fields [simp]:
  "wa_player (emit m w) = wa_player w" "wa_coin (emit m w) = wa_coin w" "wa_vip (emit m w) = wa_vip w"
  "wa_doubleexp (emit m w) = wa_doubleexp w" "wa_roles (emit m w) = wa_roles w" "wa_first_role (emit m w) = wa_first_role w"
  by (simp_all add: emit_def)

text \<open>C26: a payment with a negative amount is refused; one the player cannot make in full changes
  nothing and answers 2; any other takes exactly its amounts of the three currencies, adds them to the
  totals the player and the vip entity keep, and brings the coin entity up to date.\<close>

theorem reduce_gold_exact:
  "case pmsg_reduce_gold rg w of (w', ok, result) \<Rightarrow>
     let p = wa_player w; p' = wa_player w' in
     if rg_money rg <s 0 \<or> rg_coin rg <s 0 \<or> rg_seniority rg <s 0 then w' = w \<and> \<not> ok \<and> result = 0
     else if rg_money rg \<le> pe_money p \<and> rg_coin rg \<le> pe_coin p \<and> rg_seniority rg \<le> pe_seniority p
     then ok \<and> result = 1 \<and>
       unat (pe_money p') + unat (rg_money rg) = unat (pe_money p) \<and>
       unat (pe_coin p') + unat (rg_coin rg) = unat (pe_coin p) \<and>
       unat (pe_seniority p') + unat (rg_seniority rg) = unat (pe_seniority p) \<and>
       pe_total_money_cost p' = pe_total_money_cost p + ucast (rg_money rg) \<and>
       pe_total_coin_cost p' = pe_total_coin_cost p + ucast (rg_coin rg) \<and>
       pe_total_seni_cost p' = pe_total_seni_cost p + ucast (rg_seniority rg) \<and>
       map_option vp_cost_coin (wa_vip w') = map_option (\<lambda>v. vp_cost_coin v + rg_coin rg) (wa_vip w) \<and>
       co_money (wa_coin w') = (if rg_money rg = 0 then co_money (wa_coin w) else pe_money p') \<and>
       co_coin (wa_coin w') = (if rg_coin rg = 0 then co_coin (wa_coin w) else pe_coin p')
     else w' = w \<and> \<not> ok \<and> result = 2"
proof (cases "rg_money rg <s 0 \<or> rg_coin rg <s 0 \<or> rg_seniority rg <s 0 \<or>
    pe_money (wa_player w) < rg_money rg \<or> pe_coin (wa_player w) < rg_coin rg \<or> pe_seniority (wa_player w) < rg_seniority rg")
  case True
  then show ?thesis by (auto simp: pmsg_reduce_gold_def Let_def not_le)
next
  case False
  then have pos: "0 \<le>s rg_money rg" "0 \<le>s rg_coin rg" "0 \<le>s rg_seniority rg"
    by (simp_all add: word_sle_eq word_sless_alt not_less)
  note cost = update_money_cost [OF pos(1)] update_coin_cost [OF pos(2)] update_seniority_cost [OF pos(3)]
  have sub: "unat (a - b) + unat b = unat a" if "b \<le> a" for a b :: u32
    using that by (simp add: unat_sub word_le_nat_alt)
  have le: "rg_money rg \<le> pe_money (wa_player w)" "rg_coin rg \<le> pe_coin (wa_player w)"
    "rg_seniority rg \<le> pe_seniority (wa_player w)" using False by auto
  show ?thesis
    using False le sub [OF le(1)] sub [OF le(2)] sub [OF le(3)]
    by (cases "wa_vip w"; cases "rg_money rg = 0"; cases "rg_coin rg = 0"; cases "rg_seniority rg = 0")
      (simp_all add: pmsg_reduce_gold_def Let_def cost)
qed

section \<open>Levels\<close>

text \<open>The experience the levels from \<open>level\<close> to below \<open>level'\<close> need.\<close>

definition spent :: "(u32 \<rightharpoonup> u32) \<Rightarrow> int \<Rightarrow> int \<Rightarrow> nat" where
  "spent need level level' = (\<Sum>k \<in> {level..<level'}. unat (the (need (word_of_int k))))"

lemma spent_step: "level < level' \<Longrightarrow> spent need level level' = unat (the (need (word_of_int level))) + spent need (level + 1) level'"
proof -
  assume "level < level'"
  then have "{level..<level'} = insert level {level + 1..<level'}" by auto
  then show ?thesis by (simp add: spent_def)
qed

text \<open>Raising a level ends, and it goes through the levels one by one: it stops at the first level
  the table does not have, at the cap, where the experience left is dropped, or at a level that
  needs more than what is left; what is left and what the levels passed have needed is what
  there was.\<close>

theorem level_up:
  "case calc_update_level need cap exp level of (exp', level') \<Rightarrow>
     level \<le> level' \<and> {level..<level'} \<subseteq> {k. k < cap \<and> need (word_of_int k) \<noteq> None} \<and>
     spent need level level' \<le> unat exp \<and>
     (case need (word_of_int level') of
        None \<Rightarrow> unat exp' + spent need level level' = unat exp
      | Some n \<Rightarrow> if cap \<le> level' then exp' = 0 else exp' < n \<and> unat exp' + spent need level level' = unat exp)"
proof (induction need cap exp level rule: calc_update_level.induct)
  case (1 need cap exp level)
  show ?case
  proof (cases "need (word_of_int level)")
    case None
    then show ?thesis by (simp add: calc_update_level.simps [of need cap exp level] spent_def)
  next
    case (Some n)
    show ?thesis
    proof (cases "level < cap \<and> n \<le> exp")
      case False
      then show ?thesis using Some by (auto simp: calc_update_level.simps [of need cap exp level] spent_def)
    next
      case True
      obtain e l where r: "calc_update_level need cap (exp - n) (level + 1) = (e, l)" by fastforce
      then have run: "calc_update_level need cap exp level = (e, l)"
        using True Some by (simp add: calc_update_level.simps [of need cap exp level])
      have IH: "level + 1 \<le> l" "{level + 1..<l} \<subseteq> {k. k < cap \<and> need (word_of_int k) \<noteq> None}"
        "spent need (level + 1) l \<le> unat (exp - n)"
        "case need (word_of_int l) of None \<Rightarrow> unat e + spent need (level + 1) l = unat (exp - n)
         | Some k \<Rightarrow> if cap \<le> l then e = 0 else e < k \<and> unat e + spent need (level + 1) l = unat (exp - n)"
        using 1 [OF Some] True r by (simp_all only: prod.case not_le simp_thms)
      have sub: "unat (exp - n) + unat n = unat exp" using True by (simp add: unat_sub word_le_nat_alt)
      have s: "spent need level l = unat n + spent need (level + 1) l" using spent_step [of level l need] IH(1) Some by simp
      have "{level..<l} = insert level {level + 1..<l}" using IH(1) by auto
      then have "{level..<l} \<subseteq> {k. k < cap \<and> need (word_of_int k) \<noteq> None}" using IH(2) True Some by auto
      moreover have "spent need level l \<le> unat exp" using s IH(3) sub by simp
      moreover have "case need (word_of_int l) of None \<Rightarrow> unat e + spent need level l = unat exp
         | Some k \<Rightarrow> if cap \<le> l then e = 0 else e < k \<and> unat e + spent need level l = unat exp"
        using IH(4) s sub by (auto split: option.splits if_splits)
      ultimately show ?thesis using IH(1) by (simp add: run)
    qed
  qed
qed

section \<open>Energy\<close>

definition sample_wallet :: wallet where
  "sample_wallet =
     \<lparr> wa_player = \<lparr> pe_level = 1, pe_money = 100, pe_coin = 50, pe_seniority = 0, pe_prestige = 0, pe_reverence = 0,
         pe_energy = 5, pe_left_energy_reward = 3, pe_vip_level = 0, pe_vip_exp = 0, pe_level_limit = 60,
         pe_addiction_status = 0, pe_total_money_cost = 0, pe_total_coin_cost = 0, pe_total_seni_cost = 0 \<rparr>,
       wa_coin = \<lparr> co_coin = 50, co_money = 100 \<rparr>,
       wa_vip = Some \<lparr> vp_charge_info = [], vp_charge_coin = 0, vp_first_charge_gift = 1, vp_cost_coin = 0 \<rparr>,
       wa_doubleexp = Some \<lparr> de_id = 0, de_left_num = 0, de_mutil_value = 0 \<rparr>,
       wa_roles = [7 \<mapsto> \<lparr> re_level = 1, re_exp = 0 \<rparr>], wa_first_role = 7, wa_out = [] \<rparr>"

definition sample_res :: growth_res where
  "sample_res =
     \<lparr> gr_need = (\<lambda>l. Some 10), gr_system_cap = 100, gr_first_strike = 1, gr_role_res = Map.empty,
       gr_vip_exp = fmempty, gr_tili = 200, gr_date = (\<lambda>_. (0, 0, 0)), gr_launch_time = 0 \<rparr>"

lemma uint_small_iff: "uint a < 2 ^ 31 \<longleftrightarrow> unat (a :: 32 word) < 2 ^ 31"
proof -
  have "uint a = int (unat a)" by simp
  then show ?thesis by (simp only: of_nat_less_numeral_power_cancel_iff)
qed

lemma sint_diff_small:
  fixes a b :: "32 word"
  assumes "unat a < 2 ^ 31" "unat b < 2 ^ 31"
  shows "a - b <s 0 \<longleftrightarrow> unat a < unat b"
proof -
  have u: "uint a < 2 ^ 31" "uint b < 2 ^ 31" using assms by (simp_all only: uint_small_iff)
  have "signed_take_bit 31 (uint a - uint b) = uint a - uint b"
    by (rule signed_take_bit_int_eq_self) (use u uint_ge_0 [of a] uint_ge_0 [of b] in linarith)+
  moreover have "sint a = uint a" "sint b = uint b"
    unfolding sint_uint by (simp, rule signed_take_bit_int_eq_self; use u uint_ge_0 [of a] uint_ge_0 [of b] in linarith)+
  ultimately have "sint (a - b) = uint a - uint b" by (simp add: sint_word_ariths)
  then show ?thesis by (simp add: word_sless_alt word_less_nat_alt [symmetric] word_less_def)
qed

text \<open>A payment of energy takes the energy of the reward first and then the player's, exactly the
  amount; but when both together are not enough it answers 2 and the energy of the reward is gone.\<close>

theorem energy_payment:
  assumes "0 <s v" "unat (pe_energy (wa_player w)) + unat (pe_left_energy_reward (wa_player w)) < 2 ^ 31"
  shows "case pmsg_reduce_energy v source w of (w', ok, result) \<Rightarrow>
    let p = wa_player w; p' = wa_player w' in
    if unat v \<le> unat (pe_left_energy_reward p) + unat (pe_energy p)
    then ok \<and> result = 1 \<and> unat (pe_left_energy_reward p') = unat (pe_left_energy_reward p) - unat v \<and>
      unat (pe_left_energy_reward p') + unat (pe_energy p') + unat v = unat (pe_left_energy_reward p) + unat (pe_energy p)
    else \<not> ok \<and> result = 2 \<and> pe_left_energy_reward p' = 0 \<and> pe_energy p' = pe_energy p"
proof -
  let ?l = "pe_left_energy_reward (wa_player w)" and ?e = "pe_energy (wa_player w)"
  have v: "\<not> v \<le>s 0" "unat v < 2 ^ 31" "v \<noteq> 0"
  proof -
    show "\<not> v \<le>s 0" "v \<noteq> 0" using assms(1) by (auto simp: word_sle_eq word_sless_alt)
    have "0 \<le>s v" using assms(1) by (simp add: word_sle_eq word_sless_alt)
    then show "unat v < 2 ^ 31" using sint_uint_pos(2) [of v] by (simp only: uint_small_iff)
  qed
  show ?thesis
  proof (cases "v \<le> ?l")
    case True
    then have "0 < ?l" using v(3) by (metis word_gt_0 word_le_0_iff)
    then show ?thesis using True v(1)
      by (simp add: pmsg_reduce_energy_def Let_def upd_player_def notify_client_provide_energy_def unat_sub word_le_nat_alt)
  next
    case False
    then have lv: "unat ?l < unat v" by (simp add: word_le_nat_alt)
    have rest: "unat (v - ?l) = unat v - unat ?l" using lv by (simp add: unat_sub word_le_nat_alt)
    have nz: "v - ?l \<noteq> 0" using lv by auto
    have neg: "?e - (v - ?l) <s 0 \<longleftrightarrow> unat ?e < unat v - unat ?l"
      using sint_diff_small [of ?e "v - ?l"] assms(2) v(2) rest by simp
    show ?thesis
    proof (cases "?l = 0")
      case True
      then show ?thesis using v nz neg rest
        by (auto simp: pmsg_reduce_energy_def Let_def upd_player_def notify_player_update_energy_def unat_sub word_le_nat_alt)
    next
      case False
      then have "0 < ?l" by (simp add: word_gt_0)
      then show ?thesis using \<open>\<not> v \<le> ?l\<close> v(1) nz neg rest lv
        by (auto simp: pmsg_reduce_energy_def Let_def upd_player_def notify_client_provide_energy_def
            notify_player_update_energy_def unat_sub word_le_nat_alt)
    qed
  qed
qed

theorem energy_payment_witness:
  "case pmsg_reduce_energy 10 302 sample_wallet of (w', ok, result) \<Rightarrow>
    \<not> ok \<and> result = 2 \<and> pe_left_energy_reward (wa_player w') = 0 \<and> pe_energy (wa_player w') = 5"
  using energy_payment [of 10 sample_wallet 302]
  by (simp add: sample_wallet_def Let_def word_sless_alt split: prod.splits)

section \<open>Agreement of the entities\<close>

datatype wallet_event = We_reduce_gold reduce_gold_request | We_reduce_energy i32 u32 | We_add_energy i32 bool u32
  | We_update_prestige i32 u32 | We_update_reverence i32 | We_reduce_reverence u32 | We_update_vipexp i32 u32
  | We_update_reward update_reward | We_charge player_charge
  | We_inherit_role inherit_gold_res bool guid guid | We_gm_levelup "guid list" "i32 list" | We_gm_addexp "i32 list"
  | We_gm_addmoney "i32 list" | We_gm_addcoin "i32 list" | We_gm_addseni "i32 list" | We_gm_addenergy "i32 list"
  | We_gm_addpres "i32 list" | We_gm_addrever "i32 list" | We_gm_addvipexp "i32 list"
  | We_offline_exp i32 | We_pre_charge u32 u32

fun wallet_step :: "growth_res \<Rightarrow> wallet_event \<Rightarrow> wallet \<Rightarrow> wallet" where
  "wallet_step res (We_reduce_gold rg) w = fst (pmsg_reduce_gold rg w)"
| "wallet_step res (We_reduce_energy v source) w = fst (pmsg_reduce_energy v source w)"
| "wallet_step res (We_add_energy v can_exceed source) w = pmsg_add_energy (gr_tili res) v can_exceed source w"
| "wallet_step res (We_update_prestige v source) w = pmsg_update_prestige v source w"
| "wallet_step res (We_update_reverence v) w = fst (pmsg_update_reverence v w)"
| "wallet_step res (We_reduce_reverence v) w = fst (pmsg_reduce_reverence v w)"
| "wallet_step res (We_update_vipexp v source) w = update_vip_exp res v source w"
| "wallet_step res (We_update_reward ur) w = fst (rmsg_update_reward res ur w)"
| "wallet_step res (We_charge ch) w = fst (lmsg_player_charge res ch w)"
| "wallet_step res (We_inherit_role ig check from to) w = fst (cmsg_inherit_role res ig check from to w)"
| "wallet_step res (We_gm_levelup roles ps) w = fst (gmcmd_levelup res roles ps w)"
| "wallet_step res (We_gm_addexp ps) w = fst (gmcmd_addexp res ps w)"
| "wallet_step res (We_gm_addmoney ps) w = fst (gmcmd_addmoney ps w)"
| "wallet_step res (We_gm_addcoin ps) w = fst (gmcmd_addcoin ps w)"
| "wallet_step res (We_gm_addseni ps) w = fst (gmcmd_addseni ps w)"
| "wallet_step res (We_gm_addenergy ps) w = fst (gmcmd_addenergy res ps w)"
| "wallet_step res (We_gm_addpres ps) w = fst (gmcmd_addpres ps w)"
| "wallet_step res (We_gm_addrever ps) w = fst (gmcmd_addrever ps w)"
| "wallet_step res (We_gm_addvipexp ps) w = fst (gmcmd_addvipexp res ps w)"
| "wallet_step res (We_offline_exp v) w = gain_offline_exp res v w"
| "wallet_step res (We_pre_charge charge_coin vipexp) w = charge_pre_charge_info res charge_coin vipexp w"

definition mirrored :: "wallet \<Rightarrow> bool" where
  "mirrored w \<longleftrightarrow> co_coin (wa_coin w) = pe_coin (wa_player w) \<and> co_money (wa_coin w) = pe_money (wa_player w)"

text \<open>What everything but experience keeps.\<close>

definition frame :: "wallet \<Rightarrow> wallet \<Rightarrow> bool" where
  "frame w w' \<longleftrightarrow> wa_roles w' = wa_roles w \<and> wa_first_role w' = wa_first_role w \<and>
     pe_level (wa_player w') = pe_level (wa_player w) \<and> pe_level_limit (wa_player w') = pe_level_limit (wa_player w) \<and>
     (mirrored w \<longrightarrow> mirrored w')"

lemma frame_refl: "frame w w"
  by (simp add: frame_def)

lemma frame_trans: "frame w w' \<Longrightarrow> frame w' w'' \<Longrightarrow> frame w w''"
  by (simp add: frame_def)

lemma frame_emit: "frame w w' \<Longrightarrow> frame w (emit m w')"
  by (simp add: frame_def mirrored_def)

lemma frame_emits: "frame w w' \<Longrightarrow> frame w (fold emit ms w')"
  by (induction ms arbitrary: w') (simp_all add: frame_emit)

lemmas frame_simps = frame_def mirrored_def upd_player_def upd_coin_def record_unless_ls_def Let_def emit_def

lemma frame_updates:
  "frame w (update_money v source w)" "frame w (update_coin v source is_charge w)" "frame w (update_seniority v source w)"
  "frame w (update_prestige v source w)" "frame w (notify_player_update_money w)"
  by (simp_all add: frame_simps update_money_def update_coin_def update_seniority_def update_prestige_def
      notify_player_update_money_def split: option.splits)

lemmas frame_intros = frame_refl frame_emit frame_emits frame_updates [THEN frame_trans [rotated]]

lemma frame_reduce_gold: "frame w (fst (pmsg_reduce_gold rg w))"
  unfolding pmsg_reduce_gold_def Let_def by (auto intro!: frame_intros)

lemma frame_others:
  "frame w (fst (pmsg_reduce_energy v source w))" "frame w (pmsg_add_energy tili v can_exceed source w)"
  "frame w (pmsg_update_prestige v source w)" "frame w (fst (pmsg_update_reverence v w))"
  "frame w (fst (pmsg_reduce_reverence u w))" "frame w (update_vip_exp res v source w)"
  by (simp_all add: frame_simps pmsg_reduce_energy_def notify_client_provide_energy_def notify_player_update_energy_def
      pmsg_add_energy_def pmsg_update_prestige_def update_prestige_def pmsg_update_reverence_def
      pmsg_reduce_reverence_def update_vip_exp_def)


lemma frame_commands:
  "frame w (fst (gmcmd_addmoney ps w))" "frame w (fst (gmcmd_addcoin ps w))" "frame w (fst (gmcmd_addseni ps w))"
  "frame w (fst (gmcmd_addenergy res ps w))" "frame w (fst (gmcmd_addpres ps w))" "frame w (fst (gmcmd_addrever ps w))"
  "frame w (fst (gmcmd_addvipexp res ps w))" "frame w (charge_pre_charge_info res charge_coin vipexp w)"
  using frame_others
  by (auto simp: gmcmd_addmoney_def gmcmd_addcoin_def gmcmd_addseni_def gmcmd_addenergy_def gmcmd_addpres_def
      gmcmd_addrever_def gmcmd_addvipexp_def charge_pre_charge_info_def Let_def
      intro!: frame_intros frame_trans [OF _ frame_others(6)] split: list.split)

text \<open>With respect to an earlier state the role that \<open>\<pi> g\<close> was then has not fallen, and risen to the cap at most.\<close>

definition role_grown :: "growth_res \<Rightarrow> wallet \<Rightarrow> role_entity \<Rightarrow> role_entity \<Rightarrow> bool" where
  "role_grown res w r r' \<longleftrightarrow> re_level r \<le> re_level r' \<and>
     (re_level r' = re_level r \<or> re_level r' \<le> word_of_int (level_cap (gr_system_cap res) (wa_player w)))"

definition wallet_kept :: "growth_res \<Rightarrow> wallet \<Rightarrow> (guid \<Rightarrow> guid) \<Rightarrow> wallet \<Rightarrow> bool" where
  "wallet_kept res w \<pi> w' \<longleftrightarrow> mirrored w' \<and> wa_first_role w' = wa_first_role w \<and>
     pe_level_limit (wa_player w') = pe_level_limit (wa_player w) \<and>
     (\<forall>g. rel_option (role_grown res w) (wa_roles w (\<pi> g)) (wa_roles w' g)) \<and>
     (\<forall>r. wa_roles w' (wa_first_role w) = Some r \<longrightarrow> pe_level (wa_player w') = re_level r)"

text \<open>\<open>\<pi>\<close> moves the roles but not the first one.\<close>

definition wallet_inv :: "growth_res \<Rightarrow> wallet \<Rightarrow> wallet \<Rightarrow> bool" where
  "wallet_inv res w w' \<longleftrightarrow> 0 \<le> level_cap (gr_system_cap res) (wa_player w) \<and>
     (\<exists>\<pi>. bij \<pi> \<and> \<pi> (wa_first_role w) = wa_first_role w \<and> wallet_kept res w \<pi> w')"

lemma frame_kept: "frame w' w'' \<Longrightarrow> wallet_kept res w \<pi> w' \<Longrightarrow> wallet_kept res w \<pi> w''"
  by (simp add: frame_def wallet_kept_def)

lemma frame_inv: "frame w' w'' \<Longrightarrow> wallet_inv res w w' \<Longrightarrow> wallet_inv res w w''"
  using frame_kept by (fastforce simp: wallet_inv_def)

lemma kept_inv:
  assumes "\<And>\<pi>. wallet_kept res w \<pi> w' \<Longrightarrow> wallet_kept res w \<pi> w''" "wallet_inv res w w'"
  shows "wallet_inv res w w''"
  using assms by (auto simp: wallet_inv_def)

lemma wallet_inv_refl:
  assumes "mirrored w" "\<forall>r. wa_roles w (wa_first_role w) = Some r \<longrightarrow> pe_level (wa_player w) = re_level r"
    "0 \<le> level_cap (gr_system_cap res) (wa_player w)"
  shows "wallet_inv res w w"
  using assms by (auto simp: wallet_inv_def wallet_kept_def option.rel_refl role_grown_def intro!: exI [of _ id])

lemma bij_exchange:
  assumes "bij \<pi>"
  shows "bij (\<pi>(a := \<pi> b, b := \<pi> a))"
proof -
  let ?s = "id(a := b, b := a)"
  have "?s \<circ> ?s = id" by (auto simp: fun_eq_iff)
  then have "bij ?s" by (metis o_bij)
  moreover have "\<pi>(a := \<pi> b, b := \<pi> a) = \<pi> \<circ> ?s" by (auto simp: fun_eq_iff)
  ultimately show ?thesis using assms by (metis bij_comp)
qed

text \<open>Word levels: the result of the table walk as an \<^verbatim>\<open>uint32\<close>.\<close>

lemma calc_update_level_bounds:
  assumes "calc_update_level need cap exp level = (e, l)"
  shows "level \<le> l" "l = level \<or> l \<le> cap"
proof -
  have "level \<le> l \<and> {level..<l} \<subseteq> {k. k < cap}"
    using assms
  proof (induction need cap exp level rule: calc_update_level.induct)
    case (1 need cap exp level)
    then show ?case
      by (auto simp: calc_update_level.simps [of need cap exp level] split: option.splits if_splits)
        (smt (verit) atLeastLessThan_iff mem_Collect_eq subset_iff)+
  qed
  then show "level \<le> l" "l = level \<or> l \<le> cap"
    by (auto simp: subset_iff) (smt (verit))
qed

lemma level_word:
  fixes l0 :: u32
  assumes "\<not> word_of_int cap \<le> l0" "calc_update_level need cap e (sint l0) = (e', l)" "cap < 2 ^ 31" "- (2 ^ 31) \<le> cap"
  shows "l0 \<le> word_of_int l" "word_of_int l = l0 \<or> word_of_int l \<le> (word_of_int cap :: u32)"
proof -
  note b = calc_update_level_bounds [OF assms(2)]
  have "l0 \<le> word_of_int l \<and> (word_of_int l = l0 \<or> word_of_int l \<le> (word_of_int cap :: u32))"
  proof (cases "l = sint l0")
    case True
    then show ?thesis by simp
  next
    case False
    then have lc: "sint l0 < l" "l \<le> cap" using b by auto
    have c: "word_of_int cap = (word_of_int cap :: u32)" by simp
    show ?thesis
    proof (cases "0 \<le> sint l0")
      case True
      then have l0: "uint l0 = sint l0" using sint_uint_pos(1) [of l0] by (simp add: word_sle_eq)
      have "uint (word_of_int l :: u32) = l" "uint (word_of_int cap :: u32) = cap"
        using True lc assms(3) by (simp_all add: uint_word_of_int)
      then show ?thesis using lc l0 by (simp add: word_le_def)
    next
      case False
      then have neg: "uint l0 = sint l0 + 2 ^ 32"
        using uint_sint [of l0] sint_ge [of l0] by (simp add: take_bit_eq_mod) (smt (verit) mod_add_self2 mod_pos_pos_trivial)
      show ?thesis
      proof (cases "cap < 0")
        case True
        then have "uint (word_of_int l :: u32) = l + 2 ^ 32" "uint (word_of_int cap :: u32) = cap + 2 ^ 32"
          using lc False assms(4) sint_ge [of l0]
          by (simp_all add: uint_word_of_int) (smt (verit) mod_add_self2 mod_pos_pos_trivial)+
        then show ?thesis using lc neg by (simp add: word_le_def)
      next
        case False
        then have "uint (word_of_int cap :: u32) = cap" using assms(3) by (simp add: uint_word_of_int)
        then have "word_of_int cap \<le> l0" using neg assms(3) sint_ge [of l0] by (simp add: word_le_def)
        then show ?thesis using assms(1) by simp
      qed
    qed
  qed
  then show "l0 \<le> word_of_int l" "word_of_int l = l0 \<or> word_of_int l \<le> (word_of_int cap :: u32)" by auto
qed

lemma level_upgrade_fields [simp]:
  "wa_roles (level_upgrade res g a b w) = wa_roles w" "wa_first_role (level_upgrade res g a b w) = wa_first_role w"
  "wa_player (level_upgrade res g a b w) = wa_player w" "wa_coin (level_upgrade res g a b w) = wa_coin w"
  by (simp_all add: level_upgrade_def split: option.splits)

lemma level_cap_bounds: "level_cap c p < 2 ^ 31" "- (2 ^ 31) \<le> level_cap c p"
  using sint_lt [of "pe_level_limit p"] sint_ge [of "pe_level_limit p"] sint_ge [of c]
  by (auto simp: level_cap_def min_def)

lemma update_role_exp_kept:
  assumes inv: "wallet_kept res w \<pi> w'"
  shows "wallet_kept res w \<pi> (update_role_exp res g v status source w')"
proof (cases "wa_roles w' g")
  case None
  then show ?thesis using inv by (simp add: update_role_exp_def)
next
  case (Some role)
  let ?v = "addiction_value status v" and ?cap = "level_cap (gr_system_cap res) (wa_player w')"
  show ?thesis
  proof (cases "?v = 0 \<or> word_of_int ?cap \<le> re_level role")
    case True
    then show ?thesis using inv Some by (auto simp: update_role_exp_def Let_def)
  next
    case False
    obtain exp level where c: "calc_update_level (gr_need res) ?cap (re_exp role + ?v) (sint (re_level role)) = (exp, level)"
      by fastforce
    define role' where "role' = role\<lparr> re_exp := exp, re_level := word_of_int level \<rparr>"
    define w1 where "w1 = w'\<lparr> wa_roles := (wa_roles w')(g \<mapsto> role') \<rparr>"
    define w2 where "w2 = (if re_level role < re_level role'
       then record_unless_ls 211 source [pe_level (wa_player w1), re_level role, re_level role', ?v, re_exp role, re_exp role']
              (notify_role_level_up g role' (re_level role) (level_upgrade res g (re_level role) (re_level role') w1))
       else notify_role_update_exp g role' w1)"
    have lw: "re_level role \<le> re_level role'" "re_level role' = re_level role \<or> re_level role' \<le> word_of_int ?cap"
      using level_word [OF _ c level_cap_bounds] False by (simp_all add: role'_def)
    have cap: "?cap = level_cap (gr_system_cap res) (wa_player w)" using inv by (simp add: wallet_kept_def level_cap_def)
    have w2: "wa_roles w2 = wa_roles w1" "wa_first_role w2 = wa_first_role w'" "wa_coin w2 = wa_coin w'"
      "wa_player w2 = (if re_level role < re_level role' \<and> g = wa_first_role w'
         then (wa_player w')\<lparr> pe_level := re_level role' \<rparr> else wa_player w')"
      by (simp_all add: w2_def w1_def record_unless_ls_def notify_role_level_up_def notify_role_update_exp_def
          upd_player_def Let_def)
    have "wallet_kept res w \<pi> w2"
      unfolding wallet_kept_def
    proof (intro conjI allI impI)
      show "mirrored w2" using inv by (simp add: wallet_kept_def mirrored_def w2)
      show "wa_first_role w2 = wa_first_role w" "pe_level_limit (wa_player w2) = pe_level_limit (wa_player w)"
        using inv by (simp_all add: wallet_kept_def w2)
      fix h
      have "rel_option (role_grown res w) (wa_roles w (\<pi> h)) (wa_roles w' h)" using inv by (simp add: wallet_kept_def)
      then show "rel_option (role_grown res w) (wa_roles w (\<pi> h)) (wa_roles w2 h)"
        using Some lw cap by (cases "h = g") (auto simp: w2 w1_def role_grown_def option_rel_Some2 intro: order_trans)
    next
      fix r
      assume "wa_roles w2 (wa_first_role w) = Some r"
      then show "pe_level (wa_player w2) = re_level r"
        using inv Some lw(1) by (auto simp: wallet_kept_def w2 w1_def split: if_splits)
    qed
    moreover have "frame w2 (update_role_exp res g v status source w')"
    proof -
      let ?w3 = "if wa_first_role w2 = g then emit (STOL_PLAYER_GET_EXP (re_level role') (re_exp role')) w2 else w2"
      let ?w4 = "if source = source_not_record then ?w3
        else record_unless_ls 201 source [pe_level (wa_player ?w3), ?v, re_exp role, re_exp role'] ?w3"
      have "update_role_exp res g v status source w' = emit (Pool_update (Role_entity g)) ?w4"
        unfolding w2_def w1_def role'_def using Some False c by (simp only: update_role_exp_def Let_def option.case prod.case if_False simp_thms de_Morgan_disj)
      then show ?thesis by (auto simp: record_unless_ls_def intro!: frame_intros)
    qed
    ultimately show ?thesis by (rule frame_kept [rotated])
  qed
qed

lemma update_role_exp_inv:
  "wallet_inv res w w' \<Longrightarrow> wallet_inv res w (update_role_exp res g v status source w')"
  by (rule kept_inv [OF update_role_exp_kept])

section \<open>Levels changed directly\<close>

lemma level_reduce_fields [simp]:
  "wa_roles (level_reduce res g a b w) = wa_roles w" "wa_first_role (level_reduce res g a b w) = wa_first_role w"
  "wa_player (level_reduce res g a b w) = wa_player w" "wa_coin (level_reduce res g a b w) = wa_coin w"
  by (simp_all add: level_reduce_def split: option.splits)

lemma notify_other_role: "g \<noteq> wa_first_role w \<Longrightarrow> notify_role_level_up g role pre w = emit (SMSG_ROLE_UPGRADE_LEVEL g (re_level role) (re_exp role)) w"
  by (simp add: notify_role_level_up_def)

lemma kept_emits: "wallet_kept res w \<pi> (fold emit ms w') = wallet_kept res w \<pi> w'"
  by (induction ms arbitrary: w') (simp_all add: wallet_kept_def mirrored_def)

lemma kept_emit: "wallet_kept res w \<pi> (emit m w') = wallet_kept res w \<pi> w'"
  by (simp add: wallet_kept_def mirrored_def)

lemma inherit_role_inv:
  assumes inv: "wallet_inv res w w'"
  shows "wallet_inv res w (fst (cmsg_inherit_role res ig check from to w'))"
proof -
  obtain w1 paid where w1: "reduce_inherit_money ig w' = (w1, paid)" by fastforce
  have "frame w' (fst (reduce_inherit_money ig w'))"
    using frame_reduce_gold [of w'] by (simp add: reduce_inherit_money_def Let_def case_prod_beta)
  then have fr: "frame w' w1" by (simp add: w1)
  show ?thesis
  proof (cases "\<exists>r t. from \<noteq> to \<and> wa_roles w' from = Some r \<and> wa_roles w' to = Some t \<and> wa_first_role w' \<noteq> from \<and>
      wa_first_role w' \<noteq> to \<and> check \<and> paid")
    case False
    then have "frame w' (fst (cmsg_inherit_role res ig check from to w'))"
      using fr frame_emit [OF fr] by (auto simp: cmsg_inherit_role_def w1 frame_refl split: option.split)
    then show ?thesis by (rule frame_inv [OF _ inv])
  next
    case True
    then obtain r t where rt: "from \<noteq> to" "wa_roles w' from = Some r" "wa_roles w' to = Some t"
        "wa_first_role w' \<noteq> from" "wa_first_role w' \<noteq> to" check paid by auto
    obtain \<pi> where \<pi>: "bij \<pi>" "\<pi> (wa_first_role w) = wa_first_role w" "wallet_kept res w \<pi> w'"
      using inv by (auto simp: wallet_inv_def)
    have k1: "wallet_kept res w \<pi> w1" by (rule frame_kept [OF fr \<pi>(3)])
    let ?\<pi> = "\<pi>(from := \<pi> to, to := \<pi> from)"
    define w2 where "w2 = w1\<lparr> wa_roles := (wa_roles w1)(from \<mapsto> r\<lparr> re_level := re_level t, re_exp := re_exp t \<rparr>,
        to \<mapsto> t\<lparr> re_level := re_level r, re_exp := re_exp r \<rparr>) \<rparr>"
    have w': "wa_first_role w1 = wa_first_role w'" "wa_roles w1 = wa_roles w'" using fr by (simp_all add: frame_def)
    have first: "wa_first_role w1 = wa_first_role w" using k1 by (simp add: wallet_kept_def)
    have g: "rel_option (role_grown res w) (wa_roles w (\<pi> h)) (wa_roles w' h)" for h
      using k1 w'(2) by (simp add: wallet_kept_def)
    have ex: "rel_option (role_grown res w) (wa_roles w (\<pi> from)) (Some (t\<lparr> re_level := re_level r, re_exp := re_exp r \<rparr>))"
        "rel_option (role_grown res w) (wa_roles w (\<pi> to)) (Some (r\<lparr> re_level := re_level t, re_exp := re_exp t \<rparr>))"
      using g [of "from"] g [of to] rt(2,3) by (simp_all add: option_rel_Some2 role_grown_def)
    have "rel_option (role_grown res w) (wa_roles w (?\<pi> h)) (wa_roles w2 h)" for h
      using g [of h] ex w'(2) rt(1) by (auto simp: w2_def)
    then have k2: "wallet_kept res w ?\<pi> w2"
      using k1 rt(4,5) w' first by (simp add: wallet_kept_def w2_def mirrored_def)
    have "frame w2 (fst (cmsg_inherit_role res ig check from to w'))"
      using rt w' w1 by (simp add: cmsg_inherit_role_def Let_def notify_other_role)
        (simp add: frame_def mirrored_def w2_def)
    then have "wallet_kept res w ?\<pi> (fst (cmsg_inherit_role res ig check from to w'))" by (rule frame_kept [OF _ k2])
    moreover have "?\<pi> (wa_first_role w) = wa_first_role w" using \<pi>(2) rt(4,5) first w'(1) by auto
    ultimately show ?thesis using inv bij_exchange [OF \<pi>(1), of "from" to] by (auto simp: wallet_inv_def)
  qed
qed

lemma gm_levelup_word:
  fixes l up :: u32
  assumes "0 <s up" "0 \<le> cap" "cap < 2 ^ 31" "l < word_of_int cap"
  defines "v \<equiv> l + (if word_of_int cap < l + up then word_of_int cap - l else up)"
  shows "l \<le> v \<and> v \<le> word_of_int cap"
proof -
  have c: "unat (word_of_int cap :: u32) = nat cap" using assms(2,3) by (simp add: unat_eq_nat_uint uint_word_of_int)
  have "0 \<le>s up" using assms(1) by (simp add: word_sless_alt word_sle_eq)
  then have "uint up < 2 ^ 31" by (rule sint_uint_pos(2))
  then have up: "unat up < 2 ^ 31" using of_nat_less_iff [of "unat up" "2 ^ 31", where ?'a = int] by simp
  have l: "unat l < nat cap" using assms(4) c by (simp add: word_less_nat_alt)
  have "nat cap < 2 ^ 31" using assms(2,3) by (simp add: nat_less_iff)
  then have "unat l + unat up < 2 ^ LENGTH(32)" using up l by simp
  then have s: "unat (l + up) = unat l + unat up" by (rule unat_add_lem [THEN iffD1])
  show ?thesis
  proof (cases "(word_of_int cap :: u32) < l + up")
    case True
    then have "v = word_of_int cap" by (simp add: v_def)
    then show ?thesis using c l by (simp add: word_le_nat_alt)
  next
    case False
    then have "v = l + up" by (simp add: v_def)
    then show ?thesis using False s by (simp add: word_le_nat_alt word_less_nat_alt)
  qed
qed

lemma gm_levelup_kept:
  assumes k: "wallet_kept res w \<pi> w'" and cap: "0 \<le> level_cap (gr_system_cap res) (wa_player w)"
  shows "wallet_kept res w \<pi> (fst (gmcmd_levelup res roles ps w'))"
proof (cases "\<exists>up rest role. ps = up # rest \<and> 0 <s up \<and> wa_roles w' (gm_role roles ps w') = Some role \<and>
    \<not> word_of_int (level_cap (gr_system_cap res) (wa_player w')) \<le> re_level role")
  case False
  then show ?thesis using k
    by (auto simp: gmcmd_levelup_def Let_def word_sle_eq word_sless_alt not_less split: list.split option.split)
next
  case True
  then obtain up rest role where p: "ps = up # rest" "0 <s up" "wa_roles w' (gm_role roles ps w') = Some role"
      "\<not> word_of_int (level_cap (gr_system_cap res) (wa_player w')) \<le> re_level role" by blast
  let ?g = "gm_role roles ps w'" and ?cap = "level_cap (gr_system_cap res) (wa_player w)"
  have c: "level_cap (gr_system_cap res) (wa_player w') = ?cap" using k by (simp add: wallet_kept_def level_cap_def)
  define v where "v = re_level role + (if word_of_int ?cap < re_level role + up then word_of_int ?cap - re_level role else up)"
  have v: "re_level role \<le> v" "v \<le> word_of_int ?cap"
    using gm_levelup_word [OF p(2) cap level_cap_bounds(1), of "re_level role"] p(4) c
    by (simp_all add: v_def not_le)
  define w2 where "w2 = (let w2 = w'\<lparr> wa_roles := (wa_roles w')(?g \<mapsto> role\<lparr> re_level := v \<rparr>) \<rparr> in
      if ?g = wa_first_role w' then upd_player (\<lambda>p. p\<lparr> pe_level := v \<rparr>) w2 else w2)"
  have "wallet_kept res w \<pi> w2"
    unfolding wallet_kept_def
  proof (intro conjI allI impI)
    show "mirrored w2" "wa_first_role w2 = wa_first_role w" "pe_level_limit (wa_player w2) = pe_level_limit (wa_player w)"
      using k by (simp_all add: w2_def wallet_kept_def mirrored_def Let_def upd_player_def)
    have r: "rel_option (role_grown res w) (wa_roles w (\<pi> h)) (wa_roles w' h)" for h using k by (simp add: wallet_kept_def)
    show "rel_option (role_grown res w) (wa_roles w (\<pi> h)) (wa_roles w2 h)" for h
      using r [of h] p(3) v by (cases "h = ?g")
        (auto simp: w2_def Let_def upd_player_def role_grown_def option_rel_Some2 intro: order_trans)
    show "pe_level (wa_player w2) = re_level r" if "wa_roles w2 (wa_first_role w) = Some r" for r
      using that k by (auto simp: w2_def Let_def upd_player_def wallet_kept_def split: if_splits)
  qed
  moreover have "frame w2 (fst (gmcmd_levelup res roles ps w'))"
    using p c by (simp add: gmcmd_levelup_def Let_def word_sle_eq word_sless_alt v_def [symmetric])
      (auto simp: w2_def Let_def notify_role_level_up_def upd_player_def frame_def mirrored_def)
  ultimately show ?thesis by (metis frame_kept)
qed

lemma frame_fields: "frame w w' \<Longrightarrow> frame w (w'\<lparr> wa_vip := x \<rparr>)" "frame w w' \<Longrightarrow> frame w (w'\<lparr> wa_doubleexp := y \<rparr>)"
  by (simp_all add: frame_def mirrored_def)

lemma frame_charge: "frame w (fst (lmsg_player_charge res ch w))"
proof (cases "wa_vip w")
  case None
  then show ?thesis by (simp add: lmsg_player_charge_def frame_refl)
next
  case (Some vip)
  have gift: "frame w (charge_first_gift vip w)"
    by (auto simp: charge_first_gift_def intro!: frame_emit frame_fields frame_refl)
  have vip: "frame w w' \<Longrightarrow> frame w (update_vip_exp res v source w')" for w' v source
    by (rule frame_trans [OF _ frame_others(6)])
  show ?thesis
    using Some by (simp add: lmsg_player_charge_def Let_def) (intro conjI impI frame_intros frame_fields vip gift)
qed

lemma frame_doubleexp: "frame w (fst (take_doubleexp source de w))"
  by (auto simp: take_doubleexp_def Let_def update_doubleexp_info_def split: option.splits
      intro!: frame_emit frame_fields frame_refl)

lemma roles_inv:
  "wallet_inv res w w' \<Longrightarrow>
    wallet_inv res w (fold (\<lambda>(g, e) w. update_role_exp res g (e * m) (pe_addiction_status (wa_player w)) source w) xs w')"
  by (induction xs arbitrary: w') (auto intro: update_role_exp_inv)

lemma reward_inv:
  assumes inv: "wallet_inv res w w'"
  shows "wallet_inv res w (fst (rmsg_update_reward res ur w'))"
proof (cases "ur_money ur <s 0 \<or> ur_coin ur <s 0 \<or> ur_seniority ur <s 0 \<or> ur_prestige ur <s 0 \<or> wa_doubleexp w' = None")
  case True
  then show ?thesis using inv by (auto simp: rmsg_update_reward_def)
next
  case False
  then obtain de where de: "wa_doubleexp w' = Some de" by auto
  obtain w1 m where w1: "take_doubleexp (ur_source_from ur) de w' = (w1, m)" by fastforce
  define w2 where "w2 = (if length (ur_role_guid ur) = length (ur_role_exp ur)
     then fold (\<lambda>(g, e) w. update_role_exp res g (e * m) (pe_addiction_status (wa_player w)) (ur_source_from ur) w)
       (zip (ur_role_guid ur) (ur_role_exp ur)) w1 else w1)"
  have "wallet_inv res w w1" using frame_inv [OF _ inv] frame_doubleexp [of w' "ur_source_from ur" de] w1 by simp
  then have "wallet_inv res w w2" by (simp add: w2_def roles_inv)
  moreover have "frame w2 (fst (rmsg_update_reward res ur w'))"
    using False de w1 by (simp add: rmsg_update_reward_def Let_def w2_def [symmetric]) (intro conjI impI frame_intros)
  ultimately show ?thesis by (rule frame_inv [rotated])
qed

lemma gm_levelup_inv: "wallet_inv res w w' \<Longrightarrow> wallet_inv res w (fst (gmcmd_levelup res roles ps w'))"
  by (auto simp: wallet_inv_def intro: gm_levelup_kept)

lemma experience_inv:
  assumes inv: "wallet_inv res w w'"
  shows "wallet_inv res w (fst (gmcmd_addexp res ps w'))" "wallet_inv res w (gain_offline_exp res v w')"
  using inv update_role_exp_inv [OF inv]
  by (auto simp: gmcmd_addexp_def gain_offline_exp_def Let_def intro: frame_inv [OF frame_emit [OF frame_refl]]
      split: list.split)

interpretation wallet: invariant_machine "wallet_step res" "\<lambda>_ _. True" "wallet_inv res w" for res w
proof
  fix w' e
  assume inv: "wallet_inv res w w'"
  show "wallet_inv res w (wallet_step res e w')"
    using inv
    by (cases e) (auto intro: reward_inv frame_inv [OF frame_reduce_gold] frame_inv [OF frame_others(1)]
        frame_inv [OF frame_others(2)] frame_inv [OF frame_others(3)] frame_inv [OF frame_others(4)]
        frame_inv [OF frame_others(5)] frame_inv [OF frame_others(6)] frame_inv [OF frame_charge]
        frame_inv [OF frame_commands(1)] frame_inv [OF frame_commands(2)] frame_inv [OF frame_commands(3)]
        frame_inv [OF frame_commands(4)] frame_inv [OF frame_commands(5)] frame_inv [OF frame_commands(6)]
        frame_inv [OF frame_commands(7)] frame_inv [OF frame_commands(8)] experience_inv inherit_role_inv gm_levelup_inv)
qed

text \<open>C31: Whatever the handlers do that pay, reward, charge, raise or exchange, while the cap is not negative: when a player's
  coin entity and first role agree with it before, they agree afterwards. The levels of the other roles may be exchanged, by inheritance; up to that
  no role loses a level, the first one never, and none rises above the player's cap.\<close>

theorem wallet_agrees:
  assumes "mirrored w" "\<forall>r. wa_roles w (wa_first_role w) = Some r \<longrightarrow> pe_level (wa_player w) = re_level r"
    and "0 \<le> level_cap (gr_system_cap res) (wa_player w)"
  shows "let w' = run_events (wallet_step res) es w in
    co_coin (wa_coin w') = pe_coin (wa_player w') \<and> co_money (wa_coin w') = pe_money (wa_player w') \<and>
    (\<forall>r. wa_roles w' (wa_first_role w) = Some r \<longrightarrow> pe_level (wa_player w') = re_level r) \<and>
    (\<exists>\<pi>. bij \<pi> \<and> \<pi> (wa_first_role w) = wa_first_role w \<and>
      (\<forall>g r. wa_roles w (\<pi> g) = Some r \<longrightarrow> (\<exists>r'. wa_roles w' g = Some r' \<and> re_level r \<le> re_level r' \<and>
         (re_level r' = re_level r \<or> re_level r' \<le> word_of_int (level_cap (gr_system_cap res) (wa_player w))))))"
proof -
  have "wallet_inv res w (run_events (wallet_step res) es w)"
    using wallet.run_keeps [OF wallet_inv_refl [OF assms]] by simp
  then obtain \<pi> where \<pi>: "bij \<pi>" "\<pi> (wa_first_role w) = wa_first_role w"
      "wallet_kept res w \<pi> (run_events (wallet_step res) es w)" by (auto simp: wallet_inv_def)
  have "\<exists>r'. wa_roles (run_events (wallet_step res) es w) g = Some r' \<and> role_grown res w r r'"
    if "wa_roles w (\<pi> g) = Some r" for g r
    using \<pi>(3) that by (metis wallet_kept_def option_rel_Some1)
  then show ?thesis using \<pi> by (auto simp: Let_def wallet_kept_def mirrored_def role_grown_def intro!: exI [of _ \<pi>])
qed

theorem wallet_agrees_witness:
  "let w' = run_events (wallet_step sample_res)
      [We_update_reward \<lparr> ur_seniority = 0, ur_money = 30, ur_coin = 5, ur_prestige = 0, ur_role_guid = [7],
          ur_role_exp = [25], ur_source_from = 302 \<rparr>,
       We_reduce_gold \<lparr> rg_money = 20, rg_coin = 55, rg_seniority = 0, rg_function_id = 1, rg_source_from = 2 \<rparr>,
       We_gm_levelup [7] [1], We_inherit_role \<lparr> ig_coin = 0, ig_fun_id = 1 \<rparr> True 8 9]
      sample_wallet in
    co_coin (wa_coin w') = pe_coin (wa_player w') \<and> co_money (wa_coin w') = pe_money (wa_player w')"
proof -
  have "mirrored sample_wallet"
    "\<forall>r. wa_roles sample_wallet (wa_first_role sample_wallet) = Some r \<longrightarrow> pe_level (wa_player sample_wallet) = re_level r"
    "0 \<le> level_cap (gr_system_cap sample_res) (wa_player sample_wallet)"
    by (simp_all add: mirrored_def sample_wallet_def sample_res_def level_cap_def)
  from wallet_agrees [OF this] show ?thesis by (simp only: Let_def)
qed

end
