(* ===== verification/Charging.thy ===== *)
theory Charging
  imports WalletLaws
begin

text \<open>
  How a payment becomes coins. The member server tells the line scene
  (\<^verbatim>\<open>plugin/manage_short/src/ManageShort.cpp\<close>), which keeps the payment in the player's short
  info and, when the player is online, sends everything it keeps to the player's scene; the scene
  (\<^verbatim>\<open>lmsg_player_charge\<close> of \<^verbatim>\<open>plugin/manage_player/src/ManagePlayer.cpp\<close>) credits it and
  confirms; the confirmation removes it from the short info. The scenes and the line scene are
  threads with a queue each. One player is followed; a message that reaches a scene the player
  has left is dropped there, as the handler does when the player is not in the pool.
\<close>

section \<open>The line scene\<close>

record short_charge_info =
  sc_request_index :: u32
  sc_charge_value :: u32
  sc_charge_time :: u64

record line_player =
  lp_charge_info :: "short_charge_info list"
  lp_is_online :: bool
  lp_scene_id :: u32

text \<open>\<^verbatim>\<open>playerCharge\<close>: the scene and the messages for it.\<close>

definition line_player_charge :: "line_player \<Rightarrow> u32 \<times> player_charge list" where
  "line_player_charge lp =
     (lp_scene_id lp,
      if lp_is_online lp
      then map (\<lambda>c. \<lparr> ch_request_index = ucast (sc_request_index c), ch_charge_value = ucast (sc_charge_value c),
                     ch_charge_time = sc_charge_time c \<rparr>) (lp_charge_info lp)
      else [])"

text \<open>The result goes to the member server: 1, or 2 when the player is not known.\<close>

definition mmsg_member_charge ::
  "u32 \<Rightarrow> u32 \<Rightarrow> u64 \<Rightarrow> line_player option \<Rightarrow> line_player option \<times> (u32 \<times> player_charge list) \<times> u32" where
  "mmsg_member_charge request_index point now lp =
     (case lp of
        None \<Rightarrow> (None, (0, []), 2)
      | Some lp \<Rightarrow>
          let lp = lp\<lparr> lp_charge_info := lp_charge_info lp @
                [\<lparr> sc_request_index = request_index, sc_charge_value = point, sc_charge_time = now \<rparr>] \<rparr>
          in (Some lp, line_player_charge lp, 1))"

text \<open>What is left is cleared and added again, with its index and its value.\<close>

definition lmsg_player_charge_confirm :: "charge_confirm \<Rightarrow> line_player \<Rightarrow> line_player" where
  "lmsg_player_charge_confirm cc lp =
     (let left = map (\<lambda>c. (sc_request_index c, sc_charge_value c))
            (filter (\<lambda>c. ucast (sc_request_index c) \<noteq> cc_request_index cc) (lp_charge_info lp))
      in lp\<lparr> lp_charge_info := map (\<lambda>(i, v). \<lparr> sc_request_index = i, sc_charge_value = v, sc_charge_time = 0 \<rparr>) left \<rparr>)"

definition lmsg_player_is_online :: "u32 \<Rightarrow> line_player \<Rightarrow> line_player \<times> (u32 \<times> player_charge list)" where
  "lmsg_player_is_online map_id lp =
     (let lp = lp\<lparr> lp_is_online := True, lp_scene_id := map_id \<rparr> in (lp, line_player_charge lp))"

definition lmsg_player_is_offline :: "line_player \<Rightarrow> line_player" where
  "lmsg_player_is_offline lp = lp\<lparr> lp_is_online := False \<rparr>"

section \<open>The line scene and the scenes\<close>

text \<open>The payments received are a ghost.\<close>

record charging =
  cg_line :: line_player
  cg_to_scene :: "u32 \<Rightarrow> player_charge list"
  cg_to_line :: "charge_confirm list"
  cg_where :: "u32 option"
  cg_wallet :: wallet
  cg_received :: "(u32 \<times> u32) list"

datatype charge_event = Ch_member u32 u32 u64 | Ch_online u32 | Ch_offline | Ch_move "u32 option" | Ch_scene u32 | Ch_line

definition send_scene :: "u32 \<times> player_charge list \<Rightarrow> charging \<Rightarrow> charging" where
  "send_scene msg s = (case msg of (k, chs) \<Rightarrow> s\<lparr> cg_to_scene := (cg_to_scene s)(k := cg_to_scene s k @ chs) \<rparr>)"

definition set_line :: "line_player \<Rightarrow> charging \<Rightarrow> charging" where
  "set_line lp s = s\<lparr> cg_line := lp \<rparr>"

text \<open>A scene takes the next message; the player may be elsewhere.\<close>

definition scene_takes :: "growth_res \<Rightarrow> u32 \<Rightarrow> charging \<Rightarrow> charging" where
  "scene_takes res k s =
     (case cg_to_scene s k of
        [] \<Rightarrow> s
      | ch # chs \<Rightarrow>
          let s = s\<lparr> cg_to_scene := (cg_to_scene s)(k := chs) \<rparr> in
          if cg_where s = Some k
          then
            (case lmsg_player_charge res ch (cg_wallet s) of
               (w, None) \<Rightarrow> s\<lparr> cg_wallet := w \<rparr>
             | (w, Some cc) \<Rightarrow> s\<lparr> cg_wallet := w, cg_to_line := cg_to_line s @ [cc] \<rparr>)
          else s)"

fun charge_step :: "growth_res \<Rightarrow> charge_event \<Rightarrow> charging \<Rightarrow> charging" where
  "charge_step res (Ch_member i v now) s =
     (case mmsg_member_charge i v now (Some (cg_line s)) of
        (Some lp, msgs, _) \<Rightarrow> send_scene msgs (set_line lp s\<lparr> cg_received := cg_received s @ [(i, v)] \<rparr>)
      | _ \<Rightarrow> s)"
| "charge_step res (Ch_online k) s =
     (let (lp, msgs) = lmsg_player_is_online k (cg_line s) in send_scene msgs (set_line lp s))"
| "charge_step res Ch_offline s = set_line (lmsg_player_is_offline (cg_line s)) s"
| "charge_step res (Ch_move p) s = s\<lparr> cg_where := p \<rparr>"
| "charge_step res (Ch_scene k) s = scene_takes res k s"
| "charge_step res Ch_line s =
     (case cg_to_line s of
        [] \<Rightarrow> s
      | cc # ccs \<Rightarrow> (set_line (lmsg_player_charge_confirm cc (cg_line s)) s)\<lparr> cg_to_line := ccs \<rparr>)"

section \<open>What a scene credits\<close>

definition charged :: "wallet \<Rightarrow> (u32 \<times> u32) list" where
  "charged w = (case wa_vip w of None \<Rightarrow> []
     | Some vip \<Rightarrow> map (\<lambda>c. (vc_request_index c, vc_charge_value c)) (vp_charge_info vip))"

lemma update_vip_exp_fields:
  "wa_vip (update_vip_exp res v source w) = wa_vip w" "pe_coin (wa_player (update_vip_exp res v source w)) = pe_coin (wa_player w)"
  by (simp_all add: update_vip_exp_def Let_def upd_player_def)

lemma update_coin_charge:
  "pe_coin (wa_player (update_coin v source True w)) = pe_coin (wa_player w) + v"
  "charged (update_coin v source True w) = charged w"
  "wa_vip (update_coin v source True w) = None \<longleftrightarrow> wa_vip w = None"
  "map_option vp_charge_coin (wa_vip (update_coin v source True w)) = map_option vp_charge_coin (wa_vip w)"
  by (auto simp: update_coin_def Let_def upd_player_def upd_coin_def record_unless_ls_def charged_def split: option.splits)

text \<open>A payment that is new is added to the coins and recorded, one that is not changes nothing.\<close>

lemma player_charge_effect:
  fixes ch :: player_charge
  assumes "wa_vip w = Some vip"
  defines "i \<equiv> ucast (ch_request_index ch) :: u32" and "v \<equiv> ucast (ch_charge_value ch) :: u32"
  shows "wa_vip (fst (lmsg_player_charge res ch w)) \<noteq> None"
    "snd (lmsg_player_charge res ch w) = Some \<lparr> cc_request_index = ch_request_index ch, cc_charge_value = ch_charge_value ch,
       cc_result = (if i \<in> fst ` set (charged w) then 2 else 1) \<rparr>"
    "charged (fst (lmsg_player_charge res ch w)) = charged w @ (if i \<in> fst ` set (charged w) then [] else [(i, v)])"
    "pe_coin (wa_player (fst (lmsg_player_charge res ch w))) =
       pe_coin (wa_player w) + (if i \<in> fst ` set (charged w) then 0 else v)"
proof -
  have valid: "is_valid_charge_request vip i \<longleftrightarrow> i \<notin> fst ` set (charged w)"
    using assms(1) by (auto simp: is_valid_charge_request_def charged_def list_ex_iff image_image)
  define w1 where "w1 = update_coin v 264 True (update_vip_exp res v 264 (charge_first_gift vip w))"
  have gift: "pe_coin (wa_player (charge_first_gift vip w)) = pe_coin (wa_player w)" "charged (charge_first_gift vip w) = charged w"
    "wa_vip (charge_first_gift vip w) \<noteq> None"
    using assms(1) by (simp_all add: charge_first_gift_def charged_def)
  have "charged (update_vip_exp res v 264 (charge_first_gift vip w)) = charged w"
    using gift(2) by (simp add: charged_def update_vip_exp_fields)
  then have w1: "pe_coin (wa_player w1) = pe_coin (wa_player w) + v" "charged w1 = charged w" "wa_vip w1 \<noteq> None"
    using gift by (simp_all add: w1_def update_coin_charge update_vip_exp_fields)
  then obtain vip' where vip': "wa_vip w1 = Some vip'" by auto
  have c: "map (\<lambda>c. (vc_request_index c, vc_charge_value c)) (vp_charge_info vip') = charged w"
    using w1(2) vip' by (simp add: charged_def)
  note d = lmsg_player_charge_def Let_def assms(1) i_def [symmetric] v_def [symmetric] valid w1_def [symmetric] vip'
    notify_player_update_money_def
  show "wa_vip (fst (lmsg_player_charge res ch w)) \<noteq> None"
    "snd (lmsg_player_charge res ch w) = Some \<lparr> cc_request_index = ch_request_index ch, cc_charge_value = ch_charge_value ch,
       cc_result = (if i \<in> fst ` set (charged w) then 2 else 1) \<rparr>"
    "pe_coin (wa_player (fst (lmsg_player_charge res ch w))) =
       pe_coin (wa_player w) + (if i \<in> fst ` set (charged w) then 0 else v)"
    using w1(1) by (simp_all add: d)
  show "charged (fst (lmsg_player_charge res ch w)) = charged w @ (if i \<in> fst ` set (charged w) then [] else [(i, v)])"
    using c by (simp add: d) (simp add: charged_def recode_charge_info_def)
qed

end
