(* ===== verification/ChargingOnce.thy ===== *)
theory ChargingOnce
  imports Charging
begin

text \<open>
  A payment is credited exactly once: never twice, whatever is sent again, and always, once the
  player stays in a scene the line scene knows. What the confirmations do to the other payments.
\<close>

section \<open>Invariant\<close>

lemma ucast_down_up [simp]: "(ucast (ucast (x :: u32) :: u64) :: u32) = x"
  by (rule bit_word_eqI) (simp add: bit_simps)

lemma ucast_up_inj [simp]: "(ucast (x :: u32) :: u64) = ucast y \<longleftrightarrow> x = y"
  by (metis ucast_down_up)

definition msg_pair :: "player_charge \<Rightarrow> u32 \<times> u32" where
  "msg_pair ch = (ucast (ch_request_index ch), ucast (ch_charge_value ch))"

definition line_pair :: "short_charge_info \<Rightarrow> u32 \<times> u32" where
  "line_pair c = (sc_request_index c, sc_charge_value c)"

definition pending :: "charging \<Rightarrow> (u32 \<times> u32) list" where
  "pending s = map line_pair (lp_charge_info (cg_line s))"

definition msg_ok :: "charging \<Rightarrow> player_charge \<Rightarrow> bool" where
  "msg_ok s ch \<longleftrightarrow> msg_pair ch \<in> set (cg_received s) \<and> ch_request_index ch = ucast (fst (msg_pair ch))"

definition charge_inv :: "wallet \<Rightarrow> charging \<Rightarrow> bool" where
  "charge_inv w0 s \<longleftrightarrow> wa_vip (cg_wallet s) \<noteq> None \<and> distinct (map fst (charged (cg_wallet s))) \<and>
     (\<exists>new. charged (cg_wallet s) = charged w0 @ new \<and> set new \<subseteq> set (cg_received s) \<and>
        pe_coin (wa_player (cg_wallet s)) = pe_coin (wa_player w0) + sum_list (map snd new)) \<and>
     set (pending s) \<subseteq> set (cg_received s) \<and>
     (\<forall>k. \<forall>ch \<in> set (cg_to_scene s k). msg_ok s ch) \<and>
     (\<forall>cc \<in> set (cg_to_line s). \<exists>i \<in> fst ` set (charged (cg_wallet s)). cc_request_index cc = ucast i) \<and>
     fst ` set (cg_received s) \<subseteq> fst ` set (pending s) \<union> fst ` set (charged (cg_wallet s))"

lemma send_scene_fields [simp]:
  "cg_line (send_scene m s) = cg_line s" "cg_to_line (send_scene m s) = cg_to_line s" "cg_where (send_scene m s) = cg_where s"
  "cg_wallet (send_scene m s) = cg_wallet s" "cg_received (send_scene m s) = cg_received s"
  "pending (send_scene m s) = pending s" "msg_ok (send_scene m s) = msg_ok s"
  by (auto simp: send_scene_def pending_def msg_ok_def fun_eq_iff split: prod.splits)

text \<open>What the line scene sends is what it has.\<close>

lemma line_player_charge_ok:
  assumes "line_player_charge (cg_line s) = (k, chs)" "set (pending s) \<subseteq> set (cg_received s)"
  shows "\<forall>ch \<in> set chs. msg_ok s ch"
  using assms by (auto simp: line_player_charge_def msg_ok_def msg_pair_def pending_def line_pair_def image_subset_iff)

lemma send_scene_inv:
  assumes inv: "charge_inv w0 s"
  shows "charge_inv w0 (send_scene (line_player_charge (cg_line s)) s)"
proof -
  obtain k chs where m: "line_player_charge (cg_line s) = (k, chs)" by fastforce
  have "\<forall>ch \<in> set chs. msg_ok s ch" using line_player_charge_ok [OF m] inv by (simp add: charge_inv_def)
  moreover have "cg_to_scene (send_scene (k, chs) s) = (cg_to_scene s)(k := cg_to_scene s k @ chs)"
    by (simp add: send_scene_def)
  ultimately show ?thesis using inv unfolding m charge_inv_def by (auto simp del: not_None_eq)
qed

lemma msg_ok_cong: "cg_received s' = cg_received s \<Longrightarrow> msg_ok s' = msg_ok s"
  by (simp add: msg_ok_def fun_eq_iff)

lemma scene_takes_inv:
  assumes inv: "charge_inv w0 s"
  shows "charge_inv w0 (scene_takes res k s)"
proof (cases "cg_to_scene s k")
  case Nil
  then show ?thesis using inv by (simp add: scene_takes_def)
next
  case (Cons ch chs)
  define s1 where "s1 = s\<lparr> cg_to_scene := (cg_to_scene s)(k := chs) \<rparr>"
  have "\<forall>ch \<in> set chs. msg_ok s ch" using inv Cons unfolding charge_inv_def by (metis list.set_intros(2))
  then have s1: "charge_inv w0 s1"
    using inv msg_ok_cong [of s1 s] by (simp add: charge_inv_def s1_def pending_def)
  show ?thesis
  proof (cases "cg_where s = Some k")
    case False
    then show ?thesis using s1 Cons by (simp add: scene_takes_def s1_def)
  next
    case True
    let ?w = "cg_wallet s"
    obtain vip where vip: "wa_vip ?w = Some vip" using inv by (auto simp: charge_inv_def)
    note eff = player_charge_effect [OF vip, of res ch, folded msg_pair_def]
    have ch: "msg_ok s ch" using inv Cons by (simp add: charge_inv_def) (metis list.set_intros(1))
    define i v where "i = fst (msg_pair ch)" and "v = snd (msg_pair ch)"
    obtain w' cc where r: "lmsg_player_charge res ch ?w = (w', Some cc)" "cc_request_index cc = ucast i"
      using eff(2) ch by (cases "lmsg_player_charge res ch ?w") (auto simp: i_def msg_ok_def)
    have step: "scene_takes res k s = s1\<lparr> cg_wallet := w', cg_to_line := cg_to_line s @ [cc] \<rparr>"
      using Cons True r by (simp add: scene_takes_def s1_def)
    have w': "wa_vip w' \<noteq> None" "charged w' = charged ?w @ (if i \<in> fst ` set (charged ?w) then [] else [(i, v)])"
      "pe_coin (wa_player w') = pe_coin (wa_player ?w) + (if i \<in> fst ` set (charged ?w) then 0 else v)"
      using eff(1,3,4) r by (simp_all add: i_def v_def msg_pair_def)
    have "(i, v) \<in> set (cg_received s)" using ch by (simp add: i_def v_def msg_ok_def)
    then show ?thesis
      using s1 w' r(2) msg_ok_cong [of "s1\<lparr> cg_wallet := w', cg_to_line := cg_to_line s @ [cc] \<rparr>" s1]
      unfolding step charge_inv_def
      by (auto simp: s1_def pending_def)
  qed
qed


lemma confirm_pending:
  "pending (set_line (lmsg_player_charge_confirm cc (cg_line s)) s) =
    filter (\<lambda>x. ucast (fst x) \<noteq> cc_request_index cc) (pending s)"
  by (simp add: pending_def set_line_def lmsg_player_charge_confirm_def filter_map comp_def line_pair_def case_prod_beta')

lemma line_takes_inv:
  assumes inv: "charge_inv w0 s" and l: "cg_to_line s = cc # ccs"
  shows "charge_inv w0 ((set_line (lmsg_player_charge_confirm cc (cg_line s)) s)\<lparr> cg_to_line := ccs \<rparr>)"
    (is "charge_inv w0 ?s")
proof -
  have p: "pending ?s = filter (\<lambda>x. ucast (fst x) \<noteq> cc_request_index cc) (pending s)"
    using confirm_pending [of cc s] by (simp add: pending_def)
  have same: "cg_wallet ?s = cg_wallet s" "cg_received ?s = cg_received s" "cg_to_scene ?s = cg_to_scene s" "cg_to_line ?s = ccs"
    by (simp_all add: set_line_def)
  obtain i where i: "i \<in> fst ` set (charged (cg_wallet s))" "cc_request_index cc = ucast i"
    using inv l by (auto simp: charge_inv_def)
  have "fst ` set (cg_received s) \<subseteq> fst ` set (pending ?s) \<union> fst ` set (charged (cg_wallet s))"
  proof
    fix x assume "x \<in> fst ` set (cg_received s)"
    then have "x \<in> fst ` set (pending s) \<union> fst ` set (charged (cg_wallet s))" using inv unfolding charge_inv_def by blast
    then show "x \<in> fst ` set (pending ?s) \<union> fst ` set (charged (cg_wallet s))"
      using i by (cases "x = i") (force simp: p)+
  qed
  then show ?thesis
    using inv l unfolding charge_inv_def same msg_ok_cong [OF same(2)] p by auto
qed

lemma set_line_inv: "charge_inv w0 s \<Longrightarrow> lp_charge_info lp = lp_charge_info (cg_line s) \<Longrightarrow> charge_inv w0 (set_line lp s)"
  using msg_ok_cong [of "set_line lp s" s] by (simp add: charge_inv_def set_line_def pending_def)

lemma charge_step_inv:
  assumes inv: "charge_inv w0 s"
  shows "charge_inv w0 (charge_step res e s)"
proof (cases e)
  case (Ch_member i v now)
  define lp where "lp = (cg_line s)\<lparr> lp_charge_info := lp_charge_info (cg_line s) @
    [\<lparr> sc_request_index = i, sc_charge_value = v, sc_charge_time = now \<rparr>] \<rparr>"
  define s1 where "s1 = set_line lp s\<lparr> cg_received := cg_received s @ [(i, v)] \<rparr>"
  have "pending s1 = pending s @ [(i, v)]" by (simp add: s1_def lp_def pending_def set_line_def line_pair_def)
  moreover have "msg_ok s ch \<Longrightarrow> msg_ok s1 ch" for ch by (simp add: msg_ok_def s1_def set_line_def)
  ultimately have "charge_inv w0 s1" using inv unfolding charge_inv_def by (auto simp: s1_def set_line_def)
  from send_scene_inv [OF this] show ?thesis
    using Ch_member by (simp add: mmsg_member_charge_def Let_def s1_def lp_def set_line_def)
next
  case (Ch_online k)
  let ?s = "set_line ((cg_line s)\<lparr> lp_is_online := True, lp_scene_id := k \<rparr>) s"
  have "charge_inv w0 ?s" using inv by (simp add: set_line_inv)
  from send_scene_inv [OF this] show ?thesis
    using Ch_online by (simp add: lmsg_player_is_online_def Let_def set_line_def)
next
  case Ch_offline
  then show ?thesis using inv by (simp add: set_line_inv lmsg_player_is_offline_def)
next
  case (Ch_move p)
  then show ?thesis using inv msg_ok_cong [of "s\<lparr> cg_where := p \<rparr>" s] by (simp add: charge_inv_def pending_def)
next
  case (Ch_scene k)
  then show ?thesis using inv by (simp add: scene_takes_inv)
next
  case Ch_line
  then show ?thesis using inv line_takes_inv by (auto split: list.splits)
qed

interpretation payments: invariant_machine "charge_step res" "\<lambda>_ _. True" "charge_inv w0" for res w0
  by unfold_locales (rule charge_step_inv)

text \<open>A player as it starts: nothing paid is on its way.\<close>

definition new_charging :: "wallet \<Rightarrow> charging" where
  "new_charging w = \<lparr> cg_line = \<lparr> lp_charge_info = [], lp_is_online = False, lp_scene_id = 0 \<rparr>, cg_to_scene = (\<lambda>_. []),
     cg_to_line = [], cg_where = None, cg_wallet = w, cg_received = [] \<rparr>"

lemma new_charging_inv:
  "wa_vip w \<noteq> None \<Longrightarrow> distinct (map fst (charged w)) \<Longrightarrow> charge_inv w (new_charging w)"
  by (simp add: charge_inv_def new_charging_def pending_def)

text \<open>C2: however payments, logins, moves between scenes and messages interleave, the payments a
  player has recorded have different request indexes; those recorded since the start are payments
  that were received, the coins have grown by exactly their values, and a payment received is
  recorded or still kept by the line scene.\<close>

theorem charged_once:
  assumes "wa_vip w \<noteq> None" "distinct (map fst (charged w))"
  shows "let s = run_events (charge_step res) es (new_charging w); w' = cg_wallet s in
    distinct (map fst (charged w')) \<and>
    (\<exists>new. charged w' = charged w @ new \<and> set new \<subseteq> set (cg_received s) \<and>
       pe_coin (wa_player w') = pe_coin (wa_player w) + sum_list (map snd new)) \<and>
    fst ` set (cg_received s) \<subseteq> fst ` set (pending s) \<union> fst ` set (charged w')"
  using payments.run_keeps [OF new_charging_inv [OF assms], of res es] by (simp add: charge_inv_def Let_def)

section \<open>Delivery\<close>

lemma scene_drains:
  assumes "cg_where s = Some k" "wa_vip (cg_wallet s) \<noteq> None" "length (cg_to_scene s k) \<le> n"
  shows "let s' = run_events (charge_step res) (replicate n (Ch_scene k)) s in
    map cc_request_index (cg_to_line s') = map cc_request_index (cg_to_line s) @ map ch_request_index (cg_to_scene s k) \<and>
    cg_line s' = cg_line s"
  using assms
proof (induction n arbitrary: s)
  case (Suc n)
  show ?case
  proof (cases "cg_to_scene s k")
    case Nil
    then have "charge_step res (Ch_scene k) s = s" by (simp add: scene_takes_def)
    then show ?thesis using Suc.IH [of s] Suc.prems Nil by simp
  next
    case (Cons ch chs)
    obtain vip where vip: "wa_vip (cg_wallet s) = Some vip" using Suc.prems by auto
    note eff = player_charge_effect [OF vip, of res ch]
    obtain w' cc where r: "lmsg_player_charge res ch (cg_wallet s) = (w', Some cc)" "cc_request_index cc = ch_request_index ch"
      "wa_vip w' \<noteq> None"
      using eff(1,2) by (cases "lmsg_player_charge res ch (cg_wallet s)") auto
    define s1 where "s1 = s\<lparr> cg_to_scene := (cg_to_scene s)(k := chs), cg_wallet := w', cg_to_line := cg_to_line s @ [cc] \<rparr>"
    have "charge_step res (Ch_scene k) s = s1" using Cons Suc.prems r by (simp add: scene_takes_def s1_def)
    moreover have "cg_where s1 = Some k" "wa_vip (cg_wallet s1) \<noteq> None" "length (cg_to_scene s1 k) \<le> n"
      using Suc.prems Cons r by (simp_all add: s1_def)
    ultimately show ?thesis using Suc.IH [of s1] Cons r by (simp add: Let_def s1_def)
  qed
qed simp

lemma line_drains:
  assumes "length (cg_to_line s) \<le> n"
  shows "pending (run_events (charge_step res) (replicate n Ch_line) s) =
    filter (\<lambda>x. ucast (fst x) \<notin> set (map cc_request_index (cg_to_line s))) (pending s)"
  using assms
proof (induction n arbitrary: s)
  case (Suc n)
  show ?case
  proof (cases "cg_to_line s")
    case Nil
    then show ?thesis using Suc.IH [of s] by simp
  next
    case (Cons cc ccs)
    let ?s = "(set_line (lmsg_player_charge_confirm cc (cg_line s)) s)\<lparr> cg_to_line := ccs \<rparr>"
    have "pending ?s = filter (\<lambda>x. ucast (fst x) \<noteq> cc_request_index cc) (pending s)"
      using confirm_pending [of cc s] by (simp add: pending_def)
    moreover have "charge_step res Ch_line s = ?s" using Cons by simp
    moreover have "length (cg_to_line ?s) \<le> n" using Cons Suc.prems by simp
    ultimately show ?thesis using Suc.IH [of ?s] Cons by (simp add: conj_commute)
  qed
qed simp

text \<open>C23: once the player is in the scene with which it came online, and the scene and then the line
  scene have handled what is in their queues, the line scene keeps no payment any more and every
  payment received is recorded.\<close>

theorem charges_arrive:
  fixes w :: wallet
  assumes "wa_vip w \<noteq> None" "distinct (map fst (charged w))"
    and "n \<ge> length (cg_to_scene (run_events (charge_step res) es (new_charging w)) k) +
           length (pending (run_events (charge_step res) es (new_charging w)))"
    and "m \<ge> n + length (cg_to_line (run_events (charge_step res) es (new_charging w)))"
  shows "let s = run_events (charge_step res) (es @ [Ch_move (Some k), Ch_online k] @ replicate n (Ch_scene k) @
           replicate m Ch_line) (new_charging w) in
    pending s = [] \<and> fst ` set (cg_received s) \<subseteq> fst ` set (charged (cg_wallet s))"
proof -
  let ?run = "run_events (charge_step res)"
  define s0 where "s0 = ?run es (new_charging w)"
  define s1 where "s1 = ?run [Ch_move (Some k), Ch_online k] s0"
  define s2 where "s2 = ?run (replicate n (Ch_scene k)) s1"
  define s where "s = ?run (replicate m Ch_line) s2"
  have inv: "charge_inv w (?run es' (new_charging w))" for es'
    using payments.run_keeps [OF new_charging_inv [OF assms(1,2)], of res es'] by simp
  have s: "?run (es @ [Ch_move (Some k), Ch_online k] @ replicate n (Ch_scene k) @ replicate m Ch_line) (new_charging w) = s"
    by (simp add: run_events_append s_def s2_def s1_def s0_def)
  have s0: "length (cg_to_scene s0 k) + length (pending s0) \<le> n" "n + length (cg_to_line s0) \<le> m"
    "wa_vip (cg_wallet s0) \<noteq> None"
    using assms(3,4) inv [of es] by (simp_all add: s0_def charge_inv_def)
  let ?msgs = "map (\<lambda>c. \<lparr> ch_request_index = ucast (sc_request_index c), ch_charge_value = ucast (sc_charge_value c),
    ch_charge_time = sc_charge_time c \<rparr>) (lp_charge_info (cg_line s0))"
  have s1: "cg_where s1 = Some k" "cg_to_scene s1 k = cg_to_scene s0 k @ ?msgs" "cg_wallet s1 = cg_wallet s0"
    "cg_to_line s1 = cg_to_line s0" "pending s1 = pending s0"
    by (simp_all add: s1_def lmsg_player_is_online_def line_player_charge_def send_scene_def set_line_def pending_def)
  have len: "length (cg_to_scene s1 k) \<le> n" using s0(1) by (simp add: s1 pending_def)
  have s2: "map cc_request_index (cg_to_line s2) = map cc_request_index (cg_to_line s0) @ map ch_request_index (cg_to_scene s1 k)"
    "pending s2 = pending s0"
    using scene_drains [OF s1(1) _ len] s0(3) s1 by (simp_all add: s2_def Let_def pending_def)
  have "length (cg_to_line s2) \<le> m"
    using arg_cong [OF s2(1), of length] len s0(2) by simp
  from line_drains [OF this] have p: "pending s =
      filter (\<lambda>x. ucast (fst x) \<notin> set (map cc_request_index (cg_to_line s2))) (pending s0)"
    by (simp add: s_def s2(2))
  have "ucast (fst x) \<in> set (map cc_request_index (cg_to_line s2))" if "x \<in> set (pending s0)" for x
    using that unfolding s2(1) s1(2) by (auto simp: pending_def line_pair_def)
  then have "pending s = []" using p by (simp add: filter_empty_conv)
  moreover have "charge_inv w s" using inv s by metis
  ultimately show ?thesis using s by (simp add: Let_def charge_inv_def)
qed

section \<open>What a confirmation does to the others\<close>

text \<open>The confirmation of one payment sets the time of every other payment that still waits to
  0, so when such a payment is credited afterwards the plugins are told that it was made on the
  first day of the server, whenever it was made.\<close>

theorem charge_time_lost:
  assumes "sc_request_index c \<noteq> i" "c \<in> set (lp_charge_info lp)" "lp_is_online lp" "wa_vip w \<noteq> None"
    and "sc_request_index c \<notin> fst ` set (charged w)"
    and "cc_request_index cc = ucast i"
  shows "\<exists>ch \<in> set (snd (line_player_charge (lmsg_player_charge_confirm cc lp))).
    msg_pair ch = line_pair c \<and>
    (\<exists>total. NMSG_PLAYER_CHARGE (sc_charge_value c) total 1 \<in> set (wa_out (fst (lmsg_player_charge res ch w))))"
proof -
  let ?ch = "\<lparr> ch_request_index = ucast (sc_request_index c), ch_charge_value = ucast (sc_charge_value c), ch_charge_time = 0 \<rparr>
    :: player_charge"
  have "?ch \<in> set (snd (line_player_charge (lmsg_player_charge_confirm cc lp)))"
    using assms(1-3,6) by (force simp: line_player_charge_def lmsg_player_charge_confirm_def image_iff)
  moreover have "msg_pair ?ch = line_pair c" by (simp add: msg_pair_def line_pair_def)
  moreover obtain vip where vip: "wa_vip w = Some vip" using assms(4) by auto
  have "is_valid_charge_request vip (sc_request_index c)"
    using assms(5) vip by (fastforce simp: is_valid_charge_request_def charged_def list_ex_iff image_image image_iff)
  then have "\<exists>total. NMSG_PLAYER_CHARGE (sc_charge_value c) total 1 \<in> set (wa_out (fst (lmsg_player_charge res ?ch w)))"
    using vip by (auto simp: lmsg_player_charge_def Let_def get_time_different_day_def emit_def)
  ultimately show ?thesis by blast
qed

lemma sample_charged: "wa_vip sample_wallet \<noteq> None" "distinct (map fst (charged sample_wallet))" "charged sample_wallet = []"
  by (simp_all add: sample_wallet_def charged_def)

theorem charged_once_witness:
  "let s = run_events (charge_step sample_res) [Ch_member 11 100 1000, Ch_move (Some 3), Ch_online 3, Ch_member 12 7 2000,
         Ch_scene 3, Ch_scene 3, Ch_scene 3, Ch_line] (new_charging sample_wallet); w' = cg_wallet s in
    distinct (map fst (charged w')) \<and> set (charged w') \<subseteq> set (cg_received s)"
  using charged_once [OF sample_charged(1,2), of sample_res
      "[Ch_member 11 100 1000, Ch_move (Some 3), Ch_online 3, Ch_member 12 7 2000, Ch_scene 3, Ch_scene 3, Ch_scene 3, Ch_line]"]
  by (auto simp only: Let_def sample_charged(3) append_Nil)

theorem charges_arrive_witness:
  "let s = run_events (charge_step sample_res) ([Ch_member 11 100 1000] @ [Ch_move (Some 3), Ch_online 3] @
         replicate 1 (Ch_scene 3) @ replicate 1 Ch_line) (new_charging sample_wallet) in
    pending s = [] \<and> fst ` set (cg_received s) \<subseteq> fst ` set (charged (cg_wallet s))"
proof (rule charges_arrive [OF sample_charged(1,2)])
  have "run_events (charge_step sample_res) [Ch_member 11 100 1000] (new_charging sample_wallet) =
    (new_charging sample_wallet)\<lparr> cg_line := \<lparr> lp_charge_info = [\<lparr> sc_request_index = 11, sc_charge_value = 100, sc_charge_time = 1000 \<rparr>],
      lp_is_online = False, lp_scene_id = 0 \<rparr>, cg_received := [(11, 100)] \<rparr>"
    by (simp add: mmsg_member_charge_def Let_def send_scene_def set_line_def new_charging_def line_player_charge_def
        fun_upd_idem_iff)
  then show "length (cg_to_scene (run_events (charge_step sample_res) [Ch_member 11 100 1000] (new_charging sample_wallet)) 3) +
      length (pending (run_events (charge_step sample_res) [Ch_member 11 100 1000] (new_charging sample_wallet))) \<le> 1"
    "1 + length (cg_to_line (run_events (charge_step sample_res) [Ch_member 11 100 1000] (new_charging sample_wallet))) \<le> 1"
    by (simp_all only:) (simp_all add: pending_def new_charging_def)
qed

theorem charge_time_lost_witness:
  "\<exists>ch \<in> set (snd (line_player_charge (lmsg_player_charge_confirm \<lparr> cc_request_index = ucast (11 :: u32), cc_charge_value = 100, cc_result = 1 \<rparr>
        \<lparr> lp_charge_info = [\<lparr> sc_request_index = 11, sc_charge_value = 100, sc_charge_time = 1000 \<rparr>,
           \<lparr> sc_request_index = 12, sc_charge_value = 7, sc_charge_time = 90000000 \<rparr>], lp_is_online = True, lp_scene_id = 3 \<rparr>))).
    msg_pair ch = (12, 7) \<and>
    (\<exists>total. NMSG_PLAYER_CHARGE 7 total 1 \<in> set (wa_out (fst (lmsg_player_charge sample_res ch sample_wallet))))"
  using charge_time_lost [of "\<lparr> sc_request_index = 12, sc_charge_value = 7, sc_charge_time = 90000000 \<rparr>" 11
      "\<lparr> lp_charge_info = [\<lparr> sc_request_index = 11, sc_charge_value = 100, sc_charge_time = 1000 \<rparr>,
           \<lparr> sc_request_index = 12, sc_charge_value = 7, sc_charge_time = 90000000 \<rparr>], lp_is_online = True, lp_scene_id = 3 \<rparr>"
      sample_wallet "\<lparr> cc_request_index = ucast (11 :: u32), cc_charge_value = 100, cc_result = 1 \<rparr>" sample_res] sample_charged
  by (simp add: line_pair_def)

end
