(* ===== verification/LineReward.thy ===== *)
theory LineReward
  imports Wallet
begin

text \<open>
  Rewards that the line scene grants: \<^verbatim>\<open>plugin/manage_short/src/ManageShort.cpp\<close>. They are added to
  the reward information of the player's short info and sent to the player's scene; a scene that has
  paid them answers with \<^verbatim>\<open>stol_update_reward\<close>; what is still there is sent when the player comes
  online. Messages are objects on the heap: a \<^verbatim>\<open>PackInfo\<close> holds the address of its message, and
  deletes it when the scene has handled it (\<^verbatim>\<open>share/src/Packet.cpp\<close>). The records of the data
  recorder and the pool updates are left out; the player is known.
\<close>

section \<open>Data\<close>

record reward_info =
  ri_money :: i32
  ri_coin :: i32
  ri_seniority :: i32
  ri_prestige :: u32
  ri_reverence :: u32
  ri_energy :: u32
  ri_item_id :: "u32 list"
  ri_item_num :: "u32 list"
  ri_source_from :: "u32 list"

record reward_msg =
  lm_money :: i32
  lm_coin :: i32
  lm_seniority :: i32
  lm_prestige :: u32
  lm_reverence :: u32
  lm_energy :: u32
  lm_item_id :: "u32 list"
  lm_item_num :: "u32 list"
  lm_source_from :: u32

definition no_reward :: reward_msg where
  "no_reward = \<lparr> lm_money = 0, lm_coin = 0, lm_seniority = 0, lm_prestige = 0, lm_reverence = 0, lm_energy = 0,
     lm_item_id = [], lm_item_num = [], lm_source_from = 0 \<rparr>"

text \<open>What is sent is a list of addresses: one scene is followed.\<close>

record reward_state =
  rs_info :: reward_info
  rs_is_online :: bool
  rs_heap :: "nat \<rightharpoonup> reward_msg"
  rs_next :: nat
  rs_sent :: "nat list"

definition new_msg :: "reward_msg \<Rightarrow> reward_state \<Rightarrow> reward_state \<times> nat" where
  "new_msg m s = (s\<lparr> rs_heap := (rs_heap s)(rs_next s \<mapsto> m), rs_next := rs_next s + 1 \<rparr>, rs_next s)"

definition send_scene_msg :: "nat \<Rightarrow> reward_state \<Rightarrow> reward_state" where
  "send_scene_msg a s = s\<lparr> rs_sent := rs_sent s @ [a] \<rparr>"

section \<open>Granting\<close>

definition plmsg_line_update_reward :: "reward_msg \<Rightarrow> reward_state \<Rightarrow> reward_state \<times> bool" where
  "plmsg_line_update_reward ug s =
     (if lm_money ug <s 0 \<or> lm_coin ug <s 0 \<or> lm_seniority ug <s 0 then (s, False)
      else
        let r = rs_info s;
            s = s\<lparr> rs_info := r\<lparr> ri_money := ri_money r + lm_money ug, ri_coin := ri_coin r + lm_coin ug,
                  ri_seniority := ri_seniority r + lm_seniority ug, ri_prestige := ri_prestige r + lm_prestige ug,
                  ri_reverence := ri_reverence r + lm_reverence ug, ri_energy := ri_energy r + lm_energy ug \<rparr> \<rparr>
        in (if rs_is_online s
            then let (s, a) = new_msg (ug\<lparr> lm_item_id := [], lm_item_num := [], lm_source_from := 0 \<rparr>) s in send_scene_msg a s
            else s, True))"

text \<open>The inner loop of \<^verbatim>\<open>plmsg_pick_up\<close> compares with the length of the list it extends.\<close>

partial_function (option) pick_up_inner :: "u32 \<Rightarrow> u32 \<Rightarrow> u32 \<Rightarrow> nat \<Rightarrow> reward_info \<Rightarrow> reward_info option" where
  "pick_up_inner item num source j r =
     (if j < length (ri_item_id r)
      then pick_up_inner item num source (j + 1)
        (r\<lparr> ri_item_id := ri_item_id r @ [item], ri_item_num := ri_item_num r @ [num],
            ri_source_from := ri_source_from r @ [source] \<rparr>)
      else Some r)"

primrec pick_up_loop :: "u32 \<Rightarrow> (u32 \<times> u32) list \<Rightarrow> reward_info \<Rightarrow> reward_info option" where
  "pick_up_loop source [] r = Some r"
| "pick_up_loop source (x # xs) r =
     do { r \<leftarrow> pick_up_inner (fst x) (snd x) source 0 r; pick_up_loop source xs r }"

definition plmsg_pick_up :: "u32 list \<Rightarrow> u32 list \<Rightarrow> u32 \<Rightarrow> reward_state \<Rightarrow> (reward_state \<times> bool) option" where
  "plmsg_pick_up ids nums source s =
     (if length ids \<noteq> length nums then Some (s, False)
      else
        do { r \<leftarrow> pick_up_loop source (zip ids nums) (rs_info s);
             let (s, a) = new_msg (no_reward\<lparr> lm_item_id := ids, lm_item_num := nums, lm_source_from := source \<rparr>)
                   (s\<lparr> rs_info := r \<rparr>);
             Some (send_scene_msg a s, True) })"

section \<open>Coming online\<close>

text \<open>All items are sent with one message object, which each step overwrites.\<close>

definition set_item :: "u32 \<times> u32 \<times> u32 \<Rightarrow> reward_msg \<Rightarrow> reward_msg" where
  "set_item x m = m\<lparr> lm_item_id := [fst x], lm_item_num := [fst (snd x)], lm_source_from := snd (snd x) \<rparr>"

primrec online_items :: "nat \<Rightarrow> (u32 \<times> u32 \<times> u32) list \<Rightarrow> reward_state \<Rightarrow> reward_state option" where
  "online_items a [] s = Some s"
| "online_items a (x # xs) s =
     do { m \<leftarrow> rs_heap s a;
          online_items a xs (send_scene_msg a (s\<lparr> rs_heap := (rs_heap s)(a \<mapsto> set_item x m) \<rparr>)) }"

definition nlmsg_player_is_online :: "reward_state \<Rightarrow> reward_state option" where
  "nlmsg_player_is_online s =
     (let r = rs_info s;
          s = (if 0 <s ri_money r \<or> 0 <s ri_coin r \<or> 0 <s ri_seniority r \<or> 0 < ri_prestige r \<or> 0 < ri_reverence r \<or>
                  0 < ri_energy r \<or> ri_item_id r \<noteq> []
               then
                 let (s, a) = new_msg (no_reward\<lparr> lm_money := ri_money r, lm_coin := ri_coin r, lm_seniority := ri_seniority r,
                        lm_prestige := ri_prestige r, lm_reverence := ri_reverence r, lm_energy := ri_energy r \<rparr>) s
                 in send_scene_msg a s
               else s)
      in if ri_item_id r = [] then Some s
         else let (s, a) = new_msg no_reward s
              in online_items a (zip (ri_item_id r) (zip (ri_item_num r) (ri_source_from r))) s)"

text \<open>A scene handles what was sent, in order: it reads the message and deletes it.\<close>

fun scene_handles :: "nat list \<Rightarrow> (nat \<rightharpoonup> reward_msg) \<Rightarrow> reward_msg list option" where
  "scene_handles [] h = Some []"
| "scene_handles (a # as) h =
     (case h a of None \<Rightarrow> None | Some m \<Rightarrow> map_option ((#) m) (scene_handles as (h(a := None))))"

section \<open>The answer of the scene\<close>

text \<open>The first item with the id is reduced.\<close>

fun reduce_item :: "u32 \<Rightarrow> u32 \<Rightarrow> u32 list \<Rightarrow> u32 list \<Rightarrow> u32 list" where
  "reduce_item item num (i # is) (n # ns) =
     (if item = i then (if num \<le> n then n - num else 0) # ns else n # reduce_item item num is ns)"
| "reduce_item item num is ns = ns"

definition stol_update_reward :: "reward_msg \<Rightarrow> u32 \<Rightarrow> reward_info \<Rightarrow> reward_info" where
  "stol_update_reward ur result r =
     (if result \<noteq> 1 then r
      else
        let nums = fold (\<lambda>(i, n). reduce_item i n (ri_item_id r)) (zip (lm_item_id ur) (lm_item_num ur)) (ri_item_num r);
            left = filter (\<lambda>(i, n, f). 0 < n) (zip (ri_item_id r) (zip nums (ri_source_from r)))
        in r\<lparr> ri_money := (if lm_money ur \<le>s ri_money r then lm_money ur - lm_money ur else 0),
              ri_coin := (if lm_coin ur \<le>s ri_coin r then lm_coin ur - lm_coin ur else 0),
              ri_seniority := (if lm_seniority ur \<le>s ri_seniority r then lm_seniority ur - lm_seniority ur else 0),
              ri_prestige := (if lm_prestige ur \<le> ri_prestige r then lm_prestige ur - lm_prestige ur else 0),
              ri_reverence := (if lm_reverence ur \<le> ri_reverence r then lm_reverence ur - lm_reverence ur else 0),
              ri_energy := (if lm_energy ur \<le> ri_energy r then lm_energy ur - lm_energy ur else 0),
              ri_item_id := map fst left, ri_item_num := map (\<lambda>x. fst (snd x)) left,
              ri_source_from := ri_source_from r @ map (\<lambda>x. snd (snd x)) left \<rparr>)"

section \<open>Properties\<close>

lemma pick_up_inner_returns:
  assumes "pick_up_inner item num source j r = Some r'"
  shows "length (ri_item_id r) \<le> j \<and> r' = r"
proof (rule pick_up_inner.raw_induct [where P = "\<lambda>item num source j r r'. length (ri_item_id r) \<le> j \<and> r' = r", OF _ assms])
  fix f item num source j r y
  assume IH: "\<And>item num source j r y. f item num source j r = Some y \<Longrightarrow> length (ri_item_id r) \<le> j \<and> y = r"
    and "(if j < length (ri_item_id r)
      then f item num source (j + 1)
        (r\<lparr> ri_item_id := ri_item_id r @ [item], ri_item_num := ri_item_num r @ [num],
            ri_source_from := ri_source_from r @ [source] \<rparr>)
      else Some r) = Some y"
  then show "length (ri_item_id r) \<le> j \<and> y = r" by (fastforce split: if_splits dest: IH)
qed

lemma pick_up_inner_none: "j < length (ri_item_id r) \<Longrightarrow> pick_up_inner item num source j r = None"
  using pick_up_inner_returns [of item num source j r] by (cases "pick_up_inner item num source j r") auto

lemma pick_up_inner_empty [simp]: "ri_item_id r = [] \<Longrightarrow> pick_up_inner item num source 0 r = Some r"
  by (simp add: pick_up_inner.simps)

lemma pick_up_loop_empty: "ri_item_id r = [] \<Longrightarrow> pick_up_loop source xs r = Some r"
  by (induction xs) simp_all

text \<open>C39: picking up items for a player who has some stored never returns, for the inner loop extends
  the list whose end it waits for; for a player who has none it returns, sends the items to the
  scene and stores none of them.\<close>

theorem pick_up_returns:
  "plmsg_pick_up ids nums source s =
     (if length ids \<noteq> length nums then Some (s, False)
      else if ids \<noteq> [] \<and> ri_item_id (rs_info s) \<noteq> [] then None
      else Some (send_scene_msg (rs_next s) (s\<lparr> rs_heap := (rs_heap s)(rs_next s \<mapsto>
             no_reward\<lparr> lm_item_id := ids, lm_item_num := nums, lm_source_from := source \<rparr>), rs_next := rs_next s + 1 \<rparr>), True))"
proof -
  have "pick_up_loop source (zip ids nums) (rs_info s) = None"
    if "length ids = length nums" "ids \<noteq> []" "ri_item_id (rs_info s) \<noteq> []"
    using that pick_up_inner_none [of 0 "rs_info s"] by (cases ids; cases nums) simp_all
  moreover have "pick_up_loop source (zip ids nums) (rs_info s) = Some (rs_info s)"
    if "ids = [] \<or> ri_item_id (rs_info s) = []"
    using that pick_up_loop_empty by auto
  ultimately show ?thesis by (auto simp: plmsg_pick_up_def new_msg_def)
qed

lemma set_item_again [simp]: "set_item x (set_item y m) = set_item x m"
  by (cases m) (simp add: set_item_def)

lemma online_items_sent:
  "rs_heap s a = Some m \<Longrightarrow> \<exists>s'. online_items a xs s = Some s' \<and> rs_sent s' = rs_sent s @ replicate (length xs) a \<and>
    rs_heap s' = (rs_heap s)(a \<mapsto> (if xs = [] then m else set_item (last xs) m))"
proof (induction xs arbitrary: s m)
  case (Cons x xs)
  let ?s = "send_scene_msg a (s\<lparr> rs_heap := (rs_heap s)(a \<mapsto> set_item x m) \<rparr>)"
  have "rs_heap ?s a = Some (set_item x m)" by (simp add: send_scene_msg_def)
  from Cons.IH [OF this] show ?case using Cons.prems by (auto simp: send_scene_msg_def fun_eq_iff)
qed (simp add: fun_upd_idem)

lemma scene_handles_twice: "scene_handles (xs @ a # ys @ a # zs) h = None"
proof (induction xs arbitrary: h)
  case Nil
  have "h' a = None \<Longrightarrow> scene_handles (ys @ a # zs) h' = None" for h' :: "nat \<rightharpoonup> reward_msg"
    by (induction ys arbitrary: h') (auto split: option.splits)
  then show ?case by (simp split: option.splits)
qed (simp split: option.splits)

text \<open>When the items of more than one entry wait for a player, coming online sends one message
  object once for each, with the item of the last entry in the end, and the scene reads the object
  after it has deleted it.\<close>

theorem online_items_shared:
  fixes s :: reward_state
  defines "r \<equiv> rs_info s"
  assumes "2 \<le> length (ri_item_id r)" "length (ri_item_num r) = length (ri_item_id r)"
    "length (ri_item_id r) \<le> length (ri_source_from r)"
  shows "\<exists>s' a. nlmsg_player_is_online s = Some s' \<and>
    rs_heap s' a = Some (set_item (last (zip (ri_item_id r) (zip (ri_item_num r) (ri_source_from r)))) no_reward) \<and>
    rs_sent s' = rs_sent s @ rs_next s # replicate (length (ri_item_id r)) a \<and>
    scene_handles (rs_sent s') (rs_heap s') = None"
proof -
  let ?xs = "zip (ri_item_id r) (zip (ri_item_num r) (ri_source_from r))"
  have xs: "length ?xs = length (ri_item_id r)" "?xs \<noteq> []" "ri_item_id r \<noteq> []" using assms(2-4) by auto
  define m where "m = no_reward\<lparr> lm_money := ri_money r, lm_coin := ri_coin r, lm_seniority := ri_seniority r,
    lm_prestige := ri_prestige r, lm_reverence := ri_reverence r, lm_energy := ri_energy r \<rparr>"
  define s1 where "s1 = send_scene_msg (rs_next s) (fst (new_msg m s))"
  define a where "a = rs_next s1"
  define s2 where "s2 = fst (new_msg no_reward s1)"
  have run: "nlmsg_player_is_online s = online_items a ?xs s2"
    using xs by (simp add: nlmsg_player_is_online_def r_def [symmetric] m_def [symmetric] Let_def s1_def s2_def a_def new_msg_def)
  have "rs_heap s2 a = Some no_reward" by (simp add: s2_def a_def new_msg_def)
  from online_items_sent [OF this, of ?xs] obtain s' where s': "online_items a ?xs s2 = Some s'"
    "rs_sent s' = rs_sent s2 @ replicate (length ?xs) a" "rs_heap s' = (rs_heap s2)(a \<mapsto> set_item (last ?xs) no_reward)"
    using xs(2) by auto
  have sent: "rs_sent s' = rs_sent s @ rs_next s # replicate (length (ri_item_id r)) a"
    using s'(2) xs(1) by (simp add: s2_def s1_def new_msg_def send_scene_msg_def)
  obtain n where n: "length (ri_item_id r) = Suc (Suc n)" using assms(2) by (metis Suc_le_D numeral_2_eq_2 Suc_le_mono)
  have "scene_handles ((rs_sent s @ [rs_next s]) @ a # [] @ a # replicate n a) (rs_heap s') = None"
    by (rule scene_handles_twice)
  then have "scene_handles (rs_sent s') (rs_heap s') = None" by (simp add: sent n)
  then show ?thesis using run s' sent by auto
qed

text \<open>The answer of the scene to one reward takes away all the line scene keeps, also what was
  granted after that reward was sent; when the player comes online again nothing is sent.\<close>

theorem answer_forgets_rewards:
  assumes "plmsg_line_update_reward ug s = (s', True)" "ri_item_id (rs_info s) = []"
  shows "let r = stol_update_reward ur 1 (rs_info s') in
    ri_money r = 0 \<and> ri_coin r = 0 \<and> ri_seniority r = 0 \<and> ri_prestige r = 0 \<and> ri_reverence r = 0 \<and> ri_energy r = 0 \<and>
    nlmsg_player_is_online (s'\<lparr> rs_info := r \<rparr>) = Some (s'\<lparr> rs_info := r \<rparr>)"
proof -
  have "ri_item_id (rs_info s') = []"
    using assms by (auto simp: plmsg_line_update_reward_def Let_def new_msg_def send_scene_msg_def split: if_splits)
  then show ?thesis by (simp add: stol_update_reward_def nlmsg_player_is_online_def Let_def word_sless_alt)
qed

definition sample_rewards :: "u32 list \<Rightarrow> reward_state" where
  "sample_rewards ids = \<lparr> rs_info = \<lparr> ri_money = 0, ri_coin = 0, ri_seniority = 0, ri_prestige = 0, ri_reverence = 0, ri_energy = 0,
       ri_item_id = ids, ri_item_num = map (\<lambda>_. 1) ids, ri_source_from = map (\<lambda>_. 5) ids \<rparr>,
     rs_is_online = True, rs_heap = Map.empty, rs_next = 0, rs_sent = [] \<rparr>"

theorem online_items_shared_witness:
  "\<exists>s' a. nlmsg_player_is_online (sample_rewards [31, 32]) = Some s' \<and> rs_heap s' a = Some (set_item (32, 1, 5) no_reward) \<and>
    scene_handles (rs_sent s') (rs_heap s') = None"
  using online_items_shared [of "sample_rewards [31, 32]"] by (auto simp: sample_rewards_def)

theorem answer_forgets_rewards_witness:
  "let s' = fst (plmsg_line_update_reward (no_reward\<lparr> lm_money := 70 \<rparr>) (sample_rewards []));
       r = stol_update_reward (no_reward\<lparr> lm_money := 30 \<rparr>) 1 (rs_info s') in
    ri_money (rs_info s') = 70 \<and> ri_money r = 0 \<and> nlmsg_player_is_online (s'\<lparr> rs_info := r \<rparr>) = Some (s'\<lparr> rs_info := r \<rparr>)"
proof -
  let ?ug = "no_reward\<lparr> lm_money := 70 \<rparr>"
  have ok: "snd (plmsg_line_update_reward ?ug (sample_rewards []))"
    "ri_money (rs_info (fst (plmsg_line_update_reward ?ug (sample_rewards [])))) = 70"
    by (simp_all add: plmsg_line_update_reward_def no_reward_def sample_rewards_def word_sless_alt Let_def new_msg_def send_scene_msg_def)
  then show ?thesis
    using answer_forgets_rewards [of ?ug "sample_rewards []" "fst (plmsg_line_update_reward ?ug (sample_rewards []))"
        "no_reward\<lparr> lm_money := 30 \<rparr>"]
    by (cases "plmsg_line_update_reward ?ug (sample_rewards [])") (simp add: Let_def sample_rewards_def)
qed

end
