(* ===== verification/Opcodes.thy ===== *)
theory Opcodes
  imports Guid
begin

text \<open>The opcodes of \<^verbatim>\<open>common/inc/opcode.h\<close> that several servers use.\<close>

definition smsg_lost_gate_connection :: u16 where "smsg_lost_gate_connection = 5"
definition gmsg_player_jump_map :: u16 where "gmsg_player_jump_map = 1063"
definition gcmsg_register :: u16 where "gcmsg_register = 1070"
definition gmsg_client_read_error :: u16 where "gmsg_client_read_error = 1072"
definition gmsg_client_write_error :: u16 where "gmsg_client_write_error = 1073"
definition gmsg_client_wobble :: u16 where "gmsg_client_wobble = 1074"
definition gmsg_client_beat_timeout :: u16 where "gmsg_client_beat_timeout = 1075"
definition gmsg_player_kick_off :: u16 where "gmsg_player_kick_off = 1076"
definition smsg_error :: u16 where "smsg_error = 1090"
definition smsg_request_player_list :: u16 where "smsg_request_player_list = 1100"
definition cmsg_check_player_name :: u16 where "cmsg_check_player_name = 1101"
definition cmsg_player_make :: u16 where "cmsg_player_make = 1103"
definition smsg_player_make :: u16 where "smsg_player_make = 1104"
definition cmsg_request_player_list :: u16 where "cmsg_request_player_list = 1105"
definition cmsg_player_delete :: u16 where "cmsg_player_delete = 1106"
definition cmsg_loopback :: u16 where "cmsg_loopback = 1108"
definition cmsg_request_random_name :: u16 where "cmsg_request_random_name = 1109"
definition cmsg_valiation_account :: u16 where "cmsg_valiation_account = 1200"
definition cmsg_player_beat :: u16 where "cmsg_player_beat = 1201"
definition cmsg_player_enter_map :: u16 where "cmsg_player_enter_map = 1300"
definition smsg_create_self :: u16 where "smsg_create_self = 1301"
definition cmsg_player_leave_map :: u16 where "cmsg_player_leave_map = 1306"
definition smsg_player_leave_map :: u16 where "smsg_player_leave_map = 1307"
definition smsg_player_jump_map :: u16 where "smsg_player_jump_map = 1309"

lemmas gate_opcodes = smsg_lost_gate_connection_def gmsg_player_jump_map_def gmsg_client_read_error_def gmsg_client_write_error_def
  gmsg_client_wobble_def gmsg_client_beat_timeout_def gmsg_player_kick_off_def smsg_error_def
  smsg_request_player_list_def cmsg_check_player_name_def cmsg_player_make_def smsg_player_make_def
  cmsg_request_player_list_def cmsg_player_delete_def cmsg_loopback_def cmsg_request_random_name_def
  cmsg_valiation_account_def cmsg_player_beat_def cmsg_player_enter_map_def smsg_create_self_def
  cmsg_player_leave_map_def smsg_player_leave_map_def smsg_player_jump_map_def

end
