(* ===== verification/GateState.thy ===== *)
theory GateState
  imports Opcodes
begin

unbundle bit_operations_syntax

text \<open>
  The gate between the clients and the game servers: its state, and the table of the roles that are in
  a game server (\<^verbatim>\<open>gate/src/gameserver/ManageRoleGsState.cpp\<close>) with the two functions that send packets
  there (\<^verbatim>\<open>RouteGSPacket::handleClientPackage\<close>, \<^verbatim>\<open>RouteClientPackage::roleLogoffSuccess\<close>).

  Sessions are objects on the heap, named by their address; an operation that uses a deleted one
  ends in the fault \<open>Deleted\<close>. \<^verbatim>\<open>ACE_Thread_Mutex\<close> is not recursive: a thread that locks the mutex it
  holds ends in the fault \<open>Blocked\<close>. Bodies are kept as the protobuf messages they parse to. What the gate
  exchanges with its neighbours is the list \<open>gt_log\<close>, oldest first.
\<close>

section \<open>Faults\<close>

datatype gate_fault = Deleted | Blocked

definition and_then :: "gate_fault + 'a \<Rightarrow> ('a \<Rightarrow> gate_fault + 'b) \<Rightarrow> gate_fault + 'b" where
  "and_then x f = (case x of Inl e \<Rightarrow> Inl e | Inr a \<Rightarrow> f a)"

lemma and_then_simps [simp]: "and_then (Inl e) f = Inl e" "and_then (Inr a) f = f a"
  by (simp_all add: and_then_def)

lemma and_then_Inr: "and_then x f = Inr b \<longleftrightarrow> (\<exists>a. x = Inr a \<and> f a = Inr b)"
  by (cases x) simp_all

section \<open>Packets\<close>

text \<open>Of \<^verbatim>\<open>smsg_request_one_player\<close> the name, the profession, the sex and the level are left out.\<close>

record one_player =
  op_guid :: guid
  op_map_id :: u32
  op_line_id :: u32

datatype gate_body =
    Cmsg_validate_account string string
  | Cmsg_player_make string string u32
  | Cmsg_player_enter_map guid u32 "u32 option"
  | Cmsg_player_leave_map int
  | Cmsg_request_player_list string
  | Cmsg_loopback u64 u64
  | Smsg_player_make guid u32 u32
  | Smsg_request_player_list "one_player list"
  | Smsg_player_jump_map u32 u32
  | Gmsg_player_jump_map u32 u32
  | Smsg_error int
  | Body_other "u8 list"

record gpacket =
  gp_opcode :: u16
  gp_guid :: guid
  gp_body :: gate_body
  gp_location :: u64

definition new_gpacket :: "u16 \<Rightarrow> guid \<Rightarrow> gate_body \<Rightarrow> gpacket" where
  "new_gpacket op g body = \<lparr> gp_opcode = op, gp_guid = g, gp_body = body, gp_location = 0 \<rparr>"

section \<open>State\<close>

text \<open>\<^verbatim>\<open>AccountInfo\<close> and \<^verbatim>\<open>ClientSession\<close> of \<^verbatim>\<open>gate/src/client/ClientSession.h\<close>. The states of the account
  are the bits of \<open>cs_account_state\<close>. The fields of the QQ platform, the counters of the output and the
  times are left out. \<open>cs_closed\<close> is the state of the socket and its registration in the reactor.\<close>

definition as_validate_failed :: u32 where "as_validate_failed = 0x2"
definition as_validate_success :: u32 where "as_validate_success = 0x4"
definition as_get_role_list :: u32 where "as_get_role_list = 0x8"
definition as_enter_game :: u32 where "as_enter_game = 0x10"
definition as_not_find_gs :: u32 where "as_not_find_gs = 0x20"
definition as_leave_game :: u32 where "as_leave_game = 0x400"

lemmas account_states = as_validate_failed_def as_validate_success_def as_get_role_list_def
  as_enter_game_def as_not_find_gs_def as_leave_game_def

record account_role =
  ar_guid :: guid
  ar_map_id :: u32
  ar_line_id :: u32

record client_session =
  cs_role_location :: u64
  cs_role_guid :: guid
  cs_account_id :: string
  cs_gm_level :: u32
  cs_account_state :: u32
  cs_real_role_guid :: guid
  cs_roles :: "guid \<rightharpoonup> account_role"
  cs_line_no :: u32
  cs_addiction_flag :: u32
  cs_login_again :: bool
  cs_in_cooler :: bool
  cs_thread :: nat
  cs_client_ip :: string
  cs_closed :: bool

definition new_client_session :: client_session where
  "new_client_session = \<lparr> cs_role_location = 0, cs_role_guid = 0, cs_account_id = [], cs_gm_level = 1,
     cs_account_state = 0, cs_real_role_guid = 0, cs_roles = Map.empty, cs_line_no = 0, cs_addiction_flag = 0,
     cs_login_again = False, cs_in_cooler = False, cs_thread = 0, cs_client_ip = [], cs_closed = False \<rparr>"

definition has_state :: "u32 \<Rightarrow> client_session \<Rightarrow> bool" where
  "has_state st s \<longleftrightarrow> cs_account_state s AND st \<noteq> 0"

definition add_state :: "u32 \<Rightarrow> client_session \<Rightarrow> client_session" where
  "add_state st s = s\<lparr> cs_account_state := cs_account_state s OR st \<rparr>"

text \<open>\<^verbatim>\<open>collectRoleInfo\<close>: the insertion keeps an entry that is there.\<close>

definition player_line_info :: "guid \<Rightarrow> u32 \<Rightarrow> u32 \<Rightarrow> client_session \<Rightarrow> client_session" where
  "player_line_info g map_id line s =
     (if cs_roles s g = None
      then s\<lparr> cs_roles := (cs_roles s)(g \<mapsto> \<lparr> ar_guid = g, ar_map_id = map_id, ar_line_id = line \<rparr>) \<rparr>
      else s)"

definition can_enter_game :: "client_session \<Rightarrow> bool" where
  "can_enter_game s \<longleftrightarrow>
     (if 0 < cs_real_role_guid s then True else has_state as_get_role_list s \<and> \<not> has_state as_enter_game s)"

text \<open>\<^verbatim>\<open>gate/src/gameserver/ManageRoleGsState.h\<close>\<close>

datatype role_gs_state = RGS_ENTER_GAME | RGS_ENTER_GAME_SUCCESS | RGS_LEAVE_GAME | RGS_LEAVE_GAME_SUCCESS

record role_gs =
  rg_state :: role_gs_state
  rg_map_id :: u64
  rg_role_guid :: guid
  rg_offline :: bool

text \<open>\<^verbatim>\<open>ClientAuth\<close> of \<^verbatim>\<open>gate/src/login/ManageClientValidation.h\<close>, without the fields of the QQ platform.\<close>

record client_auth =
  ca_request_index :: u32
  ca_account_id :: string
  ca_addiction_flag :: u32
  ca_network_type :: u32
  ca_session_id :: string
  ca_line_id :: u32
  ca_register_time :: int

datatype login_message =
    Member_login_confirm string u32
  | Member_logoff string u32
  | Gate_login_respond u32 string u32
  | Member_packet gpacket

datatype crossing =
    To_gs nat gpacket
  | From_gs nat gpacket
  | To_role nat gpacket
  | To_client nat gpacket
  | To_login login_message
  | Role_cleaned guid
  | All_roles_cleaned

text \<open>\<open>gt_routes\<close> is \<^verbatim>\<open>m_client_session_map_id_map\<close>, \<open>gt_input\<close> and \<open>gt_output\<close> are the queues of the threads of
  \<^verbatim>\<open>RouteClientPackage\<close>, \<open>gt_cooling\<close> and \<open>gt_cleaned\<close> the two lists of \<^verbatim>\<open>ManageClientSessionCooler\<close>,
  \<open>gt_gs\<close> is \<^verbatim>\<open>m_gs_session_map_id_map\<close>, \<open>gt_gs_maps\<close> the \<^verbatim>\<open>m_map_id\<close> of each game server's session,
  \<open>gt_roles\<close> is \<^verbatim>\<open>m_role_gs_state_map\<close>.\<close>

record gate =
  gt_sessions :: "nat \<rightharpoonup> client_session"
  gt_next :: nat
  gt_temp_guid :: u32
  gt_routes :: "guid \<rightharpoonup> nat"
  gt_thread_index :: nat
  gt_input :: "nat \<Rightarrow> gpacket list"
  gt_output :: "nat \<Rightarrow> gpacket list"
  gt_cooling :: "nat list"
  gt_cleaned :: "nat list"
  gt_auths :: "string \<rightharpoonup> client_auth"
  gt_gs :: "u64 \<rightharpoonup> nat"
  gt_gs_maps :: "nat \<Rightarrow> u64 list"
  gt_gs_shutdown :: "nat list"
  gt_role_sessions :: "nat list"
  gt_roles :: "guid \<rightharpoonup> role_gs"
  gt_log :: "crossing list"

definition new_gate :: gate where
  "new_gate = \<lparr> gt_sessions = Map.empty, gt_next = 0, gt_temp_guid = 0, gt_routes = Map.empty, gt_thread_index = 0,
     gt_input = (\<lambda>_. []), gt_output = (\<lambda>_. []), gt_cooling = [], gt_cleaned = [], gt_auths = Map.empty,
     gt_gs = Map.empty, gt_gs_maps = (\<lambda>_. []), gt_gs_shutdown = [], gt_role_sessions = [], gt_roles = Map.empty,
     gt_log = [] \<rparr>"

definition log_crossing :: "crossing \<Rightarrow> gate \<Rightarrow> gate" where
  "log_crossing x t = t\<lparr> gt_log := gt_log t @ [x] \<rparr>"

text \<open>Reading a session through its address.\<close>

definition deref :: "nat \<Rightarrow> gate \<Rightarrow> gate_fault + client_session" where
  "deref a t = (case gt_sessions t a of None \<Rightarrow> Inl Deleted | Some s \<Rightarrow> Inr s)"

definition set_session :: "nat \<Rightarrow> client_session \<Rightarrow> gate \<Rightarrow> gate" where
  "set_session a s t = t\<lparr> gt_sessions := (gt_sessions t)(a \<mapsto> s) \<rparr>"

section \<open>The roles in the game servers\<close>

definition set_role :: "guid \<Rightarrow> role_gs \<Rightarrow> gate \<Rightarrow> gate" where
  "set_role g r t = t\<lparr> gt_roles := (gt_roles t)(g \<mapsto> r) \<rparr>"

definition can_enter_gs :: "guid \<Rightarrow> gate \<Rightarrow> bool" where
  "can_enter_gs g t \<longleftrightarrow> gt_roles t g = None"

definition can_leave_gs :: "guid \<Rightarrow> gate \<Rightarrow> bool" where
  "can_leave_gs g t =
     (case gt_roles t g of
        None \<Rightarrow> False
      | Some r \<Rightarrow>
          (case rg_state r of
             RGS_ENTER_GAME \<Rightarrow> True
           | RGS_ENTER_GAME_SUCCESS \<Rightarrow> True
           | RGS_LEAVE_GAME \<Rightarrow> False
           | RGS_LEAVE_GAME_SUCCESS \<Rightarrow> False))"

definition leave_gs :: "guid \<Rightarrow> gate \<Rightarrow> gate" where
  "leave_gs g t =
     (case gt_roles t g of
        None \<Rightarrow> t
      | Some r \<Rightarrow>
          (case rg_state r of
             RGS_ENTER_GAME \<Rightarrow> set_role g (r\<lparr> rg_offline := True \<rparr>) t
           | RGS_ENTER_GAME_SUCCESS \<Rightarrow> set_role g (r\<lparr> rg_state := RGS_LEAVE_GAME \<rparr>) t
           | RGS_LEAVE_GAME \<Rightarrow> t
           | RGS_LEAVE_GAME_SUCCESS \<Rightarrow> t))"

text \<open>\<^verbatim>\<open>doLogoff\<close> is called by \<^verbatim>\<open>enterGame\<close>, which holds \<^verbatim>\<open>m_role_gs_state_map_mutex\<close>; the packet that
  \<^verbatim>\<open>sendLogoffMsg\<close> sends leads to \<^verbatim>\<open>canLeaveGame\<close>, which locks it again, when a game server has the map.\<close>

definition do_logoff :: "role_gs \<Rightarrow> gate \<Rightarrow> gate_fault + gate" where
  "do_logoff r t =
     (if \<not> rg_offline r then Inr t
      else (case rg_state r of
              RGS_ENTER_GAME \<Rightarrow> Inr t
            | RGS_ENTER_GAME_SUCCESS \<Rightarrow> (if gt_gs t (rg_map_id r) = None then Inr t else Inl Blocked)
            | RGS_LEAVE_GAME \<Rightarrow> Inr t
            | RGS_LEAVE_GAME_SUCCESS \<Rightarrow> Inr t))"

definition enter_gs :: "guid \<Rightarrow> u64 \<Rightarrow> gate \<Rightarrow> gate_fault + gate" where
  "enter_gs g map_id t =
     (case gt_roles t g of
        None \<Rightarrow> Inr (set_role g \<lparr> rg_state = RGS_ENTER_GAME, rg_map_id = map_id, rg_role_guid = g, rg_offline = False \<rparr> t)
      | Some r \<Rightarrow>
          (let r = r\<lparr> rg_offline := True \<rparr> in
           do_logoff r (set_role g r t)))"

text \<open>\<^verbatim>\<open>RouteGSPacket::handleClientPackage\<close> takes three locks one after the other: to look the game server up, to ask
  whether the role may enter or leave, and to note that it does. What it finds out first, and what it then does, are
  two steps here: another thread may run between them.\<close>

definition check_package :: "gpacket \<Rightarrow> u64 \<Rightarrow> gate \<Rightarrow> (nat \<times> bool) option" where
  "check_package p map_id t =
     (case gt_gs t map_id of
        None \<Rightarrow> None
      | Some gs \<Rightarrow>
          Some (gs,
            if gp_opcode p = cmsg_player_enter_map then can_enter_gs (gp_guid p) t
            else if gp_opcode p = cmsg_player_leave_map then can_leave_gs (gp_guid p) t
            else True))"

definition finish_package :: "gpacket \<Rightarrow> u64 \<Rightarrow> nat \<times> bool \<Rightarrow> gate \<Rightarrow> gate_fault + int \<times> gate" where
  "finish_package p map_id c t =
     (case c of (gs, allowed) \<Rightarrow>
        (if gp_opcode p = cmsg_player_enter_map then
           (if \<not> allowed
            then and_then (enter_gs (gp_guid p) map_id t) (\<lambda>t. Inr (0, t))
            else and_then (enter_gs (gp_guid p) map_id t) (\<lambda>t. Inr (0, log_crossing (To_gs gs p) t)))
         else if gp_opcode p = cmsg_player_leave_map then
           (if \<not> allowed then Inr (0, t)
            else Inr (0, log_crossing (To_gs gs p) (leave_gs (gp_guid p) t)))
         else Inr (0, log_crossing (To_gs gs p) t)))"

text \<open>A packet of which no other thread comes between.\<close>

definition handle_client_package :: "gpacket \<Rightarrow> u64 \<Rightarrow> gate \<Rightarrow> gate_fault + int \<times> gate" where
  "handle_client_package p map_id t =
     (case check_package p map_id t of None \<Rightarrow> Inr (- 1, t) | Some c \<Rightarrow> finish_package p map_id c t)"

lemma handle_client_package_eq:
  "handle_client_package p map_id t =
     (case gt_gs t map_id of
        None \<Rightarrow> Inr (- 1, t)
      | Some gs \<Rightarrow>
          (if gp_opcode p = cmsg_player_enter_map then
             (if \<not> can_enter_gs (gp_guid p) t
              then and_then (enter_gs (gp_guid p) map_id t) (\<lambda>t. Inr (0, t))
              else and_then (enter_gs (gp_guid p) map_id t) (\<lambda>t. Inr (0, log_crossing (To_gs gs p) t)))
           else if gp_opcode p = cmsg_player_leave_map then
             (if \<not> can_leave_gs (gp_guid p) t then Inr (0, t)
              else Inr (0, log_crossing (To_gs gs p) (leave_gs (gp_guid p) t)))
           else Inr (0, log_crossing (To_gs gs p) t)))"
  by (simp add: handle_client_package_def check_package_def finish_package_def split: option.split)

text \<open>Most callers ignore the result.\<close>

definition send_to_gs :: "gpacket \<Rightarrow> u64 \<Rightarrow> gate \<Rightarrow> gate_fault + gate" where
  "send_to_gs p map_id t = and_then (handle_client_package p map_id t) (\<lambda>(r, t). Inr t)"

definition send_logoff_msg :: "guid \<Rightarrow> u64 \<Rightarrow> gate \<Rightarrow> gate_fault + gate" where
  "send_logoff_msg g map_id = send_to_gs (new_gpacket cmsg_player_leave_map g (Body_other [])) map_id"

definition enter_gs_success :: "guid \<Rightarrow> gate \<Rightarrow> gate_fault + gate" where
  "enter_gs_success g t =
     (case gt_roles t g of
        None \<Rightarrow> Inr t
      | Some r \<Rightarrow>
          (if rg_state r = RGS_ENTER_GAME
           then (let t = set_role g (r\<lparr> rg_state := RGS_ENTER_GAME_SUCCESS \<rparr>) t in
                 if rg_offline r then send_logoff_msg g (rg_map_id r) t else Inr t)
           else Inr t))"

text \<open>\<^verbatim>\<open>RouteClientPackage::roleLogoffSuccess\<close>\<close>

definition role_logoff_success :: "guid \<Rightarrow> gate \<Rightarrow> gate_fault + gate" where
  "role_logoff_success g t =
     (case gt_routes t g of
        None \<Rightarrow> Inr t
      | Some a \<Rightarrow>
          and_then (deref a t) (\<lambda>s.
            if has_state as_enter_game s
            then send_to_gs
                   (new_gpacket cmsg_player_enter_map g
                     (Cmsg_player_enter_map g (ucast (cs_role_location s AND 0xFFFFFF)) None))
                   (cs_role_location s) t
            else Inr t))"

definition leave_gs_success :: "guid \<Rightarrow> gate \<Rightarrow> gate_fault + gate" where
  "leave_gs_success g t = role_logoff_success g (t\<lparr> gt_roles := (gt_roles t)(g := None) \<rparr>)"

definition jump_map_success :: "guid \<Rightarrow> u64 \<Rightarrow> gate \<Rightarrow> gate" where
  "jump_map_success g map_id t =
     (case gt_roles t g of None \<Rightarrow> t | Some r \<Rightarrow> set_role g (r\<lparr> rg_map_id := map_id \<rparr>) t)"

definition role_logoff :: "guid \<Rightarrow> gate \<Rightarrow> gate" where
  "role_logoff g t =
     (case gt_roles t g of None \<Rightarrow> t | Some r \<Rightarrow> set_role g (r\<lparr> rg_offline := True \<rparr>) t)"

definition clean_unnormal_player :: "guid \<Rightarrow> gate \<Rightarrow> gate" where
  "clean_unnormal_player g t =
     log_crossing (Role_cleaned g) (t\<lparr> gt_roles := (gt_roles t)(g := None) \<rparr>)"

definition clean_all_player_status :: "gate \<Rightarrow> gate" where
  "clean_all_player_status t = log_crossing All_roles_cleaned (t\<lparr> gt_roles := Map.empty \<rparr>)"

end
