(* ===== verification/Gate.thy ===== *)
theory Gate
  imports GateState
begin

unbundle bit_operations_syntax

text \<open>
  What the gate does with packets: \<^verbatim>\<open>gate/src/client/RouteClientPackage.cpp\<close>, the life of a connection
  (\<^verbatim>\<open>ClientSession.cpp\<close>, \<^verbatim>\<open>ManageClientSessionCooler.cpp\<close>), the log in
  (\<^verbatim>\<open>ManageClientValidation.cpp\<close>), and the packets of the game servers (\<^verbatim>\<open>RouteGSPacket.cpp\<close>,
  \<^verbatim>\<open>GSSession.cpp\<close>). Handlers are taken as atomic, although several threads run them. What is not in
  these files is the configuration: who may connect from where (\<^verbatim>\<open>ManageMasterSession\<close>) and the map a
  copy belongs to (\<^verbatim>\<open>ManageReduplication\<close>). The bytes of the connections, the statistics and the
  thread that checks the beats are left out: a packet it puts is one of the packets of the session.
\<close>

record gate_cfg =
  gc_check_client_auth :: bool
  gc_validation_interval :: int
  gc_threads :: nat
  gc_allowed :: "string \<Rightarrow> string \<Rightarrow> bool"
  gc_map_of :: "u32 \<Rightarrow> u32"

section \<open>Sessions\<close>

definition put_client_session :: "nat \<Rightarrow> gate \<Rightarrow> gate_fault + gate" where
  "put_client_session a t =
     and_then (deref a t) (\<lambda>s.
       if cs_in_cooler s then Inr t
       else (let t = set_session a (s\<lparr> cs_in_cooler := True \<rparr>) t in
             Inr (if a \<in> set (gt_cooling t) then t else t\<lparr> gt_cooling := gt_cooling t @ [a] \<rparr>)))"

definition put_input_packet :: "client_session \<Rightarrow> gpacket \<Rightarrow> gate \<Rightarrow> gate" where
  "put_input_packet s p t = t\<lparr> gt_input := (gt_input t)(cs_thread s := gt_input t (cs_thread s) @ [p]) \<rparr>"

definition put_output_packet :: "client_session \<Rightarrow> gpacket \<Rightarrow> gate \<Rightarrow> gate" where
  "put_output_packet s p t = t\<lparr> gt_output := (gt_output t)(cs_thread s := gt_output t (cs_thread s) @ [p]) \<rparr>"

definition put_output_package :: "gpacket \<Rightarrow> gate \<Rightarrow> gate_fault + gate" where
  "put_output_package p t =
     (case gt_routes t (gp_guid p) of
        None \<Rightarrow> Inr t
      | Some a \<Rightarrow> and_then (deref a t) (\<lambda>s. Inr (put_output_packet s p t)))"

definition send_client :: "nat \<Rightarrow> gpacket \<Rightarrow> gate \<Rightarrow> gate" where
  "send_client a p = log_crossing (To_client a p)"

definition send_role :: "gpacket \<Rightarrow> gate \<Rightarrow> gate" where
  "send_role p t = (case gt_role_sessions t of [] \<Rightarrow> t | r # _ \<Rightarrow> log_crossing (To_role r p) t)"

definition send_client_error_info :: "nat \<Rightarrow> client_session \<Rightarrow> int \<Rightarrow> gate \<Rightarrow> gate" where
  "send_client_error_info a s code = send_client a (new_gpacket smsg_error (cs_role_guid s) (Smsg_error code))"

text \<open>\<^verbatim>\<open>Header::getTempGuid\<close>\<close>

definition get_temp_guid :: "gate \<Rightarrow> u32 \<times> gate" where
  "get_temp_guid t = (let n = (gt_temp_guid t + 1) mod 0xFFFFFFF in (n, t\<lparr> gt_temp_guid := n \<rparr>))"

text \<open>\<^verbatim>\<open>collectRoleClientSession\<close>: the session is given the guid and the route.\<close>

definition collect_role_client_session :: "guid \<Rightarrow> nat \<Rightarrow> gate \<Rightarrow> gate_fault + gate" where
  "collect_role_client_session g a t =
     and_then (deref a t) (\<lambda>s.
       let t = set_session a (s\<lparr> cs_role_guid := g \<rparr>) t in
       case gt_routes t g of
         None \<Rightarrow> Inr (t\<lparr> gt_routes := (gt_routes t)(g \<mapsto> a) \<rparr>)
       | Some b \<Rightarrow>
           and_then (deref b t) (\<lambda>old.
             and_then (put_client_session b (set_session b (old\<lparr> cs_login_again := True \<rparr>) t)) (\<lambda>t.
               Inr (t\<lparr> gt_routes := (gt_routes t)(g \<mapsto> a) \<rparr>))))"

definition assign_client_thread :: "gate_cfg \<Rightarrow> nat \<Rightarrow> gate \<Rightarrow> gate_fault + gate" where
  "assign_client_thread cfg a t =
     (let n = (gt_thread_index t + 1) mod gc_threads cfg; t = t\<lparr> gt_thread_index := n \<rparr> in
      and_then (deref a t) (\<lambda>s. Inr (set_session a (s\<lparr> cs_thread := n \<rparr>) t)))"

text \<open>The constructor and \<^verbatim>\<open>open\<close>.\<close>

definition client_open :: "gate_cfg \<Rightarrow> string \<Rightarrow> gate \<Rightarrow> gate_fault + gate" where
  "client_open cfg ip t =
     (let a = gt_next t;
          t = set_session a (new_client_session\<lparr> cs_client_ip := ip \<rparr>) (t\<lparr> gt_next := a + 1 \<rparr>);
          (g, t) = get_temp_guid t in
      and_then (collect_role_client_session (ucast g) a t) (assign_client_thread cfg a))"

definition remove_role_client_session :: "guid \<Rightarrow> nat \<Rightarrow> gate \<Rightarrow> gate" where
  "remove_role_client_session g a t =
     (if gt_routes t g = Some a then t\<lparr> gt_routes := (gt_routes t)(g := None) \<rparr> else t)"

definition account_logout :: "client_session \<Rightarrow> gate \<Rightarrow> gate" where
  "account_logout s = log_crossing (To_login (Member_logoff (cs_account_id s) (cs_line_no s)))"

text \<open>\<^verbatim>\<open>ClientSession::handle_close\<close>\<close>

definition handle_close :: "nat \<Rightarrow> gate \<Rightarrow> gate_fault + gate" where
  "handle_close a t =
     and_then (deref a t) (\<lambda>s.
       let t = set_session a (s\<lparr> cs_closed := True \<rparr>) t in
       if \<not> cs_login_again s then
         and_then
           (if has_state as_enter_game s \<and> \<not> has_state as_leave_game s
            then send_to_gs
                   (new_gpacket cmsg_player_leave_map
                     (if cs_real_role_guid s \<noteq> 0 then cs_real_role_guid s else cs_role_guid s) (Cmsg_player_leave_map 1))
                   (cs_role_location s) t
            else Inr t)
           (\<lambda>t. Inr (account_logout s (remove_role_client_session (cs_role_guid s) a t)))
       else Inr (if cs_role_guid s < 0xFFFFFFFF then remove_role_client_session (cs_role_guid s) a t else t))"

text \<open>A round of the cooler's thread: the sessions put are closed, once each.\<close>

primrec clean_sessions :: "nat list \<Rightarrow> gate \<Rightarrow> gate_fault + gate" where
  "clean_sessions [] t = Inr t"
| "clean_sessions (a # as) t =
     (if a \<in> set (gt_cleaned t) then clean_sessions as t
      else and_then (handle_close a t) (\<lambda>t. clean_sessions as (t\<lparr> gt_cleaned := gt_cleaned t @ [a] \<rparr>)))"

definition cool_sessions :: "gate \<Rightarrow> gate_fault + gate" where
  "cool_sessions t =
     (let as = filter (\<lambda>a. a \<notin> set (gt_cleaned t)) (gt_cooling t) in
      clean_sessions as (t\<lparr> gt_cooling := [] \<rparr>))"

text \<open>A closed session whose time is over is deleted.\<close>

definition delete_session :: "nat \<Rightarrow> gate \<Rightarrow> gate" where
  "delete_session a t =
     (if a \<in> set (gt_cleaned t)
      then t\<lparr> gt_cleaned := remove1 a (gt_cleaned t), gt_sessions := (gt_sessions t)(a := None) \<rparr> else t)"

section \<open>Routes\<close>

definition change_client_route :: "nat \<Rightarrow> guid \<Rightarrow> guid \<Rightarrow> gate \<Rightarrow> gate_fault + gate" where
  "change_client_route a temp g t =
     and_then (deref a t) (\<lambda>s.
       let t = set_session a (s\<lparr> cs_role_guid := g \<rparr>) t;
           t = t\<lparr> gt_routes := (gt_routes t)(temp := None) \<rparr> in
       case gt_routes t g of
         Some b \<Rightarrow> put_client_session b t
       | None \<Rightarrow> Inr (t\<lparr> gt_routes := (gt_routes t)(g \<mapsto> a) \<rparr>))"

definition role_leave_map :: "guid \<Rightarrow> u64 \<Rightarrow> gate \<Rightarrow> gate_fault + gate" where
  "role_leave_map g = send_to_gs (new_gpacket cmsg_player_leave_map g (Cmsg_player_leave_map 0))"

definition clean_role_info :: "guid \<Rightarrow> gate \<Rightarrow> gate_fault + gate" where
  "clean_role_info g t =
     (case gt_routes t g of
        None \<Rightarrow> Inr t
      | Some a \<Rightarrow>
          and_then (deref a t) (\<lambda>s.
            and_then (role_leave_map g (cs_role_location s) (t\<lparr> gt_routes := (gt_routes t)(g := None) \<rparr>)) (\<lambda>t.
              put_client_session a (set_session a (add_state as_leave_game s) t))))"

definition clean_role_and_logoff :: "guid \<Rightarrow> gate \<Rightarrow> gate_fault + gate" where
  "clean_role_and_logoff g t =
     (case gt_routes t g of
        None \<Rightarrow> Inr t
      | Some a \<Rightarrow>
          and_then (deref a t) (\<lambda>s.
            and_then (role_leave_map g (cs_role_location s) (t\<lparr> gt_routes := (gt_routes t)(g := None) \<rparr>)) (\<lambda>t.
              put_client_session a (set_session a (add_state as_leave_game s) t))))"

definition not_find_gs :: "guid \<Rightarrow> gate \<Rightarrow> gate_fault + gate" where
  "not_find_gs g t =
     (case gt_routes t g of
        None \<Rightarrow> Inr t
      | Some a \<Rightarrow>
          and_then (deref a t) (\<lambda>s. put_client_session a (set_session a (add_state as_not_find_gs s) t)))"

text \<open>The macro \<^verbatim>\<open>MAKE_MAP_GUID\<close> of the gate; the line is not used.\<close>

definition gate_map_guid :: "u32 \<Rightarrow> u64" where
  "gate_map_guid map_id = make_guid 0xC 15 (ucast map_id)"

definition client_enter_map :: "guid \<Rightarrow> guid \<Rightarrow> bool \<Rightarrow> gate \<Rightarrow> gate_fault + gate" where
  "client_enter_map client g make_route t =
     (case gt_routes t client of
        None \<Rightarrow> Inr t
      | Some a \<Rightarrow>
          and_then (deref a t) (\<lambda>s.
            case cs_roles s g of
              None \<Rightarrow> put_client_session a t
            | Some r \<Rightarrow>
                and_then (if make_route then change_client_route a (cs_role_guid s) g t else Inr t) (\<lambda>t.
                and_then (deref a t) (\<lambda>s.
                  let location = gate_map_guid (ar_map_id r);
                      t = set_session a (s\<lparr> cs_line_no := ar_line_id r, cs_role_location := location \<rparr>) t;
                      p = new_gpacket cmsg_player_enter_map g
                            (Cmsg_player_enter_map (ar_guid r) (ucast location) (Some (ar_line_id r))) in
                  and_then (handle_client_package p location t) (\<lambda>(hr, t).
                    if hr = - 1 then not_find_gs client t
                    else and_then (deref a t) (\<lambda>s. Inr (set_session a (add_state as_enter_game s) t)))))))"

section \<open>Packets of clients\<close>

text \<open>\<^verbatim>\<open>validateClientSession\<close>; without the check every key is valid, for line 1.\<close>

definition default_client_auth :: client_auth where
  "default_client_auth = \<lparr> ca_request_index = 1, ca_account_id = [], ca_addiction_flag = 1, ca_network_type = 1,
     ca_session_id = ''SEK_TEST'', ca_line_id = 1, ca_register_time = 0 \<rparr>"

definition validate_client_session :: "gate_cfg \<Rightarrow> int \<Rightarrow> string \<Rightarrow> gate \<Rightarrow> client_auth option \<times> gate" where
  "validate_client_session cfg now session_id t =
     (if \<not> gc_check_client_auth cfg then (Some default_client_auth, t)
      else (case gt_auths t session_id of
              None \<Rightarrow> (None, t)
            | Some ca \<Rightarrow>
                (if session_id = ca_session_id ca \<and> now - ca_register_time ca \<le> gc_validation_interval cfg
                 then (Some ca, t)
                 else (None, t\<lparr> gt_auths := (gt_auths t)(session_id := None) \<rparr>))))"

definition handle_validation_account :: "gate_cfg \<Rightarrow> int \<Rightarrow> gpacket \<Rightarrow> gate \<Rightarrow> gate_fault + gate" where
  "handle_validation_account cfg now p t =
     (case gt_routes t (gp_guid p) of
        None \<Rightarrow> Inr t
      | Some a \<Rightarrow>
          and_then (deref a t) (\<lambda>s.
            case gp_body p of
              Cmsg_validate_account account session_id \<Rightarrow>
                (case validate_client_session cfg now session_id t of
                   (Some ca, t) \<Rightarrow>
                     (if gc_allowed cfg account (cs_client_ip s)
                      then (let s = add_state as_validate_success (s\<lparr> cs_account_id := account \<rparr>);
                                s = s\<lparr> cs_line_no := ca_line_id ca, cs_addiction_flag := ca_addiction_flag ca \<rparr>;
                                t = set_session a s t;
                                t = log_crossing (To_login (Member_login_confirm account (cs_line_no s))) t in
                            Inr (send_role (new_gpacket cmsg_request_player_list (gp_guid p)
                                   (Cmsg_request_player_list account)) t))
                      else put_client_session a t)
                 | (None, t) \<Rightarrow> put_client_session a (send_client_error_info a s 1 t))
            | _ \<Rightarrow> put_client_session a (send_client_error_info a s 1 t)))"

definition handle_player_make :: "gpacket \<Rightarrow> gate \<Rightarrow> gate_fault + gate" where
  "handle_player_make p t =
     (case gp_body p of
        Cmsg_player_make account name gm_level \<Rightarrow>
          (case gt_routes t (gp_guid p) of
             None \<Rightarrow> Inr t
           | Some a \<Rightarrow>
               and_then (deref a t) (\<lambda>s.
                 Inr (send_role (new_gpacket (gp_opcode p) (gp_guid p)
                   (Cmsg_player_make (cs_account_id s) name (cs_gm_level s))) t)))
      | _ \<Rightarrow> Inr t)"

definition handle_enter_map :: "gpacket \<Rightarrow> gate \<Rightarrow> gate_fault + gate" where
  "handle_enter_map p t =
     (case gt_routes t (gp_guid p) of
        None \<Rightarrow> Inr t
      | Some a \<Rightarrow>
          and_then (deref a t) (\<lambda>s.
            if \<not> can_enter_game s then Inr t
            else (case gp_body p of
                    Cmsg_player_enter_map g map_id line \<Rightarrow>
                      and_then (clean_role_and_logoff g t) (client_enter_map (gp_guid p) g True)
                  | _ \<Rightarrow> Inr t)))"

definition handle_cmsg_loopback :: "u64 \<Rightarrow> gpacket \<Rightarrow> gate \<Rightarrow> gate_fault + gate" where
  "handle_cmsg_loopback usec p t =
     (case gt_routes t (gp_guid p) of
        None \<Rightarrow> Inr t
      | Some a \<Rightarrow>
          and_then (deref a t) (\<lambda>s.
            case gp_body p of
              Cmsg_loopback sent elapse \<Rightarrow>
                send_to_gs ((new_gpacket (gp_opcode p) (gp_guid p) (Cmsg_loopback sent usec))
                    \<lparr> gp_location := cs_role_location s \<rparr>) (cs_role_location s) t
            | _ \<Rightarrow> Inr t))"

text \<open>\<^verbatim>\<open>handleRoleLogout\<close> and the handlers of the errors of a connection do the same.\<close>

definition handle_role_logout :: "gpacket \<Rightarrow> gate \<Rightarrow> gate_fault + gate" where
  "handle_role_logout p t =
     (case gt_routes t (gp_guid p) of None \<Rightarrow> Inr t | Some a \<Rightarrow> put_client_session a t)"

definition handle_input_package :: "gate_cfg \<Rightarrow> int \<Rightarrow> gpacket \<Rightarrow> gate \<Rightarrow> gate_fault + gate" where
  "handle_input_package cfg now p t =
     (let op = gp_opcode p in
      if op < 900 then Inr t
      else if op = cmsg_valiation_account then handle_validation_account cfg now p t
      else if op = cmsg_check_player_name then Inr (send_role p t)
      else if op = cmsg_player_make then handle_player_make p t
      else if op = cmsg_request_random_name then Inr (send_role p t)
      else if op = cmsg_player_delete then Inr t
      else if op = cmsg_player_enter_map then handle_enter_map p t
      else if op = cmsg_request_player_list then Inr (send_role p t)
      else if op = cmsg_loopback then handle_cmsg_loopback (word_of_int now * 1000000) p t
      else if op = cmsg_player_beat then Inr t
      else if op \<in> {cmsg_player_leave_map, gmsg_client_read_error, gmsg_client_write_error,
                    gmsg_client_wobble, gmsg_client_beat_timeout} then handle_role_logout p t
      else and_then (handle_client_package p (gp_location p) t) (\<lambda>(hr, t).
             if hr = - 1 then not_find_gs (gp_guid p) t else Inr t))"

section \<open>Packets for clients\<close>

definition handle_smsg_player_make :: "gpacket \<Rightarrow> gate \<Rightarrow> gate_fault + gate" where
  "handle_smsg_player_make p t =
     (case gt_routes t (gp_guid p) of
        None \<Rightarrow> Inr t
      | Some a \<Rightarrow>
          and_then (deref a t) (\<lambda>s.
            case gp_body p of
              Smsg_player_make g map_id line \<Rightarrow>
                Inr (send_client a p (set_session a (player_line_info g map_id line (add_state as_get_role_list s)) t))
            | _ \<Rightarrow> Inr t))"

text \<open>The player of the session's line, or the first one.\<close>

definition available_player :: "u32 \<Rightarrow> one_player list \<Rightarrow> one_player option" where
  "available_player line ps =
     (case find (\<lambda>q. op_line_id q = line) ps of
        Some q \<Rightarrow> Some q
      | None \<Rightarrow> (case ps of [] \<Rightarrow> None | q # _ \<Rightarrow> Some q))"

definition handle_smsg_request_player_list :: "gate_cfg \<Rightarrow> gpacket \<Rightarrow> gate \<Rightarrow> gate_fault + gate" where
  "handle_smsg_request_player_list cfg p t =
     (case gt_routes t (gp_guid p) of
        None \<Rightarrow> Inr t
      | Some a \<Rightarrow>
          and_then (deref a t) (\<lambda>s.
            case gp_body p of
              Smsg_request_player_list ps \<Rightarrow>
                (let s = add_state as_get_role_list s in
                 case available_player (cs_line_no s) ps of
                   None \<Rightarrow>
                     Inr (send_client a (new_gpacket (gp_opcode p) (gp_guid p) (Smsg_request_player_list []))
                       (set_session a s t))
                 | Some q \<Rightarrow>
                     (let map_id = gc_map_of cfg (op_map_id q);
                          shown = q\<lparr> op_map_id := (if op_map_id q > 99999 then op_map_id q div 1000 else map_id) \<rparr> in
                      Inr (send_client a (new_gpacket (gp_opcode p) (gp_guid p) (Smsg_request_player_list [shown]))
                        (set_session a (player_line_info (op_guid q) map_id (op_line_id q) s) t))))
            | _ \<Rightarrow> Inr t))"

definition handle_player_jump_map :: "gpacket \<Rightarrow> gate \<Rightarrow> gate_fault + gate" where
  "handle_player_jump_map p t =
     (case gp_body p of
        Smsg_player_jump_map target line \<Rightarrow>
          (case gt_gs t (gate_map_guid target) of
             None \<Rightarrow> Inr t
           | Some gs \<Rightarrow>
               (let jump = new_gpacket gmsg_player_jump_map (gp_guid p) (Gmsg_player_jump_map target line) in
                case gt_routes t (gp_guid p) of
                  Some a \<Rightarrow>
                    and_then (deref a t) (\<lambda>s.
                      let t = set_session a (s\<lparr> cs_role_location := gate_map_guid target \<rparr>) t in
                      Inr (send_client a p (log_crossing (To_gs gs jump) t)))
                | None \<Rightarrow>
                    Inr (log_crossing (To_gs gs (new_gpacket cmsg_player_leave_map (gp_guid p) (Cmsg_player_leave_map 0)))
                      (log_crossing (To_gs gs jump) t))))
      | _ \<Rightarrow> Inr t)"

definition handle_smsg_loopback :: "u64 \<Rightarrow> gpacket \<Rightarrow> gate \<Rightarrow> gate_fault + gate" where
  "handle_smsg_loopback usec p t =
     (case gt_routes t (gp_guid p) of
        None \<Rightarrow> Inr t
      | Some a \<Rightarrow>
          and_then (deref a t) (\<lambda>s.
            case gp_body p of
              Cmsg_loopback sent elapse \<Rightarrow>
                Inr (send_client a ((new_gpacket (gp_opcode p) (gp_guid p) (Cmsg_loopback sent (usec - elapse)))
                    \<lparr> gp_location := cs_role_location s \<rparr>) t)
            | _ \<Rightarrow> Inr t))"

definition handle_output_package :: "gate_cfg \<Rightarrow> int \<Rightarrow> gpacket \<Rightarrow> gate \<Rightarrow> gate_fault + gate" where
  "handle_output_package cfg now p t =
     (let op = gp_opcode p in
      if op = smsg_player_make then handle_smsg_player_make p t
      else if op = smsg_request_player_list then handle_smsg_request_player_list cfg p t
      else if op = smsg_player_jump_map then handle_player_jump_map p t
      else if op = cmsg_loopback then handle_smsg_loopback (word_of_int now * 1000000) p t
      else if op = gmsg_player_kick_off then handle_role_logout p t
      else if op = smsg_player_leave_map then Inr t
      else (case gt_routes t (gp_guid p) of
              None \<Rightarrow> Inr t
            | Some a \<Rightarrow> and_then (deref a t) (\<lambda>s. Inr (send_client a p t))))"

section \<open>Game servers and the member server\<close>

text \<open>\<^verbatim>\<open>handleRegisterMapID\<close>: a second server for a map is put in the cooler of the game servers.\<close>

definition register_gs :: "u64 \<Rightarrow> nat \<Rightarrow> gate \<Rightarrow> gate" where
  "register_gs map_id gs t =
     (if gt_gs t map_id \<noteq> None then t
      else t\<lparr> gt_gs := (gt_gs t)(map_id \<mapsto> gs), gt_gs_maps := (gt_gs_maps t)(gs := gt_gs_maps t gs @ [map_id]) \<rparr>)"

text \<open>\<^verbatim>\<open>RouteGSPacket::putPackage\<close>. A registration is the event \<open>Gs_registers\<close>, so nothing is done here; the
  confirmations for the member server are passed on, they are taken as well formed.\<close>

definition smsg_member_charge_confirm :: u16 where "smsg_member_charge_confirm = 705"
definition smsg_member_give_gift :: u16 where "smsg_member_give_gift = 714"
definition stog_query_qq_vip_info :: u16 where "stog_query_qq_vip_info = 9000"
definition stog_query_qq_app_friends :: u16 where "stog_query_qq_app_friends = 9002"

lemmas server_opcodes = gcmsg_register_def smsg_member_charge_confirm_def smsg_member_give_gift_def
  stog_query_qq_vip_info_def stog_query_qq_app_friends_def

definition gs_packet :: "nat \<Rightarrow> gpacket \<Rightarrow> gate \<Rightarrow> gate_fault + gate" where
  "gs_packet gs p t =
     (let op = gp_opcode p; t = log_crossing (From_gs gs p) t in
      if op = gcmsg_register then Inr t
      else if op \<in> {smsg_member_charge_confirm, smsg_member_give_gift} then
        Inr (log_crossing (To_login (Member_packet p)) t)
      else if op \<in> {stog_query_qq_vip_info, stog_query_qq_app_friends} then Inr t
      else and_then
        (if op = smsg_create_self then enter_gs_success (gp_guid p) t
         else if op = smsg_player_jump_map then
           (case gp_body p of
              Smsg_player_jump_map target line \<Rightarrow> Inr (jump_map_success (gp_guid p) (gate_map_guid target) t)
            | _ \<Rightarrow> Inr t)
         else if op = smsg_player_leave_map then leave_gs_success (gp_guid p) t
         else Inr t)
        (put_output_package p))"

text \<open>\<^verbatim>\<open>GSSession::handle_close\<close>; \<open>online\<close> is the list of sessions the beat thread keeps at that moment.\<close>

primrec close_clients :: "u64 \<Rightarrow> nat list \<Rightarrow> gate \<Rightarrow> gate_fault + gate" where
  "close_clients map_id [] t = Inr t"
| "close_clients map_id (a # as) t =
     and_then (deref a t) (\<lambda>s.
       if cs_role_location s = map_id
       then and_then (put_client_session a (set_session a (add_state as_not_find_gs s) t)) (close_clients map_id as)
       else close_clients map_id as t)"

primrec close_clients_of :: "u64 list \<Rightarrow> nat list \<Rightarrow> gate \<Rightarrow> gate_fault + gate" where
  "close_clients_of [] online t = Inr t"
| "close_clients_of (m # ms) online t = and_then (close_clients m online t) (close_clients_of ms online)"

definition remove_gs_map :: "u64 \<Rightarrow> gate \<Rightarrow> gate" where
  "remove_gs_map map_id t = t\<lparr> gt_gs := (gt_gs t)(map_id := None) \<rparr>"

definition gs_closed :: "nat \<Rightarrow> nat list \<Rightarrow> gate \<Rightarrow> gate_fault + gate" where
  "gs_closed gs online t =
     (if gs \<in> set (gt_gs_shutdown t) then Inr t
      else and_then (close_clients_of (gt_gs_maps t gs) online (t\<lparr> gt_gs_shutdown := gs # gt_gs_shutdown t \<rparr>))
             (\<lambda>t. Inr (fold remove_gs_map (gt_gs_maps t gs) t)))"

text \<open>\<^verbatim>\<open>registerClientAuth\<close> and \<^verbatim>\<open>respondMemberLogin\<close>\<close>

definition member_login :: "client_auth \<Rightarrow> gate \<Rightarrow> gate" where
  "member_login ca t =
     log_crossing (To_login (Gate_login_respond (ca_request_index ca) (ca_account_id ca) (ca_network_type ca)))
       (t\<lparr> gt_auths := (gt_auths t)(ca_session_id ca \<mapsto> ca) \<rparr>)"

definition clean_gate_unnormal_player :: "guid \<Rightarrow> gate \<Rightarrow> gate_fault + gate" where
  "clean_gate_unnormal_player g t = and_then (clean_role_info g t) (\<lambda>t. Inr (clean_unnormal_player g t))"

section \<open>The gate as a machine\<close>

datatype gate_event =
    Client_connects string
  | Client_sends nat u16 gate_body
  | Handle_input nat int
  | Handle_output nat int
  | Cool_sessions
  | Session_expires nat
  | Role_connects nat
  | Role_closes nat
  | Role_packet gpacket
  | Gs_registers nat u64
  | Gs_packet nat gpacket
  | Gs_closes nat "nat list"
  | Gs_stream_fails
  | Member_login client_auth
  | Clean_player guid

text \<open>A packet is marked with the guid and the location its session has when it is read; a closed connection
  gives no packets.\<close>

definition client_sends :: "nat \<Rightarrow> u16 \<Rightarrow> gate_body \<Rightarrow> gate \<Rightarrow> gate" where
  "client_sends a op body t =
     (case gt_sessions t a of
        None \<Rightarrow> t
      | Some s \<Rightarrow>
          (if cs_closed s then t
           else put_input_packet s
             \<lparr> gp_opcode = op, gp_guid = cs_role_guid s, gp_body = body, gp_location = cs_role_location s \<rparr> t))"

definition handle_input :: "gate_cfg \<Rightarrow> nat \<Rightarrow> int \<Rightarrow> gate \<Rightarrow> gate_fault + gate" where
  "handle_input cfg i now t =
     (case gt_input t i of
        [] \<Rightarrow> Inr t
      | p # ps \<Rightarrow> handle_input_package cfg now p (t\<lparr> gt_input := (gt_input t)(i := ps) \<rparr>))"

definition handle_output :: "gate_cfg \<Rightarrow> nat \<Rightarrow> int \<Rightarrow> gate \<Rightarrow> gate_fault + gate" where
  "handle_output cfg i now t =
     (case gt_output t i of
        [] \<Rightarrow> Inr t
      | p # ps \<Rightarrow> handle_output_package cfg now p (t\<lparr> gt_output := (gt_output t)(i := ps) \<rparr>))"

definition do_gate_event :: "gate_cfg \<Rightarrow> gate_event \<Rightarrow> gate \<Rightarrow> gate_fault + gate" where
  "do_gate_event cfg e t =
     (case e of
        Client_connects ip \<Rightarrow> client_open cfg ip t
      | Client_sends a op body \<Rightarrow> Inr (client_sends a op body t)
      | Handle_input i now \<Rightarrow> handle_input cfg i now t
      | Handle_output i now \<Rightarrow> handle_output cfg i now t
      | Cool_sessions \<Rightarrow> cool_sessions t
      | Session_expires a \<Rightarrow> Inr (delete_session a t)
      | Role_connects r \<Rightarrow> Inr (t\<lparr> gt_role_sessions := gt_role_sessions t @ [r] \<rparr>)
      | Role_closes r \<Rightarrow> Inr (t\<lparr> gt_role_sessions := remove1 r (gt_role_sessions t) \<rparr>)
      | Role_packet p \<Rightarrow> put_output_package p t
      | Gs_registers gs map_id \<Rightarrow> Inr (register_gs map_id gs t)
      | Gs_packet gs p \<Rightarrow> gs_packet gs p t
      | Gs_closes gs online \<Rightarrow> gs_closed gs online t
      | Gs_stream_fails \<Rightarrow> Inr (clean_all_player_status t)
      | Member_login ca \<Rightarrow> Inr (member_login ca t)
      | Clean_player g \<Rightarrow> clean_gate_unnormal_player g t)"

definition gate_step :: "gate_cfg \<Rightarrow> gate_event \<Rightarrow> gate_fault + gate \<Rightarrow> gate_fault + gate" where
  "gate_step cfg e x = and_then x (do_gate_event cfg e)"

end
