(* ===== verification/GateSafe.thy ===== *)
theory GateSafe
  imports Gate
begin

text \<open>
  The invariant of the gate's sessions: no operation uses a deleted session, a route leads to an open
  session that carries the routed guid, and a session carries only its temporary guid or a role the role server
  listed for it.
\<close>

section \<open>Results\<close>

text \<open>\<open>result b P x\<close>: \<open>x\<close> is a state with \<open>P\<close>, or, when \<open>b\<close>, the thread blocks itself.\<close>

definition result :: "bool \<Rightarrow> ('a \<Rightarrow> bool) \<Rightarrow> gate_fault + 'a \<Rightarrow> bool" where
  "result b P x = (case x of Inl e \<Rightarrow> b \<and> e = Blocked | Inr t \<Rightarrow> P t)"

lemma result_simps [simp]:
  "result b P (Inr t) = P t" "result b P (Inl Blocked) = b" "result b P (Inl Deleted) = False"
  by (simp_all add: result_def)

lemma result_and_then:
  assumes "result b P x" "\<And>t. P t \<Longrightarrow> result b Q (f t)"
  shows "result b Q (and_then x f)"
  using assms by (cases x) (auto simp: result_def)

lemma result_mono: "result b P x \<Longrightarrow> (\<And>t. P t \<Longrightarrow> Q t) \<Longrightarrow> result b Q x"
  by (cases x) (auto simp: result_def)

lemma result_if:
  "(c \<Longrightarrow> result b P x) \<Longrightarrow> (\<not> c \<Longrightarrow> result b P y) \<Longrightarrow> result b P (if c then x else y)"
  by simp

lemma deref_Inr: "deref a t = Inr s \<longleftrightarrow> gt_sessions t a = Some s"
  by (simp add: deref_def split: option.splits)

lemma result_deref:
  assumes "gt_sessions t a = Some s" "result b Q (f s)"
  shows "result b Q (and_then (deref a t) f)"
  using assms by (simp add: deref_def)

section \<open>The invariant\<close>

definition temporary :: "guid \<Rightarrow> bool" where "temporary g \<longleftrightarrow> g < 0xFFFFFFF"

definition session_ok :: "bool \<Rightarrow> client_session \<Rightarrow> bool" where
  "session_ok cleaned s \<longleftrightarrow> cs_real_role_guid s = 0 \<and> cs_closed s = cleaned \<and>
     (cs_login_again s \<longrightarrow> temporary (cs_role_guid s)) \<and>
     (temporary (cs_role_guid s) \<or> cs_role_guid s \<in> dom (cs_roles s))"

definition routed_ok :: "guid \<Rightarrow> client_session \<Rightarrow> bool" where
  "routed_ok g s \<longleftrightarrow> cs_role_guid s = g \<and> \<not> cs_closed s \<and> \<not> cs_login_again s \<and> \<not> has_state as_leave_game s"

definition sessions_ok :: "gate \<Rightarrow> bool" where
  "sessions_ok t \<longleftrightarrow> (\<forall>a \<ge> gt_next t. gt_sessions t a = None) \<and>
     (\<forall>a s. gt_sessions t a = Some s \<longrightarrow> session_ok (a \<in> set (gt_cleaned t)) s) \<and>
     (\<forall>g a. gt_routes t g = Some a \<longrightarrow> (\<exists>s. gt_sessions t a = Some s \<and> routed_ok g s)) \<and>
     (\<forall>a \<in> set (gt_cooling t). \<exists>s. gt_sessions t a = Some s \<and> cs_in_cooler s \<and> a \<notin> set (gt_cleaned t)) \<and>
     (\<forall>a \<in> set (gt_cleaned t). \<exists>s. gt_sessions t a = Some s \<and> cs_in_cooler s) \<and>
     distinct (gt_cleaned t)"

lemma sessions_okI:
  assumes "\<And>a. gt_next t \<le> a \<Longrightarrow> gt_sessions t a = None"
    and "\<And>a s. gt_sessions t a = Some s \<Longrightarrow> session_ok (a \<in> set (gt_cleaned t)) s"
    and "\<And>g a. gt_routes t g = Some a \<Longrightarrow> \<exists>s. gt_sessions t a = Some s \<and> routed_ok g s"
    and "\<And>a. a \<in> set (gt_cooling t) \<Longrightarrow> \<exists>s. gt_sessions t a = Some s \<and> cs_in_cooler s \<and> a \<notin> set (gt_cleaned t)"
    and "\<And>a. a \<in> set (gt_cleaned t) \<Longrightarrow> \<exists>s. gt_sessions t a = Some s \<and> cs_in_cooler s"
    and "distinct (gt_cleaned t)"
  shows "sessions_ok t"
  using assms unfolding sessions_ok_def by blast

lemma sessions_okD:
  assumes "sessions_ok t"
  shows "gt_next t \<le> a \<Longrightarrow> gt_sessions t a = None"
    "gt_sessions t a = Some s \<Longrightarrow> session_ok (a \<in> set (gt_cleaned t)) s"
    "gt_routes t g = Some a \<Longrightarrow> \<exists>s. gt_sessions t a = Some s \<and> routed_ok g s"
    "a \<in> set (gt_cooling t) \<Longrightarrow> \<exists>s. gt_sessions t a = Some s \<and> cs_in_cooler s \<and> a \<notin> set (gt_cleaned t)"
    "a \<in> set (gt_cleaned t) \<Longrightarrow> \<exists>s. gt_sessions t a = Some s \<and> cs_in_cooler s"
    "distinct (gt_cleaned t)"
  using assms unfolding sessions_ok_def by blast+

lemma sessions_ok_route:
  assumes "sessions_ok t" "gt_routes t g = Some a"
  obtains s where "gt_sessions t a = Some s" "routed_ok g s"
  using sessions_okD(3) [OF assms] by blast

lemma route_inj:
  assumes "sessions_ok t" "gt_routes t g = Some a" "gt_routes t h = Some a"
  shows "g = h"
  using sessions_okD(3) [OF assms(1,2)] sessions_okD(3) [OF assms(1,3)] by (auto simp: routed_ok_def)

text \<open>What the invariant reads.\<close>

definition same_sessions :: "gate \<Rightarrow> gate \<Rightarrow> bool" where
  "same_sessions t u \<longleftrightarrow> gt_sessions u = gt_sessions t \<and> gt_next u = gt_next t \<and> gt_routes u = gt_routes t \<and>
     gt_cooling u = gt_cooling t \<and> gt_cleaned u = gt_cleaned t"

lemma same_sessions_refl [simp]: "same_sessions t t"
  by (simp add: same_sessions_def)

lemma same_sessions_ok: "same_sessions t u \<Longrightarrow> sessions_ok u = sessions_ok t"
  by (simp add: same_sessions_def sessions_ok_def)

lemma same_sessions_simps [simp]:
  "same_sessions t (log_crossing x u) = same_sessions t u"
  "same_sessions t (set_role g r u) = same_sessions t u"
  "same_sessions t (u\<lparr> gt_log := l \<rparr>) = same_sessions t u"
  "same_sessions t (u\<lparr> gt_roles := m \<rparr>) = same_sessions t u"
  "same_sessions t (u\<lparr> gt_input := i \<rparr>) = same_sessions t u"
  "same_sessions t (u\<lparr> gt_output := i \<rparr>) = same_sessions t u"
  "same_sessions t (u\<lparr> gt_auths := x3 \<rparr>) = same_sessions t u"
  "same_sessions t (u\<lparr> gt_gs := x4 \<rparr>) = same_sessions t u"
  "same_sessions t (u\<lparr> gt_gs_maps := x5 \<rparr>) = same_sessions t u"
  "same_sessions t (u\<lparr> gt_gs_shutdown := x6 \<rparr>) = same_sessions t u"
  "same_sessions t (u\<lparr> gt_role_sessions := x7 \<rparr>) = same_sessions t u"
  "same_sessions t (u\<lparr> gt_temp_guid := x8 \<rparr>) = same_sessions t u"
  "same_sessions t (u\<lparr> gt_thread_index := x9 \<rparr>) = same_sessions t u"
  by (simp_all add: same_sessions_def log_crossing_def set_role_def)

lemma same_sessions_leave_gs [simp]: "same_sessions t (leave_gs g u) = same_sessions t u"
  by (simp add: leave_gs_def split: option.splits role_gs_state.splits)

lemma same_sessions_jump [simp]: "same_sessions t (jump_map_success g m u) = same_sessions t u"
  by (simp add: jump_map_success_def split: option.splits)

lemma same_sessions_more [simp]:
  "same_sessions t (clean_unnormal_player g u) = same_sessions t u"
  "same_sessions t (clean_all_player_status u) = same_sessions t u"
  "same_sessions t (send_client a p u) = same_sessions t u"
  "same_sessions t (send_client_error_info a s c u) = same_sessions t u"
  "same_sessions t (account_logout s u) = same_sessions t u"
  "same_sessions t (send_role p u) = same_sessions t u"
  "same_sessions t (put_input_packet s p u) = same_sessions t u"
  "same_sessions t (put_output_packet s p u) = same_sessions t u"
  "same_sessions t (register_gs m g2 u) = same_sessions t u"
  "same_sessions t (remove_gs_map m u) = same_sessions t u"
  "same_sessions t (member_login ca u) = same_sessions t u"
  by (simp_all add: clean_unnormal_player_def clean_all_player_status_def send_client_def send_client_error_info_def
      account_logout_def send_role_def put_input_packet_def put_output_packet_def register_gs_def remove_gs_map_def
      member_login_def split: list.splits)

lemma result_enter_gs: "same_sessions t u \<Longrightarrow> result True (same_sessions t) (enter_gs g m u)"
  by (simp add: enter_gs_def do_logoff_def Let_def split: option.splits role_gs_state.splits)

lemma result_handle_client_package:
  "same_sessions t u \<Longrightarrow> result True (\<lambda>(r, v). same_sessions t v) (handle_client_package p m u)"
  by (auto simp: handle_client_package_eq split: option.splits
      intro!: result_and_then [OF result_enter_gs])

lemma result_send_to_gs: "same_sessions t u \<Longrightarrow> result True (same_sessions t) (send_to_gs p m u)"
  unfolding send_to_gs_def by (rule result_and_then [OF result_handle_client_package]) auto

lemma result_enter_gs_success: "same_sessions t u \<Longrightarrow> result True (same_sessions t) (enter_gs_success g u)"
  by (auto simp: enter_gs_success_def send_logoff_msg_def Let_def split: option.splits
      intro!: result_send_to_gs)

lemma result_role_logoff_success:
  assumes "sessions_ok u" "same_sessions t u"
  shows "result True (same_sessions t) (role_logoff_success g u)"
proof (cases "gt_routes u g")
  case (Some a)
  then obtain s where "gt_sessions u a = Some s" using sessions_ok_route assms(1) by blast
  then show ?thesis
    using Some assms(2) by (auto simp: role_logoff_success_def intro!: result_deref result_send_to_gs)
qed (simp add: role_logoff_success_def assms)

section \<open>Changes of sessions and routes\<close>

lemma gt_sessions_set_session [simp]: "gt_sessions (set_session a s t) = (gt_sessions t)(a \<mapsto> s)"
  by (simp add: set_session_def)

lemma set_session_fields [simp]:
  "gt_next (set_session a s t) = gt_next t" "gt_routes (set_session a s t) = gt_routes t"
  "gt_cooling (set_session a s t) = gt_cooling t" "gt_cleaned (set_session a s t) = gt_cleaned t"
  "gt_gs (set_session a s t) = gt_gs t" "gt_roles (set_session a s t) = gt_roles t"
  "gt_log (set_session a s t) = gt_log t" "gt_output (set_session a s t) = gt_output t"
  by (simp_all add: set_session_def)

lemma set_session_routes: "set_session a s (t\<lparr> gt_routes := r \<rparr>) = (set_session a s t)\<lparr> gt_routes := r \<rparr>"
  by (cases t) (simp add: set_session_def)

lemma same_sessions_trans: "same_sessions t u \<Longrightarrow> same_sessions u v \<Longrightarrow> same_sessions t v"
  by (simp add: same_sessions_def)

lemma set_session_ok:
  assumes "sessions_ok t" "gt_sessions t a = Some s" "session_ok (a \<in> set (gt_cleaned t)) s'"
    and "cs_in_cooler s \<Longrightarrow> cs_in_cooler s'" "\<And>g. gt_routes t g = Some a \<Longrightarrow> routed_ok g s'"
  shows "sessions_ok (set_session a s' t)"
proof (rule sessions_okI)
  show "distinct (gt_cleaned (set_session a s' t))" using sessions_okD(6) [OF assms(1)] by simp
  fix c assume "c \<in> set (gt_cooling (set_session a s' t))"
  then show "\<exists>s. gt_sessions (set_session a s' t) c = Some s \<and> cs_in_cooler s \<and> c \<notin> set (gt_cleaned (set_session a s' t))"
    using sessions_okD(4) [OF assms(1), of c] assms(2,4) by auto
next
  fix c assume "c \<in> set (gt_cleaned (set_session a s' t))"
  then show "\<exists>s. gt_sessions (set_session a s' t) c = Some s \<and> cs_in_cooler s"
    using sessions_okD(5) [OF assms(1), of c] assms(2,4) by auto
next
  fix c assume "gt_next (set_session a s' t) \<le> c"
  then show "gt_sessions (set_session a s' t) c = None"
    using sessions_okD(1) [OF assms(1), of c] assms(2) by auto
qed (use sessions_okD(2,3) [OF assms(1)] assms(3,5) in \<open>auto split: if_splits\<close>)

lemma remove_route_ok: "sessions_ok t \<Longrightarrow> sessions_ok (t\<lparr> gt_routes := (gt_routes t)(g := None) \<rparr>)"
  by (auto simp: sessions_ok_def)

lemma add_route_ok:
  "sessions_ok t \<Longrightarrow> gt_sessions t a = Some s \<Longrightarrow> routed_ok g s \<Longrightarrow>
    sessions_ok (t\<lparr> gt_routes := (gt_routes t)(g \<mapsto> a) \<rparr>)"
  by (auto simp: sessions_ok_def)

lemma put_client_session_eq:
  assumes "gt_sessions t a = Some s"
  shows "put_client_session a t = Inr ((set_session a (s\<lparr> cs_in_cooler := True \<rparr>) t)
    \<lparr> gt_cooling := (if cs_in_cooler s \<or> a \<in> set (gt_cooling t) then gt_cooling t else gt_cooling t @ [a]) \<rparr>)"
  using assms by (auto simp: put_client_session_def deref_def set_session_def Let_def intro!: gate.equality)

lemma set_session_same_cooling: "(set_session a s t)\<lparr> gt_cooling := gt_cooling t \<rparr> = set_session a s t"
  by (simp add: set_session_def)

lemma in_cooler_ok: "session_ok c (s\<lparr> cs_in_cooler := b \<rparr>) = session_ok c s"
  by (simp add: session_ok_def)

lemma in_cooler_routed: "routed_ok g (s\<lparr> cs_in_cooler := b \<rparr>) = routed_ok g s"
  by (simp add: routed_ok_def has_state_def)

lemma result_put_client_session:
  assumes ok: "sessions_ok t" and s: "gt_sessions t a = Some s"
  shows "result b sessions_ok (put_client_session a t)"
proof -
  let ?u = "set_session a (s\<lparr> cs_in_cooler := True \<rparr>) t"
  have u: "sessions_ok ?u"
    using sessions_okD(2) [OF ok s] sessions_okD(3) [OF ok, of _ a] s
    by (intro set_session_ok [OF ok s]) (fastforce simp: in_cooler_ok in_cooler_routed)+
  have "a \<notin> set (gt_cleaned t)" if "\<not> cs_in_cooler s"
    using sessions_okD(5) [OF ok, of a] s that by auto
  then have "sessions_ok (?u\<lparr> gt_cooling := gt_cooling t @ [a] \<rparr>)" if "\<not> cs_in_cooler s"
    using u that unfolding sessions_ok_def by auto
  then show ?thesis using u by (simp add: put_client_session_eq [OF s] set_session_same_cooling)
qed

lemma add_state_fields [simp]:
  "cs_real_role_guid (add_state st s) = cs_real_role_guid s" "cs_closed (add_state st s) = cs_closed s"
  "cs_login_again (add_state st s) = cs_login_again s" "cs_role_guid (add_state st s) = cs_role_guid s"
  "cs_roles (add_state st s) = cs_roles s" "cs_in_cooler (add_state st s) = cs_in_cooler s"
  "cs_role_location (add_state st s) = cs_role_location s" "cs_thread (add_state st s) = cs_thread s"
  "cs_line_no (add_state st s) = cs_line_no s"
  by (simp_all add: add_state_def)

lemma add_state_ok [simp]: "session_ok c (add_state st s) = session_ok c s"
  by (simp add: session_ok_def)

lemma has_state_add_state:
  "has_state a (add_state b s) \<longleftrightarrow> has_state a s \<or> a AND b \<noteq> 0"
  by (simp add: has_state_def add_state_def bit.conj_disj_distrib bit.conj_disj_distrib2 or_eq_0_iff and.commute)

lemma add_state_routed:
  "as_leave_game AND st = 0 \<Longrightarrow> routed_ok g (add_state st s) = routed_ok g s"
  by (simp add: routed_ok_def has_state_add_state)

section \<open>The operations\<close>

abbreviation res_ok :: "gate_fault + gate \<Rightarrow> bool" where
  "res_ok \<equiv> result True sessions_ok"

lemma result_same: "sessions_ok t \<Longrightarrow> result True (same_sessions t) x \<Longrightarrow> res_ok x"
  by (erule result_mono) (simp add: same_sessions_ok)

lemma same_ok: "sessions_ok t \<Longrightarrow> same_sessions t u \<Longrightarrow> sessions_ok u"
  by (simp add: same_sessions_ok)

lemma put_output_package_ok:
  assumes "sessions_ok t"
  shows "res_ok (put_output_package p t)"
proof (cases "gt_routes t (gp_guid p)")
  case (Some a)
  then show ?thesis
    using sessions_ok_route [OF assms Some] same_ok [OF assms]
    by (auto simp: put_output_package_def deref_def split: option.splits)
qed (simp add: put_output_package_def assms)

lemma add_state_session_ok:
  assumes "sessions_ok t" "gt_sessions t a = Some s" "as_leave_game AND st = 0"
  shows "sessions_ok (set_session a (add_state st s) t)"
proof (rule set_session_ok [OF assms(1,2)])
  show "session_ok (a \<in> set (gt_cleaned t)) (add_state st s)" using sessions_okD(2) [OF assms(1,2)] by simp
  show "routed_ok g (add_state st s)" if "gt_routes t g = Some a" for g
    using sessions_okD(3) [OF assms(1) that] assms(2,3) by (simp add: add_state_routed)
qed simp

lemma put_added_ok:
  assumes "sessions_ok t" "gt_sessions t a = Some s" "as_leave_game AND st = 0"
  shows "res_ok (put_client_session a (set_session a (add_state st s) t))"
  using result_put_client_session [OF add_state_session_ok [OF assms], of a] by simp

lemma not_find_gs_ok:
  assumes "sessions_ok t"
  shows "res_ok (not_find_gs g t)"
proof (cases "gt_routes t g")
  case (Some a)
  then obtain s where s: "gt_sessions t a = Some s" using sessions_ok_route [OF assms] by blast
  have "as_leave_game AND as_not_find_gs = 0" by (simp add: account_states)
  then show ?thesis
    using Some put_added_ok [OF assms s] s by (auto simp: not_find_gs_def intro!: result_deref)
qed (simp add: not_find_gs_def assms)

text \<open>A session that is no longer routed may be given the state of having left.\<close>

lemma unrouted_put_ok:
  assumes ok: "sessions_ok t" and s: "gt_sessions t a = Some s" and un: "a \<notin> ran (gt_routes t)"
  shows "res_ok (put_client_session a (set_session a (add_state st s) t))"
proof -
  have "sessions_ok (set_session a (add_state st s) t)"
    using un sessions_okD(2) [OF ok s] by (intro set_session_ok [OF ok s]) (auto simp: ran_def)
  then show ?thesis by (rule result_put_client_session) simp
qed

lemma removed_route_unrouted:
  assumes "sessions_ok t" "gt_routes t g = Some a"
  shows "a \<notin> ran ((gt_routes t)(g := None))"
  using route_inj [OF assms(1,2)] by (auto simp: ran_def split: if_splits)

lemma clean_role_info_ok:
  assumes ok: "sessions_ok t"
  shows "res_ok (clean_role_info g t)"
proof (cases "gt_routes t g")
  case (Some a)
  then obtain s where s: "gt_sessions t a = Some s" using sessions_ok_route [OF ok] by blast
  let ?t = "t\<lparr> gt_routes := (gt_routes t)(g := None) \<rparr>"
  have "result True (same_sessions ?t) (role_leave_map g (cs_role_location s) ?t)"
    unfolding role_leave_map_def by (rule result_send_to_gs) simp
  moreover have "res_ok (put_client_session a (set_session a (add_state as_leave_game s) u))" if "same_sessions ?t u" for u
  proof (rule unrouted_put_ok)
    show "sessions_ok u" using same_ok [OF remove_route_ok [OF ok] that] .
    show "gt_sessions u a = Some s" "a \<notin> ran (gt_routes u)"
      using that s removed_route_unrouted [OF ok Some] by (simp_all add: same_sessions_def)
  qed
  ultimately show ?thesis
    by (simp add: clean_role_info_def Some result_deref [OF s] result_and_then)
qed (simp add: clean_role_info_def ok)

lemma clean_role_and_logoff_eq: "clean_role_and_logoff = clean_role_info"
  by (simp add: fun_eq_iff clean_role_and_logoff_def clean_role_info_def)

lemma change_client_route_ok:
  assumes ok: "sessions_ok t" and r: "gt_routes t client = Some a" and s: "gt_sessions t a = Some s"
    and g: "g \<in> dom (cs_roles s)"
  shows "result True (\<lambda>u. sessions_ok u \<and> (\<exists>s. gt_sessions u a = Some s)) (change_client_route a (cs_role_guid s) g t)"
proof -
  have ro: "routed_ok client s" using sessions_okD(3) [OF ok r] s by auto
  define t1 where "t1 = t\<lparr> gt_routes := (gt_routes t)(client := None) \<rparr>"
  define s1 where "s1 = s\<lparr> cs_role_guid := g \<rparr>"
  define t2 where "t2 = set_session a s1 t1"
  have t1: "sessions_ok t1" "gt_sessions t1 a = Some s" "gt_cleaned t1 = gt_cleaned t"
    using remove_route_ok [OF ok] s by (simp_all add: t1_def)
  have "session_ok (a \<in> set (gt_cleaned t)) s1"
    using sessions_okD(2) [OF ok s] ro g by (simp add: s1_def session_ok_def routed_ok_def)
  then have t2: "sessions_ok t2"
    using removed_route_unrouted [OF ok r] unfolding t2_def
    by (intro set_session_ok [OF t1(1,2)]) (auto simp: s1_def t1_def ran_def split: if_splits)
  have s1: "gt_sessions t2 a = Some s1" "routed_ok g s1"
    using ro by (simp_all add: t2_def s1_def routed_ok_def has_state_def)
  have eq: "change_client_route a (cs_role_guid s) g t =
      (case gt_routes t2 g of Some b \<Rightarrow> put_client_session b t2
       | None \<Rightarrow> Inr (t2\<lparr> gt_routes := (gt_routes t2)(g \<mapsto> a) \<rparr>))"
    using ro s unfolding t2_def t1_def s1_def set_session_routes
    by (simp add: change_client_route_def deref_def routed_ok_def Let_def split: option.split)
  show ?thesis
  proof (cases "gt_routes t2 g")
    case None
    then show ?thesis using add_route_ok [OF t2 s1] s1(1) eq by simp
  next
    case (Some b)
    then obtain sb where sb: "gt_sessions t2 b = Some sb" using sessions_ok_route [OF t2] by blast
    then show ?thesis
      using result_put_client_session [OF t2 sb, of True] s1(1) eq Some put_client_session_eq [OF sb] by auto
  qed
qed

lemma session_ok_update:
  assumes "sessions_ok t" "gt_sessions t a = Some s"
    and "\<And>c. session_ok c s' = session_ok c s" "\<And>g. routed_ok g s' = routed_ok g s" "cs_in_cooler s' = cs_in_cooler s"
  shows "sessions_ok (set_session a s' t)"
  using sessions_okD(2,3) [OF assms(1)] assms(2-5) by (intro set_session_ok [OF assms(1,2)]) fastforce+

lemma session_ok_fields [simp]:
  "session_ok c (s\<lparr> cs_line_no := x1 \<rparr>) = session_ok c s"
  "session_ok c (s\<lparr> cs_role_location := x2 \<rparr>) = session_ok c s"
  "session_ok c (s\<lparr> cs_account_id := x3 \<rparr>) = session_ok c s"
  "session_ok c (s\<lparr> cs_addiction_flag := x4 \<rparr>) = session_ok c s"
  "session_ok c (s\<lparr> cs_thread := x5 \<rparr>) = session_ok c s"
  by (simp_all add: session_ok_def)

lemma routed_ok_fields [simp]:
  "routed_ok g (s\<lparr> cs_line_no := x1 \<rparr>) = routed_ok g s"
  "routed_ok g (s\<lparr> cs_role_location := x2 \<rparr>) = routed_ok g s"
  "routed_ok g (s\<lparr> cs_account_id := x3 \<rparr>) = routed_ok g s"
  "routed_ok g (s\<lparr> cs_addiction_flag := x4 \<rparr>) = routed_ok g s"
  "routed_ok g (s\<lparr> cs_thread := x5 \<rparr>) = routed_ok g s"
  by (simp_all add: routed_ok_def has_state_def)

lemma client_enter_map_ok:
  assumes ok: "sessions_ok t"
  shows "res_ok (client_enter_map client g make_route t)"
proof (cases "gt_routes t client")
  case (Some a)
  then obtain s where s: "gt_sessions t a = Some s" using sessions_ok_route [OF ok] by blast
  show ?thesis
  proof (cases "cs_roles s g")
    case None
    then show ?thesis
      using Some result_put_client_session [OF ok s] by (simp add: client_enter_map_def result_deref [OF s])
  next
    case r: (Some r)
    have "result True (\<lambda>u. sessions_ok u \<and> (\<exists>s. gt_sessions u a = Some s))
        (if make_route then change_client_route a (cs_role_guid s) g t else Inr t)"
      using change_client_route_ok [OF ok Some s, of g] r ok s by auto
    moreover have "res_ok (and_then (deref a u) (\<lambda>s.
        let location = gate_map_guid (ar_map_id r);
            t = set_session a (s\<lparr> cs_line_no := ar_line_id r, cs_role_location := location \<rparr>) u;
            p = new_gpacket cmsg_player_enter_map g
                  (Cmsg_player_enter_map (ar_guid r) (ucast location) (Some (ar_line_id r))) in
        and_then (handle_client_package p location t) (\<lambda>(hr, t).
          if hr = - 1 then not_find_gs client t
          else and_then (deref a t) (\<lambda>s. Inr (set_session a (add_state as_enter_game s) t)))))"
      if u: "sessions_ok u \<and> (\<exists>s. gt_sessions u a = Some s)" for u
    proof -
      from u obtain s2 where s2: "sessions_ok u" "gt_sessions u a = Some s2" by blast
      let ?s = "s2\<lparr> cs_line_no := ar_line_id r, cs_role_location := gate_map_guid (ar_map_id r) \<rparr>"
      let ?t = "set_session a ?s u"
      have t: "sessions_ok ?t" by (rule session_ok_update [OF s2]) simp_all
      show ?thesis unfolding Let_def
      proof (rule result_deref [OF s2(2)], rule result_and_then [OF result_handle_client_package [OF same_sessions_refl]])
        fix x :: "int \<times> gate" assume "case x of (r, v) \<Rightarrow> same_sessions ?t v"
        then obtain hr v where x: "x = (hr, v)" and v: "same_sessions ?t v" by (cases x) simp
        have vs: "sessions_ok v" "gt_sessions v a = Some ?s"
          using same_ok [OF t v] v by (simp_all add: same_sessions_def)
        have "sessions_ok (set_session a (add_state as_enter_game ?s) v)"
          by (rule add_state_session_ok [OF vs]) (simp add: account_states)
        then show "res_ok (case x of (hr, t) \<Rightarrow> if hr = - 1 then not_find_gs client t
            else and_then (deref a t) (\<lambda>s. Inr (set_session a (add_state as_enter_game s) t)))"
          using not_find_gs_ok [OF vs(1)] by (simp add: x deref_def vs(2))
      qed
    qed
    ultimately show ?thesis
      by (simp add: client_enter_map_def Some result_deref [OF s] r result_and_then)
  qed
qed (simp add: client_enter_map_def ok)

lemma handle_enter_map_ok:
  assumes ok: "sessions_ok t"
  shows "res_ok (handle_enter_map p t)"
proof (cases "gt_routes t (gp_guid p)")
  case (Some a)
  then obtain s where s: "gt_sessions t a = Some s" using sessions_ok_route [OF ok] by blast
  have "res_ok (and_then (clean_role_info g t) (client_enter_map (gp_guid p) g True))" for g
    by (rule result_and_then [OF clean_role_info_ok [OF ok]]) (rule client_enter_map_ok)
  then show ?thesis
    using ok by (simp add: handle_enter_map_def Some clean_role_and_logoff_eq deref_def s split: gate_body.split)
qed (simp add: handle_enter_map_def ok)

lemma handle_role_logout_ok:
  assumes ok: "sessions_ok t"
  shows "res_ok (handle_role_logout p t)"
proof (cases "gt_routes t (gp_guid p)")
  case (Some a)
  then obtain s where "gt_sessions t a = Some s" using sessions_ok_route [OF ok] by blast
  then show ?thesis using Some result_put_client_session [OF ok] by (simp add: handle_role_logout_def)
qed (simp add: handle_role_logout_def ok)

lemma send_role_ok [simp]: "sessions_ok (send_role p t) = sessions_ok t"
  by (rule same_sessions_ok) simp

lemma put_error_ok:
  assumes "sessions_ok t" "gt_sessions t a = Some s"
  shows "res_ok (put_client_session a (send_client_error_info a s c t))"
proof -
  have same: "same_sessions t (send_client_error_info a s c t)" by simp
  then have "gt_sessions (send_client_error_info a s c t) a = Some s"
    using assms(2) unfolding same_sessions_def by simp
  then show ?thesis by (rule result_put_client_session [OF same_ok [OF assms(1) same]])
qed

lemma handle_validation_ok:
  assumes ok: "sessions_ok t"
  shows "res_ok (handle_validation_account cfg now p t)"
proof (cases "gt_routes t (gp_guid p)")
  case (Some a)
  then obtain s where s: "gt_sessions t a = Some s" using sessions_ok_route [OF ok] by blast
  have err: "res_ok (put_client_session a (send_client_error_info a s 1 u))" if "same_sessions t u" for u
    using same_ok [OF ok that] s that unfolding same_sessions_def by (intro put_error_ok) simp_all
  have "res_ok (handle_validation_account cfg now p t)"
    if p: "gp_body p = Cmsg_validate_account account key" for account key
  proof -
    obtain ca u where v: "validate_client_session cfg now key t = (ca, u)" by (cases "validate_client_session cfg now key t")
    have u: "same_sessions t u"
      using v by (auto simp: validate_client_session_def split: if_splits option.splits)
    have us: "sessions_ok u" "gt_sessions u a = Some s"
      using same_ok [OF ok u] s u by (simp_all add: same_sessions_def)
    show ?thesis
    proof (cases ca)
      case None
      then show ?thesis using err [OF u] by (simp add: handle_validation_account_def Some deref_def s p v)
    next
      case ca: (Some c)
      let ?s = "add_state as_validate_success (s\<lparr> cs_account_id := account \<rparr>)
          \<lparr> cs_line_no := ca_line_id c, cs_addiction_flag := ca_addiction_flag c \<rparr>"
      have "sessions_ok (set_session a ?s u)"
        by (rule session_ok_update [OF us]) (simp_all add: add_state_routed account_states)
      then show ?thesis
        using result_put_client_session [OF us, of True]
        by (simp add: handle_validation_account_def Some deref_def s p v ca Let_def same_sessions_ok [OF same_sessions_simps(1) [THEN iffD2, OF same_sessions_refl]])
    qed
  qed
  then show ?thesis
    using err [OF same_sessions_refl]
    by (cases "gp_body p") (simp_all add: handle_validation_account_def Some deref_def s)
qed (simp add: handle_validation_account_def ok)

lemma result_routed:
  assumes "sessions_ok t" "P t"
    and "\<And>a s. gt_routes t g = Some a \<Longrightarrow> gt_sessions t a = Some s \<Longrightarrow> routed_ok g s \<Longrightarrow> result b P (f a s)"
  shows "result b P (case gt_routes t g of None \<Rightarrow> Inr t | Some a \<Rightarrow> and_then (deref a t) (f a))"
proof (cases "gt_routes t g")
  case (Some a)
  then show ?thesis using sessions_ok_route [OF assms(1) Some] assms(3) by (metis option.simps(5) result_deref)
qed (simp add: assms(2))

lemma send_to_gs_ok: "sessions_ok t \<Longrightarrow> res_ok (send_to_gs p m t)"
  by (erule result_same [OF _ result_send_to_gs]) simp

lemma handle_player_make_ok: "sessions_ok t \<Longrightarrow> res_ok (handle_player_make p t)"
  unfolding handle_player_make_def by (cases "gp_body p") (auto intro: result_routed)

lemma handle_cmsg_loopback_ok: "sessions_ok t \<Longrightarrow> res_ok (handle_cmsg_loopback us p t)"
  unfolding handle_cmsg_loopback_def
  by (rule result_routed) (auto simp: send_to_gs_ok split: gate_body.split)

lemma handle_input_package_ok:
  assumes ok: "sessions_ok t"
  shows "res_ok (handle_input_package cfg now p t)"
proof -
  have "res_ok (and_then (handle_client_package p m t) (\<lambda>(hr, t). if hr = - 1 then not_find_gs (gp_guid p) t else Inr t))" for m
    by (rule result_and_then [OF result_handle_client_package [OF same_sessions_refl]])
       (use not_find_gs_ok same_ok [OF ok] in auto)
  then show ?thesis
    using ok by (simp add: handle_input_package_def Let_def handle_validation_ok handle_player_make_ok handle_enter_map_ok
        handle_cmsg_loopback_ok handle_role_logout_ok)
qed

lemma player_line_info_fields [simp]:
  "cs_in_cooler (player_line_info g m l s) = cs_in_cooler s" "cs_role_guid (player_line_info g m l s) = cs_role_guid s"
  "cs_role_location (player_line_info g m l s) = cs_role_location s"
  "has_state st (player_line_info g m l s) = has_state st s" "routed_ok h (player_line_info g m l s) = routed_ok h s"
  by (simp_all add: player_line_info_def routed_ok_def has_state_def)

lemma player_line_info_ok: "session_ok c s \<Longrightarrow> session_ok c (player_line_info g m l s)"
  by (auto simp: player_line_info_def session_ok_def)

lemma listed_ok:
  assumes ok: "sessions_ok t" and s: "gt_sessions t a = Some s"
  shows "sessions_ok (set_session a (player_line_info g m l (add_state as_get_role_list s)) t)"
proof (rule set_session_ok [OF ok s])
  show "session_ok (a \<in> set (gt_cleaned t)) (player_line_info g m l (add_state as_get_role_list s))"
    using sessions_okD(2) [OF ok s] by (simp add: player_line_info_ok)
  show "routed_ok h (player_line_info g m l (add_state as_get_role_list s))" if "gt_routes t h = Some a" for h
    using sessions_okD(3) [OF ok that] s by (simp add: add_state_routed account_states)
qed simp

lemma sessions_ok_same [simp]:
  "sessions_ok (send_client a p t) = sessions_ok t" "sessions_ok (log_crossing x t) = sessions_ok t"
  by (rule same_sessions_ok, simp)+

lemma handle_smsg_player_make_ok: "sessions_ok t \<Longrightarrow> res_ok (handle_smsg_player_make p t)"
  unfolding handle_smsg_player_make_def
  by (rule result_routed) (auto simp: listed_ok split: gate_body.split)

lemma handle_smsg_request_player_list_ok:
  assumes "sessions_ok t"
  shows "res_ok (handle_smsg_request_player_list cfg p t)"
proof -
  have "sessions_ok (set_session a (add_state as_get_role_list s) t)" if "gt_sessions t a = Some s" for a s
    using add_state_session_ok [OF assms that] by (simp add: account_states)
  then show ?thesis
    unfolding handle_smsg_request_player_list_def using assms
    by (intro result_routed) (auto simp: listed_ok Let_def split: gate_body.split option.split)
qed

lemma handle_player_jump_map_ok:
  assumes ok: "sessions_ok t"
  shows "res_ok (handle_player_jump_map p t)"
proof (cases "gp_body p")
  case (Smsg_player_jump_map target line)
  have "sessions_ok (set_session a (s\<lparr> cs_role_location := m \<rparr>) t)" if "gt_sessions t a = Some s" for a s m
    by (rule session_ok_update [OF ok that]) simp_all
  then show ?thesis
    using ok by (auto simp: handle_player_jump_map_def Smsg_player_jump_map Let_def deref_def
        split: option.split elim: sessions_ok_route)
qed (simp_all add: handle_player_jump_map_def ok)

lemma handle_smsg_loopback_ok: "sessions_ok t \<Longrightarrow> res_ok (handle_smsg_loopback us p t)"
  unfolding handle_smsg_loopback_def
  by (rule result_routed) (auto split: gate_body.split)

lemma handle_output_package_ok:
  assumes "sessions_ok t"
  shows "res_ok (handle_output_package cfg now p t)"
proof -
  have "res_ok (case gt_routes t (gp_guid p) of None \<Rightarrow> Inr t
      | Some a \<Rightarrow> and_then (deref a t) (\<lambda>s. Inr (send_client a p t)))"
    using assms by (intro result_routed) auto
  then show ?thesis
    using assms by (simp add: handle_output_package_def Let_def handle_smsg_player_make_ok
        handle_smsg_request_player_list_ok handle_player_jump_map_ok handle_smsg_loopback_ok handle_role_logout_ok)
qed

lemma gs_packet_ok:
  assumes ok: "sessions_ok t"
  shows "res_ok (gs_packet gs p t)"
proof -
  let ?t = "log_crossing (From_gs gs p) t"
  have t: "sessions_ok ?t" using ok by simp
  have "sessions_ok (?t\<lparr> gt_roles := m \<rparr>)" for m
    by (rule same_ok [OF t]) simp
  then have leave: "res_ok (leave_gs_success g ?t)" for g
    unfolding leave_gs_success_def by (intro result_same [OF t] result_role_logoff_success) simp_all
  have enter: "res_ok (enter_gs_success g ?t)" for g
    by (rule result_same [OF t]) (simp add: result_enter_gs_success)
  have jump: "sessions_ok (jump_map_success g m ?t)" for g m
    by (rule same_ok [OF t]) simp
  show ?thesis
    unfolding gs_packet_def Let_def
    by (intro result_if result_and_then [where P = sessions_ok] leave enter put_output_package_ok)
       (use t jump in \<open>auto split: gate_body.split\<close>)
qed

lemma clean_player_ok: "sessions_ok t \<Longrightarrow> res_ok (clean_gate_unnormal_player g t)"
  unfolding clean_gate_unnormal_player_def
  by (rule result_and_then [OF clean_role_info_ok]) (auto intro: same_ok)

section \<open>Connections come and go\<close>

lemma fresh_session_ok:
  assumes ok: "sessions_ok t" and s: "session_ok False s"
  shows "sessions_ok (set_session (gt_next t) s (t\<lparr> gt_next := gt_next t + 1 \<rparr>))"
proof -
  have fresh: "gt_sessions t (gt_next t) = None" using sessions_okD(1) [OF ok] by simp
  have "gt_next t \<notin> set (gt_cleaned t)" using sessions_okD(5) [OF ok] fresh by force
  moreover have "gt_routes t g \<noteq> Some (gt_next t)" for g using sessions_okD(3) [OF ok] fresh by force
  moreover have "gt_next t \<notin> set (gt_cooling t)" using sessions_okD(4) [OF ok] fresh by force
  ultimately show ?thesis
    using sessions_okD [OF ok] s by (intro sessions_okI) (auto split: if_splits)
qed

lemma collect_role_client_session_ok:
  assumes ok: "sessions_ok t" and s: "gt_sessions t a = Some s" and un: "a \<notin> ran (gt_routes t)"
    and new: "\<not> cs_closed s" "\<not> cs_login_again s" "\<not> has_state as_leave_game s"
    and g: "temporary g"
  shows "result True (\<lambda>u. sessions_ok u \<and> gt_sessions u a \<noteq> None) (collect_role_client_session g a t)"
proof -
  let ?s = "s\<lparr> cs_role_guid := g \<rparr>"
  let ?t = "set_session a ?s t"
  have t: "sessions_ok ?t"
    using un sessions_okD(2) [OF ok s] g by (intro set_session_ok [OF ok s]) (auto simp: session_ok_def ran_def)
  have ro: "routed_ok g ?s" using new by (simp add: routed_ok_def has_state_def)
  show ?thesis
  proof (cases "gt_routes t g")
    case None
    then show ?thesis using add_route_ok [OF t _ ro, of a]
      by (simp add: collect_role_client_session_def deref_def s)
  next
    case (Some b)
    then obtain old where old: "gt_sessions t b = Some old" "routed_ok g old" by (rule sessions_ok_route [OF ok])
    have ab: "b \<noteq> a" using un Some by (auto simp: ran_def)
    define u where "u = ?t\<lparr> gt_routes := (gt_routes t)(g := None) \<rparr>"
    define v where "v = set_session b (old\<lparr> cs_login_again := True \<rparr>) u"
    have u: "sessions_ok u" "gt_sessions u b = Some old" "b \<notin> ran (gt_routes u)" "gt_cleaned u = gt_cleaned t"
      using remove_route_ok [OF t, of g] old ab removed_route_unrouted [OF ok Some] by (simp_all add: u_def)
    have v: "sessions_ok v"
      using u(3) sessions_okD(2) [OF ok old(1)] old(2) g unfolding v_def
      by (intro set_session_ok [OF u(1,2)]) (auto simp: session_ok_def routed_ok_def ran_def u(4))
    have vb: "gt_sessions v b = Some (old\<lparr> cs_login_again := True \<rparr>)" by (simp add: v_def)
    have w: "res_ok (put_client_session b v)" by (rule result_put_client_session [OF v vb])
    let ?old = "old\<lparr> cs_login_again := True, cs_in_cooler := True \<rparr>"
    define c where "c = (if cs_in_cooler old \<or> b \<in> set (gt_cooling t) then gt_cooling t else gt_cooling t @ [b])"
    have put_v: "put_client_session b v = Inr ((set_session b ?old v)\<lparr> gt_cooling := c \<rparr>)"
      unfolding put_client_session_eq [OF vb] by (simp add: c_def v_def u_def)
    have fin: "sessions_ok ((set_session b ?old v)\<lparr> gt_cooling := c, gt_routes := (gt_routes t)(g \<mapsto> a) \<rparr>)"
    proof -
      have "sessions_ok ((set_session b ?old v)\<lparr> gt_cooling := c \<rparr>)" using w put_v by simp
      from add_route_ok [OF this _ ro, of a] show ?thesis using ab by (simp add: v_def u_def)
    qed
    have "collect_role_client_session g a t =
        Inr ((set_session b ?old v)\<lparr> gt_cooling := c, gt_routes := (gt_routes t)(g \<mapsto> a) \<rparr>)"
    proof -
      have b: "gt_sessions (set_session b (old\<lparr> cs_login_again := True \<rparr>) ?t) b = Some (old\<lparr> cs_login_again := True \<rparr>)" by simp
      have "collect_role_client_session g a t =
          and_then (put_client_session b (set_session b (old\<lparr> cs_login_again := True \<rparr>) ?t))
            (\<lambda>t. Inr (t\<lparr> gt_routes := (gt_routes t)(g \<mapsto> a) \<rparr>))"
        using ab old(1) by (simp add: collect_role_client_session_def deref_def s Some Let_def)
      then show ?thesis
        unfolding put_client_session_eq [OF b] by (simp add: c_def v_def u_def set_session_def)
    qed
    then show ?thesis using fin ab by (simp add: v_def u_def)
  qed
qed

lemma temporary_temp_guid: "temporary (ucast ((n :: u32) mod 0xFFFFFFF))"
proof -
  have "unat (n mod 0xFFFFFFF) < 0xFFFFFFF" by (simp add: unat_mod)
  moreover have "unat (ucast m :: u64) \<le> unat m" for m :: u32
    by (simp add: unsigned_ucast_eq take_bit_nat_less_eq_self)
  ultimately show ?thesis unfolding temporary_def word_less_nat_alt by (rule_tac le_less_trans) simp_all
qed

lemma client_open_ok:
  assumes ok: "sessions_ok t"
  shows "res_ok (client_open cfg ip t)"
proof -
  let ?a = "gt_next t" and ?s = "new_client_session\<lparr> cs_client_ip := ip \<rparr>"
  let ?g = "(gt_temp_guid t + 1) mod 0xFFFFFFF"
  let ?t = "set_session ?a ?s (t\<lparr> gt_next := ?a + 1 \<rparr>)"
  have s: "session_ok False ?s" by (simp add: session_ok_def new_client_session_def temporary_def)
  let ?u = "?t\<lparr> gt_temp_guid := ?g \<rparr>"
  have u: "sessions_ok ?u" by (rule same_ok [OF fresh_session_ok [OF ok s]]) simp
  have "?a \<notin> ran (gt_routes t)"
    using sessions_okD(1,3) [OF ok] by (fastforce simp: ran_def)
  then have "result True (\<lambda>u. sessions_ok u \<and> gt_sessions u ?a \<noteq> None) (collect_role_client_session (ucast ?g) ?a ?u)"
    by (intro collect_role_client_session_ok [OF u, where s = ?s])
       (simp_all add: new_client_session_def has_state_def temporary_temp_guid)
  then have "res_ok (and_then (collect_role_client_session (ucast ?g) ?a ?u) (assign_client_thread cfg ?a))"
  proof (rule result_and_then)
    fix v assume v: "sessions_ok v \<and> gt_sessions v ?a \<noteq> None"
    then obtain s where s: "gt_sessions v ?a = Some s" by blast
    let ?v = "v\<lparr> gt_thread_index := (gt_thread_index v + 1) mod gc_threads cfg \<rparr>"
    have "sessions_ok ?v" by (rule same_ok [of v]) (use v in simp_all)
    then have "sessions_ok (set_session ?a (s\<lparr> cs_thread := (gt_thread_index v + 1) mod gc_threads cfg \<rparr>) ?v)"
      using s by (intro session_ok_update) simp_all
    then show "res_ok (assign_client_thread cfg ?a v)"
      using s by (simp add: assign_client_thread_def Let_def deref_def)
  qed
  moreover have "client_open cfg ip t = and_then (collect_role_client_session (ucast ?g) ?a ?u) (assign_client_thread cfg ?a)"
    by (simp add: client_open_def get_temp_guid_def Let_def set_session_def)
  ultimately show ?thesis by simp
qed

text \<open>Closing a session that is not routed afterwards, and putting it in the list of the cleaned ones.\<close>

lemma handle_close_ok:
  assumes ok: "sessions_ok t" and s: "gt_sessions t a = Some s"
    and a: "a \<notin> set (gt_cleaned t)" "cs_in_cooler s" "a \<notin> set (gt_cooling t)"
  shows "result True (\<lambda>u. sessions_ok (u\<lparr> gt_cleaned := gt_cleaned u @ [a] \<rparr>) \<and> gt_cooling u = gt_cooling t \<and>
      (\<forall>b. b \<noteq> a \<longrightarrow> gt_sessions u b = gt_sessions t b) \<and>
      gt_cleaned u = gt_cleaned t \<and> gt_sessions u a = Some (s\<lparr> cs_closed := True \<rparr>)) (handle_close a t)"
proof -
  let ?s = "s\<lparr> cs_closed := True \<rparr>" and ?g = "cs_role_guid s"
  let ?t = "set_session a ?s t"
  define good where "good u \<longleftrightarrow> sessions_ok (u\<lparr> gt_cleaned := gt_cleaned u @ [a] \<rparr>) \<and> gt_cooling u = gt_cooling t \<and>
      (\<forall>b. b \<noteq> a \<longrightarrow> gt_sessions u b = gt_sessions t b) \<and>
      gt_cleaned u = gt_cleaned t \<and> gt_sessions u a = Some ?s" for u
  have so: "session_ok False s" using sessions_okD(2) [OF ok s] a(1) by simp
  have routes: "g = ?g" if "gt_routes t g = Some a" for g
    using sessions_okD(3) [OF ok that] s by (auto simp: routed_ok_def)
  have good: "good u" if "same_sessions (remove_role_client_session ?g a ?t) u" for u
  proof -
    have ru: "gt_routes u = (if gt_routes t ?g = Some a then (gt_routes t)(?g := None) else gt_routes t)"
      using that by (simp add: same_sessions_def remove_role_client_session_def)
    have r: "gt_routes t g = Some b" if "gt_routes u g = Some b" for g b
      using that by (simp add: ru split: if_splits)
    have not_a: "gt_routes u g \<noteq> Some a" for g
    proof
      assume g: "gt_routes u g = Some a"
      then have "g = ?g" using routes r by blast
      then show False using g r [OF g] by (simp add: ru)
    qed
    have u: "gt_sessions u = (gt_sessions t)(a \<mapsto> ?s)" "gt_next u = gt_next t" "gt_cooling u = gt_cooling t"
      "gt_cleaned u = gt_cleaned t"
      using that by (simp_all add: same_sessions_def remove_role_client_session_def split: if_splits)
    have "session_ok True ?s" using so by (simp add: session_ok_def)
    have "sessions_ok (u\<lparr> gt_cleaned := gt_cleaned u @ [a] \<rparr>)"
    proof (rule sessions_okI)
      fix b assume "gt_next (u\<lparr> gt_cleaned := gt_cleaned u @ [a] \<rparr>) \<le> b"
      then show "gt_sessions (u\<lparr> gt_cleaned := gt_cleaned u @ [a] \<rparr>) b = None"
        using sessions_okD(1) [OF ok, of b] s u by auto
    next
      fix b x assume "gt_sessions (u\<lparr> gt_cleaned := gt_cleaned u @ [a] \<rparr>) b = Some x"
      then show "session_ok (b \<in> set (gt_cleaned (u\<lparr> gt_cleaned := gt_cleaned u @ [a] \<rparr>))) x"
        using sessions_okD(2) [OF ok, of b x] u \<open>session_ok True ?s\<close> by (auto split: if_splits)
    next
      fix g b assume "gt_routes (u\<lparr> gt_cleaned := gt_cleaned u @ [a] \<rparr>) g = Some b"
      then show "\<exists>x. gt_sessions (u\<lparr> gt_cleaned := gt_cleaned u @ [a] \<rparr>) b = Some x \<and> routed_ok g x"
        using sessions_okD(3) [OF ok, of g b] r [of g] not_a [of g] u by (cases "b = a") auto
    next
      fix b assume "b \<in> set (gt_cooling (u\<lparr> gt_cleaned := gt_cleaned u @ [a] \<rparr>))"
      then show "\<exists>x. gt_sessions (u\<lparr> gt_cleaned := gt_cleaned u @ [a] \<rparr>) b = Some x \<and> cs_in_cooler x \<and>
          b \<notin> set (gt_cleaned (u\<lparr> gt_cleaned := gt_cleaned u @ [a] \<rparr>))"
        using sessions_okD(4) [OF ok, of b] a u by (cases "b = a") auto
    next
      fix b assume "b \<in> set (gt_cleaned (u\<lparr> gt_cleaned := gt_cleaned u @ [a] \<rparr>))"
      then show "\<exists>x. gt_sessions (u\<lparr> gt_cleaned := gt_cleaned u @ [a] \<rparr>) b = Some x \<and> cs_in_cooler x"
        using sessions_okD(5) [OF ok, of b] a u by (cases "b = a") auto
    qed (use sessions_okD(6) [OF ok] a u in simp)
    then show ?thesis using u by (simp add: good_def)
  qed
  have un: "good ?t" if "gt_routes t ?g \<noteq> Some a"
    using that by (intro good) (simp add: remove_role_client_session_def)
  have rem: "same_sessions (remove_role_client_session ?g a ?t) (account_logout s (remove_role_client_session ?g a u))"
    if "same_sessions ?t u" for u
    using that by (simp add: same_sessions_def remove_role_client_session_def account_logout_def log_crossing_def)
  have "result True good (handle_close a t)"
  proof (cases "cs_login_again s")
    case False
    let ?leave = "if has_state as_enter_game s \<and> \<not> has_state as_leave_game s
         then send_to_gs (new_gpacket cmsg_player_leave_map
                (if cs_real_role_guid s \<noteq> 0 then cs_real_role_guid s else cs_role_guid s) (Cmsg_player_leave_map 1))
              (cs_role_location s) ?t
         else Inr ?t"
    have "result True (same_sessions ?t) ?leave" by (simp add: result_send_to_gs)
    then have "result True good (and_then ?leave (\<lambda>t. Inr (account_logout s (remove_role_client_session ?g a t))))"
      by (rule result_and_then) (unfold result_simps, rule good, rule rem)
    then show ?thesis using False by (simp add: handle_close_def deref_def s Let_def)
  next
    case True
    then have "temporary ?g" using so by (simp add: session_ok_def)
    then have "?g < 0xFFFFFFFF" unfolding temporary_def by (rule less_trans) simp
    then show ?thesis
      using True good [OF same_sessions_refl] by (simp add: handle_close_def deref_def s)
  qed
  then show ?thesis by (simp add: good_def [abs_def])
qed

lemma clean_sessions_ok:
  assumes "sessions_ok t" "gt_cooling t = []"
    and "\<And>a. a \<in> set as \<Longrightarrow> \<exists>s. gt_sessions t a = Some s \<and> cs_in_cooler s"
  shows "res_ok (clean_sessions as t)"
  using assms
proof (induction as arbitrary: t)
  case (Cons a as)
  show ?case
  proof (cases "a \<in> set (gt_cleaned t)")
    case False
    obtain s where s: "gt_sessions t a = Some s" "cs_in_cooler s" using Cons.prems(3) [of a] by auto
    have "res_ok (and_then (handle_close a t) (\<lambda>t. clean_sessions as (t\<lparr> gt_cleaned := gt_cleaned t @ [a] \<rparr>)))"
    proof (rule result_and_then [OF handle_close_ok [OF Cons.prems(1) s(1) False s(2)]])
      show "a \<notin> set (gt_cooling t)" using Cons.prems(2) by simp
    next
      fix u assume u: "sessions_ok (u\<lparr> gt_cleaned := gt_cleaned u @ [a] \<rparr>) \<and> gt_cooling u = gt_cooling t \<and>
        (\<forall>b. b \<noteq> a \<longrightarrow> gt_sessions u b = gt_sessions t b) \<and>
        gt_cleaned u = gt_cleaned t \<and> gt_sessions u a = Some (s\<lparr> cs_closed := True \<rparr>)"
      show "res_ok (clean_sessions as (u\<lparr> gt_cleaned := gt_cleaned u @ [a] \<rparr>))"
      proof (rule Cons.IH)
        show "sessions_ok (u\<lparr> gt_cleaned := gt_cleaned u @ [a] \<rparr>)" using u by (elim conjE)
        show "gt_cooling (u\<lparr> gt_cleaned := gt_cleaned u @ [a] \<rparr>) = []" using u Cons.prems(2) by simp
        fix b assume "b \<in> set as"
        then show "\<exists>s. gt_sessions (u\<lparr> gt_cleaned := gt_cleaned u @ [a] \<rparr>) b = Some s \<and> cs_in_cooler s"
          using Cons.prems(3) [of b] u s(2) by (cases "b = a") auto
      qed
    qed
    then show ?thesis using False by simp
  qed (use Cons in simp)
qed simp

lemma cool_sessions_ok:
  assumes ok: "sessions_ok t"
  shows "res_ok (cool_sessions t)"
proof -
  have "sessions_ok (t\<lparr> gt_cooling := [] \<rparr>)" using ok by (simp add: sessions_ok_def)
  then show ?thesis
    unfolding cool_sessions_def Let_def
    by (rule clean_sessions_ok) (use sessions_okD(4) [OF ok] in auto)
qed

lemma delete_session_ok:
  assumes ok: "sessions_ok t"
  shows "sessions_ok (delete_session a t)"
proof (cases "a \<in> set (gt_cleaned t)")
  case True
  have "gt_routes t g \<noteq> Some a" for g
    using sessions_okD(2,3) [OF ok] True by (fastforce simp: routed_ok_def session_ok_def)
  moreover have "set (remove1 a (gt_cleaned t)) = set (gt_cleaned t) - {a}" using sessions_okD(6) [OF ok] by simp
  ultimately show ?thesis
    using True sessions_okD [OF ok] by (intro sessions_okI) (fastforce simp: delete_session_def split: if_splits)+
qed (simp add: delete_session_def ok)

section \<open>Game servers that go\<close>

lemma put_client_session_dom:
  assumes ok: "sessions_ok t" and s: "gt_sessions t a = Some s"
  shows "result True (\<lambda>u. sessions_ok u \<and> dom (gt_sessions u) = dom (gt_sessions t)) (put_client_session a t)"
  using result_put_client_session [OF ok s, of True] s
  by (auto simp: put_client_session_eq [OF s])

lemma close_clients_ok:
  assumes "sessions_ok t" "set as \<subseteq> dom (gt_sessions t)"
  shows "result True (\<lambda>u. sessions_ok u \<and> dom (gt_sessions u) = dom (gt_sessions t)) (close_clients m as t)"
  using assms
proof (induction as arbitrary: t)
  case (Cons a as)
  then obtain s where s: "gt_sessions t a = Some s" by auto
  let ?t = "set_session a (add_state as_not_find_gs s) t"
  have t: "sessions_ok ?t" by (rule add_state_session_ok [OF Cons.prems(1) s]) (simp add: account_states)
  have d: "dom (gt_sessions ?t) = dom (gt_sessions t)" using s by auto
  have "result True (\<lambda>u. sessions_ok u \<and> dom (gt_sessions u) = dom (gt_sessions t))
      (and_then (put_client_session a ?t) (close_clients m as))"
  proof (rule result_and_then [OF put_client_session_dom [OF t, of a]])
    fix u assume u: "sessions_ok u \<and> dom (gt_sessions u) = dom (gt_sessions ?t)"
    then have "set as \<subseteq> dom (gt_sessions u)" using Cons.prems(2) d by simp
    from Cons.IH [OF conjunct1 [OF u] this] show "result True (\<lambda>u. sessions_ok u \<and> dom (gt_sessions u) = dom (gt_sessions t))
        (close_clients m as u)"
      using u d by simp
  qed simp
  then show ?case using Cons by (simp add: deref_def s)
qed simp

lemma close_clients_of_ok:
  assumes "sessions_ok t" "set online \<subseteq> dom (gt_sessions t)"
  shows "res_ok (close_clients_of ms online t)"
  using assms
proof (induction ms arbitrary: t)
  case (Cons m ms)
  show ?case unfolding close_clients_of.simps
    by (rule result_and_then [OF close_clients_ok [OF Cons.prems]]) (use Cons in auto)
qed simp

lemma gs_closed_ok:
  assumes ok: "sessions_ok t" and online: "set online \<subseteq> dom (gt_sessions t)"
  shows "res_ok (gs_closed gs online t)"
proof -
  let ?t = "t\<lparr> gt_gs_shutdown := gs # gt_gs_shutdown t \<rparr>"
  have t: "sessions_ok ?t" by (rule same_ok [OF ok]) simp
  have "sessions_ok (fold remove_gs_map ms u)" if "sessions_ok u" for ms u
    using that
  proof (induction ms arbitrary: u)
    case (Cons m ms)
    have "sessions_ok (remove_gs_map m u)" by (rule same_ok [OF Cons.prems]) simp
    then show ?case using Cons.IH by simp
  qed simp
  then have "res_ok (and_then (close_clients_of (gt_gs_maps t gs) online ?t)
      (\<lambda>t. Inr (fold remove_gs_map (gt_gs_maps t gs) t)))"
    by (intro result_and_then [OF close_clients_of_ok [OF t]]) (use online in simp_all)
  then show ?thesis using ok unfolding gs_closed_def by simp
qed

section \<open>Runs\<close>

text \<open>The list of the beat thread holds no deleted sessions: a closed session is taken out at the next round of the
  thread, and deleted much later.\<close>

definition gate_allowed :: "gate_event \<Rightarrow> gate_fault + gate \<Rightarrow> bool" where
  "gate_allowed e x =
     (case x of Inl _ \<Rightarrow> True
      | Inr t \<Rightarrow> (case e of Gs_closes gs online \<Rightarrow> list_all (\<lambda>a. gt_sessions t a \<noteq> None) online | _ \<Rightarrow> True))"

lemma gate_event_ok:
  assumes ok: "sessions_ok t" and al: "gate_allowed e (Inr t)"
  shows "res_ok (do_gate_event cfg e t)"
proof (cases e)
  case (Client_sends a op body)
  have "sessions_ok (client_sends a op body t)"
    by (rule same_ok [OF ok]) (simp add: client_sends_def split: option.split)
  then show ?thesis by (simp add: do_gate_event_def Client_sends)
next
  case (Handle_input i now)
  have "sessions_ok (t\<lparr> gt_input := q \<rparr>)" for q by (rule same_ok [OF ok]) simp
  then show ?thesis
    using ok by (simp add: do_gate_event_def Handle_input handle_input_def handle_input_package_ok split: list.split)
next
  case (Handle_output i now)
  have "sessions_ok (t\<lparr> gt_output := q \<rparr>)" for q by (rule same_ok [OF ok]) simp
  then show ?thesis
    using ok by (simp add: do_gate_event_def Handle_output handle_output_def handle_output_package_ok split: list.split)
next
  case (Gs_closes gs online)
  then have "set online \<subseteq> dom (gt_sessions t)" using al by (auto simp: gate_allowed_def list_all_iff)
  then show ?thesis by (simp add: do_gate_event_def Gs_closes gs_closed_ok [OF ok])
qed (use ok in \<open>auto simp: do_gate_event_def client_open_ok cool_sessions_ok delete_session_ok put_output_package_ok
      gs_packet_ok clean_player_ok intro: same_ok\<close>)

definition gate_safe :: "gate_fault + gate \<Rightarrow> bool" where
  "gate_safe x = res_ok x"

lemma gate_step_safe: "gate_safe x \<Longrightarrow> gate_allowed e x \<Longrightarrow> gate_safe (gate_step cfg e x)"
  by (cases x) (auto simp: gate_safe_def gate_step_def result_def [of True sessions_ok "Inl _"] gate_event_ok)

interpretation sessions: invariant_machine "gate_step cfg" gate_allowed gate_safe for cfg
  by unfold_locales (rule gate_step_safe)

lemma new_gate_ok: "sessions_ok new_gate"
  by (simp add: sessions_ok_def new_gate_def)

end
