(* ===== verification/GateRuns.thy ===== *)
theory GateRuns
  imports GateSafe
begin

text \<open>
  What the gate promises the game servers: a role enters them once before it has left or was cleaned,
  and, while they stay connected, every role in a game server has an open session or is leaving.
\<close>

section \<open>Entering once\<close>

definition crossing_enters :: "guid \<Rightarrow> crossing \<Rightarrow> bool" where
  "crossing_enters g x =
     (case x of To_gs gs p \<Rightarrow> gp_opcode p = cmsg_player_enter_map \<and> gp_guid p = g | _ \<Rightarrow> False)"

definition crossing_ends :: "guid \<Rightarrow> crossing \<Rightarrow> bool" where
  "crossing_ends g x =
     (case x of
        From_gs gs p \<Rightarrow> gp_opcode p = smsg_player_leave_map \<and> gp_guid p = g
      | Role_cleaned h \<Rightarrow> h = g
      | All_roles_cleaned \<Rightarrow> True
      | _ \<Rightarrow> False)"

definition crossing_inside :: "guid \<Rightarrow> crossing \<Rightarrow> bool \<Rightarrow> bool" where
  "crossing_inside g x b = (if crossing_enters g x then True else if crossing_ends g x then False else b)"

text \<open>\<open>role_inside g log\<close>: a game server was told that the role enters, and its way out has not followed.\<close>

definition role_inside :: "guid \<Rightarrow> crossing list \<Rightarrow> bool" where
  "role_inside g xs = fold (crossing_inside g) xs False"

definition enters_once :: "guid \<Rightarrow> crossing list \<Rightarrow> bool" where
  "enters_once g = at_each (\<lambda>ys x. crossing_enters g x \<longrightarrow> \<not> role_inside g ys)"

lemma role_inside_snoc [simp]: "role_inside g (xs @ [x]) = crossing_inside g x (role_inside g xs)"
  by (simp add: role_inside_def)

lemma enters_once_snoc:
  "enters_once g (xs @ [x]) \<longleftrightarrow> enters_once g xs \<and> (crossing_enters g x \<longrightarrow> \<not> role_inside g xs)"
  by (simp add: enters_once_def)

definition log_ok :: "gate \<Rightarrow> bool" where
  "log_ok t \<longleftrightarrow> (\<forall>g. enters_once g (gt_log t) \<and> (role_inside g (gt_log t) \<longrightarrow> gt_roles t g \<noteq> None))"

text \<open>\<open>after P x\<close>: if \<open>x\<close> is a state, it has \<open>P\<close>.\<close>

definition after :: "('a \<Rightarrow> bool) \<Rightarrow> gate_fault + 'a \<Rightarrow> bool" where
  "after P x = (case x of Inl e \<Rightarrow> True | Inr t \<Rightarrow> P t)"

lemma after_simps [simp]: "after P (Inl e)" "after P (Inr t) = P t"
  by (simp_all add: after_def)

lemma after_and_then: "after P x \<Longrightarrow> (\<And>t. P t \<Longrightarrow> after Q (f t)) \<Longrightarrow> after Q (and_then x f)"
  by (cases x) auto

lemma after_deref: "(\<And>s. gt_sessions t a = Some s \<Longrightarrow> after P (f s)) \<Longrightarrow> after P (and_then (deref a t) f)"
  by (simp add: deref_def split: option.split)

lemma log_ok_fields [simp]:
  "log_ok (t\<lparr> gt_sessions := x1 \<rparr>) = log_ok t" "log_ok (t\<lparr> gt_next := x2 \<rparr>) = log_ok t"
  "log_ok (t\<lparr> gt_temp_guid := x3 \<rparr>) = log_ok t" "log_ok (t\<lparr> gt_routes := x4 \<rparr>) = log_ok t"
  "log_ok (t\<lparr> gt_thread_index := x5 \<rparr>) = log_ok t" "log_ok (t\<lparr> gt_input := x6 \<rparr>) = log_ok t"
  "log_ok (t\<lparr> gt_output := x7 \<rparr>) = log_ok t" "log_ok (t\<lparr> gt_cooling := x8 \<rparr>) = log_ok t"
  "log_ok (t\<lparr> gt_cleaned := x9 \<rparr>) = log_ok t" "log_ok (t\<lparr> gt_auths := x10 \<rparr>) = log_ok t"
  "log_ok (t\<lparr> gt_gs := x11 \<rparr>) = log_ok t" "log_ok (t\<lparr> gt_gs_maps := x12 \<rparr>) = log_ok t"
  "log_ok (t\<lparr> gt_gs_shutdown := x13 \<rparr>) = log_ok t" "log_ok (t\<lparr> gt_role_sessions := x14 \<rparr>) = log_ok t"
  "log_ok (set_session a s t) = log_ok t"
  by (simp_all add: log_ok_def set_session_def)

lemma log_ok_crossing:
  "log_ok t \<Longrightarrow> (\<And>g. \<not> crossing_enters g x) \<Longrightarrow> log_ok (log_crossing x t)"
  by (auto simp: log_ok_def log_crossing_def enters_once_snoc crossing_inside_def split: if_splits)

lemma log_ok_set_role: "log_ok t \<Longrightarrow> log_ok (set_role g r t)"
  by (auto simp: log_ok_def set_role_def)

lemma log_ok_enter:
  "log_ok t \<Longrightarrow> gt_roles t (gp_guid p) = None \<Longrightarrow>
    log_ok (log_crossing (To_gs gs p) (set_role (gp_guid p) r t))"
  by (auto simp: log_ok_def log_crossing_def set_role_def enters_once_snoc crossing_inside_def crossing_enters_def)

lemma log_ok_leave_gs: "log_ok t \<Longrightarrow> log_ok (leave_gs g t)"
  by (auto simp: leave_gs_def intro: log_ok_set_role split: option.split role_gs_state.split)

lemma log_ok_jump: "log_ok t \<Longrightarrow> log_ok (jump_map_success g m t)"
  by (auto simp: jump_map_success_def intro: log_ok_set_role split: option.split)

lemma not_enters [simp]:
  "\<not> crossing_enters g (From_gs gs p)" "\<not> crossing_enters g (To_role r p)" "\<not> crossing_enters g (To_client a p)"
  "\<not> crossing_enters g (To_login m)" "\<not> crossing_enters g (Role_cleaned h)" "\<not> crossing_enters g All_roles_cleaned"
  "gp_opcode p \<noteq> cmsg_player_enter_map \<Longrightarrow> \<not> crossing_enters g (To_gs gs p)"
  by (simp_all add: crossing_enters_def)

lemma log_ok_more [simp]:
  "log_ok t \<Longrightarrow> log_ok (send_client a p t)" "log_ok t \<Longrightarrow> log_ok (send_client_error_info a s c t)"
  "log_ok t \<Longrightarrow> log_ok (account_logout s t)" "log_ok t \<Longrightarrow> log_ok (send_role p t)"
  "log_ok t \<Longrightarrow> log_ok (put_input_packet s p t)" "log_ok t \<Longrightarrow> log_ok (put_output_packet s p t)"
  "log_ok t \<Longrightarrow> log_ok (register_gs m gs t)" "log_ok t \<Longrightarrow> log_ok (remove_gs_map m t)"
  "log_ok t \<Longrightarrow> log_ok (member_login ca t)" "log_ok t \<Longrightarrow> log_ok (remove_role_client_session g a t)"
  by (simp_all add: send_client_def send_client_error_info_def account_logout_def send_role_def put_input_packet_def
      put_output_packet_def register_gs_def remove_gs_map_def member_login_def remove_role_client_session_def
      log_ok_crossing split: list.split)

lemma log_ok_cleaned:
  "log_ok t \<Longrightarrow> log_ok (clean_unnormal_player g t)" "log_ok t \<Longrightarrow> log_ok (clean_all_player_status t)"
  by (auto simp: log_ok_def clean_unnormal_player_def clean_all_player_status_def log_crossing_def enters_once_snoc
      crossing_inside_def crossing_enters_def crossing_ends_def)

abbreviation log_kept :: "gate_fault + gate \<Rightarrow> bool" where
  "log_kept \<equiv> after log_ok"

lemma log_kept_enter_gs: "log_ok t \<Longrightarrow> log_kept (enter_gs g m t)"
  by (auto simp: enter_gs_def do_logoff_def Let_def intro: log_ok_set_role split: option.split role_gs_state.split)

lemma log_kept_handle_client_package:
  assumes "log_ok t"
  shows "after (\<lambda>(r, u). log_ok u) (handle_client_package p m t)"
proof -
  have "after (\<lambda>(r, u). log_ok u) (and_then (enter_gs (gp_guid p) m t) (\<lambda>t. Inr (0, t)))"
    by (rule after_and_then [OF log_kept_enter_gs [OF assms]]) simp
  moreover have "after (\<lambda>(r, u). log_ok u) (and_then (enter_gs (gp_guid p) m t) (\<lambda>t. Inr (0, log_crossing (To_gs gs p) t)))"
    if "can_enter_gs (gp_guid p) t" for gs
    using assms that by (simp add: enter_gs_def can_enter_gs_def log_ok_enter)
  ultimately show ?thesis
    using assms by (auto simp: handle_client_package_eq log_ok_crossing log_ok_leave_gs split: option.split)
qed

lemma log_kept_send_to_gs: "log_ok t \<Longrightarrow> log_kept (send_to_gs p m t)"
  unfolding send_to_gs_def by (rule after_and_then [OF log_kept_handle_client_package]) auto

lemma log_kept_enter_gs_success: "log_ok t \<Longrightarrow> log_kept (enter_gs_success g t)"
  by (auto simp: enter_gs_success_def send_logoff_msg_def Let_def intro: log_kept_send_to_gs log_ok_set_role
      split: option.split)

lemma log_kept_role_logoff_success: "log_ok t \<Longrightarrow> log_kept (role_logoff_success g t)"
  by (auto simp: role_logoff_success_def intro!: after_deref log_kept_send_to_gs split: option.split)

lemma log_kept_put_client_session: "log_ok t \<Longrightarrow> log_kept (put_client_session a t)"
  unfolding put_client_session_def by (rule after_deref) (simp add: Let_def)

lemma log_kept_put_output_package: "log_ok t \<Longrightarrow> log_kept (put_output_package p t)"
  by (auto simp: put_output_package_def intro!: after_deref split: option.split)

lemma after_routed:
  "P t \<Longrightarrow> (\<And>a s. gt_routes t g = Some a \<Longrightarrow> gt_sessions t a = Some s \<Longrightarrow> after P (f a s)) \<Longrightarrow>
    after P (case gt_routes t g of None \<Rightarrow> Inr t | Some a \<Rightarrow> and_then (deref a t) (f a))"
  by (simp add: after_deref split: option.split)

lemma log_kept_not_find_gs: "log_ok t \<Longrightarrow> log_kept (not_find_gs g t)"
  unfolding not_find_gs_def by (rule after_routed) (simp_all add: log_kept_put_client_session)

lemma log_kept_clean_role_info: "log_ok t \<Longrightarrow> log_kept (clean_role_info g t)"
  unfolding clean_role_info_def role_leave_map_def
  by (rule after_routed, assumption)
     (rule after_and_then [OF log_kept_send_to_gs], simp_all add: log_kept_put_client_session)

lemma log_kept_change_client_route: "log_ok t \<Longrightarrow> log_kept (change_client_route a h g t)"
  by (auto simp: change_client_route_def Let_def intro!: after_deref log_kept_put_client_session split: option.split)

lemma log_kept_client_enter_map:
  assumes "log_ok t"
  shows "log_kept (client_enter_map client g make_route t)"
  unfolding client_enter_map_def
proof (rule after_routed [where P = log_ok, OF assms])
  fix a s
  have "log_kept (and_then (deref a t) (\<lambda>s.
        let location = gate_map_guid (ar_map_id r);
            t = set_session a (s\<lparr> cs_line_no := ar_line_id r, cs_role_location := location \<rparr>) t;
            p = new_gpacket cmsg_player_enter_map g
                  (Cmsg_player_enter_map (ar_guid r) (ucast location) (Some (ar_line_id r))) in
        and_then (handle_client_package p location t) (\<lambda>(hr, t).
          if hr = - 1 then not_find_gs client t
          else and_then (deref a t) (\<lambda>s. Inr (set_session a (add_state as_enter_game s) t)))))"
    if "log_ok t" for t r
    unfolding Let_def using that
    by (intro after_deref after_and_then [OF log_kept_handle_client_package])
       (auto simp: log_kept_not_find_gs intro!: after_deref)
  then show "log_kept
       (case cs_roles s g of
          None \<Rightarrow> put_client_session a t
        | Some r \<Rightarrow>
            and_then (if make_route then change_client_route a (cs_role_guid s) g t else Inr t) (\<lambda>t.
            and_then (deref a t) (\<lambda>s.
              let location = gate_map_guid (ar_map_id r);
                  t = set_session a (s\<lparr> cs_line_no := ar_line_id r, cs_role_location := location \<rparr>) t;
                  p = new_gpacket cmsg_player_enter_map g
                        (Cmsg_player_enter_map (ar_guid r) (ucast location) (Some (ar_line_id r))) in
              and_then (handle_client_package p location t) (\<lambda>(hr, t).
                if hr = - 1 then not_find_gs client t
                else and_then (deref a t) (\<lambda>s. Inr (set_session a (add_state as_enter_game s) t))))))"
    using assms log_kept_change_client_route
    by (cases "cs_roles s g") (auto simp: log_kept_put_client_session intro: after_and_then [where P = log_ok])
qed

lemma log_kept_handle_role_logout: "log_ok t \<Longrightarrow> log_kept (handle_role_logout p t)"
  by (simp add: handle_role_logout_def log_kept_put_client_session split: option.split)

lemma validate_log_ok: "validate_client_session cfg now key t = (ca, u) \<Longrightarrow> log_ok u = log_ok t"
  by (auto simp: validate_client_session_def split: if_splits option.splits)

lemma log_kept_handle_validation:
  assumes "log_ok t"
  shows "log_kept (handle_validation_account cfg now p t)"
  unfolding handle_validation_account_def
proof (rule after_routed [where P = log_ok, OF assms])
  fix a s
  show "log_kept (case gp_body p of
      Cmsg_validate_account account session_id \<Rightarrow>
        (case validate_client_session cfg now session_id t of
           (Some ca, t) \<Rightarrow>
             (if gc_allowed cfg account (cs_client_ip s)
              then (let s = add_state as_validate_success (s\<lparr> cs_account_id := account \<rparr>);
                        s = s\<lparr> cs_line_no := ca_line_id ca, cs_addiction_flag := ca_addiction_flag ca \<rparr>;
                        t = set_session a s t;
                        t = log_crossing (To_login (Member_login_confirm account (cs_line_no s))) t in
                    Inr (send_role (new_gpacket cmsg_request_player_list (gp_guid p)
                           (Cmsg_request_player_list account)) t))
              else put_client_session a t)
         | (None, t) \<Rightarrow> put_client_session a (send_client_error_info a s 1 t))
    | _ \<Rightarrow> put_client_session a (send_client_error_info a s 1 t))"
    using assms
    by (auto simp: Let_def log_kept_put_client_session log_ok_crossing validate_log_ok
        split: gate_body.split prod.split option.split)
qed

lemma log_kept_handle_input_package:
  assumes "log_ok t"
  shows "log_kept (handle_input_package cfg now p t)"
proof -
  have "log_kept (handle_enter_map p t)"
    unfolding handle_enter_map_def clean_role_and_logoff_eq using assms
    by (intro after_routed) (auto intro: after_and_then [OF log_kept_clean_role_info] log_kept_client_enter_map
        split: gate_body.split)
  moreover have "log_kept (handle_player_make p t)"
    unfolding handle_player_make_def using assms by (cases "gp_body p") (auto intro: after_routed)
  moreover have "log_kept (handle_cmsg_loopback us p t)" for us
    unfolding handle_cmsg_loopback_def using assms
    by (intro after_routed) (auto simp: log_kept_send_to_gs split: gate_body.split)
  moreover have "log_kept (and_then (handle_client_package p m t)
      (\<lambda>(hr, t). if hr = - 1 then not_find_gs (gp_guid p) t else Inr t))" for m
    by (rule after_and_then [OF log_kept_handle_client_package [OF assms]]) (auto simp: log_kept_not_find_gs)
  ultimately show ?thesis
    using assms by (simp add: handle_input_package_def Let_def log_kept_handle_validation log_kept_handle_role_logout)
qed

lemma log_kept_handle_output_package:
  assumes "log_ok t"
  shows "log_kept (handle_output_package cfg now p t)"
proof -
  have "log_kept (handle_smsg_player_make p t)"
    unfolding handle_smsg_player_make_def using assms by (intro after_routed) (auto split: gate_body.split)
  moreover have "log_kept (handle_smsg_request_player_list cfg p t)"
    unfolding handle_smsg_request_player_list_def using assms
    by (intro after_routed) (auto simp: Let_def split: gate_body.split option.split)
  moreover have "log_kept (handle_player_jump_map p t)"
    unfolding handle_player_jump_map_def using assms
    by (auto simp: Let_def new_gpacket_def gate_opcodes intro!: after_deref log_ok_more(1) log_ok_crossing
        split: gate_body.split option.split)
  moreover have "log_kept (handle_smsg_loopback us p t)" for us
    unfolding handle_smsg_loopback_def using assms by (intro after_routed) (auto split: gate_body.split)
  moreover have "log_kept (case gt_routes t (gp_guid p) of None \<Rightarrow> Inr t
      | Some a \<Rightarrow> and_then (deref a t) (\<lambda>s. Inr (send_client a p t)))"
    using assms by (intro after_routed) auto
  ultimately show ?thesis
    using assms by (simp add: handle_output_package_def Let_def log_kept_handle_role_logout)
qed

lemma log_kept_gs_packet:
  assumes "log_ok t"
  shows "log_kept (gs_packet gs p t)"
proof -
  let ?t = "log_crossing (From_gs gs p) t"
  have t: "log_ok ?t" by (rule log_ok_crossing [OF assms]) simp
  have "log_kept (leave_gs_success (gp_guid p) ?t)" if "gp_opcode p = smsg_player_leave_map"
  proof -
    have "log_ok (?t\<lparr> gt_roles := (gt_roles ?t)(gp_guid p := None) \<rparr>)"
      using t that by (auto simp: log_ok_def log_crossing_def crossing_inside_def crossing_ends_def gate_opcodes)
    then show ?thesis unfolding leave_gs_success_def by (rule log_kept_role_logoff_success)
  qed
  moreover have "log_kept (case gp_body p of
      Smsg_player_jump_map target line \<Rightarrow> Inr (jump_map_success (gp_guid p) (gate_map_guid target) ?t) | _ \<Rightarrow> Inr ?t)"
    using t by (auto intro: log_ok_jump split: gate_body.split)
  ultimately have "log_kept
      (and_then
        (if gp_opcode p = smsg_create_self then enter_gs_success (gp_guid p) ?t
         else if gp_opcode p = smsg_player_jump_map then
           (case gp_body p of
              Smsg_player_jump_map target line \<Rightarrow> Inr (jump_map_success (gp_guid p) (gate_map_guid target) ?t)
            | _ \<Rightarrow> Inr ?t)
         else if gp_opcode p = smsg_player_leave_map then leave_gs_success (gp_guid p) ?t
         else Inr ?t)
        (put_output_package p))"
    using t by (intro after_and_then [where P = log_ok]) (auto simp: log_kept_enter_gs_success log_kept_put_output_package)
  then show ?thesis using t unfolding gs_packet_def Let_def by (simp add: log_ok_crossing)
qed

lemma log_kept_handle_close: "log_ok t \<Longrightarrow> log_kept (handle_close a t)"
  unfolding handle_close_def Let_def
  by (intro after_deref) (auto intro!: after_and_then [where P = log_ok] simp: log_kept_send_to_gs)

lemma log_kept_clean_sessions: "log_ok t \<Longrightarrow> log_kept (clean_sessions as t)"
proof (induction as arbitrary: t)
  case (Cons a as)
  have "log_kept (and_then (handle_close a t) (\<lambda>t. clean_sessions as (t\<lparr> gt_cleaned := gt_cleaned t @ [a] \<rparr>)))"
    by (rule after_and_then [OF log_kept_handle_close [OF Cons.prems]]) (simp add: Cons.IH)
  then show ?case using Cons by simp
qed simp

lemma log_kept_collect: "log_ok t \<Longrightarrow> log_kept (collect_role_client_session g a t)"
  by (auto simp: collect_role_client_session_def Let_def intro!: after_deref
      after_and_then [OF log_kept_put_client_session] split: option.split)

lemma log_kept_client_open: "log_ok t \<Longrightarrow> log_kept (client_open cfg ip t)"
  unfolding client_open_def get_temp_guid_def Let_def split_conv
  by (rule after_and_then [OF log_kept_collect]) (auto simp: assign_client_thread_def Let_def intro!: after_deref)

lemma log_kept_close_clients: "log_ok t \<Longrightarrow> log_kept (close_clients m as t)"
proof (induction as arbitrary: t)
  case (Cons a as)
  then show ?case
    by (auto intro!: after_deref after_and_then [OF log_kept_put_client_session])
qed simp

lemma log_kept_gs_closed:
  assumes "log_ok t"
  shows "log_kept (gs_closed gs online t)"
proof -
  have "log_kept (close_clients_of ms online t)" if "log_ok t" for ms t
    using that by (induction ms arbitrary: t) (auto intro: after_and_then [OF log_kept_close_clients])
  moreover have "log_ok (fold remove_gs_map ms u)" if "log_ok u" for ms u
    using that by (induction ms arbitrary: u) simp_all
  ultimately show ?thesis
    using assms by (auto simp: gs_closed_def intro!: after_and_then [where P = log_ok])
qed

lemma log_kept_gate_event: "log_ok t \<Longrightarrow> log_kept (do_gate_event cfg e t)"
  by (cases e)
     (simp_all add: do_gate_event_def log_kept_client_open client_sends_def handle_input_def handle_output_def
       log_kept_handle_input_package log_kept_handle_output_package cool_sessions_def Let_def log_kept_clean_sessions
       delete_session_def log_kept_put_output_package log_kept_gs_packet log_kept_gs_closed log_ok_cleaned
       clean_gate_unnormal_player_def after_and_then [OF log_kept_clean_role_info] split: option.split list.split)

lemma log_kept_gate_step: "log_kept x \<Longrightarrow> log_kept (gate_step cfg e x)"
  by (cases x) (auto simp: gate_step_def log_kept_gate_event)

interpretation gate_log: invariant_machine "gate_step cfg" "\<lambda>_ _. True" log_kept for cfg
  by unfold_locales (rule log_kept_gate_step)

lemma new_gate_log: "log_ok new_gate"
  by (simp add: log_ok_def new_gate_def enters_once_def role_inside_def)

end
