(* ===== verification/GateLogoff.thy ===== *)
theory GateLogoff
  imports GateRuns
begin

text \<open>
  While the game servers stay connected, the thread never blocks itself, and a role that is in a game server, or
  enters it and is to stay, has an open session; every other role in the table is on its way out.
\<close>

section \<open>Roles and their sessions\<close>

definition holder :: "gate \<Rightarrow> guid \<Rightarrow> bool" where
  "holder t g \<longleftrightarrow> (\<exists>a s. gt_routes t g = Some a \<and> gt_sessions t a = Some s \<and> has_state as_enter_game s)"

text \<open>A role that stays in the game until its session leaves.\<close>

definition stays :: "role_gs \<Rightarrow> bool" where
  "stays r \<longleftrightarrow> rg_state r = RGS_ENTER_GAME_SUCCESS \<or> rg_state r = RGS_ENTER_GAME \<and> \<not> rg_offline r"

definition settled :: "gate \<Rightarrow> guid \<Rightarrow> bool" where
  "settled t g \<longleftrightarrow> (\<forall>r. gt_roles t g = Some r \<longrightarrow> \<not> stays r)"

definition entered_ok :: "gate \<Rightarrow> client_session \<Rightarrow> bool" where
  "entered_ok t s \<longleftrightarrow>
     (has_state as_enter_game s \<longrightarrow> gt_gs t (cs_role_location s) \<noteq> None \<and> \<not> temporary (cs_role_guid s)) \<and>
     (\<forall>g \<in> dom (cs_roles s). \<not> temporary g)"

definition listed_roles :: "gpacket \<Rightarrow> guid list" where
  "listed_roles p =
     (case gp_body p of
        Smsg_player_make g m l \<Rightarrow> [g]
      | Smsg_request_player_list ps \<Rightarrow> map op_guid ps
      | _ \<Rightarrow> [])"

definition real_roles :: "gpacket \<Rightarrow> bool" where
  "real_roles p \<longleftrightarrow> list_all (\<lambda>g. \<not> temporary g) (listed_roles p)"

definition accounted_but :: "guid \<Rightarrow> gate \<Rightarrow> bool" where
  "accounted_but g t \<longleftrightarrow> (\<forall>a s. gt_sessions t a = Some s \<longrightarrow> entered_ok t s) \<and>
     (\<forall>h r. gt_roles t h = Some r \<longrightarrow> gt_gs t (rg_map_id r) \<noteq> None \<and> (h \<noteq> g \<and> stays r \<longrightarrow> holder t h)) \<and>
     (\<forall>i. \<forall>p \<in> set (gt_output t i). real_roles p)"

definition accounted :: "gate \<Rightarrow> bool" where
  "accounted t \<longleftrightarrow> (\<forall>a s. gt_sessions t a = Some s \<longrightarrow> entered_ok t s) \<and>
     (\<forall>h r. gt_roles t h = Some r \<longrightarrow> gt_gs t (rg_map_id r) \<noteq> None \<and> (stays r \<longrightarrow> holder t h)) \<and>
     (\<forall>i. \<forall>p \<in> set (gt_output t i). real_roles p)"

lemma accounted_iff: "accounted t \<longleftrightarrow> accounted_but g t \<and> (settled t g \<or> holder t g)"
  unfolding accounted_def accounted_but_def settled_def by blast

lemma accounted_entered: "accounted t \<Longrightarrow> gt_sessions t a = Some s \<Longrightarrow> entered_ok t s"
  by (simp add: accounted_def)

lemma accounted_settled:
  "accounted t \<Longrightarrow> gt_routes t g = Some a \<Longrightarrow> gt_sessions t a = Some s \<Longrightarrow> \<not> has_state as_enter_game s \<Longrightarrow> settled t g"
  by (auto simp: accounted_iff [of t g] holder_def)

lemma accounted_unrouted: "accounted t \<Longrightarrow> gt_routes t g = None \<Longrightarrow> settled t g"
  by (auto simp: accounted_iff [of t g] holder_def)

lemma accounted_but_route:
  "accounted_but g (t\<lparr> gt_routes := (gt_routes t)(g := x) \<rparr>) = accounted_but g t"
  by (auto simp: accounted_but_def holder_def entered_ok_def)

lemma remove_route_accounted:
  "accounted t \<Longrightarrow> settled t g \<Longrightarrow> accounted (t\<lparr> gt_routes := (gt_routes t)(g := None) \<rparr>)"
  unfolding accounted_iff [of _ g] accounted_but_route by (simp add: settled_def)

lemma add_route_accounted:
  "accounted t \<Longrightarrow> gt_routes t g = None \<Longrightarrow> accounted (t\<lparr> gt_routes := (gt_routes t)(g \<mapsto> a) \<rparr>)"
  unfolding accounted_iff [of _ g] accounted_but_route by (auto simp: settled_def holder_def)

lemma set_session_accounted:
  assumes "accounted t" "gt_sessions t a = Some s" "entered_ok t s'"
    and "has_state as_enter_game s \<Longrightarrow> has_state as_enter_game s'"
  shows "accounted (set_session a s' t)"
proof -
  have "holder t h \<Longrightarrow> holder (set_session a s' t) h" for h
    using assms(2,4) by (fastforce simp: holder_def)
  then show ?thesis using assms(1,3) by (auto simp: accounted_def entered_ok_def)
qed

text \<open>What may change without anything to show.\<close>

definition same_roles :: "gate \<Rightarrow> gate \<Rightarrow> bool" where
  "same_roles t u \<longleftrightarrow> gt_sessions u = gt_sessions t \<and> gt_routes u = gt_routes t \<and> gt_roles u = gt_roles t \<and>
     gt_gs u = gt_gs t \<and> gt_output u = gt_output t"

lemma same_roles_refl [simp]: "same_roles t t"
  by (simp add: same_roles_def)

lemma same_roles_accounted: "same_roles t u \<Longrightarrow> accounted u = accounted t"
  by (simp add: same_roles_def accounted_def entered_ok_def holder_def)

lemma same_roles_simps [simp]:
  "same_roles t (log_crossing x u) = same_roles t u"
  "same_roles t (u\<lparr> gt_log := l \<rparr>) = same_roles t u" "same_roles t (u\<lparr> gt_next := n \<rparr>) = same_roles t u"
  "same_roles t (u\<lparr> gt_input := i \<rparr>) = same_roles t u" "same_roles t (u\<lparr> gt_cooling := c \<rparr>) = same_roles t u"
  "same_roles t (u\<lparr> gt_cleaned := d \<rparr>) = same_roles t u" "same_roles t (u\<lparr> gt_auths := x3 \<rparr>) = same_roles t u"
  "same_roles t (u\<lparr> gt_role_sessions := x7 \<rparr>) = same_roles t u" "same_roles t (u\<lparr> gt_temp_guid := x8 \<rparr>) = same_roles t u"
  "same_roles t (u\<lparr> gt_thread_index := x9 \<rparr>) = same_roles t u"
  "same_roles t (send_client a p u) = same_roles t u" "same_roles t (send_client_error_info a s e u) = same_roles t u"
  "same_roles t (account_logout s u) = same_roles t u" "same_roles t (send_role p u) = same_roles t u"
  "same_roles t (put_input_packet s p u) = same_roles t u" "same_roles t (member_login ca u) = same_roles t u"
  by (simp_all add: same_roles_def log_crossing_def send_client_def send_client_error_info_def account_logout_def
      send_role_def put_input_packet_def member_login_def split: list.split)

lemma same_accounted: "accounted t \<Longrightarrow> same_roles t u \<Longrightarrow> accounted u"
  by (simp add: same_roles_accounted)

section \<open>Packets to the game servers\<close>

text \<open>A packet to a game server changes nothing but the role it names.\<close>

definition only_role :: "guid \<Rightarrow> gate \<Rightarrow> gate \<Rightarrow> bool" where
  "only_role g t u \<longleftrightarrow> same_sessions t u \<and> gt_gs u = gt_gs t \<and> gt_output u = gt_output t \<and>
     (\<forall>h. h \<noteq> g \<longrightarrow> gt_roles u h = gt_roles t h)"

lemma only_role_but:
  assumes "accounted_but g t" "only_role g t u"
    and "\<And>r. gt_roles u g = Some r \<Longrightarrow> gt_gs t (rg_map_id r) \<noteq> None"
  shows "accounted_but g u"
proof -
  have "holder u h = holder t h" "entered_ok u s = entered_ok t s" for h s
    using assms(2) by (simp_all add: only_role_def same_sessions_def holder_def entered_ok_def)
  then show ?thesis
    using assms unfolding accounted_but_def only_role_def same_sessions_def by (metis (no_types, lifting))
qed

lemma leave_gs_only: "only_role g t (leave_gs g t)"
  by (simp add: only_role_def leave_gs_def set_role_def same_sessions_def split: option.split role_gs_state.split)

lemma leave_gs_settled:
  assumes "accounted_but g t"
  shows "settled (leave_gs g t) g" "gt_roles (leave_gs g t) g = Some r \<Longrightarrow> gt_gs t (rg_map_id r) \<noteq> None"
  using assms
  by (auto simp: settled_def leave_gs_def set_role_def stays_def accounted_but_def
      split: option.splits role_gs_state.splits if_splits)

lemma send_leave:
  assumes but: "accounted_but g t" and p: "gp_opcode p = cmsg_player_leave_map" "gp_guid p = g"
    and s: "settled t g \<or> gt_gs t m \<noteq> None"
  shows "result False (\<lambda>u. accounted u \<and> same_sessions t u \<and> settled u g \<and> gt_gs u = gt_gs t) (send_to_gs p m t)"
proof (cases "gt_gs t m")
  case None
  then show ?thesis using but s by (simp add: send_to_gs_def handle_client_package_eq accounted_iff [of t g])
next
  case (Some gs)
  have op: "cmsg_player_leave_map \<noteq> cmsg_player_enter_map" by (simp add: gate_opcodes)
  show ?thesis
  proof (cases "can_leave_gs g t")
    case True
    let ?u = "log_crossing (To_gs gs p) (leave_gs g t)"
    have u: "only_role g t ?u" "settled ?u g" "gt_roles ?u g = gt_roles (leave_gs g t) g"
      using leave_gs_only [of g t] leave_gs_settled(1) [OF but]
      by (simp_all add: only_role_def log_crossing_def settled_def same_sessions_def)
    then have "accounted_but g ?u" using only_role_but [OF but u(1)] leave_gs_settled(2) [OF but] by simp
    then show ?thesis using u True Some p op
      by (simp add: send_to_gs_def handle_client_package_eq accounted_iff [of _ g] only_role_def)
  next
    case False
    then have "settled t g"
      by (auto simp: can_leave_gs_def settled_def stays_def split: option.splits role_gs_state.splits)
    then show ?thesis
      using but False Some p op by (simp add: send_to_gs_def handle_client_package_eq accounted_iff [of t g])
  qed
qed

lemma send_enter:
  assumes but: "accounted_but g t" and p: "gp_opcode p = cmsg_player_enter_map" "gp_guid p = g"
    and s: "settled t g" and gs: "gt_gs t m \<noteq> None"
  shows "result False (\<lambda>(r, u). r = 0 \<and> accounted_but g u \<and> same_sessions t u \<and> gt_gs u = gt_gs t)
    (handle_client_package p m t)"
proof (cases "gt_roles t g")
  case None
  let ?r = "\<lparr> rg_state = RGS_ENTER_GAME, rg_map_id = m, rg_role_guid = g, rg_offline = False \<rparr>"
  have "only_role g t (log_crossing x (set_role g ?r t))" for x
    by (simp add: only_role_def same_sessions_def log_crossing_def set_role_def)
  then have "accounted_but g (log_crossing x (set_role g ?r t))" for x
    by (rule only_role_but [OF but]) (use gs in \<open>simp add: log_crossing_def set_role_def\<close>)
  then show ?thesis
    using gs p None by (auto simp: handle_client_package_eq can_enter_gs_def enter_gs_def log_crossing_def set_role_def
        same_sessions_def)
next
  case (Some r)
  let ?u = "set_role g (r\<lparr> rg_offline := True \<rparr>) t"
  have "only_role g t ?u" by (simp add: only_role_def same_sessions_def set_role_def)
  moreover have "gt_gs t (rg_map_id r) \<noteq> None" using but Some by (simp add: accounted_but_def)
  ultimately have u: "accounted_but g ?u" by (intro only_role_but [OF but]) (auto simp: set_role_def)
  have "rg_state r \<noteq> RGS_ENTER_GAME_SUCCESS" using s Some by (auto simp: settled_def stays_def)
  then have "enter_gs g m t = Inr ?u"
    using Some by (cases "rg_state r") (simp_all add: enter_gs_def do_logoff_def)
  then show ?thesis
    using gs p Some u by (auto simp: handle_client_package_eq can_enter_gs_def set_role_def same_sessions_def)
qed

section \<open>The operations\<close>

abbreviation live :: "gate_fault + gate \<Rightarrow> bool" where
  "live \<equiv> result False accounted"

lemma put_client_session_result:
  assumes "gt_sessions t a = Some s"
  shows "put_client_session a t = Inr u \<Longrightarrow> gt_sessions u = (gt_sessions t)(a \<mapsto> s\<lparr> cs_in_cooler := True \<rparr>) \<and>
    gt_routes u = gt_routes t \<and> gt_roles u = gt_roles t \<and> gt_gs u = gt_gs t \<and> gt_output u = gt_output t"
  by (auto simp: put_client_session_eq [OF assms])

lemma entered_ok_fields [simp]:
  "entered_ok t (s\<lparr> cs_in_cooler := b \<rparr>) = entered_ok t s" "entered_ok t (s\<lparr> cs_line_no := l \<rparr>) = entered_ok t s"
  "entered_ok t (s\<lparr> cs_account_id := i \<rparr>) = entered_ok t s" "entered_ok t (s\<lparr> cs_addiction_flag := f \<rparr>) = entered_ok t s"
  "entered_ok t (s\<lparr> cs_thread := n \<rparr>) = entered_ok t s" "entered_ok t (s\<lparr> cs_closed := c \<rparr>) = entered_ok t s"
  "entered_ok t (s\<lparr> cs_login_again := c \<rparr>) = entered_ok t s"
  "has_state st (s\<lparr> cs_in_cooler := b \<rparr>) = has_state st s" "has_state st (s\<lparr> cs_line_no := l \<rparr>) = has_state st s"
  "has_state st (s\<lparr> cs_account_id := i \<rparr>) = has_state st s" "has_state st (s\<lparr> cs_addiction_flag := f \<rparr>) = has_state st s"
  "has_state st (s\<lparr> cs_thread := n \<rparr>) = has_state st s" "has_state st (s\<lparr> cs_closed := c \<rparr>) = has_state st s"
  "has_state st (s\<lparr> cs_login_again := c \<rparr>) = has_state st s" "has_state st (s\<lparr> cs_role_guid := g \<rparr>) = has_state st s"
  "has_state st (s\<lparr> cs_role_location := m \<rparr>) = has_state st s"
  by (simp_all add: entered_ok_def has_state_def)

lemma entered_ok_add_state:
  "as_enter_game AND st = 0 \<Longrightarrow> entered_ok t (add_state st s) = entered_ok t s"
  by (simp add: entered_ok_def has_state_add_state)

lemma accounted_cooling [simp]: "accounted (t\<lparr> gt_cooling := c \<rparr>) = accounted t"
  by (rule same_roles_accounted) simp

lemma put_client_session_live:
  assumes "accounted t" "gt_sessions t a = Some s"
  shows "live (put_client_session a t)"
proof -
  have "accounted (set_session a (s\<lparr> cs_in_cooler := True \<rparr>) t)"
    by (rule set_session_accounted [OF assms]) (use accounted_entered [OF assms] in simp_all)
  then show ?thesis by (simp add: put_client_session_eq [OF assms(2)])
qed

lemma put_added_live:
  assumes "accounted t" "gt_sessions t a = Some s" "as_enter_game AND st = 0"
  shows "live (put_client_session a (set_session a (add_state st s) t))"
proof -
  have "accounted (set_session a (add_state st s) t)"
    by (rule set_session_accounted [OF assms(1,2)])
       (use accounted_entered [OF assms(1,2)] assms(3) in \<open>simp_all add: entered_ok_add_state has_state_add_state\<close>)
  then show ?thesis by (rule put_client_session_live) simp
qed

text \<open>With the session invariant.\<close>

definition full :: "gate \<Rightarrow> bool" where "full t \<longleftrightarrow> sessions_ok t \<and> accounted t"

lemma result_full:
  "result True sessions_ok x \<Longrightarrow> live x \<Longrightarrow> result False full x"
  by (cases x) (auto simp: result_def full_def)

lemma live_routed:
  assumes "full t"
    and "\<And>a s. gt_routes t g = Some a \<Longrightarrow> gt_sessions t a = Some s \<Longrightarrow> routed_ok g s \<Longrightarrow> live (f a s)"
  shows "live (case gt_routes t g of None \<Rightarrow> Inr t | Some a \<Rightarrow> and_then (deref a t) (f a))"
  using assms by (intro result_routed) (auto simp: full_def)

lemma not_find_gs_live: "full t \<Longrightarrow> live (not_find_gs g t)"
  unfolding not_find_gs_def
  by (rule live_routed) (auto simp: full_def account_states intro: put_added_live)

text \<open>Cleaning a role: it is on its way out, and has no route.\<close>

lemma clean_role_info_live:
  assumes full: "full t"
  shows "result False (\<lambda>u. full u \<and> settled u g \<and> gt_routes u g = None \<and>
      (\<forall>h a. gt_routes u h = Some a \<longrightarrow> gt_routes t h = Some a \<and> gt_sessions u a = gt_sessions t a)) (clean_role_info g t)"
    (is "result False ?P _")
proof (cases "gt_routes t g")
  case None
  then show ?thesis using full accounted_unrouted by (simp add: clean_role_info_def full_def)
next
  case (Some a)
  have ok: "sessions_ok t" "accounted t" using full by (simp_all add: full_def)
  obtain s where s: "gt_sessions t a = Some s" using sessions_ok_route [OF ok(1) Some] by blast
  let ?t = "t\<lparr> gt_routes := (gt_routes t)(g := None) \<rparr>"
  have but: "accounted_but g ?t" using ok(2) by (simp add: accounted_but_route accounted_iff [of t g])
  have set: "settled ?t g \<or> gt_gs ?t (cs_role_location s) \<noteq> None"
    using accounted_settled [OF ok(2) Some s] accounted_entered [OF ok(2) s]
    by (cases "has_state as_enter_game s") (simp_all add: entered_ok_def settled_def)
  have leave: "result False (\<lambda>u. accounted u \<and> same_sessions ?t u \<and> settled u g \<and> gt_gs u = gt_gs ?t)
      (role_leave_map g (cs_role_location s) ?t)"
    unfolding role_leave_map_def by (rule send_leave [OF but _ _ set]) (simp_all add: new_gpacket_def)
  have put: "result False ?P (put_client_session a (set_session a (add_state as_leave_game s) u))"
    if u: "accounted u" "same_sessions ?t u" "settled u g" for u
  proof -
    have us: "sessions_ok u" "gt_sessions u a = Some s" "a \<notin> ran (gt_routes u)"
      using same_ok [OF remove_route_ok [OF ok(1)] u(2)] u(2) s removed_route_unrouted [OF ok(1) Some]
      by (simp_all add: same_sessions_def)
    have "live (put_client_session a (set_session a (add_state as_leave_game s) u))"
      by (rule put_added_live [OF u(1) us(2)]) (simp add: account_states)
    moreover have "res_ok (put_client_session a (set_session a (add_state as_leave_game s) u))"
      by (rule unrouted_put_ok [OF us])
    moreover have "gt_routes u h = Some b \<Longrightarrow> b \<noteq> a" for h b using us(3) by (auto simp: ran_def)
    ultimately show ?thesis
      using u(2,3) by (auto simp: put_client_session_eq full_def settled_def same_sessions_def fun_upd_apply split: if_splits)
  qed
  show ?thesis
    using leave by (simp add: clean_role_info_def Some deref_def s) (erule result_and_then, rule put, auto)
qed

text \<open>Entering with a new route: the session has not entered before, the role has no route and is on its way out.\<close>

lemma enter_with_route_live:
  assumes full: "full t" and r: "gt_routes t client = Some a" and s: "gt_sessions t a = Some s"
    and new: "\<not> has_state as_enter_game s" and role: "cs_roles s g = Some ro"
    and g: "settled t g" "gt_routes t g = None"
  shows "live (client_enter_map client g True t)"
proof -
  have ok: "sessions_ok t" "accounted t" using full by (simp_all add: full_def)
  have ro: "routed_ok client s" using sessions_okD(3) [OF ok(1) r] s by auto
  have eo: "entered_ok t s" by (rule accounted_entered [OF ok(2) s])
  have cg: "client \<noteq> g" using r g(2) by auto
  let ?s = "s\<lparr> cs_role_guid := g \<rparr>"
  define t1 where "t1 = t\<lparr> gt_routes := (gt_routes t)(client := None) \<rparr>"
  define t2 where "t2 = set_session a ?s t1"
  define t3 where "t3 = t2\<lparr> gt_routes := (gt_routes t2)(g \<mapsto> a) \<rparr>"
  have t1: "accounted t1" "gt_sessions t1 a = Some s"
    using remove_route_accounted [OF ok(2) accounted_settled [OF ok(2) r s new]] s by (simp_all add: t1_def)
  have "entered_ok t1 ?s" using eo new by (simp add: entered_ok_def t1_def)
  then have t2: "accounted t2" unfolding t2_def by (intro set_session_accounted [OF t1]) (simp_all add: new)
  have t3: "accounted t3"
    using add_route_accounted [OF t2] g(2) unfolding t3_def by (simp add: t2_def t1_def)
  have change: "change_client_route a (cs_role_guid s) g t = Inr t3"
    using ro s g(2) cg unfolding t3_def t2_def t1_def set_session_routes
    by (simp add: change_client_route_def deref_def routed_ok_def Let_def)
  have s3: "gt_sessions t3 a = Some ?s" "gt_routes t3 g = Some a" "gt_roles t3 = gt_roles t" "gt_gs t3 = gt_gs t"
    by (simp_all add: t3_def t2_def t1_def)
  define m where "m = gate_map_guid (ar_map_id ro)"
  define s4 where "s4 = ?s\<lparr> cs_line_no := ar_line_id ro, cs_role_location := m \<rparr>"
  define t4 where "t4 = set_session a s4 t3"
  have "entered_ok t3 s4" using accounted_entered [OF t3 s3(1)] new by (simp add: entered_ok_def s4_def)
  then have t4: "accounted t4" unfolding t4_def by (intro set_session_accounted [OF t3 s3(1)]) (simp_all add: new)
  have t4s: "settled t4 g" using g(1) by (simp add: settled_def t4_def s3)
  define p where "p = new_gpacket cmsg_player_enter_map g
      (Cmsg_player_enter_map (ar_guid ro) (ucast m) (Some (ar_line_id ro)))"
  have t4ok: "sessions_ok t4"
  proof -
    have "sessions_ok t3"
      using change_client_route_ok [OF ok(1) r s, of g] role change by auto
    then show ?thesis unfolding t4_def by (rule session_ok_update [OF _ s3(1)]) (simp_all add: s4_def)
  qed
  have "live (and_then (handle_client_package p m t4) (\<lambda>(hr, t).
          if hr = - 1 then not_find_gs client t
          else and_then (deref a t) (\<lambda>s. Inr (set_session a (add_state as_enter_game s) t))))"
  proof (cases "gt_gs t4 m")
    case None
    then show ?thesis
      using not_find_gs_live [of t4] t4 t4ok by (simp add: handle_client_package_eq full_def)
  next
    case (Some gs)
    have p: "gp_opcode p = cmsg_player_enter_map" "gp_guid p = g" by (simp_all add: p_def new_gpacket_def)
    have but: "accounted_but g t4" using t4 by (simp add: accounted_iff [of t4 g])
    have "result False (\<lambda>(r, u). r = 0 \<and> accounted_but g u \<and> same_sessions t4 u \<and> gt_gs u = gt_gs t4)
        (handle_client_package p m t4)"
      by (rule send_enter [OF but p t4s]) (simp add: Some)
    then show ?thesis
    proof (rule result_and_then)
      fix x :: "int \<times> gate"
      assume "case x of (r, u) \<Rightarrow> r = 0 \<and> accounted_but g u \<and> same_sessions t4 u \<and> gt_gs u = gt_gs t4"
      then obtain u where x: "x = (0, u)" and u: "accounted_but g u" "same_sessions t4 u" "gt_gs u = gt_gs t4"
        by (cases x) auto
      have ua: "gt_sessions u a = Some s4" "gt_routes u g = Some a"
        using u(2) s3(2) by (simp_all add: same_sessions_def t4_def)
      let ?u = "set_session a (add_state as_enter_game s4) u"
      have "\<not> temporary g" using eo role by (auto simp: entered_ok_def)
      then have "entered_ok ?u (add_state as_enter_game s4)"
        using accounted_entered [OF t4, of a s4] Some u(3) by (auto simp: entered_ok_def t4_def s4_def)
      moreover have "accounted_but g ?u"
      proof -
        have "holder u h \<Longrightarrow> holder ?u h" for h
          using ua by (fastforce simp: holder_def has_state_add_state)
        then show ?thesis using u(1) \<open>entered_ok ?u (add_state as_enter_game s4)\<close>
          by (auto simp: accounted_but_def entered_ok_def)
      qed
      moreover have "holder ?u g"
        using ua by (simp add: holder_def has_state_add_state account_states)
      ultimately have "accounted ?u" by (simp add: accounted_iff [of _ g])
      then show "live (case x of (hr, t) \<Rightarrow> if hr = - 1 then not_find_gs client t
          else and_then (deref a t) (\<lambda>s. Inr (set_session a (add_state as_enter_game s) t)))"
        by (simp add: x deref_def ua)
    qed
  qed
  then show ?thesis
    using r s role change s3(1)
    by (simp add: client_enter_map_def deref_def Let_def p_def [symmetric] m_def [symmetric] s4_def [symmetric] t4_def [symmetric])
qed

lemma handle_enter_map_live:
  assumes full: "full t"
  shows "live (handle_enter_map p t)"
  unfolding handle_enter_map_def
proof (rule live_routed [OF full])
  fix a s assume a: "gt_routes t (gp_guid p) = Some a" and s: "gt_sessions t a = Some s"
  show "live (if \<not> can_enter_game s then Inr t else (case gp_body p of
      Cmsg_player_enter_map g map_id line \<Rightarrow> and_then (clean_role_and_logoff g t) (client_enter_map (gp_guid p) g True)
    | _ \<Rightarrow> Inr t))"
  proof (cases "can_enter_game s")
    case True
    have "cs_real_role_guid s = 0"
      using full sessions_okD(2) [OF _ s] by (auto simp: full_def session_ok_def)
    with True have new: "\<not> has_state as_enter_game s" by (simp add: can_enter_game_def)
    have "live (and_then (clean_role_info g t) (client_enter_map (gp_guid p) g True))" for g
    proof (rule result_and_then [OF clean_role_info_live [OF full, of g]])
      fix u
      assume u: "full u \<and> settled u g \<and> gt_routes u g = None \<and>
        (\<forall>h a. gt_routes u h = Some a \<longrightarrow> gt_routes t h = Some a \<and> gt_sessions u a = gt_sessions t a)"
      show "live (client_enter_map (gp_guid p) g True u)"
      proof (cases "gt_routes u (gp_guid p)")
        case None
        then show ?thesis using u by (simp add: client_enter_map_def full_def)
      next
        case (Some b)
        then have b: "b = a" "gt_sessions u b = Some s" using u a s by auto
        show ?thesis
        proof (cases "cs_roles s g")
          case None
          then show ?thesis
            using Some b u put_client_session_live by (simp add: client_enter_map_def deref_def full_def)
        next
          case role: (Some ro)
          show ?thesis using u b by (intro enter_with_route_live [OF _ Some b(2) new role]) auto
        qed
      qed
    qed
    then show ?thesis using full by (simp add: clean_role_and_logoff_eq full_def split: gate_body.split)
  qed (use full in \<open>simp add: full_def\<close>)
qed

lemma same_live: "accounted t \<Longrightarrow> same_roles t u \<Longrightarrow> live (Inr u)"
  by (simp add: same_roles_accounted)

lemma handle_role_logout_live:
  assumes "full t"
  shows "live (handle_role_logout p t)"
proof (cases "gt_routes t (gp_guid p)")
  case (Some a)
  obtain s where "gt_sessions t a = Some s" using sessions_ok_route [OF _ Some] assms by (auto simp: full_def)
  then show ?thesis using assms Some put_client_session_live by (simp add: handle_role_logout_def full_def)
qed (use assms in \<open>simp add: handle_role_logout_def full_def\<close>)

lemma put_error_live:
  assumes "accounted t" "gt_sessions t a = Some s"
  shows "live (put_client_session a (send_client_error_info a s c t))"
proof -
  have same: "same_roles t (send_client_error_info a s c t)" by simp
  then have "gt_sessions (send_client_error_info a s c t) a = Some s"
    using assms(2) unfolding same_roles_def by simp
  then show ?thesis by (rule put_client_session_live [OF same_accounted [OF assms(1) same]])
qed

lemma handle_validation_live:
  assumes full: "full t"
  shows "live (handle_validation_account cfg now p t)"
  unfolding handle_validation_account_def
proof (rule live_routed [OF full])
  fix a s assume s: "gt_sessions t a = Some s"
  have acc: "accounted t" using full by (simp add: full_def)
  have eo: "entered_ok t s" by (rule accounted_entered [OF acc s])
  have "live (case validate_client_session cfg now key t of
         (Some ca, t) \<Rightarrow>
           (if gc_allowed cfg account (cs_client_ip s)
            then (let s = add_state as_validate_success (s\<lparr> cs_account_id := account \<rparr>);
                      s = s\<lparr> cs_line_no := ca_line_id ca, cs_addiction_flag := ca_addiction_flag ca \<rparr>;
                      t = set_session a s t;
                      t = log_crossing (To_login (Member_login_confirm account (cs_line_no s))) t in
                  Inr (send_role (new_gpacket cmsg_request_player_list (gp_guid p)
                         (Cmsg_request_player_list account)) t))
            else put_client_session a t)
       | (None, t) \<Rightarrow> put_client_session a (send_client_error_info a s 1 t))" for key account
  proof -
    obtain ca u where v: "validate_client_session cfg now key t = (ca, u)" by (cases "validate_client_session cfg now key t")
    have u: "same_roles t u" using v by (auto simp: validate_client_session_def split: if_splits option.splits)
    have us: "accounted u" "gt_sessions u a = Some s" "gt_gs u = gt_gs t"
      using same_accounted [OF acc u] s u by (simp_all add: same_roles_def)
    let ?s = "\<lambda>c :: client_auth. add_state as_validate_success (s\<lparr> cs_account_id := account \<rparr>)
        \<lparr> cs_line_no := ca_line_id c, cs_addiction_flag := ca_addiction_flag c \<rparr>"
    have sess: "accounted (set_session a (?s c) u)" for c :: client_auth
      by (rule set_session_accounted [OF us(1,2)])
         (use eo us(3) in \<open>simp_all add: entered_ok_add_state account_states has_state_add_state\<close>,
          simp_all add: entered_ok_def)
    have "accounted (send_role q (log_crossing l (set_session a (?s c) u)))" for q l and c :: client_auth
      by (rule same_accounted [OF sess [of c]]) simp
    then show ?thesis
      using put_error_live [OF us(1,2)] put_client_session_live [OF us(1,2)]
      by (cases ca) (simp_all add: v Let_def)
  qed
  then show "live (case gp_body p of
      Cmsg_validate_account account session_id \<Rightarrow>
        (case validate_client_session cfg now session_id t of
           (Some ca, t) \<Rightarrow>
             (if gc_allowed cfg account (cs_client_ip s)
              then (let s = add_state as_validate_success (s\<lparr> cs_account_id := account \<rparr>);
                        s = s\<lparr> cs_line_no := ca_line_id ca, cs_addiction_flag := ca_addiction_flag ca \<rparr>;
                        t = set_session a s t;
                        t = log_crossing (To_login (Member_login_confirm account (cs_line_no s))) t in
                    Inr (send_role (new_gpacket cmsg_request_player_list (gp_guid p)
                           (Cmsg_request_player_list account)) t))
              else put_client_session a t)
         | (None, t) \<Rightarrow> put_client_session a (send_client_error_info a s 1 t))
    | _ \<Rightarrow> put_client_session a (send_client_error_info a s 1 t))"
    using put_error_live [OF acc s] by (cases "gp_body p") simp_all
qed

text \<open>Other packets of clients are passed on.\<close>

lemma pass_on:
  assumes "accounted t" "gp_opcode p \<notin> {cmsg_player_enter_map, cmsg_player_leave_map}"
  shows "result False (\<lambda>(r, u). same_roles t u \<and> same_sessions t u) (handle_client_package p m t)"
  using assms by (auto simp: handle_client_package_eq split: option.split)

lemma handle_input_package_live:
  assumes full: "full t"
  shows "live (handle_input_package cfg now p t)"
proof -
  have acc: "accounted t" using full by (simp add: full_def)
  have role: "accounted (send_role q t)" for q by (rule same_accounted [OF acc]) simp
  have "live (handle_player_make p t)"
    using acc live_routed [OF full, of "gp_guid p" "\<lambda>a s. Inr (send_role (new_gpacket (gp_opcode p) (gp_guid p)
      (Cmsg_player_make (cs_account_id s) n (cs_gm_level s))) t)" for n] role
    by (cases "gp_body p") (simp_all add: handle_player_make_def)
  moreover have "live (handle_cmsg_loopback us p t)" if "gp_opcode p = cmsg_loopback" for us
    unfolding handle_cmsg_loopback_def
  proof (rule live_routed [OF full])
    fix a s
    have "live (send_to_gs q m t)" if "gp_opcode q = cmsg_loopback" for q m
      unfolding send_to_gs_def
      by (rule result_and_then [OF pass_on [OF acc]]) (use that in \<open>auto simp: gate_opcodes intro: same_accounted [OF acc]\<close>)
    then show "live (case gp_body p of
        Cmsg_loopback sent elapse \<Rightarrow>
          send_to_gs ((new_gpacket (gp_opcode p) (gp_guid p) (Cmsg_loopback sent us))
            \<lparr> gp_location := cs_role_location s \<rparr>) (cs_role_location s) t
      | _ \<Rightarrow> Inr t)"
      using acc that by (auto simp: new_gpacket_def split: gate_body.split)
  qed
  moreover have "live (and_then (handle_client_package p m t)
      (\<lambda>(hr, t). if hr = - 1 then not_find_gs (gp_guid p) t else Inr t))"
    if "gp_opcode p \<notin> {cmsg_player_enter_map, cmsg_player_leave_map}" for m
  proof (rule result_and_then [OF pass_on [OF acc that]])
    fix x :: "int \<times> gate" assume "case x of (r, u) \<Rightarrow> same_roles t u \<and> same_sessions t u"
    then obtain r u where x: "x = (r, u)" "same_roles t u" "same_sessions t u" by (cases x) auto
    then have "full u" using full same_accounted [of t u] same_ok [of t u] by (simp add: full_def)
    then show "live (case x of (hr, t) \<Rightarrow> if hr = - 1 then not_find_gs (gp_guid p) t else Inr t)"
      using not_find_gs_live by (simp add: x full_def)
  qed
  ultimately show ?thesis
    using full acc role by (simp add: handle_input_package_def Let_def handle_validation_live handle_enter_map_live handle_role_logout_live)
qed

section \<open>Packets for clients, and from the servers\<close>

lemma player_line_info_entered:
  "entered_ok t s \<Longrightarrow> \<not> temporary g \<Longrightarrow> entered_ok t (player_line_info g m l s)"
  unfolding entered_ok_def player_line_info_fields by (auto simp: player_line_info_def)

lemma listed_accounted:
  assumes "accounted t" "gt_sessions t a = Some s" "\<not> temporary g"
  shows "accounted (set_session a (player_line_info g m l (add_state as_get_role_list s)) t)"
proof (rule set_session_accounted [OF assms(1,2)])
  have "entered_ok t (add_state as_get_role_list s)"
    using accounted_entered [OF assms(1,2)] by (simp add: entered_ok_add_state account_states)
  then show "entered_ok t (player_line_info g m l (add_state as_get_role_list s))"
    using assms(3) by (rule player_line_info_entered)
  show "has_state as_enter_game (player_line_info g m l (add_state as_get_role_list s))" if "has_state as_enter_game s"
    using that by (simp add: has_state_add_state)
qed

lemma send_client_accounted [simp]: "accounted (send_client a p t) = accounted t"
  by (rule same_roles_accounted) simp

lemma handle_smsg_player_make_live:
  assumes "full t" "real_roles p"
  shows "live (handle_smsg_player_make p t)"
  unfolding handle_smsg_player_make_def
  by (rule live_routed [OF assms(1)])
     (use assms in \<open>auto simp: full_def real_roles_def listed_roles_def listed_accounted split: gate_body.split\<close>)

lemma handle_smsg_request_player_list_live:
  assumes "full t" "real_roles p"
  shows "live (handle_smsg_request_player_list cfg p t)"
  unfolding handle_smsg_request_player_list_def
proof (rule live_routed [OF assms(1)])
  fix a s assume s: "gt_sessions t a = Some s"
  have acc: "accounted t" using assms(1) by (simp add: full_def)
  have "accounted (set_session a (add_state as_get_role_list s) t)"
    by (rule set_session_accounted [OF acc s])
       (use accounted_entered [OF acc s] in \<open>simp_all add: entered_ok_add_state has_state_add_state account_states\<close>)
  moreover have "\<not> temporary (op_guid q)" if "gp_body p = Smsg_request_player_list ps" "available_player l ps = Some q" for ps l q
  proof -
    have "q \<in> set ps"
      using that(2) by (auto simp: available_player_def find_Some_iff split: option.splits list.splits)
    then show ?thesis using assms(2) that(1) by (auto simp: real_roles_def listed_roles_def list_all_iff)
  qed
  ultimately show "live (case gp_body p of
      Smsg_request_player_list ps \<Rightarrow>
        (let s = add_state as_get_role_list s in
         case available_player (cs_line_no s) ps of
           None \<Rightarrow>
             Inr (send_client a (new_gpacket (gp_opcode p) (gp_guid p) (Smsg_request_player_list []))
               (set_session a s t))
         | Some q \<Rightarrow>
             (let map_id = gc_map_of cfg (op_map_id q);
                  shown = q\<lparr> op_map_id := (if op_map_id q > 99999 then op_map_id q div 1000 else map_id) \<rparr> in
              Inr (send_client a (new_gpacket (gp_opcode p) (gp_guid p) (Smsg_request_player_list [shown]))
                (set_session a (player_line_info (op_guid q) map_id (op_line_id q) s) t))))
    | _ \<Rightarrow> Inr t)"
    using acc listed_accounted [OF acc s]
    by (auto simp: Let_def split: gate_body.split option.split)
qed

lemma handle_player_jump_map_live:
  assumes "full t"
  shows "live (handle_player_jump_map p t)"
proof -
  have acc: "accounted t" using assms by (simp add: full_def)
  have set: "accounted (set_session a (s\<lparr> cs_role_location := m \<rparr>) t)"
    if "gt_sessions t a = Some s" "gt_gs t m = Some gs" for a s m gs
    by (rule set_session_accounted [OF acc that(1)])
       (use accounted_entered [OF acc that(1)] that(2) in \<open>auto simp: entered_ok_def\<close>)
  have log: "accounted (log_crossing x u) = accounted u" for x u by (rule same_roles_accounted) simp
  have route: "\<exists>s. gt_sessions t a = Some s" if "gt_routes t g = Some a" for g a
    using sessions_okD(3) [of t g a] that assms by (auto simp: full_def)
  show ?thesis
  proof (cases "gp_body p")
    case (Smsg_player_jump_map target line)
    show ?thesis
    proof (cases "gt_routes t (gp_guid p)")
      case None
      then show ?thesis
        using acc log by (simp add: handle_player_jump_map_def Smsg_player_jump_map Let_def split: option.split)
    next
      case (Some a)
      then obtain s where "gt_sessions t a = Some s" using route by blast
      then show ?thesis
        using acc log set Some
        by (simp add: handle_player_jump_map_def Smsg_player_jump_map Let_def deref_def split: option.split)
    qed
  qed (use acc in \<open>simp_all add: handle_player_jump_map_def\<close>)
qed

lemma handle_output_package_live:
  assumes full: "full t" and real: "real_roles p"
  shows "live (handle_output_package cfg now p t)"
proof -
  have acc: "accounted t" using full by (simp add: full_def)
  have "live (handle_smsg_loopback us p t)" for us
    unfolding handle_smsg_loopback_def
    by (rule live_routed [OF full]) (use acc in \<open>auto split: gate_body.split\<close>)
  moreover have "live (case gt_routes t (gp_guid p) of None \<Rightarrow> Inr t
      | Some a \<Rightarrow> and_then (deref a t) (\<lambda>s. Inr (send_client a p t)))"
    by (rule live_routed [OF full]) (use acc in simp)
  ultimately show ?thesis
    using acc handle_smsg_player_make_live [OF full real] handle_smsg_request_player_list_live [OF full real]
      handle_player_jump_map_live [OF full] handle_role_logout_live [OF full]
    by (simp add: handle_output_package_def Let_def)
qed

lemma put_output_package_live:
  assumes full: "full t" and real: "real_roles p"
  shows "live (put_output_package p t)"
  unfolding put_output_package_def
proof (rule live_routed [OF full])
  fix a s
  have "accounted (put_output_packet s p t)"
    using full real by (auto simp: full_def put_output_packet_def accounted_def entered_ok_def holder_def)
  then show "live (Inr (put_output_packet s p t))" by simp
qed

text \<open>The role has entered the game server: it stays, or it is sent out at once.\<close>

lemma enter_gs_success_live:
  assumes acc: "accounted t"
  shows "live (enter_gs_success g t)"
proof (cases "gt_roles t g")
  case (Some r)
  show ?thesis
  proof (cases "rg_state r = RGS_ENTER_GAME")
    case True
    let ?t = "set_role g (r\<lparr> rg_state := RGS_ENTER_GAME_SUCCESS \<rparr>) t"
    have gs: "gt_gs t (rg_map_id r) \<noteq> None" using acc Some by (auto simp: accounted_def)
    have only: "only_role g t ?t" by (simp add: only_role_def same_sessions_def set_role_def)
    have but: "accounted_but g ?t"
      by (rule only_role_but [OF _ only]) (use acc gs in \<open>simp_all add: accounted_iff [of t g] set_role_def\<close>)
    show ?thesis
    proof (cases "rg_offline r")
      case off: True
      have "result False (\<lambda>u. accounted u \<and> same_sessions ?t u \<and> settled u g \<and> gt_gs u = gt_gs ?t)
          (send_logoff_msg g (rg_map_id r) ?t)"
        unfolding send_logoff_msg_def
        by (rule send_leave [OF but]) (use gs in \<open>simp_all add: new_gpacket_def set_role_def\<close>)
      then have "live (send_logoff_msg g (rg_map_id r) ?t)" by (rule result_mono) simp
      then show ?thesis using Some True off by (simp add: enter_gs_success_def)
    next
      case False
      then have "\<not> settled t g" using Some True by (simp add: settled_def stays_def)
      then have "holder t g" using acc by (simp add: accounted_iff [of t g])
      then have "holder ?t g" by (simp add: holder_def set_role_def)
      then show ?thesis using but Some True False by (simp add: enter_gs_success_def accounted_iff [of ?t g])
    qed
  qed (simp add: enter_gs_success_def Some acc)
qed (simp add: enter_gs_success_def acc)

lemma clear_role_accounted:
  "accounted t \<Longrightarrow> accounted (t\<lparr> gt_roles := (gt_roles t)(g := None) \<rparr>)"
  by (auto simp: accounted_def holder_def entered_ok_def)

lemma leave_gs_success_live:
  assumes full: "full t"
  shows "live (leave_gs_success g t)"
proof -
  let ?t = "t\<lparr> gt_roles := (gt_roles t)(g := None) \<rparr>"
  have acc: "accounted ?t" using full clear_role_accounted by (simp add: full_def)
  have ok: "sessions_ok ?t" by (rule same_ok [of t]) (use full in \<open>simp_all add: full_def\<close>)
  have "full ?t" using acc ok by (simp add: full_def)
  then show ?thesis
    unfolding leave_gs_success_def role_logoff_success_def
  proof (rule live_routed)
    fix a s assume r: "gt_routes ?t g = Some a" and s: "gt_sessions ?t a = Some s"
    show "live (if has_state as_enter_game s
        then send_to_gs (new_gpacket cmsg_player_enter_map g
            (Cmsg_player_enter_map g (ucast (cs_role_location s AND 0xFFFFFF)) None)) (cs_role_location s) ?t
        else Inr ?t)"
    proof (cases "has_state as_enter_game s")
      case True
      have but: "accounted_but g ?t" using acc by (simp add: accounted_iff [of ?t g])
      have gs: "gt_gs ?t (cs_role_location s) \<noteq> None" using accounted_entered [OF acc s] True by (simp add: entered_ok_def)
      have h: "holder u g" if "same_sessions ?t u" for u
        using that r s True by (auto simp: same_sessions_def holder_def)
      have "live (send_to_gs (new_gpacket cmsg_player_enter_map g b) (cs_role_location s) ?t)" for b
        unfolding send_to_gs_def
        by (rule result_and_then [OF send_enter [OF but _ _ _ gs]])
           (auto simp: new_gpacket_def settled_def accounted_iff [of _ g] h)
      then show ?thesis using True by simp
    qed (use acc in simp)
  qed
qed

lemma jump_map_accounted:
  "accounted t \<Longrightarrow> gt_gs t m \<noteq> None \<Longrightarrow> accounted (jump_map_success g m t)"
  by (auto simp: accounted_def jump_map_success_def set_role_def holder_def entered_ok_def stays_def split: option.split)

text \<open>The packets of a game server that the gate may rely on: the roles they list are no temporary guids, and a role
  jumps to a map that a game server has.\<close>

definition gs_packet_allowed :: "gpacket \<Rightarrow> gate \<Rightarrow> bool" where
  "gs_packet_allowed p t \<longleftrightarrow> real_roles p \<and>
     (gp_opcode p = smsg_player_jump_map \<longrightarrow>
       (case gp_body p of Smsg_player_jump_map target line \<Rightarrow> gt_gs t (gate_map_guid target) \<noteq> None | _ \<Rightarrow> True))"

lemma gs_packet_live:
  assumes full: "full t" and al: "gs_packet_allowed p t"
  shows "live (gs_packet gs p t)"
proof -
  let ?t = "log_crossing (From_gs gs p) t"
  have acc: "accounted ?t" by (rule same_accounted [of t]) (use full in \<open>simp_all add: full_def\<close>)
  have ft: "full ?t" using acc full by (simp add: full_def)
  have gs: "gt_gs ?t = gt_gs t" by (simp add: log_crossing_def)
  let ?x = "if gp_opcode p = smsg_create_self then enter_gs_success (gp_guid p) ?t
         else if gp_opcode p = smsg_player_jump_map then
           (case gp_body p of
              Smsg_player_jump_map target line \<Rightarrow> Inr (jump_map_success (gp_guid p) (gate_map_guid target) ?t)
            | _ \<Rightarrow> Inr ?t)
         else if gp_opcode p = smsg_player_leave_map then leave_gs_success (gp_guid p) ?t
         else Inr ?t"
  have x: "live ?x"
    using acc al gs enter_gs_success_live [OF acc] leave_gs_success_live [OF ft]
    by (auto simp: gs_packet_allowed_def intro: jump_map_accounted split: gate_body.split)
  have ok: "sessions_ok (?t\<lparr> gt_roles := r \<rparr>)" for r
    by (rule same_ok [of ?t]) (use ft in \<open>simp_all add: full_def\<close>)
  have "res_ok ?x"
  proof -
    have "res_ok (enter_gs_success g ?t)" for g
      by (rule result_same [of ?t]) (use ft in \<open>simp_all add: full_def result_enter_gs_success\<close>)
    moreover have "res_ok (leave_gs_success g ?t)" for g
      unfolding leave_gs_success_def
      by (rule result_same [of ?t], use ft in \<open>simp add: full_def\<close>) (rule result_role_logoff_success [OF ok], simp)
    moreover have "sessions_ok (jump_map_success g m ?t)" for g m
      by (rule same_ok [of ?t]) (use ft in \<open>simp_all add: full_def\<close>)
    ultimately show ?thesis using ft by (simp add: full_def split: gate_body.split)
  qed
  then have "result False full ?x" using x by (rule result_full)
  then have "live (and_then ?x (put_output_package p))"
    by (rule result_and_then) (use al put_output_package_live in \<open>simp add: gs_packet_allowed_def\<close>)
  then show ?thesis
    using acc same_live [OF acc, of "log_crossing l ?t" for l] unfolding gs_packet_def Let_def by simp
qed

end
