(* ===== verification/GateLive.thy ===== *)
theory GateLive
  imports GateLogoff
begin

text \<open>
  The rest of the gate's events for the invariant of \<^verbatim>\<open>GateLogoff\<close>: connections that come and go, and the runs.
\<close>

section \<open>Connections\<close>

lemma result_both:
  "result True P x \<Longrightarrow> result False Q x \<Longrightarrow> result False (\<lambda>t. P t \<and> Q t) x"
  by (cases x) (auto simp: result_def)

lemma remove_role_client_session_accounted:
  assumes "accounted t" "gt_routes t g = Some a \<Longrightarrow> settled t g"
  shows "accounted (remove_role_client_session g a t)"
  using assms by (simp add: remove_role_client_session_def remove_route_accounted)

lemma handle_close_live:
  assumes full: "full t" and s: "gt_sessions t a = Some s"
  shows "live (handle_close a t)"
proof -
  let ?g = "cs_role_guid s" and ?t = "set_session a (s\<lparr> cs_closed := True \<rparr>) t"
  have ok: "sessions_ok t" and acc: "accounted t" using full by (simp_all add: full_def)
  have eo: "entered_ok t s" by (rule accounted_entered [OF acc s])
  have real: "cs_real_role_guid s = 0" using sessions_okD(2) [OF ok s] by (simp add: session_ok_def)
  have t: "accounted ?t" by (rule set_session_accounted [OF acc s]) (use eo in simp_all)
  have routed: "routed_ok h s" if "gt_routes t h = Some a" for h
    using sessions_okD(3) [OF ok that] s by auto
  have log: "accounted (account_logout s u) = accounted u" for u by (rule same_roles_accounted) simp
  show ?thesis
  proof (cases "cs_login_again s")
    case True
    then have "gt_routes t ?g \<noteq> Some a" using routed by (auto simp: routed_ok_def)
    then show ?thesis
      using True t s by (simp add: handle_close_def deref_def remove_role_client_session_def Let_def)
  next
    case False
    define leave where "leave = (if has_state as_enter_game s \<and> \<not> has_state as_leave_game s
       then send_to_gs (new_gpacket cmsg_player_leave_map ?g (Cmsg_player_leave_map 1)) (cs_role_location s) ?t
       else Inr ?t)"
    have "result False (\<lambda>u. accounted u \<and> same_sessions ?t u \<and> (gt_routes ?t ?g = Some a \<longrightarrow> settled u ?g)) leave"
    proof (cases "has_state as_enter_game s \<and> \<not> has_state as_leave_game s")
      case True
      have but: "accounted_but ?g ?t" using t by (simp add: accounted_iff [of ?t ?g])
      have gs: "settled ?t ?g \<or> gt_gs ?t (cs_role_location s) \<noteq> None" using eo True by (simp add: entered_ok_def)
      have p: "gp_opcode (new_gpacket cmsg_player_leave_map ?g b) = cmsg_player_leave_map"
        "gp_guid (new_gpacket cmsg_player_leave_map ?g b) = ?g" for b by (simp_all add: new_gpacket_def)
      show ?thesis unfolding leave_def if_P [OF True]
        by (rule result_mono [OF send_leave [OF but p gs]]) simp
    next
      case False
      have "settled t ?g" if "gt_routes t ?g = Some a"
        using accounted_settled [OF acc that s] routed [OF that] False by (auto simp: routed_ok_def)
      then show ?thesis using False t by (auto simp: leave_def settled_def)
    qed
    then have "live (and_then leave (\<lambda>t. Inr (account_logout s (remove_role_client_session ?g a t))))"
      by (rule result_and_then)
         (auto simp: log same_sessions_def intro: remove_role_client_session_accounted)
    moreover have "handle_close a t =
        and_then leave (\<lambda>t. Inr (account_logout s (remove_role_client_session ?g a t)))"
      using False real by (simp add: handle_close_def deref_def s leave_def Let_def)
    ultimately show ?thesis by simp
  qed
qed

lemma clean_sessions_live:
  assumes "full t" "gt_cooling t = []"
    and "\<And>a. a \<in> set as \<Longrightarrow> \<exists>s. gt_sessions t a = Some s \<and> cs_in_cooler s"
  shows "live (clean_sessions as t)"
  using assms
proof (induction as arbitrary: t)
  case (Cons a as)
  show ?case
  proof (cases "a \<in> set (gt_cleaned t)")
    case False
    obtain s where s: "gt_sessions t a = Some s" "cs_in_cooler s" using Cons.prems(3) [of a] by auto
    have ok: "sessions_ok t" using Cons.prems(1) by (simp add: full_def)
    have cool: "a \<notin> set (gt_cooling t)" using Cons.prems(2) by simp
    have "live (and_then (handle_close a t) (\<lambda>t. clean_sessions as (t\<lparr> gt_cleaned := gt_cleaned t @ [a] \<rparr>)))"
    proof (rule result_and_then [OF result_both [OF handle_close_ok [OF ok s(1) False s(2) cool]
          handle_close_live [OF Cons.prems(1) s(1)]]])
      fix u assume u: "(sessions_ok (u\<lparr> gt_cleaned := gt_cleaned u @ [a] \<rparr>) \<and> gt_cooling u = gt_cooling t \<and>
        (\<forall>b. b \<noteq> a \<longrightarrow> gt_sessions u b = gt_sessions t b) \<and>
        gt_cleaned u = gt_cleaned t \<and> gt_sessions u a = Some (s\<lparr> cs_closed := True \<rparr>)) \<and> accounted u"
      have acc: "accounted (u\<lparr> gt_cleaned := c \<rparr>)" for c by (rule same_accounted [OF conjunct2 [OF u]]) simp
      show "live (clean_sessions as (u\<lparr> gt_cleaned := gt_cleaned u @ [a] \<rparr>))"
      proof (rule Cons.IH)
        show "full (u\<lparr> gt_cleaned := gt_cleaned u @ [a] \<rparr>)" unfolding full_def using u acc by blast
        show "gt_cooling (u\<lparr> gt_cleaned := gt_cleaned u @ [a] \<rparr>) = []" using u Cons.prems(2) by simp
        fix b assume "b \<in> set as"
        then show "\<exists>s. gt_sessions (u\<lparr> gt_cleaned := gt_cleaned u @ [a] \<rparr>) b = Some s \<and> cs_in_cooler s"
          using Cons.prems(3) [of b] u s(2) by (cases "b = a") auto
      qed
    qed
    then show ?thesis using False by simp
  qed (use Cons in simp)
qed (simp add: full_def)

lemma cool_sessions_live:
  assumes full: "full t"
  shows "live (cool_sessions t)"
proof -
  have "sessions_ok (t\<lparr> gt_cooling := [] \<rparr>)" using full by (simp add: sessions_ok_def full_def)
  then have "full (t\<lparr> gt_cooling := [] \<rparr>)" using full by (simp add: full_def)
  then show ?thesis
    unfolding cool_sessions_def Let_def
    by (rule clean_sessions_live) (use full sessions_okD(4) [of t] in \<open>auto simp: full_def\<close>)
qed

lemma fresh_accounted:
  assumes "accounted t" "gt_sessions t a = None" "entered_ok t s"
  shows "accounted (set_session a s t)"
proof -
  have "holder t h \<Longrightarrow> holder (set_session a s t) h" for h
    using assms(2) by (fastforce simp: holder_def)
  then show ?thesis using assms(1,3) by (auto simp: accounted_def entered_ok_def)
qed

text \<open>A route that is given to another session: the old one did not enter, as its guid was temporary.\<close>

lemma collect_role_client_session_live:
  assumes full: "full t" and s: "gt_sessions t a = Some s" and new: "\<not> has_state as_enter_game s"
    and un: "a \<notin> ran (gt_routes t)" and g: "temporary g"
  shows "live (collect_role_client_session g a t)"
proof -
  let ?s = "s\<lparr> cs_role_guid := g \<rparr>" and ?t = "set_session a (s\<lparr> cs_role_guid := g \<rparr>) t"
  have ok: "sessions_ok t" and acc: "accounted t" using full by (simp_all add: full_def)
  have "entered_ok t ?s" using accounted_entered [OF acc s] new by (simp add: entered_ok_def)
  then have t: "accounted ?t" by (intro set_session_accounted [OF acc s]) (simp_all add: new)
  show ?thesis
  proof (cases "gt_routes t g")
    case None
    then show ?thesis using add_route_accounted [OF t] by (simp add: collect_role_client_session_def deref_def s)
  next
    case (Some b)
    then obtain old where old: "gt_sessions t b = Some old" "routed_ok g old" by (rule sessions_ok_route [OF ok])
    have ab: "b \<noteq> a" using un Some by (auto simp: ran_def)
    have "\<not> has_state as_enter_game old"
      using accounted_entered [OF acc old(1)] old(2) g by (auto simp: entered_ok_def routed_ok_def)
    then have set: "settled t g" by (rule accounted_settled [OF acc Some old(1)])
    let ?u = "set_session b (old\<lparr> cs_login_again := True \<rparr>) ?t"
    have tb: "gt_sessions ?t b = Some old" using old(1) ab by simp
    have u: "accounted ?u"
      by (rule set_session_accounted [OF t tb]) (use accounted_entered [OF t tb] in simp_all)
    have ub: "gt_sessions ?u b = Some (old\<lparr> cs_login_again := True \<rparr>)" by simp
    obtain v where v: "put_client_session b ?u = Inr v" by (simp add: put_client_session_eq [OF ub])
    have "accounted v" using put_client_session_live [OF u ub] v by simp
    moreover have "settled v g" using put_client_session_result [OF ub v] set by (simp add: settled_def)
    ultimately have "accounted (v\<lparr> gt_routes := (gt_routes v)(g \<mapsto> a) \<rparr>)"
      unfolding accounted_iff [of _ g] accounted_but_route by (simp add: settled_def)
    then show ?thesis
      using ab old(1) v by (simp add: collect_role_client_session_def deref_def s Some Let_def)
  qed
qed

lemma client_open_live:
  assumes full: "full t"
  shows "live (client_open cfg ip t)"
proof -
  let ?a = "gt_next t" and ?s = "new_client_session\<lparr> cs_client_ip := ip \<rparr>"
  let ?g = "(gt_temp_guid t + 1) mod 0xFFFFFFF"
  let ?t = "set_session ?a ?s (t\<lparr> gt_next := ?a + 1 \<rparr>)"
  let ?u = "?t\<lparr> gt_temp_guid := ?g \<rparr>"
  have ok: "sessions_ok t" and acc: "accounted t" using full by (simp_all add: full_def)
  have s: "session_ok False ?s" by (simp add: session_ok_def new_client_session_def temporary_def)
  have su: "sessions_ok ?u" by (rule same_ok [OF fresh_session_ok [OF ok s]]) simp
  have "accounted (t\<lparr> gt_next := ?a + 1 \<rparr>)" by (rule same_accounted [OF acc]) simp
  then have "accounted ?t"
    by (rule fresh_accounted)
       (use sessions_okD(1) [OF ok] in \<open>simp_all add: entered_ok_def has_state_def new_client_session_def\<close>)
  then have "accounted ?u" by (rule same_accounted) simp
  then have fu: "full ?u" using su by (simp add: full_def)
  have un: "?a \<notin> ran (gt_routes ?u)"
    using sessions_okD(1,3) [OF ok] by (fastforce simp: ran_def)
  have us: "gt_sessions ?u ?a = Some ?s" by simp
  have "result False (\<lambda>u. (sessions_ok u \<and> gt_sessions u ?a \<noteq> None) \<and> accounted u)
      (collect_role_client_session (ucast ?g) ?a ?u)"
    by (rule result_both [OF collect_role_client_session_ok [OF su us un] collect_role_client_session_live [OF fu us _ un]])
       (simp_all add: new_client_session_def has_state_def temporary_temp_guid)
  then have "live (and_then (collect_role_client_session (ucast ?g) ?a ?u) (assign_client_thread cfg ?a))"
  proof (rule result_and_then)
    fix v assume v: "(sessions_ok v \<and> gt_sessions v ?a \<noteq> None) \<and> accounted v"
    then obtain s where s: "gt_sessions v ?a = Some s" by blast
    let ?v = "v\<lparr> gt_thread_index := (gt_thread_index v + 1) mod gc_threads cfg \<rparr>"
    have av: "accounted ?v" by (rule same_accounted [of v]) (use v in simp_all)
    have "accounted (set_session ?a (s\<lparr> cs_thread := (gt_thread_index v + 1) mod gc_threads cfg \<rparr>) ?v)"
      by (rule set_session_accounted [OF av]) (use s accounted_entered [OF av, of ?a s] in simp_all)
    then show "live (assign_client_thread cfg ?a v)"
      using s by (simp add: assign_client_thread_def Let_def deref_def)
  qed
  moreover have "client_open cfg ip t = and_then (collect_role_client_session (ucast ?g) ?a ?u) (assign_client_thread cfg ?a)"
    by (simp add: client_open_def get_temp_guid_def Let_def set_session_def)
  ultimately show ?thesis by simp
qed

lemma delete_session_live:
  assumes full: "full t"
  shows "accounted (delete_session a t)"
proof (cases "a \<in> set (gt_cleaned t)")
  case True
  have "gt_routes t g \<noteq> Some a" for g
    using sessions_okD(2,3) [of t] full True by (fastforce simp: full_def routed_ok_def session_ok_def)
  then have "holder t h \<Longrightarrow> holder (delete_session a t) h" for h
    by (fastforce simp: holder_def delete_session_def)
  then show ?thesis using full True by (auto simp: full_def accounted_def delete_session_def entered_ok_def)
qed (use full in \<open>simp add: delete_session_def full_def\<close>)

lemma register_gs_accounted:
  assumes "accounted t"
  shows "accounted (register_gs m gs t)"
  using assms by (auto simp: register_gs_def accounted_def entered_ok_def holder_def)

lemma clean_player_live:
  assumes "full t"
  shows "live (clean_gate_unnormal_player g t)"
  unfolding clean_gate_unnormal_player_def
proof (rule result_and_then [OF clean_role_info_live [OF assms, of g]])
  fix u
  assume "full u \<and> settled u g \<and> gt_routes u g = None \<and>
    (\<forall>h a. gt_routes u h = Some a \<longrightarrow> gt_routes t h = Some a \<and> gt_sessions u a = gt_sessions t a)"
  then have "accounted (u\<lparr> gt_roles := (gt_roles u)(g := None) \<rparr>)" by (simp add: full_def clear_role_accounted)
  then show "live (Inr (clean_unnormal_player g u))"
    unfolding result_simps clean_unnormal_player_def by (rule same_accounted) simp
qed

section \<open>Runs\<close>

text \<open>The game servers stay: no stream to one fails or closes. The role server lists roles with guids of its own, and
  a game server sends a role to a map that has a game server.\<close>

definition live_allowed :: "gate_event \<Rightarrow> gate_fault + gate \<Rightarrow> bool" where
  "live_allowed e x =
     (case x of
        Inl _ \<Rightarrow> False
      | Inr t \<Rightarrow>
          (case e of
             Role_packet p \<Rightarrow> real_roles p
           | Gs_packet gs p \<Rightarrow> gs_packet_allowed p t
           | Gs_closes gs online \<Rightarrow> False
           | Gs_stream_fails \<Rightarrow> False
           | _ \<Rightarrow> True))"

lemma handle_input_live:
  assumes "full t"
  shows "live (handle_input cfg i now t)"
proof -
  have "sessions_ok (t\<lparr> gt_input := q \<rparr>)" "accounted (t\<lparr> gt_input := q \<rparr>)" for q
    using same_ok [of t "t\<lparr> gt_input := q \<rparr>"] same_accounted [of t "t\<lparr> gt_input := q \<rparr>"] assms by (simp_all add: full_def)
  then show ?thesis
    using assms handle_input_package_live by (simp add: handle_input_def full_def split: list.split)
qed

lemma handle_output_live:
  assumes full: "full t"
  shows "live (handle_output cfg i now t)"
proof (cases "gt_output t i")
  case (Cons p ps)
  let ?t = "t\<lparr> gt_output := (gt_output t)(i := ps) \<rparr>"
  have real: "\<forall>q \<in> set (gt_output t j). real_roles q" for j using full by (simp add: full_def accounted_def)
  have "accounted ?t"
    using full real [of i] real by (auto simp: Cons full_def accounted_def holder_def entered_ok_def)
  moreover have "sessions_ok ?t" by (rule same_ok [of t]) (use full in \<open>simp_all add: full_def\<close>)
  ultimately have "full ?t" by (simp add: full_def)
  then show ?thesis using handle_output_package_live real [of i] by (simp add: handle_output_def Cons)
qed (use full in \<open>simp add: handle_output_def full_def\<close>)

lemma gate_event_live:
  assumes full: "full t" and al: "live_allowed e (Inr t)"
  shows "live (do_gate_event cfg e t)"
proof (cases e)
  case (Client_sends a op body)
  have "same_roles t (client_sends a op body t)" by (simp add: client_sends_def split: option.split)
  then show ?thesis using full by (simp add: do_gate_event_def Client_sends full_def same_roles_accounted)
next
  case (Role_connects r)
  then show ?thesis using full by (auto simp: do_gate_event_def full_def intro: same_accounted)
next
  case (Role_closes r)
  then show ?thesis using full by (auto simp: do_gate_event_def full_def intro: same_accounted)
next
  case (Member_login ca)
  then show ?thesis using full by (auto simp: do_gate_event_def full_def intro: same_accounted)
qed (use full al in \<open>simp_all add: do_gate_event_def live_allowed_def client_open_live handle_input_live handle_output_live
      cool_sessions_live delete_session_live put_output_package_live gs_packet_live register_gs_accounted
      clean_player_live full_def\<close>)

definition gate_live :: "gate_fault + gate \<Rightarrow> bool" where
  "gate_live x \<longleftrightarrow> result False full x"

lemma gate_step_live:
  assumes "gate_live x" "live_allowed e x"
  shows "gate_live (gate_step cfg e x)"
proof (cases x)
  case (Inr t)
  then have full: "full t" and al: "live_allowed e (Inr t)" using assms by (simp_all add: gate_live_def)
  have "gate_allowed e (Inr t)" using al by (simp add: gate_allowed_def live_allowed_def split: gate_event.splits)
  then have "res_ok (do_gate_event cfg e t)" using gate_event_ok full by (simp add: full_def)
  then show ?thesis
    unfolding gate_live_def gate_step_def Inr and_then_simps by (rule result_full) (rule gate_event_live [OF full al])
qed (use assms in \<open>simp add: live_allowed_def\<close>)

interpretation gate_lives: invariant_machine "gate_step cfg" live_allowed gate_live for cfg
  by unfold_locales (rule gate_step_live)

lemma new_gate_live: "full new_gate"
  by (simp add: full_def new_gate_ok) (simp add: accounted_def new_gate_def)

end
