(* ===== verification/GateCases.thy ===== *)
theory GateCases
  imports GateLive
begin

text \<open>
  What holds in every run of the gate, and the cases where it lets the wrong client in or stops.
\<close>

section \<open>Runs to try\<close>

definition open_gate :: gate_cfg where
  "open_gate = \<lparr> gc_check_client_auth = False, gc_validation_interval = 0, gc_threads = 1,
     gc_allowed = (\<lambda>_ _. True), gc_map_of = id \<rparr>"

definition anna :: guid where "anna = 0x0100000000000001"

definition login_events :: "nat \<Rightarrow> guid \<Rightarrow> gate_event list" where
  "login_events a temp =
     [Client_connects ''10.0.0.1:4000'',
      Client_sends a cmsg_valiation_account (Cmsg_validate_account ''anna'' ''key''), Handle_input 0 0,
      Role_packet (new_gpacket smsg_request_player_list temp
        (Smsg_request_player_list [\<lparr> op_guid = anna, op_map_id = 5, op_line_id = 1 \<rparr>])),
      Handle_output 0 0]"

definition enter_events :: "nat \<Rightarrow> gate_event list" where
  "enter_events a = [Client_sends a cmsg_player_enter_map (Cmsg_player_enter_map anna 5 None), Handle_input 0 0]"

definition entering_run :: "gate_event list" where
  "entering_run = [Gs_registers 7 (gate_map_guid 5), Role_connects 3] @ login_events 0 1 @ enter_events 0 @
     [Gs_packet 7 (new_gpacket smsg_create_self anna (Body_other [])), Handle_output 0 0]"

definition gate_run :: "gate_cfg \<Rightarrow> gate_event list \<Rightarrow> gate_fault + gate" where
  "gate_run cfg es = run_events (gate_step cfg) es (Inr new_gate)"

section \<open>Every run\<close>



text \<open>While no two threads are inside \<^verbatim>\<open>handleClientPackage\<close> for the same role, a game server is told that the
  role enters only if it is not inside: since it last entered, a game server has reported that it left, or its state was
  cleaned.\<close>

lemma role_enters_once:
  assumes "gate_run cfg es = Inr t"
  shows "enters_once g (gt_log t)"
proof -
  have "log_kept (gate_run cfg es)"
    using gate_log.run_keeps [where s = "Inr new_gate" and es = es and cfg = cfg] new_gate_log by (simp add: gate_run_def)
  then show ?thesis using assms by (simp add: log_ok_def)
qed

text \<open>C12: Two threads that are inside it for the same role both send the role in: each finds that the role may enter before
  the other notes that it does, the game server is told twice that the role enters, and as soon as the game server
  confirms the gate throws the role out again.\<close>

theorem role_enters_twice:
  assumes "gt_gs t m = Some gs" "gt_roles t g = None"
    and "gp_opcode p = cmsg_player_enter_map" "gp_guid p = g" "gp_opcode q = cmsg_player_enter_map" "gp_guid q = g"
    and "check_package p m t = Some c" "check_package q m t = Some d"
  shows "\<exists>u v w. finish_package p m c t = Inr (0, u) \<and> finish_package q m d u = Inr (0, v) \<and>
    gt_log v = gt_log t @ [To_gs gs p, To_gs gs q] \<and> \<not> enters_once g (gt_log v) \<and>
    enter_gs_success g v = Inr w \<and> gt_log w = gt_log v @ [To_gs gs (new_gpacket cmsg_player_leave_map g (Body_other []))]"
proof -
  let ?r = "\<lparr> rg_state = RGS_ENTER_GAME, rg_map_id = m, rg_role_guid = g, rg_offline = False \<rparr>"
  let ?u = "log_crossing (To_gs gs p) (set_role g ?r t)"
  let ?v = "log_crossing (To_gs gs q) (set_role g (?r\<lparr> rg_offline := True \<rparr>) ?u)"
  have c: "c = (gs, True)" "d = (gs, True)" using assms by (auto simp: check_package_def can_enter_gs_def)
  have u: "finish_package p m c t = Inr (0, ?u)"
    using assms c by (simp add: finish_package_def enter_gs_def)
  have v: "finish_package q m d ?u = Inr (0, ?v)"
    using assms c by (simp add: finish_package_def enter_gs_def set_role_def log_crossing_def do_logoff_def)
  have log: "gt_log ?v = (gt_log t @ [To_gs gs p]) @ [To_gs gs q]" by (simp add: log_crossing_def set_role_def)
  have "\<not> enters_once g (gt_log ?v)"
    using assms(3-6) unfolding log enters_once_snoc by (simp add: crossing_enters_def crossing_inside_def)
  moreover have "\<exists>w. enter_gs_success g ?v = Inr w \<and>
      gt_log w = gt_log ?v @ [To_gs gs (new_gpacket cmsg_player_leave_map g (Body_other []))]"
    using assms(1) by (simp add: enter_gs_success_def set_role_def log_crossing_def send_logoff_msg_def send_to_gs_def
        handle_client_package_eq new_gpacket_def can_leave_gs_def leave_gs_def gate_opcodes)
  ultimately show ?thesis using u v log by auto
qed

theorem role_enters_twice_witness:
  "\<exists>t. gate_run open_gate [Gs_registers 7 (gate_map_guid 5)] = Inr t \<and>
    check_package (new_gpacket cmsg_player_enter_map anna (Cmsg_player_enter_map anna 5 None)) (gate_map_guid 5) t \<noteq> None \<and>
    (\<exists>v :: gate. length (gt_log v) = length (gt_log t) + 2 \<and> \<not> enters_once anna (gt_log v))"
proof -
  let ?p = "new_gpacket cmsg_player_enter_map anna (Cmsg_player_enter_map anna 5 None)"
  have "case gate_run open_gate [Gs_registers 7 (gate_map_guid 5)] of Inl e \<Rightarrow> False
      | Inr t \<Rightarrow> gt_gs t (gate_map_guid 5) = Some 7 \<and> gt_roles t anna = None" by code_simp
  then obtain t where t: "gate_run open_gate [Gs_registers 7 (gate_map_guid 5)] = Inr t"
      "gt_gs t (gate_map_guid 5) = Some 7" "gt_roles t anna = None"
    by (auto split: sum.splits)
  obtain c where c: "check_package ?p (gate_map_guid 5) t = Some c" using t(2) by (simp add: check_package_def)
  have p: "gp_opcode ?p = cmsg_player_enter_map" "gp_guid ?p = anna" by (simp_all add: new_gpacket_def)
  obtain v :: gate where "gt_log v = gt_log t @ [To_gs 7 ?p, To_gs 7 ?p]" "\<not> enters_once anna (gt_log v)"
    using role_enters_twice [OF t(2,3) p p c c] by blast
  then show ?thesis using t(1) c by (intro exI [of _ t] conjI exI [of _ v]) simp_all
qed



section \<open>Strangers\<close>

lemma leave_sends:
  "\<exists>u. send_to_gs (new_gpacket cmsg_player_leave_map g b) m t = Inr u \<and> same_sessions t u"
proof -
  have "result False (\<lambda>(r, u). same_sessions t u)
      (handle_client_package (new_gpacket cmsg_player_leave_map g b) m t)"
    by (auto simp: handle_client_package_eq new_gpacket_def gate_opcodes split: option.split)
  then have "result False (same_sessions t) (send_to_gs (new_gpacket cmsg_player_leave_map g b) m t)"
    unfolding send_to_gs_def by (rule result_and_then) auto
  then show ?thesis by (auto simp: result_def split: sum.splits)
qed

lemma clean_role_info_throws:
  assumes r: "gt_routes t g = Some b" and w: "gt_sessions t b = Some w"
  shows "\<exists>u v. clean_role_info g t = Inr u \<and> gt_routes u = (gt_routes t)(g := None) \<and>
    gt_sessions u = (gt_sessions t)(b \<mapsto> v) \<and> has_state as_leave_game v \<and> cs_in_cooler v"
proof -
  let ?t = "t\<lparr> gt_routes := (gt_routes t)(g := None) \<rparr>"
  obtain u where u: "role_leave_map g (cs_role_location w) ?t = Inr u" "same_sessions ?t u"
    using leave_sends unfolding role_leave_map_def by blast
  have b: "gt_sessions (set_session b (add_state as_leave_game w) u) b = Some (add_state as_leave_game w)" by simp
  have "has_state as_leave_game (add_state as_leave_game w\<lparr> cs_in_cooler := True \<rparr>)"
    by (simp add: has_state_add_state account_states)
  moreover obtain x where x: "clean_role_info g t = Inr x"
      "x = (set_session b (add_state as_leave_game w\<lparr> cs_in_cooler := True \<rparr>)
        (set_session b (add_state as_leave_game w) u)) \<lparr> gt_cooling := gt_cooling x \<rparr>"
    using r w u by (simp add: clean_role_info_def deref_def put_client_session_eq [OF b])
  moreover from x(2) have "gt_routes x = gt_routes u"
      "gt_sessions x = (gt_sessions u)(b \<mapsto> add_state as_leave_game w\<lparr> cs_in_cooler := True \<rparr>)"
    by (metis (no_types, lifting) gate.select_convs(4) gate.surjective gate.update_convs(8) set_session_fields(2),
        metis (no_types, lifting) gate.ext_inject gate.surjective gate.update_convs(8) fun_upd_upd gt_sessions_set_session)
  ultimately show ?thesis using u(2) by (auto simp: same_sessions_def)
qed

text \<open>The gate throws a role out before it looks whether the client owns it: any client that may enter the game
  can name any role that is in the game, and the session of that role loses its route and is closed.\<close>

theorem stranger_throws_out:
  assumes t: "all_allowed (gate_step cfg) gate_allowed es (Inr new_gate)" "gate_run cfg es = Inr t"
    and a: "gt_routes t c = Some a" "gt_sessions t a = Some s" "can_enter_game s" "cs_roles s g = None"
    and b: "gt_routes t g = Some b" "g \<noteq> c"
  shows "\<exists>u v. handle_enter_map (new_gpacket cmsg_player_enter_map c (Cmsg_player_enter_map g m l)) t = Inr u \<and>
    gt_routes u g = None \<and> gt_sessions u b = Some v \<and> has_state as_leave_game v \<and> cs_in_cooler v"
proof -
  have ok: "sessions_ok t"
    using sessions.run_keeps [OF _ t(1)] new_gate_ok t(2) by (simp add: gate_safe_def gate_run_def)
  have ab: "a \<noteq> b" using route_inj [OF ok] a(1) b by blast
  obtain w where w: "gt_sessions t b = Some w" by (rule sessions_ok_route [OF ok b(1)])
  obtain u v where u: "clean_role_info g t = Inr u" "gt_routes u = (gt_routes t)(g := None)"
      "gt_sessions u = (gt_sessions t)(b \<mapsto> v)" and v: "has_state as_leave_game v" "cs_in_cooler v"
    using clean_role_info_throws [OF b(1) w] by blast
  have ua: "gt_sessions u a = Some s" "gt_routes u c = Some a" using u a ab b(2) by simp_all
  have "handle_enter_map (new_gpacket cmsg_player_enter_map c (Cmsg_player_enter_map g m l)) t = put_client_session a u"
    using a ua u(1) by (simp add: handle_enter_map_def clean_role_and_logoff_eq new_gpacket_def deref_def client_enter_map_def)
  then show ?thesis using u v ab by (simp add: put_client_session_eq [OF ua(1)])
qed

definition intruder :: guid where "intruder = 0x0100000000000009"

text \<open>A second client, whose own role is another one.\<close>

definition stranger_run :: "gate_event list" where
  "stranger_run = entering_run @
     [Client_connects ''10.0.0.9:4000'',
      Role_packet (new_gpacket smsg_request_player_list 2
        (Smsg_request_player_list [\<lparr> op_guid = intruder, op_map_id = 5, op_line_id = 1 \<rparr>])),
      Handle_output 0 0]"

theorem stranger_throws_out_witness:
  "\<exists>t u v. gate_run open_gate stranger_run = Inr t \<and> gt_routes t anna = Some 0 \<and>
    handle_enter_map (new_gpacket cmsg_player_enter_map 2 (Cmsg_player_enter_map anna 5 None)) t = Inr u \<and>
    gt_routes u anna = None \<and> gt_sessions u 0 = Some v \<and> has_state as_leave_game v \<and> cs_in_cooler v"
proof -
  have al: "all_allowed (gate_step open_gate) gate_allowed stranger_run (Inr new_gate)" by code_simp
  have "case gate_run open_gate stranger_run of Inl e \<Rightarrow> False | Inr t \<Rightarrow>
      gt_routes t 2 = Some 1 \<and> gt_routes t anna = Some 0 \<and>
      (case gt_sessions t 1 of None \<Rightarrow> False | Some s \<Rightarrow> can_enter_game s \<and> cs_roles s anna = None)"
    by code_simp
  then obtain t s where t: "gate_run open_gate stranger_run = Inr t" "gt_routes t 2 = Some 1" "gt_routes t anna = Some 0"
      "gt_sessions t 1 = Some s" "can_enter_game s" "cs_roles s anna = None"
    by (auto split: sum.splits option.splits)
  have "anna \<noteq> 2" by (simp add: anna_def)
  from stranger_throws_out [OF al t(1,2,4,5,6,3) this] t show ?thesis by blast
qed

section \<open>A role that is left behind\<close>

text \<open>When the gate remembers a role as being in the game although its session is gone, the next client that enters
  with it makes the thread wait for a mutex that it holds (\<^verbatim>\<open>enterGame\<close> sends the role out while it has the
  table of the roles locked). A game server of transcripts that closes and comes back leaves such roles behind: the
  clients it had are closed when no server has their map, so they send no leave.\<close>

theorem lost_leave_blocks:
  assumes a: "gt_routes t c = Some a" "gt_sessions t a = Some s" "cs_role_guid s = c"
      "can_enter_game s" "cs_roles s g = Some ro" "c \<noteq> g"
    and g: "gt_routes t g = None" "gt_roles t g = Some r" "rg_state r = RGS_ENTER_GAME_SUCCESS"
    and gs: "gt_gs t (rg_map_id r) = Some gs1" "gt_gs t (gate_map_guid (ar_map_id ro)) = Some gs2"
  shows "handle_enter_map (new_gpacket cmsg_player_enter_map c (Cmsg_player_enter_map g m l)) t = Inl Blocked"
  using assms
  by (simp add: handle_enter_map_def clean_role_and_logoff_def new_gpacket_def deref_def client_enter_map_def
      change_client_route_def Let_def handle_client_package_eq can_enter_gs_def enter_gs_def do_logoff_def set_role_def)

definition lost_run :: "gate_event list" where
  "lost_run = entering_run @ [Gs_closes 7 [0], Cool_sessions, Gs_registers 8 (gate_map_guid 5)] @ login_events 1 2"

theorem lost_leave_blocks_witness:
  "\<exists>t. gate_run open_gate lost_run = Inr t \<and>
    handle_enter_map (new_gpacket cmsg_player_enter_map 2 (Cmsg_player_enter_map anna 5 None)) t = Inl Blocked"
proof -
  have "case gate_run open_gate lost_run of Inl e \<Rightarrow> False | Inr t \<Rightarrow>
      gt_routes t 2 = Some 1 \<and> gt_routes t anna = None \<and>
      (case gt_sessions t 1 of None \<Rightarrow> False | Some s \<Rightarrow> cs_role_guid s = 2 \<and> can_enter_game s \<and>
        (case (cs_roles s anna, gt_roles t anna) of (Some ro, Some r) \<Rightarrow> rg_state r = RGS_ENTER_GAME_SUCCESS \<and>
            gt_gs t (rg_map_id r) = Some 8 \<and> gt_gs t (gate_map_guid (ar_map_id ro)) = Some 8
          | _ \<Rightarrow> False))"
    by code_simp
  then obtain t s ro r where t: "gate_run open_gate lost_run = Inr t"
      "gt_routes t 2 = Some 1" "gt_sessions t 1 = Some s" "cs_role_guid s = 2"
      "can_enter_game s" "cs_roles s anna = Some ro" "gt_routes t anna = None" "gt_roles t anna = Some r"
      "rg_state r = RGS_ENTER_GAME_SUCCESS" "gt_gs t (rg_map_id r) = Some 8" "gt_gs t (gate_map_guid (ar_map_id ro)) = Some 8"
    by (auto split: sum.splits option.splits)
  have "2 \<noteq> anna" by (simp add: anna_def)
  from lost_leave_blocks [OF t(2-6) this t(7-11)] t(1) show ?thesis by blast
qed

section \<open>Clients that did not log in\<close>

definition checking_gate :: gate_cfg where
  "checking_gate = open_gate\<lparr> gc_check_client_auth := True \<rparr>"

definition unvalidated_run :: "gate_event list" where
  "unvalidated_run =
     [Gs_registers 7 (gate_map_guid 5), Role_connects 3, Client_connects ''10.0.0.9:4000'',
      Client_sends 0 cmsg_request_player_list (Cmsg_request_player_list ''anna''), Handle_input 0 0,
      Role_packet (new_gpacket smsg_request_player_list 1
        (Smsg_request_player_list [\<lparr> op_guid = anna, op_map_id = 5, op_line_id = 1 \<rparr>])),
      Handle_output 0 0] @ enter_events 0"

text \<open>The validation of a client is not needed to enter: with the check of the keys on and no key registered,
  a client that asks for the roles of an account, and then enters with one of them, enters the game server.\<close>

theorem unvalidated_enters:
  "\<exists>t s. gate_run checking_gate unvalidated_run = Inr t \<and>
    To_role 3 (new_gpacket cmsg_request_player_list 1 (Cmsg_request_player_list ''anna'')) \<in> set (gt_log t) \<and>
    role_inside anna (gt_log t) \<and>
    gt_routes t anna = Some 0 \<and> gt_sessions t 0 = Some s \<and> \<not> has_state as_validate_success s"
proof -
  have "case gate_run checking_gate unvalidated_run of Inl e \<Rightarrow> False | Inr t \<Rightarrow>
      To_role 3 (new_gpacket cmsg_request_player_list 1 (Cmsg_request_player_list ''anna'')) \<in> set (gt_log t) \<and>
      role_inside anna (gt_log t) \<and> gt_routes t anna = Some 0 \<and>
      (case gt_sessions t 0 of None \<Rightarrow> False | Some s \<Rightarrow> \<not> has_state as_validate_success s)"
    by code_simp
  then show ?thesis by (auto split: sum.splits option.splits)
qed

end
