(* ===== verification/RoleMake.thy ===== *)
theory RoleMake
  imports GateState CacheService
begin

unbundle bit_operations_syntax

text \<open>
  The server of the roles, between the gates and the cache servers: \<^verbatim>\<open>charsys/src/gate/RouteGatePacket.cpp\<close>,
  the thread that handles the packets of both sides, and \<^verbatim>\<open>charsys/src/cache/RouteCachePacket.cpp\<close>, the thread
  that makes the entities and sends the requests. Each has a queue; a step of the model handles one packet.

  The table \<^verbatim>\<open>role\<close> of the account database is the list of its rows. Whether the database answers is part of
  a step (\<open>char_env\<close>): \<^verbatim>\<open>mysqlpp\<close> refuses, raises an exception or has no connection as it likes. Names and accounts
  are put into the SQL text as they are; the model takes them to hold no quotes. The guids come from
  \<^verbatim>\<open>ManageGuid\<close> (\<^verbatim>\<open>GuidService\<close>), the check of the name is that of \<^verbatim>\<open>RoleName\<close>: both are parameters here. What the
  gates and the cache servers are sent is the list \<open>ch_log\<close>, oldest first.
\<close>

section \<open>Entities\<close>

text \<open>\<^verbatim>\<open>cmsg_player_make\<close> without the fields that are not read.\<close>

record player_make =
  pm_account :: string
  pm_name :: string
  pm_sex :: u32
  pm_profession :: u32
  pm_validate_str :: string
  pm_param1 :: u32
  pm_param2 :: u32
  pm_param3 :: u32
  pm_param4 :: string
  pm_param5 :: u32
  pm_iopenid :: string

text \<open>The fields of \<^verbatim>\<open>Player\<close> and \<^verbatim>\<open>Role\<close> that are set for a new player; the others stay unset.\<close>

record char_player =
  cp_guid :: guid
  cp_role_id :: u32
  cp_name :: string
  cp_profession :: u32
  cp_line_no :: u32
  cp_level :: u32
  cp_exp :: u32
  cp_money :: u32
  cp_coin :: u32
  cp_src :: "u32 \<times> u32"
  cp_dst :: "u32 \<times> u32"
  cp_seniority :: u32
  cp_vip_level :: u32
  cp_sex :: u32
  cp_account :: string
  cp_coin_exp :: u32
  cp_prestige :: u32
  cp_energy :: u32
  cp_power :: u32
  cp_training_slot :: u32
  cp_member_slot :: u32
  cp_map_id :: u32
  cp_stage :: u64
  cp_direction :: u32
  cp_roles :: "guid list"
  cp_first_role :: guid
  cp_validate_str :: string
  cp_vip_level_init :: u32
  cp_year_card :: u32
  cp_time_stamp :: u32
  cp_robot_validate :: string
  cp_robot_id :: u32
  cp_open_id_referrer :: string
  cp_open_id_qq :: string
  cp_bag :: "u64 list"
  cp_storehouse :: "u64 list"

record char_role =
  cr_guid :: guid
  cr_player :: guid
  cr_role_id :: u32
  cr_avatar_id :: u32
  cr_name :: string
  cr_sex :: u32
  cr_job :: u32
  cr_faction :: u32
  cr_level :: u32
  cr_exp :: u32
  cr_postion :: u32
  cr_normal_skill :: u32
  cr_extremely_skill :: u32
  cr_char_ability :: u32
  cr_attributes :: "u32 list"
  cr_equipments :: "guid list"

text \<open>\<^verbatim>\<open>RoleResInfo\<close> and \<^verbatim>\<open>InitializationCfg\<close>, the fields that are read.\<close>

record role_res =
  rr_role_id :: u32
  rr_level :: u32
  rr_char_ability :: u32
  rr_str :: u32
  rr_agi :: u32
  rr_int_value :: u32
  rr_phy_att :: u32
  rr_phy_def :: u32
  rr_agi_att :: u32
  rr_agi_def :: u32
  rr_int_att :: u32
  rr_int_def :: u32
  rr_hp :: u32
  rr_critical :: u32
  rr_critical_damage :: u32
  rr_block :: u32
  rr_block_defence :: u32
  rr_block_damage :: u32
  rr_hit :: u32
  rr_dodge :: u32
  rr_normal_skill :: u32
  rr_extremely_skill :: u32

record player_init_cfg =
  pi_level :: u32
  pi_exp :: u32
  pi_money :: u32
  pi_coin :: u32
  pi_src :: "u32 \<times> u32"
  pi_seniority :: u32
  pi_coin_exp :: u32
  pi_frame :: u32
  pi_energy :: u32
  pi_training_slot :: u32
  pi_member_slot :: u32
  pi_map_id :: u32

text \<open>The configuration: \<open>cc_role_ids\<close> is \<^verbatim>\<open>ManageJobInit\<close>, \<open>cc_role_res\<close> is \<^verbatim>\<open>ManageRoleRes\<close>.\<close>

record char_cfg =
  cc_check_name :: "string \<Rightarrow> bool"
  cc_role_ids :: "u32 \<rightharpoonup> u32"
  cc_role_res :: "u32 \<rightharpoonup> role_res"
  cc_init :: player_init_cfg
  cc_line_id :: u32
  cc_max_roles :: nat
  cc_surnames :: "string list"
  cc_female :: "string list"
  cc_male :: "string list"

text \<open>Different pairs have one number, \<open>(0, 2)\<close> and \<open>(1, 0)\<close> for instance.\<close>

definition get_mix_id :: "u32 \<Rightarrow> u32 \<Rightarrow> u32" where
  "get_mix_id job sex = job * 2 + sex"

definition get_role_id :: "char_cfg \<Rightarrow> u32 \<Rightarrow> u32 \<Rightarrow> u32 option" where
  "get_role_id cfg job sex =
     (case cc_role_ids cfg (get_mix_id job sex) of
        None \<Rightarrow> None
      | Some r \<Rightarrow> if r = - 1 then None else Some r)"

definition role_attributes :: "role_res \<Rightarrow> u32 list" where
  "role_attributes r =
     [0, rr_hp r, rr_hp r, rr_str r, rr_agi r, rr_int_value r,
      rr_phy_att r, 0, rr_phy_att r, rr_agi_att r, 0, rr_agi_att r, rr_int_att r, 0, rr_agi_att r,
      rr_phy_def r, 0, rr_phy_def r, rr_agi_def r, 0, rr_agi_def r, rr_int_def r, 0, rr_int_def r,
      rr_critical r, rr_critical_damage r, rr_block r, rr_block_defence r, rr_block_damage r, rr_dodge r, rr_hit r,
      0, 0, 0, rr_hp r, 0]"

text \<open>\<open>role_guid\<close> is the one of the role info that \<^verbatim>\<open>getPlayerInfo\<close> finds for the player.\<close>

definition init_role :: "char_cfg \<Rightarrow> guid \<Rightarrow> player_make \<Rightarrow> guid option \<Rightarrow> char_role option" where
  "init_role cfg player pm role_guid =
     (case role_guid of
        None \<Rightarrow> None
      | Some g \<Rightarrow>
          (case get_role_id cfg (pm_profession pm) (pm_sex pm) of
             None \<Rightarrow> None
           | Some role_id \<Rightarrow>
               (case cc_role_res cfg role_id of
                  None \<Rightarrow> None
                | Some r \<Rightarrow> Some
                    \<lparr> cr_guid = g, cr_player = player, cr_role_id = rr_role_id r, cr_avatar_id = rr_role_id r,
                      cr_name = pm_name pm, cr_sex = pm_sex pm, cr_job = pm_profession pm, cr_faction = 0,
                      cr_level = rr_level r, cr_exp = 0, cr_postion = 0, cr_normal_skill = rr_normal_skill r,
                      cr_extremely_skill = rr_extremely_skill r, cr_char_ability = rr_char_ability r,
                      cr_attributes = role_attributes r, cr_equipments = replicate 8 0 \<rparr>)))"

definition max_bag_number :: nat where "max_bag_number = 108"
definition init_bag_number :: nat where "init_bag_number = 18"
definition max_storehouse_number :: nat where "max_storehouse_number = 96"
definition init_storehouse_number :: nat where "init_storehouse_number = 8"

definition open_slots :: "nat \<Rightarrow> nat \<Rightarrow> u64 list" where
  "open_slots n m = map (\<lambda>i. if i < m then 1 else 0) [0 ..< n]"

definition init_player :: "char_cfg \<Rightarrow> guid \<Rightarrow> player_make \<Rightarrow> u32 \<Rightarrow> guid \<Rightarrow> char_player" where
  "init_player cfg g pm role_id first_role =
     (let c = cc_init cfg in
      \<lparr> cp_guid = g, cp_role_id = role_id, cp_name = pm_name pm, cp_profession = pm_profession pm,
        cp_line_no = cc_line_id cfg, cp_level = pi_level c, cp_exp = pi_exp c, cp_money = pi_money c, cp_coin = pi_coin c,
        cp_src = pi_src c, cp_dst = pi_src c, cp_seniority = pi_seniority c, cp_vip_level = 0, cp_sex = pm_sex pm,
        cp_account = pm_account pm, cp_coin_exp = pi_coin_exp c, cp_prestige = pi_frame c, cp_energy = pi_energy c,
        cp_power = 0, cp_training_slot = pi_training_slot c, cp_member_slot = pi_member_slot c,
        cp_map_id = pi_map_id c, cp_stage = 0, cp_direction = 0, cp_roles = [first_role], cp_first_role = first_role,
        cp_validate_str = pm_validate_str pm, cp_vip_level_init = pm_param1 pm, cp_year_card = pm_param2 pm,
        cp_time_stamp = pm_param3 pm, cp_robot_validate = pm_param4 pm, cp_robot_id = pm_param5 pm,
        cp_open_id_referrer = pm_iopenid pm, cp_open_id_qq = pm_account pm,
        cp_bag = open_slots max_bag_number init_bag_number,
        cp_storehouse = open_slots max_storehouse_number init_storehouse_number \<rparr>)"

section \<open>Packets and state\<close>

definition smsg_error_message :: u16 where "smsg_error_message = 1405"
definition smsg_player_delete :: u16 where "smsg_player_delete = 1107"
definition smsg_request_random_name :: u16 where "smsg_request_random_name = 1110"

lemmas char_opcodes = gate_opcodes smsg_error_message_def smsg_player_delete_def smsg_request_random_name_def dc_code_def

datatype char_entity = Role_entity char_role | Player_entity char_player

record listed_player =
  lp_guid :: guid
  lp_name :: string
  lp_profession :: u32
  lp_sex :: u32
  lp_level :: u32
  lp_map_id :: u32
  lp_line_id :: u32

text \<open>\<open>Op_result\<close> is the answer of a cache server: its status, and the player its message parses to.\<close>

datatype char_body =
    Player_make player_make
  | Request_list string
  | Player_delete guid
  | Random_name u32
  | Op_result nat "char_player option"
  | Data_request "char_entity option"
  | Make_done guid u32 u32
  | Role_list nat "listed_player list"
  | Delete_done guid
  | New_name string
  | Error_message int
  | Other_body

record char_packet =
  pk_opcode :: u16
  pk_guid :: guid
  pk_body :: char_body
  pk_owner :: nat

datatype cache_op_type = COT_BASE | COT_ADD | COT_LOAD | COT_REMOVE

record role_info =
  ri_account :: string
  ri_packet_guid :: guid
  ri_player_guid :: guid
  ri_role_guid :: guid
  ri_op :: cache_op_type
  ri_session :: nat
  ri_player_state :: nat
  ri_role_state :: nat

definition set_op_type :: "cache_op_type \<Rightarrow> role_info \<Rightarrow> role_info" where
  "set_op_type op r = (let r = r\<lparr> ri_op := op \<rparr> in if op = COT_LOAD then r\<lparr> ri_role_state := 1 \<rparr> else r)"

definition update_state :: "guid \<Rightarrow> bool \<Rightarrow> role_info \<Rightarrow> role_info" where
  "update_state g success r =
     (if is_player_guid g then r\<lparr> ri_player_state := if success then 1 else 2 \<rparr>
      else if is_role_guid g then r\<lparr> ri_role_state := if success then 1 else 2 \<rparr>
      else r)"

definition is_success :: "role_info \<Rightarrow> bool" where
  "is_success r \<longleftrightarrow> ri_player_state r = 1 \<and> ri_role_state r = 1"

definition is_finish :: "role_info \<Rightarrow> bool" where
  "is_finish r \<longleftrightarrow> 0 < ri_player_state r \<and> 0 < ri_role_state r"

definition is_failed :: "role_info \<Rightarrow> bool" where
  "is_failed r \<longleftrightarrow>
     1 \<le> min (ri_player_state r) (ri_role_state r) \<and> 2 \<le> max (ri_player_state r) (ri_role_state r)"

text \<open>A role in the list of an account: NULL, the pointer 1 or a player.\<close>

datatype role_slot = Not_loaded | Load_failed | Loaded char_player

record account_info =
  ai_account :: string
  ai_packet_guid :: guid
  ai_session :: nat
  ai_roles :: "(guid, role_slot) fmap"

record role_row =
  tr_guid :: guid
  tr_account :: string
  tr_name :: string
  tr_status :: nat

datatype char_crossing =
    To_gate nat char_packet
  | To_cache guid char_packet
  | From_cache char_packet

record char_state =
  ch_input :: "char_packet list"
  ch_cache_input :: "char_packet list"
  ch_roles :: "(guid, role_info) fmap"
  ch_accounts :: "string \<rightharpoonup> account_info"
  ch_sessions :: "nat set"
  ch_table :: "role_row list"
  ch_log :: "char_crossing list"

definition new_char :: "role_row list \<Rightarrow> char_state" where
  "new_char table = \<lparr> ch_input = [], ch_cache_input = [], ch_roles = fmempty, ch_accounts = Map.empty,
     ch_sessions = {}, ch_table = table, ch_log = [] \<rparr>"

definition char_log :: "char_crossing \<Rightarrow> char_state \<Rightarrow> char_state" where
  "char_log x t = t\<lparr> ch_log := ch_log t @ [x] \<rparr>"

text \<open>A session that is not in the map is closed, and drops what it is given.\<close>

definition to_gate :: "nat \<Rightarrow> char_packet \<Rightarrow> char_state \<Rightarrow> char_state" where
  "to_gate a p t = (if a \<in> ch_sessions t then char_log (To_gate a p) t else t)"

definition new_char_packet :: "u16 \<Rightarrow> guid \<Rightarrow> char_body \<Rightarrow> char_packet" where
  "new_char_packet op g b = \<lparr> pk_opcode = op, pk_guid = g, pk_body = b, pk_owner = 0 \<rparr>"

section \<open>The table of the roles\<close>

datatype insert_outcome =
    No_connection
  | No_guid
  | Refused guid
  | Raised guid bool
  | Inserted guid

text \<open>What the environment decides while a packet is handled: which statements are answered, the outcome of the
  insertion, the guid of the role, and the random numbers.\<close>

record char_env =
  ce_name :: bool
  ce_number :: bool
  ce_insert :: insert_outcome
  ce_role_guid :: "guid option"
  ce_list :: bool
  ce_update :: bool
  ce_delete :: bool
  ce_random :: "nat \<times> nat"

definition set_status :: "guid \<Rightarrow> nat \<Rightarrow> char_state \<Rightarrow> char_state" where
  "set_status g st t = t\<lparr> ch_table := map (\<lambda>r. if tr_guid r = g then r\<lparr> tr_status := st \<rparr> else r) (ch_table t) \<rparr>"

definition get_role_list :: "char_env \<Rightarrow> string \<Rightarrow> char_state \<Rightarrow> guid list option" where
  "get_role_list env account t =
     (if ce_list env
      then Some (map tr_guid (filter (\<lambda>r. tr_account r = account \<and> tr_status r = 1) (ch_table t)))
      else None)"

definition delete_role :: "char_env \<Rightarrow> guid \<Rightarrow> char_state \<Rightarrow> char_state \<times> bool" where
  "delete_role env g t = (if ce_delete env then (set_status g 2 t, True) else (t, False))"

definition is_exist_role_name :: "char_env \<Rightarrow> string \<Rightarrow> char_state \<Rightarrow> bool" where
  "is_exist_role_name env name t \<longleftrightarrow> \<not> ce_name env \<or> list_ex (\<lambda>r. tr_name r = name) (ch_table t)"

text \<open>The result is true, with the guid 0 when there is no connection, unless the statement is refused or there
  is no guid: an exception is only logged.\<close>

definition insert_role_name :: "char_env \<Rightarrow> string \<Rightarrow> string \<Rightarrow> char_state \<Rightarrow> char_state \<times> bool \<times> guid" where
  "insert_role_name env account name t =
     (let ins = \<lambda>g. t\<lparr> ch_table := ch_table t @ [\<lparr> tr_guid = g, tr_account = account, tr_name = name, tr_status = 0 \<rparr>] \<rparr> in
      case ce_insert env of
        No_connection \<Rightarrow> (t, True, 0)
      | No_guid \<Rightarrow> (t, False, 0)
      | Refused g \<Rightarrow> (t, False, g)
      | Raised g done \<Rightarrow> (if done then ins g else t, True, g)
      | Inserted g \<Rightarrow> (ins g, True, g))"

definition get_account_role_number :: "char_env \<Rightarrow> string \<Rightarrow> char_state \<Rightarrow> nat option" where
  "get_account_role_number env account t =
     (if ce_number env
      then Some (length (filter (\<lambda>r. tr_account r = account \<and> tr_status r = 1) (ch_table t)))
      else None)"

definition update_role_status :: "char_env \<Rightarrow> guid \<Rightarrow> char_state \<Rightarrow> char_state \<times> bool" where
  "update_role_status env g t = (if ce_update env then (set_status g 1 t, True) else (t, False))"

section \<open>Roles in the making and lists in the loading\<close>

definition get_player_info :: "guid \<Rightarrow> char_state \<Rightarrow> (guid \<times> role_info) option" where
  "get_player_info g t =
     (if is_player_guid g then map_option (Pair g) (fmlookup (ch_roles t) g)
      else if is_role_guid g then find (\<lambda>(k, r). ri_role_guid r = g) (fm_items (ch_roles t))
      else None)"

definition is_making_role :: "guid \<Rightarrow> char_state \<Rightarrow> bool" where
  "is_making_role g t \<longleftrightarrow> list_ex (\<lambda>(k, r). ri_packet_guid r = g) (fm_items (ch_roles t))"

definition collect_make_role_info :: "role_info \<Rightarrow> char_state \<Rightarrow> char_state" where
  "collect_make_role_info r t = t\<lparr> ch_roles := fmupd (ri_player_guid r) r (ch_roles t) \<rparr>"

definition remove_role_info :: "guid \<Rightarrow> char_state \<Rightarrow> char_state" where
  "remove_role_info g t = t\<lparr> ch_roles := fmdrop g (ch_roles t) \<rparr>"

text \<open>What a handler writes through the pointer it got.\<close>

definition put_role_info :: "guid \<Rightarrow> role_info \<Rightarrow> char_state \<Rightarrow> char_state" where
  "put_role_info k r t = t\<lparr> ch_roles := fmupd k r (ch_roles t) \<rparr>"

definition send_error :: "nat \<Rightarrow> guid \<Rightarrow> int \<Rightarrow> char_state \<Rightarrow> char_state" where
  "send_error a g code = to_gate a (new_char_packet smsg_error_message g (Error_message code))"

definition clean_account_info :: "string \<Rightarrow> char_state \<Rightarrow> char_state" where
  "clean_account_info account t = t\<lparr> ch_accounts := (ch_accounts t)(account := None) \<rparr>"

definition to_listed_player :: "char_player \<Rightarrow> listed_player" where
  "to_listed_player p = \<lparr> lp_guid = cp_guid p, lp_name = cp_name p, lp_profession = cp_profession p, lp_sex = cp_sex p,
     lp_level = cp_level p, lp_map_id = cp_map_id p, lp_line_id = cp_line_no p \<rparr>"

definition loaded_players :: "(guid, role_slot) fmap \<Rightarrow> char_player list" where
  "loaded_players m = List.map_filter (\<lambda>(g, x). case x of Loaded p \<Rightarrow> Some p | _ \<Rightarrow> None) (fm_items m)"

definition replay_role_list :: "account_info \<Rightarrow> char_state \<Rightarrow> char_state" where
  "replay_role_list info t =
     (if list_ex (\<lambda>(g, x). x = Not_loaded) (fm_items (ai_roles info)) then t
      else (let ps = loaded_players (ai_roles info) in
            clean_account_info (ai_account info)
              (to_gate (ai_session info)
                (new_char_packet smsg_request_player_list (ai_packet_guid info) (Role_list (length ps) (map to_listed_player ps))) t)))"

section \<open>Packets of the gates\<close>

definition handle_check_role_name :: "char_cfg \<Rightarrow> char_env \<Rightarrow> char_packet \<Rightarrow> char_state \<Rightarrow> char_state" where
  "handle_check_role_name cfg env p t =
     (case pk_body p of
        Player_make pm \<Rightarrow>
          (if cc_check_name cfg (pm_name pm) \<and> \<not> is_exist_role_name env (pm_name pm) t then t
           else send_error (pk_owner p) (pk_guid p) 0 t)
      | _ \<Rightarrow> send_error (pk_owner p) (pk_guid p) 0 t)"

definition handle_role_make :: "char_cfg \<Rightarrow> char_env \<Rightarrow> char_packet \<Rightarrow> char_state \<Rightarrow> char_state" where
  "handle_role_make cfg env p t =
     (case pk_body p of
        Player_make pm \<Rightarrow>
          (if is_making_role (pk_guid p) t then t
           else if \<not> cc_check_name cfg (pm_name pm) then send_error (pk_owner p) (pk_guid p) 17 t
           else if is_exist_role_name env (pm_name pm) t then send_error (pk_owner p) (pk_guid p) 16 t
           else (case get_account_role_number env (pm_account pm) t of
                   None \<Rightarrow> t
                 | Some n \<Rightarrow>
                     (if \<not> n < cc_max_roles cfg then t
                      else (case insert_role_name env (pm_account pm) (pm_name pm) t of
                              (t, False, _) \<Rightarrow> t
                            | (t, True, g) \<Rightarrow>
                                (case ce_role_guid env of
                                   None \<Rightarrow> t
                                 | Some role \<Rightarrow>
                                     (let r = set_op_type COT_ADD
                                            \<lparr> ri_account = pm_account pm, ri_packet_guid = pk_guid p, ri_player_guid = g,
                                              ri_role_guid = role, ri_op = COT_BASE, ri_session = pk_owner p,
                                              ri_player_state = 0, ri_role_state = 0 \<rparr>;
                                          t = collect_make_role_info r t in
                                      t\<lparr> ch_cache_input := ch_cache_input t @ [new_char_packet (pk_opcode p) g (pk_body p)] \<rparr>)))))
           )
      | _ \<Rightarrow> t)"

definition request_load :: "char_packet \<Rightarrow> string \<Rightarrow> guid \<Rightarrow> char_state \<Rightarrow> char_state" where
  "request_load p account g t =
     (let r = set_op_type COT_LOAD
            \<lparr> ri_account = account, ri_packet_guid = pk_guid p, ri_player_guid = g, ri_role_guid = 0, ri_op = COT_BASE,
              ri_session = pk_owner p, ri_player_state = 0, ri_role_state = 0 \<rparr>;
          t = put_role_info g r t in
      t\<lparr> ch_cache_input := ch_cache_input t @ [new_char_packet (dc_code DCMSG_LOAD_ENTITY) g Other_body] \<rparr>)"

definition handle_request_role_list :: "char_env \<Rightarrow> char_packet \<Rightarrow> char_state \<Rightarrow> char_state" where
  "handle_request_role_list env p t =
     (case pk_body p of
        Request_list account \<Rightarrow>
          (case get_role_list env account t of
             None \<Rightarrow> send_error (pk_owner p) (pk_guid p) 1 t
           | Some gs \<Rightarrow>
               (let info = \<lparr> ai_account = account, ai_packet_guid = pk_guid p, ai_session = pk_owner p,
                             ai_roles = fmap_of_list (map (\<lambda>g. (g, Not_loaded)) gs) \<rparr> in
                if gs = [] then replay_role_list info t
                else (let t = clean_account_info account t;
                          t = t\<lparr> ch_accounts := (ch_accounts t)(account \<mapsto> info) \<rparr> in
                      fold (request_load p account) (fs_items (fmdom (ai_roles info))) t)))
      | _ \<Rightarrow> send_error (pk_owner p) (pk_guid p) 1 t)"

definition handle_role_delete :: "char_env \<Rightarrow> char_packet \<Rightarrow> char_state \<Rightarrow> char_state" where
  "handle_role_delete env p t =
     (case pk_body p of
        Player_delete g \<Rightarrow>
          (case delete_role env g t of
             (t, True) \<Rightarrow> to_gate (pk_owner p) (new_char_packet smsg_player_delete (pk_guid p) (Delete_done g)) t
           | (t, False) \<Rightarrow> t)
      | _ \<Rightarrow> t)"

text \<open>\<^verbatim>\<open>getNewName\<close>: without names the remainder by 0 ends the program.\<close>

definition pick :: "nat \<Rightarrow> string list \<Rightarrow> string option" where
  "pick n xs = (if xs = [] then None else Some (xs ! (n mod length xs)))"

definition get_new_name :: "char_cfg \<Rightarrow> nat \<times> nat \<Rightarrow> u32 \<Rightarrow> string option" where
  "get_new_name cfg r sex =
     (case pick (fst r) (cc_surnames cfg) of
        None \<Rightarrow> None
      | Some s \<Rightarrow> map_option (\<lambda>n. s @ n) (pick (snd r) (if sex = 0 then cc_female cfg else cc_male cfg)))"

definition handle_request_random_name :: "char_cfg \<Rightarrow> char_env \<Rightarrow> char_packet \<Rightarrow> char_state \<Rightarrow> char_state option" where
  "handle_request_random_name cfg env p t =
     (case pk_body p of
        Random_name sex \<Rightarrow>
          map_option (\<lambda>n. to_gate (pk_owner p) (new_char_packet smsg_request_random_name (pk_guid p) (New_name n)) t)
            (get_new_name cfg (ce_random env) sex)
      | _ \<Rightarrow> Some t)"

section \<open>Answers of the cache servers\<close>

definition handle_new_eneity :: "char_cfg \<Rightarrow> char_env \<Rightarrow> char_packet \<Rightarrow> char_state \<Rightarrow> char_state" where
  "handle_new_eneity cfg env p t =
     (case get_player_info (pk_guid p) t of
        None \<Rightarrow> t
      | Some (k, r) \<Rightarrow>
          (let ok = (case pk_body p of Op_result st m \<Rightarrow> st = 0 | _ \<Rightarrow> False);
               r = update_state (pk_guid p) ok r;
               t = put_role_info k r t;
               t = (if ok
                    then (if is_success r
                          then (case update_role_status env (ri_player_guid r) t of
                                  (t, False) \<Rightarrow> t
                                | (t, True) \<Rightarrow>
                                    to_gate (ri_session r)
                                      (new_char_packet smsg_player_make (ri_packet_guid r)
                                        (Make_done (pk_guid p) (pi_map_id (cc_init cfg)) (cc_line_id cfg))) t)
                          else t)
                    else (if is_failed r
                          then send_error (ri_session r) (ri_packet_guid r) 1 (fst (delete_role env (ri_player_guid r) t))
                          else t)) in
           if is_finish r then remove_role_info (ri_player_guid r) t else t))"

text \<open>The slot that the answer fills; a slot is filled only where the account waits for it.\<close>

definition fill_slot :: "string \<Rightarrow> guid \<Rightarrow> role_slot \<Rightarrow> char_state \<Rightarrow> char_state" where
  "fill_slot account g x t =
     (case ch_accounts t account of
        None \<Rightarrow> t
      | Some info \<Rightarrow>
          (if g |\<in>| fmdom (ai_roles info)
           then (let info = info\<lparr> ai_roles := fmupd g x (ai_roles info) \<rparr> in
                 replay_role_list info (t\<lparr> ch_accounts := (ch_accounts t)(account \<mapsto> info) \<rparr>))
           else t))"

definition handle_load_eneity :: "char_packet \<Rightarrow> char_state \<Rightarrow> char_state" where
  "handle_load_eneity p t =
     (case get_player_info (pk_guid p) t of
        None \<Rightarrow> t
      | Some (k, r) \<Rightarrow>
          (let normal = (case pk_body p of Op_result st m \<Rightarrow> st = 0 | _ \<Rightarrow> False);
               player = (case pk_body p of Op_result st m \<Rightarrow> m | _ \<Rightarrow> None);
               r1 = (if normal then update_state (pk_guid p) True r else r);
               ok = (normal \<and> is_success r1 \<and> ch_accounts t (ri_account r) \<noteq> None \<and> player \<noteq> None);
               r = (if ok then r1 else update_state (pk_guid p) False r1);
               t = put_role_info k r t;
               t = (if ok then fill_slot (ri_account r) (cp_guid (the player)) (Loaded (the player)) t
                    else if is_failed r then fill_slot (ri_account r) (pk_guid p) Load_failed t
                    else t) in
           if is_finish r then remove_role_info (ri_player_guid r) t else t))"

definition do_handle_packet :: "char_cfg \<Rightarrow> char_env \<Rightarrow> char_packet \<Rightarrow> char_state \<Rightarrow> char_state option" where
  "do_handle_packet cfg env p t =
     (let op = pk_opcode p in
      if op = cmsg_check_player_name then Some (handle_check_role_name cfg env p t)
      else if op = cmsg_player_make then Some (handle_role_make cfg env p t)
      else if op = cmsg_request_player_list then Some (handle_request_role_list env p t)
      else if op = cmsg_player_delete then Some (handle_role_delete env p t)
      else if op = cmsg_request_random_name then handle_request_random_name cfg env p t
      else if op = dc_code DCMSG_NEW_ENEITY then Some (handle_new_eneity cfg env p t)
      else if op = dc_code DCMSG_LOAD_ENTITY then Some (handle_load_eneity p t)
      else Some t)"

section \<open>Requests to the cache servers\<close>

definition cache_role_make :: "char_cfg \<Rightarrow> char_packet \<Rightarrow> char_state \<Rightarrow> char_state" where
  "cache_role_make cfg p t =
     (case pk_body p of
        Player_make pm \<Rightarrow>
          (case init_role cfg (pk_guid p) pm (map_option (\<lambda>(k, r). ri_role_guid r) (get_player_info (pk_guid p) t)) of
             None \<Rightarrow> t
           | Some role \<Rightarrow>
               (let player = init_player cfg (pk_guid p) pm (cr_role_id role) (cr_guid role);
                    t = char_log (To_cache (pk_guid p)
                          (new_char_packet (dc_code DCMSG_NEW_ENEITY) (cr_guid role) (Data_request (Some (Role_entity role))))) t in
                char_log (To_cache (pk_guid p)
                  (new_char_packet (dc_code DCMSG_NEW_ENEITY) (cp_guid player) (Data_request (Some (Player_entity player))))) t))
      | _ \<Rightarrow> t)"

definition cache_load_entity :: "char_packet \<Rightarrow> char_state \<Rightarrow> char_state" where
  "cache_load_entity p =
     char_log (To_cache (pk_guid p) (new_char_packet (dc_code DCMSG_LOAD_ENTITY) (pk_guid p) (Data_request None)))"

definition cache_handle_packet :: "char_cfg \<Rightarrow> char_packet \<Rightarrow> char_state \<Rightarrow> char_state" where
  "cache_handle_packet cfg p t =
     (if pk_opcode p = cmsg_player_make then cache_role_make cfg p t
      else if pk_opcode p = dc_code DCMSG_LOAD_ENTITY then cache_load_entity p t
      else t)"

section \<open>The server as a machine\<close>

datatype char_event =
    Gate_opens nat
  | Gate_closes nat
  | Gate_packet char_packet
  | Cache_reply char_packet
  | Handle_gate char_env
  | Handle_cache

text \<open>One round of the loop of each thread.\<close>

definition gate_svc :: "char_cfg \<Rightarrow> char_env \<Rightarrow> char_state \<Rightarrow> char_state option" where
  "gate_svc cfg env t =
     (case ch_input t of
        [] \<Rightarrow> Some t
      | p # ps \<Rightarrow> do_handle_packet cfg env p (t\<lparr> ch_input := ps \<rparr>))"

definition cache_svc :: "char_cfg \<Rightarrow> char_state \<Rightarrow> char_state" where
  "cache_svc cfg t =
     (case ch_cache_input t of
        [] \<Rightarrow> t
      | p # ps \<Rightarrow> cache_handle_packet cfg p (t\<lparr> ch_cache_input := ps \<rparr>))"

lemmas char_step_simps = gate_svc_def cache_svc_def

definition char_step :: "char_cfg \<Rightarrow> char_event \<Rightarrow> char_state \<Rightarrow> char_state option" where
  "char_step cfg e t =
     (case e of
        Gate_opens a \<Rightarrow> Some (t\<lparr> ch_sessions := insert a (ch_sessions t) \<rparr>)
      | Gate_closes a \<Rightarrow> Some (t\<lparr> ch_sessions := ch_sessions t - {a} \<rparr>)
      | Gate_packet p \<Rightarrow> Some (t\<lparr> ch_input := ch_input t @ [p] \<rparr>)
      | Cache_reply p \<Rightarrow> Some (char_log (From_cache p) (t\<lparr> ch_input := ch_input t @ [p] \<rparr>))
      | Handle_gate env \<Rightarrow> gate_svc cfg env t
      | Handle_cache \<Rightarrow> Some (cache_svc cfg t))"

definition char_run_step :: "char_cfg \<Rightarrow> char_event \<Rightarrow> char_state option \<Rightarrow> char_state option" where
  "char_run_step cfg e x = (case x of None \<Rightarrow> None | Some t \<Rightarrow> char_step cfg e t)"

end
