(* ===== verification/RoleMakeRuns.thy ===== *)
theory RoleMakeRuns
  imports RoleMake
begin

text \<open>
  Runs of the server of the roles: names are given once, what a request with an unknown profession leaves behind,
  and what the clients are told.
\<close>

section \<open>Runs\<close>

definition used_guid :: "guid \<Rightarrow> char_state \<Rightarrow> bool" where
  "used_guid g t \<longleftrightarrow> list_ex (\<lambda>r. tr_guid r = g) (ch_table t) \<or>
     list_ex (\<lambda>(k, r). k = g \<or> ri_role_guid r = g) (fm_items (ch_roles t)) \<or>
     list_ex (\<lambda>x. case x of To_cache k q \<Rightarrow> k = g \<or> pk_guid q = g | _ \<Rightarrow> False) (ch_log t)"

lemma used_guid_input [simp]: "used_guid g (t\<lparr> ch_input := ps \<rparr>) = used_guid g t"
  by (simp add: used_guid_def)

text \<open>The guids that \<^verbatim>\<open>ManageGuid\<close> gives are of their type and not in use.\<close>

definition fresh_guids :: "char_env \<Rightarrow> char_state \<Rightarrow> bool" where
  "fresh_guids env t \<longleftrightarrow>
     (case ce_insert env of
        Refused g \<Rightarrow> is_player_guid g \<and> \<not> used_guid g t
      | Raised g b \<Rightarrow> is_player_guid g \<and> \<not> used_guid g t
      | Inserted g \<Rightarrow> is_player_guid g \<and> \<not> used_guid g t
      | _ \<Rightarrow> True) \<and>
     (case ce_role_guid env of None \<Rightarrow> True | Some g \<Rightarrow> is_role_guid g \<and> \<not> used_guid g t)"

lemma fresh_guids_input [simp]: "fresh_guids env (t\<lparr> ch_input := ps \<rparr>) = fresh_guids env t"
  by (simp add: fresh_guids_def split: insert_outcome.split option.split)

text \<open>Gates send no answers of cache servers; a cache server answers what it was asked.\<close>

definition char_allowed :: "char_event \<Rightarrow> char_state option \<Rightarrow> bool" where
  "char_allowed e x =
     (case x of
        None \<Rightarrow> True
      | Some t \<Rightarrow>
          (case e of
             Gate_packet p \<Rightarrow> pk_opcode p \<noteq> dc_code DCMSG_NEW_ENEITY \<and> pk_opcode p \<noteq> dc_code DCMSG_LOAD_ENTITY
           | Cache_reply p \<Rightarrow>
               list_ex (\<lambda>x. case x of To_cache k q \<Rightarrow> pk_opcode q = pk_opcode p \<and> pk_guid q = pk_guid p | _ \<Rightarrow> False)
                 (ch_log t)
           | Handle_gate env \<Rightarrow> fresh_guids env t
           | _ \<Rightarrow> True))"

definition char_run :: "char_cfg \<Rightarrow> char_event list \<Rightarrow> char_state option \<Rightarrow> char_state option" where
  "char_run cfg es x = run_events (char_run_step cfg) es x"

text \<open>\<open>holds P x\<close>: unless the program ended, its state has \<open>P\<close>.\<close>

definition holds :: "(char_state \<Rightarrow> bool) \<Rightarrow> char_state option \<Rightarrow> bool" where
  "holds P x = (case x of None \<Rightarrow> True | Some t \<Rightarrow> P t)"

lemma holds_simps [simp]: "holds P None" "holds P (Some t) = P t"
  by (simp_all add: holds_def)

lemma holds_map [simp]: "holds P (map_option f x) = (case x of None \<Rightarrow> True | Some y \<Rightarrow> P (f y))"
  by (cases x) simp_all

section \<open>Operations that leave the roles alone\<close>

lemma char_fields [simp]:
  "ch_roles (char_log x t) = ch_roles t" "ch_table (char_log x t) = ch_table t" "ch_input (char_log x t) = ch_input t"
  "ch_cache_input (char_log x t) = ch_cache_input t" "ch_log (char_log x t) = ch_log t @ [x]"
  "ch_accounts (char_log x t) = ch_accounts t" "ch_sessions (char_log x t) = ch_sessions t"
  by (simp_all add: char_log_def)

text \<open>What one handler leaves as it was: the queue to the cache, the roles, the table, the requests in the log.\<close>

definition cache_log :: "char_state \<Rightarrow> char_crossing list" where
  "cache_log t = filter (\<lambda>x. case x of To_gate a q \<Rightarrow> False | _ \<Rightarrow> True) (ch_log t)"

definition same_making :: "char_state \<Rightarrow> char_state \<Rightarrow> bool" where
  "same_making t u \<longleftrightarrow> ch_roles u = ch_roles t \<and> ch_table u = ch_table t \<and> ch_cache_input u = ch_cache_input t \<and>
     ch_input u = ch_input t \<and> cache_log u = cache_log t"

lemma same_making_refl [simp]: "same_making t t"
  by (simp add: same_making_def)

lemma same_making_trans: "same_making t u \<Longrightarrow> same_making u v \<Longrightarrow> same_making t v"
  by (simp add: same_making_def)

lemma same_making_gate [simp]: "same_making t (to_gate a p u) = same_making t u"
  by (simp add: same_making_def to_gate_def cache_log_def)

lemma same_making_clean [simp]:
  "same_making t (clean_account_info s u) = same_making t u"
  "same_making t (u\<lparr> ch_accounts := m \<rparr>) = same_making t u"
  by (simp_all add: same_making_def clean_account_info_def cache_log_def)

lemma same_making_send [simp]: "same_making t (send_error a g c u) = same_making t u"
  by (simp add: send_error_def)

lemma same_making_replay [simp]: "same_making t (replay_role_list info u) = same_making t u"
  by (simp add: replay_role_list_def Let_def)

lemma same_making_fill [simp]: "same_making t (fill_slot s g x u) = same_making t u"
  by (simp add: fill_slot_def Let_def split: option.split)

lemma set_status_fields [simp]:
  "ch_roles (set_status g st t) = ch_roles t" "ch_cache_input (set_status g st t) = ch_cache_input t"
  "ch_input (set_status g st t) = ch_input t" "ch_log (set_status g st t) = ch_log t"
  "map tr_name (ch_table (set_status g st t)) = map tr_name (ch_table t)"
  "map tr_guid (ch_table (set_status g st t)) = map tr_guid (ch_table t)"
  "cache_log (set_status g st t) = cache_log t"
  by (simp_all add: set_status_def comp_def if_distrib cache_log_def cong: if_cong)

section \<open>Names\<close>

definition names_once :: "char_state \<Rightarrow> bool" where
  "names_once t \<longleftrightarrow> distinct (map tr_name (ch_table t))"

lemma same_names: "same_making t u \<Longrightarrow> map tr_name (ch_table u) = map tr_name (ch_table t)"
  by (simp add: same_making_def)

lemma role_fields [simp]:
  "ch_table (put_role_info k r t) = ch_table t" "ch_table (remove_role_info k t) = ch_table t"
  "ch_table (collect_make_role_info r t) = ch_table t" "ch_table (to_gate a p t) = ch_table t"
  "ch_table (send_error a g c t) = ch_table t" "ch_table (clean_account_info s t) = ch_table t"
  by (simp_all add: put_role_info_def remove_role_info_def collect_make_role_info_def to_gate_def send_error_def
      clean_account_info_def)

lemma replay_table [simp]: "ch_table (replay_role_list info t) = ch_table t"
  by (simp add: replay_role_list_def Let_def)

lemma fill_table [simp]: "ch_table (fill_slot s g x t) = ch_table t"
  by (simp add: fill_slot_def Let_def split: option.split)

lemma request_load_table [simp]: "ch_table (request_load p s g t) = ch_table t"
  by (simp add: request_load_def Let_def)

lemma fold_request_table [simp]: "ch_table (fold (request_load p s) gs t) = ch_table t"
  by (induction gs arbitrary: t) simp_all

lemma role_make_names:
  assumes "names_once t"
  shows "names_once (handle_role_make cfg env p t)"
  using assms
  by (auto simp: handle_role_make_def names_once_def is_exist_role_name_def insert_role_name_def Let_def list_ex_iff
      split: char_body.split option.split insert_outcome.split bool.split)

lemma do_handle_names:
  assumes "names_once t"
  shows "holds names_once (do_handle_packet cfg env p t)"
proof -
  have eq: "names_once u" if "map tr_name (ch_table u) = map tr_name (ch_table t)" for u
    using assms that by (simp add: names_once_def)
  have "names_once (handle_check_role_name cfg env p t)"
    by (rule eq) (simp add: handle_check_role_name_def split: char_body.split)
  moreover have "names_once (handle_request_role_list env p t)"
    by (rule eq) (simp add: handle_request_role_list_def Let_def split: char_body.split option.split)
  moreover have "names_once (handle_role_delete env p t)"
    by (rule eq) (simp add: handle_role_delete_def delete_role_def split: char_body.split)
  moreover have "names_once (handle_new_eneity cfg env p t)"
    by (rule eq) (simp add: handle_new_eneity_def delete_role_def update_role_status_def Let_def split: option.split)
  moreover have "names_once (handle_load_eneity p t)"
    by (rule eq) (simp add: handle_load_eneity_def Let_def split: option.split)
  moreover have "holds names_once (handle_request_random_name cfg env p t)"
    using assms by (simp add: handle_request_random_name_def eq split: char_body.split option.split)
  ultimately show ?thesis
    using assms role_make_names by (simp add: do_handle_packet_def Let_def)
qed

lemma char_step_names:
  assumes "holds names_once x"
  shows "holds names_once (char_run_step cfg e x)"
proof (cases x)
  case (Some t)
  have t: "names_once t" using assms Some by simp
  then have "names_once (t\<lparr> ch_input := i \<rparr>)" for i by (simp add: names_once_def)
  moreover have "names_once (cache_handle_packet cfg p (t\<lparr> ch_cache_input := i \<rparr>))" for p i
    using t by (simp add: cache_handle_packet_def cache_role_make_def cache_load_entity_def names_once_def Let_def
        split: char_body.split option.split)
  ultimately show ?thesis
    using Some t by (auto simp: char_run_step_def char_step_def char_step_simps do_handle_names names_once_def
        split: char_event.split list.split)
qed (simp add: char_run_step_def)

interpretation names: invariant_machine "char_run_step cfg" "\<lambda>_ _. True" "holds names_once" for cfg
  by unfold_locales (rule char_step_names)

section \<open>Requests that are never answered\<close>

text \<open>The role \<open>k\<close> is in the making for the client \<open>pg\<close>, and no request about it is on its way.\<close>

definition stuck :: "guid \<Rightarrow> guid \<Rightarrow> guid \<Rightarrow> string \<Rightarrow> char_state \<Rightarrow> bool" where
  "stuck pg k rg name t \<longleftrightarrow> is_player_guid k \<and> is_role_guid rg \<and>
     (\<exists>r. fmlookup (ch_roles t) k = Some r \<and> ri_packet_guid r = pg \<and> ri_role_guid r = rg) \<and>
     (\<forall>k' r'. fmlookup (ch_roles t) k' = Some r' \<longrightarrow> ri_player_guid r' = k' \<and> (k' \<noteq> k \<longrightarrow> ri_role_guid r' \<noteq> rg \<and> ri_role_guid r' \<noteq> k)) \<and>
     (\<forall>p \<in> set (ch_cache_input t). pk_guid p \<noteq> k \<and> pk_guid p \<noteq> rg) \<and>
     (\<forall>p \<in> set (ch_input t). pk_opcode p \<in> {dc_code DCMSG_NEW_ENEITY, dc_code DCMSG_LOAD_ENTITY} \<longrightarrow>
        pk_guid p \<noteq> k \<and> pk_guid p \<noteq> rg) \<and>
     (\<forall>k' q. To_cache k' q \<in> set (ch_log t) \<longrightarrow> pk_guid q \<noteq> k \<and> pk_guid q \<noteq> rg) \<and>
     name \<in> set (map tr_name (ch_table t)) \<and> rg \<notin> set (map tr_guid (ch_table t)) \<and>
     (\<forall>row \<in> set (ch_table t). tr_guid row = k \<longrightarrow> tr_status row \<noteq> 1)"

lemma to_cache_log: "To_cache k q \<in> set (ch_log t) \<longleftrightarrow> To_cache k q \<in> set (cache_log t)"
  by (simp add: cache_log_def)

lemma stuck_same: "same_making t u \<Longrightarrow> stuck pg k rg name u = stuck pg k rg name t"
  unfolding same_making_def stuck_def to_cache_log by simp

lemma stuck_put:
  assumes "stuck pg k rg name t" "k' \<noteq> k" "ri_player_guid r = k'" "ri_role_guid r \<noteq> rg" "ri_role_guid r \<noteq> k"
  shows "stuck pg k rg name (put_role_info k' r t)"
  using assms unfolding stuck_def put_role_info_def by auto

lemma stuck_remove:
  assumes "stuck pg k rg name t" "k' \<noteq> k"
  shows "stuck pg k rg name (remove_role_info k' t)"
  using assms unfolding stuck_def remove_role_info_def by auto

lemma stuck_status:
  assumes "stuck pg k rg name t" "g = k \<Longrightarrow> st \<noteq> 1"
  shows "stuck pg k rg name (set_status g st t)"
  using assms unfolding stuck_def set_status_fields by (auto simp: set_status_def)

lemma stuck_push:
  assumes "stuck pg k rg name t" "pk_guid p \<noteq> k" "pk_guid p \<noteq> rg"
  shows "stuck pg k rg name (t\<lparr> ch_cache_input := ch_cache_input t @ [p] \<rparr>)"
  using assms unfolding stuck_def by auto

lemma stuck_input:
  assumes "stuck pg k rg name t" "set ps \<subseteq> set (ch_input t)"
  shows "stuck pg k rg name (t\<lparr> ch_input := ps \<rparr>)"
  using assms unfolding stuck_def by auto

lemma stuck_insert:
  assumes "stuck pg k rg name t" "insert_role_name env a n t = (u, ok, g)" "g \<noteq> rg"
  shows "stuck pg k rg name u"
proof -
  have "stuck pg k rg name (t\<lparr> ch_table := ch_table t @ [\<lparr> tr_guid = g', tr_account = a, tr_name = n, tr_status = 0 \<rparr>] \<rparr>)" if "g' \<noteq> rg" for g'
    using assms(1) that unfolding stuck_def by auto
  then show ?thesis using assms by (auto simp: insert_role_name_def Let_def split: insert_outcome.splits if_splits)
qed

lemma update_state_fields [simp]:
  "ri_player_guid (update_state g b r) = ri_player_guid r" "ri_role_guid (update_state g b r) = ri_role_guid r"
  "ri_packet_guid (update_state g b r) = ri_packet_guid r" "ri_account (update_state g b r) = ri_account r"
  "ri_session (update_state g b r) = ri_session r" "ri_op (update_state g b r) = ri_op r"
  by (simp_all add: update_state_def)

lemma get_player_info_in:
  "get_player_info g t = Some (k, r) \<Longrightarrow> fmlookup (ch_roles t) k = Some r \<and>
    (is_player_guid g \<and> k = g \<or> is_role_guid g \<and> \<not> is_player_guid g \<and> ri_role_guid r = g)"
  by (auto simp: get_player_info_def find_Some_iff split: if_splits) (metis nth_mem set_fm_items)

lemma stuck_other:
  assumes "stuck pg k rg name t" "get_player_info g t = Some (k', r')" "g \<noteq> k" "g \<noteq> rg"
  shows "k' \<noteq> k \<and> ri_player_guid r' = k' \<and> ri_role_guid r' \<noteq> rg \<and> ri_role_guid r' \<noteq> k"
  using get_player_info_in [OF assms(2)] assms(1,3,4) unfolding stuck_def by auto

lemma not_both: "is_player_guid g \<Longrightarrow> \<not> is_role_guid g"
  by (simp add: is_player_guid_def is_role_guid_def et_player_def et_role_def)

lemma stuck_fresh:
  assumes st: "stuck pg k rg name t" and fresh: "fresh_guids env t"
  shows "insert_role_name env a n t = (u, ok, g) \<Longrightarrow> g \<noteq> k \<and> g \<noteq> rg"
    "ce_role_guid env = Some role \<Longrightarrow> role \<noteq> rg \<and> role \<noteq> k"
proof -
  have k: "is_player_guid k" "is_role_guid rg" "used_guid k t" "used_guid rg t"
    using st unfolding stuck_def used_guid_def by (auto simp: list_ex_iff)
  have "k \<noteq> 0" "rg \<noteq> 0"
    using k(1,2) by (auto simp: is_player_guid_def is_role_guid_def guid_type_def et_player_def et_role_def)
  then show "insert_role_name env a n t = (u, ok, g) \<Longrightarrow> g \<noteq> k \<and> g \<noteq> rg"
    using fresh k(3,4) by (auto simp: insert_role_name_def Let_def fresh_guids_def split: insert_outcome.splits if_splits)
  show "ce_role_guid env = Some role \<Longrightarrow> role \<noteq> rg \<and> role \<noteq> k"
    using fresh k(3,4) by (auto simp: fresh_guids_def)
qed

lemma stuck_role_make:
  assumes st: "stuck pg k rg name t" and fresh: "fresh_guids env t"
  shows "stuck pg k rg name (handle_role_make cfg env p t)"
proof (cases "pk_body p")
  case (Player_make pm)
  let ?r = "\<lambda>g role. set_op_type COT_ADD
        \<lparr> ri_account = pm_account pm, ri_packet_guid = pk_guid p, ri_player_guid = g, ri_role_guid = role, ri_op = COT_BASE,
          ri_session = pk_owner p, ri_player_state = 0, ri_role_state = 0 \<rparr>"
  obtain u ok g where ins: "insert_role_name env (pm_account pm) (pm_name pm) t = (u, ok, g)"
    by (cases "insert_role_name env (pm_account pm) (pm_name pm) t")
  have g: "g \<noteq> k" "g \<noteq> rg" using stuck_fresh(1) [OF st fresh ins] by simp_all
  have u: "stuck pg k rg name u" by (rule stuck_insert [OF st ins g(2)])
  have new: "stuck pg k rg name (let t = collect_make_role_info (?r g role) u in
      t\<lparr> ch_cache_input := ch_cache_input t @ [new_char_packet (pk_opcode p) g (pk_body p)] \<rparr>)"
    if "ce_role_guid env = Some role" for role
  proof -
    have "stuck pg k rg name (put_role_info g (?r g role) u)"
      by (rule stuck_put [OF u g(1)]) (use stuck_fresh(2) [OF st fresh that] in \<open>simp_all add: set_op_type_def\<close>)
    from stuck_push [OF this, of "new_char_packet (pk_opcode p) g (pk_body p)"] g show ?thesis
      by (simp add: Let_def collect_make_role_info_def put_role_info_def new_char_packet_def set_op_type_def)
  qed
  have err: "stuck pg k rg name (send_error a h c t)" for a h c using st stuck_same [of t "send_error a h c t"] by simp
  show ?thesis
    using st u err new ins
    by (cases ok) (simp_all add: handle_role_make_def Player_make Let_def split: option.split)
qed (use st in \<open>simp_all add: handle_role_make_def\<close>)

lemma stuck_role_list:
  assumes st: "stuck pg k rg name t"
  shows "stuck pg k rg name (handle_request_role_list env p t)"
proof -
  have load: "stuck pg k rg name (fold (request_load p a) gs u)" if "stuck pg k rg name u" "k \<notin> set gs" "rg \<notin> set gs" for u a gs
    using that
  proof (induction gs arbitrary: u)
    case (Cons g gs)
    have rg: "rg \<noteq> 0" "k \<noteq> 0"
      using st by (auto simp: stuck_def is_role_guid_def is_player_guid_def guid_type_def et_role_def et_player_def)
    have "stuck pg k rg name (put_role_info g (set_op_type COT_LOAD
        \<lparr> ri_account = a, ri_packet_guid = pk_guid p, ri_player_guid = g, ri_role_guid = 0, ri_op = COT_BASE,
          ri_session = pk_owner p, ri_player_state = 0, ri_role_state = 0 \<rparr>) u)"
      by (rule stuck_put [OF Cons.prems(1)]) (use Cons.prems(2,3) rg in \<open>auto simp: set_op_type_def\<close>)
    from stuck_push [OF this, of "new_char_packet (dc_code DCMSG_LOAD_ENTITY) g Other_body"] Cons.prems(2,3)
    have "stuck pg k rg name (request_load p a g u)" by (auto simp: request_load_def Let_def new_char_packet_def)
    then show ?case using Cons by simp
  qed simp
  have un: "k \<notin> set gs \<and> rg \<notin> set gs" if "get_role_list env a t = Some gs" for gs a
    using that st by (auto simp: get_role_list_def stuck_def split: if_splits)
  have same: "stuck pg k rg name u" if "same_making t u" for u using stuck_same [OF that] st by simp
  show ?thesis
    by (auto simp: handle_request_role_list_def Let_def same fset_of_list_elem intro!: load dest: un split: char_body.split option.split)
qed

lemma stuck_new_eneity:
  assumes st: "stuck pg k rg name t" and g: "pk_guid p \<noteq> k" "pk_guid p \<noteq> rg"
  shows "stuck pg k rg name (handle_new_eneity cfg env p t)"
proof (cases "get_player_info (pk_guid p) t")
  case (Some x)
  obtain k' r' where x: "x = (k', r')" by (cases x)
  have o: "k' \<noteq> k" "ri_player_guid r' = k'" "ri_role_guid r' \<noteq> rg" "ri_role_guid r' \<noteq> k" using stuck_other [OF st _ g] Some x by auto
  have put: "stuck pg k rg name (put_role_info k' (update_state h b r') t)" for h b
    by (rule stuck_put [OF st o(1)]) (use o in simp_all)
  have status: "stuck pg k rg name (set_status k' n (put_role_info k' (update_state h b r') t))" for n h b
    by (rule stuck_status [OF put]) (use o in simp)
  have gate: "stuck pg k rg name (to_gate a q u)" if "stuck pg k rg name u" for a q u
    using that stuck_same [of u "to_gate a q u"] by simp
  show ?thesis
    by (simp add: handle_new_eneity_def Some x Let_def update_role_status_def delete_role_def send_error_def
        o put status stuck_remove gate)
qed (use st in \<open>simp add: handle_new_eneity_def\<close>)

lemma stuck_load_eneity:
  assumes st: "stuck pg k rg name t" and g: "pk_guid p \<noteq> k" "pk_guid p \<noteq> rg"
  shows "stuck pg k rg name (handle_load_eneity p t)"
proof (cases "get_player_info (pk_guid p) t")
  case (Some x)
  obtain k' r' where x: "x = (k', r')" by (cases x)
  have o: "k' \<noteq> k" "ri_player_guid r' = k'" "ri_role_guid r' \<noteq> rg" "ri_role_guid r' \<noteq> k" using stuck_other [OF st _ g] Some x by auto
  have put: "stuck pg k rg name (put_role_info k' r t)" if "ri_player_guid r = k'" "ri_role_guid r \<noteq> rg" "ri_role_guid r \<noteq> k" for r
    by (rule stuck_put [OF st o(1)]) (use that in simp_all)
  have fill: "stuck pg k rg name (fill_slot a h y u)" if "stuck pg k rg name u" for a h y u
    using that stuck_same [of u "fill_slot a h y u"] by simp
  show ?thesis
    by (simp add: handle_load_eneity_def Some x Let_def o stuck_remove fill put)
qed (use st in \<open>simp add: handle_load_eneity_def\<close>)

lemma stuck_do_handle:
  assumes st: "stuck pg k rg name t" and fresh: "fresh_guids env t"
    and p: "pk_opcode p \<in> {dc_code DCMSG_NEW_ENEITY, dc_code DCMSG_LOAD_ENTITY} \<Longrightarrow> pk_guid p \<noteq> k \<and> pk_guid p \<noteq> rg"
  shows "holds (stuck pg k rg name) (do_handle_packet cfg env p t)"
proof -
  have same: "stuck pg k rg name u" if "same_making t u" for u using stuck_same [OF that] st by simp
  have "stuck pg k rg name (handle_check_role_name cfg env p t)"
    by (simp add: handle_check_role_name_def same split: char_body.split)
  moreover have "stuck pg k rg name (handle_role_delete env p t)"
  proof -
    have "stuck pg k rg name (to_gate a q (set_status g 2 t))" for a q g
      using stuck_same [of "set_status g 2 t" "to_gate a q (set_status g 2 t)"] stuck_status [OF st, of g 2] by simp
    then show ?thesis using st by (simp add: handle_role_delete_def delete_role_def split: char_body.split)
  qed
  moreover have "holds (stuck pg k rg name) (handle_request_random_name cfg env p t)"
    by (simp add: handle_request_random_name_def same split: char_body.split option.split)
  ultimately show ?thesis
    using st p stuck_role_make [OF st fresh] stuck_role_list [OF st] stuck_new_eneity [OF st] stuck_load_eneity [OF st]
    by (simp add: do_handle_packet_def Let_def)
qed

lemma stuck_find:
  assumes "stuck pg k rg name t" "To_cache k' q \<in> set (ch_log t)"
  shows "pk_guid q \<noteq> k \<and> pk_guid q \<noteq> rg"
  using assms by (simp add: stuck_def)

lemma stuck_cache:
  assumes st: "stuck pg k rg name t" and g: "pk_guid p \<noteq> k" "pk_guid p \<noteq> rg"
  shows "stuck pg k rg name (cache_handle_packet cfg p t)"
proof -
  have log: "stuck pg k rg name (char_log (To_cache h q) u)"
    if "stuck pg k rg name u" "pk_guid q \<noteq> k" "pk_guid q \<noteq> rg" for h q u
    using that unfolding stuck_def by (auto simp: char_log_def)
  have "stuck pg k rg name (cache_load_entity p t)"
    unfolding cache_load_entity_def by (rule log [OF st]) (simp_all add: new_char_packet_def g)
  moreover have "stuck pg k rg name (cache_role_make cfg p t)"
  proof (cases "pk_body p")
    case (Player_make pm)
    define f where "f = init_role cfg (pk_guid p) pm (map_option (\<lambda>(k, r). ri_role_guid r) (get_player_info (pk_guid p) t))"
    have role: "cr_guid role \<noteq> k \<and> cr_guid role \<noteq> rg" if "f = Some role" for role
    proof -
      obtain k' r' where x: "get_player_info (pk_guid p) t = Some (k', r')" and "cr_guid role = ri_role_guid r'"
        using \<open>f = Some role\<close> unfolding f_def init_role_def by (auto split: option.splits)
      then show ?thesis using stuck_other [OF st x g] by simp
    qed
    have two: "stuck pg k rg name (char_log (To_cache h q') (char_log (To_cache h q) t))"
      if "pk_guid q \<noteq> k \<and> pk_guid q \<noteq> rg" "pk_guid q' \<noteq> k \<and> pk_guid q' \<noteq> rg" for h q q'
      using log st that by simp
    show ?thesis
      unfolding cache_role_make_def Player_make char_body.case f_def [symmetric] Let_def
      using st role two g by (cases f) (simp_all add: new_char_packet_def init_player_def Let_def)
  qed (use st in \<open>simp_all add: cache_role_make_def\<close>)
  ultimately show ?thesis using st by (simp add: cache_handle_packet_def)
qed

lemma stuck_step:
  assumes st: "holds (stuck pg k rg name) x" and al: "char_allowed e x"
  shows "holds (stuck pg k rg name) (char_run_step cfg e x)"
proof (cases x)
  case (Some t)
  have t: "stuck pg k rg name t" using st Some by simp
  have input: "stuck pg k rg name (t\<lparr> ch_input := ch_input t @ [p] \<rparr>)"
    if "pk_opcode p \<in> {dc_code DCMSG_NEW_ENEITY, dc_code DCMSG_LOAD_ENTITY} \<Longrightarrow> pk_guid p \<noteq> k \<and> pk_guid p \<noteq> rg" for p
    using t that unfolding stuck_def by auto
  have "holds (stuck pg k rg name) (char_step cfg e t)"
  proof (cases e)
    case (Gate_opens a)
    then show ?thesis using t by (simp add: char_step_def char_step_simps stuck_def)
  next
    case (Gate_closes a)
    then show ?thesis using t by (simp add: char_step_def char_step_simps stuck_def)
  next
    case (Gate_packet p)
    then show ?thesis using input [of p] al Some by (auto simp: char_step_def char_step_simps char_allowed_def)
  next
    case (Cache_reply p)
    then obtain y where y: "y \<in> set (ch_log t)"
        "case y of To_cache k q \<Rightarrow> pk_opcode q = pk_opcode p \<and> pk_guid q = pk_guid p | _ \<Rightarrow> False"
      using al Some by (auto simp: char_allowed_def list_ex_iff)
    obtain k' q where "To_cache k' q \<in> set (ch_log t)" "pk_guid q = pk_guid p" by (cases y) (use y in auto)
    then have "stuck pg k rg name (t\<lparr> ch_input := ch_input t @ [p] \<rparr>)" using stuck_find [OF t] input by metis
    then show ?thesis by (auto simp: Cache_reply char_step_def char_step_simps stuck_def)
  next
    case (Handle_gate env)
    have fresh: "fresh_guids env (t\<lparr> ch_input := ps \<rparr>)" for ps
      using al Some Handle_gate by (simp add: char_allowed_def)
    have p: "pk_guid p \<noteq> k \<and> pk_guid p \<noteq> rg"
      if "ch_input t = p # ps" "pk_opcode p \<in> {dc_code DCMSG_NEW_ENEITY, dc_code DCMSG_LOAD_ENTITY}" for p ps
      using t that by (auto simp: stuck_def)
    show ?thesis
    proof (cases "ch_input t")
      case (Cons p' ps)
      have "holds (stuck pg k rg name) (do_handle_packet cfg env p' (t\<lparr> ch_input := ps \<rparr>))"
        by (rule stuck_do_handle [OF stuck_input [OF t] fresh p [OF Cons]]) (auto simp: Cons)
      then show ?thesis by (simp add: char_step_def char_step_simps Handle_gate Cons)
    qed (use t in \<open>simp add: char_step_def char_step_simps Handle_gate\<close>)
  next
    case Handle_cache
    have "stuck pg k rg name (t\<lparr> ch_cache_input := ps \<rparr>)" "pk_guid p \<noteq> k" "pk_guid p \<noteq> rg"
      if "ch_cache_input t = p # ps" for p ps
      using t that unfolding stuck_def by auto
    then show ?thesis
      using t stuck_cache by (auto simp: char_step_def char_step_simps Handle_cache split: list.split)
  qed
  then show ?thesis by (simp add: char_run_step_def Some)
qed (simp add: char_run_step_def)

interpretation stuck: invariant_machine "char_run_step cfg" char_allowed "holds (stuck pg k rg name)" for cfg pg k rg name
  by unfold_locales (rule stuck_step)

end
