(* ===== verification/RoleMakeCases.thy ===== *)
theory RoleMakeCases
  imports RoleMakeRuns
begin

text \<open>
  Properties of the server of the roles: what is made for a new player, when its client is told, and the requests
  that are lost.
\<close>

section \<open>A server to try\<close>

definition warrior_res :: role_res where
  "warrior_res = \<lparr> rr_role_id = 11, rr_level = 1, rr_char_ability = 0, rr_str = 5, rr_agi = 6, rr_int_value = 7,
     rr_phy_att = 10, rr_phy_def = 11, rr_agi_att = 20, rr_agi_def = 21, rr_int_att = 30, rr_int_def = 31, rr_hp = 100,
     rr_critical = 0, rr_critical_damage = 0, rr_block = 0, rr_block_defence = 0, rr_block_damage = 0, rr_hit = 0,
     rr_dodge = 0, rr_normal_skill = 1, rr_extremely_skill = 2 \<rparr>"

definition start_cfg :: player_init_cfg where
  "start_cfg = \<lparr> pi_level = 1, pi_exp = 0, pi_money = 100, pi_coin = 0, pi_src = (3, 4), pi_seniority = 0,
     pi_coin_exp = 0, pi_frame = 0, pi_energy = 50, pi_training_slot = 1, pi_member_slot = 1, pi_map_id = 5 \<rparr>"

definition small_cfg :: char_cfg where
  "small_cfg = \<lparr> cc_check_name = (\<lambda>n. n \<noteq> []), cc_role_ids = [2 \<mapsto> 11], cc_role_res = [11 \<mapsto> warrior_res],
     cc_init = start_cfg, cc_line_id = 1, cc_max_roles = 1, cc_surnames = [], cc_female = [], cc_male = [] \<rparr>"

text \<open>A request of \<open>account\<close> for a role of the given name and profession; only profession 1 is known.\<close>

definition make_request :: "string \<Rightarrow> string \<Rightarrow> u32 \<Rightarrow> player_make" where
  "make_request account name job = \<lparr> pm_account = account, pm_name = name, pm_sex = 0, pm_profession = job,
     pm_validate_str = [], pm_param1 = 0, pm_param2 = 0, pm_param3 = 0, pm_param4 = [], pm_param5 = 0, pm_iopenid = [] \<rparr>"

definition make_packet :: "nat \<Rightarrow> guid \<Rightarrow> player_make \<Rightarrow> char_packet" where
  "make_packet a pg pm = \<lparr> pk_opcode = cmsg_player_make, pk_guid = pg, pk_body = Player_make pm, pk_owner = a \<rparr>"

definition list_packet :: "nat \<Rightarrow> guid \<Rightarrow> string \<Rightarrow> char_packet" where
  "list_packet a pg account = \<lparr> pk_opcode = cmsg_request_player_list, pk_guid = pg, pk_body = Request_list account,
     pk_owner = a \<rparr>"

text \<open>The database answers, and the guids are \<open>k\<close> and \<open>rg\<close>.\<close>

definition all_well :: "guid \<Rightarrow> guid \<Rightarrow> char_env" where
  "all_well k rg = \<lparr> ce_name = True, ce_number = True, ce_insert = Inserted k, ce_role_guid = Some rg, ce_list = True,
     ce_update = True, ce_delete = True, ce_random = (0, 0) \<rparr>"

definition no_guids :: char_env where
  "no_guids = \<lparr> ce_name = True, ce_number = True, ce_insert = No_guid, ce_role_guid = None, ce_list = True,
     ce_update = True, ce_delete = True, ce_random = (0, 0) \<rparr>"

definition made_reply :: "guid \<Rightarrow> char_packet" where
  "made_reply g = new_char_packet (dc_code DCMSG_NEW_ENEITY) g (Op_result 0 None)"

definition player_1 :: guid where "player_1 = 0x0100000000000001"
definition player_2 :: guid where "player_2 = 0x0100000000000002"
definition role_1 :: guid where "role_1 = 0x0200000000000001"
definition role_2 :: guid where "role_2 = 0x0200000000000002"

lemmas try_defs = small_cfg_def make_request_def make_packet_def all_well_def

text \<open>The client \<open>pg\<close> of the gate \<open>a\<close> asks for a role, and both threads handle it.\<close>

definition asked_run :: "nat \<Rightarrow> guid \<Rightarrow> player_make \<Rightarrow> guid \<Rightarrow> guid \<Rightarrow> char_event list" where
  "asked_run a pg pm k rg =
     [Gate_opens a, Gate_packet (make_packet a pg pm), Handle_gate (all_well k rg), Handle_cache]"

section \<open>What is made\<close>

text \<open>The player and the role of a new client refer to each other and agree in name, sex and profession;
  18 of 108 places of the bag and 8 of 96 of the store are open; the role has full health, and each attack and defence
  starts at its base value, except the attack of the third kind, which starts at the base value of the second.\<close>

theorem made_entities:
  assumes "init_role cfg k pm (Some rg) = Some role" "player = init_player cfg k pm (cr_role_id role) (cr_guid role)"
  shows "cr_guid role = rg \<and> cr_player role = cp_guid player \<and> cp_guid player = k \<and>
    cp_roles player = [rg] \<and> cp_first_role player = rg \<and> cp_role_id player = cr_role_id role \<and>
    cp_name player = cr_name role \<and> cp_sex player = cr_sex role \<and> cp_profession player = cr_job role \<and>
    (length (cp_bag player) = 108 \<and> sum_list (cp_bag player) = 18) \<and>
    (length (cp_storehouse player) = 96 \<and> sum_list (cp_storehouse player) = 8) \<and>
    (let at = (!) (cr_attributes role) in
       at 2 = at 1 \<and> at 8 = at 6 \<and> at 11 = at 9 \<and> at 14 = at 9 \<and> at 17 = at 15 \<and> at 20 = at 18 \<and> at 23 = at 21)"
proof -
  have slots: "length (open_slots max_bag_number init_bag_number) = 108"
      "length (open_slots max_storehouse_number init_storehouse_number) = 96"
    by (simp_all add: open_slots_def max_bag_number_def max_storehouse_number_def)
  have "sum_list (open_slots max_bag_number init_bag_number) = 18"
      "sum_list (open_slots max_storehouse_number init_storehouse_number) = 8"
    by code_simp+
  with slots show ?thesis
    using assms by (auto simp: init_role_def init_player_def Let_def role_attributes_def split: option.splits)
qed

theorem made_entities_witness:
  "\<exists>role. init_role small_cfg player_1 (make_request ''anna'' ''Anna'' 1) (Some role_1) = Some role \<and>
    cr_attributes role ! 12 = 30 \<and> cr_attributes role ! 14 = cr_attributes role ! 9"
proof -
  obtain role where role: "init_role small_cfg player_1 (make_request ''anna'' ''Anna'' 1) (Some role_1) = Some role"
      "cr_attributes role ! 12 = 30"
    by (simp add: init_role_def get_role_id_def get_mix_id_def small_cfg_def make_request_def role_attributes_def warrior_res_def)
  show ?thesis using made_entities [OF role(1) refl] role by (auto simp: Let_def)
qed

section \<open>Telling the client\<close>

lemma find_map_key: "find P (map f xs) = map_option f (find (\<lambda>x. P (f x)) xs)"
  by (induction xs) simp_all

lemma get_player_info_put:
  assumes "get_player_info g t = Some (k, r)" "ri_role_guid r' = ri_role_guid r"
  shows "get_player_info g (put_role_info k r' t) = Some (k, r')"
proof (cases "is_player_guid g")
  case True
  then show ?thesis using assms(1) by (auto simp: get_player_info_def put_role_info_def)
next
  case False
  let ?m = "ch_roles t"
  have k: "fmlookup ?m k = Some r" using get_player_info_in [OF assms(1)] by simp
  then have dom: "finsert k (fmdom ?m) = fmdom ?m" by (auto simp: fmlookup_dom_iff)
  have same: "ri_role_guid (the (fmlookup (fmupd k r' ?m) x)) = ri_role_guid (the (fmlookup ?m x))" for x
    using k assms(2) by auto
  show ?thesis
    using assms(1) False k
    by (auto simp: get_player_info_def put_role_info_def fm_items_map find_map_key dom same fmupd_lookup [of k r' _ k]
        simp del: fmupd_lookup split: if_splits)
qed

definition told :: "char_cfg \<Rightarrow> role_info \<Rightarrow> guid \<Rightarrow> char_crossing" where
  "told cfg r g = To_gate (ri_session r) (new_char_packet smsg_player_make (ri_packet_guid r)
     (Make_done g (pi_map_id (cc_init cfg)) (cc_line_id cfg)))"

lemma new_eneity_first:
  assumes "get_player_info g t = Some (k, r)" "\<not> is_finish (update_state g True r)"
  shows "handle_new_eneity cfg env (made_reply g) t = put_role_info k (update_state g True r) t"
proof -
  have "\<not> is_success (update_state g True r)" using assms(2) by (auto simp: is_success_def is_finish_def)
  then show ?thesis using assms by (simp add: handle_new_eneity_def made_reply_def new_char_packet_def Let_def)
qed

lemma new_eneity_second:
  assumes "get_player_info g t = Some (k, r)" "is_success (update_state g True r)" "ce_update env" "ri_session r \<in> ch_sessions t"
  shows "ch_log (handle_new_eneity cfg env (made_reply g) t) = ch_log t @ [told cfg r g]"
  using assms
  by (simp add: handle_new_eneity_def made_reply_def new_char_packet_def is_finish_def is_success_def Let_def told_def
      update_role_status_def to_gate_def remove_role_info_def put_role_info_def set_status_def)

text \<open>C32: The client is told that its player is made when the second of the two answers comes, with the guid of
  that answer: the player when the role was answered first, as it was asked for first; otherwise the role.\<close>

theorem made_is_told:
  assumes r: "fmlookup (ch_roles t) k = Some r" "ri_player_state r = 0" "ri_role_state r = 0"
    and g: "is_player_guid k" "get_player_info (ri_role_guid r) t = Some (k, r)" "is_role_guid (ri_role_guid r)"
    and env: "ce_update env" "ri_session r \<in> ch_sessions t"
  shows "ch_log (handle_new_eneity cfg env (made_reply k) (handle_new_eneity cfg env (made_reply (ri_role_guid r)) t)) =
      ch_log t @ [told cfg r k] \<and>
    ch_log (handle_new_eneity cfg env (made_reply (ri_role_guid r)) (handle_new_eneity cfg env (made_reply k) t)) =
      ch_log t @ [told cfg r (ri_role_guid r)]"
proof -
  let ?rg = "ri_role_guid r"
  have np: "\<not> is_player_guid ?rg" using not_both g(3) by blast
  have k: "get_player_info k t = Some (k, r)" using r(1) g(1) by (simp add: get_player_info_def)
  have upd: "update_state ?rg True r = r\<lparr> ri_role_state := 1 \<rparr>" "update_state k True r = r\<lparr> ri_player_state := 1 \<rparr>"
    using np g(1,3) by (simp_all add: update_state_def)
  have put: "ch_log (put_role_info k x t) = ch_log t" "ch_sessions (put_role_info k x t) = ch_sessions t" for x
    by (simp_all add: put_role_info_def)
  have first: "handle_new_eneity cfg env (made_reply ?rg) t = put_role_info k (r\<lparr> ri_role_state := 1 \<rparr>) t"
      "handle_new_eneity cfg env (made_reply k) t = put_role_info k (r\<lparr> ri_player_state := 1 \<rparr>) t"
    using new_eneity_first [OF g(2)] new_eneity_first [OF k] r(2,3) by (simp_all add: upd is_finish_def)
  have told: "told cfg (r\<lparr> ri_role_state := a \<rparr>) = told cfg r" "told cfg (r\<lparr> ri_player_state := a \<rparr>) = told cfg r" for a
    by (simp_all add: told_def fun_eq_iff)
  have "ch_log (handle_new_eneity cfg env (made_reply k) (put_role_info k (r\<lparr> ri_role_state := 1 \<rparr>) t)) =
      ch_log t @ [told cfg r k]"
    using new_eneity_second [OF get_player_info_put [OF k, of "r\<lparr> ri_role_state := 1 \<rparr>"], of env cfg] g(1) env put
    by (simp add: told update_state_def is_success_def)
  moreover have "ch_log (handle_new_eneity cfg env (made_reply ?rg) (put_role_info k (r\<lparr> ri_player_state := 1 \<rparr>) t)) =
      ch_log t @ [told cfg r ?rg]"
    using new_eneity_second [OF get_player_info_put [OF g(2), of "r\<lparr> ri_player_state := 1 \<rparr>"], of env cfg] g(3) np env put
    by (simp add: told update_state_def is_success_def)
  ultimately show ?thesis by (simp add: first)
qed

theorem made_is_told_witness:
  "\<exists>t r. char_run small_cfg (asked_run 0 1 (make_request ''anna'' ''Anna'' 1) player_1 role_1) (Some (new_char [])) = Some t \<and>
    ch_log (handle_new_eneity small_cfg no_guids (made_reply player_1)
        (handle_new_eneity small_cfg no_guids (made_reply role_1) t)) = ch_log t @ [told small_cfg r player_1]"
proof -
  have "case char_run small_cfg (asked_run 0 1 (make_request ''anna'' ''Anna'' 1) player_1 role_1) (Some (new_char [])) of
      None \<Rightarrow> False
    | Some t \<Rightarrow> (case fmlookup (ch_roles t) player_1 of None \<Rightarrow> False | Some r \<Rightarrow>
        ri_player_state r = 0 \<and> ri_role_state r = 0 \<and> ri_role_guid r = role_1 \<and> ri_session r \<in> ch_sessions t \<and>
        get_player_info role_1 t = Some (player_1, r))"
    by code_simp
  then obtain t r where t: "char_run small_cfg (asked_run 0 1 (make_request ''anna'' ''Anna'' 1) player_1 role_1) (Some (new_char [])) = Some t"
    and r: "fmlookup (ch_roles t) player_1 = Some r" "ri_player_state r = 0" "ri_role_state r = 0" "ri_role_guid r = role_1"
      "ri_session r \<in> ch_sessions t" "get_player_info role_1 t = Some (player_1, r)"
    by (auto split: option.splits)
  have g: "is_player_guid player_1" "is_role_guid role_1" "ce_update no_guids" by code_simp+
  show ?thesis using made_is_told [OF r(1-3) g(1) _ _ g(3) r(5), of small_cfg] r(4,6) g(2) t by auto
qed

section \<open>Requests that are lost\<close>

lemma stuck_making:
  assumes "stuck pg k rg name t"
  shows "pk_guid p = pg \<Longrightarrow> handle_role_make cfg env p t = t" "is_exist_role_name env name t"
proof -
  have "is_making_role pg t" using assms by (auto simp: stuck_def is_making_role_def list_ex_iff)
  then show "pk_guid p = pg \<Longrightarrow> handle_role_make cfg env p t = t"
    by (simp add: handle_role_make_def split: char_body.split)
  show "is_exist_role_name env name t" using assms by (auto simp: stuck_def is_exist_role_name_def list_ex_iff)
qed

lemma asked_stuck:
  assumes cfg: "get_role_id cfg (pm_profession pm) (pm_sex pm) = None" "cc_check_name cfg (pm_name pm)" "0 < cc_max_roles cfg"
    and table: "pm_name pm \<notin> set (map tr_name table)" "pm_account pm \<notin> set (map tr_account table)"
      "rg \<notin> set (map tr_guid table)" "k \<notin> set (map tr_guid table)"
    and g: "is_player_guid k" "is_role_guid rg"
  shows "\<exists>t. char_run cfg (asked_run a pg pm k rg) (Some (new_char table)) = Some t \<and> stuck pg k rg (pm_name pm) t \<and> ch_log t = [] \<and> ch_input t = []"
proof -
  let ?r = "\<lparr> ri_account = pm_account pm, ri_packet_guid = pg, ri_player_guid = k, ri_role_guid = rg, ri_op = COT_ADD,
      ri_session = a, ri_player_state = 0, ri_role_state = 0 \<rparr>"
  let ?t = "\<lparr> ch_input = [], ch_cache_input = [], ch_roles = fmupd k ?r fmempty, ch_accounts = Map.empty, ch_sessions = {a},
      ch_table = table @ [\<lparr> tr_guid = k, tr_account = pm_account pm, tr_name = pm_name pm, tr_status = 0 \<rparr>], ch_log = [] \<rparr>"
  have names: "\<not> list_ex (\<lambda>r. tr_name r = pm_name pm) table" using table(1) by (force simp: list_ex_iff)
  have accounts: "filter (\<lambda>r. tr_account r = pm_account pm \<and> tr_status r = 1) table = []"
    using table(2) by (force simp: filter_empty_conv)
  have "char_run cfg (asked_run a pg pm k rg) (Some (new_char table)) = Some ?t"
    using cfg names accounts g
    by (simp add: char_run_def asked_run_def char_run_step_def char_step_def char_step_simps new_char_def make_packet_def all_well_def
        do_handle_packet_def handle_role_make_def is_making_role_def is_exist_role_name_def get_account_role_number_def
        insert_role_name_def Let_def collect_make_role_info_def set_op_type_def cache_handle_packet_def cache_role_make_def
        new_char_packet_def init_role_def get_player_info_def char_opcodes)
  moreover have "k \<noteq> rg" using not_both g by blast
  then have "stuck pg k rg (pm_name pm) ?t" using g table(3,4) by (auto simp: stuck_def)
  ultimately show ?thesis by simp
qed

text \<open>C38: A client that asks for a profession the server does not know gets no answer, and can never make a role
  again: every later request of it is dropped, the name it asked for is refused to everyone, and its row in the table is
  never active, whatever the clients, the database and the cache servers do afterwards.\<close>

theorem unknown_job_stuck:
  assumes cfg: "get_role_id cfg (pm_profession pm) (pm_sex pm) = None" "cc_check_name cfg (pm_name pm)" "0 < cc_max_roles cfg"
    and table: "pm_name pm \<notin> set (map tr_name table)" "pm_account pm \<notin> set (map tr_account table)"
      "rg \<notin> set (map tr_guid table)" "k \<notin> set (map tr_guid table)"
    and g: "is_player_guid k" "is_role_guid rg"
    and asked: "char_run cfg (asked_run a pg pm k rg) (Some (new_char table)) = Some t"
    and es: "all_allowed (char_run_step cfg) char_allowed es (Some t)" "char_run cfg es (Some t) = Some u"
  shows "ch_log t = [] \<and> (\<forall>p env. pk_guid p = pg \<longrightarrow> handle_role_make cfg env p u = u) \<and>
    (\<forall>env. is_exist_role_name env (pm_name pm) u) \<and> (\<forall>row \<in> set (ch_table u). tr_guid row = k \<longrightarrow> tr_status row \<noteq> 1)"
proof -
  have t: "stuck pg k rg (pm_name pm) t" "ch_log t = []"
    using asked_stuck [OF cfg table g, where a = a and pg = pg] asked by auto
  then have "holds (stuck pg k rg (pm_name pm)) (char_run cfg es (Some t))"
    using stuck.run_keeps [OF _ es(1)] by (simp add: char_run_def)
  then have u: "stuck pg k rg (pm_name pm) u" using es(2) by simp
  then show ?thesis using t(2) stuck_making [OF u] by (auto simp: stuck_def)
qed

theorem unknown_job_stuck_witness:
  "\<exists>t u. char_run small_cfg (asked_run 0 1 (make_request ''anna'' ''Anna'' 9) player_1 role_1) (Some (new_char [])) = Some t \<and>
    char_run small_cfg [Gate_packet (make_packet 0 1 (make_request ''anna'' ''Bert'' 1)), Handle_gate no_guids] (Some t) = Some u \<and>
    handle_role_make small_cfg no_guids (make_packet 0 1 (make_request ''anna'' ''Anna'' 1)) u = u \<and>
    is_exist_role_name no_guids ''Anna'' u"
proof -
  let ?pm = "make_request ''anna'' ''Anna'' 9"
  let ?es = "[Gate_packet (make_packet 0 1 (make_request ''anna'' ''Bert'' 1)), Handle_gate no_guids]"
  have cfg: "get_role_id small_cfg (pm_profession ?pm) (pm_sex ?pm) = None" "cc_check_name small_cfg (pm_name ?pm)"
      "0 < cc_max_roles small_cfg"
    by (simp_all add: small_cfg_def make_request_def get_role_id_def get_mix_id_def)
  have table: "pm_name ?pm \<notin> set (map tr_name [])" "pm_account ?pm \<notin> set (map tr_account [])"
      "role_1 \<notin> set (map tr_guid [])" "player_1 \<notin> set (map tr_guid [])" by simp_all
  have g: "is_player_guid player_1" "is_role_guid role_1" by code_simp+
  obtain t where t: "char_run small_cfg (asked_run 0 1 ?pm player_1 role_1) (Some (new_char [])) = Some t" "ch_input t = []"
    using asked_stuck [OF cfg table g] by blast
  have al: "all_allowed (char_run_step small_cfg) char_allowed ?es (Some t)"
    by (simp add: char_run_step_def char_step_def char_step_simps char_allowed_def make_packet_def char_opcodes fresh_guids_def no_guids_def)
  obtain u where u: "char_run small_cfg ?es (Some t) = Some u"
    by (simp add: char_run_def char_run_step_def char_step_def char_step_simps t(2) do_handle_packet_def make_packet_def Let_def char_opcodes)
  show ?thesis using unknown_job_stuck [OF cfg table g t(1) al u] t(1) u by (auto simp: make_packet_def make_request_def)
qed

text \<open>Two clients of one account ask for its roles before the first answer.\<close>

definition load_reply :: "guid \<Rightarrow> player_make \<Rightarrow> char_packet" where
  "load_reply k pm = new_char_packet (dc_code DCMSG_LOAD_ENTITY) k (Op_result 0 (Some (init_player small_cfg k pm 11 role_1)))"

definition two_lists_run :: "char_event list" where
  "two_lists_run =
     [Gate_opens 0, Gate_packet (list_packet 0 1 ''anna''), Gate_packet (list_packet 0 2 ''anna''),
      Handle_gate no_guids, Handle_gate no_guids, Handle_cache, Handle_cache,
      Cache_reply (load_reply player_1 (make_request ''anna'' ''Anna'' 1)),
      Cache_reply (load_reply player_1 (make_request ''anna'' ''Anna'' 1)),
      Handle_gate no_guids, Handle_gate no_guids]"

definition annas_table :: "role_row list" where
  "annas_table = [\<lparr> tr_guid = player_1, tr_account = ''anna'', tr_name = ''Anna'', tr_status = 1 \<rparr>]"

text \<open>Of two clients that ask for the roles of one account at the same time only the second is answered: when both
  queues are empty and both answers of the cache server have come, nothing was sent to the first.\<close>

theorem first_list_lost:
  "\<exists>t. char_run small_cfg two_lists_run (Some (new_char annas_table)) = Some t \<and>
    ch_input t = [] \<and> ch_cache_input t = [] \<and> ch_roles t = fmempty \<and>
    (\<exists>q. To_gate 0 q \<in> set (ch_log t) \<and> pk_guid q = 2) \<and>
    \<not> (\<exists>a q. To_gate a q \<in> set (ch_log t) \<and> pk_guid q = 1)"
proof -
  have "case char_run small_cfg two_lists_run (Some (new_char annas_table)) of None \<Rightarrow> False | Some t \<Rightarrow>
      ch_input t = [] \<and> ch_cache_input t = [] \<and> fm_items (ch_roles t) = [] \<and>
      list_ex (\<lambda>x. case x of To_gate a q \<Rightarrow> a = 0 \<and> pk_guid q = 2 | _ \<Rightarrow> False) (ch_log t) \<and>
      list_all (\<lambda>x. case x of To_gate a q \<Rightarrow> pk_guid q \<noteq> 1 | _ \<Rightarrow> True) (ch_log t)"
    by code_simp
  then obtain t where t: "char_run small_cfg two_lists_run (Some (new_char annas_table)) = Some t"
      "ch_input t = []" "ch_cache_input t = []" "fm_items (ch_roles t) = []"
      "list_ex (\<lambda>x. case x of To_gate a q \<Rightarrow> a = 0 \<and> pk_guid q = 2 | _ \<Rightarrow> False) (ch_log t)"
      "list_all (\<lambda>x. case x of To_gate a q \<Rightarrow> pk_guid q \<noteq> 1 | _ \<Rightarrow> True) (ch_log t)"
    by (auto split: option.splits)
  obtain y where y: "y \<in> set (ch_log t)" "case y of To_gate a q \<Rightarrow> a = 0 \<and> pk_guid q = 2 | _ \<Rightarrow> False"
    using t(5) by (auto simp: list_ex_iff)
  obtain q where "To_gate 0 q \<in> set (ch_log t)" "pk_guid q = 2" by (cases y) (use y in auto)
  moreover have "pk_guid q \<noteq> 1" if "To_gate a q \<in> set (ch_log t)" for a q
    using t(6) that by (fastforce simp: list_all_iff)
  ultimately show ?thesis using t by auto
qed

text \<open>Two clients of one account make a role each.\<close>

definition two_roles_run :: "char_event list" where
  "two_roles_run =
     [Gate_opens 0, Gate_packet (make_packet 0 1 (make_request ''anna'' ''Anna'' 1)),
      Gate_packet (make_packet 0 2 (make_request ''anna'' ''Bert'' 1)),
      Handle_gate (all_well player_1 role_1), Handle_gate (all_well player_2 role_2), Handle_cache, Handle_cache,
      Cache_reply (made_reply role_1), Cache_reply (made_reply player_1),
      Cache_reply (made_reply role_2), Cache_reply (made_reply player_2),
      Handle_gate no_guids, Handle_gate no_guids, Handle_gate no_guids, Handle_gate no_guids]"

text \<open>The number of roles of an account is checked against the active ones only: two clients of one account that ask
  at the same time are both told that their player is made, and the account has more roles than it may have.\<close>

theorem too_many_roles:
  "all_allowed (char_run_step small_cfg) char_allowed two_roles_run (Some (new_char [])) \<and>
   (\<exists>t. char_run small_cfg two_roles_run (Some (new_char [])) = Some t \<and>
     cc_max_roles small_cfg < length (filter (\<lambda>r. tr_account r = ''anna'' \<and> tr_status r = 1) (ch_table t)))"
proof -
  have "all_allowed (char_run_step small_cfg) char_allowed two_roles_run (Some (new_char []))" by code_simp
  moreover have "case char_run small_cfg two_roles_run (Some (new_char [])) of None \<Rightarrow> False | Some t \<Rightarrow>
      cc_max_roles small_cfg < length (filter (\<lambda>r. tr_account r = ''anna'' \<and> tr_status r = 1) (ch_table t))"
    by code_simp
  ultimately show ?thesis by (auto split: option.splits)
qed

section \<open>Names\<close>

text \<open>C20: A name is given once: whatever clients, database and cache servers do, the table of the roles never holds
  a name twice.\<close>

theorem names_given_once:
  assumes "distinct (map tr_name table)" "char_run cfg es (Some (new_char table)) = Some t"
  shows "distinct (map tr_name (ch_table t))"
  using names.run_keeps [where s = "Some (new_char table)" and es = es and cfg = cfg] assms
  by (simp add: char_run_def names_once_def new_char_def)

theorem names_given_once_witness:
  "\<exists>t. char_run small_cfg two_roles_run (Some (new_char [])) = Some t \<and> distinct (map tr_name (ch_table t)) \<and> length (ch_table t) = 2"
proof -
  have "case char_run small_cfg two_roles_run (Some (new_char [])) of None \<Rightarrow> False | Some t \<Rightarrow> length (ch_table t) = 2"
    by code_simp
  then obtain t where "char_run small_cfg two_roles_run (Some (new_char [])) = Some t" "length (ch_table t) = 2"
    by (auto split: option.splits)
  moreover from this(1) have "distinct (map tr_name (ch_table t))" by (intro names_given_once [of "[]"]) simp_all
  ultimately show ?thesis by blast
qed

end
