(* ===== verification/RoleMakeTold.thy ===== *)
theory RoleMakeTold
  imports RoleMakeCases
begin

text \<open>
  A client is told that its player is made only when the cache servers have acknowledged the player and its role:
  the invariant of the roles in the making, of the table and of the log.
\<close>

section \<open>What the log shows\<close>

definition acked :: "guid \<Rightarrow> char_crossing list \<Rightarrow> bool" where
  "acked g xs \<longleftrightarrow> (\<exists>p m. From_cache p \<in> set xs \<and> pk_opcode p = dc_code DCMSG_NEW_ENEITY \<and> pk_guid p = g \<and>
     pk_body p = Op_result 0 m)"

definition asked_role :: "guid \<Rightarrow> guid \<Rightarrow> char_crossing list \<Rightarrow> bool" where
  "asked_role k rg xs \<longleftrightarrow> (\<exists>q role. To_cache k q \<in> set xs \<and> pk_opcode q = dc_code DCMSG_NEW_ENEITY \<and> pk_guid q = rg \<and>
     pk_body q = Data_request (Some (Role_entity role)) \<and> cr_guid role = rg \<and> cr_player role = k)"

text \<open>The player and its role were asked for, and stored.\<close>

definition stored :: "guid \<Rightarrow> guid \<Rightarrow> char_crossing list \<Rightarrow> bool" where
  "stored k rg xs \<longleftrightarrow> acked k xs \<and> acked rg xs \<and> asked_role k rg xs"

definition made :: "role_row list \<Rightarrow> guid \<Rightarrow> char_crossing list \<Rightarrow> bool" where
  "made table k xs \<longleftrightarrow> (\<exists>row \<in> set table. tr_guid row = k \<and> tr_status row = 1) \<or> (\<exists>rg. stored k rg xs)"

text \<open>What a client may be told after \<open>xs\<close>.\<close>

definition told_ok :: "role_row list \<Rightarrow> char_crossing list \<Rightarrow> char_crossing \<Rightarrow> bool" where
  "told_ok table xs x =
     (case x of
        To_gate a q \<Rightarrow> pk_opcode q = smsg_player_make \<longrightarrow>
          (\<exists>g m l k. pk_body q = Make_done g m l \<and> made table k xs \<and> (g = k \<or> stored k g xs))
      | _ \<Rightarrow> True)"

lemma log_mono:
  assumes "set xs \<subseteq> set ys"
  shows "acked g xs \<Longrightarrow> acked g ys" "asked_role k rg xs \<Longrightarrow> asked_role k rg ys" "stored k rg xs \<Longrightarrow> stored k rg ys"
    "made table k xs \<Longrightarrow> made table k ys"
  using assms unfolding made_def stored_def acked_def asked_role_def by blast+

section \<open>The invariant\<close>

definition entry_ok :: "role_row list \<Rightarrow> char_crossing list \<Rightarrow> guid \<Rightarrow> role_info \<Rightarrow> bool" where
  "entry_ok table xs k r \<longleftrightarrow> ri_player_guid r = k \<and> (ri_player_state r = 1 \<longrightarrow> acked k xs) \<and>
     (ri_role_state r = 1 \<longrightarrow> made table k xs \<or> acked (ri_role_guid r) xs \<and> asked_role k (ri_role_guid r) xs) \<and>
     (is_role_guid (ri_role_guid r) \<longrightarrow> (\<forall>k' q. To_cache k' q \<in> set xs \<and> pk_opcode q = dc_code DCMSG_NEW_ENEITY \<and>
        pk_guid q = ri_role_guid r \<longrightarrow> asked_role k (ri_role_guid r) xs))"

definition making_ok :: "role_row list \<Rightarrow> char_state \<Rightarrow> bool" where
  "making_ok table t \<longleftrightarrow>
     (\<forall>k r. fmlookup (ch_roles t) k = Some r \<longrightarrow> entry_ok table (cache_log t) k r) \<and>
     (\<forall>k k' r r'. fmlookup (ch_roles t) k = Some r \<longrightarrow> fmlookup (ch_roles t) k' = Some r' \<longrightarrow>
        is_role_guid (ri_role_guid r) \<longrightarrow> ri_role_guid r = ri_role_guid r' \<longrightarrow> k = k') \<and>
     (\<forall>row \<in> set (ch_table t). tr_status row = 1 \<longrightarrow> made table (tr_guid row) (cache_log t)) \<and>
     (\<forall>p \<in> set (ch_input t). pk_opcode p = dc_code DCMSG_NEW_ENEITY \<longrightarrow>
        (\<exists>k q. To_cache k q \<in> set (cache_log t) \<and> pk_opcode q = dc_code DCMSG_NEW_ENEITY \<and> pk_guid q = pk_guid p) \<and>
        (\<forall>m. pk_body p = Op_result 0 m \<longrightarrow> acked (pk_guid p) (cache_log t))) \<and>
     (\<forall>p \<in> set (ch_cache_input t). pk_opcode p = cmsg_player_make \<longrightarrow> \<not> is_role_guid (pk_guid p))"

definition told_inv :: "role_row list \<Rightarrow> char_state \<Rightarrow> bool" where
  "told_inv table t \<longleftrightarrow> making_ok table t \<and> at_each (told_ok table) (ch_log t)"

lemma making_same: "same_making t u \<Longrightarrow> making_ok table u = making_ok table t"
  by (simp add: same_making_def making_ok_def)

lemma cache_log_snoc [simp]:
  "cache_log (char_log (To_gate a q) t) = cache_log t" "cache_log (char_log (To_cache k q) t) = cache_log t @ [To_cache k q]"
  "cache_log (char_log (From_cache p) t) = cache_log t @ [From_cache p]"
  by (simp_all add: cache_log_def)

lemma cache_log_fields [simp]:
  "cache_log (t\<lparr> ch_input := i \<rparr>) = cache_log t" "cache_log (t\<lparr> ch_cache_input := c \<rparr>) = cache_log t"
  "cache_log (t\<lparr> ch_roles := r \<rparr>) = cache_log t" "cache_log (t\<lparr> ch_table := b \<rparr>) = cache_log t"
  "cache_log (t\<lparr> ch_accounts := a \<rparr>) = cache_log t" "cache_log (t\<lparr> ch_sessions := s \<rparr>) = cache_log t"
  "cache_log (put_role_info k x t) = cache_log t" "cache_log (remove_role_info k t) = cache_log t"
  "cache_log (clean_account_info a2 t) = cache_log t"
  by (simp_all add: cache_log_def put_role_info_def remove_role_info_def clean_account_info_def)

lemma cache_log_sub: "set (cache_log t) \<subseteq> set (ch_log t)"
  by (auto simp: cache_log_def)

lemma told_gate [simp]:
  "pk_opcode q \<noteq> smsg_player_make \<Longrightarrow> at_each (told_ok table) (ch_log (to_gate a q t)) = at_each (told_ok table) (ch_log t)"
  by (simp add: to_gate_def told_ok_def)

lemma told_inv_same:
  assumes "told_inv table t" "same_making t u" "at_each (told_ok table) (ch_log t) \<Longrightarrow> at_each (told_ok table) (ch_log u)"
  shows "told_inv table u"
  using assms making_same [OF assms(2)] by (simp add: told_inv_def)

lemma told_inv_gate:
  "told_inv table t \<Longrightarrow> pk_opcode q \<noteq> smsg_player_make \<Longrightarrow> told_inv table (to_gate a q t)"
  by (erule told_inv_same) simp_all

lemma told_inv_told:
  assumes "told_inv table t" "told_ok table (ch_log t) (To_gate a q)"
  shows "told_inv table (to_gate a q t)"
proof -
  have "making_ok table (to_gate a q t) = making_ok table t" by (rule making_same) simp
  moreover have "at_each (told_ok table) (ch_log (to_gate a q t))"
    using assms by (simp add: to_gate_def told_inv_def)
  ultimately show ?thesis using assms(1) by (simp add: told_inv_def)
qed

lemma told_inv_error: "told_inv table t \<Longrightarrow> told_inv table (send_error a g c t)"
  unfolding send_error_def by (erule told_inv_gate) (simp add: new_char_packet_def char_opcodes)

lemma told_inv_fields [simp]:
  "told_inv table (clean_account_info s t) = told_inv table t" "told_inv table (t\<lparr> ch_accounts := m \<rparr>) = told_inv table t"
  by (simp_all add: told_inv_def making_same clean_account_info_def making_ok_def)

lemma told_inv_replay: "told_inv table t \<Longrightarrow> told_inv table (replay_role_list info t)"
  by (auto simp: replay_role_list_def Let_def new_char_packet_def char_opcodes intro!: told_inv_gate)

lemma told_inv_fill: "told_inv table t \<Longrightarrow> told_inv table (fill_slot s g x t)"
  by (auto simp: fill_slot_def Let_def intro!: told_inv_replay split: option.split)

lemma told_inv_put:
  assumes t: "told_inv table t" and r: "entry_ok table (cache_log t) k r"
    and role: "is_role_guid (ri_role_guid r) \<Longrightarrow>
      (\<forall>k' r'. fmlookup (ch_roles t) k' = Some r' \<longrightarrow> ri_role_guid r' = ri_role_guid r \<longrightarrow> k' = k)"
  shows "told_inv table (put_role_info k r t)"
  using t r role unfolding told_inv_def making_ok_def
  by (simp add: put_role_info_def) (metis (no_types, lifting))

lemma told_inv_remove: "told_inv table t \<Longrightarrow> told_inv table (remove_role_info k t)"
  unfolding told_inv_def making_ok_def by (simp add: remove_role_info_def) (metis (no_types, lifting))

lemma told_inv_status:
  assumes "told_inv table t" "st = 1 \<Longrightarrow> made table g (cache_log t)"
  shows "told_inv table (set_status g st t)"
  using assms unfolding told_inv_def making_ok_def set_status_fields by (auto simp: set_status_def)

lemma told_inv_push:
  "told_inv table t \<Longrightarrow> (pk_opcode p = cmsg_player_make \<Longrightarrow> \<not> is_role_guid (pk_guid p)) \<Longrightarrow>
    told_inv table (t\<lparr> ch_cache_input := ch_cache_input t @ [p] \<rparr>)"
  unfolding told_inv_def making_ok_def by auto

lemma told_inv_input:
  "told_inv table t \<Longrightarrow> set ps \<subseteq> set (ch_input t) \<Longrightarrow> told_inv table (t\<lparr> ch_input := ps \<rparr>)"
  unfolding told_inv_def making_ok_def by auto

lemma told_inv_insert:
  assumes "told_inv table t" "insert_role_name env a n t = (u, ok, g)"
  shows "told_inv table u"
proof -
  have "told_inv table (t\<lparr> ch_table := ch_table t @ [\<lparr> tr_guid = g', tr_account = a, tr_name = n, tr_status = 0 \<rparr>] \<rparr>)" for g'
    using assms(1) unfolding told_inv_def making_ok_def by auto
  then show ?thesis using assms by (auto simp: insert_role_name_def Let_def split: insert_outcome.splits if_splits)
qed

section \<open>The handlers\<close>

lemma insert_fields:
  "insert_role_name env a n t = (u, ok, g) \<Longrightarrow> ch_roles u = ch_roles t \<and> ch_log u = ch_log t"
  by (auto simp: insert_role_name_def Let_def split: insert_outcome.splits if_splits)

lemma insert_guid:
  assumes "fresh_guids env t" "insert_role_name env a n t = (u, True, g)"
  shows "\<not> is_role_guid g"
proof -
  have "\<not> is_role_guid 0" by (simp add: is_role_guid_def guid_type_def et_role_def)
  then show ?thesis using assms not_both
    by (auto simp: insert_role_name_def Let_def fresh_guids_def split: insert_outcome.splits if_splits)
qed

lemma told_role_make:
  assumes t: "told_inv table t" and fresh: "fresh_guids env t"
  shows "told_inv table (handle_role_make cfg env p t)"
proof (cases "pk_body p")
  case (Player_make pm)
  let ?r = "\<lambda>g role. set_op_type COT_ADD
        \<lparr> ri_account = pm_account pm, ri_packet_guid = pk_guid p, ri_player_guid = g, ri_role_guid = role, ri_op = COT_BASE,
          ri_session = pk_owner p, ri_player_state = 0, ri_role_state = 0 \<rparr>"
  obtain u ok g where ins: "insert_role_name env (pm_account pm) (pm_name pm) t = (u, ok, g)"
    by (cases "insert_role_name env (pm_account pm) (pm_name pm) t")
  have u: "told_inv table u" "ch_roles u = ch_roles t" "ch_log u = ch_log t"
    using told_inv_insert [OF t ins] insert_fields [OF ins] by simp_all
  have new: "told_inv table (let t = collect_make_role_info (?r g role) u in
      t\<lparr> ch_cache_input := ch_cache_input t @ [new_char_packet (pk_opcode p) g (pk_body p)] \<rparr>)"
    if "ce_role_guid env = Some role" ok for role
  proof -
    have used: "\<not> used_guid role t" using fresh that(1) by (simp add: fresh_guids_def)
    have nolog: "pk_guid q \<noteq> role" if "To_cache k q \<in> set (ch_log t)" for k q
      using used that by (fastforce simp: used_guid_def list_ex_iff)
    have noentry: "ri_role_guid r \<noteq> role" if "fmlookup (ch_roles t) k = Some r" for k r
      using used that by (fastforce simp: used_guid_def list_ex_iff)
    have "entry_ok table (cache_log u) g (?r g role)"
      using nolog cache_log_sub [of u] u(3) by (auto simp: entry_ok_def set_op_type_def)
    then have "told_inv table (put_role_info g (?r g role) u)"
      by (rule told_inv_put [OF u(1)]) (use noentry u(2) in \<open>auto simp: set_op_type_def\<close>)
    then have "told_inv table (collect_make_role_info (?r g role) u)"
      by (simp add: collect_make_role_info_def put_role_info_def set_op_type_def)
    then show ?thesis
      unfolding Let_def using insert_guid [OF fresh] ins \<open>ok\<close>
      by (intro told_inv_push) (auto simp: new_char_packet_def)
  qed
  show ?thesis
    using t u(1) new ins
    by (cases ok) (simp_all add: handle_role_make_def Player_make Let_def told_inv_error split: option.split)
qed (use t in \<open>simp_all add: handle_role_make_def\<close>)

lemma request_load_log [simp]: "cache_log (request_load p a g t) = cache_log t"
  by (simp add: request_load_def Let_def)

lemma told_role_list:
  assumes t: "told_inv table t"
  shows "told_inv table (handle_request_role_list env p t)"
proof -
  have load: "told_inv table (fold (request_load p a) gs u)"
    if "told_inv table u" "\<forall>g \<in> set gs. made table g (cache_log u)" for u a gs
    using that
  proof (induction gs arbitrary: u)
    case (Cons g gs)
    let ?r = "set_op_type COT_LOAD
        \<lparr> ri_account = a, ri_packet_guid = pk_guid p, ri_player_guid = g, ri_role_guid = 0, ri_op = COT_BASE,
          ri_session = pk_owner p, ri_player_state = 0, ri_role_state = 0 \<rparr>"
    have "\<not> is_role_guid 0" by (simp add: is_role_guid_def guid_type_def et_role_def)
    then have "told_inv table (put_role_info g ?r u)"
      by (intro told_inv_put [OF Cons.prems(1)])
         (use Cons.prems(2) in \<open>auto simp: entry_ok_def set_op_type_def\<close>)
    then have "told_inv table (request_load p a g u)"
      unfolding request_load_def Let_def by (rule told_inv_push) (simp add: new_char_packet_def char_opcodes)
    then show ?case using Cons by simp
  qed simp
  have "made table g (cache_log t)" if "get_role_list env a t = Some gs" "g \<in> set gs" for gs a g
    using that t by (auto simp: get_role_list_def told_inv_def making_ok_def split: if_splits)
  then show ?thesis
    using t by (auto simp: handle_request_role_list_def Let_def fset_of_list_elem intro!: load told_inv_error told_inv_replay
        split: char_body.split option.split)
qed

text \<open>The answer to a request for an entity.\<close>

lemma entry_answered:
  assumes t: "told_inv table t" and g: "get_player_info g t = Some (k, r)"
    and asked: "To_cache k' q \<in> set (cache_log t)" "pk_opcode q = dc_code DCMSG_NEW_ENEITY" "pk_guid q = g"
    and ack: "ok \<Longrightarrow> acked g (cache_log t)"
  shows "entry_ok table (cache_log t) k (update_state g ok r)"
    "is_role_guid g \<Longrightarrow> asked_role k g (cache_log t)" "ri_role_guid r = g \<or> k = g"
proof -
  have r: "entry_ok table (cache_log t) k r" "is_player_guid g \<and> k = g \<or> is_role_guid g \<and> \<not> is_player_guid g \<and> ri_role_guid r = g"
    using get_player_info_in [OF g] t by (auto simp: told_inv_def making_ok_def)
  show "ri_role_guid r = g \<or> k = g" using r(2) by auto
  show role: "is_role_guid g \<Longrightarrow> asked_role k g (cache_log t)"
    using r asked not_both unfolding entry_ok_def by blast
  show "entry_ok table (cache_log t) k (update_state g ok r)"
  proof (cases "is_player_guid g")
    case True
    then show ?thesis using r ack not_both [OF True] by (auto simp: entry_ok_def update_state_def)
  next
    case False
    then show ?thesis using r ack role by (auto simp: entry_ok_def update_state_def)
  qed
qed

lemma told_put_state:
  assumes t: "told_inv table t" and r: "fmlookup (ch_roles t) k = Some r" and e: "entry_ok table (cache_log t) k r'"
    and "ri_role_guid r' = ri_role_guid r"
  shows "told_inv table (put_role_info k r' t)"
proof (rule told_inv_put [OF t e])
  assume "is_role_guid (ri_role_guid r')"
  then show "\<forall>k' r''. fmlookup (ch_roles t) k' = Some r'' \<longrightarrow> ri_role_guid r'' = ri_role_guid r' \<longrightarrow> k' = k"
    using t r assms(4) unfolding told_inv_def making_ok_def by metis
qed

lemma told_new_eneity:
  assumes t: "told_inv table t"
    and p: "To_cache k' q \<in> set (cache_log t)" "pk_opcode q = dc_code DCMSG_NEW_ENEITY" "pk_guid q = pk_guid p"
      "\<And>m. pk_body p = Op_result 0 m \<Longrightarrow> acked (pk_guid p) (cache_log t)"
  shows "told_inv table (handle_new_eneity cfg env p t)"
proof (cases "get_player_info (pk_guid p) t")
  case (Some x)
  obtain k r where x: "x = (k, r)" by (cases x)
  let ?g = "pk_guid p"
  define ok where "ok = (case pk_body p of Op_result st m \<Rightarrow> st = 0 | _ \<Rightarrow> False)"
  define r' where "r' = update_state ?g ok r"
  define u where "u = put_role_info k r' t"
  have ack: "ok \<Longrightarrow> acked ?g (cache_log t)" using p(4) by (auto simp: ok_def split: char_body.splits)
  have e: "entry_ok table (cache_log t) k r'" "is_role_guid ?g \<Longrightarrow> asked_role k ?g (cache_log t)"
    using entry_answered [OF t _ p(1-3) ack] Some x by (auto simp: r'_def)
  have lk: "fmlookup (ch_roles t) k = Some r" and gk: "is_player_guid ?g \<and> k = ?g \<or> is_role_guid ?g \<and> \<not> is_player_guid ?g"
    using get_player_info_in Some x by auto
  have u: "told_inv table u" "cache_log u = cache_log t" "ch_log u = ch_log t"
    unfolding u_def using told_put_state [OF t lk e(1)] by (simp_all add: r'_def put_role_info_def cache_log_def)
  have made: "made table k (cache_log t)" if "is_success r'"
    using e(1) that by (auto simp: entry_ok_def is_success_def made_def stored_def)
  have told: "told_inv table (to_gate a (new_char_packet smsg_player_make h (Make_done ?g m l)) (set_status k 1 u))"
    if "is_success r'" ok for a h m l
  proof -
    have s: "told_inv table (set_status k 1 u)" using made [OF that(1)] u by (intro told_inv_status) simp_all
    have sub: "set (cache_log t) \<subseteq> set (ch_log u)" using cache_log_sub [of t] u(3) by simp
    have "?g = k \<or> stored k ?g (cache_log t)"
      using gk e that ack by (auto simp: entry_ok_def is_success_def stored_def)
    then have "told_ok table (ch_log u) (To_gate a (new_char_packet smsg_player_make h (Make_done ?g m l)))"
      using log_mono(4) [OF sub made [OF that(1)]] log_mono(3) [OF sub, of k ?g] by (auto simp: told_ok_def new_char_packet_def)
    then show ?thesis by (intro told_inv_told [OF s]) simp
  qed
  have rest: "told_inv table (send_error a h 1 (fst (delete_role env k u)))" for a h
    using u(1) told_inv_status [OF u(1), of 2 k] by (auto simp: delete_role_def intro: told_inv_error)
  have kr: "ri_player_guid r = k" using lk t by (auto simp: told_inv_def making_ok_def entry_ok_def)
  have eq: "handle_new_eneity cfg env p t =
      (let t = (if ok
           then (if is_success r'
                 then (case update_role_status env (ri_player_guid r') u of (t, False) \<Rightarrow> t
                       | (t, True) \<Rightarrow> to_gate (ri_session r') (new_char_packet smsg_player_make (ri_packet_guid r')
                           (Make_done ?g (pi_map_id (cc_init cfg)) (cc_line_id cfg))) t)
                 else u)
           else (if is_failed r' then send_error (ri_session r') (ri_packet_guid r') 1 (fst (delete_role env (ri_player_guid r') u))
                 else u)) in
       if is_finish r' then remove_role_info (ri_player_guid r') t else t)"
    unfolding handle_new_eneity_def Some x option.case prod.case Let_def ok_def [symmetric] r'_def [symmetric] u_def [symmetric]
    by (rule refl)
  have "ri_player_guid r' = k" using kr by (simp add: r'_def)
  then show ?thesis
    using u(1) told rest unfolding eq by (simp add: Let_def update_role_status_def told_inv_remove)
qed (use t in \<open>simp add: handle_new_eneity_def\<close>)

lemma told_inv_drop:
  assumes t: "told_inv table t" and u: "same_making (put_role_info k r t) u"
    and told: "at_each (told_ok table) (ch_log u)"
  shows "told_inv table (remove_role_info k u)"
proof -
  have roles: "fmlookup (ch_roles (remove_role_info k u)) h = (if h = k then None else fmlookup (ch_roles t) h)" for h
    using u by (simp add: same_making_def remove_role_info_def put_role_info_def)
  have rest: "ch_table (remove_role_info k u) = ch_table t" "ch_input (remove_role_info k u) = ch_input t"
      "ch_cache_input (remove_role_info k u) = ch_cache_input t" "cache_log (remove_role_info k u) = cache_log t"
      "ch_log (remove_role_info k u) = ch_log u"
    using u by (simp_all add: same_making_def remove_role_info_def put_role_info_def cache_log_def)
  show ?thesis
    using t told unfolding told_inv_def making_ok_def roles rest by (simp split: if_splits) metis
qed

lemma told_fill:
  "at_each (told_ok table) (ch_log t) \<Longrightarrow> at_each (told_ok table) (ch_log (fill_slot s g x t))"
  by (simp add: fill_slot_def replay_role_list_def Let_def clean_account_info_def new_char_packet_def char_opcodes split: option.split)

lemma told_load_eneity:
  assumes t: "told_inv table t"
  shows "told_inv table (handle_load_eneity p t)"
proof (cases "get_player_info (pk_guid p) t")
  case (Some x)
  obtain k r where x: "x = (k, r)" by (cases x)
  let ?g = "pk_guid p"
  have lk: "fmlookup (ch_roles t) k = Some r" using get_player_info_in Some x by auto
  have e: "entry_ok table (cache_log t) k r" using t lk by (auto simp: told_inv_def making_ok_def)
  have kr: "ri_player_guid r = k" using e by (simp add: entry_ok_def)
  define normal where "normal = (case pk_body p of Op_result st m \<Rightarrow> st = 0 | _ \<Rightarrow> False)"
  define player where "player = (case pk_body p of Op_result st m \<Rightarrow> m | _ \<Rightarrow> None)"
  define r1 where "r1 = (if normal then update_state ?g True r else r)"
  define ok where "ok = (normal \<and> is_success r1 \<and> ch_accounts t (ri_account r) \<noteq> None \<and> player \<noteq> None)"
  have log: "at_each (told_ok table) (ch_log (put_role_info k y t))" for y
    using t by (simp add: told_inv_def put_role_info_def)
  have load_eq: "handle_load_eneity p t =
      (let r = if ok then r1 else update_state ?g False r1;
           t = put_role_info k r t;
           t = (if ok then fill_slot (ri_account r) (cp_guid (the player)) (Loaded (the player)) t
                else if is_failed r then fill_slot (ri_account r) ?g Load_failed t else t) in
       if is_finish r then remove_role_info (ri_player_guid r) t else t)"
    unfolding handle_load_eneity_def Some x option.case prod.case Let_def normal_def [symmetric] player_def [symmetric]
      r1_def [symmetric] ok_def [symmetric] by (rule refl)
  show ?thesis
  proof (cases ok)
    case True
    then have "is_finish r1" by (auto simp: ok_def is_success_def is_finish_def)
    then have "handle_load_eneity p t =
        remove_role_info k (fill_slot (ri_account r) (cp_guid (the player)) (Loaded (the player)) (put_role_info k r1 t))"
      using True kr unfolding load_eq by (simp add: r1_def)
    then show ?thesis using told_inv_drop [OF t, of k r1] told_fill [OF log] by simp
  next
    case False
    define r2 where "r2 = update_state ?g False r1"
    have "entry_ok table (cache_log t) k r2" "ri_role_guid r2 = ri_role_guid r"
      using e by (auto simp: r2_def r1_def entry_ok_def update_state_def)
    then have put: "told_inv table (put_role_info k r2 t)" by (rule told_put_state [OF t lk])
    have "handle_load_eneity p t =
        (let t = (if is_failed r2 then fill_slot (ri_account r) ?g Load_failed (put_role_info k r2 t) else put_role_info k r2 t) in
         if is_finish r2 then remove_role_info k t else t)"
      using False kr unfolding load_eq by (simp add: r2_def r1_def Let_def)
    then show ?thesis using put by (simp add: Let_def told_inv_fill told_inv_remove)
  qed
qed (use t in \<open>simp add: handle_load_eneity_def\<close>)

lemma told_do_handle:
  assumes t: "told_inv table t" and fresh: "fresh_guids env t"
    and p: "pk_opcode p = dc_code DCMSG_NEW_ENEITY \<Longrightarrow>
        (\<exists>k q. To_cache k q \<in> set (cache_log t) \<and> pk_opcode q = dc_code DCMSG_NEW_ENEITY \<and> pk_guid q = pk_guid p) \<and>
        (\<forall>m. pk_body p = Op_result 0 m \<longrightarrow> acked (pk_guid p) (cache_log t))"
  shows "holds (told_inv table) (do_handle_packet cfg env p t)"
proof -
  have "told_inv table (handle_check_role_name cfg env p t)"
    using t by (simp add: handle_check_role_name_def told_inv_error split: char_body.split)
  moreover have "told_inv table (handle_role_delete env p t)"
    using t told_inv_status [OF t, of 2]
    by (simp add: handle_role_delete_def delete_role_def told_inv_gate new_char_packet_def char_opcodes split: char_body.split)
  moreover have "holds (told_inv table) (handle_request_random_name cfg env p t)"
    using t by (simp add: handle_request_random_name_def told_inv_gate new_char_packet_def char_opcodes
        split: char_body.split option.split)
  moreover have "told_inv table (handle_new_eneity cfg env p t)" if "pk_opcode p = dc_code DCMSG_NEW_ENEITY"
    using told_new_eneity [OF t] p [OF that] by blast
  ultimately show ?thesis
    using t told_role_make [OF t fresh] told_role_list [OF t] told_load_eneity [OF t]
    by (simp add: do_handle_packet_def Let_def)
qed

section \<open>The cache thread\<close>

lemma told_log:
  assumes t: "told_inv table t"
    and x: "\<And>k r h q. fmlookup (ch_roles t) k = Some r \<Longrightarrow> is_role_guid (ri_role_guid r) \<Longrightarrow> To_cache h q \<in> set xs \<Longrightarrow>
      pk_opcode q = dc_code DCMSG_NEW_ENEITY \<Longrightarrow> pk_guid q = ri_role_guid r \<Longrightarrow> asked_role k (ri_role_guid r) (cache_log t @ xs)"
    and u: "ch_log u = ch_log t @ xs" "cache_log u = cache_log t @ xs" "\<And>y ys. y \<in> set xs \<Longrightarrow> told_ok table ys y"
    and same: "ch_roles u = ch_roles t" "ch_table u = ch_table t" "ch_cache_input u = ch_cache_input t"
    and input: "\<And>p. p \<in> set (ch_input u) \<Longrightarrow> p \<in> set (ch_input t) \<or> (pk_opcode p = dc_code DCMSG_NEW_ENEITY \<longrightarrow>
        (\<exists>k q. To_cache k q \<in> set (cache_log u) \<and> pk_opcode q = dc_code DCMSG_NEW_ENEITY \<and> pk_guid q = pk_guid p) \<and>
        (\<forall>m. pk_body p = Op_result 0 m \<longrightarrow> acked (pk_guid p) (cache_log u)))"
  shows "told_inv table u"
proof -
  have mono: "set (cache_log t) \<subseteq> set (cache_log t @ xs)" by simp
  have entry: "entry_ok table (cache_log u) k r" if "fmlookup (ch_roles u) k = Some r" for k r
  proof -
    have r: "fmlookup (ch_roles t) k = Some r" using that same(1) by simp
    then have "entry_ok table (cache_log t) k r" using t by (simp add: told_inv_def making_ok_def)
    then show ?thesis
      using log_mono [OF mono] x [OF r] unfolding entry_ok_def u(2) set_append by blast
  qed
  have rows: "made table (tr_guid row) (cache_log u)" if "row \<in> set (ch_table u)" "tr_status row = 1" for row
    using t that same(2) log_mono(4) [OF mono] u(2) by (auto simp: told_inv_def making_ok_def)
  have inp: "(\<exists>k q. To_cache k q \<in> set (cache_log u) \<and> pk_opcode q = dc_code DCMSG_NEW_ENEITY \<and> pk_guid q = pk_guid p) \<and>
        (\<forall>m. pk_body p = Op_result 0 m \<longrightarrow> acked (pk_guid p) (cache_log u))"
    if "p \<in> set (ch_input u)" "pk_opcode p = dc_code DCMSG_NEW_ENEITY" for p
    using input [OF that(1)]
  proof
    assume "p \<in> set (ch_input t)"
    then show ?thesis
      using t that(2) log_mono(1) [OF mono] mono u(2) unfolding told_inv_def making_ok_def by (metis subsetD)
  qed (use that(2) in blast)
  have logged: "at_each (told_ok table) (ch_log t @ xs)"
    using u(3) t unfolding told_inv_def
  proof (induction xs rule: rev_induct)
    case (snoc y ys)
    then show ?case by (simp add: append_assoc [symmetric] del: append_assoc)
  qed simp
  have once: "\<forall>k k' r r'. fmlookup (ch_roles u) k = Some r \<longrightarrow> fmlookup (ch_roles u) k' = Some r' \<longrightarrow>
      is_role_guid (ri_role_guid r) \<longrightarrow> ri_role_guid r = ri_role_guid r' \<longrightarrow> k = k'"
    using t unfolding told_inv_def making_ok_def same(1) by blast
  have makes: "\<forall>p \<in> set (ch_cache_input u). pk_opcode p = cmsg_player_make \<longrightarrow> \<not> is_role_guid (pk_guid p)"
    using t unfolding told_inv_def making_ok_def same(3) by blast
  have "making_ok table u"
    unfolding making_ok_def using once makes by (intro conjI allI impI ballI) (blast intro: entry rows | simp add: inp)+
  then show ?thesis using logged u(1) by (simp add: told_inv_def)
qed

lemma told_cache:
  assumes t: "told_inv table t" and p: "pk_opcode p = cmsg_player_make \<Longrightarrow> \<not> is_role_guid (pk_guid p)"
  shows "told_inv table (cache_handle_packet cfg p t)"
proof -
  have "told_inv table (cache_load_entity p t)"
    by (rule told_log [OF t, where xs = "[To_cache (pk_guid p) (new_char_packet (dc_code DCMSG_LOAD_ENTITY) (pk_guid p) (Data_request None))]"])
       (auto simp: cache_load_entity_def new_char_packet_def dc_code_def told_ok_def cache_log_def)
  moreover have "told_inv table (cache_role_make cfg p t)" if np: "\<not> is_role_guid (pk_guid p)"
  proof (cases "pk_body p")
    case (Player_make pm)
    let ?h = "pk_guid p"
    show ?thesis
    proof (cases "init_role cfg ?h pm (map_option (\<lambda>(k, r). ri_role_guid r) (get_player_info ?h t))")
      case (Some role)
      obtain k' r' where x: "get_player_info ?h t = Some (k', r')" and role: "cr_guid role = ri_role_guid r'" "cr_player role = ?h"
        using Some unfolding init_role_def by (auto split: option.splits)
      have h: "fmlookup (ch_roles t) ?h = Some r'" "is_player_guid ?h"
        using get_player_info_in [OF x] np by auto
      define x1 where "x1 = To_cache ?h (new_char_packet (dc_code DCMSG_NEW_ENEITY) (cr_guid role) (Data_request (Some (Role_entity role))))"
      define player where "player = init_player cfg ?h pm (cr_role_id role) (cr_guid role)"
      define x2 where "x2 = To_cache ?h (new_char_packet (dc_code DCMSG_NEW_ENEITY) (cp_guid player) (Data_request (Some (Player_entity player))))"
      have pg: "cp_guid player = ?h" by (simp add: player_def init_player_def Let_def)
      have ask: "asked_role ?h (cr_guid role) (xs @ [x1, x2])" for xs
        unfolding asked_role_def x1_def
        by (rule exI [of _ "new_char_packet (dc_code DCMSG_NEW_ENEITY) (cr_guid role) (Data_request (Some (Role_entity role)))"],
            rule exI [of _ role]) (simp add: new_char_packet_def role(2))
      have uniq: "k = ?h" if "fmlookup (ch_roles t) k = Some r" "is_role_guid (ri_role_guid r)" "ri_role_guid r = ri_role_guid r'" for k r
        using t that h(1) unfolding told_inv_def making_ok_def by metis
      have "told_inv table (char_log x2 (char_log x1 t))"
      proof (rule told_log [OF t, where xs = "[x1, x2]"])
        fix k r h' q
        assume a: "fmlookup (ch_roles t) k = Some r" "is_role_guid (ri_role_guid r)" "To_cache h' q \<in> set [x1, x2]"
          "pk_guid q = ri_role_guid r"
        have "ri_role_guid r = cr_guid role"
          using a np pg by (auto simp: x1_def x2_def new_char_packet_def)
        then show "asked_role k (ri_role_guid r) (cache_log t @ [x1, x2])" using ask uniq [OF a(1,2)] role(1) by simp
      qed (auto simp: x1_def x2_def told_ok_def)
      then show ?thesis
        using Some by (simp add: cache_role_make_def Player_make x1_def x2_def player_def Let_def)
    qed (use t in \<open>simp add: cache_role_make_def Player_make\<close>)
  qed (use t in \<open>simp_all add: cache_role_make_def\<close>)
  ultimately show ?thesis using t p by (simp add: cache_handle_packet_def)
qed

section \<open>Runs\<close>

lemma told_step:
  assumes "holds (told_inv table) x" "char_allowed e x"
  shows "holds (told_inv table) (char_run_step cfg e x)"
proof (cases x)
  case (Some t)
  have t: "told_inv table t" using assms(1) Some by simp
  have dequeued: "told_inv table (t\<lparr> ch_input := ps \<rparr>)" if "ch_input t = p # ps" for p ps
    by (rule told_inv_input [OF t]) (use that in auto)
  have handled: "holds (told_inv table) (do_handle_packet cfg env p (t\<lparr> ch_input := ps \<rparr>))"
    if in': "ch_input t = p # ps" and env: "fresh_guids env t" for env p ps
  proof (rule told_do_handle [OF dequeued [OF in']])
    show "fresh_guids env (t\<lparr> ch_input := ps \<rparr>)" using env by simp
    have "p \<in> set (ch_input t)" using in' by simp
    then show "(\<exists>k q. To_cache k q \<in> set (cache_log (t\<lparr> ch_input := ps \<rparr>)) \<and> pk_opcode q = dc_code DCMSG_NEW_ENEITY \<and>
          pk_guid q = pk_guid p) \<and>
        (\<forall>m. pk_body p = Op_result 0 m \<longrightarrow> acked (pk_guid p) (cache_log (t\<lparr> ch_input := ps \<rparr>)))"
      if "pk_opcode p = dc_code DCMSG_NEW_ENEITY"
      using t that unfolding told_inv_def making_ok_def cache_log_fields by blast
  qed
  show ?thesis
  proof (cases e)
    case (Cache_reply p)
    let ?u = "char_log (From_cache p) (t\<lparr> ch_input := ch_input t @ [p] \<rparr>)"
    obtain y where y: "y \<in> set (ch_log t)"
        "case y of To_cache k q \<Rightarrow> pk_opcode q = pk_opcode p \<and> pk_guid q = pk_guid p | _ \<Rightarrow> False"
      using assms(2) Some Cache_reply by (auto simp: char_allowed_def list_ex_iff)
    obtain k q where q: "To_cache k q \<in> set (ch_log t)" "pk_opcode q = pk_opcode p" "pk_guid q = pk_guid p"
      by (cases y) (use y in auto)
    then have q': "\<exists>k q. To_cache k q \<in> set (cache_log t) \<and> pk_opcode q = pk_opcode p \<and> pk_guid q = pk_guid p"
      using to_cache_log by metis
    have "told_inv table ?u"
    proof (rule told_log [OF t, where xs = "[From_cache p]"])
      fix p' assume "p' \<in> set (ch_input ?u)"
      then show "p' \<in> set (ch_input t) \<or> (pk_opcode p' = dc_code DCMSG_NEW_ENEITY \<longrightarrow>
          (\<exists>k q. To_cache k q \<in> set (cache_log ?u) \<and> pk_opcode q = dc_code DCMSG_NEW_ENEITY \<and> pk_guid q = pk_guid p') \<and>
          (\<forall>m. pk_body p' = Op_result 0 m \<longrightarrow> acked (pk_guid p') (cache_log ?u)))"
        using q' by (auto simp: acked_def) metis
    qed (auto simp: told_ok_def)
    then show ?thesis using Some Cache_reply by (simp add: char_run_step_def char_step_def char_step_simps)
  next
    case (Handle_gate env)
    then show ?thesis
      using assms(2) Some t handled by (auto simp: char_run_step_def char_step_def char_step_simps char_allowed_def split: list.split)
  next
    case Handle_cache
    have "told_inv table (cache_handle_packet cfg p (t\<lparr> ch_cache_input := ps \<rparr>))" if "ch_cache_input t = p # ps" for p ps
      by (rule told_cache) (use t that in \<open>auto simp: told_inv_def making_ok_def\<close>)
    then show ?thesis
      using Some t Handle_cache by (auto simp: char_run_step_def char_step_def char_step_simps split: list.split)
  qed (use t Some assms(2) in \<open>auto simp: char_run_step_def char_step_def char_step_simps char_allowed_def told_inv_def making_ok_def\<close>)
qed (simp add: char_run_step_def)

interpretation telling: invariant_machine "char_run_step cfg" char_allowed "holds (told_inv table)" for cfg table
  by unfold_locales (rule told_step)

lemma told_inv_new: "told_inv table (new_char table)"
  by (auto simp: told_inv_def making_ok_def new_char_def made_def cache_log_def)

text \<open>C19: A client is told that its player is made only after the cache servers have acknowledged the player and the role
  it was asked to store with it, or where the role was active from the start: whatever clients, database and cache servers
  do, the guid in the message is that of such a player or of its role.\<close>

theorem told_when_made:
  assumes "all_allowed (char_run_step cfg) char_allowed es (Some (new_char table))"
    and "char_run cfg es (Some (new_char table)) = Some t"
    and "ch_log t = ys @ To_gate a q # zs" "pk_opcode q = smsg_player_make"
  shows "\<exists>g k m l. pk_body q = Make_done g m l \<and> made table k ys \<and> (g = k \<or> stored k g ys)"
proof -
  have "holds (told_inv table) (char_run cfg es (Some (new_char table)))"
    using telling.run_keeps [of table "Some (new_char table)" cfg es] told_inv_new assms(1) by (simp add: char_run_def)
  then have "told_ok table ys (To_gate a q)"
    using assms(2,3) unfolding told_inv_def at_each_def by simp
  then show ?thesis using assms(4) by (auto simp: told_ok_def)
qed

theorem told_when_made_witness:
  "\<exists>t ys q zs. char_run small_cfg two_roles_run (Some (new_char [])) = Some t \<and> ch_log t = ys @ To_gate 0 q # zs \<and>
    pk_opcode q = smsg_player_make \<and> (\<exists>k. made [] k ys)"
proof -
  have al: "all_allowed (char_run_step small_cfg) char_allowed two_roles_run (Some (new_char []))" by code_simp
  have "case char_run small_cfg two_roles_run (Some (new_char [])) of None \<Rightarrow> False | Some t \<Rightarrow>
      list_ex (\<lambda>x. case x of To_gate a q \<Rightarrow> a = 0 \<and> pk_opcode q = smsg_player_make | _ \<Rightarrow> False) (ch_log t)"
    by code_simp
  then obtain t where t: "char_run small_cfg two_roles_run (Some (new_char [])) = Some t"
      "list_ex (\<lambda>x. case x of To_gate a q \<Rightarrow> a = 0 \<and> pk_opcode q = smsg_player_make | _ \<Rightarrow> False) (ch_log t)"
    by (auto split: option.splits)
  obtain y where y: "y \<in> set (ch_log t)" "case y of To_gate a q \<Rightarrow> a = 0 \<and> pk_opcode q = smsg_player_make | _ \<Rightarrow> False"
    using t(2) by (auto simp: list_ex_iff)
  obtain q where q: "To_gate 0 q \<in> set (ch_log t)" "pk_opcode q = smsg_player_make" by (cases y) (use y in auto)
  obtain ys zs where log: "ch_log t = ys @ To_gate 0 q # zs" using q(1) by (auto dest: split_list)
  show ?thesis using told_when_made [OF al t(1) log q(2)] t(1) log q(2) by blast
qed

end
