(* ===== verification/Tickets.thy ===== *)
theory Tickets
  imports Prelude "HOL-Library.Multiset"
begin

text \<open>
  Work that several threads do at once and that must come out in order. A thread that takes work draws a number
  under the lock of the queue; the results are kept in a map until their number is up. \<^verbatim>\<open>terminal/src/PlayerRoute.cpp\<close>
  and \<^verbatim>\<open>terminal/src/GateTerminal.cpp\<close> both do this, with the same counter \<^verbatim>\<open>increaseNumber\<close>, which skips the
  number \<^verbatim>\<open>0xFFFFFFFF\<close>.
\<close>

section \<open>The counter\<close>

definition increase_number :: "u32 \<Rightarrow> u32 \<Rightarrow> u32" where
  "increase_number src n = (src + n) mod 0xFFFFFFFF"

abbreviation max_ticket :: nat where
  "max_ticket \<equiv> 4294967295"

definition nth_ticket :: "u32 \<Rightarrow> nat \<Rightarrow> u32" where
  "nth_ticket p i = of_nat ((unat p + i) mod max_ticket)"

lemma unat_nth_ticket: "unat (nth_ticket p i) = (unat p + i) mod max_ticket"
proof -
  have "(unat p + i) mod max_ticket < max_ticket" by (rule mod_less_divisor) simp
  then show ?thesis by (simp add: nth_ticket_def unat_of_nat)
qed

lemma nth_ticket_less [simp]: "unat (nth_ticket p i) < max_ticket"
  unfolding unat_nth_ticket by (rule mod_less_divisor) simp

lemma nth_ticket_0: "unat p < max_ticket \<Longrightarrow> nth_ticket p 0 = p"
  by (simp add: nth_ticket_def)

lemma unat_increase: "unat p < max_ticket \<Longrightarrow> unat (increase_number p 1) = (unat p + 1) mod max_ticket"
  by (simp add: increase_number_def unat_mod unat_word_ariths)

lemma nth_ticket_Suc: "nth_ticket p (Suc i) = increase_number (nth_ticket p i) 1"
  by (simp add: word_unat_eq_iff unat_increase unat_nth_ticket mod_simps)

lemma nth_ticket_next:
  assumes "unat p < max_ticket"
  shows "nth_ticket (increase_number p 1) i = nth_ticket p (Suc i)"
proof -
  have "unat (nth_ticket (increase_number p 1) i) = unat (nth_ticket p (Suc i))"
    using assms by (simp add: unat_nth_ticket unat_increase mod_simps)
  then show ?thesis by (simp only: word_unat_eq_iff)
qed

lemma mod_add_inj:
  fixes a k l m :: nat
  assumes "k \<le> l" "l < m" "(a + k) mod m = (a + l) mod m"
  shows "l = k"
proof -
  have "m dvd (a + l) - (a + k)"
    using assms(1,3) by (intro mod_eq_dvd_iff_nat [THEN iffD1]) simp_all
  then have "m dvd l - k" by simp
  then show ?thesis using assms(1,2) dvd_imp_le [of m "l - k"] by (cases "l = k") simp_all
qed

lemma nth_ticket_inj:
  assumes "i < max_ticket" "j < max_ticket" "nth_ticket p i = nth_ticket p j"
  shows "i = j"
proof -
  have "(unat p + i) mod max_ticket = (unat p + j) mod max_ticket"
    using assms(3) unat_nth_ticket by metis
  then show ?thesis using mod_add_inj [of i j] mod_add_inj [of j i] assms(1,2) by (metis nat_le_linear)
qed

section \<open>Outstanding work\<close>

text \<open>The work whose number is drawn and not up, with its content, in the order of the numbers.\<close>

definition numbered :: "u32 \<Rightarrow> 'c list \<Rightarrow> (u32 \<times> 'c) list" where
  "numbered pos cs = zip (map (nth_ticket pos) [0 ..< length cs]) cs"

definition in_line :: "u32 \<Rightarrow> u32 \<Rightarrow> (u32 \<times> 'c) multiset \<Rightarrow> 'c list \<Rightarrow> bool" where
  "in_line pos index held cs \<longleftrightarrow> unat pos < max_ticket \<and> length cs < max_ticket \<and>
     index = nth_ticket pos (length cs) \<and> held = mset (numbered pos cs)"

lemma length_numbered [simp]: "length (numbered pos cs) = length cs"
  by (simp add: numbered_def)

lemma in_line_size: "in_line pos index held cs \<Longrightarrow> size held = length cs"
  by (simp add: in_line_def)

lemma numbered_snoc: "numbered pos (cs @ [c]) = numbered pos cs @ [(nth_ticket pos (length cs), c)]"
  by (simp add: numbered_def)

lemma numbered_update: "i < length cs \<Longrightarrow> numbered pos (cs[i := c]) = (numbered pos cs)[i := (nth_ticket pos i, c)]"
  by (rule nth_equalityI) (auto simp: numbered_def nth_list_update)

lemma nth_numbered: "i < length cs \<Longrightarrow> numbered pos cs ! i = (nth_ticket pos i, cs ! i)"
  by (simp add: numbered_def)

lemma set_numbered: "(k, c) \<in> set (numbered pos cs) \<longleftrightarrow> (\<exists>i<length cs. k = nth_ticket pos i \<and> c = cs ! i)"
  by (auto simp: in_set_conv_nth nth_numbered)

lemma numbered_Cons:
  assumes "unat pos < max_ticket"
  shows "numbered pos (c # cs) = (pos, c) # numbered (increase_number pos 1) cs"
proof -
  have "nth_ticket (increase_number pos 1) = (\<lambda>i. nth_ticket pos (Suc i))"
    using assms by (simp add: fun_eq_iff nth_ticket_next)
  then show ?thesis
    using assms by (simp add: numbered_def upt_conv_Cons nth_ticket_0 map_Suc_upt [symmetric] comp_def del: upt_Suc)
qed

lemma in_line_empty [simp]: "in_line pos index {#} cs \<longleftrightarrow> cs = [] \<and> unat pos < max_ticket \<and> index = pos"
  by (cases cs) (auto simp: in_line_def nth_ticket_0 numbered_def)

lemma in_line_take:
  assumes "in_line pos index held cs" "Suc (length cs) < max_ticket"
  shows "in_line pos (increase_number index 1) (add_mset (index, c) held) (cs @ [c])"
  using assms by (simp add: in_line_def numbered_snoc nth_ticket_Suc)

lemma in_line_work:
  assumes "in_line pos index (add_mset (k, c) held) cs"
  obtains i where "i < length cs" "cs ! i = c" "\<And>c'. in_line pos index (add_mset (k, c') held) (cs[i := c'])"
proof -
  have "(k, c) \<in> set (numbered pos cs)"
    using assms by (metis in_line_def set_mset_mset union_single_eq_member)
  then obtain i where i: "i < length cs" "k = nth_ticket pos i" "c = cs ! i"
    by (auto simp: set_numbered)
  have "in_line pos index (add_mset (k, c') held) (cs[i := c'])" for c'
  proof -
    have "mset (numbered pos (cs[i := c'])) = add_mset (k, c') (mset (numbered pos cs) - {# (k, c) #})"
      using i by (simp add: numbered_update mset_update nth_numbered)
    then show ?thesis using assms by (simp add: in_line_def) (metis add_mset_remove_trivial)
  qed
  then show thesis using that i by simp
qed

lemma in_line_next:
  assumes l: "in_line pos index (add_mset (pos, c) held) cs"
  obtains cs' where "cs = c # cs'" "in_line (increase_number pos 1) index held cs'"
proof -
  have "(pos, c) \<in> set (numbered pos cs)"
    using l by (metis in_line_def set_mset_mset union_single_eq_member)
  then obtain i where i: "i < length cs" "pos = nth_ticket pos i" "c = cs ! i"
    by (auto simp: set_numbered)
  have p: "unat pos < max_ticket" "length cs < max_ticket" using l by (simp_all add: in_line_def)
  then have "i = 0" using nth_ticket_inj [of i 0 pos] i(1,2) nth_ticket_0 [of pos] by simp
  then obtain cs' where cs: "cs = c # cs'" using i(1,3) by (cases cs) simp_all
  have "unat (increase_number pos 1) < max_ticket" using unat_increase [OF p(1)] by simp
  then have "in_line (increase_number pos 1) index held cs'"
    using l p cs by (simp add: in_line_def numbered_Cons nth_ticket_next)
  then show thesis using that cs by blast
qed

lemma in_line_front:
  assumes "in_line pos index (add_mset (pos, c) held) (d # cs)"
  shows "d = c" "in_line pos index (add_mset (pos, c') held) (c' # cs)"
proof -
  obtain cs' where cs: "d # cs = c # cs'" "in_line (increase_number pos 1) index held cs'"
    using in_line_next [OF assms] .
  then show "d = c" by simp
  have p: "unat pos < max_ticket" using assms by (simp add: in_line_def)
  have "mset (numbered (increase_number pos 1) cs) = held" using cs by (simp add: in_line_def)
  then show "in_line pos index (add_mset (pos, c') held) (c' # cs)"
    using assms p by (simp add: in_line_def numbered_Cons)
qed

text \<open>No number is held twice, and the one that is up is held when there is work.\<close>

lemma in_line_once:
  assumes "in_line pos index (add_mset (k, c) held) cs"
  shows "(k, c') \<notin># held"
proof
  assume "(k, c') \<in># held"
  then obtain held' where held: "held = add_mset (k, c') held'" by (meson multi_member_split)
  have "mset (map fst (numbered pos cs)) = image_mset fst (add_mset (k, c) held)"
    using assms by (simp add: in_line_def)
  moreover have "distinct (map fst (numbered pos cs))"
    using assms nth_ticket_inj by (auto simp: numbered_def distinct_map inj_on_def in_line_def)
  ultimately have "count (add_mset k (add_mset k (image_mset fst held'))) k \<le> 1"
    using held by (metis distinct_count_atmost_1 fst_conv image_mset_add_mset le_refl zero_le_one)
  then show False by simp
qed

lemma in_line_first:
  assumes "in_line pos index held cs" "held \<noteq> {#}"
  obtains c held' where "held = add_mset (pos, c) held'"
proof -
  obtain c cs' where cs: "cs = c # cs'" using assms by (cases cs) (auto simp: in_line_def numbered_def)
  then have "held = add_mset (pos, c) (mset (numbered (increase_number pos 1) cs'))"
    using assms(1) by (simp add: in_line_def numbered_Cons)
  then show thesis using that by blast
qed

section \<open>Maps as multisets of their entries\<close>

definition fm_mset :: "('k, 'v) fmap \<Rightarrow> ('k \<times> 'v) multiset" where
  "fm_mset m = image_mset (\<lambda>k. (k, the (fmlookup m k))) (mset_set (fset (fmdom m)))"

lemma fm_mset_empty [simp]: "fm_mset fmempty = {#}"
  by (simp add: fm_mset_def)

lemma fm_mset_upd:
  assumes "fmlookup m k = None"
  shows "fm_mset (fmupd k v m) = add_mset (k, v) (fm_mset m)"
proof -
  have "k \<notin> fset (fmdom m)" using assms by (simp add: fmdom_notI)
  then show ?thesis
    by (auto simp: fm_mset_def intro!: image_mset_cong)
qed

lemma fm_mset_drop:
  assumes "fmlookup m k = Some v"
  shows "fm_mset m = add_mset (k, v) (fm_mset (fmdrop k m))"
proof -
  have m: "m = fmupd k v (fmdrop k m)" by (rule fmap_ext) (use assms in auto)
  show ?thesis by (subst m, subst fm_mset_upd) simp_all
qed

lemma fm_mset_member: "(k, v) \<in># fm_mset m \<longleftrightarrow> fmlookup m k = Some v"
  by (auto simp: fm_mset_def fmlookup_dom_iff image_iff)

lemma fm_mset_eq_empty [simp]: "fm_mset m = {#} \<longleftrightarrow> m = fmempty"
  by (metis fm_mset_drop fm_mset_empty fmap_ext fmempty_lookup add_mset_not_empty not_None_eq)

section \<open>Threads that hold work\<close>

definition held_by :: "('t \<Rightarrow> 'w option) \<Rightarrow> 't list \<Rightarrow> 'w multiset" where
  "held_by f ts = mset (List.map_filter f ts)"

lemma held_by_simps [simp]:
  "held_by f [] = {#}" "held_by f (t # ts) = (case f t of None \<Rightarrow> held_by f ts | Some w \<Rightarrow> add_mset w (held_by f ts))"
  by (simp_all add: held_by_def map_filter_simps split: option.split)

lemma held_by_update:
  assumes "i < length ts"
  shows "held_by f (ts[i := t]) + held_by f [ts ! i] = held_by f ts + held_by f [t]"
proof -
  have split: "held_by f (xs @ y # ys) = held_by f [y] + (held_by f xs + held_by f ys)" for xs y ys
    by (simp add: held_by_def List.map_filter_def split: option.split)
  have "held_by f (ts[i := t]) = held_by f [t] + (held_by f (take i ts) + held_by f (drop (Suc i) ts))"
    unfolding upd_conv_take_nth_drop [OF assms] by (rule split)
  moreover have "held_by f ts = held_by f [ts ! i] + (held_by f (take i ts) + held_by f (drop (Suc i) ts))"
    by (subst id_take_nth_drop [OF assms]) (rule split)
  ultimately show ?thesis by (simp del: held_by_simps)
qed

lemma held_by_take:
  "i < length ts \<Longrightarrow> f (ts ! i) = None \<Longrightarrow> f t = Some w \<Longrightarrow> held_by f (ts[i := t]) = add_mset w (held_by f ts)"
  using held_by_update [of i ts f t] by simp

lemma held_by_done:
  "i < length ts \<Longrightarrow> f (ts ! i) = Some w \<Longrightarrow> f t = None \<Longrightarrow> held_by f ts = add_mset w (held_by f (ts[i := t]))"
  using held_by_update [of i ts f t] by simp

lemma held_by_work:
  assumes "i < length ts" "f (ts ! i) = Some w" "f t = Some w'"
  obtains h where "held_by f ts = add_mset w h" "held_by f (ts[i := t]) = add_mset w' h"
proof -
  have eq: "add_mset w (held_by f (ts[i := t])) = add_mset w' (held_by f ts)"
    using held_by_update [of i ts f t] assms by simp
  have "w \<in># held_by f ts"
    using assms by (auto simp: held_by_def List.map_filter_def intro!: image_eqI [of _ _ "ts ! i"])
  then obtain h where h: "held_by f ts = add_mset w h" by (meson multi_member_split)
  then have "held_by f (ts[i := t]) = add_mset w' h"
    using eq by (metis add_mset_commute add_mset_add_mset_same_iff)
  then show thesis using that h by blast
qed

lemma held_by_map: "(\<And>t. f (g t) = f t) \<Longrightarrow> held_by f (map g ts) = held_by f ts"
  by (induction ts) (simp_all split: option.split)

lemma held_by_empty: "held_by f ts = {#} \<longleftrightarrow> (\<forall>t \<in> set ts. f t = None)"
  by (induction ts) (auto split: option.splits)

lemma held_by_busy:
  assumes "held_by f ts \<noteq> {#}"
  obtains i w where "i < length ts" "f (ts ! i) = Some w"
  using assms by (auto simp: held_by_empty in_set_conv_nth)

text \<open>How much work is outstanding, for threads \<open>ts\<close> and a map \<open>m\<close>.\<close>

definition outstanding :: "('t \<Rightarrow> 'w option) \<Rightarrow> 't list \<Rightarrow> (u32, 'd) fmap \<Rightarrow> nat" where
  "outstanding f ts m = length (List.map_filter f ts) + length (fm_items m)"

lemma size_fm_mset: "size (fm_mset m) = length (fm_items m)"
proof -
  have "length (fm_items m) = card (fset (fmdom m))"
    by (metis distinct_card distinct_fs_items fm_items_keys length_map set_fs_items)
  then show ?thesis by (simp add: fm_mset_def)
qed

lemma size_held: "size (held_by f ts) + size (fm_mset m) = outstanding f ts m"
  by (simp add: outstanding_def held_by_def size_fm_mset)

lemma mset_concat_replace:
  "i < length cs \<Longrightarrow> mset (concat (cs[i := c])) + mset (cs ! i) = mset (concat cs) + mset c"
  by (induction cs arbitrary: i) (auto split: nat.split simp: ac_simps)

end
