(* ===== verification/Terminal.thy ===== *)
theory Terminal
  imports Tickets Packets Opcodes
begin

text \<open>
  How a game server talks to its gates: \<^verbatim>\<open>terminal/src\<close>. What the scene puts out goes through two stages, each
  with twenty threads. Those of \<^verbatim>\<open>PlayerRoute\<close> look up the gate of each packet, and \<^verbatim>\<open>PlayerRouteDispatch\<close> hands
  the packets to the gates' terminals in the order of the scene. The threads of a terminal's
  \<^verbatim>\<open>PacketSerializeAssistant\<close> copy packets into message blocks, and the output thread of the terminal
  (\<^verbatim>\<open>ManageGateOutput\<close>, \<^verbatim>\<open>GateTerminal::syncWrite\<close>) sends the blocks in order.

  A step of a thread is what it does between two uses of shared data: drawing work with its number, looking up one
  packet, handing in the result. Terminals are named by their address. Some fields are histories: what the scene put
  out and got, what was dropped, what was handed to which terminal, and the bytes that were sent.
\<close>

section \<open>One gate\<close>

definition block_length :: nat where "block_length = 102400"
definition message_no :: nat where "message_no = 30"
definition serialize_threads :: nat where "serialize_threads = 20"

text \<open>A block is the bytes between its read and its write pointer; the idle ones are counted.\<close>

record gate_terminal =
  te_packets :: "packet list"
  te_blocks :: nat
  te_threads :: "(u32 \<times> packet list) option list"
  te_index :: u32
  te_pos :: u32
  te_map :: "(u32, u8 list list) fmap"
  te_current :: "u8 list option"
  te_stopped :: bool
  te_handed :: "packet list"
  te_sent :: "u8 list"

definition new_gate_terminal :: gate_terminal where
  "new_gate_terminal = \<lparr> te_packets = [], te_blocks = message_no, te_threads = replicate serialize_threads None,
     te_index = 0, te_pos = 0, te_map = fmempty, te_current = None, te_stopped = False, te_handed = [], te_sent = [] \<rparr>"

definition output_packet :: "packet \<Rightarrow> gate_terminal \<Rightarrow> gate_terminal" where
  "output_packet p g = g\<lparr> te_packets := te_packets g @ [p], te_handed := te_handed g @ [p] \<rparr>"

definition get_message_index :: "gate_terminal \<Rightarrow> u32 \<times> gate_terminal" where
  "get_message_index g = (te_index g, g\<lparr> te_index := increase_number (te_index g) 1 \<rparr>)"

text \<open>A thread takes all packets that wait, and draws a number for them.\<close>

definition serialize_take :: "nat \<Rightarrow> gate_terminal \<Rightarrow> gate_terminal" where
  "serialize_take i g =
     (if i < length (te_threads g) \<and> te_threads g ! i = None \<and> te_packets g \<noteq> []
      then (let (k, g') = get_message_index g in
            g'\<lparr> te_threads := (te_threads g')[i := Some (k, te_packets g)], te_packets := [] \<rparr>)
      else g)"

text \<open>\<^verbatim>\<open>ACE_Message_Block::copy\<close> copies nothing when the space is not enough.\<close>

definition block_copy :: "u8 list \<Rightarrow> packet \<Rightarrow> u8 list" where
  "block_copy b p = (if unat (stream_size p) \<le> block_length - length b then b @ packet_stream p else b)"

primrec serialize_packets :: "u8 list \<Rightarrow> packet list \<Rightarrow> u8 list list" where
  "serialize_packets b [] = [b]"
| "serialize_packets b (p # ps) =
     (if block_length - length b < unat (stream_size p) then b # serialize_packets (block_copy [] p) ps
      else serialize_packets (block_copy b p) ps)"

text \<open>\<^verbatim>\<open>getMessageBlock\<close> for each block: an idle one while there is one.\<close>

definition get_message_blocks :: "nat \<Rightarrow> gate_terminal \<Rightarrow> gate_terminal" where
  "get_message_blocks n g = g\<lparr> te_blocks := te_blocks g - n \<rparr>"

definition return_msg_block :: "gate_terminal \<Rightarrow> gate_terminal" where
  "return_msg_block g = (if te_blocks g < message_no then g\<lparr> te_blocks := Suc (te_blocks g) \<rparr> else g)"

text \<open>\<^verbatim>\<open>std::map::insert\<close> keeps what is there.\<close>

definition output_buffer :: "u32 \<Rightarrow> u8 list list \<Rightarrow> gate_terminal \<Rightarrow> gate_terminal" where
  "output_buffer k bs g = (if fmlookup (te_map g) k = None then g\<lparr> te_map := fmupd k bs (te_map g) \<rparr> else g)"

definition serialize_done :: "nat \<Rightarrow> gate_terminal \<Rightarrow> gate_terminal" where
  "serialize_done i g =
     (if i < length (te_threads g)
      then (case te_threads g ! i of
              None \<Rightarrow> g
            | Some (k, ps) \<Rightarrow>
                (let bs = serialize_packets [] ps;
                     g = get_message_blocks (length bs) g;
                     g = output_buffer k bs g in
                 g\<lparr> te_threads := (te_threads g)[i := None] \<rparr>))
      else g)"

text \<open>What a call of \<^verbatim>\<open>send\<close> does: it takes at least one byte, or none for now, or fails.\<close>

datatype send_result = Sent nat | Send_later | Send_failed

definition current_block :: "gate_terminal \<Rightarrow> int + gate_terminal \<times> u8 list" where
  "current_block g =
     (case te_current g of
        Some b \<Rightarrow> Inr (g, b)
      | None \<Rightarrow>
          (if te_map g = fmempty then Inl 1
           else (case fmlookup (te_map g) (te_pos g) of
                   Some (b # bs) \<Rightarrow>
                     Inr (if bs = []
                          then g\<lparr> te_pos := increase_number (te_pos g) 1, te_map := fmdrop (te_pos g) (te_map g) \<rparr>
                          else g\<lparr> te_map := fmupd (te_pos g) bs (te_map g) \<rparr>, b)
                 | _ \<Rightarrow> Inl 0)))"

definition sync_write :: "send_result \<Rightarrow> gate_terminal \<Rightarrow> gate_terminal \<times> int" where
  "sync_write r g =
     (case current_block g of
        Inl v \<Rightarrow> (g, v)
      | Inr (g, b) \<Rightarrow>
          (let (n, v) = (if b = [] then (0, 0)
                         else (case r of Sent n \<Rightarrow> (Suc n, 0) | Send_later \<Rightarrow> (0, 0) | Send_failed \<Rightarrow> (0, - 1)));
               g = g\<lparr> te_sent := te_sent g @ take n b, te_current := Some (drop n b) \<rparr> in
           (if drop n b = [] then (return_msg_block g)\<lparr> te_current := None \<rparr> else g, v)))"

section \<open>All gates\<close>

text \<open>A thread of \<^verbatim>\<open>PlayerRoute\<close>: its routes, and its work: the number, what is looked up, what is not yet.\<close>

record route_thread =
  rt_table :: "guid \<rightharpoonup> nat"
  rt_work :: "(u32 \<times> (packet \<times> nat) list \<times> packet list) option"

record manage_terminal =
  mt_addrs :: "nat list"
  mt_terminals :: "nat \<Rightarrow> gate_terminal"
  mt_lost :: bool
  mt_input :: "packet list"
  mt_threads :: "route_thread list"
  mt_index :: u32
  mt_pos :: u32
  mt_map :: "(u32, (packet \<times> nat) list) fmap"
  mt_current :: "(packet \<times> nat) list"
  mt_read :: "packet list"
  mt_scene :: "packet list"
  mt_output :: "packet list"
  mt_dropped :: "packet list"
  mt_delivered :: "(packet \<times> nat) list"

definition new_manage_terminal :: "nat list \<Rightarrow> manage_terminal" where
  "new_manage_terminal addrs = \<lparr> mt_addrs = addrs, mt_terminals = (\<lambda>a. new_gate_terminal), mt_lost = False,
     mt_input = [], mt_threads = replicate 20 \<lparr> rt_table = Map.empty, rt_work = None \<rparr>, mt_index = 0, mt_pos = 0,
     mt_map = fmempty, mt_current = [], mt_read = [], mt_scene = [], mt_output = [], mt_dropped = [], mt_delivered = [] \<rparr>"

definition on_terminal :: "nat \<Rightarrow> (gate_terminal \<Rightarrow> gate_terminal) \<Rightarrow> manage_terminal \<Rightarrow> manage_terminal" where
  "on_terminal a f t = t\<lparr> mt_terminals := (mt_terminals t)(a := f (mt_terminals t a)) \<rparr>"

definition get_terminal_by_pointer :: "nat \<Rightarrow> manage_terminal \<Rightarrow> nat option" where
  "get_terminal_by_pointer a t = (if a \<in> set (mt_addrs t) then Some a else None)"

definition table_add :: "guid \<Rightarrow> nat \<Rightarrow> route_thread \<Rightarrow> route_thread" where
  "table_add g a r = (if a = 0 then r else r\<lparr> rt_table := (rt_table r)(g \<mapsto> a) \<rparr>)"

definition table_remove :: "guid \<Rightarrow> route_thread \<Rightarrow> route_thread" where
  "table_remove g r = r\<lparr> rt_table := (rt_table r)(g := None) \<rparr>"

definition add_route :: "guid \<Rightarrow> nat \<Rightarrow> manage_terminal \<Rightarrow> manage_terminal" where
  "add_route g a t = t\<lparr> mt_threads := map (table_add g a) (mt_threads t) \<rparr>"

text \<open>The terminal that is given does not matter.\<close>

definition remove_route :: "guid \<Rightarrow> nat \<Rightarrow> manage_terminal \<Rightarrow> manage_terminal" where
  "remove_route g a t = t\<lparr> mt_threads := map (table_remove g) (mt_threads t) \<rparr>"

text \<open>\<^verbatim>\<open>ISessionIn_syncRead\<close>: once a gate is lost, whatever comes from any gate is dropped.\<close>

primrec sync_read :: "packet list \<Rightarrow> manage_terminal \<Rightarrow> manage_terminal" where
  "sync_read [] t = t"
| "sync_read (p # ps) t =
     (if mt_lost t then t
      else (let t = (if packet_opcode p = cmsg_player_enter_map then add_route (packet_guid p) (p_owner p) t
                     else if packet_opcode p = smsg_lost_gate_connection then t\<lparr> mt_lost := True \<rparr>
                     else t) in
            sync_read ps (t\<lparr> mt_read := mt_read t @ [p], mt_scene := mt_scene t @ [p] \<rparr>)))"

definition gete_lost_connection :: "nat \<Rightarrow> manage_terminal \<Rightarrow> manage_terminal" where
  "gete_lost_connection a = sync_read [set_owner a (new_packet smsg_lost_gate_connection 0 [])]"

definition scene_output :: "packet \<Rightarrow> manage_terminal \<Rightarrow> manage_terminal" where
  "scene_output p t = t\<lparr> mt_input := mt_input t @ [p], mt_output := mt_output t @ [p] \<rparr>"

definition register_scene :: "guid \<Rightarrow> u8 list \<Rightarrow> manage_terminal \<Rightarrow> manage_terminal" where
  "register_scene scene body t = fold (\<lambda>a. on_terminal a (output_packet (new_packet gcmsg_register scene body))) (mt_addrs t) t"

section \<open>Routing\<close>

definition get_route_index :: "manage_terminal \<Rightarrow> u32 \<times> manage_terminal" where
  "get_route_index t = (mt_index t, t\<lparr> mt_index := increase_number (mt_index t) 1 \<rparr>)"

definition set_work ::
  "nat \<Rightarrow> (u32 \<times> (packet \<times> nat) list \<times> packet list) option \<Rightarrow> manage_terminal \<Rightarrow> manage_terminal" where
  "set_work i w t = t\<lparr> mt_threads := (mt_threads t)[i := (mt_threads t ! i)\<lparr> rt_work := w \<rparr>] \<rparr>"

definition route_take :: "nat \<Rightarrow> manage_terminal \<Rightarrow> manage_terminal" where
  "route_take i t =
     (if i < length (mt_threads t) \<and> rt_work (mt_threads t ! i) = None \<and> mt_input t \<noteq> []
      then (let (k, t') = get_route_index t in (set_work i (Some (k, [], mt_input t)) t')\<lparr> mt_input := [] \<rparr>)
      else t)"

definition find_route :: "nat \<Rightarrow> packet \<Rightarrow> manage_terminal \<Rightarrow> nat option" where
  "find_route i p t =
     (if packet_guid p = 0 then get_terminal_by_pointer (p_owner p) t else rt_table (mt_threads t ! i) (packet_guid p))"

text \<open>One packet, or, when all are looked up, the hand over to the dispatcher.\<close>

definition process_packet_route :: "u32 \<Rightarrow> (packet \<times> nat) list \<Rightarrow> manage_terminal \<Rightarrow> manage_terminal" where
  "process_packet_route k ds t = (if fmlookup (mt_map t) k = None then t\<lparr> mt_map := fmupd k ds (mt_map t) \<rparr> else t)"

definition route_work :: "nat \<Rightarrow> manage_terminal \<Rightarrow> manage_terminal" where
  "route_work i t =
     (if i < length (mt_threads t)
      then (case rt_work (mt_threads t ! i) of
              None \<Rightarrow> t
            | Some (k, ds, []) \<Rightarrow> set_work i None (process_packet_route k ds t)
            | Some (k, ds, p # ps) \<Rightarrow>
                (case find_route i p t of
                   Some a \<Rightarrow> set_work i (Some (k, ds @ [(p, a)], ps)) t
                 | None \<Rightarrow> (set_work i (Some (k, ds, ps)) t)\<lparr> mt_dropped := mt_dropped t @ [p] \<rparr>))
      else t)"

section \<open>Dispatching\<close>

definition dispatch_take :: "manage_terminal \<Rightarrow> manage_terminal" where
  "dispatch_take t =
     (if mt_current t = []
      then (case fmlookup (mt_map t) (mt_pos t) of
              None \<Rightarrow> t
            | Some ds \<Rightarrow> t\<lparr> mt_current := ds, mt_map := fmdrop (mt_pos t) (mt_map t),
                              mt_pos := increase_number (mt_pos t) 1 \<rparr>)
      else t)"

definition dispatch_packet :: "manage_terminal \<Rightarrow> manage_terminal" where
  "dispatch_packet t =
     (case mt_current t of
        [] \<Rightarrow> t
      | (p, a) # ds \<Rightarrow>
          (let t = (if packet_opcode p = smsg_player_leave_map then remove_route (packet_guid p) (p_owner p) t else t);
               t = on_terminal a (output_packet p) t in
           t\<lparr> mt_current := ds, mt_delivered := mt_delivered t @ [(p, a)] \<rparr>))"

section \<open>The threads as a machine\<close>

text \<open>The loop of \<^verbatim>\<open>ManageGateOutput\<close> ends at the first failure.\<close>

definition gate_output :: "nat \<Rightarrow> send_result \<Rightarrow> manage_terminal \<Rightarrow> manage_terminal" where
  "gate_output a r t =
     (if te_stopped (mt_terminals t a) then t
      else (case sync_write r (mt_terminals t a) of
              (g, v) \<Rightarrow>
                (if v = - 1 then gete_lost_connection a (on_terminal a (\<lambda>_. g\<lparr> te_stopped := True \<rparr>) t)
                 else on_terminal a (\<lambda>_. g) t)))"

datatype terminal_event =
    Gate_reads nat "packet list"
  | Gate_read_fails nat
  | Registers guid "u8 list"
  | Scene_sends packet
  | Route_take nat
  | Route_work nat
  | Dispatch_take
  | Dispatch_packet
  | Serialize_take nat nat
  | Serialize_done nat nat
  | Gate_writes nat send_result

definition terminal_step :: "terminal_event \<Rightarrow> manage_terminal \<Rightarrow> manage_terminal" where
  "terminal_step e t =
     (case e of
        Gate_reads a ps \<Rightarrow> sync_read (map (set_owner a) ps) t
      | Gate_read_fails a \<Rightarrow> gete_lost_connection a t
      | Registers scene body \<Rightarrow> register_scene scene body t
      | Scene_sends p \<Rightarrow> scene_output p t
      | Route_take i \<Rightarrow> route_take i t
      | Route_work i \<Rightarrow> route_work i t
      | Dispatch_take \<Rightarrow> dispatch_take t
      | Dispatch_packet \<Rightarrow> dispatch_packet t
      | Serialize_take a i \<Rightarrow> on_terminal a (serialize_take i) t
      | Serialize_done a i \<Rightarrow> on_terminal a (serialize_done i) t
      | Gate_writes a r \<Rightarrow> gate_output a r t)"

end
