(* ===== verification/TerminalWire.thy ===== *)
theory TerminalWire
  imports Terminal
begin

text \<open>
  What is sent to one gate: however the threads of a terminal interleave, the bytes on the connection are those of
  the packets it was handed, in that order.
\<close>

section \<open>The bytes in a terminal\<close>

abbreviation streams :: "packet list \<Rightarrow> u8 list" where
  "streams ps \<equiv> concat (map packet_stream ps)"

definition te_held :: "gate_terminal \<Rightarrow> (u32 \<times> u8 list) multiset" where
  "te_held g = image_mset (\<lambda>(k, ps). (k, streams ps)) (held_by (\<lambda>w. w) (te_threads g)) +
     image_mset (\<lambda>(k, bs). (k, concat bs)) (fm_mset (te_map g))"

definition wire_ok :: "gate_terminal \<Rightarrow> bool" where
  "wire_ok g \<longleftrightarrow>
     (\<exists>cs. in_line (te_pos g) (te_index g) (te_held g) cs \<and>
        te_sent g @ (case te_current g of None \<Rightarrow> [] | Some b \<Rightarrow> b) @ concat cs @ streams (te_packets g) =
          streams (te_handed g)) \<and>
     (\<forall>k bs. fmlookup (te_map g) k = Some bs \<longrightarrow> bs \<noteq> [])"

lemma size_te_held: "in_line p i (te_held g) cs \<Longrightarrow> length cs = outstanding (\<lambda>w. w) (te_threads g) (te_map g)"
  using in_line_size [of p i "te_held g" cs] by (simp add: te_held_def size_held)

lemma wire_ok_new: "wire_ok new_gate_terminal"
  by (auto simp: wire_ok_def new_gate_terminal_def te_held_def held_by_empty [THEN iffD2] intro!: exI [of _ "[]"])

lemma stream_fits: "unat (stream_size p) \<le> block_length"
  using unsigned_less [of "stream_size p", where ?'a = nat] by (simp add: block_length_def)

lemma concat_serialize: "concat (serialize_packets b ps) = b @ streams ps"
proof (induction ps arbitrary: b)
  case (Cons p ps)
  then show ?case using stream_fits [of p] by (simp add: block_copy_def)
qed simp

lemma serialize_not_Nil [simp]: "serialize_packets b ps \<noteq> []"
  by (induction ps arbitrary: b) simp_all

section \<open>Every step keeps the bytes\<close>

lemma wire_output:
  assumes "wire_ok g"
  shows "wire_ok (output_packet p g)"
proof -
  have "te_held (output_packet p g) = te_held g" by (simp add: te_held_def output_packet_def)
  then show ?thesis using assms by (fastforce simp: wire_ok_def output_packet_def)
qed

lemma wire_take:
  assumes g: "wire_ok g" and room: "Suc (outstanding (\<lambda>w. w) (te_threads g) (te_map g)) < max_ticket"
  shows "wire_ok (serialize_take i g)"
proof (cases "i < length (te_threads g) \<and> te_threads g ! i = None \<and> te_packets g \<noteq> []")
  case True
  obtain cs where cs: "in_line (te_pos g) (te_index g) (te_held g) cs"
      "te_sent g @ (case te_current g of None \<Rightarrow> [] | Some b \<Rightarrow> b) @ concat cs @ streams (te_packets g) = streams (te_handed g)"
    using g by (auto simp: wire_ok_def)
  let ?u = "serialize_take i g"
  have "te_held ?u = add_mset (te_index g, streams (te_packets g)) (te_held g)"
    using True by (simp add: te_held_def serialize_take_def get_message_index_def held_by_take)
  moreover have "in_line (te_pos g) (increase_number (te_index g) 1) (add_mset (te_index g, streams (te_packets g)) (te_held g))
      (cs @ [streams (te_packets g)])"
    using in_line_take [OF cs(1)] room size_te_held [OF cs(1)] by metis
  ultimately show ?thesis
    using g cs(2) True unfolding wire_ok_def
    by (intro conjI exI [of _ "cs @ [streams (te_packets g)]"]) (auto simp: serialize_take_def get_message_index_def)
qed (use g in \<open>auto simp: serialize_take_def\<close>)

text \<open>The number that a thread holds is not in the map.\<close>

lemma wire_free:
  assumes g: "wire_ok g" and w: "i < length (te_threads g)" "te_threads g ! i = Some (k, ps)"
  shows "fmlookup (te_map g) k = None"
proof (rule ccontr)
  assume "fmlookup (te_map g) k \<noteq> None"
  then obtain bs where "(k, bs) \<in># fm_mset (te_map g)" by (auto simp: fm_mset_member)
  then have in': "(k, concat bs) \<in># image_mset (\<lambda>(k, bs). (k, concat bs)) (fm_mset (te_map g))" by force
  obtain cs where cs: "in_line (te_pos g) (te_index g) (te_held g) cs" using g by (auto simp: wire_ok_def)
  have "te_held g = add_mset (k, streams ps) (image_mset (\<lambda>(k, ps). (k, streams ps)) (held_by (\<lambda>w. w) ((te_threads g)[i := None])) +
      image_mset (\<lambda>(k, bs). (k, concat bs)) (fm_mset (te_map g)))"
    using w held_by_done [of i "te_threads g" "\<lambda>w. w"] by (simp add: te_held_def)
  then show False using in_line_once cs in' by (metis union_iff)
qed

lemma wire_done:
  assumes g: "wire_ok g"
  shows "wire_ok (serialize_done i g)"
proof (cases "i < length (te_threads g) \<and> te_threads g ! i \<noteq> None")
  case True
  then obtain k ps where w: "i < length (te_threads g)" "te_threads g ! i = Some (k, ps)" by auto
  have h: "held_by (\<lambda>w. w) (te_threads g) = add_mset (k, ps) (held_by (\<lambda>w. w) ((te_threads g)[i := None]))"
    using w held_by_done [of i "te_threads g" "\<lambda>w. w"] by simp
  have free: "fmlookup (te_map g) k = None" using wire_free [OF g w] .
  then have "te_held (serialize_done i g) = te_held g"
    using w by (simp add: te_held_def serialize_done_def get_message_blocks_def output_buffer_def Let_def fm_mset_upd h
        concat_serialize)
  moreover have "te_pos (serialize_done i g) = te_pos g" "te_index (serialize_done i g) = te_index g"
      "te_sent (serialize_done i g) = te_sent g" "te_current (serialize_done i g) = te_current g"
      "te_packets (serialize_done i g) = te_packets g" "te_handed (serialize_done i g) = te_handed g"
      "te_map (serialize_done i g) = fmupd k (serialize_packets [] ps) (te_map g)"
    using w free by (simp_all add: serialize_done_def get_message_blocks_def output_buffer_def Let_def)
  ultimately show ?thesis using g by (simp add: wire_ok_def)
next
  case False
  then have "serialize_done i g = g" by (auto simp: serialize_done_def split: option.split)
  then show ?thesis using g by simp
qed

lemma wire_current:
  assumes g: "wire_ok g" and b: "current_block g = Inr (h, b)"
  shows "wire_ok (h\<lparr> te_current := Some b \<rparr>)"
proof (cases "te_current g")
  case None
  obtain bs where bs: "fmlookup (te_map g) (te_pos g) = Some (b # bs)"
    and h: "h = (if bs = [] then g\<lparr> te_pos := increase_number (te_pos g) 1, te_map := fmdrop (te_pos g) (te_map g) \<rparr>
                 else g\<lparr> te_map := fmupd (te_pos g) bs (te_map g) \<rparr>)"
    using b None by (auto simp: current_block_def split: if_splits option.splits list.splits)
  let ?pos = "te_pos g"
  obtain cs where cs: "in_line ?pos (te_index g) (te_held g) cs"
      "te_sent g @ concat cs @ streams (te_packets g) = streams (te_handed g)"
    using g None by (auto simp: wire_ok_def)
  define rest where "rest = image_mset (\<lambda>(k, ps). (k, streams ps)) (held_by (\<lambda>w. w) (te_threads g)) +
     image_mset (\<lambda>(k, bs). (k, concat bs)) (fm_mset (fmdrop ?pos (te_map g)))"
  have held: "te_held g = add_mset (?pos, b @ concat bs) rest"
    using fm_mset_drop [OF bs] by (simp add: te_held_def rest_def)
  obtain cs' where cs': "cs = (b @ concat bs) # cs'" "in_line (increase_number ?pos 1) (te_index g) rest cs'"
    using in_line_next cs(1) held by metis
  show ?thesis
  proof (cases "bs = []")
    case True
    then have "te_held (h\<lparr> te_current := Some b \<rparr>) = rest" by (simp add: h te_held_def rest_def)
    then show ?thesis
      using g cs(2) cs' True unfolding wire_ok_def
      by (intro conjI exI [of _ cs']) (auto simp: h)
  next
    case False
    have "fmdrop ?pos (fmupd ?pos bs (te_map g)) = fmdrop ?pos (te_map g)" by (rule fmap_ext) simp
    then have "te_held (h\<lparr> te_current := Some b \<rparr>) = add_mset (?pos, concat bs) rest"
      using False fm_mset_drop [of "fmupd ?pos bs (te_map g)" ?pos bs] by (simp add: h te_held_def rest_def)
    then show ?thesis
      using g cs(2) cs'(1) False in_line_front(2) [of ?pos "te_index g" "b @ concat bs" rest _ cs' "concat bs"] cs(1) held
      unfolding wire_ok_def by (intro conjI exI [of _ "concat bs # cs'"]) (auto simp: h)
  qed
next
  case (Some b')
  then have "h = g" "b' = b" using b by (simp_all add: current_block_def)
  moreover have "g\<lparr> te_current := Some b \<rparr> = g" using Some \<open>b' = b\<close> by (cases g) simp
  ultimately show ?thesis using g by simp
qed

lemma wire_sync_write:
  assumes g: "wire_ok g"
  shows "wire_ok (fst (sync_write r g))"
proof (cases "current_block g")
  case (Inr x)
  obtain h b where x: "x = (h, b)" by (cases x)
  have h: "wire_ok (h\<lparr> te_current := Some b \<rparr>)" using wire_current [OF g] Inr x by simp
  have keep: "wire_ok (h\<lparr> te_sent := te_sent h @ take n b, te_blocks := m, te_current := c \<rparr>)"
    if "c = Some (drop n b) \<or> drop n b = [] \<and> c = None" for n c m
  proof -
    have "te_held (h\<lparr> te_sent := te_sent h @ take n b, te_blocks := m, te_current := c \<rparr>) = te_held (h\<lparr> te_current := Some b \<rparr>)"
      by (simp add: te_held_def)
    moreover have eq: "take n b @ (case c of None \<Rightarrow> [] | Some b \<Rightarrow> b) = b" using that by auto
    obtain cs where "in_line (te_pos h) (te_index h) (te_held (h\<lparr> te_current := Some b \<rparr>)) cs"
        "te_sent h @ b @ concat cs @ streams (te_packets h) = streams (te_handed h)"
      using h by (auto simp: wire_ok_def)
    moreover from this(2) have
      "(te_sent h @ take n b) @ (case c of None \<Rightarrow> [] | Some b \<Rightarrow> b) @ concat cs @ streams (te_packets h) = streams (te_handed h)"
      using eq by (metis append_assoc)
    ultimately show ?thesis using h unfolding wire_ok_def by (intro conjI exI [of _ cs]) simp_all
  qed
  have eq: "fst (sync_write r g) =
      (let n = (if b = [] then 0 else case r of Sent n \<Rightarrow> Suc n | _ \<Rightarrow> 0);
           h' = h\<lparr> te_sent := te_sent h @ take n b, te_current := Some (drop n b) \<rparr> in
       if drop n b = [] then (return_msg_block h')\<lparr> te_current := None \<rparr> else h')"
    by (simp add: sync_write_def Inr x Let_def split: send_result.split)
  have "wire_ok (h\<lparr> te_sent := te_sent h @ take n b, te_current := Some (drop n b) \<rparr>)" for n
    using keep [of "Some (drop n b)" n "te_blocks h"] by simp
  moreover have "wire_ok ((return_msg_block (h\<lparr> te_sent := te_sent h @ take n b, te_current := Some (drop n b) \<rparr>))\<lparr> te_current := None \<rparr>)"
    if "drop n b = []" for n
    using keep [of None n "te_blocks h"] keep [of None n "Suc (te_blocks h)"] that by (simp add: return_msg_block_def)
  ultimately show ?thesis unfolding eq Let_def by simp
qed (use g in \<open>simp add: sync_write_def\<close>)

end
