(* ===== verification/TerminalRuns.thy ===== *)
theory TerminalRuns
  imports TerminalWire "HOL-Library.Sublist"
begin

text \<open>
  Both stages together: packets are routed by many threads and handed on in the order of the scene, each terminal
  sends what it was handed, and a packet goes only to a gate through which its player entered.
\<close>

section \<open>The order of the packets\<close>

definition route_held :: "manage_terminal \<Rightarrow> (u32 \<times> packet list) multiset" where
  "route_held t = image_mset (\<lambda>(k, ds, ps). (k, map fst ds @ ps)) (held_by rt_work (mt_threads t)) +
     image_mset (\<lambda>(k, ds). (k, map fst ds)) (fm_mset (mt_map t))"

definition route_ok :: "manage_terminal \<Rightarrow> bool" where
  "route_ok t \<longleftrightarrow>
     (\<exists>cs. in_line (mt_pos t) (mt_index t) (route_held t) cs \<and>
        subseq (map fst (mt_delivered t) @ map fst (mt_current t) @ concat cs @ mt_input t) (mt_output t) \<and>
        mset (map fst (mt_delivered t) @ map fst (mt_current t) @ concat cs @ mt_input t) + mset (mt_dropped t) =
          mset (mt_output t))"

text \<open>What route_ok depends on.\<close>

definition same_routing :: "manage_terminal \<Rightarrow> manage_terminal \<Rightarrow> bool" where
  "same_routing t u \<longleftrightarrow> held_by rt_work (mt_threads u) = held_by rt_work (mt_threads t) \<and> mt_map u = mt_map t \<and>
     mt_pos u = mt_pos t \<and> mt_index u = mt_index t \<and> mt_delivered u = mt_delivered t \<and> mt_current u = mt_current t \<and>
     mt_input u = mt_input t \<and> mt_output u = mt_output t \<and> mt_dropped u = mt_dropped t"

lemma same_routing_refl [simp]: "same_routing t t"
  by (simp add: same_routing_def)

lemma route_ok_same: "same_routing t u \<Longrightarrow> route_ok u = route_ok t"
  by (simp add: same_routing_def route_ok_def route_held_def)

lemma same_routing_trans: "same_routing t u \<Longrightarrow> same_routing u v \<Longrightarrow> same_routing t v"
  by (simp add: same_routing_def)

lemma same_routing_terminal [simp]: "same_routing t (on_terminal a f u) = same_routing t u"
  by (simp add: same_routing_def on_terminal_def)

lemma same_routing_add [simp]: "same_routing t (add_route g a u) = same_routing t u"
  by (simp add: same_routing_def add_route_def held_by_map table_add_def)

lemma same_routing_remove [simp]: "same_routing t (remove_route g a u) = same_routing t u"
  by (simp add: same_routing_def remove_route_def held_by_map table_remove_def)

lemma same_routing_fields [simp]:
  "same_routing t (u\<lparr> mt_lost := l \<rparr>) = same_routing t u"
  "same_routing t (u\<lparr> mt_read := r, mt_scene := s \<rparr>) = same_routing t u"
  by (simp_all add: same_routing_def)

lemma same_routing_read: "same_routing t u \<Longrightarrow> same_routing t (sync_read ps u)"
  by (induction ps arbitrary: u) (simp_all add: Let_def)

lemma same_routing_fold: "same_routing t u \<Longrightarrow> same_routing t (fold (\<lambda>a. on_terminal a f) as u)"
  by (induction as arbitrary: u) simp_all

lemma route_held_size: "in_line p i (route_held t) cs \<Longrightarrow> length cs = outstanding rt_work (mt_threads t) (mt_map t)"
  using in_line_size [of p i "route_held t" cs] by (simp add: route_held_def size_held)

lemma set_work_threads [simp]:
  "mt_threads (set_work i w t) = (mt_threads t)[i := (mt_threads t ! i)\<lparr> rt_work := w \<rparr>]"
  "mt_map (set_work i w t) = mt_map t" "mt_pos (set_work i w t) = mt_pos t" "mt_index (set_work i w t) = mt_index t"
  "mt_delivered (set_work i w t) = mt_delivered t" "mt_current (set_work i w t) = mt_current t"
  "mt_input (set_work i w t) = mt_input t" "mt_output (set_work i w t) = mt_output t"
  "mt_dropped (set_work i w t) = mt_dropped t" "mt_terminals (set_work i w t) = mt_terminals t"
  "mt_addrs (set_work i w t) = mt_addrs t" "mt_read (set_work i w t) = mt_read t"
  by (simp_all add: set_work_def)

lemma route_output:
  assumes "route_ok t"
  shows "route_ok (scene_output p t)"
proof -
  obtain cs where cs: "in_line (mt_pos t) (mt_index t) (route_held t) cs"
      "subseq (map fst (mt_delivered t) @ map fst (mt_current t) @ concat cs @ mt_input t) (mt_output t)"
      "mset (map fst (mt_delivered t) @ map fst (mt_current t) @ concat cs @ mt_input t) + mset (mt_dropped t) = mset (mt_output t)"
    using assms by (auto simp: route_ok_def)
  have "subseq ((map fst (mt_delivered t) @ map fst (mt_current t) @ concat cs @ mt_input t) @ [p]) (mt_output t @ [p])"
    using cs(2) by (intro list_emb_append_mono) simp_all
  then show ?thesis
    using cs unfolding route_ok_def by (intro exI [of _ cs]) (auto simp: scene_output_def route_held_def)
qed

lemma route_take_ok:
  assumes t: "route_ok t" and room: "Suc (outstanding rt_work (mt_threads t) (mt_map t)) < max_ticket"
  shows "route_ok (route_take i t)"
proof (cases "i < length (mt_threads t) \<and> rt_work (mt_threads t ! i) = None \<and> mt_input t \<noteq> []")
  case True
  obtain cs where cs: "in_line (mt_pos t) (mt_index t) (route_held t) cs"
      "subseq (map fst (mt_delivered t) @ map fst (mt_current t) @ concat cs @ mt_input t) (mt_output t)"
      "mset (map fst (mt_delivered t) @ map fst (mt_current t) @ concat cs @ mt_input t) + mset (mt_dropped t) = mset (mt_output t)"
    using t by (auto simp: route_ok_def)
  let ?u = "route_take i t"
  have "route_held ?u = add_mset (mt_index t, mt_input t) (route_held t)"
    using True by (simp add: route_held_def route_take_def get_route_index_def held_by_take)
  moreover have "in_line (mt_pos t) (increase_number (mt_index t) 1) (add_mset (mt_index t, mt_input t) (route_held t))
      (cs @ [mt_input t])"
    using in_line_take [OF cs(1)] room route_held_size [OF cs(1)] by metis
  ultimately show ?thesis
    using cs(2,3) True unfolding route_ok_def
    by (intro exI [of _ "cs @ [mt_input t]"]) (simp add: route_take_def get_route_index_def)
qed (use t in \<open>auto simp: route_take_def\<close>)

lemma subseq_concat_update:
  assumes "i < length cs" "subseq c (cs ! i)"
  shows "subseq (concat (cs[i := c])) (concat cs)"
  using assms
proof (induction cs arbitrary: i)
  case (Cons d cs)
  then show ?case by (cases i) (auto intro: list_emb_append_mono)
qed simp

lemma mset_balance:
  fixes a b c d x y :: "'a multiset"
  assumes "a + x = c + y" "y + b = x + d"
  shows "a + b = c + d"
proof (rule multiset_eqI)
  fix e
  have "count (a + x) e = count (c + y) e" "count (y + b) e = count (x + d) e" using assms by simp_all
  then show "count (a + b) e = count (c + d) e" by simp
qed

text \<open>The number that a thread holds is not in the map.\<close>

lemma route_free:
  assumes t: "route_ok t" and w: "i < length (mt_threads t)" "rt_work (mt_threads t ! i) = Some (k, ds, ps)"
  shows "fmlookup (mt_map t) k = None"
proof (rule ccontr)
  let ?f = "\<lambda>(k, ds, ps). (k, map fst ds @ ps)" and ?m = "image_mset (\<lambda>(k, ds). (k, map fst ds)) (fm_mset (mt_map t))"
  obtain cs where cs: "in_line (mt_pos t) (mt_index t) (route_held t) cs" using t by (auto simp: route_ok_def)
  let ?rest = "held_by rt_work ((mt_threads t)[i := (mt_threads t ! i)\<lparr> rt_work := None \<rparr>])"
  have "held_by rt_work (mt_threads t) = add_mset (k, ds, ps) ?rest" using w by (intro held_by_done) simp_all
  then have held: "route_held t = add_mset (k, map fst ds @ ps) (image_mset ?f ?rest + ?m)" by (simp add: route_held_def)
  assume "fmlookup (mt_map t) k \<noteq> None"
  then obtain ds' where "(k, ds') \<in># fm_mset (mt_map t)" by (auto simp: fm_mset_member)
  then have "(k, map fst ds') \<in># ?m" by force
  then show False using in_line_once cs held by (metis union_iff)
qed

lemma route_work_ok:
  assumes t: "route_ok t"
  shows "route_ok (route_work i t)"
proof (cases "i < length (mt_threads t) \<and> rt_work (mt_threads t ! i) \<noteq> None")
  case True
  then obtain k ds ps where w: "i < length (mt_threads t)" "rt_work (mt_threads t ! i) = Some (k, ds, ps)" by auto
  obtain cs where cs: "in_line (mt_pos t) (mt_index t) (route_held t) cs"
      "subseq (map fst (mt_delivered t) @ map fst (mt_current t) @ concat cs @ mt_input t) (mt_output t)"
      "mset (map fst (mt_delivered t) @ map fst (mt_current t) @ concat cs @ mt_input t) + mset (mt_dropped t) = mset (mt_output t)"
    using t by (auto simp: route_ok_def)
  let ?f = "\<lambda>(k, ds, ps). (k, map fst ds @ ps)" and ?m = "image_mset (\<lambda>(k, ds). (k, map fst ds)) (fm_mset (mt_map t))"
  show ?thesis
  proof (cases ps)
    case Nil
    let ?rest = "held_by rt_work ((mt_threads t)[i := (mt_threads t ! i)\<lparr> rt_work := None \<rparr>])"
    have h: "held_by rt_work (mt_threads t) = add_mset (k, ds, []) ?rest"
      using w Nil by (intro held_by_done) simp_all
    then have held: "route_held t = add_mset (k, map fst ds) (image_mset ?f ?rest + ?m)" by (simp add: route_held_def)
    have free: "fmlookup (mt_map t) k = None" using route_free [OF t w] .
    then have "route_held (route_work i t) = route_held t"
      using w Nil by (simp add: held) (simp add: route_held_def route_work_def process_packet_route_def fm_mset_upd)
    then show ?thesis
      using cs w Nil free unfolding route_ok_def
      by (intro exI [of _ cs]) (simp add: route_work_def process_packet_route_def)
  next
    case (Cons p ps')
    have step: "route_ok u"
      if u: "mt_threads u = (mt_threads t)[i := (mt_threads t ! i)\<lparr> rt_work := Some (k, ds', ps') \<rparr>]" "mt_map u = mt_map t"
          "mt_pos u = mt_pos t" "mt_index u = mt_index t" "mt_delivered u = mt_delivered t" "mt_current u = mt_current t"
          "mt_input u = mt_input t" "mt_output u = mt_output t"
        and c: "subseq (map fst ds' @ ps') (map fst ds @ p # ps')"
          "mset (map fst ds' @ ps') + mset (mt_dropped u) = mset (map fst ds @ p # ps') + mset (mt_dropped t)" for u ds'
    proof -
      have f: "rt_work (mt_threads t ! i) = Some (k, ds, p # ps')"
          "rt_work ((mt_threads t ! i)\<lparr> rt_work := Some (k, ds', ps') \<rparr>) = Some (k, ds', ps')"
        using w(2) Cons by simp_all
      obtain h where h: "held_by rt_work (mt_threads t) = add_mset (k, ds, p # ps') h"
          "held_by rt_work (mt_threads u) = add_mset (k, ds', ps') h"
        using held_by_work [of i "mt_threads t" rt_work, OF w(1) f] unfolding u(1) by metis
      obtain j where j: "j < length cs" "cs ! j = map fst ds @ p # ps'"
          "in_line (mt_pos t) (mt_index t) (add_mset (k, map fst ds' @ ps') (image_mset ?f h + ?m)) (cs[j := map fst ds' @ ps'])"
        using in_line_work [of "mt_pos t" "mt_index t" k "map fst ds @ p # ps'" "image_mset ?f h + ?m" cs] cs(1) h(1)
        by (auto simp: route_held_def)
      let ?cs = "cs[j := map fst ds' @ ps']"
      have line: "in_line (mt_pos u) (mt_index u) (route_held u) ?cs" using j(3) h(2) u by (simp add: route_held_def)
      have "subseq (concat ?cs) (concat cs)" using subseq_concat_update [OF j(1)] c(1) j(2) by simp
      then have sub: "subseq (map fst (mt_delivered u) @ map fst (mt_current u) @ concat ?cs @ mt_input u) (mt_output u)"
        unfolding u by (intro subseq_order.trans [OF _ cs(2)] list_emb_append_mono) simp_all
      have "mset (concat ?cs) + mset (map fst ds @ p # ps') = mset (concat cs) + mset (map fst ds' @ ps')"
        using mset_concat_replace [OF j(1), of "map fst ds' @ ps'"] j(2) by simp
      then have bal: "mset (concat ?cs) + mset (mt_dropped u) = mset (concat cs) + mset (mt_dropped t)"
        using c(2) by (rule mset_balance)
      have "mset (map fst (mt_delivered u) @ map fst (mt_current u) @ concat ?cs @ mt_input u) + mset (mt_dropped u) =
          mset (map fst (mt_delivered t) @ map fst (mt_current t) @ mt_input t) + (mset (concat ?cs) + mset (mt_dropped u))"
        unfolding u by (simp add: ac_simps)
      also have "\<dots> = mset (map fst (mt_delivered t) @ map fst (mt_current t) @ concat cs @ mt_input t) + mset (mt_dropped t)"
        unfolding bal by (simp add: ac_simps)
      also have "\<dots> = mset (mt_output u)" using cs(3) u by simp
      finally have tot: "mset (map fst (mt_delivered u) @ map fst (mt_current u) @ concat ?cs @ mt_input u) + mset (mt_dropped u) =
          mset (mt_output u)" .
      show ?thesis using line sub tot unfolding route_ok_def by blast
    qed
    show ?thesis
    proof (cases "find_route i p t")
      case None
      have "subseq (map fst ds @ ps') (map fst ds @ p # ps')" by (intro list_emb_append_mono list_emb_Cons) simp_all
      with None show ?thesis
        by (intro step [of _ ds]) (use w Cons in \<open>simp_all add: route_work_def\<close>)
    next
      case (Some a)
      then show ?thesis
        by (intro step [of _ "ds @ [(p, a)]"]) (use w Cons in \<open>simp_all add: route_work_def\<close>)
    qed
  qed
next
  case False
  then have "route_work i t = t" by (auto simp: route_work_def split: option.split)
  then show ?thesis using t by simp
qed

lemma dispatch_take_ok:
  assumes t: "route_ok t"
  shows "route_ok (dispatch_take t)"
proof (cases "mt_current t = [] \<and> fmlookup (mt_map t) (mt_pos t) \<noteq> None")
  case True
  then obtain ds where ds: "mt_current t = []" "fmlookup (mt_map t) (mt_pos t) = Some ds" by auto
  obtain cs where cs: "in_line (mt_pos t) (mt_index t) (route_held t) cs"
      "subseq (map fst (mt_delivered t) @ concat cs @ mt_input t) (mt_output t)"
      "mset (map fst (mt_delivered t) @ concat cs @ mt_input t) + mset (mt_dropped t) = mset (mt_output t)"
    using t ds(1) by (auto simp: route_ok_def)
  have "route_held t = add_mset (mt_pos t, map fst ds) (route_held (dispatch_take t))"
    using fm_mset_drop [OF ds(2)] ds by (simp add: route_held_def dispatch_take_def)
  then obtain cs' where cs': "cs = map fst ds # cs'"
      "in_line (increase_number (mt_pos t) 1) (mt_index t) (route_held (dispatch_take t)) cs'"
    using in_line_next cs(1) by metis
  then show ?thesis
    using cs ds unfolding route_ok_def by (intro exI [of _ cs']) (simp add: dispatch_take_def)
qed (use t in \<open>auto simp: dispatch_take_def split: option.split\<close>)

lemma dispatch_packet_ok:
  assumes t: "route_ok t"
  shows "route_ok (dispatch_packet t)"
proof (cases "mt_current t")
  case (Cons x ds)
  obtain p a where x: "x = (p, a)" by (cases x)
  define u where "u = on_terminal a (output_packet p)
      (if packet_opcode p = smsg_player_leave_map then remove_route (packet_guid p) (p_owner p) t else t)"
  have u: "same_routing t u" by (simp add: u_def)
  then have "route_ok u" using t route_ok_same by blast
  moreover have "dispatch_packet t = u\<lparr> mt_current := ds, mt_delivered := mt_delivered u @ [(p, a)] \<rparr>"
    using u by (simp add: dispatch_packet_def Cons x u_def [symmetric] Let_def same_routing_def)
  moreover have "mt_current u = (p, a) # ds" using u Cons x by (simp add: same_routing_def)
  ultimately show ?thesis by (simp add: route_ok_def route_held_def)
qed (use t in \<open>simp add: dispatch_packet_def\<close>)

end
