(* ===== verification/TerminalCases.thy ===== *)
theory TerminalCases
  imports TerminalRuns
begin

text \<open>
  What a game server's terminals promise, in every run: order, completeness, the bytes on the connections, the gates
  that packets go to; that waiting packets go out; and what happens when a gate is lost or a player changes gates.
\<close>

section \<open>What a terminal is handed\<close>

definition no_register :: "packet \<Rightarrow> bool" where
  "no_register p \<longleftrightarrow> packet_opcode p \<noteq> gcmsg_register"

definition handed_ok :: "manage_terminal \<Rightarrow> bool" where
  "handed_ok t \<longleftrightarrow> (\<forall>a. filter no_register (te_handed (mt_terminals t a)) =
     filter no_register (map fst (filter (\<lambda>x. snd x = a) (mt_delivered t))))"

lemma handed_fields [simp]:
  "te_handed (serialize_take i g) = te_handed g" "te_handed (serialize_done i g) = te_handed g"
  by (simp_all add: serialize_take_def serialize_done_def get_message_index_def get_message_blocks_def output_buffer_def
      Let_def split: option.split)

lemma handed_write [simp]: "te_handed (fst (sync_write r g)) = te_handed g"
  by (auto simp: sync_write_def current_block_def return_msg_block_def Let_def
      split: option.splits list.splits sum.splits send_result.splits if_splits)

lemma handed_on_terminal:
  assumes "\<And>g. te_handed (f g) = te_handed g"
  shows "handed_ok (on_terminal a f t) = handed_ok t"
proof -
  have "te_handed (mt_terminals (on_terminal a f t) b) = te_handed (mt_terminals t b)" for b
    using assms by (simp add: on_terminal_def)
  then show ?thesis by (simp add: handed_ok_def on_terminal_def)
qed

lemma read_fields [simp]:
  "mt_terminals (sync_read ps t) = mt_terminals t" "mt_delivered (sync_read ps t) = mt_delivered t"
  "mt_addrs (sync_read ps t) = mt_addrs t" "mt_current (sync_read ps t) = mt_current t" "mt_map (sync_read ps t) = mt_map t"
  by (induction ps arbitrary: t) (simp_all add: Let_def add_route_def)

lemma remove_fields [simp]:
  "mt_terminals (remove_route g a t) = mt_terminals t" "mt_delivered (remove_route g a t) = mt_delivered t"
  "mt_addrs (remove_route g a t) = mt_addrs t" "mt_read (remove_route g a t) = mt_read t"
  "mt_map (remove_route g a t) = mt_map t" "mt_current (remove_route g a t) = mt_current t"
  by (simp_all add: remove_route_def)

lemma on_terminal_fields [simp]:
  "mt_delivered (on_terminal a f t) = mt_delivered t" "mt_addrs (on_terminal a f t) = mt_addrs t"
  "mt_read (on_terminal a f t) = mt_read t" "mt_threads (on_terminal a f t) = mt_threads t"
  "mt_map (on_terminal a f t) = mt_map t" "mt_current (on_terminal a f t) = mt_current t"
  by (simp_all add: on_terminal_def)

lemma handed_register: "handed_ok t \<Longrightarrow> handed_ok (fold (\<lambda>a. on_terminal a (output_packet (new_packet gcmsg_register s b))) as t)"
proof (induction as arbitrary: t)
  case (Cons a as)
  have "handed_ok (on_terminal a (output_packet (new_packet gcmsg_register s b)) t)"
    using Cons.prems
    by (simp add: handed_ok_def on_terminal_def output_packet_def no_register_def new_packet_def packet_opcode_def Let_def)
  then show ?case using Cons.IH by simp
qed simp

lemma handed_dispatch: "handed_ok t \<Longrightarrow> handed_ok (dispatch_packet t)"
  by (auto simp: handed_ok_def dispatch_packet_def on_terminal_def output_packet_def Let_def split: list.split)

section \<open>Where packets go\<close>

definition entered :: "guid \<Rightarrow> nat \<Rightarrow> packet list \<Rightarrow> bool" where
  "entered g a qs \<longleftrightarrow> (\<exists>q \<in> set qs. packet_opcode q = cmsg_player_enter_map \<and> packet_guid q = g \<and> p_owner q = a)"

definition right_gate :: "manage_terminal \<Rightarrow> packet \<Rightarrow> nat \<Rightarrow> bool" where
  "right_gate t p a \<longleftrightarrow>
     a \<in> set (mt_addrs t) \<and> (if packet_guid p = 0 then p_owner p = a else entered (packet_guid p) a (mt_read t))"

definition thread_items :: "route_thread \<Rightarrow> (packet \<times> nat) set" where
  "thread_items r = (case rt_work r of None \<Rightarrow> {} | Some (k, ds, ps) \<Rightarrow> set ds)"

definition routed_items :: "manage_terminal \<Rightarrow> (packet \<times> nat) set" where
  "routed_items t = (\<Union>r \<in> set (mt_threads t). thread_items r) \<union>
     {x. \<exists>k ds. fmlookup (mt_map t) k = Some ds \<and> x \<in> set ds} \<union> set (mt_current t) \<union> set (mt_delivered t)"

lemma thread_items_simps [simp]:
  "thread_items (table_add g a r) = thread_items r" "thread_items (table_remove g r) = thread_items r"
  "thread_items (r\<lparr> rt_work := None \<rparr>) = {}" "thread_items (r\<lparr> rt_work := Some (k, ds, ps) \<rparr>) = set ds"
  by (simp_all add: thread_items_def table_add_def table_remove_def)

definition routes_ok :: "manage_terminal \<Rightarrow> bool" where
  "routes_ok t \<longleftrightarrow>
     (\<forall>r \<in> set (mt_threads t). \<forall>g a. rt_table r g = Some a \<longrightarrow> entered g a (mt_read t)) \<and>
     (\<forall>(p, a) \<in> routed_items t. right_gate t p a) \<and> (\<forall>q \<in> set (mt_read t). p_owner q \<in> set (mt_addrs t))"

lemma routes_same:
  assumes "routes_ok t" "mt_addrs u = mt_addrs t" "mt_read u = mt_read t"
    and "\<And>r g a. r \<in> set (mt_threads u) \<Longrightarrow> rt_table r g = Some a \<Longrightarrow> entered g a (mt_read t)"
    and "\<And>p a. (p, a) \<in> routed_items u \<Longrightarrow> (p, a) \<in> routed_items t \<or> right_gate t p a"
  shows "routes_ok u"
proof -
  have "right_gate u p a = right_gate t p a" for p a using assms(2,3) by (simp add: right_gate_def)
  then show ?thesis using assms unfolding routes_ok_def by fastforce
qed

lemma routes_terminal [simp]: "routes_ok (on_terminal a f t) = routes_ok t"
  by (simp add: routes_ok_def routed_items_def right_gate_def)

lemma routes_fold_terminal [simp]: "routes_ok (fold (\<lambda>a. on_terminal a f) as t) = routes_ok t"
  by (induction as arbitrary: t) simp_all

lemma routes_remove:
  assumes t: "routes_ok t"
  shows "routes_ok (remove_route g a t)"
proof (rule routes_same [OF t])
  show "entered h b (mt_read t)" if "r \<in> set (mt_threads (remove_route g a t))" "rt_table r h = Some b" for r h b
    using that t by (auto simp: remove_route_def table_remove_def routes_ok_def split: if_splits)
  show "(p, b) \<in> routed_items t \<or> right_gate t p b" if "(p, b) \<in> routed_items (remove_route g a t)" for p b
    using that by (auto simp: routed_items_def remove_route_def)
qed simp_all

lemma routes_read_one:
  assumes t: "routes_ok t" and p: "p_owner p \<in> set (mt_addrs t)"
    and u: "u = t \<or> packet_opcode p = cmsg_player_enter_map \<and> u = add_route (packet_guid p) (p_owner p) t \<or>
      u = t\<lparr> mt_lost := True \<rparr>"
  shows "routes_ok (u\<lparr> mt_read := mt_read u @ [p], mt_scene := s \<rparr>)"
proof -
  have reads: "mt_read u = mt_read t" "mt_addrs u = mt_addrs t" using u by (auto simp: add_route_def)
  have mono: "entered g a (mt_read t @ [p])" if "entered g a (mt_read t)" for g a
    using that by (auto simp: entered_def)
  have items: "routed_items (u\<lparr> mt_read := mt_read u @ [p], mt_scene := s \<rparr>) = routed_items t"
    using u by (auto simp: routed_items_def add_route_def)
  have tables: "entered g a (mt_read t @ [p])" if "r \<in> set (mt_threads u)" "rt_table r g = Some a" for r g a
  proof (cases "\<exists>r' \<in> set (mt_threads t). rt_table r' g = Some a")
    case True
    then show ?thesis using t mono by (auto simp: routes_ok_def)
  next
    case False
    then have "packet_opcode p = cmsg_player_enter_map \<and> packet_guid p = g \<and> p_owner p = a"
      using that u by (auto simp: add_route_def table_add_def split: if_splits)
    then show ?thesis by (auto simp: entered_def)
  qed
  show ?thesis
    using t p tables items reads mono unfolding routes_ok_def right_gate_def by (auto split: if_splits)
qed

lemma routes_read:
  assumes "routes_ok t" "\<And>p. p \<in> set ps \<Longrightarrow> p_owner p \<in> set (mt_addrs t)"
  shows "routes_ok (sync_read ps t)"
  using assms
proof (induction ps arbitrary: t)
  case (Cons p ps)
  define u where "u = (if packet_opcode p = cmsg_player_enter_map then add_route (packet_guid p) (p_owner p) t
      else if packet_opcode p = smsg_lost_gate_connection then t\<lparr> mt_lost := True \<rparr> else t)"
  have "routes_ok (u\<lparr> mt_read := mt_read u @ [p], mt_scene := mt_scene u @ [p] \<rparr>)"
    using Cons.prems(2) by (intro routes_read_one [OF Cons.prems(1)]) (auto simp: u_def)
  moreover have "mt_addrs u = mt_addrs t" by (simp add: u_def add_route_def)
  ultimately show ?case
    using Cons.IH [of "u\<lparr> mt_read := mt_read u @ [p], mt_scene := mt_scene u @ [p] \<rparr>"] Cons.prems
    by (simp add: Let_def u_def [symmetric])
qed simp

lemma routes_take:
  assumes t: "routes_ok t"
  shows "routes_ok (route_take i t)"
proof (cases "i < length (mt_threads t) \<and> rt_work (mt_threads t ! i) = None \<and> mt_input t \<noteq> []")
  case True
  let ?w = "Some (mt_index t, [], mt_input t)"
  have th: "mt_threads t ! i \<in> set (mt_threads t)" using True by simp
  have r: "r \<in> set (mt_threads t) \<or> r = (mt_threads t ! i)\<lparr> rt_work := ?w \<rparr>" if "r \<in> set (mt_threads (route_take i t))" for r
    using that True set_update_subset_insert [of "mt_threads t" i] by (auto simp: route_take_def get_route_index_def)
  show ?thesis
  proof (rule routes_same [OF t])
    show "entered g a (mt_read t)" if "r \<in> set (mt_threads (route_take i t))" "rt_table r g = Some a" for r g a
      using r [OF that(1)] that(2) th t by (auto simp: routes_ok_def)
    show "(p, a) \<in> routed_items t \<or> right_gate t p a" if "(p, a) \<in> routed_items (route_take i t)" for p a
      using that r True by (fastforce simp: routed_items_def route_take_def get_route_index_def)
  qed (simp_all add: route_take_def get_route_index_def)
next
  case False
  then have "route_take i t = t" by (auto simp: route_take_def)
  then show ?thesis using t by simp
qed

lemma find_route_right:
  assumes t: "routes_ok t" and i: "i < length (mt_threads t)" and a: "find_route i p t = Some a"
  shows "right_gate t p a"
proof (cases "packet_guid p = 0")
  case False
  then have "entered (packet_guid p) a (mt_read t)"
    using t a nth_mem [OF i] by (simp add: find_route_def routes_ok_def)
  then show ?thesis using t False by (auto simp: right_gate_def routes_ok_def entered_def)
qed (use a in \<open>auto simp: right_gate_def find_route_def get_terminal_by_pointer_def split: if_splits\<close>)

lemma routes_work:
  assumes t: "routes_ok t"
  shows "routes_ok (route_work i t)"
proof (cases "i < length (mt_threads t) \<and> rt_work (mt_threads t ! i) \<noteq> None")
  case True
  then obtain k ds ps where w: "i < length (mt_threads t)" "rt_work (mt_threads t ! i) = Some (k, ds, ps)" by auto
  have th: "mt_threads t ! i \<in> set (mt_threads t)" using w(1) by simp
  have ds: "x \<in> routed_items t" if "x \<in> set ds" for x
    using th w(2) that unfolding routed_items_def by (force simp: thread_items_def)
  have step: "routes_ok u"
    if u: "mt_threads u = (mt_threads t)[i := (mt_threads t ! i)\<lparr> rt_work := w' \<rparr>]" "mt_addrs u = mt_addrs t" "mt_read u = mt_read t"
        "mt_current u = mt_current t" "mt_delivered u = mt_delivered t"
      and m: "mt_map u = mt_map t \<or> mt_map u = fmupd k ds (mt_map t)"
      and w': "\<And>k' ds' ps' x. w' = Some (k', ds', ps') \<Longrightarrow> x \<in> set ds' \<Longrightarrow> x \<in> set ds \<or> right_gate t (fst x) (snd x)" for u w'
  proof (rule routes_same [OF t u(2,3)])
    have r: "r \<in> set (mt_threads t) \<or> r = (mt_threads t ! i)\<lparr> rt_work := w' \<rparr>" if "r \<in> set (mt_threads u)" for r
      using that u(1) set_update_subset_insert [of "mt_threads t" i] by auto
    show "entered g a (mt_read t)" if "r \<in> set (mt_threads u)" "rt_table r g = Some a" for r g a
      using r [OF that(1)] that(2) t th by (auto simp: routes_ok_def)
    show "(p, a) \<in> routed_items t \<or> right_gate t p a" if x: "(p, a) \<in> routed_items u" for p a
    proof -
      consider r where "r \<in> set (mt_threads u)" "(p, a) \<in> thread_items r"
        | "\<exists>k ds. fmlookup (mt_map u) k = Some ds \<and> (p, a) \<in> set ds" | "(p, a) \<in> set (mt_current t) \<union> set (mt_delivered t)"
        using x u(4,5) unfolding routed_items_def by auto
      then show ?thesis
      proof cases
        case 1
        show ?thesis
        proof (cases "r \<in> set (mt_threads t)")
          case True
          then show ?thesis using 1 unfolding routed_items_def by blast
        next
          case False
          then obtain k' ds' ps' where "w' = Some (k', ds', ps')" "(p, a) \<in> set ds'"
            using r [OF 1(1)] 1(2) by (cases w') auto
          then show ?thesis using w' [of k' ds' ps' "(p, a)"] ds by auto
        qed
      next
        case 2
        then obtain k' ds' where d: "fmlookup (mt_map u) k' = Some ds'" "(p, a) \<in> set ds'" by auto
        then have "ds' = ds \<or> fmlookup (mt_map t) k' = Some ds'" using m by (auto split: if_splits)
        then show ?thesis using d(2) ds unfolding routed_items_def by blast
      next
        case 3
        then show ?thesis unfolding routed_items_def by blast
      qed
    qed
  qed
  show ?thesis
  proof (cases ps)
    case Nil
    show ?thesis
      by (rule step [of _ None]) (use w Nil in \<open>auto simp: route_work_def process_packet_route_def\<close>)
  next
    case (Cons p ps')
    show ?thesis
    proof (cases "find_route i p t")
      case None
      show ?thesis by (rule step [of _ "Some (k, ds, ps')"]) (use w Cons None in \<open>auto simp: route_work_def\<close>)
    next
      case (Some a)
      then show ?thesis
        using find_route_right [OF t w(1) Some] w Cons
        by (intro step [of _ "Some (k, ds @ [(p, a)], ps')"]) (auto simp: route_work_def)
    qed
  qed
next
  case False
  then have "route_work i t = t" by (auto simp: route_work_def split: option.split)
  then show ?thesis using t by simp
qed

lemma routes_dispatch_take: "routes_ok t \<Longrightarrow> routes_ok (dispatch_take t)"
  by (rule routes_same [of t]) (auto simp: dispatch_take_def routes_ok_def routed_items_def split: option.splits if_splits)

lemma routes_dispatch_packet:
  assumes "routes_ok t"
  shows "routes_ok (dispatch_packet t)"
proof (cases "mt_current t")
  case (Cons x ds)
  obtain p a where x: "x = (p, a)" by (cases x)
  define u where "u = (if packet_opcode p = smsg_player_leave_map then remove_route (packet_guid p) (p_owner p) t else t)"
  have u: "routes_ok u" "mt_current u = (p, a) # ds" using assms routes_remove Cons x by (auto simp: u_def)
  have "dispatch_packet t = (on_terminal a (output_packet p) u)\<lparr> mt_current := ds, mt_delivered := mt_delivered u @ [(p, a)] \<rparr>"
    by (simp add: dispatch_packet_def Cons x u_def [symmetric] Let_def)
  moreover have "routes_ok ((on_terminal a (output_packet p) u)\<lparr> mt_current := ds, mt_delivered := mt_delivered u @ [(p, a)] \<rparr>)"
    by (rule routes_same [OF u(1)]) (use u in \<open>auto simp: routes_ok_def routed_items_def\<close>)
  ultimately show ?thesis by simp
qed (use assms in \<open>simp add: dispatch_packet_def\<close>)

end
