(* ===== verification/TerminalLive.thy ===== *)
theory TerminalLive
  imports TerminalCases
begin

text \<open>
  Runs of a game server's terminals, and why waiting packets go out: every step of a thread on waiting work makes a
  measure of the work smaller, and as long as there is work some thread can take a step.
\<close>

section \<open>Runs\<close>

text \<open>Fewer than $2^{32} - 1$ batches are on their way at a time; gates are those that were connected.\<close>

definition terminal_allowed :: "terminal_event \<Rightarrow> manage_terminal \<Rightarrow> bool" where
  "terminal_allowed e t =
     (case e of
        Gate_reads a ps \<Rightarrow> a \<in> set (mt_addrs t)
      | Gate_read_fails a \<Rightarrow> a \<in> set (mt_addrs t)
      | Gate_writes a r \<Rightarrow> a \<in> set (mt_addrs t)
      | Route_take i \<Rightarrow> Suc (outstanding rt_work (mt_threads t) (mt_map t)) < max_ticket
      | Serialize_take a i \<Rightarrow>
          a \<in> set (mt_addrs t) \<and>
          Suc (outstanding (\<lambda>w. w) (te_threads (mt_terminals t a)) (te_map (mt_terminals t a))) < max_ticket
      | Serialize_done a i \<Rightarrow> a \<in> set (mt_addrs t)
      | _ \<Rightarrow> True)"

definition threads_ok :: "manage_terminal \<Rightarrow> bool" where
  "threads_ok t \<longleftrightarrow> mt_threads t \<noteq> [] \<and> (\<forall>a. te_threads (mt_terminals t a) \<noteq> [])"

definition terminal_inv :: "manage_terminal \<Rightarrow> bool" where
  "terminal_inv t \<longleftrightarrow>
     route_ok t \<and> (\<forall>a. wire_ok (mt_terminals t a)) \<and> handed_ok t \<and> routes_ok t \<and> threads_ok t"

lemma terminal_inv_new: "terminal_inv (new_manage_terminal addrs)"
proof -
  have "route_ok (new_manage_terminal addrs)"
    unfolding route_ok_def
    by (intro exI [of _ "[]"]) (simp add: new_manage_terminal_def route_held_def held_by_empty [THEN iffD2])
  moreover have "routes_ok (new_manage_terminal addrs)"
    by (auto simp: routes_ok_def routed_items_def new_manage_terminal_def thread_items_def)
  ultimately show ?thesis
    using wire_ok_new
    by (simp add: terminal_inv_def handed_ok_def threads_ok_def new_manage_terminal_def new_gate_terminal_def
        serialize_threads_def)
qed

lemma threads_on_terminal:
  "threads_ok t \<Longrightarrow> (\<And>g. te_threads (f g) = [] \<longleftrightarrow> te_threads g = []) \<Longrightarrow> threads_ok (on_terminal a f t)"
  by (simp add: threads_ok_def on_terminal_def)

lemma inv_on_terminal:
  assumes "terminal_inv t" "wire_ok (f (mt_terminals t a))" "\<And>g. te_handed (f g) = te_handed g"
    "\<And>g. te_threads (f g) = [] \<longleftrightarrow> te_threads g = []"
  shows "terminal_inv (on_terminal a f t)"
  using assms route_ok_same [of t "on_terminal a f t"] handed_on_terminal [of f a t] threads_on_terminal [of t f a]
  by (simp add: terminal_inv_def) (simp add: on_terminal_def)

lemma te_threads_write [simp]: "te_threads (fst (sync_write r g)) = te_threads g"
  by (auto simp: sync_write_def current_block_def return_msg_block_def Let_def
      split: option.splits list.splits sum.splits send_result.splits if_splits)

lemma te_threads_Nil [simp]:
  "te_threads (serialize_take i g) = [] \<longleftrightarrow> te_threads g = []" "te_threads (serialize_done i g) = [] \<longleftrightarrow> te_threads g = []"
  "te_threads (output_packet p g) = te_threads g"
  by (auto simp: serialize_take_def serialize_done_def get_message_index_def get_message_blocks_def output_buffer_def
      output_packet_def Let_def split: option.splits)

lemma wire_stopped [simp]: "wire_ok (g\<lparr> te_stopped := b \<rparr>) = wire_ok g"
  by (simp add: wire_ok_def te_held_def)

lemma inv_read:
  assumes t: "terminal_inv t" and p: "\<And>p. p \<in> set ps \<Longrightarrow> p_owner p \<in> set (mt_addrs t)"
  shows "terminal_inv (sync_read ps t)"
proof -
  have "mt_threads (sync_read ps t) = [] \<longleftrightarrow> mt_threads t = []"
    by (induction ps arbitrary: t) (simp_all add: Let_def add_route_def)
  then show ?thesis
    using t routes_read [OF _ p] route_ok_same [OF same_routing_read [OF same_routing_refl]]
    by (simp add: terminal_inv_def handed_ok_def threads_ok_def)
qed

lemma inv_register: "terminal_inv t \<Longrightarrow> terminal_inv (register_scene s b t)"
proof -
  assume t: "terminal_inv t"
  let ?f = "\<lambda>a. on_terminal a (output_packet (new_packet gcmsg_register s b))"
  have "\<forall>a. wire_ok (mt_terminals (fold ?f as u) a)" if "\<forall>a. wire_ok (mt_terminals u a)" for as u
    using that by (induction as arbitrary: u) (simp_all add: on_terminal_def wire_output)
  moreover have "threads_ok (fold ?f as u)" if "threads_ok u" for as u
    using that by (induction as arbitrary: u) (simp_all add: threads_on_terminal)
  ultimately show ?thesis
    using t handed_register [of t] route_ok_same [OF same_routing_fold [OF same_routing_refl]]
    by (simp add: terminal_inv_def register_scene_def)
qed

lemma inv_threads:
  assumes t: "terminal_inv t" and u: "route_ok u" "routes_ok u" "mt_terminals u = mt_terminals t"
    "mt_delivered u = mt_delivered t" "mt_threads u = [] \<longleftrightarrow> mt_threads t = []"
  shows "terminal_inv u"
  using assms by (simp add: terminal_inv_def handed_ok_def threads_ok_def)

lemma inv_write:
  assumes t: "terminal_inv t" and a: "a \<in> set (mt_addrs t)"
  shows "terminal_inv (gate_output a r t)"
proof -
  obtain g v where g: "sync_write r (mt_terminals t a) = (g, v)" by (cases "sync_write r (mt_terminals t a)")
  have wire: "wire_ok g" using wire_sync_write [of "mt_terminals t a" r] t g by (simp add: terminal_inv_def)
  have keep: "te_handed g = te_handed (mt_terminals t a)" "te_threads g = te_threads (mt_terminals t a)"
    using handed_write [of r "mt_terminals t a"] te_threads_write [of r "mt_terminals t a"] g by simp_all
  have on: "terminal_inv (on_terminal a (\<lambda>_. h) t)"
    if "wire_ok h" "te_handed h = te_handed (mt_terminals t a)" "te_threads h = te_threads (mt_terminals t a)" for h
  proof -
    have "te_handed (mt_terminals (on_terminal a (\<lambda>_. h) t) b) = te_handed (mt_terminals t b)" for b
      using that by (simp add: on_terminal_def)
    then have "handed_ok (on_terminal a (\<lambda>_. h) t)" using t by (simp add: handed_ok_def terminal_inv_def)
    then show ?thesis
      using t that route_ok_same [of t "on_terminal a (\<lambda>_. h) t"]
      by (simp add: terminal_inv_def threads_ok_def) (simp add: on_terminal_def)
  qed
  have "terminal_inv (gete_lost_connection a (on_terminal a (\<lambda>_. g\<lparr> te_stopped := True \<rparr>) t))"
    unfolding gete_lost_connection_def
    using on [of "g\<lparr> te_stopped := True \<rparr>"] wire keep a by (intro inv_read) (simp_all add: set_owner_def)
  then show ?thesis using t on [of g] wire keep g by (simp add: gate_output_def)
qed

lemma terminal_step_inv:
  assumes t: "terminal_inv t" and e: "terminal_allowed e t"
  shows "terminal_inv (terminal_step e t)"
proof (cases e)
  case (Gate_reads a ps)
  have "terminal_inv (sync_read (map (set_owner a) ps) t)"
    by (rule inv_read [OF t]) (use e Gate_reads in \<open>auto simp: terminal_allowed_def set_owner_def\<close>)
  then show ?thesis using Gate_reads by (simp add: terminal_step_def)
next
  case (Gate_read_fails a)
  have "terminal_inv (gete_lost_connection a t)"
    unfolding gete_lost_connection_def
    by (rule inv_read [OF t]) (use e Gate_read_fails in \<open>simp add: terminal_allowed_def set_owner_def\<close>)
  then show ?thesis using Gate_read_fails by (simp add: terminal_step_def)
next
  case (Registers s b)
  then show ?thesis using inv_register [OF t] by (simp add: terminal_step_def)
next
  case (Scene_sends p)
  have "routes_ok (scene_output p t)"
    by (rule routes_same [of t]) (use t in \<open>auto simp: terminal_inv_def scene_output_def routes_ok_def routed_items_def\<close>)
  then show ?thesis
    using Scene_sends t route_output [of t p] 
    by (intro inv_threads [OF t]) (simp_all add: terminal_step_def terminal_inv_def scene_output_def)
next
  case (Route_take i)
  have "mt_terminals (route_take i t) = mt_terminals t" "mt_delivered (route_take i t) = mt_delivered t"
      "mt_threads (route_take i t) = [] \<longleftrightarrow> mt_threads t = []"
    by (simp_all add: route_take_def get_route_index_def)
  then show ?thesis
    using e t route_take_ok [of t i] routes_take [of t i] Route_take
    by (intro inv_threads [OF t]) (simp_all add: terminal_step_def terminal_allowed_def terminal_inv_def)
next
  case (Route_work i)
  have "mt_terminals (route_work i t) = mt_terminals t" "mt_delivered (route_work i t) = mt_delivered t"
      "mt_threads (route_work i t) = [] \<longleftrightarrow> mt_threads t = []"
    by (simp_all add: route_work_def process_packet_route_def split: option.split list.split)
  then show ?thesis
    using t route_work_ok [of t i] routes_work [of t i] Route_work
    by (intro inv_threads [OF t]) (simp_all add: terminal_step_def terminal_inv_def)
next
  case Dispatch_take
  have "mt_terminals (dispatch_take t) = mt_terminals t" "mt_delivered (dispatch_take t) = mt_delivered t"
      "mt_threads (dispatch_take t) = mt_threads t"
    by (simp_all add: dispatch_take_def split: option.split)
  then show ?thesis
    using t dispatch_take_ok [of t] routes_dispatch_take [of t] Dispatch_take
    by (intro inv_threads [OF t]) (simp_all add: terminal_step_def terminal_inv_def)
next
  case Dispatch_packet
  have "wire_ok (mt_terminals (dispatch_packet t) a)" for a
    using t wire_output
    by (auto simp: terminal_inv_def dispatch_packet_def on_terminal_def Let_def split: list.split)
  moreover have "threads_ok (dispatch_packet t)"
    using t by (auto simp: terminal_inv_def threads_ok_def dispatch_packet_def on_terminal_def Let_def remove_route_def split: list.split)
  ultimately show ?thesis
    using t dispatch_packet_ok [of t] routes_dispatch_packet [of t] handed_dispatch [of t] Dispatch_packet
    by (simp add: terminal_step_def terminal_inv_def)
next
  case (Serialize_take a i)
  have "terminal_inv (on_terminal a (serialize_take i) t)"
    by (rule inv_on_terminal [OF t])
      (use e t wire_take [of "mt_terminals t a" i] Serialize_take in \<open>simp_all add: terminal_allowed_def terminal_inv_def\<close>)
  then show ?thesis using Serialize_take by (simp add: terminal_step_def)
next
  case (Serialize_done a i)
  then show ?thesis
    using t wire_done [of "mt_terminals t a" i] inv_on_terminal [OF t, of "serialize_done i" a]
    by (simp add: terminal_step_def terminal_inv_def)
next
  case (Gate_writes a r)
  then show ?thesis using e inv_write [OF t] by (simp add: terminal_step_def terminal_allowed_def)
qed

interpretation terminals: invariant_machine terminal_step terminal_allowed terminal_inv
  by unfold_locales (rule terminal_step_inv)

section \<open>A measure of the waiting work\<close>

definition packet_work :: "packet \<Rightarrow> nat" where
  "packet_work p = length (packet_stream p) + 3"

definition te_work :: "gate_terminal \<Rightarrow> nat" where
  "te_work g = (\<Sum>p\<leftarrow>te_packets g. packet_work p + 5) +
     (\<Sum>w\<in>#held_by (\<lambda>w. w) (te_threads g). 4 + (\<Sum>p\<leftarrow>snd w. packet_work p)) +
     (\<Sum>x\<in>#fm_mset (te_map g). \<Sum>b\<leftarrow>snd x. length b + 3) +
     (case te_current g of None \<Rightarrow> 0 | Some b \<Rightarrow> Suc (length b))"

definition route_load :: "manage_terminal \<Rightarrow> nat" where
  "route_load t = (\<Sum>p\<leftarrow>mt_input t. packet_work p + 11) +
     (\<Sum>w\<in>#held_by rt_work (mt_threads t). 2 + (\<Sum>x\<leftarrow>fst (snd w). packet_work (fst x) + 7) + (\<Sum>p\<leftarrow>snd (snd w). packet_work p + 8)) +
     (\<Sum>x\<in>#fm_mset (mt_map t). Suc (\<Sum>y\<leftarrow>snd x. packet_work (fst y) + 7)) +
     (\<Sum>x\<leftarrow>mt_current t. packet_work (fst x) + 6)"

definition terminal_load :: "manage_terminal \<Rightarrow> nat" where
  "terminal_load t = route_load t + (\<Sum>a\<in>set (mt_addrs t). te_work (mt_terminals t a))"

lemma serialize_work:
  "(\<Sum>b\<leftarrow>serialize_packets b ps. length b + 3) \<le> length b + 3 + (\<Sum>p\<leftarrow>ps. packet_work p)"
proof (induction ps arbitrary: b)
  case (Cons p ps)
  have copy: "length (block_copy b p) \<le> length b + length (packet_stream p)" for b by (simp add: block_copy_def)
  show ?case
    using Cons [of "block_copy [] p"] Cons [of "block_copy b p"] copy [of "[]"] copy [of b]
    by (cases "block_length - length b < unat (stream_size p)") (simp_all add: packet_work_def [of p])
qed simp

lemma sum_list_more: "xs \<noteq> [] \<Longrightarrow> (\<Sum>x\<leftarrow>xs. f x) + k \<le> (\<Sum>x\<leftarrow>xs. f x + (k :: nat))"
  by (cases xs) (simp_all add: sum_list_addf)

lemma serialize_take_work:
  assumes "i < length (te_threads g)" "te_threads g ! i = None" "te_packets g \<noteq> []"
  shows "te_work (serialize_take i g) < te_work g"
  using assms sum_list_more [of "te_packets g" packet_work 5]
  by (simp add: te_work_def serialize_take_def get_message_index_def held_by_take)

lemma serialize_done_work:
  assumes "i < length (te_threads g)" "te_threads g ! i = Some (k, ps)" "fmlookup (te_map g) k = None"
  shows "te_work (serialize_done i g) < te_work g"
proof -
  have "held_by (\<lambda>w. w) (te_threads g) = add_mset (k, ps) (held_by (\<lambda>w. w) ((te_threads g)[i := None]))"
    using assms(1,2) held_by_done [of i "te_threads g" "\<lambda>w. w"] by simp
  then show ?thesis
    using assms serialize_work [of "[]" ps]
    by (simp add: te_work_def serialize_done_def get_message_blocks_def output_buffer_def Let_def fm_mset_upd)
qed

lemma current_block_work:
  assumes "current_block g = Inr (h, b)"
  shows "te_work (h\<lparr> te_current := Some b \<rparr>) \<le> te_work g" "te_stopped h = te_stopped g"
proof -
  show "te_stopped h = te_stopped g"
    using assms by (auto simp: current_block_def split: option.splits if_splits list.splits)
  show "te_work (h\<lparr> te_current := Some b \<rparr>) \<le> te_work g"
  proof (cases "te_current g")
    case None
    obtain bs where bs: "fmlookup (te_map g) (te_pos g) = Some (b # bs)"
      and h: "h = (if bs = [] then g\<lparr> te_pos := increase_number (te_pos g) 1, te_map := fmdrop (te_pos g) (te_map g) \<rparr>
                   else g\<lparr> te_map := fmupd (te_pos g) bs (te_map g) \<rparr>)"
      using assms None by (auto simp: current_block_def split: if_splits option.splits list.splits)
    let ?pos = "te_pos g"
    have "fmdrop ?pos (fmupd ?pos bs (te_map g)) = fmdrop ?pos (te_map g)" by (rule fmap_ext) simp
    then have "fm_mset (fmupd ?pos bs (te_map g)) = add_mset (?pos, bs) (fm_mset (fmdrop ?pos (te_map g)))"
      using fm_mset_drop [of "fmupd ?pos bs (te_map g)" ?pos bs] by simp
    then show ?thesis using fm_mset_drop [OF bs] None by (auto simp: h te_work_def)
  next
    case (Some b')
    then have "h = g" "b' = b" using assms by (simp_all add: current_block_def)
    moreover have "g\<lparr> te_current := Some b \<rparr> = g" using Some \<open>b' = b\<close> by (cases g) simp
    ultimately show ?thesis by simp
  qed
qed

lemma sync_write_work:
  assumes "current_block g = Inr (h, b)"
  shows "te_work (fst (sync_write (Sent n) g)) < te_work g" "snd (sync_write (Sent n) g) = 0"
    "te_stopped (fst (sync_write (Sent n) g)) = te_stopped g"
proof -
  let ?n = "if b = [] then 0 else Suc n"
  have eq: "fst (sync_write (Sent n) g) =
      (let h' = h\<lparr> te_sent := te_sent h @ take ?n b, te_current := Some (drop ?n b) \<rparr> in
       if drop ?n b = [] then (return_msg_block h')\<lparr> te_current := None \<rparr> else h')"
    by (simp add: sync_write_def assms Let_def)
  have le: "te_work (h\<lparr> te_current := Some b \<rparr>) \<le> te_work g" by (rule current_block_work(1) [OF assms])
  show "te_work (fst (sync_write (Sent n) g)) < te_work g"
  proof (cases "drop ?n b = []")
    case True
    have "te_work ((return_msg_block (h\<lparr> te_sent := s, te_current := c \<rparr>))\<lparr> te_current := None \<rparr>) <
        te_work (h\<lparr> te_current := Some b \<rparr>)" for s c
      by (simp add: te_work_def return_msg_block_def)
    with le show ?thesis unfolding eq Let_def if_P [OF True] by (blast intro: order_less_le_trans)
  next
    case False
    then have "length (drop ?n b) < length b" by (cases "b = []") simp_all
    then have "te_work (h\<lparr> te_sent := s, te_current := Some (drop ?n b) \<rparr>) < te_work (h\<lparr> te_current := Some b \<rparr>)" for s
      unfolding te_work_def by (simp del: length_drop)
    with le show ?thesis unfolding eq Let_def if_not_P [OF False] by (blast intro: order_less_le_trans)
  qed
  show "snd (sync_write (Sent n) g) = 0" by (simp add: sync_write_def assms Let_def)
  show "te_stopped (fst (sync_write (Sent n) g)) = te_stopped g"
    using current_block_work(2) [OF assms] by (simp add: sync_write_def assms return_msg_block_def Let_def)
qed

end
