(* ===== verification/TerminalDrain.thy ===== *)
theory TerminalDrain
  imports TerminalLive
begin

text \<open>
  Waiting packets go out: the steps of the threads on waiting work, while the connections take bytes, make the
  measure of the work smaller, and as long as something waits one of them can be taken.
\<close>

section \<open>Steps of the threads\<close>

definition internal :: "terminal_event \<Rightarrow> bool" where
  "internal e =
     (case e of
        Route_take i \<Rightarrow> True
      | Route_work i \<Rightarrow> True
      | Dispatch_take \<Rightarrow> True
      | Dispatch_packet \<Rightarrow> True
      | Serialize_take a i \<Rightarrow> True
      | Serialize_done a i \<Rightarrow> True
      | Gate_writes a (Sent n) \<Rightarrow> True
      | _ \<Rightarrow> False)"

definition works :: "terminal_event \<Rightarrow> manage_terminal \<Rightarrow> bool" where
  "works e t \<longleftrightarrow> internal e \<and> terminal_allowed e t \<and> terminal_step e t \<noteq> t"

definition route_rest :: "manage_terminal \<Rightarrow> bool" where
  "route_rest t \<longleftrightarrow> mt_input t = [] \<and> list_all (\<lambda>r. rt_work r = None) (mt_threads t) \<and> mt_map t = fmempty \<and> mt_current t = []"

definition gate_rest :: "gate_terminal \<Rightarrow> bool" where
  "gate_rest g \<longleftrightarrow> te_packets g = [] \<and> list_all (\<lambda>w. w = None) (te_threads g) \<and> te_map g = fmempty \<and> te_current g = None"

definition at_rest :: "manage_terminal \<Rightarrow> bool" where
  "at_rest t \<longleftrightarrow> route_rest t \<and> list_all (\<lambda>a. gate_rest (mt_terminals t a)) (mt_addrs t)"

definition none_stopped :: "manage_terminal \<Rightarrow> bool" where
  "none_stopped t \<longleftrightarrow> list_all (\<lambda>a. \<not> te_stopped (mt_terminals t a)) (mt_addrs t)"

section \<open>The work gets less\<close>

lemma route_load_terminal [simp]: "route_load (on_terminal a f t) = route_load t"
  by (simp add: route_load_def on_terminal_def)

lemma load_on_terminal:
  assumes "a \<in> set (mt_addrs t)"
  shows "terminal_load (on_terminal a f t) + te_work (mt_terminals t a) = terminal_load t + te_work (f (mt_terminals t a))"
proof -
  have "(\<Sum>b\<in>set (mt_addrs t). te_work (mt_terminals (on_terminal a f t) b)) + te_work (mt_terminals t a) =
      (\<Sum>b\<in>set (mt_addrs t). te_work (mt_terminals t b)) + te_work (f (mt_terminals t a))"
    using assms by (simp add: sum.remove on_terminal_def)
  then show ?thesis by (simp add: terminal_load_def)
qed

lemma load_on_terminal_less:
  "a \<in> set (mt_addrs t) \<Longrightarrow> te_work (f (mt_terminals t a)) < te_work (mt_terminals t a) \<Longrightarrow>
    terminal_load (on_terminal a f t) < terminal_load t"
  using load_on_terminal [of a t f] by simp

lemma load_route_less:
  "route_load u < route_load t \<Longrightarrow> mt_addrs u = mt_addrs t \<Longrightarrow> mt_terminals u = mt_terminals t \<Longrightarrow>
    terminal_load u < terminal_load t"
  by (simp add: terminal_load_def)

lemma route_take_load:
  assumes "i < length (mt_threads t)" "rt_work (mt_threads t ! i) = None" "mt_input t \<noteq> []"
  shows "terminal_load (route_take i t) < terminal_load t"
proof (rule load_route_less)
  show "route_load (route_take i t) < route_load t"
    using assms sum_list_more [of "mt_input t" "\<lambda>p. packet_work p + 8" 3]
    by (simp add: route_load_def route_take_def get_route_index_def held_by_take add.commute [of 11])
qed (simp_all add: route_take_def get_route_index_def)

lemma route_work_load:
  assumes t: "route_ok t" and i: "i < length (mt_threads t)" and w: "rt_work (mt_threads t ! i) = Some (k, ds, ps)"
  shows "terminal_load (route_work i t) < terminal_load t"
proof (rule load_route_less)
  show "route_load (route_work i t) < route_load t"
  proof (cases ps)
    case Nil
    have "held_by rt_work (mt_threads t) =
        add_mset (k, ds, ps) (held_by rt_work ((mt_threads t)[i := (mt_threads t ! i)\<lparr> rt_work := None \<rparr>]))"
      using i w by (intro held_by_done) simp_all
    then show ?thesis
      using i w Nil route_free [OF t i w] by (simp add: route_load_def route_work_def process_packet_route_def fm_mset_upd)
  next
    case (Cons p ps')
    have step: "route_load u < route_load t"
      if u: "mt_threads u = (mt_threads t)[i := (mt_threads t ! i)\<lparr> rt_work := Some (k, ds', ps') \<rparr>]" "mt_map u = mt_map t"
          "mt_current u = mt_current t" "mt_input u = mt_input t"
        and c: "ds' = ds \<or> ds' = ds @ [(p, a)]" for u ds' a
    proof -
      have f: "rt_work (mt_threads t ! i) = Some (k, ds, p # ps')"
          "rt_work ((mt_threads t ! i)\<lparr> rt_work := Some (k, ds', ps') \<rparr>) = Some (k, ds', ps')"
        using w Cons by simp_all
      obtain h where "held_by rt_work (mt_threads t) = add_mset (k, ds, p # ps') h"
          "held_by rt_work (mt_threads u) = add_mset (k, ds', ps') h"
        using held_by_work [of i "mt_threads t" rt_work, OF i f] unfolding u(1) by metis
      then show ?thesis using c u by (auto simp: route_load_def)
    qed
    show ?thesis
      by (cases "find_route i p t")
        (use i w Cons in \<open>auto simp: route_work_def intro: step [of _ ds 0] step [where ds' = "ds @ [(p, _)]"]\<close>)
  qed
qed (use i w in \<open>simp_all add: route_work_def process_packet_route_def split: list.split option.split\<close>)

lemma dispatch_take_load:
  assumes "mt_current t = []" "fmlookup (mt_map t) (mt_pos t) = Some ds"
  shows "terminal_load (dispatch_take t) < terminal_load t"
proof (rule load_route_less)
  have "(\<Sum>x\<leftarrow>ds. packet_work (fst x) + 6) \<le> (\<Sum>x\<leftarrow>ds. packet_work (fst x) + 7)" by (rule sum_list_mono) simp
  then show "route_load (dispatch_take t) < route_load t"
    using assms fm_mset_drop [OF assms(2)] by (simp add: route_load_def dispatch_take_def)
qed (use assms in \<open>simp_all add: dispatch_take_def\<close>)

lemma route_load_remove [simp]: "route_load (remove_route g a t) = route_load t"
  by (simp add: route_load_def remove_route_def held_by_map table_remove_def)

lemma te_work_output: "te_work (output_packet p g) = te_work g + packet_work p + 5"
  by (simp add: te_work_def output_packet_def)

lemma dispatch_packet_load:
  assumes t: "routes_ok t" and c: "mt_current t = (p, a) # ds"
  shows "terminal_load (dispatch_packet t) < terminal_load t"
proof -
  define u where "u = (if packet_opcode p = smsg_player_leave_map then remove_route (packet_guid p) (p_owner p) t else t)"
  have u: "route_load u = route_load t" "mt_current u = (p, a) # ds" "mt_addrs u = mt_addrs t" "mt_terminals u = mt_terminals t"
    using c by (simp_all add: u_def)
  then have load: "terminal_load u = terminal_load t" by (simp add: terminal_load_def)
  have "(p, a) \<in> routed_items t" using c by (simp add: routed_items_def)
  then have "a \<in> set (mt_addrs u)" using t u(3) by (auto simp: routes_ok_def right_gate_def)
  then have "terminal_load (on_terminal a (output_packet p) u) = terminal_load u + packet_work p + 5"
    using load_on_terminal [of a u "output_packet p"] by (simp add: te_work_output)
  moreover have "terminal_load (dispatch_packet t) + packet_work p + 6 = terminal_load (on_terminal a (output_packet p) u)"
    using u(2) by (simp add: dispatch_packet_def c u_def [symmetric] Let_def terminal_load_def route_load_def on_terminal_def)
  ultimately show ?thesis using load by simp
qed

lemma gate_writes_load:
  assumes a: "a \<in> set (mt_addrs t)" "\<not> te_stopped (mt_terminals t a)" and b: "current_block (mt_terminals t a) = Inr x"
  shows "terminal_load (gate_output a (Sent n) t) < terminal_load t"
proof -
  obtain h b where x: "x = (h, b)" by (cases x)
  obtain g v where g: "sync_write (Sent n) (mt_terminals t a) = (g, v)" by (cases "sync_write (Sent n) (mt_terminals t a)")
  have w: "te_work g < te_work (mt_terminals t a)" "v = 0"
    using sync_write_work(1,2) [of "mt_terminals t a" h b n] b x g by simp_all
  then have "gate_output a (Sent n) t = on_terminal a (\<lambda>_. g) t" using a(2) g by (simp add: gate_output_def)
  then show ?thesis using load_on_terminal_less [of a t "\<lambda>_. g"] a(1) w(1) by simp
qed

lemma on_terminal_same: "f (mt_terminals t a) = mt_terminals t a \<Longrightarrow> on_terminal a f t = t"
  by (simp add: on_terminal_def)

text \<open>A step that changes anything does work.\<close>

lemma works_less:
  assumes t: "terminal_inv t" and e: "works e t"
  shows "terminal_load (terminal_step e t) < terminal_load t"
proof (cases e)
  case (Route_take i)
  then have "i < length (mt_threads t) \<and> rt_work (mt_threads t ! i) = None \<and> mt_input t \<noteq> []"
    using e by (auto simp: works_def terminal_step_def route_take_def split: if_splits)
  then show ?thesis using Route_take route_take_load by (simp add: terminal_step_def)
next
  case (Route_work i)
  then obtain k ds ps where "i < length (mt_threads t)" "rt_work (mt_threads t ! i) = Some (k, ds, ps)"
    using e by (auto simp: works_def terminal_step_def route_work_def split: if_splits option.splits)
  then show ?thesis using Route_work t route_work_load by (simp add: terminal_step_def terminal_inv_def)
next
  case Dispatch_take
  then obtain ds where "mt_current t = []" "fmlookup (mt_map t) (mt_pos t) = Some ds"
    using e by (auto simp: works_def terminal_step_def dispatch_take_def split: if_splits option.splits)
  then show ?thesis using Dispatch_take dispatch_take_load by (simp add: terminal_step_def)
next
  case Dispatch_packet
  then obtain p a ds where "mt_current t = (p, a) # ds"
    using e by (auto simp: works_def terminal_step_def dispatch_packet_def split: list.splits)
  then show ?thesis using Dispatch_packet t dispatch_packet_load by (simp add: terminal_step_def terminal_inv_def)
next
  case (Serialize_take a i)
  let ?g = "mt_terminals t a"
  have "serialize_take i ?g \<noteq> ?g"
    using e Serialize_take on_terminal_same by (auto simp: works_def terminal_step_def)
  then have "i < length (te_threads ?g) \<and> te_threads ?g ! i = None \<and> te_packets ?g \<noteq> []"
    by (auto simp: serialize_take_def split: if_splits)
  then have "te_work (serialize_take i ?g) < te_work ?g" using serialize_take_work by blast
  then show ?thesis
    using Serialize_take e by (simp add: terminal_step_def load_on_terminal_less works_def terminal_allowed_def)
next
  case (Serialize_done a i)
  let ?g = "mt_terminals t a"
  have "serialize_done i ?g \<noteq> ?g"
    using e Serialize_done on_terminal_same by (auto simp: works_def terminal_step_def)
  then obtain k ps where w: "i < length (te_threads ?g)" "te_threads ?g ! i = Some (k, ps)"
    by (auto simp: serialize_done_def split: if_splits option.splits)
  then have "te_work (serialize_done i ?g) < te_work ?g"
    using t by (intro serialize_done_work [OF w wire_free [OF _ w]]) (simp add: terminal_inv_def)
  then show ?thesis
    using Serialize_done e by (simp add: terminal_step_def load_on_terminal_less works_def terminal_allowed_def)
next
  case (Gate_writes a r)
  then obtain n where r: "r = Sent n" using e by (auto simp: works_def internal_def split: send_result.splits)
  let ?g = "mt_terminals t a"
  have s: "\<not> te_stopped ?g" and a: "a \<in> set (mt_addrs t)"
    using e Gate_writes by (auto simp: works_def terminal_step_def gate_output_def terminal_allowed_def)
  have "current_block ?g \<noteq> Inl v" for v
  proof
    assume "current_block ?g = Inl v"
    then have "sync_write r ?g = (?g, v)" "v \<noteq> - 1"
      by (auto simp: sync_write_def current_block_def split: option.splits list.splits if_splits)
    then have "gate_output a r t = t" using s on_terminal_same by (simp add: gate_output_def)
    then show False using e Gate_writes by (simp add: works_def terminal_step_def)
  qed
  then obtain x where "current_block ?g = Inr x" by (cases "current_block ?g") auto
  then show ?thesis using Gate_writes r a s gate_writes_load by (simp add: terminal_step_def)
qed (use e in \<open>simp_all add: works_def internal_def\<close>)

section \<open>Some thread can work\<close>

lemma route_progress:
  assumes t: "terminal_inv t" and r: "\<not> route_rest t"
  shows "\<exists>e. internal e \<and> terminal_allowed e t \<and> terminal_load (terminal_step e t) < terminal_load t"
proof -
  have ok: "route_ok t" "routes_ok t" "mt_threads t \<noteq> []" using t by (simp_all add: terminal_inv_def threads_ok_def)
  consider i k ds ps where "i < length (mt_threads t)" "rt_work (mt_threads t ! i) = Some (k, ds, ps)"
    | p a ds where "mt_current t = (p, a) # ds"
    | "mt_current t = []" "mt_map t \<noteq> fmempty" "held_by rt_work (mt_threads t) = {#}"
    | "mt_map t = fmempty" "held_by rt_work (mt_threads t) = {#}" "mt_input t \<noteq> []"
  proof (cases "held_by rt_work (mt_threads t) = {#}")
    case True
    then show thesis using that r by (cases "mt_current t") (auto simp: route_rest_def list_all_iff held_by_empty)
  next
    case False
    then show thesis using that(1) by (elim held_by_busy) auto
  qed
  then show ?thesis
  proof cases
    case 1
    then show ?thesis using route_work_load [OF ok(1)]
      by (intro exI [of _ "Route_work i"]) (simp add: internal_def terminal_allowed_def terminal_step_def)
  next
    case 2
    then show ?thesis using dispatch_packet_load [OF ok(2)]
      by (intro exI [of _ Dispatch_packet]) (simp add: internal_def terminal_allowed_def terminal_step_def)
  next
    case 3
    obtain cs where cs: "in_line (mt_pos t) (mt_index t) (route_held t) cs" using ok(1) by (auto simp: route_ok_def)
    have held: "route_held t = image_mset (\<lambda>(k, ds). (k, map fst ds)) (fm_mset (mt_map t))"
      using 3(3) by (simp add: route_held_def)
    moreover have "route_held t \<noteq> {#}" using 3(2) by (simp add: held)
    then obtain c h where "route_held t = add_mset (mt_pos t, c) h" using in_line_first [OF cs] by blast
    ultimately have "(mt_pos t, c) \<in># image_mset (\<lambda>(k, ds). (k, map fst ds)) (fm_mset (mt_map t))"
      by (metis union_single_eq_member)
    then obtain ds where "fmlookup (mt_map t) (mt_pos t) = Some ds" by (auto simp: fm_mset_member)
    then show ?thesis using dispatch_take_load 3(1)
      by (intro exI [of _ Dispatch_take]) (simp add: internal_def terminal_allowed_def terminal_step_def)
  next
    case 4
    have "rt_work (mt_threads t ! 0) = None" using 4(2) ok(3) by (simp add: held_by_empty)
    moreover have "outstanding rt_work (mt_threads t) (mt_map t) = 0"
      using size_held [of rt_work "mt_threads t" "mt_map t"] 4 by simp
    ultimately show ?thesis using route_take_load [of 0 t] 4 ok(3)
      by (intro exI [of _ "Route_take 0"]) (simp add: internal_def terminal_allowed_def terminal_step_def)
  qed
qed

lemma gate_progress:
  assumes t: "terminal_inv t" and a: "a \<in> set (mt_addrs t)" and s: "\<not> te_stopped (mt_terminals t a)"
    and r: "\<not> gate_rest (mt_terminals t a)"
  shows "\<exists>e. internal e \<and> terminal_allowed e t \<and> terminal_load (terminal_step e t) < terminal_load t"
proof -
  let ?g = "mt_terminals t a"
  have ok: "wire_ok ?g" "te_threads ?g \<noteq> []" using t by (simp_all add: terminal_inv_def threads_ok_def)
  consider i k ps where "i < length (te_threads ?g)" "te_threads ?g ! i = Some (k, ps)"
    | b where "te_current ?g = Some b"
    | "te_current ?g = None" "te_map ?g \<noteq> fmempty" "held_by (\<lambda>w. w) (te_threads ?g) = {#}"
    | "te_map ?g = fmempty" "held_by (\<lambda>w. w) (te_threads ?g) = {#}" "te_packets ?g \<noteq> []"
  proof (cases "held_by (\<lambda>w. w) (te_threads ?g) = {#}")
    case True
    then show thesis using that r by (cases "te_current ?g") (auto simp: gate_rest_def list_all_iff held_by_empty)
  next
    case False
    then show thesis using that(1) by (elim held_by_busy) auto
  qed
  then show ?thesis
  proof cases
    case 1
    then show ?thesis
      using load_on_terminal_less [OF a, of "serialize_done i"] serialize_done_work [OF 1 wire_free [OF ok(1) 1]] a
      by (intro exI [of _ "Serialize_done a i"]) (simp add: internal_def terminal_allowed_def terminal_step_def)
  next
    case 2
    then have "current_block ?g = Inr (?g, b)" by (simp add: current_block_def)
    then show ?thesis using gate_writes_load [OF a s] a
      by (intro exI [of _ "Gate_writes a (Sent 0)"]) (simp add: internal_def terminal_allowed_def terminal_step_def)
  next
    case 3
    obtain cs where cs: "in_line (te_pos ?g) (te_index ?g) (te_held ?g) cs" using ok(1) by (auto simp: wire_ok_def)
    have held: "te_held ?g = image_mset (\<lambda>(k, bs). (k, concat bs)) (fm_mset (te_map ?g))"
      using 3(3) by (simp add: te_held_def)
    moreover have "te_held ?g \<noteq> {#}" using 3(2) by (simp add: held)
    then obtain c h where "te_held ?g = add_mset (te_pos ?g, c) h" using in_line_first [OF cs] by blast
    ultimately have "(te_pos ?g, c) \<in># image_mset (\<lambda>(k, bs). (k, concat bs)) (fm_mset (te_map ?g))"
      by (metis union_single_eq_member)
    then obtain bs where bs: "fmlookup (te_map ?g) (te_pos ?g) = Some bs" by (auto simp: fm_mset_member)
    then obtain x where "current_block ?g = Inr x"
      using ok(1) 3 by (cases bs) (auto simp: wire_ok_def current_block_def)
    then show ?thesis using gate_writes_load [OF a s] a
      by (intro exI [of _ "Gate_writes a (Sent 0)"]) (simp add: internal_def terminal_allowed_def terminal_step_def)
  next
    case 4
    have "te_threads ?g ! 0 = None" using 4(2) ok(2) by (simp add: held_by_empty)
    moreover have "outstanding (\<lambda>w. w) (te_threads ?g) (te_map ?g) = 0"
      using size_held [of "\<lambda>w. w" "te_threads ?g" "te_map ?g"] 4 by simp
    ultimately show ?thesis
      using serialize_take_work [of 0 ?g] load_on_terminal_less [OF a, of "serialize_take 0"] 4 ok(2) a
      by (intro exI [of _ "Serialize_take a 0"]) (simp add: internal_def terminal_allowed_def terminal_step_def)
  qed
qed

lemma works_progress:
  assumes "terminal_inv t" "none_stopped t" "\<not> at_rest t"
  shows "\<exists>e. works e t"
proof -
  obtain e where "internal e" "terminal_allowed e t" "terminal_load (terminal_step e t) < terminal_load t"
    using assms route_progress gate_progress unfolding at_rest_def none_stopped_def list_all_iff by blast
  then show ?thesis unfolding works_def by (metis less_irrefl)
qed

end
