(* ===== verification/TerminalClaims.thy ===== *)
theory TerminalClaims
  imports TerminalDrain
begin

text \<open>
  What a game server's terminals promise, in every run: order, completeness, the bytes on the connections, the gates
  that packets go to; that waiting packets go out; and what happens when a gate is lost or a player changes gates.
\<close>

section \<open>Runs of the threads\<close>

lemma terminals_run:
  "all_allowed terminal_step terminal_allowed es (new_manage_terminal addrs) \<Longrightarrow>
    terminal_inv (run_events terminal_step es (new_manage_terminal addrs))"
  using terminals.run_keeps terminal_inv_new by blast

lemma internal_addrs: "internal e \<Longrightarrow> mt_addrs (terminal_step e t) = mt_addrs t"
  by (auto simp: internal_def terminal_step_def route_take_def get_route_index_def route_work_def process_packet_route_def
      dispatch_take_def dispatch_packet_def gate_output_def gete_lost_connection_def add_route_def Let_def
      split: terminal_event.splits send_result.splits option.splits list.splits prod.splits)

lemma stopped_fields [simp]:
  "te_stopped (serialize_take i g) = te_stopped g" "te_stopped (serialize_done i g) = te_stopped g"
  "te_stopped (output_packet p g) = te_stopped g"
  by (auto simp: serialize_take_def serialize_done_def get_message_index_def get_message_blocks_def output_buffer_def
      output_packet_def Let_def split: option.split)

lemma stopped_write: "te_stopped (fst (sync_write r g)) = te_stopped g"
  by (auto simp: sync_write_def current_block_def return_msg_block_def Let_def
      split: option.splits list.splits sum.splits send_result.splits if_splits)

lemma sent_not_failed: "snd (sync_write (Sent n) g) \<noteq> - 1"
  by (auto simp: sync_write_def current_block_def Let_def split: option.splits list.splits sum.splits if_splits)

lemma stopped_on_terminal:
  "(\<And>g. te_stopped (f g) = te_stopped g) \<Longrightarrow> te_stopped (mt_terminals (on_terminal a f t) b) = te_stopped (mt_terminals t b)"
  by (simp add: on_terminal_def)

lemma internal_stopped: "internal e \<Longrightarrow> te_stopped (mt_terminals (terminal_step e t) b) = te_stopped (mt_terminals t b)"
proof (cases e)
  case (Gate_writes a r)
  assume "internal e"
  then obtain n where r: "r = Sent n" using Gate_writes by (auto simp: internal_def split: send_result.splits)
  obtain g v where "sync_write r (mt_terminals t a) = (g, v)" by (cases "sync_write r (mt_terminals t a)")
  then show ?thesis
    using Gate_writes r sent_not_failed [of n "mt_terminals t a"] stopped_write [of r "mt_terminals t a"]
    by (simp add: terminal_step_def gate_output_def on_terminal_def)
next
  case Dispatch_packet
  then show ?thesis by (simp add: terminal_step_def dispatch_packet_def on_terminal_def Let_def split: list.split prod.split)
qed (auto simp: internal_def terminal_step_def route_take_def get_route_index_def route_work_def process_packet_route_def
    dispatch_take_def on_terminal_def Let_def split: option.split list.split)

lemma works_keep:
  assumes "terminal_inv t" "none_stopped t" "works e t"
  shows "terminal_inv (terminal_step e t)" "none_stopped (terminal_step e t)"
  using assms terminal_step_inv internal_addrs [of e t] internal_stopped [of e t]
  by (simp_all add: works_def none_stopped_def)

lemma works_run:
  assumes "terminal_inv t" "none_stopped t" "all_allowed terminal_step works fs t"
  shows "terminal_inv (run_events terminal_step fs t)" "none_stopped (run_events terminal_step fs t)"
    "length fs + terminal_load (run_events terminal_step fs t) \<le> terminal_load t"
  using assms
proof (induction fs arbitrary: t)
  case (Cons e fs)
  { case 1 then show ?case using Cons.IH works_keep by simp }
  { case 2 then show ?case using Cons.IH works_keep by simp }
  { case 3 then show ?case using Cons.IH(3) [of "terminal_step e t"] works_keep [of t e] works_less [of t e] by simp }
qed simp_all

lemma works_to_rest:
  assumes "terminal_inv t" "none_stopped t"
  shows "\<exists>fs. all_allowed terminal_step works fs t \<and> at_rest (run_events terminal_step fs t)"
  using assms
proof (induction "terminal_load t" arbitrary: t rule: less_induct)
  case less
  show ?case
  proof (cases "at_rest t")
    case True
    then show ?thesis by (intro exI [of _ "[]"]) simp
  next
    case False
    then obtain e where e: "works e t" using works_progress less.prems by blast
    then obtain fs where "all_allowed terminal_step works fs (terminal_step e t)"
        "at_rest (run_events terminal_step fs (terminal_step e t))"
      using less.hyps [OF works_less] works_keep less.prems by blast
    then show ?thesis using e by (intro exI [of _ "e # fs"]) simp
  qed
qed

lemma all_allowed_snoc:
  "all_allowed step allowed (es @ [e]) s \<longleftrightarrow> all_allowed step allowed es s \<and> allowed e (run_events step es s)"
  by (induction es arbitrary: s) simp_all

section \<open>What is read and routed after a loss\<close>

lemma scene_stays:
  assumes "mt_lost t"
  shows "mt_lost (terminal_step e t)" "mt_scene (terminal_step e t) = mt_scene t"
proof -
  have read: "sync_read ps u = u" if "mt_lost u" for ps u using that by (cases ps) simp_all
  have reg: "mt_lost (fold (\<lambda>a. on_terminal a f) as u) = mt_lost u"
      "mt_scene (fold (\<lambda>a. on_terminal a f) as u) = mt_scene u" for f as u
    by (induction as arbitrary: u) (simp_all add: on_terminal_def)
  show "mt_lost (terminal_step e t)" "mt_scene (terminal_step e t) = mt_scene t"
    using assms
    by (cases e; simp add: terminal_step_def gete_lost_connection_def read reg register_scene_def scene_output_def
        route_take_def get_route_index_def route_work_def process_packet_route_def set_work_def dispatch_take_def
        dispatch_packet_def remove_route_def on_terminal_def gate_output_def Let_def
        split: option.split list.split prod.split)+
qed

lemma scene_stays_run: "mt_lost t \<Longrightarrow> mt_scene (run_events terminal_step es t) = mt_scene t"
  by (induction es arbitrary: t) (simp_all add: scene_stays)

definition enters :: "guid \<Rightarrow> terminal_event \<Rightarrow> bool" where
  "enters g e = (case e of
       Gate_reads a ps \<Rightarrow> list_ex (\<lambda>p. packet_opcode p = cmsg_player_enter_map \<and> packet_guid p = g) ps
     | _ \<Rightarrow> False)"

definition no_route :: "guid \<Rightarrow> manage_terminal \<Rightarrow> bool" where
  "no_route g t \<longleftrightarrow> list_all (\<lambda>r. rt_table r g = None) (mt_threads t)"

lemma no_route_threads:
  "no_route g t \<Longrightarrow> map rt_table (mt_threads u) = map rt_table (mt_threads t) \<Longrightarrow> no_route g u"
  unfolding no_route_def list_all_length by (metis length_map nth_map)

lemma tables_set_work [simp]: "map rt_table ((mt_threads t)[i := (mt_threads t ! i)\<lparr> rt_work := w \<rparr>]) = map rt_table (mt_threads t)"
  by (simp add: map_update) (metis list_update_id list_update_beyond map_update not_less nth_map)

lemma no_route_remove: "no_route g t \<Longrightarrow> no_route g (remove_route h a t)" "no_route g (remove_route g a t)"
  by (simp_all add: no_route_def remove_route_def table_remove_def list_all_iff)

lemma no_route_same [simp]:
  "no_route g (on_terminal a f t) = no_route g t"
  "no_route g (t\<lparr> mt_lost := b \<rparr>) = no_route g t" "no_route g (t\<lparr> mt_read := ps, mt_scene := qs \<rparr>) = no_route g t"
  "no_route g (t\<lparr> mt_current := ds, mt_delivered := es \<rparr>) = no_route g t"
  by (simp_all add: no_route_def)

lemma no_route_read:
  assumes "no_route g t" "\<not> list_ex (\<lambda>p. packet_opcode p = cmsg_player_enter_map \<and> packet_guid p = g) ps"
  shows "no_route g (sync_read ps t)"
  using assms
proof (induction ps arbitrary: t)
  case (Cons p ps)
  have add: "no_route g (add_route h a t)" if "h \<noteq> g" for h a
    using Cons.prems(1) that by (simp add: no_route_def add_route_def table_add_def list_all_iff)
  show ?case
    using Cons.prems add by (simp add: Cons.IH Let_def)
qed simp

lemma no_route_step:
  assumes t: "no_route g t" and e: "\<not> enters g e"
  shows "no_route g (terminal_step e t)"
proof (cases e)
  case (Gate_reads a ps)
  then have "\<not> list_ex (\<lambda>p. packet_opcode p = cmsg_player_enter_map \<and> packet_guid p = g) (map (set_owner a) ps)"
    using e by (simp add: enters_def list_ex_iff set_owner_def packet_opcode_def packet_guid_def)
  then show ?thesis using no_route_read [OF t] Gate_reads by (simp add: terminal_step_def)
next
  case Dispatch_packet
  then show ?thesis
    using t no_route_remove(1) by (auto simp: terminal_step_def dispatch_packet_def Let_def split: list.split)
next
  case (Registers s b)
  have "no_route g (fold (\<lambda>a. on_terminal a f) as u) = no_route g u" for f as u by (induction as arbitrary: u) simp_all
  then show ?thesis using t Registers by (simp add: terminal_step_def register_scene_def)
next
  case (Gate_writes a r)
  have lost: "no_route g (gete_lost_connection a u)" if "no_route g u" for u
    unfolding gete_lost_connection_def using that
    by (intro no_route_read) (simp_all add: set_owner_def new_packet_def packet_opcode_def cmsg_player_enter_map_def
        smsg_lost_gate_connection_def Let_def)
  then show ?thesis using t Gate_writes by (simp add: terminal_step_def gate_output_def split: prod.split)
next
  case (Gate_read_fails a)
  have "no_route g (gete_lost_connection a t)"
    unfolding gete_lost_connection_def using t
    by (intro no_route_read) (simp_all add: set_owner_def new_packet_def packet_opcode_def cmsg_player_enter_map_def
        smsg_lost_gate_connection_def Let_def)
  then show ?thesis using Gate_read_fails by (simp add: terminal_step_def)
qed (use t in \<open>auto simp: terminal_step_def scene_output_def route_take_def get_route_index_def route_work_def
    process_packet_route_def dispatch_take_def Let_def split: option.split list.split intro: no_route_threads\<close>)

lemma no_route_run: "no_route g t \<Longrightarrow> \<not> list_ex (enters g) es \<Longrightarrow> no_route g (run_events terminal_step es t)"
  by (induction es arbitrary: t) (simp_all add: no_route_step)

lemma find_no_route:
  "no_route g t \<Longrightarrow> i < length (mt_threads t) \<Longrightarrow> packet_guid q = g \<Longrightarrow> g \<noteq> 0 \<Longrightarrow> find_route i q t = None"
  by (simp add: no_route_def list_all_length find_route_def)

section \<open>Packing packets into blocks\<close>

text \<open>The packets of a block, and whether some packets fit into one.\<close>

definition fits_block :: "packet list \<Rightarrow> bool" where
  "fits_block ps \<longleftrightarrow> length (streams ps) \<le> block_length"

definition whole_packet :: "packet \<Rightarrow> bool" where
  "whole_packet p \<longleftrightarrow> length (packet_stream p) = unat (stream_size p)"

lemma serialize_groups:
  assumes "length b \<le> block_length" "list_all whole_packet ps"
  shows "\<exists>qs gs. qs @ concat gs = ps \<and> length b + length (streams qs) \<le> block_length \<and> list_all fits_block gs \<and>
    serialize_packets b ps = (b @ streams qs) # map streams gs"
  using assms
proof (induction ps arbitrary: b)
  case Nil
  then show ?case by (intro exI [of _ "[]"]) simp
next
  case (Cons p ps)
  note p = stream_fits [of p]
  have whole: "length (packet_stream p) = unat (stream_size p)" using Cons.prems(2) by (simp add: whole_packet_def)
  show ?case
  proof (cases "block_length - length b < unat (stream_size p)")
    case True
    obtain qs gs where "qs @ concat gs = ps" "length (packet_stream p) + length (streams qs) \<le> block_length"
        "list_all fits_block gs" "serialize_packets (packet_stream p) ps = (packet_stream p @ streams qs) # map streams gs"
      using Cons.IH [of "packet_stream p"] Cons.prems(2) p whole by auto
    then show ?thesis using True p Cons.prems(1)
      by (intro exI [of _ "[] :: packet list"] exI [of _ "(p # qs) # gs"]) (simp add: block_copy_def fits_block_def [of "p # qs"])
  next
    case False
    have room: "length b + unat (stream_size p) \<le> block_length" using False Cons.prems(1) by linarith
    obtain qs gs where "qs @ concat gs = ps" "length (b @ packet_stream p) + length (streams qs) \<le> block_length"
        "list_all fits_block gs" "serialize_packets (b @ packet_stream p) ps = ((b @ packet_stream p) @ streams qs) # map streams gs"
      using Cons.IH [of "b @ packet_stream p"] Cons.prems whole room by auto
    then show ?thesis using False
      by (intro exI [of _ "p # qs"] exI [of _ gs]) (simp add: block_copy_def)
  qed
qed

lemma serialize_fuller:
  assumes "length b' \<le> length b"
  shows "length (serialize_packets b' ps) \<le> length (serialize_packets b ps) \<and>
    length (serialize_packets b ps) \<le> Suc (length (serialize_packets b' ps))"
  using assms
proof (induction ps arbitrary: b b')
  case (Cons p ps)
  have same: "length (serialize_packets c ps) = length (serialize_packets d ps)" if "length c = length d" for c d
    using Cons.IH [of c d] Cons.IH [of d c] that by simp
  show ?case using Cons.IH [of "b' @ packet_stream p" "b @ packet_stream p"] Cons.IH [of "packet_stream p" "b' @ packet_stream p"]
      Cons.prems stream_fits [of p] by (auto simp: block_copy_def)
qed simp

lemma serialize_fewest:
  assumes "list_all whole_packet (qs @ concat gs)" "length b + length (streams qs) \<le> block_length" "list_all fits_block gs"
  shows "length (serialize_packets b (qs @ concat gs)) \<le> Suc (length gs)"
  using assms
proof (induction gs arbitrary: b qs)
  case Nil
  then show ?case
    by (induction qs arbitrary: b) (auto simp: whole_packet_def block_copy_def)
next
  case (Cons g gs)
  from Cons.prems show ?case
  proof (induction qs arbitrary: b)
    case Nil
    have "length (serialize_packets [] (g @ concat gs)) \<le> Suc (length gs)"
      using Cons.IH [of g "[]"] Nil by (simp add: fits_block_def)
    then show ?case using serialize_fuller [of "[]" b "g @ concat gs"] by simp
  next
    case (Cons q qs)
    then show ?case by (auto simp: whole_packet_def block_copy_def)
  qed
qed

section \<open>Concrete runs\<close>

lemma replicate_20: "replicate 20 x = x # replicate 19 x"
  by (simp add: numeral_eq_Suc)

lemma new_packet_fields [simp]:
  "packet_opcode (new_packet op g b) = op" "packet_guid (new_packet op g b) = g" "p_owner (set_owner a p) = a"
  "packet_opcode (set_owner a p) = packet_opcode p" "packet_guid (set_owner a p) = packet_guid p"
  by (simp_all add: new_packet_def packet_opcode_def packet_guid_def set_owner_def Let_def)

lemmas terminal_eval = terminal_step_def scene_output_def route_take_def route_work_def dispatch_take_def
  dispatch_packet_def get_route_index_def set_work_def process_packet_route_def find_route_def add_route_def table_add_def
  on_terminal_def output_packet_def new_manage_terminal_def replicate_20 Let_def smsg_create_self_def
  cmsg_player_enter_map_def smsg_player_leave_map_def smsg_lost_gate_connection_def increase_number_def
  terminal_allowed_def outstanding_def List.map_filter_def

text \<open>A player enters through gate 1; the scene sends to him and to one it has no route for.\<close>

definition routed_run :: "terminal_event list" where
  "routed_run = [Gate_reads 1 [new_packet cmsg_player_enter_map 7 []], Scene_sends (new_packet smsg_create_self 7 [1]),
     Scene_sends (new_packet smsg_create_self 9 []), Route_take 0, Route_work 0, Route_work 0, Route_work 0,
     Dispatch_take, Dispatch_packet]"

lemma routed_allowed: "all_allowed terminal_step terminal_allowed routed_run (new_manage_terminal [1])"
  by (simp add: routed_run_def terminal_eval)

text \<open>He enters again, through gate 2, before the packet that tells gate 1 that he left is dispatched.\<close>

definition moved_run :: "terminal_event list" where
  "moved_run = [Gate_reads 1 [new_packet cmsg_player_enter_map 7 []],
     Scene_sends (set_owner 1 (new_packet smsg_player_leave_map 7 [])), Route_take 0, Route_work 0, Route_work 0,
     Dispatch_take, Gate_reads 2 [new_packet cmsg_player_enter_map 7 []]]"

text \<open>What gate 1 gets of the routed packets.\<close>

definition sent_run :: "terminal_event list" where
  "sent_run = routed_run @ [Serialize_take 1 0, Serialize_done 1 0, Gate_writes 1 (Sent 99)]"

lemma small_stream:
  "unat (stream_size (new_packet op g [b])) = 13" "length (packet_stream (new_packet op g [b])) = 13"
  by (simp_all add: packet_stream_def new_packet_def stream_size_def head_size_def Let_def)

lemmas gate_eval = serialize_take_def serialize_done_def get_message_index_def get_message_blocks_def output_buffer_def
  new_gate_terminal_def serialize_threads_def gate_output_def sync_write_def current_block_def return_msg_block_def
  message_no_def block_copy_def

lemma sent_allowed: "all_allowed terminal_step terminal_allowed sent_run (new_manage_terminal [1])"
  by (simp add: sent_run_def routed_run_def terminal_eval gate_eval)

section \<open>The claims\<close>

text \<open>C8: Whatever the twenty threads that look up the gates and the dispatcher do in between, packets are handed to the
  gates in the order in which the scene put them out, none twice, and at rest each one was handed on or dropped for lack
  of a route.\<close>

theorem output_in_order:
  assumes "all_allowed terminal_step terminal_allowed es (new_manage_terminal addrs)"
    and "t = run_events terminal_step es (new_manage_terminal addrs)"
  shows "subseq (map fst (mt_delivered t)) (mt_output t) \<and>
    mset (map fst (mt_delivered t)) + mset (mt_dropped t) \<subseteq># mset (mt_output t) \<and>
    (route_rest t \<longrightarrow> mset (map fst (mt_delivered t)) + mset (mt_dropped t) = mset (mt_output t))"
proof -
  have "route_ok t" using terminals_run assms by (simp add: terminal_inv_def)
  then obtain cs where cs: "in_line (mt_pos t) (mt_index t) (route_held t) cs"
      "subseq (map fst (mt_delivered t) @ map fst (mt_current t) @ concat cs @ mt_input t) (mt_output t)"
      "mset (map fst (mt_delivered t) @ map fst (mt_current t) @ concat cs @ mt_input t) + mset (mt_dropped t) = mset (mt_output t)"
    by (auto simp: route_ok_def)
  have "cs = []" if "route_rest t"
  proof -
    have "route_held t = {#}" using that by (simp add: route_rest_def route_held_def held_by_empty [THEN iffD2] list_all_iff)
    then show ?thesis using cs(1) by simp
  qed
  moreover have "subseq (map fst (mt_delivered t)) (mt_output t)" 
    using subseq_order.trans [OF list_emb_prefix [OF subseq_order.refl] cs(2)] .
  moreover have "mset (map fst (mt_delivered t)) + mset (mt_dropped t) \<subseteq># mset (mt_output t)"
    unfolding cs(3) [symmetric] by (simp add: subset_mset.add_increasing2 ac_simps)
  ultimately show ?thesis using cs(3) by (auto simp: route_rest_def)
qed

theorem output_in_order_witness:
  "\<exists>t :: manage_terminal. map fst (mt_delivered t) = [new_packet smsg_create_self 7 [1]] \<and> mt_dropped t = [new_packet smsg_create_self 9 []] \<and>
    subseq (map fst (mt_delivered t)) (mt_output t)"
proof -
  let ?t = "run_events terminal_step routed_run (new_manage_terminal [1])"
  have d: "map fst (mt_delivered ?t) = [new_packet smsg_create_self 7 [1]]" "mt_dropped ?t = [new_packet smsg_create_self 9 []]"
    by (simp_all add: routed_run_def terminal_eval)
  show ?thesis
    by (rule exI [of _ ?t], intro conjI) (rule d output_in_order [OF routed_allowed refl, THEN conjunct1])+
qed

text \<open>C9: The bytes sent to a gate are a prefix of the streams of the packets it was handed, in that order, whatever
  its twenty serializing threads and its output thread do and however few bytes a send takes; at rest they are all of
  them. Apart from registrations of the scene, a gate is handed just the packets that were routed to it.\<close>

theorem wire_bytes:
  assumes "all_allowed terminal_step terminal_allowed es (new_manage_terminal addrs)"
    and "t = run_events terminal_step es (new_manage_terminal addrs)" "g = mt_terminals t a"
  shows "prefix (te_sent g) (streams (te_handed g)) \<and> (gate_rest g \<longrightarrow> te_sent g = streams (te_handed g)) \<and>
    filter no_register (te_handed g) = filter no_register (map fst (filter (\<lambda>x. snd x = a) (mt_delivered t)))"
proof -
  have inv: "wire_ok g" "handed_ok t" using terminals_run assms by (simp_all add: terminal_inv_def)
  then obtain cs where cs: "in_line (te_pos g) (te_index g) (te_held g) cs"
      "te_sent g @ (case te_current g of None \<Rightarrow> [] | Some b \<Rightarrow> b) @ concat cs @ streams (te_packets g) = streams (te_handed g)"
    by (auto simp: wire_ok_def)
  have "te_sent g = streams (te_handed g)" if "gate_rest g"
  proof -
    have "te_held g = {#}" using that by (simp add: gate_rest_def te_held_def held_by_empty [THEN iffD2] list_all_iff)
    then have "cs = []" using cs(1) by simp
    then show ?thesis using cs(2) that by (simp add: gate_rest_def)
  qed
  moreover have "prefix (te_sent g) (streams (te_handed g))" using cs(2) by (metis prefixI)
  ultimately show ?thesis using inv(2) assms(3) by (simp add: handed_ok_def)
qed

theorem wire_bytes_witness:
  "\<exists>t :: manage_terminal. te_sent (mt_terminals t 1) = packet_stream (new_packet smsg_create_self 7 [1]) \<and>
    prefix (te_sent (mt_terminals t 1)) (streams (te_handed (mt_terminals t 1)))"
proof -
  let ?t = "run_events terminal_step sent_run (new_manage_terminal [1])"
  have d: "te_sent (mt_terminals ?t 1) = packet_stream (new_packet smsg_create_self 7 [1])"
    by (simp add: sent_run_def routed_run_def terminal_eval gate_eval small_stream block_length_def)
  show ?thesis
    by (rule exI [of _ ?t], intro conjI) (rule d wire_bytes [OF sent_allowed refl refl, THEN conjunct1])+
qed

text \<open>C14: A packet goes only to a connected gate: to the one it names when it has no guid, and otherwise to a gate
  through which its role entered.\<close>

theorem gates_right:
  assumes "all_allowed terminal_step terminal_allowed es (new_manage_terminal addrs)"
    and "t = run_events terminal_step es (new_manage_terminal addrs)" "(p, a) \<in> set (mt_delivered t)"
  shows "a \<in> set (mt_addrs t) \<and> (if packet_guid p = 0 then p_owner p = a else entered (packet_guid p) a (mt_read t))"
proof -
  have "routes_ok t" using terminals_run assms(1,2) by (simp add: terminal_inv_def)
  then have "right_gate t p a" using assms(3) by (auto simp: routes_ok_def routed_items_def)
  then show ?thesis by (simp add: right_gate_def)
qed

theorem gates_right_witness:
  "entered 7 1 (mt_read (run_events terminal_step routed_run (new_manage_terminal [1])))"
proof -
  let ?p = "new_packet smsg_create_self 7 [1]"
  have "(?p, 1) \<in> set (mt_delivered (run_events terminal_step routed_run (new_manage_terminal [1])))"
    by (simp add: routed_run_def terminal_eval)
  from gates_right [OF routed_allowed refl this] show ?thesis by simp
qed

text \<open>C10: Packets do not wait forever. While no connection is lost and nothing new comes, the threads can do at most
  \<open>terminal_load\<close> steps that change anything, whichever they are, and when none of them can do one, no packet is left
  anywhere; so some run of the threads ends with all packets sent.\<close>

theorem output_drains:
  assumes "all_allowed terminal_step terminal_allowed es (new_manage_terminal addrs)"
    and "t = run_events terminal_step es (new_manage_terminal addrs)" "none_stopped t"
  shows "(\<forall>fs. all_allowed terminal_step works fs t \<longrightarrow> length fs \<le> terminal_load t \<and>
      (at_rest (run_events terminal_step fs t) \<or> (\<exists>e. all_allowed terminal_step works (fs @ [e]) t))) \<and>
    (\<exists>gs. all_allowed terminal_step works gs t \<and> at_rest (run_events terminal_step gs t))"
proof (intro conjI allI impI)
  have inv: "terminal_inv t" using terminals_run assms(1,2) by simp
  show "length fs \<le> terminal_load t" if "all_allowed terminal_step works fs t" for fs
    using works_run(3) [OF inv assms(3) that] by simp
  show "at_rest (run_events terminal_step fs t) \<or> (\<exists>e. all_allowed terminal_step works (fs @ [e]) t)"
    if "all_allowed terminal_step works fs t" for fs
    using works_progress [OF works_run(1,2) [OF inv assms(3) that]] that by (auto simp: all_allowed_snoc)
  show "\<exists>gs. all_allowed terminal_step works gs t \<and> at_rest (run_events terminal_step gs t)"
    using works_to_rest [OF inv assms(3)] .
qed

theorem output_drains_witness:
  "\<exists>t :: manage_terminal. mt_terminals t 1 \<noteq> new_gate_terminal \<and>
    (\<exists>gs. all_allowed terminal_step works gs t \<and> at_rest (run_events terminal_step gs t))"
proof -
  let ?t = "run_events terminal_step routed_run (new_manage_terminal [1])"
  have d: "mt_terminals ?t 1 \<noteq> new_gate_terminal" "none_stopped ?t"
    by (simp_all add: routed_run_def terminal_eval new_gate_terminal_def none_stopped_def)
  show ?thesis by (rule exI [of _ ?t], intro conjI) (rule d(1) output_drains [OF routed_allowed refl d(2), THEN conjunct2])+
qed

text \<open>C36: The first failed send to one gate, or the first failed read, ends all gates: the packet that tells of it is the
  last one that the scene ever gets, from whichever gate, in every run.\<close>

theorem one_gate_lost:
  assumes "\<not> mt_lost t"
    and "e = Gate_read_fails a \<or>
      e = Gate_writes a Send_failed \<and> \<not> te_stopped (mt_terminals t a) \<and> current_block (mt_terminals t a) = Inr (g, b) \<and> b \<noteq> []"
  shows "mt_scene (run_events terminal_step (e # es) t) =
    mt_scene t @ [set_owner a (new_packet smsg_lost_gate_connection 0 [])]"
proof -
  have lost: "mt_lost (gete_lost_connection a u) \<and>
      mt_scene (gete_lost_connection a u) = mt_scene t @ [set_owner a (new_packet smsg_lost_gate_connection 0 [])]"
    if "\<not> mt_lost u" "mt_scene u = mt_scene t" for u
    using that by (simp add: gete_lost_connection_def smsg_lost_gate_connection_def cmsg_player_enter_map_def)
  have "\<exists>h. terminal_step e t = gete_lost_connection a (on_terminal a h t)"
  proof (cases "e = Gate_read_fails a")
    case True
    then show ?thesis by (intro exI [of _ "\<lambda>g. g"]) (simp add: terminal_step_def on_terminal_def)
  next
    case False
    then have w: "e = Gate_writes a Send_failed" "\<not> te_stopped (mt_terminals t a)" "current_block (mt_terminals t a) = Inr (g, b)" "b \<noteq> []"
      using assms(2) by simp_all
    then obtain h where "sync_write Send_failed (mt_terminals t a) = (h, - 1)" by (simp add: sync_write_def Let_def)
    then show ?thesis
      using w by (intro exI [of _ "\<lambda>_. h\<lparr> te_stopped := True \<rparr>"]) (simp add: terminal_step_def gate_output_def)
  qed
  then obtain h where "terminal_step e t = gete_lost_connection a (on_terminal a h t)" ..
  then show ?thesis using lost [of "on_terminal a h t"] assms(1) by (simp add: scene_stays_run on_terminal_def)
qed

theorem one_gate_lost_witness:
  "mt_scene (run_events terminal_step [Gate_read_fails 1, Gate_reads 2 [new_packet cmsg_player_enter_map 7 []]]
    (new_manage_terminal [1, 2])) = [set_owner 1 (new_packet smsg_lost_gate_connection 0 [])]"
  by (subst one_gate_lost [where a = 1]) (simp_all add: new_manage_terminal_def)

text \<open>The packet that tells a gate that a role left the map takes away the role's route to any gate. A role that
  enters again through another gate before that packet is dispatched has no route afterwards: whatever the scene sends
  to it is dropped until it enters once more.\<close>

theorem reenter_lost:
  assumes "mt_current t = (p, a) # ds" "packet_opcode p = smsg_player_leave_map" "packet_guid p = g" "g \<noteq> 0"
    and "\<not> list_ex (enters g) es" "u = run_events terminal_step (Dispatch_packet # es) t"
    and "i < length (mt_threads u)" "packet_guid q = g"
  shows "find_route i q u = None"
proof -
  have "no_route g (terminal_step Dispatch_packet t)"
    using assms(1-3) no_route_remove(2) by (simp add: terminal_step_def dispatch_packet_def)
  then have "no_route g u" using no_route_run assms(5,6) by simp
  then show ?thesis using find_no_route assms(4,7,8) by blast
qed

theorem reenter_lost_witness:
  "\<exists>t u :: manage_terminal. t = run_events terminal_step moved_run (new_manage_terminal [1, 2]) \<and>
    find_route 0 (new_packet smsg_create_self 7 []) t = Some 2 \<and> u = terminal_step Dispatch_packet t \<and>
    find_route 0 (new_packet smsg_create_self 7 []) u = None"
proof -
  let ?t = "run_events terminal_step moved_run (new_manage_terminal [1, 2])"
  let ?u = "run_events terminal_step [Dispatch_packet] ?t" and ?p = "set_owner 1 (new_packet smsg_player_leave_map 7 [])"
  have t: "mt_current ?t = [(?p, 1)]" "find_route 0 (new_packet smsg_create_self 7 []) ?t = Some 2"
    by (simp_all add: moved_run_def terminal_eval)
  have "0 < length (mt_threads ?u)" by (simp add: moved_run_def terminal_eval remove_route_def)
  then have "find_route 0 (new_packet smsg_create_self 7 []) ?u = None"
    by (intro reenter_lost [where es = "[]", OF t(1) _ _ _ _ refl]) simp_all
  then show ?thesis using t(2) by (intro exI [of _ ?t] exI [of _ ?u]) simp
qed

text \<open>C30: The blocks a batch of packets is written to hold every packet of it, whole and in order, none is longer than the
  102400 bytes of a block, and there is no way to cut the batch between packets that needs fewer blocks.\<close>

theorem blocks_packed:
  assumes "list_all whole_packet ps" "ps \<noteq> []"
  shows "(\<exists>gs. concat gs = ps \<and> list_all fits_block gs \<and> serialize_packets [] ps = map streams gs) \<and>
    \<not> (\<exists>gs. concat gs = ps \<and> list_all fits_block gs \<and> length gs < length (serialize_packets [] ps))"
proof
  obtain qs gs where "qs @ concat gs = ps" "length (streams qs) \<le> block_length" "list_all fits_block gs"
      "serialize_packets [] ps = streams qs # map streams gs"
    using serialize_groups [of "[]" ps] assms(1) by auto
  then show "\<exists>gs. concat gs = ps \<and> list_all fits_block gs \<and> serialize_packets [] ps = map streams gs"
    by (intro exI [of _ "qs # gs"]) (simp add: fits_block_def)
  have "length (serialize_packets [] ps) \<le> length gs" if gs: "concat gs = ps" "list_all fits_block gs" for gs
  proof (cases gs)
    case (Cons g gs')
    then show ?thesis using serialize_fewest [of g gs' "[]"] gs assms(1) by (auto simp: fits_block_def)
  qed (use gs assms(2) in simp)
  then show "\<not> (\<exists>gs. concat gs = ps \<and> list_all fits_block gs \<and> length gs < length (serialize_packets [] ps))"
    using leD by blast
qed

lemma blocks_packed_witness:
  "length (serialize_packets [] (replicate 3 (new_packet 1 7 (replicate 40000 0)))) = 2"
proof -
  let ?p = "new_packet 1 7 (replicate 40000 0) :: packet" and ?ps = "replicate 3 (new_packet 1 7 (replicate 40000 0)) :: packet list"
  have p: "length (packet_stream ?p) = 40012" "unat (stream_size ?p) = 40012"
    by (simp_all add: packet_stream_def new_packet_def stream_size_def head_size_def Let_def)
  have "concat [[?p, ?p], [?p]] = ?ps" "list_all fits_block [[?p, ?p], [?p]]"
    using p by (simp_all add: fits_block_def block_length_def numeral_3_eq_3)
  moreover have "list_all whole_packet ?ps" "?ps \<noteq> []" using p by (simp_all add: whole_packet_def list_all_iff)
  note B = blocks_packed [OF this]
  ultimately have "length (serialize_packets [] ?ps) \<le> 2"
    using B by (metis length_Cons list.size(3) not_less numeral_2_eq_2)
  moreover obtain gs where gs: "concat gs = ?ps" "list_all fits_block gs" "length (serialize_packets [] ?ps) = length gs"
    using B by (metis length_map)
  moreover have "length gs \<noteq> 1" 
  proof
    assume "length gs = 1"
    then obtain g where "gs = [g]" by (auto simp: length_Suc_conv)
    then show False using gs p by (simp add: fits_block_def block_length_def numeral_3_eq_3)
  qed
  moreover have "gs \<noteq> []" using gs(1) by auto
  ultimately show ?thesis by (cases "length gs") auto
qed

end
