(* ===== verification/MemberWire.thy ===== *)
theory MemberWire
  imports Packets Opcodes
begin

text \<open>
  The bytes that the member server (\<^verbatim>\<open>membersys/src\<close>) exchanges with the operators of the game: frames with a head
  of opcode and size (\<^verbatim>\<open>MemberSession.cpp\<close>), packed structs of integers and character arrays
  (\<^verbatim>\<open>MemberProtocol.h\<close>), and the functions that copy strings into the arrays (\<^verbatim>\<open>MemberProtocol.cpp\<close>).

  \<^verbatim>\<open>MemberHead\<close> has the layout of the gate's \<^verbatim>\<open>ClientHeader\<close>, so its codec is the one of \<open>Packets\<close>.
\<close>

section \<open>Frames\<close>

definition max_member_body :: nat where "max_member_body = 4096"

text \<open>\<^verbatim>\<open>parseInputPacket\<close>; no rest is the return value 2.\<close>

definition member_packet :: "nat \<Rightarrow> u8 list \<Rightarrow> packet" where
  "member_packet owner bs =
     (let h = \<lparr> h_opcode = client_opcode bs, h_size = client_size bs, h_guid = 0 \<rparr> in
      set_owner owner (recv_packet h (take (unat (client_size bs)) (drop client_head_size bs))))"

function (sequential) member_parse :: "nat \<Rightarrow> u8 list \<Rightarrow> packet list \<times> u8 list option" where
  "member_parse owner bs =
     (if length bs < client_head_size then ([], Some bs)
      else if max_member_body < unat (client_size bs) then ([], None)
      else let n = client_head_size + unat (client_size bs) in
        if n \<le> length bs then
          (let (ps, rest) = member_parse owner (drop n bs) in (member_packet owner bs # ps, rest))
        else ([], Some bs))"
  by pat_completeness auto
termination
  by (relation "measure (\<lambda>(_, bs). length bs)") (auto simp: client_head_size_def)

declare member_parse.simps [simp del]

definition member_bad :: "u8 list \<Rightarrow> bool" where
  "member_bad bs \<longleftrightarrow> max_member_body < unat (client_size bs)"

lemma member_packet_take:
  "member_packet owner (take (client_head_size + unat (client_size bs)) bs) = member_packet owner bs"
  by (simp add: member_packet_def drop_take Let_def)

interpretation members: framing client_head_size client_need member_bad "member_packet owner" "member_parse owner" for owner
proof
  show "0 < client_head_size" by (simp add: client_head_size_def)
  show "client_head_size \<le> client_need h" for h by (simp add: client_need_def)
next
  fix bs assume "client_head_size \<le> length bs" "\<not> member_bad (take client_head_size bs)"
    "client_need (take client_head_size bs) \<le> length bs"
  then show "member_parse owner bs =
      (let (qs, t) = member_parse owner (drop (client_need (take client_head_size bs)) bs)
       in (member_packet owner (take (client_need (take client_head_size bs)) bs) # qs, t))"
    by (subst member_parse.simps) (simp add: client_need_def member_bad_def member_packet_take)
qed (simp_all add: member_parse.simps [of _ bs for bs] client_need_def member_bad_def)

text \<open>\<^verbatim>\<open>processWrite(Packet *)\<close>: at most three calls of \<^verbatim>\<open>send_n\<close>. Each result is the bytes sent, none for an
  error, and whether the error is one to go on after. What is not sent then is lost.\<close>

definition member_frame :: "packet \<Rightarrow> u8 list" where
  "member_frame p = encode_client_head (packet_opcode p) (body_size p) @ packet_body p"

primrec send_tries :: "(nat \<times> bool) list \<Rightarrow> u8 list \<Rightarrow> u8 list" where
  "send_tries [] bs = []"
| "send_tries (r # rs) bs =
     take (fst r) bs @ (if length bs \<le> fst r then [] else if snd r then send_tries rs (drop (fst r) bs) else [])"

definition process_write :: "(nat \<times> bool) list \<Rightarrow> packet \<Rightarrow> u8 list" where
  "process_write rs p = send_tries (take 3 rs) (member_frame p)"

section \<open>Structs\<close>

definition field32 :: "nat \<Rightarrow> u8 list \<Rightarrow> u32" where
  "field32 off bs = le_word (take 4 (drop off bs))"

definition chars :: "nat \<Rightarrow> nat \<Rightarrow> u8 list \<Rightarrow> u8 list" where
  "chars off n bs = take n (drop off bs)"

text \<open>A C string ends at the first 0.\<close>

definition c_string :: "u8 list \<Rightarrow> u8 list" where
  "c_string bs = takeWhile (\<lambda>b. b \<noteq> 0) bs"

text \<open>\<^verbatim>\<open>copyAccount\<close> and the other four: at most \<open>n\<close> characters, and no 0 behind them.\<close>

definition copy_chars :: "nat \<Rightarrow> u8 list \<Rightarrow> u8 list \<Rightarrow> u8 list" where
  "copy_chars n dst src = (let s = take n (c_string src) in s @ drop (length s) dst)"

abbreviation zeros :: "nat \<Rightarrow> u8 list" where
  "zeros n \<equiv> replicate n 0"

record mmsg_login =
  ml_request_index :: u32
  ml_account :: "u8 list"
  ml_addiction_flag :: u32
  ml_network_type :: u32
  ml_security_key :: "u8 list"
  ml_line_id :: u32
  ml_open_id :: "u8 list"
  ml_open_key :: "u8 list"
  ml_pf :: "u8 list"
  ml_pfkey :: "u8 list"

definition login_size :: nat where "login_size = 208"

text \<open>The security key is read as a C string: when its 32 characters hold no 0, what follows in memory is read,
  which is the rest of the struct and then \<open>behind\<close>.\<close>

definition member_login_struct :: "u8 list \<Rightarrow> u8 list \<Rightarrow> mmsg_login" where
  "member_login_struct behind bs =
     \<lparr> ml_request_index = field32 0 bs, ml_account = chars 4 32 bs, ml_addiction_flag = field32 36 bs,
       ml_network_type = field32 40 bs, ml_security_key = c_string (drop 44 bs @ behind), ml_line_id = field32 76 bs,
       ml_open_id = chars 80 32 bs, ml_open_key = chars 112 32 bs, ml_pf = chars 144 32 bs, ml_pfkey = chars 176 32 bs \<rparr>"

record member_charge =
  mc_request_index :: u32
  mc_account :: "u8 list"
  mc_point :: u32
  mc_line_id :: u32
  mc_role_guid :: "u8 list"

definition charge_size :: nat where "charge_size = 68"

text \<open>Account and role are read as C strings.\<close>

definition member_charge_struct :: "u8 list \<Rightarrow> u8 list \<Rightarrow> member_charge" where
  "member_charge_struct behind bs =
     \<lparr> mc_request_index = field32 0 bs, mc_account = c_string (drop 4 bs @ behind), mc_point = field32 36 bs,
       mc_line_id = field32 40 bs, mc_role_guid = c_string (drop 44 bs @ behind) \<rparr>"

record member_gift =
  mg_request_index :: u32
  mg_line_id :: u32
  mg_account :: "u8 list"
  mg_gift_number :: u32
  mg_replay :: u32
  mg_gift_type :: u32
  mg_start_day :: u32
  mg_end_day :: u32
  mg_role_guid :: "u8 list"

definition gift_size :: nat where "gift_size = 84"

text \<open>The account is copied into a string of 100 characters first.\<close>

definition member_gift_struct :: "u8 list \<Rightarrow> u8 list \<Rightarrow> member_gift" where
  "member_gift_struct behind bs =
     \<lparr> mg_request_index = field32 0 bs, mg_line_id = field32 4 bs, mg_account = chars 8 32 bs @ zeros 68,
       mg_gift_number = field32 40 bs, mg_replay = field32 44 bs, mg_gift_type = field32 48 bs,
       mg_start_day = field32 52 bs, mg_end_day = field32 56 bs, mg_role_guid = c_string (drop 60 bs @ behind) \<rparr>"

text \<open>\<^verbatim>\<open>RoleInfo\<close>\<close>

record role_struct =
  rs_role_id :: "u8 list"
  rs_role_level :: u32
  rs_role_name :: "u8 list"
  rs_line_id :: u32

definition new_role_struct :: role_struct where
  "new_role_struct = \<lparr> rs_role_id = zeros 24, rs_role_level = 0, rs_role_name = zeros 32, rs_line_id = 0 \<rparr>"

definition encode_role :: "role_struct \<Rightarrow> u8 list" where
  "encode_role r = rs_role_id r @ le_bytes 4 (rs_role_level r) @ rs_role_name r @ le_bytes 4 (rs_line_id r)"

section \<open>What the copies keep\<close>

lemma length_copy_chars [simp]: "length dst = n \<Longrightarrow> length (copy_chars n dst src) = n"
  by (simp add: copy_chars_def Let_def)

lemma c_string_no_zero: "0 \<notin> set (c_string bs)"
  by (auto simp: c_string_def dest: set_takeWhileD)

lemma c_string_same [simp]: "0 \<notin> set s \<Longrightarrow> c_string s = s"
  by (auto simp: c_string_def takeWhile_eq_all_conv)

lemma c_string_append: "0 \<notin> set s \<Longrightarrow> c_string (s @ bs) = s @ c_string bs"
  unfolding c_string_def by (subst takeWhile_append2) auto

lemma c_string_zero [simp]: "c_string (0 # bs) = []" "c_string [] = []"
  by (simp_all add: c_string_def)

lemma c_string_zeros [simp]: "c_string (zeros n) = []"
  by (cases n) simp_all

lemma c_string_copy:
  assumes "0 \<notin> set s" "length s \<le> n"
  shows "c_string (copy_chars n dst s) = s @ c_string (drop (length s) dst)"
  using assms by (simp add: copy_chars_def Let_def c_string_append)

lemma c_string_cut: "0 \<in> set s \<Longrightarrow> c_string (s @ bs) = c_string s"
  by (simp add: c_string_def takeWhile_append1 [of 0])

end
