(* ===== verification/Member.thy ===== *)
theory Member
  imports MemberWire
begin

text \<open>
  The member server, \<^verbatim>\<open>membersys/src\<close>: operators of the game log players in, pay for them, give gifts and ask for
  roles and numbers; the gates answer. A reply finds its way back by the index that the operator gave its request
  (\<^verbatim>\<open>ManageMemberSession::addMemberRoute\<close>, \<^verbatim>\<open>getMemberByRoute\<close>).

  The databases answer as they like, with the rows of each query or nothing. What messages look like as JSON is a
  parameter, since it comes from the reflection of the protocol buffer library. What lies in memory behind a struct
  that is read as a string is part of the event.
\<close>

section \<open>Opcodes\<close>

definition opcode_member_register :: u16 where "opcode_member_register = 700"
definition opcode_member_login :: u16 where "opcode_member_login = 701"
definition opcode_login_respond :: u16 where "opcode_login_respond = 702"
definition opcode_member_charge :: u16 where "opcode_member_charge = 704"
definition opcode_charge_confirm :: u16 where "opcode_charge_confirm = 705"
definition opcode_query_role :: u16 where "opcode_query_role = 706"
definition opcode_query_role_return :: u16 where "opcode_query_role_return = 707"
definition opcode_register_success :: u16 where "opcode_register_success = 709"
definition opcode_register_failed :: u16 where "opcode_register_failed = 710"
definition opcode_query_online_number :: u16 where "opcode_query_online_number = 711"
definition opcode_online_number :: u16 where "opcode_online_number = 712"
definition opcode_give_gift :: u16 where "opcode_give_gift = 713"
definition opcode_gift_given :: u16 where "opcode_gift_given = 714"
definition opcode_query_register_players :: u16 where "opcode_query_register_players = 717"
definition opcode_register_players :: u16 where "opcode_register_players = 718"
definition opcode_query_daily_top :: u16 where "opcode_query_daily_top = 719"
definition opcode_daily_top :: u16 where "opcode_daily_top = 720"
definition opcode_query_daily_average :: u16 where "opcode_query_daily_average = 721"
definition opcode_daily_average :: u16 where "opcode_daily_average = 722"

lemmas member_opcodes = opcode_member_register_def opcode_member_login_def opcode_login_respond_def
  opcode_member_charge_def opcode_charge_confirm_def opcode_query_role_def opcode_query_role_return_def
  opcode_register_success_def opcode_register_failed_def opcode_query_online_number_def opcode_online_number_def
  opcode_give_gift_def opcode_gift_given_def opcode_query_register_players_def opcode_register_players_def
  opcode_query_daily_top_def opcode_daily_top_def opcode_query_daily_average_def opcode_daily_average_def

section \<open>State\<close>

text \<open>Messages to the gates, and what they answer; \<open>Gate_other\<close> cannot be parsed or has another opcode.\<close>

datatype gate_request = Gate_login mmsg_login | Gate_charge member_charge | Gate_gift member_gift

datatype gate_answer =
    Gate_login_respond u32 "u8 list" u32
  | Gate_login_confirm u32 "u8 list" u32
  | Gate_charge_confirm u32 "u8 list" u32
  | Gate_gift_given u32 u32 "u8 list" "u8 list" u32
  | Gate_report_online "(u32 \<times> u8 list) list"
  | Gate_logoff "u8 list" u32
  | Gate_other

text \<open>Messages that are sent as JSON: pages, users, error; and result, number.\<close>

record user_info =
  ui_account :: "u8 list"
  ui_name :: "u8 list"
  ui_level :: u32
  ui_last_login :: "u8 list"

datatype json_message = Register_user_info u32 "user_info list" u32 | Daily_players u32 u32

record member_cfg =
  cf_json :: "json_message \<Rightarrow> u8 list"
  cf_security_key :: "u8 list"
  cf_client_addr_1 :: "u8 list"
  cf_client_addr_2 :: "u8 list"

text \<open>The answers of the databases to the queries of one request.\<close>

record member_db =
  db_account_roles :: "(u8 list \<times> u8 list) list option"
  db_game_roles :: "(u8 list \<times> u32 \<times> u32) list option"
  db_register_guids :: "u64 list option"
  db_register_info :: "u64 \<Rightarrow> user_info list option"
  db_online_numbers :: "u32 list option"

text \<open>
  Sessions are named by their address. The last five fields are histories: the requests with an index, what was sent
  for whom to the gates, what was written to each session, its bytes, and the replies without a route.
\<close>

record member_server =
  mb_sessions :: "nat list"
  mb_routes :: "u64 \<rightharpoonup> nat"
  mb_output :: "packet list"
  mb_online :: "(u32, u8 list fset) fmap"
  mb_current :: nat
  mb_max :: nat
  mb_numbers :: "nat list"
  mb_asked :: "(nat \<times> u64) list"
  mb_gates :: "(nat \<times> gate_request) list"
  mb_replies :: "(nat \<times> packet) list"
  mb_wire :: "nat \<Rightarrow> u8 list"
  mb_lost :: "packet list"

definition new_member_server :: member_server where
  "new_member_server = \<lparr> mb_sessions = [], mb_routes = Map.empty, mb_output = [], mb_online = fmempty, mb_current = 0,
     mb_max = 0, mb_numbers = [], mb_asked = [], mb_gates = [], mb_replies = [], mb_wire = (\<lambda>a. []), mb_lost = [] \<rparr>"

section \<open>Routes and output\<close>

definition add_member_route :: "u64 \<Rightarrow> nat \<Rightarrow> member_server \<Rightarrow> member_server" where
  "add_member_route i a m = (case mb_routes m i of Some b \<Rightarrow> m | None \<Rightarrow> m\<lparr> mb_routes := (mb_routes m)(i \<mapsto> a) \<rparr>)"

definition ask :: "u64 \<Rightarrow> nat \<Rightarrow> member_server \<Rightarrow> member_server" where
  "ask i a m = (add_member_route i a m)\<lparr> mb_asked := mb_asked m @ [(a, i)] \<rparr>"

definition get_member_by_route :: "u64 \<Rightarrow> member_server \<Rightarrow> nat option \<times> member_server" where
  "get_member_by_route i m =
     (case mb_routes m i of
        Some a \<Rightarrow> (Some a, m\<lparr> mb_routes := (mb_routes m)(i := None) \<rparr>)
      | None \<Rightarrow> (None, m))"

definition remove_member_session :: "nat \<Rightarrow> member_server \<Rightarrow> member_server" where
  "remove_member_session a m = m\<lparr> mb_sessions := removeAll a (mb_sessions m) \<rparr>"

text \<open>The index travels as the owner of the packet.\<close>

definition reply :: "u16 \<Rightarrow> u64 \<Rightarrow> u8 list \<Rightarrow> member_server \<Rightarrow> member_server" where
  "reply op i body m = m\<lparr> mb_output := mb_output m @ [set_owner (unat i) (new_packet op 0 body)] \<rparr>"

text \<open>One packet of \<^verbatim>\<open>ManageMemberSessionOutput\<close>, with the results of the calls that send it.\<close>

definition process_packet :: "(nat \<times> bool) list \<Rightarrow> packet \<Rightarrow> member_server \<Rightarrow> member_server" where
  "process_packet rs p m =
     (case get_member_by_route (of_nat (p_owner p)) m of
        (Some a, m) \<Rightarrow>
          m\<lparr> mb_wire := (mb_wire m)(a := mb_wire m a @ process_write rs p), mb_replies := mb_replies m @ [(a, p)] \<rparr>
      | (None, m) \<Rightarrow> m\<lparr> mb_lost := mb_lost m @ [p] \<rparr>)"

definition output_svc :: "(nat \<times> bool) list \<Rightarrow> member_server \<Rightarrow> member_server" where
  "output_svc rs m =
     (case mb_output m of
        [] \<Rightarrow> m
      | p # ps \<Rightarrow> process_packet rs p (m\<lparr> mb_output := ps \<rparr>))"

section \<open>Players online\<close>

text \<open>\<^verbatim>\<open>m_online_player[line_no]\<close> makes an empty set.\<close>

definition online_set :: "u32 \<Rightarrow> member_server \<Rightarrow> u8 list fset" where
  "online_set line m = (case fmlookup (mb_online m) line of None \<Rightarrow> {||} | Some s \<Rightarrow> s)"

definition set_online :: "u32 \<Rightarrow> u8 list fset \<Rightarrow> member_server \<Rightarrow> member_server" where
  "set_online line s m = m\<lparr> mb_online := fmupd line s (mb_online m) \<rparr>"

definition update_online_number_to_db :: "nat \<Rightarrow> member_server \<Rightarrow> member_server" where
  "update_online_number_to_db n m = m\<lparr> mb_numbers := mb_numbers m @ [n] \<rparr>"

definition online_total :: "member_server \<Rightarrow> nat" where
  "online_total m = (\<Sum>x\<leftarrow>fm_items (mb_online m). fcard (snd x))"

definition player_login_success :: "u32 \<Rightarrow> u8 list \<Rightarrow> member_server \<Rightarrow> member_server" where
  "player_login_success line account m =
     (let m = set_online line (finsert account (online_set line m)) m;
          m = m\<lparr> mb_current := online_total m \<rparr> in
      if mb_max m < mb_current m
      then update_online_number_to_db (mb_current m) (m\<lparr> mb_max := mb_current m \<rparr>)
      else m)"

definition player_loginoff :: "u32 \<Rightarrow> u8 list \<Rightarrow> member_server \<Rightarrow> member_server" where
  "player_loginoff line account m = set_online line (online_set line m |-| {|account|}) m"

definition get_online_number :: "u32 \<Rightarrow> member_server \<Rightarrow> u32 \<times> member_server" where
  "get_online_number line m = (of_nat (fcard (online_set line m)), set_online line (online_set line m) m)"

definition handle_report_online_number :: "(u32 \<times> u8 list) list \<Rightarrow> member_server \<Rightarrow> member_server" where
  "handle_report_online_number infos = fold (\<lambda>(line, account). player_login_success line account) infos"

definition get_daily_top_players :: "member_db \<Rightarrow> u32" where
  "get_daily_top_players db =
     (case db_online_numbers db of
        None \<Rightarrow> 0
      | Some nums \<Rightarrow> (case rev (sort nums) of [] \<Rightarrow> 0 | n # ns \<Rightarrow> n))"

text \<open>The sum is an \<^verbatim>\<open>int\<close>, which wraps around in 32 bits.\<close>

definition get_daily_average_players :: "member_db \<Rightarrow> u32" where
  "get_daily_average_players db =
     (case db_online_numbers db of
        None \<Rightarrow> 0
      | Some nums \<Rightarrow>
          (if nums = [] then 0
           else (let s = sum_list nums; n = length nums in
                 of_nat (unat s div n) + (if unat s mod n \<noteq> 0 then 1 else 0))))"

definition number_svc :: "member_server \<Rightarrow> member_server" where
  "number_svc m = update_online_number_to_db (mb_current m) m"

section \<open>Requests of the operators\<close>

definition handle_member_login :: "u8 list \<Rightarrow> packet \<Rightarrow> member_server \<Rightarrow> member_server" where
  "handle_member_login behind p m =
     (if unat (body_size p) \<noteq> login_size then m
      else (let l = member_login_struct behind (packet_body p);
                m = ask (ucast (ml_request_index l)) (p_owner p) m in
            m\<lparr> mb_gates := mb_gates m @ [(p_owner p, Gate_login l)] \<rparr>))"

definition handle_member_charge :: "u8 list \<Rightarrow> packet \<Rightarrow> member_server \<Rightarrow> member_server" where
  "handle_member_charge behind p m =
     (if unat (body_size p) \<noteq> charge_size then m
      else (let c = member_charge_struct behind (packet_body p);
                m = ask (ucast (mc_request_index c)) (p_owner p) m in
            m\<lparr> mb_gates := mb_gates m @ [(p_owner p, Gate_charge c)] \<rparr>))"

definition handle_member_give_gift :: "u8 list \<Rightarrow> packet \<Rightarrow> member_server \<Rightarrow> member_server" where
  "handle_member_give_gift behind p m =
     (if unat (body_size p) \<noteq> gift_size then m
      else (let g = member_gift_struct behind (packet_body p);
                m = ask (ucast (mg_request_index g)) (p_owner p) m in
            m\<lparr> mb_gates := mb_gates m @ [(p_owner p, Gate_gift g)] \<rparr>))"

text \<open>One struct is filled again and again, and pushed as it is.\<close>

primrec query_from_account :: "role_struct \<Rightarrow> (u8 list \<times> u8 list) list \<Rightarrow> role_struct list" where
  "query_from_account r [] = []"
| "query_from_account r (row # rows) =
     (let r = r\<lparr> rs_role_id := copy_chars 24 (rs_role_id r) (fst row),
                 rs_role_name := copy_chars 32 (rs_role_name r) (snd row), rs_role_level := 1 \<rparr> in
      r # query_from_account r rows)"

text \<open>The id is compared as a C string.\<close>

definition query_from_game :: "(u8 list \<times> u32 \<times> u32) list \<Rightarrow> role_struct list \<Rightarrow> role_struct list" where
  "query_from_game rows rs =
     fold (\<lambda>(g, level, line) rs. map (\<lambda>r.
         if c_string g = c_string (encode_role r) then r\<lparr> rs_role_level := level, rs_line_id := line \<rparr> else r) rs) rows rs"

definition query_role_info :: "member_db \<Rightarrow> role_struct list option" where
  "query_role_info db =
     (case db_account_roles db of
        None \<Rightarrow> None
      | Some rows \<Rightarrow>
          (let rs = query_from_account new_role_struct rows in
           case db_game_roles db of None \<Rightarrow> Some rs | Some gs \<Rightarrow> Some (query_from_game gs rs)))"

definition query_role_size :: nat where "query_role_size = 40"

definition handle_member_query_role :: "member_db \<Rightarrow> packet \<Rightarrow> member_server \<Rightarrow> member_server" where
  "handle_member_query_role db p m =
     (if unat (body_size p) \<noteq> query_role_size then m
      else (let bs = packet_body p; index = field32 0 bs;
                roles = query_role_info db;
                status = (if roles = None then 2 else 1 :: u32);
                rs = (case roles of None \<Rightarrow> [] | Some rs \<Rightarrow> rs);
                body = le_bytes 4 index @ copy_chars 32 (zeros 32) (drop 4 bs) @ le_bytes 4 (field32 36 bs) @
                  le_bytes 4 status @ le_bytes 4 (of_nat (length rs) :: u32) @ concat (map encode_role rs);
                m = ask (ucast index) (p_owner p) m in
            reply opcode_query_role_return (ucast index) body m))"

definition query_online_size :: nat where "query_online_size = 8"

definition handle_member_query_online_number :: "packet \<Rightarrow> member_server \<Rightarrow> member_server" where
  "handle_member_query_online_number p m =
     (if unat (body_size p) \<noteq> query_online_size then m
      else (let bs = packet_body p; index = field32 0 bs; line = field32 4 bs;
                (n, m) = get_online_number line m;
                m = ask (ucast index) (p_owner p) m in
            reply opcode_online_number (ucast index) (le_bytes 4 index @ le_bytes 4 line @ le_bytes 4 n) m))"

text \<open>The users of one page of those who registered on a day.\<close>

definition total_pages :: "u32 \<Rightarrow> u32 \<Rightarrow> u32" where
  "total_pages guids_size per_page = guids_size div per_page + (if guids_size mod per_page \<noteq> 0 then 1 else 0)"

definition page_guids :: "u64 list \<Rightarrow> u32 \<Rightarrow> u32 \<Rightarrow> u64 list" where
  "page_guids guids per_page page =
     (let size = of_nat (length guids); start = min ((page - 1) * per_page) (size - 1) in
      take (unat per_page) (drop (unat start) (sort guids)))"

definition register_info :: "member_db \<Rightarrow> u64 \<Rightarrow> user_info list" where
  "register_info db g = (case db_register_info db g of None \<Rightarrow> [] | Some us \<Rightarrow> us)"

definition query_register_user :: "member_db \<Rightarrow> u64 list" where
  "query_register_user db = (case db_register_guids db of None \<Rightarrow> [] | Some gs \<Rightarrow> gs)"

definition query_register_user_info :: "member_db \<Rightarrow> u32 \<Rightarrow> u32 \<Rightarrow> json_message" where
  "query_register_user_info db per_page page =
     (if per_page = 0 \<or> page = 0 then Register_user_info 0 [] 1
      else (let guids = query_register_user db; size = of_nat (length guids) in
            if size = 0 then Register_user_info 0 [] 0
            else if total_pages size per_page < page then Register_user_info (total_pages size per_page) [] 0
            else Register_user_info (total_pages size per_page)
                   (concat (map (register_info db) (page_guids guids per_page page))) 0))"

definition query_register_size :: nat where "query_register_size = 26"

definition handle_query_register_user_info :: "member_cfg \<Rightarrow> member_db \<Rightarrow> packet \<Rightarrow> member_server \<Rightarrow> member_server" where
  "handle_query_register_user_info cf db p m =
     (if unat (body_size p) \<noteq> query_register_size then m
      else (let bs = packet_body p; index = field32 0 bs;
                msg = query_register_user_info db (field32 14 bs) (field32 18 bs);
                m = ask (ucast index) (p_owner p) m in
            reply opcode_register_players (ucast index) (cf_json cf msg) m))"

definition query_daily_size :: nat where "query_daily_size = 18"

definition handle_query_daily_players ::
  "member_cfg \<Rightarrow> u16 \<Rightarrow> (member_db \<Rightarrow> u32) \<Rightarrow> member_db \<Rightarrow> packet \<Rightarrow> member_server \<Rightarrow> member_server" where
  "handle_query_daily_players cf op number db p m =
     (if unat (body_size p) \<noteq> query_daily_size then m
      else (let index = field32 0 (packet_body p);
                msg = Daily_players 0 (number db);
                m = ask (ucast index) (p_owner p) m in
            reply op (ucast index) (cf_json cf msg) m))"

definition member_input :: "member_cfg \<Rightarrow> member_db \<Rightarrow> u8 list \<Rightarrow> packet \<Rightarrow> member_server \<Rightarrow> member_server" where
  "member_input cf db behind p m =
     (let op = packet_opcode p in
      if op = opcode_member_login then handle_member_login behind p m
      else if op = opcode_member_charge then handle_member_charge behind p m
      else if op = opcode_query_role then handle_member_query_role db p m
      else if op = opcode_query_online_number then handle_member_query_online_number p m
      else if op = opcode_give_gift then handle_member_give_gift behind p m
      else if op = opcode_query_register_players then handle_query_register_user_info cf db p m
      else if op = opcode_query_daily_top then handle_query_daily_players cf opcode_daily_top get_daily_top_players db p m
      else if op = opcode_query_daily_average
           then handle_query_daily_players cf opcode_daily_average get_daily_average_players db p m
      else m)"

section \<open>Registration\<close>

definition register_size :: nat where "register_size = 36"

definition check_member_register :: "member_cfg \<Rightarrow> u8 list \<Rightarrow> bool" where
  "check_member_register cf bs \<longleftrightarrow> c_string (cf_security_key cf) = c_string (copy_chars 32 (zeros 100) (drop 4 bs))"

text \<open>Head and struct are received as a whole; a failed registration closes the session.\<close>

definition process_member_register :: "member_cfg \<Rightarrow> nat \<Rightarrow> u8 list \<Rightarrow> member_server \<Rightarrow> member_server" where
  "process_member_register cf a bs m =
     (if client_opcode bs = opcode_member_register \<and> check_member_register cf (drop client_head_size bs)
      then (let m = reply opcode_register_success (of_nat a) [] (ask (of_nat a) a m) in
            m\<lparr> mb_sessions := (if a \<in> set (mb_sessions m) then mb_sessions m else a # mb_sessions m) \<rparr>)
      else m\<lparr> mb_wire := (mb_wire m)(a := mb_wire m a @ encode_client_head opcode_register_failed 0) \<rparr>)"

section \<open>Answers of the gates\<close>

definition get_gate_addr_by_type :: "member_cfg \<Rightarrow> u32 \<Rightarrow> u8 list" where
  "get_gate_addr_by_type cf t = (if t = 1 then cf_client_addr_1 cf else cf_client_addr_2 cf)"

definition handle_gate_login_respond :: "member_cfg \<Rightarrow> u32 \<Rightarrow> u8 list \<Rightarrow> u32 \<Rightarrow> member_server \<Rightarrow> member_server" where
  "handle_gate_login_respond cf index account t m =
     reply opcode_login_respond (ucast index)
       (le_bytes 4 index @ copy_chars 32 (zeros 32) account @ copy_chars 32 (zeros 32) (get_gate_addr_by_type cf t)) m"

definition handle_member_charge_confirm :: "u32 \<Rightarrow> u8 list \<Rightarrow> u32 \<Rightarrow> member_server \<Rightarrow> member_server" where
  "handle_member_charge_confirm index account result m =
     reply opcode_charge_confirm (ucast index)
       (le_bytes 4 index @ copy_chars 32 (zeros 32) account @ le_bytes 4 result) m"

definition handle_member_give_gift_packet ::
  "u32 \<Rightarrow> u32 \<Rightarrow> u8 list \<Rightarrow> u8 list \<Rightarrow> u32 \<Rightarrow> member_server \<Rightarrow> member_server" where
  "handle_member_give_gift_packet index line account role result m =
     reply opcode_gift_given (ucast index)
       (le_bytes 4 index @ le_bytes 4 line @ copy_chars 32 (zeros 32) account @ copy_chars 24 (zeros 24) role @
        le_bytes 4 result) m"

definition gate_input :: "member_cfg \<Rightarrow> gate_answer \<Rightarrow> member_server \<Rightarrow> member_server" where
  "gate_input cf g m =
     (case g of
        Gate_login_respond index account t \<Rightarrow> handle_gate_login_respond cf index account t m
      | Gate_login_confirm index account line \<Rightarrow> player_login_success line account m
      | Gate_charge_confirm index account result \<Rightarrow> handle_member_charge_confirm index account result m
      | Gate_gift_given index line account role result \<Rightarrow> handle_member_give_gift_packet index line account role result m
      | Gate_report_online infos \<Rightarrow> handle_report_online_number infos m
      | Gate_logoff account line \<Rightarrow> player_loginoff line account m
      | Gate_other \<Rightarrow> m)"

section \<open>The server as a machine\<close>

text \<open>Packets of a session have it as their owner; a lost session is taken off the list, closed, and deleted
  15 microseconds later.\<close>

datatype member_event =
    Operator_registers nat "u8 list"
  | Operator_sends nat packet member_db "u8 list"
  | Operator_lost nat
  | Gates_send gate_answer
  | Output_svc "(nat \<times> bool) list"
  | Number_svc

definition member_step :: "member_cfg \<Rightarrow> member_event \<Rightarrow> member_server \<Rightarrow> member_server" where
  "member_step cf e m =
     (case e of
        Operator_registers a bs \<Rightarrow> process_member_register cf a bs m
      | Operator_sends a p db behind \<Rightarrow> member_input cf db behind (set_owner a p) m
      | Operator_lost a \<Rightarrow> remove_member_session a m
      | Gates_send g \<Rightarrow> gate_input cf g m
      | Output_svc rs \<Rightarrow> output_svc rs m
      | Number_svc \<Rightarrow> number_svc m)"

end
