(* ===== verification/MemberRuns.thy ===== *)
theory MemberRuns
  imports Member
begin

text \<open>
  The member server in its runs: who gets a reply, who is online, and what the numbers in the database say.
\<close>

section \<open>Fields that steps do not change\<close>

lemma ask_fields [simp]:
  "mb_asked (ask i a m) = mb_asked m @ [(a, i)]" "mb_replies (ask i a m) = mb_replies m" "mb_output (ask i a m) = mb_output m"
  "mb_online (ask i a m) = mb_online m" "mb_current (ask i a m) = mb_current m" "mb_max (ask i a m) = mb_max m"
  "mb_numbers (ask i a m) = mb_numbers m" "mb_gates (ask i a m) = mb_gates m" "mb_lost (ask i a m) = mb_lost m"
  "mb_routes (ask i a m) = (if mb_routes m i = None then (mb_routes m)(i \<mapsto> a) else mb_routes m)"
  by (simp_all add: ask_def add_member_route_def split: option.split)

lemma reply_fields [simp]:
  "mb_asked (reply op i body m) = mb_asked m" "mb_replies (reply op i body m) = mb_replies m"
  "mb_routes (reply op i body m) = mb_routes m" "mb_online (reply op i body m) = mb_online m"
  "mb_current (reply op i body m) = mb_current m" "mb_max (reply op i body m) = mb_max m"
  "mb_numbers (reply op i body m) = mb_numbers m" "mb_gates (reply op i body m) = mb_gates m"
  "mb_output (reply op i body m) = mb_output m @ [set_owner (unat i) (new_packet op 0 body)]"
  "mb_lost (reply op i body m) = mb_lost m"
  by (simp_all add: reply_def)

lemma set_online_fields [simp]:
  "mb_asked (set_online l s m) = mb_asked m" "mb_replies (set_online l s m) = mb_replies m"
  "mb_routes (set_online l s m) = mb_routes m" "mb_gates (set_online l s m) = mb_gates m"
  "mb_output (set_online l s m) = mb_output m" "mb_current (set_online l s m) = mb_current m"
  "mb_max (set_online l s m) = mb_max m" "mb_numbers (set_online l s m) = mb_numbers m"
  "mb_lost (set_online l s m) = mb_lost m"
  by (simp_all add: set_online_def)

lemma login_success_fields [simp]:
  "mb_asked (player_login_success l a m) = mb_asked m" "mb_replies (player_login_success l a m) = mb_replies m"
  "mb_routes (player_login_success l a m) = mb_routes m" "mb_gates (player_login_success l a m) = mb_gates m"
  "mb_output (player_login_success l a m) = mb_output m" "mb_lost (player_login_success l a m) = mb_lost m"
  by (simp_all add: player_login_success_def update_online_number_to_db_def Let_def)

lemma report_fields [simp]:
  "mb_asked (handle_report_online_number is m) = mb_asked m" "mb_replies (handle_report_online_number is m) = mb_replies m"
  "mb_routes (handle_report_online_number is m) = mb_routes m" "mb_gates (handle_report_online_number is m) = mb_gates m"
  "mb_output (handle_report_online_number is m) = mb_output m" "mb_lost (handle_report_online_number is m) = mb_lost m"
  by (induction "is" arbitrary: m) (simp_all add: handle_report_online_number_def split: prod.splits)

lemmas operator_handlers = member_input_def handle_member_login_def handle_member_charge_def handle_member_give_gift_def
  handle_member_query_role_def handle_member_query_online_number_def handle_query_register_user_info_def
  handle_query_daily_players_def get_online_number_def

lemmas gate_handlers = gate_input_def handle_gate_login_respond_def handle_member_charge_confirm_def
  handle_member_give_gift_packet_def player_loginoff_def

text \<open>A packet of an operator asks with one index at most, and adds one route at most.\<close>

definition asks_once :: "nat \<Rightarrow> member_server \<Rightarrow> member_server \<Rightarrow> bool" where
  "asks_once a m n \<longleftrightarrow> mb_replies n = mb_replies m \<and> mb_lost n = mb_lost m \<and>
     (mb_asked n = mb_asked m \<and> mb_routes n = mb_routes m \<or>
      (\<exists>i. mb_asked n = mb_asked m @ [(a, i)] \<and>
        mb_routes n = (if mb_routes m i = None then (mb_routes m)(i \<mapsto> a) else mb_routes m)))"

lemma asks_once_build [simp]:
  "asks_once a m (ask i a m)" "asks_once a m (reply op i body n) = asks_once a m n"
  "asks_once a m (n\<lparr> mb_gates := gs \<rparr>) = asks_once a m n" "asks_once a (set_online l s m) n = asks_once a m n"
  "asks_once a m (n\<lparr> mb_sessions := ss \<rparr>) = asks_once a m n" "asks_once a m (n\<lparr> mb_wire := w \<rparr>) = asks_once a m n"
  by (auto simp: asks_once_def)

lemma asks_once_refl: "asks_once a m m"
  by (simp add: asks_once_def)

lemma handlers_ask_once:
  "asks_once (p_owner p) m (handle_member_login behind p m)"
  "asks_once (p_owner p) m (handle_member_charge behind p m)"
  "asks_once (p_owner p) m (handle_member_give_gift behind p m)"
  "asks_once (p_owner p) m (handle_member_query_role db p m)"
  "asks_once (p_owner p) m (handle_member_query_online_number p m)"
  "asks_once (p_owner p) m (handle_query_register_user_info cf db p m)"
  "asks_once (p_owner p) m (handle_query_daily_players cf op number db p m)"
  by (simp_all add: operator_handlers asks_once_refl Let_def asks_once_build(1) [of a "set_online l s m" for a l s m,
      unfolded asks_once_build(4)])

lemma input_asks_once: "asks_once (p_owner p) m (member_input cf db behind p m)"
  unfolding member_input_def Let_def by (simp add: handlers_ask_once asks_once_refl)

lemma register_asks_once: "asks_once a m (process_member_register cf a bs m)"
  by (simp add: process_member_register_def asks_once_refl Let_def)

section \<open>Replies go to those who asked\<close>

abbreviation reply_index :: "nat \<times> packet \<Rightarrow> nat \<times> u64" where
  "reply_index x \<equiv> (fst x, of_nat (p_owner (snd x)))"

definition replies_ok :: "member_server \<Rightarrow> bool" where
  "replies_ok m \<longleftrightarrow> (\<forall>a i. count_list (map reply_index (mb_replies m)) (a, i) + (if mb_routes m i = Some a then 1 else 0) \<le>
     count_list (mb_asked m) (a, i))"

lemma replies_ok_same:
  "replies_ok m \<Longrightarrow> mb_replies n = mb_replies m \<Longrightarrow> mb_asked n = mb_asked m \<Longrightarrow> mb_routes n = mb_routes m \<Longrightarrow> replies_ok n"
  by (simp add: replies_ok_def)

lemma replies_ok_asks:
  assumes m: "replies_ok m" and n: "asks_once b m n"
  shows "replies_ok n"
proof (cases "mb_asked n = mb_asked m \<and> mb_routes n = mb_routes m")
  case True
  then show ?thesis using assms replies_ok_same by (simp add: asks_once_def)
next
  case False
  then obtain j where j: "mb_replies n = mb_replies m" "mb_asked n = mb_asked m @ [(b, j)]"
      "mb_routes n = (if mb_routes m j = None then (mb_routes m)(j \<mapsto> b) else mb_routes m)"
    using n by (auto simp: asks_once_def)
  show ?thesis unfolding replies_ok_def
  proof (intro allI)
    fix a i
    have "count_list (map reply_index (mb_replies m)) (a, i) + (if mb_routes m i = Some a then 1 else 0) \<le> count_list (mb_asked m) (a, i)"
      using m by (simp add: replies_ok_def)
    then show "count_list (map reply_index (mb_replies n)) (a, i) + (if mb_routes n i = Some a then 1 else 0) \<le> count_list (mb_asked n) (a, i)"
      using j by (auto split: if_splits)
  qed
qed

lemma replies_ok_output:
  assumes m: "replies_ok m"
  shows "replies_ok (output_svc rs m)"
proof (cases "mb_output m")
  case (Cons p ps)
  let ?i = "of_nat (p_owner p) :: u64"
  show ?thesis
  proof (cases "mb_routes m ?i")
    case None
    then show ?thesis
      using m by (simp add: output_svc_def Cons process_packet_def get_member_by_route_def replies_ok_def)
  next
    case (Some b)
    show ?thesis unfolding replies_ok_def
    proof (intro allI)
      fix a i
      have "count_list (map reply_index (mb_replies m)) (a, i) + (if mb_routes m i = Some a then 1 else 0) \<le> count_list (mb_asked m) (a, i)"
        using m by (simp add: replies_ok_def)
      then show "count_list (map reply_index (mb_replies (output_svc rs m))) (a, i) +
          (if mb_routes (output_svc rs m) i = Some a then 1 else 0) \<le> count_list (mb_asked (output_svc rs m)) (a, i)"
        using Some by (auto simp: output_svc_def Cons process_packet_def get_member_by_route_def split: if_splits)
    qed
  qed
qed (use m in \<open>simp add: output_svc_def\<close>)

lemma replies_ok_step: "replies_ok m \<Longrightarrow> replies_ok (member_step cf e m)"
proof (cases e)
  case (Operator_sends a p db behind)
  assume m: "replies_ok m"
  have "asks_once a m (member_input cf db behind (set_owner a p) m)"
    using input_asks_once [of "set_owner a p"] by (simp add: set_owner_def)
  then show ?thesis using m replies_ok_asks Operator_sends by (simp add: member_step_def)
next
  case (Operator_registers a bs)
  assume "replies_ok m"
  then show ?thesis using replies_ok_asks [OF _ register_asks_once] Operator_registers by (simp add: member_step_def)
next
  case (Gates_send g)
  assume "replies_ok m"
  then show ?thesis
    using Gates_send replies_ok_same [of m "gate_input cf g m"]
    by (simp add: member_step_def) (simp add: gate_handlers split: gate_answer.splits)
qed (auto simp: member_step_def replies_ok_output remove_member_session_def number_svc_def update_online_number_to_db_def
    elim: replies_ok_same)

interpretation replying: invariant_machine "member_step cf" "\<lambda>_ _. True" replies_ok for cf
  by unfold_locales (rule replies_ok_step)

lemma replies_ok_new: "replies_ok new_member_server"
  by (simp add: replies_ok_def new_member_server_def)

section \<open>Confirmed payments\<close>

text \<open>Requests carry indexes of their own, as \<^verbatim>\<open>MemberProtocol.h\<close> asks, and the gates confirm only payments they got.\<close>

definition member_allowed :: "member_cfg \<Rightarrow> member_event \<Rightarrow> member_server \<Rightarrow> bool" where
  "member_allowed cf e m \<longleftrightarrow> distinct (map snd (mb_asked (member_step cf e m))) \<and>
     (case e of
        Gates_send (Gate_charge_confirm i account r) \<Rightarrow>
          list_ex (\<lambda>x. case snd x of Gate_charge c \<Rightarrow> mc_request_index c = i \<and> mc_account c = account | _ \<Rightarrow> False) (mb_gates m)
      | _ \<Rightarrow> True)"

definition confirm_body :: "member_charge \<Rightarrow> u32 \<Rightarrow> u8 list" where
  "confirm_body c r = le_bytes 4 (mc_request_index c) @ copy_chars 32 (zeros 32) (mc_account c) @ le_bytes 4 r"

definition confirm_for :: "member_server \<Rightarrow> packet \<Rightarrow> bool" where
  "confirm_for m p \<longleftrightarrow> packet_opcode p = opcode_charge_confirm \<longrightarrow>
     (\<exists>b c r. (b, Gate_charge c) \<in> set (mb_gates m) \<and>
        p = set_owner (unat (ucast (mc_request_index c) :: u64)) (new_packet opcode_charge_confirm 0 (confirm_body c r)))"

definition confirms_ok :: "member_server \<Rightarrow> bool" where
  "confirms_ok m \<longleftrightarrow> replies_ok m \<and> distinct (map snd (mb_asked m)) \<and>
     (\<forall>a c. (a, Gate_charge c) \<in> set (mb_gates m) \<longrightarrow> (a, ucast (mc_request_index c)) \<in> set (mb_asked m)) \<and>
     (\<forall>p \<in> set (mb_output m) \<union> snd ` set (mb_replies m). confirm_for m p)"

text \<open>What a step adds for others than the gates' confirmations.\<close>

definition adds :: "nat \<Rightarrow> member_server \<Rightarrow> member_server \<Rightarrow> bool" where
  "adds a m n \<longleftrightarrow> mb_replies n = mb_replies m \<and>
     (\<exists>qs. mb_output n = mb_output m @ qs \<and> (\<forall>q \<in> set qs. packet_opcode q \<noteq> opcode_charge_confirm)) \<and>
     (\<exists>is. mb_asked n = mb_asked m @ is) \<and>
     (\<exists>gs. mb_gates n = mb_gates m @ gs \<and>
        (\<forall>x \<in> set gs. fst x = a \<and> (\<forall>c. snd x = Gate_charge c \<longrightarrow> (a, ucast (mc_request_index c)) \<in> set (mb_asked n))))"

lemma adds_refl: "adds a m m"
  by (simp add: adds_def)

lemma addsI:
  "mb_replies n = mb_replies m \<Longrightarrow> mb_output n = mb_output m @ qs \<Longrightarrow>
    \<forall>q \<in> set qs. packet_opcode q \<noteq> opcode_charge_confirm \<Longrightarrow> mb_asked n = mb_asked m @ js \<Longrightarrow> mb_gates n = mb_gates m @ gs \<Longrightarrow>
    \<forall>x \<in> set gs. fst x = a \<and> (\<forall>c. snd x = Gate_charge c \<longrightarrow> (a, ucast (mc_request_index c)) \<in> set (mb_asked n)) \<Longrightarrow> adds a m n"
  by (auto simp: adds_def)

lemma adds_reply:
  "op \<noteq> opcode_charge_confirm \<Longrightarrow> adds a m (reply op i body (ask j a m))"
  by (rule addsI [where qs = "[set_owner (unat i) (new_packet op 0 body)]" and js = "[(a, j)]" and gs = "[]"]) auto

lemma adds_gate:
  assumes "\<forall>c. r = Gate_charge c \<longrightarrow> j = ucast (mc_request_index c)"
  shows "adds a m ((ask j a m)\<lparr> mb_gates := mb_gates m @ [(a, r)] \<rparr>)"
  by (rule addsI [where qs = "[]" and js = "[(a, j)]" and gs = "[(a, r)]"]) (use assms in auto)

lemma adds_gates:
  "adds a m ((ask j a m)\<lparr> mb_gates := mb_gates m @ [(a, Gate_login l)] \<rparr>)"
  "adds a m ((ask j a m)\<lparr> mb_gates := mb_gates m @ [(a, Gate_gift g)] \<rparr>)"
  "adds a m ((ask (ucast (mc_request_index c)) a m)\<lparr> mb_gates := mb_gates m @ [(a, Gate_charge c)] \<rparr>)"
  by (rule adds_gate, simp)+

lemma adds_online [simp]: "adds a (set_online l s m) n = adds a m n"
  by (simp add: adds_def)

lemma handlers_add:
  "adds (p_owner p) m (handle_member_login behind p m)"
  "adds (p_owner p) m (handle_member_charge behind p m)"
  "adds (p_owner p) m (handle_member_give_gift behind p m)"
  "adds (p_owner p) m (handle_member_query_role db p m)"
  "adds (p_owner p) m (handle_query_register_user_info cf db p m)"
  "op \<noteq> opcode_charge_confirm \<Longrightarrow> adds (p_owner p) m (handle_query_daily_players cf op number db p m)"
  by (simp_all add: operator_handlers adds_refl adds_reply adds_gates Let_def member_opcodes)

lemma online_query_adds: "adds (p_owner p) m (handle_member_query_online_number p m)"
  using adds_reply [of opcode_online_number "p_owner p" "set_online l s m" for l s]
  by (simp add: operator_handlers adds_refl Let_def member_opcodes)

lemma input_adds: "adds (p_owner p) m (member_input cf db behind p m)"
  unfolding member_input_def Let_def by (simp add: handlers_add online_query_adds adds_refl member_opcodes)

lemma adds_fields [simp]:
  "adds a m (n\<lparr> mb_sessions := ss \<rparr>) = adds a m n" "adds a m (n\<lparr> mb_wire := w \<rparr>) = adds a m n"
  by (simp_all add: adds_def)

lemma register_adds: "adds a m (process_member_register cf a bs m)"
  by (simp add: process_member_register_def adds_reply adds_refl member_opcodes Let_def)

lemma confirms_ok_adds:
  assumes m: "confirms_ok m" and n: "adds a m n" "replies_ok n" "distinct (map snd (mb_asked n))"
  shows "confirms_ok n"
proof -
  have mono: "confirm_for n p" if "confirm_for m p" for p
    using that n(1) by (auto simp: confirm_for_def adds_def) blast
  obtain gs where gs: "mb_gates n = mb_gates m @ gs"
      "\<forall>x \<in> set gs. fst x = a \<and> (\<forall>c. snd x = Gate_charge c \<longrightarrow> (a, ucast (mc_request_index c)) \<in> set (mb_asked n))"
    using n(1) by (auto simp: adds_def)
  have "(b, ucast (mc_request_index c)) \<in> set (mb_asked n)" if "(b, Gate_charge c) \<in> set (mb_gates n)" for b c
    using that gs m n(1) by (fastforce simp: confirms_ok_def adds_def)
  moreover have "confirm_for n p" if "p \<in> set (mb_output n) \<union> snd ` set (mb_replies n)" for p
  proof (cases "p \<in> set (mb_output m) \<union> snd ` set (mb_replies m)")
    case True
    then show ?thesis using m mono by (simp add: confirms_ok_def)
  next
    case False
    then have "packet_opcode p \<noteq> opcode_charge_confirm" using that n(1) by (auto simp: adds_def)
    then show ?thesis by (simp add: confirm_for_def)
  qed
  ultimately show ?thesis using n(2,3) by (simp add: confirms_ok_def)
qed

lemma confirms_ok_same:
  "confirms_ok m \<Longrightarrow> mb_replies n = mb_replies m \<Longrightarrow> mb_asked n = mb_asked m \<Longrightarrow> mb_routes n = mb_routes m \<Longrightarrow>
    mb_gates n = mb_gates m \<Longrightarrow> mb_output n = mb_output m \<Longrightarrow> confirms_ok n"
  by (simp add: confirms_ok_def replies_ok_def confirm_for_def)

lemma confirms_ok_put:
  assumes "confirms_ok m" "confirm_for m p" "mb_output n = mb_output m @ [p]"
    and "mb_replies n = mb_replies m" "mb_asked n = mb_asked m" "mb_routes n = mb_routes m" "mb_gates n = mb_gates m"
  shows "confirms_ok n"
  using assms by (auto simp: confirms_ok_def replies_ok_def confirm_for_def)

lemma confirms_ok_output:
  assumes m: "confirms_ok m"
  shows "confirms_ok (output_svc rs m)"
proof -
  have "replies_ok (output_svc rs m)" using m replies_ok_output by (simp add: confirms_ok_def)
  moreover have "mb_gates (output_svc rs m) = mb_gates m" "mb_asked (output_svc rs m) = mb_asked m"
    by (simp_all add: output_svc_def process_packet_def get_member_by_route_def split: list.split option.split)
  moreover have "set (mb_output (output_svc rs m)) \<union> snd ` set (mb_replies (output_svc rs m)) \<subseteq>
      set (mb_output m) \<union> snd ` set (mb_replies m)"
    by (auto simp: output_svc_def process_packet_def get_member_by_route_def split: list.split option.split)
  moreover have "confirm_for (output_svc rs m) = confirm_for m" using calculation(2) by (simp add: confirm_for_def fun_eq_iff)
  ultimately show ?thesis using m unfolding confirms_ok_def by (simp add: subset_iff) blast
qed

lemma gate_input_confirms:
  assumes m: "confirms_ok m" and e: "member_allowed cf (Gates_send g) m"
  shows "confirms_ok (gate_input cf g m)"
proof (cases g)
  case (Gate_charge_confirm i account r)
  then obtain x where x: "x \<in> set (mb_gates m)"
      "case snd x of Gate_charge c \<Rightarrow> mc_request_index c = i \<and> mc_account c = account | _ \<Rightarrow> False"
    using e by (auto simp: member_allowed_def list_ex_iff)
  obtain b y where y: "x = (b, y)" by (cases x)
  have "\<exists>c. y = Gate_charge c \<and> mc_request_index c = i \<and> mc_account c = account" using x(2) y by (cases y) simp_all
  then obtain c where c: "(b, Gate_charge c) \<in> set (mb_gates m)" "mc_request_index c = i" "mc_account c = account"
    using x(1) y by blast
  then have "confirm_for m (set_owner (unat (ucast i :: u64)) (new_packet opcode_charge_confirm 0 (confirm_body c r)))"
    by (auto simp: confirm_for_def)
  then show ?thesis
    using c Gate_charge_confirm
    by (intro confirms_ok_put [OF m]) (simp_all add: gate_handlers confirm_body_def)
next
  case (Gate_login_respond i account t)
  show ?thesis
    by (rule confirms_ok_put [OF m]) (simp_all add: Gate_login_respond gate_handlers confirm_for_def member_opcodes)
next
  case (Gate_gift_given i line account role r)
  show ?thesis
    by (rule confirms_ok_put [OF m]) (simp_all add: Gate_gift_given gate_handlers confirm_for_def member_opcodes)
qed (rule confirms_ok_same [OF m]; simp add: gate_handlers)+

lemma confirms_ok_step:
  assumes m: "confirms_ok m" and e: "member_allowed cf e m"
  shows "confirms_ok (member_step cf e m)"
proof -
  have r: "replies_ok (member_step cf e m)" "distinct (map snd (mb_asked (member_step cf e m)))"
    using m e replies_ok_step by (simp_all add: confirms_ok_def member_allowed_def)
  show ?thesis
  proof (cases e)
    case (Operator_sends a p db behind)
    have "adds a m (member_input cf db behind (set_owner a p) m)"
      using input_adds [of "set_owner a p"] by (simp add: set_owner_def)
    then show ?thesis using confirms_ok_adds [OF m _ r] Operator_sends by (simp add: member_step_def)
  next
    case (Operator_registers a bs)
    then show ?thesis using confirms_ok_adds [OF m _ r, of a] register_adds [of a] by (simp add: member_step_def)
  next
    case (Gates_send g)
    then show ?thesis using gate_input_confirms [OF m] e by (simp add: member_step_def)
  next
    case (Output_svc rs)
    then show ?thesis using confirms_ok_output [OF m] by (simp add: member_step_def)
  qed (use confirms_ok_same [OF m] in \<open>simp_all add: member_step_def remove_member_session_def number_svc_def
      update_online_number_to_db_def\<close>)
qed

interpretation confirming: invariant_machine "member_step cf" "member_allowed cf" confirms_ok for cf
  by unfold_locales (rule confirms_ok_step)

lemma confirms_ok_new: "confirms_ok new_member_server"
  by (simp add: confirms_ok_def replies_ok_new) (simp add: new_member_server_def)

end
