(* ===== verification/MemberClaims.thy ===== *)
theory MemberClaims
  imports MemberRuns
begin

text \<open>
  What the member server promises: replies and confirmations reach those who asked, pages and numbers are right, and
  where names, accounts and numbers are wrong.
\<close>

section \<open>Pages\<close>

lemma concat_chunks: "concat (map (\<lambda>j. take n (drop (j * n) xs)) [0 ..< k]) = take (k * n) xs"
  by (induction k) (simp_all add: take_add [symmetric] add.commute)

lemma unat_total_pages:
  assumes "length xs < 2 ^ 32" "n \<noteq> 0"
  shows "unat (total_pages (of_nat (length xs)) n) =
    length xs div unat n + (if length xs mod unat n \<noteq> 0 then 1 else 0)"
proof -
  let ?L = "length xs" and ?s = "of_nat (length xs) :: u32"
  have L: "unat ?s = ?L" using assms(1) by (simp add: unat_of_nat)
  have mod0: "?s mod n = 0 \<longleftrightarrow> ?L mod unat n = 0" by (metis L unat_eq_zero unat_mod)
  have "?L div unat n + 1 < 2 ^ 32" if m: "?L mod unat n \<noteq> 0"
  proof -
    have "2 \<le> unat n" using m assms(2) by (cases "unat n") (auto simp: unat_eq_zero Suc_le_eq intro: Suc_leI gr0I)
    then have "?L div unat n \<le> ?L div 2" by (rule div_le_mono2 [rotated]) simp
    then show ?thesis using assms(1) by simp
  qed
  moreover have "?L div unat n < 2 ^ 32" 
    using div_le_dividend [of ?L "unat n"] assms(1) by (rule le_less_trans)
  ultimately show ?thesis
    using mod0 L by (auto simp: total_pages_def unat_word_ariths unat_div)
qed

lemma pages_reach:
  fixes L n :: nat
  assumes "0 < n"
  shows "L \<le> (L div n + (if L mod n \<noteq> 0 then 1 else 0)) * n"
    "j < L div n + (if L mod n \<noteq> 0 then 1 else 0) \<Longrightarrow> j * n < L"
proof -
  have L: "L = L div n * n + L mod n" by simp
  show "L \<le> (L div n + (if L mod n \<noteq> 0 then 1 else 0)) * n"
  proof (cases "L mod n = 0")
    case False
    have "(L div n + 1) * n = L div n * n + n" by simp
    moreover have "L < L div n * n + n" using mod_less_divisor [OF assms, of L] by (subst L) (simp only: add_less_cancel_left)
    ultimately show ?thesis using False by simp
  qed (use L in simp)
  assume j: "j < L div n + (if L mod n \<noteq> 0 then 1 else 0)"
  show "j * n < L"
  proof (cases "j < L div n")
    case True
    then have "Suc j * n \<le> L div n * n" by (intro mult_le_mono1) simp
    moreover have "j * n < Suc j * n" using assms by simp
    ultimately show ?thesis using div_times_less_eq_dividend [of L n] by (meson le_less_trans less_le_trans)
  next
    case False
    then have "j = L div n" "L mod n \<noteq> 0" using j by (auto split: if_splits)
    then have "j * n + L mod n = L" "0 < L mod n" by simp_all
    then show ?thesis by (metis less_add_same_cancel1)
  qed
qed

lemma len32: "LENGTH(32) = 32"
  by simp

lemma page_guids_chunk:
  assumes L: "length guids < 2 ^ 32" and n: "n \<noteq> 0" and j: "j < unat (total_pages (of_nat (length guids)) n)"
  shows "page_guids guids n (of_nat (Suc j)) = take (unat n) (drop (j * unat n) (sort guids))"
proof -
  let ?s = "of_nat (length guids) :: u32"
  have jn: "j * unat n < length guids"
    using pages_reach(2) [of "unat n" j "length guids"] j n unat_total_pages [OF L n] by (simp add: unat_gt_0)
  have s: "unat ?s = length guids" using L by (simp add: unat_of_nat)
  have m: "of_nat (Suc j) - 1 = (of_nat j :: u32)" by simp
  have prod: "of_nat j * n = (of_nat (j * unat n) :: u32)" by simp
  have start: "unat (of_nat (j * unat n) :: u32) = j * unat n" 
    using less_trans [OF jn L] by (simp only: unat_of_nat len32 mod_less)
  have "unat (?s - 1) = length guids - 1" using s jn by (subst unat_sub) (simp_all add: word_le_nat_alt)
  then have "of_nat (j * unat n) \<le> ?s - 1" using jn start by (simp only: word_le_nat_alt)
  then have "min ((of_nat (Suc j) - 1) * n) (?s - 1) = of_nat (j * unat n)" unfolding m prod by (simp only: min_absorb1)
  then show ?thesis unfolding page_guids_def Let_def using start by (simp only:)
qed

text \<open>C25: The pages of the users who registered on a day, read one after the other, are all of them in the order of their
  guids, each once; no page is longer than asked, and only the last may be shorter.\<close>

theorem pages_partition:
  assumes "length guids < 2 ^ 32" "n \<noteq> 0"
  shows "concat (map (\<lambda>k. page_guids guids n (of_nat (Suc k))) [0 ..< unat (total_pages (of_nat (length guids)) n)]) =
      sort guids \<and>
    (\<forall>k < unat (total_pages (of_nat (length guids)) n).
      length (page_guids guids n (of_nat (Suc k))) = min (unat n) (length guids - k * unat n))"
proof -
  let ?T = "unat (total_pages (of_nat (length guids)) n)"
  have T: "length guids \<le> ?T * unat n"
    using pages_reach(1) [of "unat n" "length guids"] assms unat_total_pages [OF assms] by (simp add: unat_gt_0)
  have "map (\<lambda>k. page_guids guids n (of_nat (Suc k))) [0 ..< ?T] = map (\<lambda>j. take (unat n) (drop (j * unat n) (sort guids))) [0 ..< ?T]"
    by (rule map_cong [OF refl], rule page_guids_chunk [OF assms]) simp
  moreover have "concat (map (\<lambda>j. take (unat n) (drop (j * unat n) (sort guids))) [0 ..< ?T]) = sort guids"
    using concat_chunks [of "unat n" "sort guids" ?T] T by simp
  ultimately have "concat (map (\<lambda>k. page_guids guids n (of_nat (Suc k))) [0 ..< ?T]) = sort guids" by (simp only:)
  moreover have "length (page_guids guids n (of_nat (Suc k))) = min (unat n) (length guids - k * unat n)" if "k < ?T" for k
    unfolding page_guids_chunk [OF assms that] by (simp add: min.commute)
  ultimately show ?thesis by blast
qed

theorem pages_partition_witness:
  "concat (map (\<lambda>k. page_guids [7, 3, 5] 2 (of_nat (Suc k))) [0 ..< unat (total_pages (of_nat (length [7, 3, 5 :: u64])) 2)]) =
    [3, 5, 7]"
  using pages_partition [of "[7, 3, 5]" 2, THEN conjunct1] by simp

section \<open>Replies\<close>

lemma count_list_pos: "0 < count_list xs x \<longleftrightarrow> x \<in> set xs"
  by (induction xs) auto

lemma owner_simps: "p_owner (set_owner a p) = a" "body_size (set_owner a p) = body_size p"
  by (simp_all add: set_owner_def body_size_def)

text \<open>C17: An operator's session, named by its address, is written to only in reply to a request of its own: the replies with
  an index that go to a session are at most as many as the requests with that index that came from it. This holds in every run, whatever the
  operators, the gates and the databases send.\<close>

theorem replies_asked:
  "count_list (map reply_index (mb_replies (run_events (member_step cf) es new_member_server))) (a, i) \<le>
    count_list (mb_asked (run_events (member_step cf) es new_member_server)) (a, i)"
proof -
  have "replies_ok (run_events (member_step cf) es new_member_server)"
    by (rule replying.run_keeps [OF replies_ok_new]) simp
  then have "count_list (map reply_index (mb_replies (run_events (member_step cf) es new_member_server))) (a, i) +
      (if mb_routes (run_events (member_step cf) es new_member_server) i = Some a then 1 else 0) \<le>
    count_list (mb_asked (run_events (member_step cf) es new_member_server)) (a, i)"
    unfolding replies_ok_def by blast
  then show ?thesis by (rule add_leD1)
qed

text \<open>C18: While no index is used twice and the gates confirm only payments they were asked for, a confirmation is written
  only to the session that asked for the payment, and it names the account of that payment.\<close>

theorem confirms_right:
  assumes "all_allowed (member_step cf) (member_allowed cf) es new_member_server"
    and "m = run_events (member_step cf) es new_member_server"
    and "(a, p) \<in> set (mb_replies m)" "packet_opcode p = opcode_charge_confirm"
  shows "\<exists>c r. (a, Gate_charge c) \<in> set (mb_gates m) \<and>
    p = set_owner (unat (ucast (mc_request_index c) :: u64)) (new_packet opcode_charge_confirm 0 (confirm_body c r))"
proof -
  have m: "confirms_ok m" using confirming.run_keeps [OF confirms_ok_new assms(1)] assms(2) by simp
  moreover have "p \<in> snd ` set (mb_replies m)" using imageI [OF assms(3), of snd] by simp
  ultimately have "confirm_for m p" unfolding confirms_ok_def by blast
  then obtain b c r where c: "(b, Gate_charge c) \<in> set (mb_gates m)"
      "p = set_owner (unat (ucast (mc_request_index c) :: u64)) (new_packet opcode_charge_confirm 0 (confirm_body c r))"
    using assms(4) by (auto simp: confirm_for_def)
  let ?i = "ucast (mc_request_index c) :: u64"
  have i: "of_nat (p_owner p) = ?i" using c(2) by (simp only: owner_simps) simp
  have "(a, ?i) \<in> set (map reply_index (mb_replies m))" using imageI [OF assms(3), of reply_index] i by simp
  then have "0 < count_list (map reply_index (mb_replies m)) (a, ?i)" by (simp only: count_list_pos)
  also have "\<dots> \<le> count_list (mb_asked m) (a, ?i)"
    using m unfolding confirms_ok_def replies_ok_def by (meson add_leD1)
  finally have "(a, ?i) \<in> set (mb_asked m)" by (simp only: count_list_pos)
  moreover have "(b, ?i) \<in> set (mb_asked m)" "distinct (map snd (mb_asked m))" using m c(1) by (auto simp: confirms_ok_def)
  ultimately have "a = b" using inj_onD [of snd "set (mb_asked m)" "(a, ?i)" "(b, ?i)"] by (simp add: distinct_map)
  then show ?thesis using c by blast
qed

lemma two_outputs:
  assumes "mb_output n = [p, p']" "of_nat (p_owner p) = i" "of_nat (p_owner p') = i" "mb_routes n i = Some a"
  shows "mb_replies (run_events (member_step cf) [Output_svc rs, Output_svc rs'] n) = mb_replies n @ [(a, p)] \<and>
    mb_lost (run_events (member_step cf) [Output_svc rs, Output_svc rs'] n) = mb_lost n @ [p']"
  using assms by (simp add: member_step_def output_svc_def process_packet_def get_member_by_route_def)

text \<open>When a second session uses the index of a request that is still open, the answer to its request goes to the first
  session, and the other answer to nobody.\<close>

theorem reused_index:
  assumes "mb_routes m i = Some a" "mb_output m = []" "b \<noteq> a"
    and "n = run_events (member_step cf) [Operator_sends b q db behind, Gates_send g, Gates_send h] m"
    and "unat (body_size q) = charge_size" "packet_opcode q = opcode_member_charge"
    and "ucast (mc_request_index (member_charge_struct behind (packet_body q))) = i"
    and "g = Gate_charge_confirm (mc_request_index (member_charge_struct behind (packet_body q))) account r"
    and "h = Gate_charge_confirm (mc_request_index (member_charge_struct behind (packet_body q))) account' r'"
  shows "\<exists>p p'. mb_output n = [p, p'] \<and>
    mb_replies (run_events (member_step cf) [Output_svc rs, Output_svc rs'] n) = mb_replies m @ [(a, p)] \<and>
    mb_lost (run_events (member_step cf) [Output_svc rs, Output_svc rs'] n) = mb_lost m @ [p']"
proof -
  let ?c = "member_charge_struct behind (packet_body q)"
  let ?p = "\<lambda>account r. set_owner (unat i) (new_packet opcode_charge_confirm 0
      (le_bytes 4 (mc_request_index ?c) @ copy_chars 32 (zeros 32) account @ le_bytes 4 r))"
  have q: "unat (body_size (set_owner b q)) = charge_size" "packet_opcode (set_owner b q) = opcode_member_charge"
      "packet_body (set_owner b q) = packet_body q" "p_owner (set_owner b q) = b"
    using assms(5,6) by (simp_all add: owner_simps)
  have n: "mb_output n = [?p account r, ?p account' r']" "mb_routes n i = Some a" "mb_replies n = mb_replies m"
      "mb_lost n = mb_lost m"
    using assms(1,2,4,7) q assms(8,9)
    by (simp_all add: member_step_def member_input_def member_opcodes handle_member_charge_def gate_handlers Let_def)
  have own: "of_nat (p_owner (?p x y)) = i" for x y by (simp add: owner_simps)
  show ?thesis
    using two_outputs [OF n(1) own own n(2), of cf rs rs'] n(1,3,4) by (metis (no_types, lifting))
qed

section \<open>Concrete requests\<close>

lemma le_word_zeros [simp]: "le_word (zeros n) = (0 :: 'a::len word)"
  by (induction n) simp_all

definition no_db :: member_db where
  "no_db = \<lparr> db_account_roles = None, db_game_roles = None, db_register_guids = None, db_register_info = (\<lambda>g. None),
     db_online_numbers = None \<rparr>"

text \<open>A payment by the account \<^verbatim>\<open>abc\<close>, with the index 5.\<close>

definition sample_charge :: packet where
  "sample_charge = new_packet opcode_member_charge 0 (le_bytes 4 (5 :: u32) @ [97, 98, 99] @ zeros 61)"

lemma sample_charge_struct:
  "member_charge_struct behind (packet_body sample_charge) =
    \<lparr> mc_request_index = 5, mc_account = [97, 98, 99], mc_point = 0, mc_line_id = 0, mc_role_guid = [] \<rparr>"
proof -
  have "packet_body sample_charge = le_bytes 4 (5 :: u32) @ [97, 98, 99] @ zeros 61"
    unfolding sample_charge_def by (rule packet_body_new_packet) (simp add: fits_def head_size_def)
  moreover have "take 4 (le_bytes 4 (5 :: u32) @ xs) = le_bytes 4 (5 :: u32)" for xs by simp
  moreover have "drop 36 (le_bytes 4 (5 :: u32) @ [97, 98, 99] @ zeros 61) = zeros 32"
      "drop 40 (le_bytes 4 (5 :: u32) @ [97, 98, 99] @ zeros 61) = zeros 28"
      "drop 44 (le_bytes 4 (5 :: u32) @ [97, 98, 99] @ zeros 61) = zeros 24"
      "drop 4 (le_bytes 4 (5 :: u32) @ [97, 98, 99] @ zeros 61) = [97, 98, 99] @ zeros 61"
    by (simp_all add: drop_Cons')
  moreover have "c_string ([97, 98, 99] @ 0 # xs) = [97, 98, 99]" for xs by (simp add: c_string_def)
  moreover have "zeros 61 = 0 # zeros 60" "zeros 24 = 0 # zeros 23" by (simp_all add: numeral_eq_Suc)
  ultimately show ?thesis by (simp add: member_charge_struct_def field32_def c_string_def)
qed

lemma sample_charge_fields:
  "packet_opcode sample_charge = opcode_member_charge" "unat (body_size sample_charge) = charge_size"
  by (simp_all add: sample_charge_def charge_size_def body_size_def new_packet_def packet_opcode_def Let_def)

definition sample_run :: "member_event list" where
  "sample_run = [Operator_sends 1 sample_charge no_db [], Gates_send (Gate_charge_confirm 5 [97, 98, 99] 1), Output_svc [(99, True)]]"

lemma handle_sample_charge:
  "member_input cf no_db [] (set_owner a sample_charge) m =
    (ask 5 a m)\<lparr> mb_gates := mb_gates m @ [(a, Gate_charge \<lparr> mc_request_index = 5, mc_account = [97, 98, 99], mc_point = 0,
      mc_line_id = 0, mc_role_guid = [] \<rparr>)] \<rparr>"
  using sample_charge_fields sample_charge_struct [of "[]"]
  by (simp add: member_input_def handle_member_charge_def member_opcodes owner_simps Let_def)

theorem confirms_right_witness:
  "\<exists>m :: member_server. fst ` set (mb_replies m) = {1} \<and> (\<exists>c. (1, Gate_charge c) \<in> set (mb_gates m))"
proof -
  let ?cf = "\<lparr> cf_json = (\<lambda>j. []), cf_security_key = [], cf_client_addr_1 = [], cf_client_addr_2 = [] \<rparr>"
  let ?m = "run_events (member_step ?cf) sample_run new_member_server"
  have allowed: "all_allowed (member_step ?cf) (member_allowed ?cf) sample_run new_member_server"
    by (simp add: sample_run_def member_allowed_def member_step_def handle_sample_charge new_member_server_def gate_handlers
        output_svc_def process_packet_def get_member_by_route_def owner_simps ask_def add_member_route_def reply_def)
  obtain p where p: "mb_replies ?m = [(1, p)]" "packet_opcode p = opcode_charge_confirm"
    by (simp add: sample_run_def member_step_def handle_sample_charge new_member_server_def gate_handlers
        output_svc_def process_packet_def get_member_by_route_def owner_simps ask_def add_member_route_def reply_def)
  then have "(1, p) \<in> set (mb_replies ?m)" by simp
  from confirms_right [OF allowed refl this p(2)] show ?thesis using p(1) by (intro exI [of _ ?m]) auto
qed

theorem reused_index_witness:
  "\<exists>m :: member_server. fst ` set (mb_replies m) = {1} \<and> length (mb_lost m) = 1 \<and> mb_asked m = [(1, 5), (2, 5)]"
proof -
  let ?cf = "\<lparr> cf_json = (\<lambda>j. []), cf_security_key = [], cf_client_addr_1 = [], cf_client_addr_2 = [] \<rparr>"
  let ?m = "ask 5 1 new_member_server" and ?g = "Gate_charge_confirm 5 [97, 98, 99] 1"
  let ?n = "run_events (member_step ?cf) [Operator_sends 2 sample_charge no_db [], Gates_send ?g, Gates_send ?g] ?m"
  have m: "mb_routes ?m 5 = Some 1" "mb_output ?m = []" "mb_replies ?m = []" "mb_lost ?m = []" "mb_asked ?m = [(1, 5)]"
    by (simp_all add: new_member_server_def)
  have n: "mb_asked ?n = [(1, 5), (2, 5)]"
    by (simp add: member_step_def handle_sample_charge gate_handlers new_member_server_def)
  have "\<exists>p p'. mb_output ?n = [p, p'] \<and>
      mb_replies (run_events (member_step ?cf) [Output_svc [], Output_svc []] ?n) = mb_replies ?m @ [(1, p)] \<and>
      mb_lost (run_events (member_step ?cf) [Output_svc [], Output_svc []] ?n) = mb_lost ?m @ [p']"
    by (rule reused_index [OF m(1,2) _ refl]) (simp_all add: sample_charge_fields sample_charge_struct)
  then obtain p p' where p: "mb_output ?n = [p, p']"
      "mb_replies (run_events (member_step ?cf) [Output_svc [], Output_svc []] ?n) = [(1, p)]"
      "mb_lost (run_events (member_step ?cf) [Output_svc [], Output_svc []] ?n) = [p']"
    using m by auto
  have "mb_asked (run_events (member_step ?cf) [Output_svc [], Output_svc []] ?n) = mb_asked ?n"
    by (simp add: member_step_def output_svc_def process_packet_def get_member_by_route_def split: list.split option.split)
  then show ?thesis using p n by (intro exI [of _ "run_events (member_step ?cf) [Output_svc [], Output_svc []] ?n"]) simp
qed

section \<open>Sessions that are gone\<close>

lemma lost_confirm:
  assumes "mb_routes m i = Some a" "i = ucast index"
  shows "run_events (member_step cf) [Operator_lost a, Gates_send (Gate_charge_confirm index account r)] m =
    m\<lparr> mb_sessions := removeAll a (mb_sessions m),
      mb_output := mb_output m @ [set_owner (unat i) (new_packet opcode_charge_confirm 0
        (le_bytes 4 index @ copy_chars 32 (zeros 32) account @ le_bytes 4 r))] \<rparr>"
  using assms by (simp add: member_step_def remove_member_session_def gate_handlers reply_def)

lemma confirm_output:
  assumes "mb_routes m i = Some a" "mb_output m = [p]" "of_nat (p_owner p) = i"
  shows "member_step cf (Output_svc rs) m =
    m\<lparr> mb_output := [], mb_routes := (mb_routes m)(i := None),
      mb_wire := (mb_wire m)(a := mb_wire m a @ process_write rs p), mb_replies := mb_replies m @ [(a, p)] \<rparr>"
  using assms by (simp add: member_step_def output_svc_def process_packet_def get_member_by_route_def)

text \<open>C37: The routes of a session that is lost stay: a confirmation that comes after the session is lost is written to
  it all the same, though it is closed and about to be deleted or already is.\<close>

theorem lost_session_written:
  assumes "mb_routes m i = Some a" "mb_output m = []" "i = ucast index"
    and "n = run_events (member_step cf) [Operator_lost a, Gates_send (Gate_charge_confirm index account r), Output_svc rs] m"
  shows "a \<notin> set (mb_sessions n) \<and> (\<exists>p. mb_replies n = mb_replies m @ [(a, p)] \<and>
    packet_opcode p = opcode_charge_confirm \<and> mb_wire n a = mb_wire m a @ process_write rs p)"
proof -
  let ?p = "set_owner (unat i) (new_packet opcode_charge_confirm 0
      (le_bytes 4 index @ copy_chars 32 (zeros 32) account @ le_bytes 4 r))"
  let ?m = "run_events (member_step cf) [Operator_lost a, Gates_send (Gate_charge_confirm index account r)] m"
  have m: "mb_routes ?m i = Some a" "mb_output ?m = [?p]" "mb_replies ?m = mb_replies m" "mb_wire ?m = mb_wire m"
      "a \<notin> set (mb_sessions ?m)"
    unfolding lost_confirm [OF assms(1,3)] using assms(1,2) by simp_all
  have own: "of_nat (p_owner ?p) = i" "packet_opcode ?p = opcode_charge_confirm" by (simp_all add: owner_simps)
  have "n = member_step cf (Output_svc rs) ?m" using assms(4) by simp
  then show ?thesis unfolding confirm_output [OF m(1,2) own(1)] using m(3-5) own(2) by simp
qed

theorem lost_session_written_witness:
  "\<exists>m :: member_server. 1 \<notin> set (mb_sessions m) \<and> fst ` set (mb_replies m) = {1}"
proof -
  let ?cf = "\<lparr> cf_json = (\<lambda>j. []), cf_security_key = [], cf_client_addr_1 = [], cf_client_addr_2 = [] \<rparr>"
  let ?m = "(ask 5 1 new_member_server)\<lparr> mb_sessions := [1] \<rparr>"
  let ?n = "run_events (member_step ?cf) [Operator_lost 1, Gates_send (Gate_charge_confirm 5 [97] 1), Output_svc [(44, True)]] ?m"
  have m: "mb_routes ?m 5 = Some 1" "mb_output ?m = []" "(5 :: u64) = ucast (5 :: u32)" "mb_replies ?m = []"
    by (simp_all add: new_member_server_def ask_def add_member_route_def)
  have "1 \<notin> set (mb_sessions ?n) \<and> (\<exists>p. mb_replies ?n = mb_replies ?m @ [(1, p)] \<and>
      packet_opcode p = opcode_charge_confirm \<and> mb_wire ?n 1 = mb_wire ?m 1 @ process_write [(44, True)] p)"
    by (rule lost_session_written [OF m(1-3) refl])
  then obtain p where "1 \<notin> set (mb_sessions ?n)" "mb_replies ?n = [(1, p)]" unfolding m(4) by auto
  then show ?thesis by (intro exI [of _ ?n] conjI) (assumption, simp only: list.set image_insert image_empty fst_conv)
qed

section \<open>Players online\<close>

text \<open>Who is online in each line, by what the gates say.\<close>

definition online_abs :: "member_server \<Rightarrow> u32 \<Rightarrow> u8 list set" where
  "online_abs m = (\<lambda>line. fset (online_set line m))"

definition gate_tells :: "gate_answer \<Rightarrow> (u32 \<Rightarrow> u8 list set) \<Rightarrow> u32 \<Rightarrow> u8 list set" where
  "gate_tells g f =
     (case g of
        Gate_login_confirm i account line \<Rightarrow> f(line := insert account (f line))
      | Gate_report_online infos \<Rightarrow> fold (\<lambda>(line, account) f. f(line := insert account (f line))) infos f
      | Gate_logoff account line \<Rightarrow> f(line := f line - {account})
      | _ \<Rightarrow> f)"

definition online_astep :: "member_event \<Rightarrow> (u32 \<Rightarrow> u8 list set) \<Rightarrow> u32 \<Rightarrow> u8 list set" where
  "online_astep e f = (case e of Gates_send g \<Rightarrow> gate_tells g f | _ \<Rightarrow> f)"

lemma online_set_simps [simp]:
  "online_set l (set_online k s m) = (if l = k then s else online_set l m)"
  "online_set l (ask i a m) = online_set l m" "online_set l (reply op i body m) = online_set l m"
  "online_set l (m\<lparr> mb_gates := gs \<rparr>) = online_set l m" "online_set l (m\<lparr> mb_current := n \<rparr>) = online_set l m"
  "online_set l (m\<lparr> mb_max := n \<rparr>) = online_set l m" "online_set l (m\<lparr> mb_numbers := ns \<rparr>) = online_set l m"
  "online_set l (m\<lparr> mb_sessions := ss \<rparr>) = online_set l m" "online_set l (m\<lparr> mb_wire := w \<rparr>) = online_set l m"
  by (auto simp: online_set_def set_online_def)

lemma online_abs_login: "online_abs (player_login_success line account m) = (online_abs m)(line := insert account (online_abs m line))"
  by (simp add: online_abs_def player_login_success_def update_online_number_to_db_def Let_def fun_eq_iff)

lemma online_abs_report:
  "online_abs (handle_report_online_number infos m) =
    fold (\<lambda>(line, account) f. f(line := insert account (f line))) infos (online_abs m)"
  by (induction infos arbitrary: m) (auto simp: handle_report_online_number_def online_abs_login)

lemma online_abs_simps [simp]:
  "online_abs (ask i a m) = online_abs m" "online_abs (reply op i body m) = online_abs m"
  "online_abs (m\<lparr> mb_gates := gs \<rparr>) = online_abs m" "online_abs (m\<lparr> mb_sessions := ss \<rparr>) = online_abs m"
  "online_abs (m\<lparr> mb_wire := w \<rparr>) = online_abs m" "online_abs (m\<lparr> mb_numbers := ns \<rparr>) = online_abs m"
  "online_abs (set_online line (online_set line m) m) = online_abs m"
  by (simp_all add: online_abs_def fun_eq_iff)

lemma online_abs_handlers:
  "online_abs (handle_member_login behind p m) = online_abs m"
  "online_abs (handle_member_charge behind p m) = online_abs m"
  "online_abs (handle_member_give_gift behind p m) = online_abs m"
  "online_abs (handle_member_query_role db p m) = online_abs m"
  "online_abs (handle_member_query_online_number p m) = online_abs m"
  "online_abs (handle_query_register_user_info cf db p m) = online_abs m"
  "online_abs (handle_query_daily_players cf op number db p m) = online_abs m"
  by (simp_all add: operator_handlers Let_def)

lemma online_abs_input: "online_abs (member_input cf db behind p m) = online_abs m"
  unfolding member_input_def Let_def by (simp add: online_abs_handlers)

lemma online_abs_step: "online_abs (member_step cf e m) = online_astep e (online_abs m)"
proof (cases e)
  case (Gates_send g)
  then show ?thesis
    by (cases g) (auto simp: member_step_def online_astep_def gate_tells_def gate_handlers online_abs_login online_abs_report,
        auto simp: online_abs_def fun_eq_iff)
next
  case (Output_svc rs)
  then show ?thesis
    by (simp add: member_step_def online_astep_def online_abs_def online_set_def output_svc_def process_packet_def
        get_member_by_route_def split: list.split option.split)
next
  case (Operator_registers a bs)
  then show ?thesis by (simp add: member_step_def online_astep_def process_member_register_def Let_def)
next
  case (Operator_sends a p db behind)
  then show ?thesis by (simp add: member_step_def online_astep_def online_abs_input)
next
  case (Operator_lost a)
  then show ?thesis by (simp add: member_step_def online_astep_def remove_member_session_def)
next
  case Number_svc
  then show ?thesis by (simp add: member_step_def online_astep_def number_svc_def update_online_number_to_db_def)
qed

interpretation online: refining_machine "member_step cf" "\<lambda>_ _. True" "\<lambda>_. True" online_abs online_astep for cf
  by unfold_locales (simp_all add: online_abs_step)

lemma online_abs_new: "online_abs new_member_server = (\<lambda>line. {})"
  by (simp add: online_abs_def online_set_def new_member_server_def)

text \<open>C24: In every run the sets of the players online, and the numbers that operators are told, are those that follow from
  what the gates said: who logged in or was reported and has not logged off since, in each line.\<close>

theorem online_numbers:
  "fset (online_set line (run_events (member_step cf) es new_member_server)) = run_events online_astep es (\<lambda>line. {}) line \<and>
    fst (get_online_number line (run_events (member_step cf) es new_member_server)) =
      of_nat (card (run_events online_astep es (\<lambda>line. {}) line))"
proof -
  have "online_abs (run_events (member_step cf) es new_member_server) = run_events online_astep es (online_abs new_member_server)"
    by (rule online.run_refines) simp_all
  then have "fset (online_set line (run_events (member_step cf) es new_member_server)) = run_events online_astep es (\<lambda>line. {}) line"
    unfolding online_abs_new by (simp add: online_abs_def fun_eq_iff)
  then show ?thesis by (simp add: get_online_number_def fcard.rep_eq)
qed

section \<open>The number in the database\<close>

definition tells_login :: "member_event \<Rightarrow> bool" where
  "tells_login e = (case e of
       Gates_send (Gate_login_confirm i account line) \<Rightarrow> True
     | Gates_send (Gate_report_online infos) \<Rightarrow> True
     | _ \<Rightarrow> False)"

lemma current_handlers:
  "mb_current (handle_member_login behind p m) = mb_current m"
  "mb_current (handle_member_charge behind p m) = mb_current m"
  "mb_current (handle_member_give_gift behind p m) = mb_current m"
  "mb_current (handle_member_query_role db p m) = mb_current m"
  "mb_current (handle_member_query_online_number p m) = mb_current m"
  "mb_current (handle_query_register_user_info cf db p m) = mb_current m"
  "mb_current (handle_query_daily_players cf op number db p m) = mb_current m"
  by (simp_all add: operator_handlers Let_def)

lemma current_step: "\<not> tells_login e \<Longrightarrow> mb_current (member_step cf e m) = mb_current m"
proof (cases e)
  case (Operator_sends a p db behind)
  then show ?thesis unfolding member_step_def member_input_def Let_def by (simp add: current_handlers)
next
  case (Gates_send g)
  assume "\<not> tells_login e"
  then show ?thesis using Gates_send by (cases g) (simp_all add: member_step_def tells_login_def gate_handlers)
qed (simp_all add: member_step_def process_member_register_def remove_member_session_def number_svc_def
    update_online_number_to_db_def output_svc_def process_packet_def get_member_by_route_def Let_def split: list.split option.split)

text \<open>The number of players that is written to the database every five minutes does not go down when players log off:
  until the next login it stays what it was at the last one.\<close>

theorem stale_number:
  assumes "\<not> list_ex tells_login es"
  shows "mb_numbers (run_events (member_step cf) (es @ [Number_svc]) m) =
    mb_numbers (run_events (member_step cf) es m) @ [mb_current m]"
proof -
  have "mb_current (run_events (member_step cf) es m) = mb_current m"
    using assms by (induction es arbitrary: m) (simp_all add: current_step)
  then show ?thesis
    by (simp add: run_events_append) (simp add: member_step_def number_svc_def update_online_number_to_db_def)
qed

theorem stale_number_witness:
  "\<exists>m :: member_server. online_total m = 0 \<and> mb_numbers m = [1, 1]"
proof -
  let ?cf = "\<lparr> cf_json = (\<lambda>j. []), cf_security_key = [], cf_client_addr_1 = [], cf_client_addr_2 = [] \<rparr>"
  let ?m = "run_events (member_step ?cf) [Gates_send (Gate_login_confirm 0 [97] 1)] new_member_server"
  have items: "fm_items (fmupd l s fmempty) = [(l, s)]" for l :: u32 and s :: "u8 list fset"
    by (simp add: fm_items_map fs_items_finsert)
  have m: "mb_current ?m = 1" "mb_numbers ?m = [1]" "mb_online ?m = fmupd 1 {|[97]|} fmempty"
    by (simp_all add: member_step_def gate_handlers player_login_success_def online_total_def set_online_def online_set_def
        new_member_server_def update_online_number_to_db_def items fcard.rep_eq Let_def)
  let ?es = "[Gates_send (Gate_logoff [97] 1)]"
  have "mb_numbers (run_events (member_step ?cf) (?es @ [Number_svc]) ?m) =
      mb_numbers (run_events (member_step ?cf) ?es ?m) @ [mb_current ?m]"
    by (rule stale_number) (simp add: tells_login_def)
  moreover have "mb_numbers (run_events (member_step ?cf) ?es ?m) = mb_numbers ?m"
    by (simp add: member_step_def gate_handlers)
  moreover have "online_total (run_events (member_step ?cf) (?es @ [Number_svc]) ?m) = 0"
  proof -
    have "mb_online (run_events (member_step ?cf) (?es @ [Number_svc]) ?m) = fmupd 1 {||} (mb_online ?m)"
      using m(3) by (simp add: member_step_def gate_handlers number_svc_def update_online_number_to_db_def set_online_def
          online_set_def)
    also have "\<dots> = fmupd 1 {||} fmempty" unfolding m(3) by (rule fmap_ext) simp
    finally show ?thesis by (simp add: online_total_def items)
  qed
  ultimately show ?thesis using m by (intro exI [of _ "run_events (member_step ?cf) (?es @ [Number_svc]) ?m"]) simp
qed

section \<open>Numbers of a day\<close>

lemma unat_sum_list: "sum_list (map unat xs) < 2 ^ 32 \<Longrightarrow> unat (sum_list xs :: u32) = sum_list (map unat xs)"
  by (induction xs) (simp_all add: unat_word_ariths)

lemma sum_list_bound: "(\<And>x. x \<in> set xs \<Longrightarrow> f x \<le> (k :: nat)) \<Longrightarrow> sum_list (map f xs) \<le> length xs * k"
  by (induction xs) (auto intro: add_mono)

lemma ceiling_bounds:
  fixes s n :: nat
  assumes "0 < n"
  shows "s \<le> (s div n + (if s mod n \<noteq> 0 then 1 else 0)) * n"
    "(s div n + (if s mod n \<noteq> 0 then 1 else 0)) * n < s + n"
proof -
  show "s \<le> (s div n + (if s mod n \<noteq> 0 then 1 else 0)) * n" by (rule pages_reach(1) [OF assms])
  define q r where "q = s div n * n" and "r = s mod n"
  have "q + r = s" "r < n" using assms by (simp_all add: q_def r_def)
  then have "q + (if r \<noteq> 0 then n else 0) < s + n" by (cases "r = 0") auto
  then show "(s div n + (if s mod n \<noteq> 0 then 1 else 0)) * n < s + n"
    by (cases "s mod n = 0") (simp_all add: q_def r_def add_mult_distrib)
qed

lemma unat_average:
  assumes "db_online_numbers db = Some nums" "nums \<noteq> []" "sum_list (map unat nums) < 2 ^ 32"
  shows "unat (get_daily_average_players db) = sum_list (map unat nums) div length nums +
    (if sum_list (map unat nums) mod length nums \<noteq> 0 then 1 else 0)"
proof -
  let ?s = "sum_list (map unat nums)" and ?n = "length nums"
  have q: "?s div ?n < 2 ^ 32" using div_le_dividend assms(3) by (rule le_less_trans)
  have up: "?s div ?n + 1 < 2 ^ 32" if "?s mod ?n \<noteq> 0"
  proof -
    have "2 \<le> ?n" using that assms(2) by (cases nums) (auto simp: Suc_le_eq)
    then have "?s div ?n \<le> ?s div 2" by (rule div_le_mono2 [rotated]) simp
    then show ?thesis using assms(3) by simp
  qed
  have d: "unat (of_nat (?s div ?n) :: u32) = ?s div ?n" using q by (simp only: unat_of_nat len32 mod_less)
  have "get_daily_average_players db = of_nat (?s div ?n) + (if ?s mod ?n \<noteq> 0 then 1 else 0)"
    using assms(1,2) by (simp only: get_daily_average_players_def option.case if_False Let_def unat_sum_list [OF assms(3)])
  then show ?thesis
    using d up q by (cases "?s mod ?n = 0") (simp_all only: unat_word_ariths len32, simp_all)
qed

lemma unat_top:
  assumes "db_online_numbers db = Some nums" "x \<in> set nums"
  shows "x \<le> get_daily_top_players db" "get_daily_top_players db \<in> set nums"
proof -
  obtain n ns where n: "rev (sort nums) = n # ns"
    using assms(2) by (cases "rev (sort nums)") (auto dest: arg_cong [of "sort nums" "[]" length])
  then have s: "sort nums = rev ns @ [n]" by (metis rev_rev_ident rev.simps(2))
  have "set nums = set (rev ns @ [n])" using arg_cong [OF s, of set] by simp
  moreover have "sorted (rev ns @ [n])" using sorted_sort [of nums] by (simp only: s)
  ultimately show "x \<le> get_daily_top_players db" "get_daily_top_players db \<in> set nums"
    using assms n by (auto simp: get_daily_top_players_def sorted_append)
qed

text \<open>While the numbers of a day add up to less than 2 to the 32, the average that is reported is the mean rounded up, so
  it is never above the top of the day, which is one of the numbers and above all others.\<close>

theorem daily_numbers:
  assumes "db_online_numbers db = Some nums" "nums \<noteq> []" "sum_list (map unat nums) < 2 ^ 32"
  shows "sum_list (map unat nums) \<le> unat (get_daily_average_players db) * length nums \<and>
    unat (get_daily_average_players db) * length nums < sum_list (map unat nums) + length nums \<and>
    get_daily_average_players db \<le> get_daily_top_players db \<and>
    get_daily_top_players db \<in> set nums \<and> (\<forall>n \<in> set nums. n \<le> get_daily_top_players db)"
proof -
  let ?s = "sum_list (map unat nums)" and ?n = "length nums" and ?a = "unat (get_daily_average_players db)"
  have n: "0 < ?n" using assms(2) by simp
  have b: "?s \<le> ?a * ?n" "?a * ?n < ?s + ?n" using ceiling_bounds [OF n, of ?s] unat_average [OF assms] by simp_all
  have top: "\<And>x. x \<in> set nums \<Longrightarrow> x \<le> get_daily_top_players db" "get_daily_top_players db \<in> set nums"
    using unat_top [OF assms(1)] assms(2) by (auto, metis hd_in_set)
  have "?s \<le> ?n * unat (get_daily_top_players db)" by (rule sum_list_bound) (use top in \<open>simp add: word_le_nat_alt\<close>)
  then have "?a * ?n < (unat (get_daily_top_players db) + 1) * ?n" using b(2) by (simp add: algebra_simps)
  then have "?a < unat (get_daily_top_players db) + 1" by (simp only: mult_less_cancel2)
  then show ?thesis using b top by (simp add: word_le_nat_alt)
qed

theorem daily_numbers_witness:
  "unat (get_daily_average_players (no_db\<lparr> db_online_numbers := Some [3, 8, 4] \<rparr>)) * 3 \<in> {15 ..< 18}"
  using daily_numbers [of "no_db\<lparr> db_online_numbers := Some [3, 8, 4] \<rparr>" "[3, 8, 4]", THEN conjunct1]
    daily_numbers [of "no_db\<lparr> db_online_numbers := Some [3, 8, 4] \<rparr>" "[3, 8, 4]", THEN conjunct2, THEN conjunct1]
  by (simp add: no_db_def)

section \<open>Names of the roles\<close>

lemma query_from_account_append:
  "query_from_account r (rows @ ws) =
    query_from_account r rows @ query_from_account (last (r # query_from_account r rows)) ws"
  by (induction rows arbitrary: r) (simp_all add: Let_def)

lemma query_from_account_length:
  assumes "length (rs_role_name r) = 32"
  shows "length (rs_role_name (last (r # query_from_account r rows))) = 32"
  using assms by (induction rows arbitrary: r) (simp_all add: Let_def)

lemma copy_over:
  assumes "0 \<notin> set n" "0 \<notin> set n'" "length n \<le> 32" "length n' < length n"
  shows "c_string (copy_chars 32 (copy_chars 32 dst n) n') = n' @ drop (length n') n @ c_string (drop (length n) dst)"
proof -
  have "0 \<notin> set (drop (length n') n)" using assms(1) by (meson in_set_dropD)
  then show ?thesis using assms
    by (subst c_string_copy) (simp_all add: copy_chars_def Let_def c_string_append)
qed

text \<open>When the roles of an account are listed, a role whose name is shorter than the name of the role before it is
  reported with the end of that name behind its own.\<close>

theorem role_names_run_over:
  assumes "0 \<notin> set n" "0 \<notin> set n'" "length n \<le> 32" "length n' < length n"
  shows "\<exists>rest. c_string (rs_role_name (last (query_from_account new_role_struct (rows @ [(g, n), (g', n')])))) =
      n' @ drop (length n') n @ rest \<and> drop (length n') n \<noteq> []"
proof -
  let ?r = "last (new_role_struct # query_from_account new_role_struct rows)"
  have "rs_role_name (last (query_from_account new_role_struct (rows @ [(g, n), (g', n')]))) =
      copy_chars 32 (copy_chars 32 (rs_role_name ?r) n) n'"
    unfolding query_from_account_append by (simp add: Let_def)
  then show ?thesis using copy_over [OF assms, of "rs_role_name ?r"] assms(4) by simp
qed

theorem role_names_run_over_witness:
  "\<exists>rest. c_string (rs_role_name (last (query_from_account new_role_struct [([49], [65, 66, 67]), ([50], [88])]))) =
    88 # 66 # 67 # rest"
  using role_names_run_over [of "[65, 66, 67]" "[88]" "[]" "[49]" "[50]"] by simp

section \<open>Frames\<close>

lemma packet_body_length: "fits b \<Longrightarrow> unat (body_size (new_packet op g b)) = length b"
  using unat_of_nat_u16 [of "length b"] by (simp add: body_size_def new_packet_def fits_def Let_def)

lemma member_fits: "length b \<le> max_member_body \<Longrightarrow> fits b"
  by (simp add: fits_def max_member_body_def head_size_def)

lemma member_frame_new:
  "fits b \<Longrightarrow> member_frame (new_packet op g b) = encode_client_head op (of_nat (length b)) @ b"
  by (simp add: member_frame_def packet_body_new_packet) (simp add: packet_opcode_def body_size_def new_packet_def Let_def)

lemma member_frame_whole:
  assumes "length b \<le> max_member_body" "f = member_frame (new_packet op g b)"
  shows "client_head_size \<le> length f \<and> \<not> member_bad (take client_head_size f) \<and>
    client_need (take client_head_size f) = length f"
  using assms(1) unfolding assms(2) member_frame_new [OF member_fits [OF assms(1)]]
  by (simp add: member_bad_def client_need_def client_head_size_def encode_client_head_def client_size_def
      max_member_body_def unat_of_nat_u16)

lemma member_packet_frame:
  assumes "length b \<le> max_member_body"
  shows "member_packet a (member_frame (new_packet op 0 b)) = set_owner a (new_packet op 0 b)"
  using assms unfolding member_frame_new [OF member_fits [OF assms]]
  by (simp add: member_packet_def client_head_size_def encode_client_head_def client_size_def client_opcode_def
      max_member_body_def unat_of_nat_u16 recv_packet_def write_body_def ch_body_def empty_packet_def new_packet_def
      body_size_def set_owner_def head_size_def Let_def)

text \<open>C28: What an operator sends comes out of the member server's sessions as it was sent, however the network cuts it,
  as long as no body has more than 4096 bytes; the same frames carry the replies.\<close>

theorem member_stream:
  assumes "\<forall>(op, body) \<in> set sent. length body \<le> max_member_body"
    and "concat chunks = concat (map (\<lambda>(op, body). member_frame (new_packet op 0 body)) sent)"
  shows "feed_chunks (member_parse a) [] chunks = (map (\<lambda>(op, body). set_owner a (new_packet op 0 body)) sent, Some [])"
proof -
  let ?frames = "map (\<lambda>(op, body). member_frame (new_packet op 0 body)) sent"
  have "feed_chunks (member_parse a) [] chunks = (map (member_packet a) ?frames, Some [])"
    using assms member_frame_whole by (intro members.chunks_of_frames) force+
  also have "map (member_packet a) ?frames = map (\<lambda>(op, body). set_owner a (new_packet op 0 body)) sent"
    using assms(1) member_packet_frame by (auto simp: case_prod_beta)
  finally show ?thesis .
qed

theorem member_stream_witness:
  "feed_chunks (member_parse 7) [] [[189, 2, 2], [0, 65, 66, 199], [2, 0, 0]] =
    ([set_owner 7 (new_packet 701 0 [65, 66]), set_owner 7 (new_packet 711 0 [])], Some [])"
  using member_stream [of "[(701, [65, 66]), (711, [])]" "[[189, 2, 2], [0, 65, 66, 199], [2, 0, 0]]" 7]
  by (simp add: max_member_body_def member_frame_new fits_def head_size_def encode_client_head_def le_bytes_numeral
      del: feed_chunks.simps)

end
