(* ===== verification/PlayerEntities.thy ===== *)
theory PlayerEntities
  imports Prelude
begin

text \<open>
  The entities of a player: \<^verbatim>\<open>plugin/manage_player/src/PlayerAssistant.cpp\<close> loads them when the player logs in, in
  up to three steps, since what to load is named by entities that are loaded before, and collects them from the pool
  when it logs off.

  An entity is kept by its type and the guids by which it names others; the rest of its content plays no part here. An
  entity is stored under its own guid, so \<^verbatim>\<open>e->guid()\<close> and the guid it was found by are the same.
\<close>

section \<open>Data\<close>

datatype part_kind = PK_player | PK_coin | PK_attach | PK_role | PK_item | PK_educate | PK_pellet | PK_shl_owner
  | PK_stage | PK_form | PK_law | PK_sect | PK_stheno | PK_announce | PK_task_brief | PK_task | PK_town_stage
  | PK_educate_times | PK_specshop | PK_chakra | PK_chakre | PK_worship | PK_eggs | PK_condor | PK_boss | PK_answer
  | PK_addiction | PK_gift | PK_vip | PK_achievement | PK_practice | PK_daily_points | PK_tower | PK_tavern | PK_fish
  | PK_dodge | PK_player_wife | PK_wife | PK_activies | PK_maze | PK_open_activity | PK_open_act | PK_runes | PK_trial
  | PK_shl_switch | PK_doubleexp | PK_login_gift | PK_super_power | PK_goldcard | PK_soul | PK_soul_pve | PK_talent
  | PK_horse | PK_qqspread

text \<open>Fields with one guid are read by the type they refer to.\<close>

record player_refs =
  pl_guid :: guid
  pl_coin_guid :: guid
  pl_attach :: guid
  pl_one :: "part_kind \<Rightarrow> guid"
  pl_roles :: "guid list"
  pl_leave_team_roles :: "guid list"
  pl_bag :: "guid list"
  pl_storehouse :: "guid list"
  pl_stheno_idle_list :: "guid list"
  pl_stheno_equip_list :: "guid list"
  pl_town_stage :: "guid list"
  pl_wifes :: "guid list"

record role_refs =
  rr_equipments :: "guid list"
  rr_educate :: guid
  rr_pellet :: guid
  rr_shl_owner :: guid

record task_refs =
  tb_unfinished :: "guid list"
  tb_finished :: "guid list"
  tb_failed :: "guid list"

record chakra_refs =
  ck_storehouse :: "guid list"
  ck_caches :: "guid list"

text \<open>The equipment of a wife is named by 32 bits.\<close>

datatype part = Player_part player_refs | Role_part role_refs | Tasks_part task_refs | Chakra_part chakra_refs
  | Wife_part "u32 list" | Other_part part_kind

definition kind_of :: "part \<Rightarrow> part_kind" where
  "kind_of e = (case e of Player_part p \<Rightarrow> PK_player | Role_part r \<Rightarrow> PK_role | Tasks_part t \<Rightarrow> PK_task_brief
     | Chakra_part c \<Rightarrow> PK_chakra | Wife_part w \<Rightarrow> PK_wife | Other_part k \<Rightarrow> k)"

section \<open>Loading\<close>

type_synonym loading_data = "(guid, part) fmap"

definition add_entity :: "guid \<Rightarrow> part \<Rightarrow> loading_data \<Rightarrow> loading_data" where
  "add_entity g e d = (if fmlookup d g = None then fmupd g e d else d)"

text \<open>\<^verbatim>\<open>CHECK_ITEM_GUID\<close>: a place with 1 is free, and 0 ends the open places.\<close>

primrec item_guids :: "guid list \<Rightarrow> guid list" where
  "item_guids [] = []"
| "item_guids (g # gs) = (if g = 1 then item_guids gs else if g = 0 then [] else g # item_guids gs)"

definition over_one :: "guid list \<Rightarrow> guid list" where
  "over_one gs = filter (\<lambda>g. 1 < g) gs"

definition not_null :: "guid list \<Rightarrow> guid list" where
  "not_null gs = filter (\<lambda>g. g \<noteq> 0) gs"

definition load_player_requests :: "player_refs \<Rightarrow> guid list" where
  "load_player_requests p = not_null (map (pl_one p) [PK_stage, PK_form]) @ pl_roles p @ pl_leave_team_roles p @
     item_guids (pl_bag p) @ item_guids (pl_storehouse p) @ not_null (map (pl_one p) [PK_law, PK_sect]) @
     over_one (pl_stheno_idle_list p) @ over_one (pl_stheno_equip_list p) @
     not_null (map (pl_one p) [PK_announce, PK_task_brief]) @ pl_town_stage p @
     not_null (map (pl_one p) [PK_educate_times, PK_specshop, PK_chakra, PK_worship, PK_eggs, PK_condor, PK_boss,
       PK_answer, PK_addiction, PK_gift, PK_vip, PK_achievement, PK_practice, PK_daily_points, PK_tower, PK_tavern,
       PK_fish, PK_dodge, PK_player_wife]) @ not_null (pl_wifes p) @
     not_null (map (pl_one p) [PK_activies, PK_maze, PK_open_activity, PK_open_act, PK_runes, PK_trial, PK_shl_switch,
       PK_doubleexp, PK_login_gift, PK_super_power, PK_goldcard, PK_soul, PK_soul_pve, PK_talent, PK_horse, PK_qqspread])"

definition role_requests :: "loading_data \<Rightarrow> guid \<Rightarrow> guid list" where
  "role_requests d g =
     (case fmlookup d g of
        Some (Role_part r) \<Rightarrow> over_one (rr_equipments r) @ not_null [rr_educate r, rr_pellet r, rr_shl_owner r]
      | _ \<Rightarrow> [])"

definition task_requests :: "loading_data \<Rightarrow> guid \<Rightarrow> guid list" where
  "task_requests d g =
     (case fmlookup d g of
        Some (Tasks_part t) \<Rightarrow> tb_unfinished t @ tb_finished t @ tb_failed t
      | _ \<Rightarrow> [])"

definition chakra_requests :: "loading_data \<Rightarrow> guid \<Rightarrow> guid list" where
  "chakra_requests d g =
     (case fmlookup d g of
        Some (Chakra_part c) \<Rightarrow> over_one (ck_storehouse c) @ over_one (ck_caches c)
      | _ \<Rightarrow> [])"

definition load_role_requests :: "player_refs \<Rightarrow> loading_data \<Rightarrow> guid list" where
  "load_role_requests p d =
     concat (map (role_requests d) (pl_roles p)) @ concat (map (role_requests d) (pl_leave_team_roles p)) @
     task_requests d (pl_one p PK_task_brief) @ chakra_requests d (pl_one p PK_chakra)"

text \<open>The answer to a list of requests; \<open>db\<close> is what the database has of the entities. One that it does not have
  makes the list fail.\<close>

definition load_parts :: "(guid \<Rightarrow> part option) \<Rightarrow> guid list \<Rightarrow> loading_data \<Rightarrow> loading_data option" where
  "load_parts db gs d =
     (if list_all (\<lambda>g. db g \<noteq> None) gs then Some (fold (\<lambda>g. add_entity g (the (db g))) gs d) else None)"

definition load_player_role_equipment :: "(guid \<Rightarrow> part option) \<Rightarrow> guid list \<Rightarrow> loading_data \<Rightarrow> loading_data option" where
  "load_player_role_equipment db gs d = load_parts db gs d"

definition load_player_role :: "(guid \<Rightarrow> part option) \<Rightarrow> player_refs \<Rightarrow> guid list \<Rightarrow> loading_data \<Rightarrow> loading_data option" where
  "load_player_role db p gs d =
     (case load_parts db gs d of
        None \<Rightarrow> None
      | Some d \<Rightarrow>
          (let gs = load_role_requests p d in
           if gs = [] then Some d else load_player_role_equipment db gs d))"

definition load_player :: "(guid \<Rightarrow> part option) \<Rightarrow> player_refs \<Rightarrow> loading_data \<Rightarrow> loading_data option" where
  "load_player db p d =
     (let d = add_entity (pl_guid p) (Player_part p) d; gs = load_player_requests p in
      if gs = [] then Some d else load_player_role db p gs d)"

text \<open>The coin comes from the line scene, before the player is loaded.\<close>

definition load_player_from_db :: "(guid \<Rightarrow> part option) \<Rightarrow> guid \<Rightarrow> loading_data \<Rightarrow> loading_data option" where
  "load_player_from_db db g d = (case db g of Some (Player_part p) \<Rightarrow> load_player db p d | _ \<Rightarrow> None)"

definition load_coin :: "(guid \<Rightarrow> part option) \<Rightarrow> guid \<Rightarrow> guid \<Rightarrow> loading_data \<Rightarrow> loading_data option" where
  "load_coin db player_guid coin_guid d = load_player_from_db db player_guid (add_entity coin_guid (Other_part PK_coin) d)"

section \<open>The pool\<close>

record pooled =
  po_part :: part
  po_flushing :: bool

type_synonym part_pool = "guid \<Rightarrow> pooled option"

definition part_pool_add :: "guid \<Rightarrow> part \<Rightarrow> part_pool \<Rightarrow> part_pool" where
  "part_pool_add g e pool = (if pool g = None then pool(g := Some \<lparr> po_part = e, po_flushing = False \<rparr>) else pool)"

definition add_entity_to_pool :: "loading_data \<Rightarrow> part_pool \<Rightarrow> part_pool" where
  "add_entity_to_pool d = fold (\<lambda>(g, e). part_pool_add g e) (fm_items d)"

record collecting =
  cl_pool :: part_pool
  cl_map :: "(guid, part) fmap"

text \<open>\<^verbatim>\<open>GET_ENTITY_FROM_POOL_WHILE_FLUSH\<close>: for a flush an entity is given once and marked, whether it has the type
  that is asked for or not.\<close>

definition get_part :: "bool \<Rightarrow> part_kind \<Rightarrow> guid \<Rightarrow> collecting \<Rightarrow> part option \<times> collecting" where
  "get_part is_flush k g c =
     (case cl_pool c g of
        None \<Rightarrow> (None, c)
      | Some po \<Rightarrow>
          if is_flush \<and> po_flushing po then (None, c)
          else ((if kind_of (po_part po) = k then Some (po_part po) else None),
            (if is_flush then c\<lparr> cl_pool := (cl_pool c)(g := Some (po\<lparr> po_flushing := True \<rparr>)) \<rparr> else c)))"

definition make_entity_guid_map :: "guid \<Rightarrow> part \<Rightarrow> collecting \<Rightarrow> collecting" where
  "make_entity_guid_map g e c = (if fmlookup (cl_map c) g = None then c\<lparr> cl_map := fmupd g e (cl_map c) \<rparr> else c)"

definition collect_part :: "bool \<Rightarrow> part_kind \<Rightarrow> guid \<Rightarrow> collecting \<Rightarrow> collecting" where
  "collect_part b k g c =
     (case get_part b k g c of (Some e, c) \<Rightarrow> make_entity_guid_map g e c | (None, c) \<Rightarrow> c)"

definition collect_parts :: "bool \<Rightarrow> part_kind \<Rightarrow> guid list \<Rightarrow> collecting \<Rightarrow> collecting" where
  "collect_parts b k gs = fold (collect_part b k) gs"

definition collect_ones :: "bool \<Rightarrow> player_refs \<Rightarrow> part_kind list \<Rightarrow> collecting \<Rightarrow> collecting" where
  "collect_ones b p ks = fold (\<lambda>k. collect_part b k (pl_one p k)) ks"

definition collect_some_ones :: "bool \<Rightarrow> player_refs \<Rightarrow> part_kind list \<Rightarrow> collecting \<Rightarrow> collecting" where
  "collect_some_ones b p ks = fold (\<lambda>k c. if pl_one p k \<noteq> 0 then collect_part b k (pl_one p k) c else c) ks"

definition collect_role :: "bool \<Rightarrow> guid \<Rightarrow> collecting \<Rightarrow> collecting" where
  "collect_role b g c =
     (case get_part b PK_role g c of
        (Some (Role_part r), c) \<Rightarrow>
          (let c = make_entity_guid_map g (Role_part r) c;
               c = collect_parts b PK_item (over_one (rr_equipments r)) c;
               c = collect_part b PK_educate (rr_educate r) c;
               c = collect_part b PK_pellet (rr_pellet r) c in
           if rr_shl_owner r \<noteq> 0 then collect_part b PK_shl_owner (rr_shl_owner r) c else c)
      | (_, c) \<Rightarrow> c)"

definition collect_tasks :: "bool \<Rightarrow> guid \<Rightarrow> collecting \<Rightarrow> collecting" where
  "collect_tasks b g c =
     (case get_part b PK_task_brief g c of
        (Some (Tasks_part t), c) \<Rightarrow>
          collect_parts b PK_task (tb_failed t) (collect_parts b PK_task (tb_finished t)
            (collect_parts b PK_task (tb_unfinished t) (make_entity_guid_map g (Tasks_part t) c)))
      | (_, c) \<Rightarrow> c)"

definition collect_chakra :: "bool \<Rightarrow> guid \<Rightarrow> collecting \<Rightarrow> collecting" where
  "collect_chakra b g c =
     (case get_part b PK_chakra g c of
        (Some (Chakra_part k), c) \<Rightarrow>
          collect_parts b PK_chakre (ck_caches k)
            (collect_parts b PK_chakre (over_one (ck_storehouse k)) (make_entity_guid_map g (Chakra_part k) c))
      | (_, c) \<Rightarrow> c)"

definition collect_wife :: "bool \<Rightarrow> guid \<Rightarrow> collecting \<Rightarrow> collecting" where
  "collect_wife b g c =
     (case get_part b PK_wife g c of
        (Some (Wife_part es), c) \<Rightarrow> collect_parts b PK_item (not_null (map ucast es)) (make_entity_guid_map g (Wife_part es) c)
      | (_, c) \<Rightarrow> c)"

definition collect_all :: "bool \<Rightarrow> player_refs \<Rightarrow> collecting \<Rightarrow> collecting" where
  "collect_all b p c =
     (let c = collect_ones b p [PK_stage, PK_form] c;
          c = fold (collect_role b) (pl_roles p) c;
          c = fold (collect_role b) (pl_leave_team_roles p) c;
          c = collect_parts b PK_item (item_guids (pl_bag p)) c;
          c = collect_parts b PK_item (item_guids (pl_storehouse p)) c;
          c = collect_ones b p [PK_law, PK_sect] c;
          c = collect_parts b PK_stheno (over_one (pl_stheno_idle_list p)) c;
          c = collect_parts b PK_stheno (over_one (pl_stheno_equip_list p)) c;
          c = collect_ones b p [PK_announce] c;
          c = collect_tasks b (pl_one p PK_task_brief) c;
          c = collect_parts b PK_town_stage (pl_town_stage p) c;
          c = collect_ones b p [PK_educate_times, PK_specshop] c;
          c = collect_chakra b (pl_one p PK_chakra) c;
          c = collect_ones b p [PK_worship, PK_eggs, PK_condor, PK_boss, PK_answer, PK_addiction, PK_gift, PK_vip,
            PK_achievement, PK_practice, PK_daily_points, PK_tower, PK_tavern, PK_fish, PK_dodge, PK_player_wife] c;
          c = fold (collect_wife b) (not_null (pl_wifes p)) c in
      collect_some_ones b p [PK_activies, PK_maze, PK_open_activity, PK_open_act, PK_trial, PK_runes, PK_shl_switch,
        PK_doubleexp, PK_login_gift, PK_super_power, PK_goldcard, PK_soul, PK_soul_pve, PK_talent, PK_horse, PK_qqspread] c)"

definition get_player_entity_map :: "bool \<Rightarrow> guid \<Rightarrow> part_pool \<Rightarrow> collecting" where
  "get_player_entity_map is_flush g pool =
     (case get_part is_flush PK_player g \<lparr> cl_pool = pool, cl_map = fmempty \<rparr> of
        (Some (Player_part p), c) \<Rightarrow> collect_all is_flush p c
      | (_, c) \<Rightarrow> c)"

section \<open>Writing and removing\<close>

datatype flush_request = Rq_add guid part | Rq_add_with_flush guid part | Rq_remove guid | Rq_update guid part | Rq_flush guid part

definition rq_guid :: "flush_request \<Rightarrow> guid" where
  "rq_guid r = (case r of Rq_add g e \<Rightarrow> g | Rq_add_with_flush g e \<Rightarrow> g | Rq_remove g \<Rightarrow> g | Rq_update g e \<Rightarrow> g | Rq_flush g e \<Rightarrow> g)"

text \<open>\<open>ins\<close> and \<open>del\<close> are the entities that the pool was about to add to the database and to remove from it.\<close>

definition request_flush_player :: "bool \<Rightarrow> guid fset \<Rightarrow> guid fset \<Rightarrow> guid \<Rightarrow> part_pool \<Rightarrow> flush_request list \<times> part_pool" where
  "request_flush_player is_updating ins del g pool =
     (case pool g of
        None \<Rightarrow> ([], pool)
      | Some po \<Rightarrow>
          if kind_of (po_part po) \<noteq> PK_player then ([], pool)
          else (let c = get_player_entity_map True g pool; m = cl_map c;
               added = filter (\<lambda>x. x |\<in>| fmdom m) (fs_items ins);
               rest = filter (\<lambda>x. x |\<notin>| ins) (fs_items (fmdom m)) in
           (map (\<lambda>x. (if is_updating then Rq_add else Rq_add_with_flush) x (the (fmlookup m x))) added @
            map Rq_remove (fs_items del) @
            map (\<lambda>x. (if is_updating then Rq_update else Rq_flush) x (the (fmlookup m x))) rest @
            [Rq_update g (po_part po)], cl_pool c)))"

text \<open>\<^verbatim>\<open>playerFlushDataFinish\<close> for a player that leaves: the coin, the attached data and what the requests name.\<close>

definition remove_player :: "player_refs \<Rightarrow> flush_request list \<Rightarrow> part_pool \<Rightarrow> part_pool" where
  "remove_player p rqs pool = fold (\<lambda>g pool. pool(g := None)) (pl_coin_guid p # pl_attach p # map rq_guid rqs) pool"

end
