(* ===== verification/PlayerEntityLaws.thy ===== *)
theory PlayerEntityLaws
  imports PlayerEntities
begin

text \<open>
  What is loaded for a player is what is written when it leaves: the two functions that name the entities of a player,
  one to load them in steps, one to collect them from the pool, agree.
\<close>

section \<open>Collecting\<close>

definition content :: "part_pool \<Rightarrow> guid \<Rightarrow> part option" where
  "content pool g = map_option po_part (pool g)"

text \<open>An entity of the type \<open>k\<close>, if there is one, is under \<open>g\<close>; the types that name others have their own parts.\<close>

definition named :: "(guid \<Rightarrow> part option) \<Rightarrow> part_kind \<Rightarrow> guid \<Rightarrow> bool" where
  "named D k g \<longleftrightarrow> (\<forall>e. D g = Some e \<longrightarrow> kind_of e = k \<and>
     (\<forall>k. e = Other_part k \<longrightarrow> k \<notin> {PK_player, PK_role, PK_task_brief, PK_chakra, PK_wife}))"

definition sub_refs :: "part \<Rightarrow> guid list" where
  "sub_refs e = (case e of
       Role_part r \<Rightarrow> over_one (rr_equipments r) @ not_null [rr_educate r, rr_pellet r, rr_shl_owner r]
     | Tasks_part t \<Rightarrow> tb_unfinished t @ tb_finished t @ tb_failed t
     | Chakra_part c \<Rightarrow> over_one (ck_storehouse c) @ over_one (ck_caches c)
     | _ \<Rightarrow> [])"

text \<open>The pool has the content \<open>D\<close>, the map holds entities of it, what is marked is in the map, and with an entity the
  map has those it names, except for the entities in \<open>X\<close>.\<close>

definition coll_ok :: "(guid \<Rightarrow> part option) \<Rightarrow> bool \<Rightarrow> guid \<Rightarrow> guid set \<Rightarrow> collecting \<Rightarrow> bool" where
  "coll_ok D b pg X c \<longleftrightarrow> content (cl_pool c) = D \<and>
     (\<forall>g e. fmlookup (cl_map c) g = Some e \<longrightarrow> D g = Some e \<and> kind_of e \<notin> {PK_player, PK_coin, PK_attach}) \<and>
     (b \<longrightarrow> (\<forall>g po. cl_pool c g = Some po \<and> po_flushing po \<longrightarrow> g = pg \<or> g |\<in>| fmdom (cl_map c))) \<and>
     (\<forall>g e s. fmlookup (cl_map c) g = Some e \<longrightarrow> g \<notin> X \<longrightarrow> s \<in> set (sub_refs e) \<longrightarrow> D s \<noteq> None \<longrightarrow>
        s |\<in>| fmdom (cl_map c))"

definition collects ::
  "(guid \<Rightarrow> part option) \<Rightarrow> bool \<Rightarrow> guid \<Rightarrow> guid set \<Rightarrow> guid set \<Rightarrow> (collecting \<Rightarrow> collecting) \<Rightarrow> bool" where
  "collects D b pg X G f \<longleftrightarrow> (\<forall>c. coll_ok D b pg X c \<longrightarrow> coll_ok D b pg X (f c) \<and>
     fmdom (cl_map c) |\<subseteq>| fmdom (cl_map (f c)) \<and> (\<forall>g \<in> G. D g \<noteq> None \<longrightarrow> g |\<in>| fmdom (cl_map (f c))))"

lemma collectsD:
  assumes "collects D b pg X G f" "coll_ok D b pg X c"
  shows "coll_ok D b pg X (f c)" "fmdom (cl_map c) |\<subseteq>| fmdom (cl_map (f c))"
    "g \<in> G \<Longrightarrow> D g \<noteq> None \<Longrightarrow> g |\<in>| fmdom (cl_map (f c))"
  using assms unfolding collects_def by blast+

lemma collects_mono: "collects D b pg X G f \<Longrightarrow> H \<subseteq> G \<Longrightarrow> collects D b pg X H f"
  unfolding collects_def by blast

lemma collects_id: "collects D b pg X {} (\<lambda>c. c)"
  by (simp add: collects_def)

lemma collects_then:
  assumes f: "collects D b pg X G f" and h: "collects D b pg X H h"
  shows "collects D b pg X (G \<union> H) (\<lambda>c. h (f c))"
  unfolding collects_def
proof (intro allI impI)
  fix c assume c: "coll_ok D b pg X c"
  note 1 = collectsD [OF f c]
  note 2 = collectsD [OF h 1(1)]
  show "coll_ok D b pg X (h (f c)) \<and> fmdom (cl_map c) |\<subseteq>| fmdom (cl_map (h (f c))) \<and>
      (\<forall>g \<in> G \<union> H. D g \<noteq> None \<longrightarrow> g |\<in>| fmdom (cl_map (h (f c))))"
    using 1 2 by blast
qed

lemma collects_fold:
  assumes "\<And>x. x \<in> set xs \<Longrightarrow> collects D b pg X (G x) (f x)"
  shows "collects D b pg X (\<Union>x \<in> set xs. G x) (fold f xs)"
  using assms
proof (induction xs)
  case (Cons x xs)
  have "collects D b pg X (G x \<union> (\<Union>x \<in> set xs. G x)) (\<lambda>c. fold f xs (f x c))"
    by (rule collects_then) (use Cons in auto)
  then show ?case by (simp add: comp_def)
qed (simp add: collects_id id_def)

lemma coll_ok_other: "coll_ok D b pg X c \<Longrightarrow> X \<subseteq> Y \<Longrightarrow> coll_ok D b pg Y c"
  unfolding coll_ok_def by blast

text \<open>What \<open>get_part\<close> leaves: the entity, unless it is in the map already.\<close>

lemma get_part_ok:
  assumes "coll_ok D b pg X c" "named D k g" "named D PK_player pg" "k \<noteq> PK_player"
    "get_part b k g c = (r, c')" "D g \<noteq> None"
  shows "r = D g \<and> (b \<or> c' = c) \<and> c' = c\<lparr> cl_pool := cl_pool c' \<rparr> \<and> content (cl_pool c') = D \<and>
      (\<forall>x po. cl_pool c' x = Some po \<and> po_flushing po \<and> x \<noteq> g \<longrightarrow> cl_pool c x = Some po) \<or>
    r = None \<and> c' = c \<and> g |\<in>| fmdom (cl_map c)"
proof -
  obtain po where po: "cl_pool c g = Some po" "D g = Some (po_part po)"
    using assms(1,6) by (auto simp: coll_ok_def content_def)
  have k: "kind_of (po_part po) = k" using assms(2) po(2) by (simp add: named_def)
  show ?thesis
  proof (cases "b \<and> po_flushing po")
    case True
    then have "r = None" "c' = c" using assms(5) po(1) by (auto simp: get_part_def)
    moreover have "g \<noteq> pg" using assms(3,4) k po(2) by (auto simp: named_def)
    then have "g |\<in>| fmdom (cl_map c)" using assms(1) True po(1) unfolding coll_ok_def by blast
    ultimately show ?thesis by blast
  next
    case False
    then have r: "r = D g" and c': "c' = (if b then c\<lparr> cl_pool := (cl_pool c)(g := Some (po\<lparr> po_flushing := True \<rparr>)) \<rparr> else c)"
      using assms(5) po k by (auto simp: get_part_def)
    moreover have "content (cl_pool c') = D"
      using assms(1) po c' by (auto simp: content_def coll_ok_def fun_eq_iff)
    ultimately show ?thesis by (auto split: if_splits)
  qed
qed

lemma coll_ok_insert:
  assumes "coll_ok D b pg X c" "D g = Some e" "kind_of e \<notin> {PK_player, PK_coin, PK_attach}"
    "b \<or> c' = c" "c' = c\<lparr> cl_pool := cl_pool c' \<rparr>" "content (cl_pool c') = D"
    "\<forall>x po. cl_pool c' x = Some po \<and> po_flushing po \<and> x \<noteq> g \<longrightarrow> cl_pool c x = Some po"
    "sub_refs e = [] \<or> g \<in> X"
  shows "coll_ok D b pg X (make_entity_guid_map g e c') \<and>
    fmdom (cl_map (make_entity_guid_map g e c')) = finsert g (fmdom (cl_map c))"
proof -
  have m: "cl_map c' = cl_map c" by (subst assms(5)) simp
  have map: "cl_map (make_entity_guid_map g e c') = (if fmlookup (cl_map c) g = None then fmupd g e (cl_map c) else cl_map c)"
      "cl_pool (make_entity_guid_map g e c') = cl_pool c'"
    by (simp_all add: make_entity_guid_map_def m)
  have dom: "fmdom (cl_map (make_entity_guid_map g e c')) = finsert g (fmdom (cl_map c))"
    unfolding map by (auto simp: fmlookup_dom_iff)
  have look: "fmlookup (cl_map (make_entity_guid_map g e c')) x = Some y \<longleftrightarrow> x = g \<and> y = e \<or> x \<noteq> g \<and> fmlookup (cl_map c) x = Some y"
    for x y unfolding map using assms(1,2) by (auto simp: coll_ok_def split: if_splits)
  have "b \<longrightarrow> (\<forall>x po. cl_pool c' x = Some po \<and> po_flushing po \<longrightarrow> x = pg \<or> x |\<in>| finsert g (fmdom (cl_map c)))"
    using assms(1,7) unfolding coll_ok_def by blast
  moreover have "\<forall>x y s. fmlookup (cl_map (make_entity_guid_map g e c')) x = Some y \<longrightarrow> x \<notin> X \<longrightarrow> s \<in> set (sub_refs y) \<longrightarrow>
      D s \<noteq> None \<longrightarrow> s |\<in>| finsert g (fmdom (cl_map c))"
    unfolding look using assms(1,8) by (auto simp: coll_ok_def)
  moreover have "\<forall>x y. fmlookup (cl_map (make_entity_guid_map g e c')) x = Some y \<longrightarrow> D x = Some y \<and>
      kind_of y \<notin> {PK_player, PK_coin, PK_attach}"
    unfolding look using assms(1-3) by (auto simp: coll_ok_def)
  ultimately show ?thesis using assms(6) unfolding coll_ok_def dom map(2) by blast
qed

lemma coll_okD:
  assumes "coll_ok D b pg X c" "fmlookup (cl_map c) g = Some e"
  shows "D g = Some e" "kind_of e \<notin> {PK_player, PK_coin, PK_attach}"
    "X = {} \<Longrightarrow> s \<in> set (sub_refs e) \<Longrightarrow> D s \<noteq> None \<Longrightarrow> s |\<in>| fmdom (cl_map c)"
  using assms unfolding coll_ok_def by blast+

definition leaf :: "part_kind \<Rightarrow> bool" where
  "leaf k \<longleftrightarrow> k \<notin> {PK_player, PK_coin, PK_attach, PK_role, PK_task_brief, PK_chakra}"

lemma leaf_no_subs: "leaf (kind_of e) \<Longrightarrow> sub_refs e = []"
  by (cases e) (auto simp: leaf_def kind_of_def sub_refs_def)

lemma get_part_none: "D g = None \<Longrightarrow> coll_ok D b pg X c \<Longrightarrow> get_part b k g c = (None, c)"
  by (auto simp: get_part_def coll_ok_def content_def split: option.split)

lemma collects_part:
  assumes "named D k g" "named D PK_player pg" "leaf k"
  shows "collects D b pg X {g} (collect_part b k g)"
  unfolding collects_def
proof (intro allI impI)
  fix c assume c: "coll_ok D b pg X c"
  obtain r c' where r: "get_part b k g c = (r, c')" by fastforce
  show "coll_ok D b pg X (collect_part b k g c) \<and> fmdom (cl_map c) |\<subseteq>| fmdom (cl_map (collect_part b k g c)) \<and>
      (\<forall>x \<in> {g}. D x \<noteq> None \<longrightarrow> x |\<in>| fmdom (cl_map (collect_part b k g c)))"
  proof (cases "D g")
    case None
    then show ?thesis using c get_part_none [OF None c, of k] by (simp add: collect_part_def)
  next
    case (Some e)
    have "k \<noteq> PK_player" using assms(3) by (auto simp: leaf_def)
    with get_part_ok [OF c assms(1,2) _ r] Some consider
      (new) "r = Some e" "b \<or> c' = c" "c' = c\<lparr> cl_pool := cl_pool c' \<rparr>" "content (cl_pool c') = D"
        "\<forall>x po. cl_pool c' x = Some po \<and> po_flushing po \<and> x \<noteq> g \<longrightarrow> cl_pool c x = Some po" |
      (old) "r = None" "c' = c" "g |\<in>| fmdom (cl_map c)" by auto
    then show ?thesis
    proof cases
      case new
      have k: "kind_of e = k" using assms(1) Some by (simp add: named_def)
      then have "kind_of e \<notin> {PK_player, PK_coin, PK_attach}" "sub_refs e = [] \<or> g \<in> X"
        using assms(3) leaf_no_subs by (auto simp: leaf_def)
      from coll_ok_insert [OF c Some this(1) new(2-5) this(2)] show ?thesis
        using r new(1) by (auto simp: collect_part_def)
    qed (use c r in \<open>simp add: collect_part_def\<close>)
  qed
qed

lemma collects_parts:
  assumes "\<And>g. g \<in> set gs \<Longrightarrow> named D k g" "named D PK_player pg" "leaf k"
  shows "collects D b pg X (set gs) (collect_parts b k gs)"
proof -
  have "collects D b pg X (\<Union>g \<in> set gs. {g}) (fold (collect_part b k) gs)"
    by (rule collects_fold) (use assms collects_part in auto)
  then show ?thesis by (simp add: collect_parts_def)
qed

lemma coll_ok_close:
  assumes "coll_ok D b pg {g} c" "fmlookup (cl_map c) g = Some e"
    "\<And>s. s \<in> set (sub_refs e) \<Longrightarrow> D s \<noteq> None \<Longrightarrow> s |\<in>| fmdom (cl_map c)"
  shows "coll_ok D b pg {} c"
proof -
  have "s |\<in>| fmdom (cl_map c)"
    if "fmlookup (cl_map c) x = Some y" "s \<in> set (sub_refs y)" "D s \<noteq> None" for x y s
    using assms that unfolding coll_ok_def by (cases "x = g") auto
  then show ?thesis using assms(1) unfolding coll_ok_def by simp
qed

lemma collects_owner:
  assumes "named D k g" "named D PK_player pg" "k \<notin> {PK_player, PK_coin, PK_attach}"
    and f: "\<And>c e c'. get_part b k g c = (Some e, c') \<Longrightarrow> D g = Some e \<Longrightarrow> f c = F e (make_entity_guid_map g e c')"
      "\<And>c c'. get_part b k g c = (None, c') \<Longrightarrow> f c = c'"
    and F: "\<And>e. D g = Some e \<Longrightarrow> collects D b pg {g} (set (sub_refs e)) (F e)"
  shows "collects D b pg {} {g} f"
  unfolding collects_def
proof (intro allI impI)
  fix c assume c: "coll_ok D b pg {} c"
  obtain r c' where r: "get_part b k g c = (r, c')" by fastforce
  show "coll_ok D b pg {} (f c) \<and> fmdom (cl_map c) |\<subseteq>| fmdom (cl_map (f c)) \<and>
      (\<forall>x \<in> {g}. D x \<noteq> None \<longrightarrow> x |\<in>| fmdom (cl_map (f c)))"
  proof (cases "D g")
    case None
    then show ?thesis using c f(2) [OF get_part_none [OF None c, of k]] by simp
  next
    case (Some e)
    have "k \<noteq> PK_player" using assms(3) by auto
    with get_part_ok [OF c assms(1,2) _ r] Some consider
      (new) "r = Some e" "b \<or> c' = c" "c' = c\<lparr> cl_pool := cl_pool c' \<rparr>" "content (cl_pool c') = D"
        "\<forall>x po. cl_pool c' x = Some po \<and> po_flushing po \<and> x \<noteq> g \<longrightarrow> cl_pool c x = Some po" |
      (old) "r = None" "c' = c" "g |\<in>| fmdom (cl_map c)" by auto
    then show ?thesis
    proof cases
      case new
      have "kind_of e \<notin> {PK_player, PK_coin, PK_attach}" using assms(1,3) Some by (simp add: named_def)
      from coll_ok_insert [OF coll_ok_other [OF c, of "{g}"] Some this new(2-5)]
      have ins: "coll_ok D b pg {g} (make_entity_guid_map g e c')"
          "fmdom (cl_map (make_entity_guid_map g e c')) = finsert g (fmdom (cl_map c))" by simp_all
      note after = collectsD [OF F [OF Some] ins(1)]
      have g: "g |\<in>| fmdom (cl_map (F e (make_entity_guid_map g e c')))" using after(2) ins(2) by blast
      have "fmlookup (cl_map (F e (make_entity_guid_map g e c'))) g = Some e"
        using g after(1) Some by (auto simp: coll_ok_def fmlookup_dom_iff)
      from coll_ok_close [OF after(1) this after(3)]
      show ?thesis using g after(2) ins(2) f(1) [of c e c'] new(1) r Some by auto
    qed (use c r f(2) in simp)
  qed
qed

section \<open>The parts of a player\<close>

definition role_named :: "(guid \<Rightarrow> part option) \<Rightarrow> guid \<Rightarrow> bool" where
  "role_named D g \<longleftrightarrow> named D PK_role g \<and> (\<forall>r. D g = Some (Role_part r) \<longrightarrow>
     (\<forall>x \<in> set (over_one (rr_equipments r)). named D PK_item x) \<and> named D PK_educate (rr_educate r) \<and>
     named D PK_pellet (rr_pellet r) \<and> named D PK_shl_owner (rr_shl_owner r))"

definition tasks_named :: "(guid \<Rightarrow> part option) \<Rightarrow> guid \<Rightarrow> bool" where
  "tasks_named D g \<longleftrightarrow> named D PK_task_brief g \<and> (\<forall>t. D g = Some (Tasks_part t) \<longrightarrow>
     (\<forall>x \<in> set (tb_unfinished t) \<union> set (tb_finished t) \<union> set (tb_failed t). named D PK_task x))"

definition chakra_named :: "(guid \<Rightarrow> part option) \<Rightarrow> guid \<Rightarrow> bool" where
  "chakra_named D g \<longleftrightarrow> named D PK_chakra g \<and> (\<forall>k. D g = Some (Chakra_part k) \<longrightarrow>
     (\<forall>x \<in> set (ck_storehouse k) \<union> set (ck_caches k). named D PK_chakre x))"

definition wife_named :: "(guid \<Rightarrow> part option) \<Rightarrow> guid \<Rightarrow> bool" where
  "wife_named D g \<longleftrightarrow> named D PK_wife g \<and> (\<forall>es. D g = Some (Wife_part es) \<longrightarrow>
     (\<forall>x \<in> set (not_null (map ucast es)). named D PK_item x))"

lemma named_cases:
  "named D PK_role g \<Longrightarrow> D g = Some e \<Longrightarrow> \<exists>r. e = Role_part r"
  "named D PK_task_brief g \<Longrightarrow> D g = Some e \<Longrightarrow> \<exists>t. e = Tasks_part t"
  "named D PK_chakra g \<Longrightarrow> D g = Some e \<Longrightarrow> \<exists>c. e = Chakra_part c"
  "named D PK_wife g \<Longrightarrow> D g = Some e \<Longrightarrow> \<exists>w. e = Wife_part w"
  "named D PK_player g \<Longrightarrow> D g = Some e \<Longrightarrow> \<exists>p. e = Player_part p"
  by (cases e; auto simp: named_def kind_of_def)+

lemma collects_if: "(P \<Longrightarrow> collects D b pg X G f) \<Longrightarrow> collects D b pg X (if P then G else {}) (\<lambda>c. if P then f c else c)"
  by (simp add: collects_def)

lemma set_over_not [simp]: "set (not_null gs) = {g \<in> set gs. g \<noteq> 0}" "set (over_one gs) = {g \<in> set gs. 1 < g}"
  by (auto simp: not_null_def over_one_def)

lemma leaf_simps [simp]: "leaf PK_item" "leaf PK_educate" "leaf PK_pellet" "leaf PK_shl_owner" "leaf PK_task" "leaf PK_chakre"
    "leaf PK_stheno" "leaf PK_town_stage" "leaf PK_wife"
  by (simp_all add: leaf_def)

lemma collects_role:
  assumes "role_named D g" "named D PK_player pg"
  shows "collects D b pg {} {g} (collect_role b g)"
proof (rule collects_owner [of _ PK_role])
  let ?F = "\<lambda>e c. case e of Role_part r \<Rightarrow>
      (\<lambda>c. if rr_shl_owner r \<noteq> 0 then collect_part b PK_shl_owner (rr_shl_owner r) c else c)
        (collect_part b PK_pellet (rr_pellet r) (collect_part b PK_educate (rr_educate r)
          (collect_parts b PK_item (over_one (rr_equipments r)) c))) | _ \<Rightarrow> c"
  fix e assume De: "D g = Some e"
  obtain r where e: "e = Role_part r" using assms(1) De by (auto dest!: named_cases(1) simp: role_named_def)
  show "collect_role b g c = ?F e (make_entity_guid_map g e c')" if "get_part b PK_role g c = (Some e, c')" for c c'
    using that e by (simp add: collect_role_def Let_def)
  have n: "\<And>x. x \<in> set (over_one (rr_equipments r)) \<Longrightarrow> named D PK_item x" "named D PK_educate (rr_educate r)"
      "named D PK_pellet (rr_pellet r)" "named D PK_shl_owner (rr_shl_owner r)"
    using assms(1) De e by (auto simp: role_named_def)
  have "collects D b pg {g} (((set (over_one (rr_equipments r)) \<union> {rr_educate r}) \<union> {rr_pellet r}) \<union>
      (if rr_shl_owner r \<noteq> 0 then {rr_shl_owner r} else {})) (?F (Role_part r))"
    unfolding part.case
    by (intro collects_then collects_if collects_part collects_parts n assms(2) leaf_simps)
  then show "collects D b pg {g} (set (sub_refs e)) (?F e)" unfolding e by (rule collects_mono) (auto simp: sub_refs_def)
qed (use assms in \<open>auto simp: role_named_def collect_role_def\<close>)

lemma collects_tasks:
  assumes "tasks_named D g" "named D PK_player pg"
  shows "collects D b pg {} {g} (collect_tasks b g)"
proof (rule collects_owner [of _ PK_task_brief])
  let ?F = "\<lambda>e c. case e of Tasks_part t \<Rightarrow> collect_parts b PK_task (tb_failed t) (collect_parts b PK_task (tb_finished t)
      (collect_parts b PK_task (tb_unfinished t) c)) | _ \<Rightarrow> c"
  fix e assume De: "D g = Some e"
  obtain t where e: "e = Tasks_part t" using assms(1) De by (auto dest!: named_cases(2) simp: tasks_named_def)
  show "collect_tasks b g c = ?F e (make_entity_guid_map g e c')" if "get_part b PK_task_brief g c = (Some e, c')" for c c'
    using that e by (simp add: collect_tasks_def)
  have n: "\<And>x. x \<in> set (tb_unfinished t) \<union> set (tb_finished t) \<union> set (tb_failed t) \<Longrightarrow> named D PK_task x"
    using assms(1) De e unfolding tasks_named_def by blast
  have "collects D b pg {g} ((set (tb_unfinished t) \<union> set (tb_finished t)) \<union> set (tb_failed t)) (?F (Tasks_part t))"
    unfolding part.case by (intro collects_then collects_parts n assms(2) leaf_simps) auto
  then show "collects D b pg {g} (set (sub_refs e)) (?F e)" unfolding e by (rule collects_mono) (auto simp: sub_refs_def)
qed (use assms in \<open>auto simp: tasks_named_def collect_tasks_def\<close>)

lemma collects_chakra:
  assumes "chakra_named D g" "named D PK_player pg"
  shows "collects D b pg {} {g} (collect_chakra b g)"
proof (rule collects_owner [of _ PK_chakra])
  let ?F = "\<lambda>e c. case e of Chakra_part k \<Rightarrow> collect_parts b PK_chakre (ck_caches k)
      (collect_parts b PK_chakre (over_one (ck_storehouse k)) c) | _ \<Rightarrow> c"
  fix e assume De: "D g = Some e"
  obtain k where e: "e = Chakra_part k" using assms(1) De by (auto dest!: named_cases(3) simp: chakra_named_def)
  show "collect_chakra b g c = ?F e (make_entity_guid_map g e c')" if "get_part b PK_chakra g c = (Some e, c')" for c c'
    using that e by (simp add: collect_chakra_def)
  have n: "\<And>x. x \<in> set (ck_storehouse k) \<union> set (ck_caches k) \<Longrightarrow> named D PK_chakre x"
    using assms(1) De e unfolding chakra_named_def by blast
  have "collects D b pg {g} (set (over_one (ck_storehouse k)) \<union> set (ck_caches k)) (?F (Chakra_part k))"
    unfolding part.case by (intro collects_then collects_parts n assms(2) leaf_simps) auto
  then show "collects D b pg {g} (set (sub_refs e)) (?F e)" unfolding e by (rule collects_mono) (auto simp: sub_refs_def)
qed (use assms in \<open>auto simp: chakra_named_def collect_chakra_def\<close>)

lemma collects_wife:
  assumes "wife_named D g" "named D PK_player pg"
  shows "collects D b pg {} {g} (collect_wife b g)"
proof (rule collects_owner [of _ PK_wife])
  let ?F = "\<lambda>e c. case e of Wife_part es \<Rightarrow> collect_parts b PK_item (not_null (map ucast es)) c | _ \<Rightarrow> c"
  fix e assume De: "D g = Some e"
  obtain es where e: "e = Wife_part es" using assms(1) De by (auto dest!: named_cases(4) simp: wife_named_def)
  show "collect_wife b g c = ?F e (make_entity_guid_map g e c')" if "get_part b PK_wife g c = (Some e, c')" for c c'
    using that e by (simp add: collect_wife_def)
  have "collects D b pg {g} (set (not_null (map ucast es))) (?F (Wife_part es))"
    unfolding part.case by (intro collects_parts assms(2) leaf_simps) (use assms(1) De e in \<open>auto simp: wife_named_def\<close>)
  then show "collects D b pg {g} (set (sub_refs e)) (?F e)" unfolding e by (rule collects_mono) (auto simp: sub_refs_def)
qed (use assms in \<open>auto simp: wife_named_def collect_wife_def\<close>)

definition well_named :: "(guid \<Rightarrow> part option) \<Rightarrow> player_refs \<Rightarrow> bool" where
  "well_named D p \<longleftrightarrow> (\<forall>k. leaf k \<longrightarrow> named D k (pl_one p k)) \<and> tasks_named D (pl_one p PK_task_brief) \<and>
     chakra_named D (pl_one p PK_chakra) \<and> (\<forall>g \<in> set (pl_roles p) \<union> set (pl_leave_team_roles p). role_named D g) \<and>
     (\<forall>g \<in> set (item_guids (pl_bag p)) \<union> set (item_guids (pl_storehouse p)). named D PK_item g) \<and>
     (\<forall>g \<in> set (pl_stheno_idle_list p) \<union> set (pl_stheno_equip_list p). named D PK_stheno g) \<and>
     (\<forall>g \<in> set (pl_town_stage p). named D PK_town_stage g) \<and> (\<forall>g \<in> set (pl_wifes p). wife_named D g)"

lemma named_mono:
  assumes "D \<subseteq>\<^sub>m E"
  shows "named E k g \<Longrightarrow> named D k g" "role_named E g \<Longrightarrow> role_named D g" "tasks_named E g \<Longrightarrow> tasks_named D g"
    "chakra_named E g \<Longrightarrow> chakra_named D g" "wife_named E g \<Longrightarrow> wife_named D g" "well_named E p \<Longrightarrow> well_named D p"
proof -
  have le: "D g = Some e \<Longrightarrow> E g = Some e" for g e using assms by (metis map_le_def domI)
  show n: "named E k g \<Longrightarrow> named D k g" for k g using le by (auto simp: named_def)
  show r: "role_named E g \<Longrightarrow> role_named D g" for g using le n by (auto simp: role_named_def)
  show t: "tasks_named E g \<Longrightarrow> tasks_named D g" for g using le n unfolding tasks_named_def by blast
  show c: "chakra_named E g \<Longrightarrow> chakra_named D g" for g using le n unfolding chakra_named_def by blast
  show w: "wife_named E g \<Longrightarrow> wife_named D g" for g using le n unfolding wife_named_def by blast
  show "well_named E p \<Longrightarrow> well_named D p" using n r t c w unfolding well_named_def by blast
qed

lemma collects_ones:
  assumes "\<forall>k. leaf k \<longrightarrow> named D k (pl_one p k)" "named D PK_player pg" "list_all leaf ks"
  shows "collects D b pg X (pl_one p ` set ks) (collect_ones b p ks)"
    "collects D b pg X {g \<in> pl_one p ` set ks. g \<noteq> 0} (collect_some_ones b p ks)"
proof -
  have "collects D b pg X (\<Union>k \<in> set ks. {pl_one p k}) (fold (\<lambda>k. collect_part b k (pl_one p k)) ks)"
    by (rule collects_fold, rule collects_part) (use assms in \<open>auto simp: list_all_iff\<close>)
  then show "collects D b pg X (pl_one p ` set ks) (collect_ones b p ks)" by (simp add: collect_ones_def UNION_singleton_eq_range)
  have "collects D b pg X (\<Union>k \<in> set ks. if pl_one p k \<noteq> 0 then {pl_one p k} else {})
      (fold (\<lambda>k c. if pl_one p k \<noteq> 0 then collect_part b k (pl_one p k) c else c) ks)"
    by (rule collects_fold, rule collects_if, rule collects_part) (use assms in \<open>auto simp: list_all_iff\<close>)
  then show "collects D b pg X {g \<in> pl_one p ` set ks. g \<noteq> 0} (collect_some_ones b p ks)"
    unfolding collect_some_ones_def by (rule collects_mono) auto
qed

lemma collects_owners:
  assumes "\<And>g. g \<in> set gs \<Longrightarrow> collects D b pg {} {g} (f g)"
  shows "collects D b pg {} (set gs) (fold f gs)"
  using collects_fold [of gs D b pg "{}" "\<lambda>g. {g}" f] assms by simp

lemma collects_all:
  assumes "well_named D p" "named D PK_player pg"
  shows "collects D b pg {} (set (load_player_requests p)) (collect_all b p)"
proof -
  have w: "\<forall>k. leaf k \<longrightarrow> named D k (pl_one p k)" "tasks_named D (pl_one p PK_task_brief)" "chakra_named D (pl_one p PK_chakra)"
      "\<And>g. g \<in> set (pl_roles p) \<Longrightarrow> role_named D g" "\<And>g. g \<in> set (pl_leave_team_roles p) \<Longrightarrow> role_named D g"
      "\<And>g. g \<in> set (item_guids (pl_bag p)) \<Longrightarrow> named D PK_item g"
      "\<And>g. g \<in> set (item_guids (pl_storehouse p)) \<Longrightarrow> named D PK_item g"
      "\<And>g. g \<in> set (over_one (pl_stheno_idle_list p)) \<Longrightarrow> named D PK_stheno g"
      "\<And>g. g \<in> set (over_one (pl_stheno_equip_list p)) \<Longrightarrow> named D PK_stheno g"
      "\<And>g. g \<in> set (pl_town_stage p) \<Longrightarrow> named D PK_town_stage g" "\<And>g. g \<in> set (not_null (pl_wifes p)) \<Longrightarrow> wife_named D g"
    using assms(1) unfolding well_named_def by auto
  note ones = collects_ones [OF w(1) assms(2)]
  note t = ones(1) [where ks="[PK_stage, PK_form]" and b=b and X="{}"]
  note t = collects_then [OF t collects_owners [where f="collect_role b" and b=b, OF collects_role [OF w(4) assms(2)]]]
  note t = collects_then [OF t collects_owners [where f="collect_role b" and b=b, OF collects_role [OF w(5) assms(2)]]]
  note t = collects_then [OF t collects_parts [where b=b and X="{}", OF w(6) assms(2) leaf_simps(1)]]
  note t = collects_then [OF t collects_parts [where b=b and X="{}", OF w(7) assms(2) leaf_simps(1)]]
  note t = collects_then [OF t ones(1) [where ks="[PK_law, PK_sect]" and b=b and X="{}"]]
  note t = collects_then [OF t collects_parts [where b=b and X="{}", OF w(8) assms(2) leaf_simps(7)]]
  note t = collects_then [OF t collects_parts [where b=b and X="{}", OF w(9) assms(2) leaf_simps(7)]]
  note t = collects_then [OF t ones(1) [where ks="[PK_announce]" and b=b and X="{}"]]
  note t = collects_then [OF t collects_tasks [OF w(2) assms(2)]]
  note t = collects_then [OF t collects_parts [where b=b and X="{}", OF w(10) assms(2) leaf_simps(8)]]
  note t = collects_then [OF t ones(1) [where ks="[PK_educate_times, PK_specshop]" and b=b and X="{}"]]
  note t = collects_then [OF t collects_chakra [OF w(3) assms(2)]]
  note t = collects_then [OF t ones(1) [where ks="[PK_worship, PK_eggs, PK_condor, PK_boss, PK_answer, PK_addiction, PK_gift, PK_vip,
      PK_achievement, PK_practice, PK_daily_points, PK_tower, PK_tavern, PK_fish, PK_dodge, PK_player_wife]" and b=b and X="{}"]]
  note t = collects_then [OF t collects_owners [where f="collect_wife b" and b=b, OF collects_wife [OF w(11) assms(2)]]]
  note t = collects_then [OF t ones(2) [where ks="[PK_activies, PK_maze, PK_open_activity, PK_open_act, PK_trial, PK_runes, PK_shl_switch,
      PK_doubleexp, PK_login_gift, PK_super_power, PK_goldcard, PK_soul, PK_soul_pve, PK_talent, PK_horse, PK_qqspread]" and b=b and X="{}"]]
  show ?thesis unfolding collect_all_def Let_def
    by (rule collects_mono [OF t]) (auto simp: leaf_def load_player_requests_def)
qed

section \<open>Loading\<close>

lemma fold_add_entity:
  "fmlookup (fold (\<lambda>g. add_entity g (f g)) gs d) x =
    (case fmlookup d x of Some e \<Rightarrow> Some e | None \<Rightarrow> if x \<in> set gs then Some (f x) else None)"
  by (induction gs arbitrary: d) (auto simp: add_entity_def split: option.splits)

lemma load_parts_Some:
  assumes "load_parts db gs d = Some d'"
  shows "fmlookup d' x = (case fmlookup d x of Some e \<Rightarrow> Some e | None \<Rightarrow> if x \<in> set gs then db x else None)"
  using assms by (auto simp: load_parts_def fold_add_entity list_all_iff split: if_splits option.splits)

text \<open>What a list of requests for the second step asks for is named by something in the first.\<close>

lemma second_requests:
  assumes "x \<in> set (load_role_requests p d)"
  shows "\<exists>g e. fmlookup d g = Some e \<and> x \<in> set (sub_refs e) \<and>
    g \<in> insert (pl_one p PK_task_brief) (insert (pl_one p PK_chakra) (set (pl_roles p) \<union> set (pl_leave_team_roles p)))"
proof -
  have r: "\<exists>e. fmlookup d g = Some e \<and> x \<in> set (sub_refs e)" if "x \<in> set (role_requests d g)" for g
    using that by (cases "fmlookup d g") (auto simp: role_requests_def sub_refs_def split: part.splits)
  have t: "\<exists>e. fmlookup d g = Some e \<and> x \<in> set (sub_refs e)" if "x \<in> set (task_requests d g)" for g
    using that by (cases "fmlookup d g") (auto simp: task_requests_def sub_refs_def split: part.splits)
  have c: "\<exists>e. fmlookup d g = Some e \<and> x \<in> set (sub_refs e)" if "x \<in> set (chakra_requests d g)" for g
    using that by (cases "fmlookup d g") (auto simp: chakra_requests_def sub_refs_def split: part.splits)
  show ?thesis using assms r t c unfolding load_role_requests_def by fastforce
qed

definition first_data :: "player_refs \<Rightarrow> guid \<Rightarrow> loading_data" where
  "first_data p coin = add_entity (pl_guid p) (Player_part p) (add_entity coin (Other_part PK_coin) fmempty)"

text \<open>Everything loaded is named by the player, or by something the player names; and it is as in the database.\<close>

lemma load_player_Some:
  assumes "load_player db p (add_entity coin (Other_part PK_coin) fmempty) = Some d"
    and "fmlookup d x = Some e"
  shows "fmlookup (first_data p coin) x = Some e \<or> db x = Some e \<and>
    (x \<in> set (load_player_requests p) \<or>
     (\<exists>g y. fmlookup d g = Some y \<and> x \<in> set (sub_refs y) \<and> g \<in> set (load_player_requests p)))"
proof (cases "load_player_requests p = []")
  case True
  then show ?thesis using assms by (simp add: load_player_def first_data_def)
next
  case False
  let ?d = "first_data p coin"
  obtain d1 where d1: "load_parts db (load_player_requests p) ?d = Some d1"
    using assms(1) False by (auto simp: load_player_def load_player_role_def first_data_def split: option.splits)
  then have d: "load_role_requests p d1 = [] \<and> d = d1 \<or> load_parts db (load_role_requests p d1) d1 = Some d"
    using assms(1) False by (auto simp: load_player_def load_player_role_def first_data_def Let_def
        load_player_role_equipment_def split: if_splits)
  note look1 = load_parts_Some [OF d1]
  have mono: "fmlookup d1 g = Some y \<Longrightarrow> fmlookup d g = Some y" for g y
    using d load_parts_Some [of db "load_role_requests p d1" d1 d g] by auto
  consider (one) "fmlookup d1 x = Some e" | (two) "fmlookup d1 x = None" "db x = Some e" "x \<in> set (load_role_requests p d1)"
    using d assms(2) load_parts_Some [of db "load_role_requests p d1" d1 d x] by (auto split: option.splits if_splits)
  then show ?thesis
  proof cases
    case one
    then show ?thesis using look1 [of x] by (auto split: option.splits if_splits)
  next
    case two
    obtain g y where g: "fmlookup d1 g = Some y" "x \<in> set (sub_refs y)" using second_requests [OF two(3)] by blast
    have "fmlookup ?d g \<noteq> Some y" using g(2)
      by (auto simp: first_data_def add_entity_def sub_refs_def split: if_splits)
    then have "g \<in> set (load_player_requests p)" using look1 [of g] g(1) by (auto split: option.splits if_splits)
    then show ?thesis using two(2) g mono by blast
  qed
qed

lemma load_player_keeps:
  assumes "load_player db p d0 = Some d"
  shows "fmlookup (add_entity (pl_guid p) (Player_part p) d0) x = Some e \<Longrightarrow> fmlookup d x = Some e"
  using assms
  by (auto simp: load_player_def load_player_role_def load_player_role_equipment_def load_parts_Some Let_def
      split: if_splits option.splits)

section \<open>Through the pool\<close>

lemma content_add [simp]:
  "content (part_pool_add g e pool) x = (case content pool x of Some y \<Rightarrow> Some y | None \<Rightarrow> if x = g then Some e else None)"
  by (auto simp: content_def part_pool_add_def split: option.split)

lemma fold_pool_add:
  "content (fold (\<lambda>(g, e). part_pool_add g e) xs pool) x = (case content pool x of Some e \<Rightarrow> Some e | None \<Rightarrow> map_of xs x)"
  "(\<And>g po. pool g = Some po \<Longrightarrow> \<not> po_flushing po) \<Longrightarrow>
    fold (\<lambda>(g, e). part_pool_add g e) xs pool g = Some po \<Longrightarrow> \<not> po_flushing po"
proof -
  show "content (fold (\<lambda>(g, e). part_pool_add g e) xs pool) x = (case content pool x of Some e \<Rightarrow> Some e | None \<Rightarrow> map_of xs x)"
    by (induction xs arbitrary: pool) (auto split: option.split)
  show "(\<And>g po. pool g = Some po \<Longrightarrow> \<not> po_flushing po) \<Longrightarrow>
    fold (\<lambda>(g, e). part_pool_add g e) xs pool g = Some po \<Longrightarrow> \<not> po_flushing po"
  proof (induction xs arbitrary: pool)
    case (Cons y xs)
    show ?case
      by (rule Cons.IH [of "part_pool_add (fst y) (snd y) pool"])
        (use Cons.prems in \<open>auto simp: part_pool_add_def split: if_splits prod.splits\<close>)
  qed simp
qed

lemma map_of_fm_items [simp]: "map_of (fm_items d) = fmlookup d"
proof
  fix x
  show "map_of (fm_items d) x = fmlookup d x"
  proof (cases "fmlookup d x")
    case None
    have "x \<notin> fst ` set (fm_items d)"
    proof
      assume "x \<in> fst ` set (fm_items d)"
      then obtain y where "(x, y) \<in> set (fm_items d)" by auto
      then show False using None by simp
    qed
    then show ?thesis using None by (simp add: map_of_eq_None_iff)
  next
    case (Some y)
    then show ?thesis by (simp add: map_of_is_SomeI)
  qed
qed

lemma add_entity_to_pool_content [simp]: "content (add_entity_to_pool d Map.empty) = fmlookup d"
  by (rule ext) (simp add: add_entity_to_pool_def fold_pool_add(1), simp add: content_def)

lemma add_entity_to_pool_fresh: "add_entity_to_pool d Map.empty g = Some po \<Longrightarrow> \<not> po_flushing po"
  unfolding add_entity_to_pool_def by (rule fold_pool_add(2)) simp_all

text \<open>A player whose entities are in the database, and how it is in the pool after it logged in: its entities and the attached
  data that are made then.\<close>

definition player_stored :: "(guid \<Rightarrow> part option) \<Rightarrow> player_refs \<Rightarrow> bool" where
  "player_stored db p \<longleftrightarrow> db (pl_guid p) = Some (Player_part p) \<and> db (pl_coin_guid p) = Some (Other_part PK_coin) \<and>
     db (pl_attach p) = None \<and> well_named (db(pl_attach p \<mapsto> Other_part PK_attach)) p"

definition logged_in :: "player_refs \<Rightarrow> loading_data \<Rightarrow> part_pool" where
  "logged_in p d = part_pool_add (pl_attach p) (Other_part PK_attach) (add_entity_to_pool d Map.empty)"

lemma load_coin_Some:
  assumes "player_stored db p" "load_coin db (pl_guid p) (pl_coin_guid p) fmempty = Some d"
  shows "load_player db p (add_entity (pl_coin_guid p) (Other_part PK_coin) fmempty) = Some d"
  using assms by (simp add: player_stored_def load_coin_def load_player_from_db_def)

lemma loaded_facts:
  assumes s: "player_stored db p" and l: "load_coin db (pl_guid p) (pl_coin_guid p) fmempty = Some d"
  shows "fmlookup d (pl_guid p) = Some (Player_part p)" "fmlookup d (pl_coin_guid p) = Some (Other_part PK_coin)"
    "fmlookup d x = Some e \<Longrightarrow> db x = Some e" "pl_coin_guid p \<noteq> pl_guid p" "fmlookup d (pl_attach p) = None"
proof -
  note d = load_coin_Some [OF s l]
  show ne: "pl_coin_guid p \<noteq> pl_guid p" using s by (auto simp: player_stored_def)
  show "fmlookup d (pl_guid p) = Some (Player_part p)" "fmlookup d (pl_coin_guid p) = Some (Other_part PK_coin)"
    using load_player_keeps [OF d, of "pl_guid p"] load_player_keeps [OF d, of "pl_coin_guid p"] ne
    by (auto simp: add_entity_def)
  show le: "fmlookup d x = Some e \<Longrightarrow> db x = Some e" for x e
    using load_player_Some [OF d, of x e] s ne by (auto simp: first_data_def add_entity_def player_stored_def split: if_splits)
  show "fmlookup d (pl_attach p) = None" using le [of "pl_attach p"] s by (cases "fmlookup d (pl_attach p)") (auto simp: player_stored_def)
qed

lemma content_logged_in:
  assumes "player_stored db p" "load_coin db (pl_guid p) (pl_coin_guid p) fmempty = Some d"
  shows "content (logged_in p d) = (fmlookup d)(pl_attach p \<mapsto> Other_part PK_attach)"
  using loaded_facts(5) [OF assms] by (auto simp: logged_in_def fun_eq_iff split: option.split)

lemma collected_from_login:
  assumes s: "player_stored db p" and l: "load_coin db (pl_guid p) (pl_coin_guid p) fmempty = Some d"
    and c: "c = get_player_entity_map b (pl_guid p) (logged_in p d)"
  shows "cl_map c = fmdrop (pl_coin_guid p) (fmdrop (pl_guid p) d)" "content (cl_pool c) = content (logged_in p d)"
proof -
  let ?pg = "pl_guid p" and ?D = "(fmlookup d)(pl_attach p \<mapsto> Other_part PK_attach)"
  note f = loaded_facts [OF s l] and D = content_logged_in [OF s l]
  have "?D \<subseteq>\<^sub>m db(pl_attach p \<mapsto> Other_part PK_attach)"
    unfolding map_le_def
  proof
    fix x assume "x \<in> dom ?D"
    then obtain e where "?D x = Some e" by blast
    then show "?D x = (db(pl_attach p \<mapsto> Other_part PK_attach)) x" using f(3) [of x e] by (cases "x = pl_attach p") auto
  qed
  then have w: "well_named ?D p" using s named_mono(6) by (auto simp: player_stored_def)
  have pg: "?D ?pg = Some (Player_part p)" using f(1,5) by auto
  then have npg: "named ?D PK_player ?pg" by (simp add: named_def kind_of_def)
  obtain po where po: "logged_in p d ?pg = Some po" "po_part po = Player_part p"
    using pg fun_cong [OF D, of ?pg] by (auto simp: content_def)
  have fresh: "logged_in p d g = Some q \<Longrightarrow> \<not> po_flushing q" for g q
    using add_entity_to_pool_fresh [of d g q] by (auto simp: logged_in_def part_pool_add_def split: if_splits)
  define c0 where "c0 = snd (get_part b PK_player ?pg \<lparr> cl_pool = logged_in p d, cl_map = fmempty \<rparr>)"
  have c0: "c = collect_all b p c0" "cl_map c0 = fmempty" "content (cl_pool c0) = ?D"
      "cl_pool c0 g = Some q \<Longrightarrow> po_flushing q \<Longrightarrow> g = ?pg" for g q
    using po fresh [of ?pg] fresh [of g q] D f(1)
    by (auto simp: c c0_def get_player_entity_map_def get_part_def kind_of_def content_def fun_eq_iff split: if_splits)
  have ok: "coll_ok ?D b ?pg {} c0" using c0(2-4) by (auto simp: coll_ok_def)
  note coll = collectsD [OF collects_all [OF w npg] ok, folded c0(1)]
  show "content (cl_pool c) = content (logged_in p d)" using coll(1) D by (simp add: coll_ok_def)
  show "cl_map c = fmdrop (pl_coin_guid p) (fmdrop ?pg d)"
  proof (rule fmap_ext)
    fix x
    have le: "fmlookup d x = Some e \<and> x \<noteq> ?pg \<and> x \<noteq> pl_coin_guid p" if "fmlookup (cl_map c) x = Some e" for e
    proof -
      have k: "?D x = Some e" "kind_of e \<notin> {PK_player, PK_coin, PK_attach}"
        using coll_okD(1,2) [OF coll(1) that] by simp_all
      have "x \<noteq> pl_attach p"
      proof
        assume "x = pl_attach p"
        then show False using k by (simp add: kind_of_def) (auto simp: kind_of_def)
      qed
      then have d: "fmlookup d x = Some e" using k(1) by simp
      then show ?thesis using k(2) f(1,2) by (auto simp: kind_of_def)
    qed
    have ge: "x |\<in>| fmdom (cl_map c)" if x: "fmlookup d x = Some e" "x \<noteq> ?pg" "x \<noteq> pl_coin_guid p" for e
    proof -
      have Dx: "?D x \<noteq> None" using x(1) by simp
      have "fmlookup (first_data p (pl_coin_guid p)) x = None" using x(2,3) by (simp add: first_data_def add_entity_def)
      then consider "x \<in> set (load_player_requests p)" |
        (sub) g y where "fmlookup d g = Some y" "x \<in> set (sub_refs y)" "g \<in> set (load_player_requests p)"
        using load_player_Some [OF load_coin_Some [OF s l] x(1)] by auto
      then show ?thesis
      proof cases
        case sub
        have g: "?D g = Some y" using sub(1) f(5) by auto
        then have "g |\<in>| fmdom (cl_map c)" using coll(3) [OF sub(3)] by simp
        then obtain z where z: "fmlookup (cl_map c) g = Some z" by (auto simp: fmlookup_dom_iff)
        then have "z = y" using coll_okD(1) [OF coll(1) z] g by simp
        then show ?thesis using coll_okD(3) [OF coll(1) z refl] sub(2) Dx by simp
      qed (use coll(3) Dx in blast)
    qed
    show "fmlookup (cl_map c) x = fmlookup (fmdrop (pl_coin_guid p) (fmdrop ?pg d)) x"
      using le ge by (cases "fmlookup (cl_map c) x"; cases "fmlookup d x") (auto simp: fmlookup_dom_iff)
  qed
qed

text \<open>C15: The entities that are collected for a player from the pool, when it leaves or jumps to another map, are those that
  were loaded for it, whatever the player and its roles, tasks and chakras name: no entity is loaded that is not written,
  and none is written that was not loaded. Only the player and its coin are treated on their own.\<close>

theorem loaded_is_collected:
  assumes "player_stored db p" "load_coin db (pl_guid p) (pl_coin_guid p) fmempty = Some d"
  shows "cl_map (get_player_entity_map b (pl_guid p) (logged_in p d)) = fmdrop (pl_coin_guid p) (fmdrop (pl_guid p) d)"
  by (rule collected_from_login [OF assms refl])

lemma fold_remove: "fold (\<lambda>g pool. pool(g := None)) gs pool = (\<lambda>x. if x \<in> set gs then None else pool x)"
  by (induction gs arbitrary: pool) (auto simp: fun_eq_iff)

text \<open>C16: A player that logs in and leaves again leaves nothing behind: when its data is written, every entity of it is taken
  out of the pool, and every entity but the coin and the attached data has been sent to the cache.\<close>

theorem nothing_left:
  assumes "player_stored db p" "load_coin db (pl_guid p) (pl_coin_guid p) fmempty = Some d"
    and "request_flush_player u {||} {||} (pl_guid p) (logged_in p d) = (rqs, pool)"
  shows "remove_player p rqs pool = Map.empty \<and> rq_guid ` set rqs = fset (fmdom d) - {pl_coin_guid p}"
proof -
  let ?pg = "pl_guid p"
  define c where "c = get_player_entity_map True ?pg (logged_in p d)"
  note col = collected_from_login [OF assms(1,2) c_def] and f = loaded_facts [OF assms(1,2)]
  have "content (logged_in p d) ?pg = Some (Player_part p)"
    using content_logged_in [OF assms(1,2)] f(1,5) by auto
  then obtain po where po: "logged_in p d ?pg = Some po" "po_part po = Player_part p" by (auto simp: content_def)
  have rqs: "rqs = map (\<lambda>x. (if u then Rq_update else Rq_flush) x (the (fmlookup (cl_map c) x))) (fs_items (fmdom (cl_map c))) @
      [Rq_update ?pg (po_part po)]" and pool: "pool = cl_pool c"
    using assms(3) po by (auto simp: request_flush_player_def kind_of_def c_def Let_def)
  have "rq_guid ` set rqs = insert ?pg (fset (fmdom (cl_map c)))"
    unfolding rqs by (cases u) (auto simp: rq_guid_def image_iff)
  also have "fset (fmdom (cl_map c)) = fset (fmdom d) - {?pg, pl_coin_guid p}"
    unfolding col(1) by auto
  finally have g: "rq_guid ` set rqs = fset (fmdom d) - {pl_coin_guid p}"
    using f(4) fmdomI [OF f(1)] by auto
  have "content pool x = None" if "x \<notin> insert (pl_coin_guid p) (insert (pl_attach p) (rq_guid ` set rqs))" for x
    using that unfolding pool col(2) content_logged_in [OF assms(1,2)] g by (auto dest: fmdom_notD)
  then have "remove_player p rqs pool = Map.empty"
    unfolding remove_player_def fold_remove by (auto simp: content_def fun_eq_iff)
  then show ?thesis using g by blast
qed

section \<open>A concrete player\<close>

definition sample_player :: player_refs where
  "sample_player = \<lparr> pl_guid = 10, pl_coin_guid = 11, pl_attach = 12, pl_one = (\<lambda>k. if k = PK_law then 20 else 0),
     pl_roles = [30], pl_leave_team_roles = [], pl_bag = [1, 41, 0, 42], pl_storehouse = [], pl_stheno_idle_list = [],
     pl_stheno_equip_list = [], pl_town_stage = [], pl_wifes = [] \<rparr>"

definition sample_parts :: "guid \<Rightarrow> part option" where
  "sample_parts g = (if g = 10 then Some (Player_part sample_player) else if g = 11 then Some (Other_part PK_coin)
     else if g = 20 then Some (Other_part PK_law)
     else if g = 30 then Some (Role_part \<lparr> rr_equipments = [0, 43], rr_educate = 0, rr_pellet = 0, rr_shl_owner = 0 \<rparr>)
     else if g \<in> {41, 42, 43} then Some (Other_part PK_item) else None)"

lemma sample_fields:
  "pl_guid sample_player = 10" "pl_coin_guid sample_player = 11" "pl_attach sample_player = 12" "pl_roles sample_player = [30]"
  "pl_leave_team_roles sample_player = []" "pl_bag sample_player = [1, 41, 0, 42]" "pl_storehouse sample_player = []"
  "pl_stheno_idle_list sample_player = []" "pl_stheno_equip_list sample_player = []" "pl_town_stage sample_player = []"
  "pl_wifes sample_player = []" "k \<noteq> PK_law \<Longrightarrow> pl_one sample_player k = 0" "pl_one sample_player PK_law = 20"
  by (simp_all add: sample_player_def)

lemma sample_parts_simps:
  "sample_parts 0 = None" "sample_parts 10 = Some (Player_part sample_player)" "sample_parts 11 = Some (Other_part PK_coin)"
  "sample_parts 12 = None" "sample_parts 20 = Some (Other_part PK_law)"
  "sample_parts 30 = Some (Role_part \<lparr> rr_equipments = [0, 43], rr_educate = 0, rr_pellet = 0, rr_shl_owner = 0 \<rparr>)"
  "sample_parts 41 = Some (Other_part PK_item)" "sample_parts 43 = Some (Other_part PK_item)"
  by (simp_all add: sample_parts_def)

lemma sample_stored: "player_stored sample_parts sample_player"
proof -
  let ?E = "sample_parts(12 \<mapsto> Other_part PK_attach)"
  have n: "named ?E k 0" "named ?E PK_law 20" "named ?E PK_item 41" "named ?E PK_item 43" "named ?E PK_role 30" for k
    by (simp_all add: named_def sample_parts_simps kind_of_def)
  have "named ?E k (pl_one sample_player k)" for k
    using n(1,2) by (cases "k = PK_law") (simp_all add: sample_fields)
  moreover have "tasks_named ?E 0" "chakra_named ?E 0"
    using n(1) by (simp_all add: tasks_named_def chakra_named_def sample_parts_simps)
  moreover have "role_named ?E 30" using n by (auto simp: role_named_def sample_parts_simps)
  ultimately have "well_named ?E sample_player" using n by (simp add: well_named_def sample_fields)
  then show ?thesis by (simp add: player_stored_def sample_fields sample_parts_simps)
qed

lemma sample_loaded: "\<exists>d. load_coin sample_parts 10 11 fmempty = Some d \<and> fmlookup d 43 = Some (Other_part PK_item)"
proof -
  have r: "load_player_requests sample_player = [30, 41, 20]"
    by (simp add: load_player_requests_def sample_fields not_null_def over_one_def)
  show ?thesis
    by (simp add: load_coin_def load_player_from_db_def load_player_def load_player_role_def load_parts_def r
        sample_parts_simps Let_def add_entity_def sample_fields load_role_requests_def role_requests_def task_requests_def
        chakra_requests_def over_one_def not_null_def load_player_role_equipment_def)
qed

theorem loaded_is_collected_witness:
  "\<exists>d. load_coin sample_parts 10 11 fmempty = Some d \<and>
    fmlookup (cl_map (get_player_entity_map False 10 (logged_in sample_player d))) 43 = Some (Other_part PK_item)"
proof -
  obtain d where d: "load_coin sample_parts 10 11 fmempty = Some d" "fmlookup d 43 = Some (Other_part PK_item)"
    using sample_loaded by blast
  have "cl_map (get_player_entity_map False (pl_guid sample_player) (logged_in sample_player d)) =
      fmdrop (pl_coin_guid sample_player) (fmdrop (pl_guid sample_player) d)"
    by (rule loaded_is_collected [OF sample_stored]) (simp add: sample_fields d(1))
  then show ?thesis using d by (simp add: sample_fields)
qed

theorem nothing_left_witness:
  "\<exists>d. load_coin sample_parts 10 11 fmempty = Some d \<and>
    43 \<in> rq_guid ` set (fst (request_flush_player False {||} {||} 10 (logged_in sample_player d)))"
proof -
  obtain d where d: "load_coin sample_parts 10 11 fmempty = Some d" "fmlookup d 43 = Some (Other_part PK_item)"
    using sample_loaded by blast
  obtain rqs pool where r: "request_flush_player False {||} {||} 10 (logged_in sample_player d) = (rqs, pool)" by fastforce
  have "remove_player sample_player rqs pool = Map.empty \<and> rq_guid ` set rqs = fset (fmdom d) - {pl_coin_guid sample_player}"
    by (rule nothing_left [OF sample_stored, where u = False]) (simp_all add: sample_fields d(1) r)
  then show ?thesis using d r fmdomI [OF d(2)] by (auto simp: sample_fields)
qed

end
