(* ===== verification/PlayerLogin.thy ===== *)
theory PlayerLogin
  imports Wallet
begin

text \<open>
  Where the money of a player is: \<^verbatim>\<open>plugin/manage_player/src/ManagePlayer.cpp\<close> and \<^verbatim>\<open>PlayerAssistant.cpp\<close> in the scene
  of a map, and \<^verbatim>\<open>plugin/manage_short/src/ManageShort.cpp\<close> in the line scene. While the player is in the map its coin
  entity is in the pool of that scene; when it leaves, the coin goes to the line scene, where payments are taken from
  it while the player is away; when it enters again the coin comes back.

  The model has one player, known to the line scene, one map and the line scene, with the queues between them. Jumps to
  another map are left out: the state for them and its branches are there, but nothing sets it. What a pool is told to
  update counts as written to the database; \<open>PoolSync\<close> and \<open>PoolCache\<close> show when it is. The steps that load the
  entities are in \<open>PlayerEntities\<close>; here they are one event with its result.
\<close>

section \<open>State\<close>

datatype player_online_state = POS_BASE | POS_LOADING_ENTER_MAP | POS_ONLINE | POS_FLUSHING_LEAVE_MAP
  | POS_FLUSHING_LEAVE_MAP_WITH_JUMP | POS_OFFLINE

text \<open>The money fields of the player entity.\<close>

record purse =
  pu_coin :: u32
  pu_money :: u32
  pu_total_coin_cost :: u64
  pu_total_money_cost :: u64

datatype stol = STOL_REQUEST_PLAYER_DATA | STOL_DELIVERY_PLAYER_DATA coin_entity

text \<open>
  The scene: \<open>lg_state\<close> is the entry of \<open>m_player_state\<close>, \<open>lg_again\<close> of \<open>m_player_online_before_finish_flushing\<close>,
  \<open>lg_need_flush\<close> of \<open>m_need_flush_player_map\<close>, \<open>lg_loading\<close> the loading data with its coin; then the entities in the
  pool and the requests under way. The line scene: its inbox, the coin in its pool and the request for it. At the end
  the database, the messages to the scene that ask for a payment, and the records.
\<close>

record login =
  lg_state :: "player_online_state option"
  lg_again :: bool
  lg_need_flush :: "bool option"
  lg_loading :: "coin_entity option option"
  lg_player :: "purse option"
  lg_coin :: "coin_entity option"
  lg_load :: nat
  lg_flush :: nat
  lg_inbox :: "coin_entity list"
  li_inbox :: "stol list"
  li_coin :: "coin_entity option"
  li_load :: nat
  db_coin :: coin_entity
  db_player :: purse
  li_reduce :: "reduce_gold_request list"
  li_out :: "wallet_out list"

section \<open>Loading\<close>

definition request_load_player :: "login \<Rightarrow> login" where
  "request_load_player m =
     (case lg_loading m of
        Some d \<Rightarrow> m
      | None \<Rightarrow> m\<lparr> lg_loading := Some None, li_inbox := li_inbox m @ [STOL_REQUEST_PLAYER_DATA] \<rparr>)"

definition load_player_coin :: "coin_entity \<Rightarrow> login \<Rightarrow> login" where
  "load_player_coin c m =
     (case lg_loading m of
        None \<Rightarrow> m
      | Some d \<Rightarrow> m\<lparr> lg_loading := Some (case d of None \<Rightarrow> Some c | Some c' \<Rightarrow> Some c'), lg_load := Suc (lg_load m) \<rparr>)"

definition stol_request_player_data :: "login \<Rightarrow> login" where
  "stol_request_player_data m =
     (case li_coin m of
        None \<Rightarrow> m\<lparr> li_load := Suc (li_load m) \<rparr>
      | Some c \<Rightarrow> m\<lparr> lg_inbox := lg_inbox m @ [c], li_coin := None \<rparr>)"

definition stol_delivery_player_data :: "coin_entity \<Rightarrow> login \<Rightarrow> login" where
  "stol_delivery_player_data c m = m\<lparr> li_coin := (case li_coin m of None \<Rightarrow> Some c | Some c' \<Rightarrow> Some c') \<rparr>"

definition load_player_coin_finish :: "bool \<Rightarrow> login \<Rightarrow> login" where
  "load_player_coin_finish success m = (if success then m\<lparr> lg_inbox := lg_inbox m @ [db_coin m] \<rparr> else m)"

text \<open>
  The player takes the values of its coin over; the fault is an access to an entry of the map that is not there. What the
  end of loading does besides, to attributes and to the other plugins, is left out. A player has a coin guid.
\<close>

definition adopt_coin :: "coin_entity \<Rightarrow> purse \<Rightarrow> purse" where
  "adopt_coin c p =
     \<lparr> pu_coin = co_coin c, pu_money = co_money c,
       pu_total_coin_cost = (if co_coin c < pu_coin p then pu_total_coin_cost p + ucast (pu_coin p - co_coin c) else pu_total_coin_cost p),
       pu_total_money_cost = (if co_money c < pu_money p then pu_total_money_cost p + ucast (pu_money p - co_money c)
         else pu_total_money_cost p) \<rparr>"

definition player_data_load_finish :: "bool \<Rightarrow> login \<Rightarrow> login option" where
  "player_data_load_finish success m =
     (if lg_state m = Some POS_OFFLINE then Some (m\<lparr> lg_need_flush := Some False \<rparr>)
      else if success then
        (case (lg_player m, lg_coin m) of
           (None, _) \<Rightarrow> Some m
         | (Some p, None) \<Rightarrow> Some m
         | (Some p, Some c) \<Rightarrow>
             if lg_state m = None then None
             else Some (m\<lparr> lg_player := Some (adopt_coin c p), lg_state := Some POS_ONLINE \<rparr>))
      else if lg_state m = None then None
      else Some (m\<lparr> lg_need_flush := None, lg_state := None \<rparr>))"

definition player_load_success :: "login \<Rightarrow> login option" where
  "player_load_success m =
     (case lg_loading m of
        None \<Rightarrow> Some m
      | Some d \<Rightarrow>
          player_data_load_finish True
            (m\<lparr> lg_player := (if lg_player m = None then Some (db_player m) else lg_player m),
               lg_coin := (if lg_coin m = None then d else lg_coin m), lg_loading := None \<rparr>))"

definition player_load_failed :: "login \<Rightarrow> login option" where
  "player_load_failed m = player_data_load_finish False (m\<lparr> lg_loading := None \<rparr>)"

section \<open>Entering and leaving\<close>

definition cmsg_enter_world :: "login \<Rightarrow> login" where
  "cmsg_enter_world m =
     (if lg_again m then m
      else (case lg_state m of
              Some POS_LOADING_ENTER_MAP \<Rightarrow> m
            | Some POS_ONLINE \<Rightarrow> m
            | Some POS_FLUSHING_LEAVE_MAP \<Rightarrow> m\<lparr> lg_again := True \<rparr>
            | Some POS_FLUSHING_LEAVE_MAP_WITH_JUMP \<Rightarrow> m
            | _ \<Rightarrow> (request_load_player m)\<lparr> lg_state := Some POS_LOADING_ENTER_MAP \<rparr>))"

definition cmsg_leave_world :: "login \<Rightarrow> login" where
  "cmsg_leave_world m =
     (if lg_again m then m\<lparr> lg_again := False \<rparr>
      else (case lg_state m of
              None \<Rightarrow> m
            | Some POS_LOADING_ENTER_MAP \<Rightarrow> m\<lparr> lg_state := Some POS_OFFLINE \<rparr>
            | Some POS_FLUSHING_LEAVE_MAP_WITH_JUMP \<Rightarrow> m\<lparr> lg_state := Some POS_FLUSHING_LEAVE_MAP \<rparr>
            | Some POS_FLUSHING_LEAVE_MAP \<Rightarrow> m
            | Some POS_OFFLINE \<Rightarrow> m
            | Some s \<Rightarrow>
                (let m = m\<lparr> lg_state := Some POS_FLUSHING_LEAVE_MAP \<rparr> in
                 if lg_player m = None then m else m\<lparr> lg_need_flush := Some False \<rparr>)))"

text \<open>The player entity is written; the others follow \<open>PlayerEntities\<close>.\<close>

definition request_flush :: "login \<Rightarrow> login" where
  "request_flush m =
     (case lg_player m of None \<Rightarrow> m | Some p \<Rightarrow> m\<lparr> db_player := p, lg_flush := Suc (lg_flush m) \<rparr>)"

definition process_need_flush_player :: "login \<Rightarrow> login" where
  "process_need_flush_player m =
     (let n = m\<lparr> lg_need_flush := None \<rparr> in
      case lg_need_flush m of
        None \<Rightarrow> m
      | Some True \<Rightarrow> request_flush n
      | Some False \<Rightarrow> if lg_state m = Some POS_ONLINE then n else request_flush n)"

definition delivery_coin_to_ls :: "purse \<Rightarrow> login \<Rightarrow> login" where
  "delivery_coin_to_ls p m =
     (case lg_coin m of
        None \<Rightarrow> m
      | Some c \<Rightarrow> m\<lparr> li_inbox := li_inbox m @ [STOL_DELIVERY_PLAYER_DATA (c\<lparr> co_coin := pu_coin p, co_money := pu_money p \<rparr>)] \<rparr>)"

definition player_flush_data_finish :: "login \<Rightarrow> login" where
  "player_flush_data_finish m =
     (if lg_state m = None then m
      else
        let m = (case lg_player m of None \<Rightarrow> m | Some p \<Rightarrow> (delivery_coin_to_ls p m)\<lparr> lg_coin := None \<rparr>);
            m = m\<lparr> lg_player := None \<rparr> in
        if lg_again m then (request_load_player m)\<lparr> lg_state := Some POS_LOADING_ENTER_MAP, lg_again := False \<rparr>
        else m\<lparr> lg_state := None \<rparr>)"

section \<open>Payments\<close>

text \<open>
  Any change of the wallet of a player in the map, online or being flushed: it keeps player and coin equal
  (\<open>WalletLaws\<close>) and updates the coin in the pool. The handlers are in \<open>Wallet\<close>; this is what
  \<^verbatim>\<open>updateCoin\<close> and \<^verbatim>\<open>updateMoney\<close> leave, whatever amounts they are called with.
\<close>

definition wallet_change :: "(coin_entity \<Rightarrow> coin_entity) \<Rightarrow> login \<Rightarrow> login" where
  "wallet_change f m =
     (case (lg_player m, lg_coin m) of
        (Some p, Some c) \<Rightarrow>
          m\<lparr> lg_player := Some (p\<lparr> pu_coin := co_coin (f c), pu_money := co_money (f c) \<rparr>), lg_coin := Some (f c), db_coin := f c \<rparr>
      | _ \<Rightarrow> m)"

text \<open>The result is none without the coin, else the code that is returned.\<close>

definition reduce_offline_player_coin :: "reduce_gold_request \<Rightarrow> login \<Rightarrow> login \<times> u32 option" where
  "reduce_offline_player_coin rg m =
     (case li_coin m of
        None \<Rightarrow> (m, None)
      | Some c \<Rightarrow>
          if 0 \<le>s rg_coin rg \<and> rg_coin rg \<le> co_coin c \<and> 0 \<le>s rg_money rg \<and> rg_money rg \<le> co_money c then
            (let c' = c\<lparr> co_coin := co_coin c - rg_coin rg, co_money := co_money c - rg_money rg \<rparr>;
                 m = m\<lparr> li_coin := Some c', db_coin := c' \<rparr>;
                 m = (if 0 <s rg_coin rg
                      then m\<lparr> li_out := li_out m @ [Data_record 262 (9000 + rg_function_id rg) [rg_coin rg, co_coin c' + rg_coin rg, co_coin c']] \<rparr>
                      else m);
                 m = (if 0 <s rg_money rg
                      then m\<lparr> li_out := li_out m @ [Data_record 222 (rg_function_id rg) [rg_money rg, co_money c' + rg_money rg, co_money c']] \<rparr>
                      else m)
             in (m, Some 2))
          else (m, Some 3))"

text \<open>\<open>online\<close> is what the line scene knows of the player; no plugin of a map handles the message to the scene.\<close>

definition plmsg_line_reduce_gold :: "bool \<Rightarrow> reduce_gold_request \<Rightarrow> login \<Rightarrow> login \<times> u32" where
  "plmsg_line_reduce_gold online rg m =
     (case (if online then (m, None) else reduce_offline_player_coin rg m) of
        (m, Some result) \<Rightarrow> (m, result)
      | (m, None) \<Rightarrow> (m\<lparr> li_reduce := li_reduce m @ [rg] \<rparr>, 1))"

section \<open>The scenes as a machine\<close>

datatype login_event = Enter | Leave | Wallet_change "coin_entity \<Rightarrow> coin_entity" | Line_pays bool reduce_gold_request
  | Line_input | Scene_input | Line_coin_loaded bool | Load_finish bool | Process_flush | Flush_finish

definition line_input :: "login \<Rightarrow> login" where
  "line_input m =
     (case li_inbox m of
        [] \<Rightarrow> m
      | STOL_REQUEST_PLAYER_DATA # ms \<Rightarrow> stol_request_player_data (m\<lparr> li_inbox := ms \<rparr>)
      | STOL_DELIVERY_PLAYER_DATA c # ms \<Rightarrow> stol_delivery_player_data c (m\<lparr> li_inbox := ms \<rparr>))"

definition scene_input :: "login \<Rightarrow> login" where
  "scene_input m = (case lg_inbox m of [] \<Rightarrow> m | c # cs \<Rightarrow> load_player_coin c (m\<lparr> lg_inbox := cs \<rparr>))"

definition login_step1 :: "login_event \<Rightarrow> login \<Rightarrow> login option" where
  "login_step1 e m =
     (case e of
        Enter \<Rightarrow> Some (cmsg_enter_world m)
      | Leave \<Rightarrow> Some (cmsg_leave_world m)
      | Wallet_change f \<Rightarrow> Some (wallet_change f m)
      | Line_pays online rg \<Rightarrow> Some (fst (plmsg_line_reduce_gold online rg m))
      | Line_input \<Rightarrow> Some (line_input m)
      | Scene_input \<Rightarrow> Some (scene_input m)
      | Line_coin_loaded success \<Rightarrow>
          (case li_load m of 0 \<Rightarrow> Some m | Suc n \<Rightarrow> Some (load_player_coin_finish success (m\<lparr> li_load := n \<rparr>)))
      | Load_finish success \<Rightarrow>
          (case lg_load m of
             0 \<Rightarrow> Some m
           | Suc n \<Rightarrow>
               if success then player_load_success (m\<lparr> lg_load := n \<rparr>) else player_load_failed (m\<lparr> lg_load := n \<rparr>))
      | Process_flush \<Rightarrow> Some (process_need_flush_player m)
      | Flush_finish \<Rightarrow> (case lg_flush m of 0 \<Rightarrow> Some m | Suc n \<Rightarrow> Some (player_flush_data_finish (m\<lparr> lg_flush := n \<rparr>))))"

definition login_step :: "login_event \<Rightarrow> login option \<Rightarrow> login option" where
  "login_step e s = (case s of None \<Rightarrow> None | Some m \<Rightarrow> login_step1 e m)"

text \<open>A player that is away, with its coin in the line scene or only in the database.\<close>

definition player_away :: "bool \<Rightarrow> coin_entity \<Rightarrow> purse \<Rightarrow> login" where
  "player_away in_line c p =
     \<lparr> lg_state = None, lg_again = False, lg_need_flush = None, lg_loading = None, lg_player = None, lg_coin = None,
       lg_load = 0, lg_flush = 0, lg_inbox = [], li_inbox = [], li_coin = (if in_line then Some c else None), li_load = 0,
       db_coin = c, db_player = p, li_reduce = [], li_out = [] \<rparr>"

end
