(* ===== verification/PlayerLoginRuns.thy ===== *)
theory PlayerLoginRuns
  imports PlayerLogin WalletLaws
begin

text \<open>
  The money of a player as it moves between the scenes: it is in one place at a time and current there, unless the
  player leaves while it is loaded.
\<close>

section \<open>Where the coin is\<close>

definition held :: "login \<Rightarrow> coin_entity list" where
  "held m = concat (map (\<lambda>s. case s of STOL_DELIVERY_PLAYER_DATA c \<Rightarrow> [c] | _ \<Rightarrow> []) (li_inbox m)) @
     (case li_coin m of None \<Rightarrow> [] | Some c \<Rightarrow> [c]) @ lg_inbox m @
     (case lg_loading m of Some (Some c) \<Rightarrow> [c] | _ \<Rightarrow> []) @ (case lg_coin m of None \<Rightarrow> [] | Some c \<Rightarrow> [c])"

definition away_ok :: "login \<Rightarrow> bool" where
  "away_ok m \<longleftrightarrow> lg_state m = None \<and> \<not> lg_again m \<and> lg_need_flush m = None \<and> lg_loading m = None \<and>
     lg_player m = None \<and> lg_coin m = None \<and> lg_load m = 0 \<and> lg_flush m = 0 \<and> lg_inbox m = [] \<and> li_load m = 0 \<and>
     (li_inbox m = [] \<and> (li_coin m = None \<or> li_coin m = Some (db_coin m)) \<or>
      li_inbox m = [STOL_DELIVERY_PLAYER_DATA (db_coin m)] \<and> li_coin m = None)"

definition loading_ok :: "login \<Rightarrow> bool" where
  "loading_ok m \<longleftrightarrow> lg_state m = Some POS_LOADING_ENTER_MAP \<and> \<not> lg_again m \<and> lg_need_flush m = None \<and>
     lg_player m = None \<and> lg_coin m = None \<and> lg_flush m = 0 \<and>
     (lg_loading m = Some None \<and> lg_load m = 0 \<and>
        (lg_inbox m = [] \<and> li_load m = 0 \<and>
           (li_inbox m = [STOL_REQUEST_PLAYER_DATA] \<and> (li_coin m = None \<or> li_coin m = Some (db_coin m)) \<or>
            li_inbox m = [STOL_DELIVERY_PLAYER_DATA (db_coin m), STOL_REQUEST_PLAYER_DATA] \<and> li_coin m = None \<or>
            li_inbox m = [] \<and> li_coin m = None) \<or>
         li_inbox m = [] \<and> li_coin m = None \<and>
           (lg_inbox m = [] \<and> li_load m = 1 \<or> lg_inbox m = [db_coin m] \<and> li_load m = 0)) \<or>
      lg_loading m = Some (Some (db_coin m)) \<and> lg_load m = 1 \<and> lg_inbox m = [] \<and> li_load m = 0 \<and> li_inbox m = [] \<and>
        li_coin m = None)"

definition in_map_ok :: "login \<Rightarrow> bool" where
  "in_map_ok m \<longleftrightarrow> lg_loading m = None \<and> lg_load m = 0 \<and> lg_inbox m = [] \<and> li_inbox m = [] \<and> li_coin m = None \<and>
     li_load m = 0 \<and> lg_coin m = Some (db_coin m) \<and>
     (\<exists>p. lg_player m = Some p \<and> pu_coin p = co_coin (db_coin m) \<and> pu_money p = co_money (db_coin m)) \<and>
     (lg_state m = Some POS_ONLINE \<and> \<not> lg_again m \<and> lg_need_flush m = None \<and> lg_flush m = 0 \<or>
      lg_state m = Some POS_FLUSHING_LEAVE_MAP \<and>
        (lg_need_flush m = Some False \<and> lg_flush m = 0 \<or> lg_need_flush m = None \<and> lg_flush m = 1))"

definition login_ok :: "login option \<Rightarrow> bool" where
  "login_ok s \<longleftrightarrow> (\<exists>m. s = Some m \<and> (away_ok m \<or> loading_ok m \<or> in_map_ok m))"

text \<open>The rule of use: a player does not leave while it is loaded.\<close>

definition login_allowed :: "login_event \<Rightarrow> login option \<Rightarrow> bool" where
  "login_allowed e s \<longleftrightarrow> e = Leave \<longrightarrow> (\<forall>m. s = Some m \<longrightarrow> lg_state m \<noteq> Some POS_LOADING_ENTER_MAP)"

lemmas login_ok_defs = away_ok_def loading_ok_def in_map_ok_def

lemmas login_defs = cmsg_enter_world_def cmsg_leave_world_def request_load_player_def wallet_change_def
  plmsg_line_reduce_gold_def reduce_offline_player_coin_def line_input_def stol_request_player_data_def
  stol_delivery_player_data_def scene_input_def load_player_coin_def load_player_coin_finish_def player_load_success_def
  player_load_failed_def player_data_load_finish_def process_need_flush_player_def request_flush_def
  player_flush_data_finish_def delivery_coin_to_ls_def adopt_coin_def

lemma coin_entity_update: "c\<lparr> co_coin := co_coin c, co_money := co_money c \<rparr> = (c :: coin_entity)"
  by simp

lemma login_okI: "away_ok m \<Longrightarrow> login_ok (Some m)" "loading_ok m \<Longrightarrow> login_ok (Some m)" "in_map_ok m \<Longrightarrow> login_ok (Some m)"
  by (simp_all add: login_ok_def)

lemma reduce_offline_shape:
  assumes "li_coin m = Some c"
  shows "\<exists>out c'. fst (reduce_offline_player_coin rg m) = m\<lparr> li_coin := Some c', db_coin := c', li_out := out \<rparr> \<or>
    fst (reduce_offline_player_coin rg m) = m"
proof (cases "0 \<le>s rg_coin rg \<and> rg_coin rg \<le> co_coin c \<and> 0 \<le>s rg_money rg \<and> rg_money rg \<le> co_money c")
  case True
  define c' where "c' = c\<lparr> co_coin := co_coin c - rg_coin rg, co_money := co_money c - rg_money rg \<rparr>"
  define a where "a = (if 0 <s rg_coin rg
    then [Data_record 262 (9000 + rg_function_id rg) [rg_coin rg, co_coin c' + rg_coin rg, co_coin c']] else [])"
  define b where "b = (if 0 <s rg_money rg
    then [Data_record 222 (rg_function_id rg) [rg_money rg, co_money c' + rg_money rg, co_money c']] else [])"
  have "fst (reduce_offline_player_coin rg m) = m\<lparr> li_coin := Some c', db_coin := c', li_out := li_out m @ a @ b \<rparr>"
    using assms True unfolding reduce_offline_player_coin_def a_def b_def c'_def
    by (cases "0 <s rg_coin rg"; cases "0 <s rg_money rg"; cases m) (simp_all add: Let_def)
  then show ?thesis by blast
next
  case False
  then have "reduce_offline_player_coin rg m = (m, Some 3)"
    unfolding reduce_offline_player_coin_def assms option.case by (rule if_not_P)
  then show ?thesis by simp
qed

lemma reduce_offline_some: "li_coin m = Some c \<Longrightarrow> snd (reduce_offline_player_coin rg m) \<noteq> None"
  by (simp add: reduce_offline_player_coin_def Let_def)

lemma line_pays_fst:
  "fst (plmsg_line_reduce_gold online rg m) =
    (if online \<or> li_coin m = None then m\<lparr> li_reduce := li_reduce m @ [rg] \<rparr> else fst (reduce_offline_player_coin rg m))"
proof (cases "online \<or> li_coin m = None")
  case True
  then show ?thesis by (auto simp: plmsg_line_reduce_gold_def reduce_offline_player_coin_def)
next
  case False
  then obtain c where "li_coin m = Some c" by auto
  from reduce_offline_some [OF this, of rg] obtain n r where "reduce_offline_player_coin rg m = (n, Some r)"
    by (cases "reduce_offline_player_coin rg m") auto
  then show ?thesis using False \<open>li_coin m = Some c\<close> by (simp add: plmsg_line_reduce_gold_def)
qed

lemma line_pays_ok:
  assumes "login_ok (Some m)"
  shows "login_ok (Some (fst (plmsg_line_reduce_gold online rg m)))"
proof (cases "online \<or> li_coin m = None")
  case True
  then show ?thesis using assms by (simp add: line_pays_fst login_ok_def login_ok_defs)
next
  case False
  then obtain c where c: "li_coin m = Some c" by auto
  have ok: "away_ok m \<and> li_inbox m = [] \<or> loading_ok m \<and> li_inbox m = [STOL_REQUEST_PLAYER_DATA]"
    using c assms by (auto simp: login_ok_def login_ok_defs)
  obtain c' out where "fst (reduce_offline_player_coin rg m) = m\<lparr> li_coin := Some c', db_coin := c', li_out := out \<rparr> \<or>
      fst (reduce_offline_player_coin rg m) = m"
    using reduce_offline_shape [OF c, of rg] by blast
  then show ?thesis
  proof
    assume "fst (reduce_offline_player_coin rg m) = m\<lparr> li_coin := Some c', db_coin := c', li_out := out \<rparr>"
    moreover from ok have "away_ok (m\<lparr> li_coin := Some c', db_coin := c', li_out := out \<rparr>) \<or>
        loading_ok (m\<lparr> li_coin := Some c', db_coin := c', li_out := out \<rparr>)"
    proof
      assume "away_ok m \<and> li_inbox m = []"
      then show ?thesis by (simp add: away_ok_def)
    next
      assume a: "loading_ok m \<and> li_inbox m = [STOL_REQUEST_PLAYER_DATA]"
      then have "loading_ok (m\<lparr> li_coin := Some c', db_coin := c', li_out := out \<rparr>)" by (auto simp: loading_ok_def)
      then show ?thesis ..
    qed
    ultimately show ?thesis using False login_okI by (auto simp: line_pays_fst)
  qed (use assms False in \<open>auto simp: line_pays_fst\<close>)
qed

lemma away_fields:
  assumes "away_ok m"
  shows "lg_state m = None" "\<not> lg_again m" "lg_need_flush m = None" "lg_loading m = None" "lg_player m = None" "lg_coin m = None"
    "lg_load m = 0" "lg_flush m = 0" "lg_inbox m = []" "li_load m = 0"
  using assms by (simp_all add: away_ok_def)

lemma away_phases:
  assumes "away_ok m"
  obtains (in_line) "li_inbox m = []" "li_coin m = Some (db_coin m)"
    | (nowhere) "li_inbox m = []" "li_coin m = None"
    | (delivered) "li_inbox m = [STOL_DELIVERY_PLAYER_DATA (db_coin m)]" "li_coin m = None"
  using assms unfolding away_ok_def by (elim conjE disjE; simp add: that)

lemma loading_phases:
  assumes "loading_ok m"
  obtains (asked) "lg_loading m = Some None" "lg_load m = 0" "lg_inbox m = []" "li_load m = 0"
      "li_inbox m = [STOL_REQUEST_PLAYER_DATA]" "li_coin m = Some (db_coin m)"
    | (asked_none) "lg_loading m = Some None" "lg_load m = 0" "lg_inbox m = []" "li_load m = 0"
      "li_inbox m = [STOL_REQUEST_PLAYER_DATA]" "li_coin m = None"
    | (asked_behind) "lg_loading m = Some None" "lg_load m = 0" "lg_inbox m = []" "li_load m = 0"
      "li_inbox m = [STOL_DELIVERY_PLAYER_DATA (db_coin m), STOL_REQUEST_PLAYER_DATA]" "li_coin m = None"
    | (stuck) "lg_loading m = Some None" "lg_load m = 0" "lg_inbox m = []" "li_load m = 0" "li_inbox m = []" "li_coin m = None"
    | (line_loads) "lg_loading m = Some None" "lg_load m = 0" "lg_inbox m = []" "li_load m = 1" "li_inbox m = []"
      "li_coin m = None"
    | (coming) "lg_loading m = Some None" "lg_load m = 0" "lg_inbox m = [db_coin m]" "li_load m = 0" "li_inbox m = []"
      "li_coin m = None"
    | (scene_loads) "lg_loading m = Some (Some (db_coin m))" "lg_load m = 1" "lg_inbox m = []" "li_load m = 0" "li_inbox m = []"
      "li_coin m = None"
  using assms unfolding loading_ok_def by (elim conjE disjE) (rule that; assumption)+

lemma loading_fields:
  assumes "loading_ok m"
  shows "lg_state m = Some POS_LOADING_ENTER_MAP" "\<not> lg_again m" "lg_need_flush m = None" "lg_player m = None" "lg_coin m = None"
    "lg_flush m = 0"
  using assms by (simp_all add: loading_ok_def)

lemma in_map_fields:
  assumes "in_map_ok m"
  shows "lg_loading m = None" "lg_load m = 0" "lg_inbox m = []" "li_inbox m = []" "li_coin m = None" "li_load m = 0"
    "lg_coin m = Some (db_coin m)"
  using assms by (simp_all add: in_map_ok_def)

lemma in_map_phases:
  assumes "in_map_ok m"
  obtains (online) p where "lg_player m = Some p" "pu_coin p = co_coin (db_coin m)" "pu_money p = co_money (db_coin m)"
      "lg_state m = Some POS_ONLINE" "\<not> lg_again m" "lg_need_flush m = None" "lg_flush m = 0"
    | (leaves) p where "lg_player m = Some p" "pu_coin p = co_coin (db_coin m)" "pu_money p = co_money (db_coin m)"
      "lg_state m = Some POS_FLUSHING_LEAVE_MAP" "lg_need_flush m = Some False" "lg_flush m = 0"
    | (flushes) p where "lg_player m = Some p" "pu_coin p = co_coin (db_coin m)" "pu_money p = co_money (db_coin m)"
      "lg_state m = Some POS_FLUSHING_LEAVE_MAP" "lg_need_flush m = None" "lg_flush m = 1"
  using assms unfolding in_map_ok_def by blast

lemma away_step:
  assumes m: "away_ok m"
  shows "login_ok (login_step1 e m)"
proof (cases "\<exists>online rg. e = Line_pays online rg")
  case True
  then show ?thesis using line_pays_ok m login_okI by (auto simp: login_step1_def)
next
  case False
  note f = away_fields [OF m]
  from m show ?thesis
  proof (cases rule: away_phases)
    case in_line
    show ?thesis by (cases e) (use in_line f False in \<open>auto simp: login_step1_def login_defs login_ok_def login_ok_defs\<close>)
  next
    case nowhere
    show ?thesis by (cases e) (use nowhere f False in \<open>auto simp: login_step1_def login_defs login_ok_def login_ok_defs\<close>)
  next
    case delivered
    show ?thesis by (cases e) (use delivered f False in \<open>auto simp: login_step1_def login_defs login_ok_def login_ok_defs\<close>)
  qed
qed

lemma loading_step:
  assumes m: "loading_ok m" and e: "e \<noteq> Leave"
  shows "login_ok (login_step1 e m)"
proof (cases "\<exists>online rg. e = Line_pays online rg")
  case True
  then show ?thesis using line_pays_ok m login_okI by (auto simp: login_step1_def)
next
  case False
  note f = loading_fields [OF m]
  from m show ?thesis
  proof (cases rule: loading_phases)
    case asked
    show ?thesis
      by (cases e) (use asked f e False in \<open>auto simp: login_step1_def login_defs login_ok_def login_ok_defs\<close>)
  next
    case asked_none
    show ?thesis
      by (cases e) (use asked_none f e False in \<open>auto simp: login_step1_def login_defs login_ok_def login_ok_defs\<close>)
  next
    case asked_behind
    show ?thesis
      by (cases e) (use asked_behind f e False in \<open>auto simp: login_step1_def login_defs login_ok_def login_ok_defs\<close>)
  next
    case stuck
    show ?thesis by (cases e) (use stuck f e False in \<open>auto simp: login_step1_def login_defs login_ok_def login_ok_defs\<close>)
  next
    case line_loads
    show ?thesis
      by (cases e) (use line_loads f e False in \<open>auto simp: login_step1_def login_defs login_ok_def login_ok_defs\<close>)
  next
    case coming
    show ?thesis by (cases e) (use coming f e False in \<open>auto simp: login_step1_def login_defs login_ok_def login_ok_defs\<close>)
  next
    case scene_loads
    show ?thesis
      by (cases e) (use scene_loads f e False in \<open>auto simp: login_step1_def login_defs login_ok_def login_ok_defs\<close>)
  qed
qed

lemma in_map_step:
  assumes m: "in_map_ok m"
  shows "login_ok (login_step1 e m)"
proof (cases "\<exists>online rg. e = Line_pays online rg")
  case True
  then show ?thesis using line_pays_ok m login_okI by (auto simp: login_step1_def)
next
  case False
  note f = in_map_fields [OF m]
  from m show ?thesis
  proof (cases rule: in_map_phases)
    case online
    show ?thesis by (cases e) (use online f False in \<open>simp_all add: login_step1_def login_defs login_ok_def login_ok_defs\<close>)
  next
    case leaves
    show ?thesis by (cases e) (use leaves f False in \<open>simp_all add: login_step1_def login_defs login_ok_def login_ok_defs\<close>)
  next
    case flushes
    show ?thesis
      by (cases e) (use flushes f False in \<open>simp_all add: login_step1_def login_defs coin_entity_update login_ok_def login_ok_defs Let_def\<close>)
  qed
qed

interpretation logins: invariant_machine login_step login_allowed login_ok
proof
  fix s e assume s: "login_ok s" and e: "login_allowed e s"
  then obtain m where m: "s = Some m" "away_ok m \<or> loading_ok m \<or> in_map_ok m" by (auto simp: login_ok_def)
  have "loading_ok m \<Longrightarrow> e \<noteq> Leave" using e m(1) by (auto simp: login_allowed_def loading_ok_def)
  then show "login_ok (login_step e s)" using m away_step loading_step in_map_step by (auto simp: login_step_def)
qed

lemma login_ok_away: "login_ok (Some (player_away in_line c p))"
  by (simp add: login_ok_def away_ok_def player_away_def)

lemma held_current: "login_ok (Some m) \<Longrightarrow> held m \<in> {[], [db_coin m]}"
  by (auto simp: login_ok_def login_ok_defs held_def)

end
