(* ===== verification/PlayerLoginClaims.thy ===== *)
theory PlayerLoginClaims
  imports PlayerLoginRuns
begin

text \<open>
  What the scenes promise about the money of a player, and what happens when it leaves while it is loaded.
\<close>

section \<open>One purse\<close>

text \<open>C3: Unless a player leaves while it is loaded, its coin entity is in at most one place of the line scene, the map and
  the queues between them, with the amounts that were written last; and the player entity in the map agrees with it.\<close>

theorem one_purse:
  assumes "all_allowed login_step login_allowed es (Some (player_away in_line c p))"
  shows "\<exists>m. run_events login_step es (Some (player_away in_line c p)) = Some m \<and> held m \<in> {[], [db_coin m]} \<and>
    (\<forall>q. lg_player m = Some q \<longrightarrow> pu_coin q = co_coin (db_coin m) \<and> pu_money q = co_money (db_coin m))"
proof -
  have "login_ok (run_events login_step es (Some (player_away in_line c p)))"
    by (rule logins.run_keeps [OF login_ok_away assms])
  then obtain m where m: "run_events login_step es (Some (player_away in_line c p)) = Some m" "login_ok (Some m)"
    by (auto simp: login_ok_def)
  moreover have "\<forall>q. lg_player m = Some q \<longrightarrow> pu_coin q = co_coin (db_coin m) \<and> pu_money q = co_money (db_coin m)"
    using m(2) by (auto simp: login_ok_def login_ok_defs)
  ultimately show ?thesis using held_current by blast
qed

lemma one_purse_witness:
  "\<exists>m. run_events login_step
      [Line_pays False \<lparr> rg_money = 20, rg_coin = 5, rg_seniority = 0, rg_function_id = 7, rg_source_from = 1 \<rparr>, Enter, Line_input,
       Scene_input, Load_finish True, Wallet_change (\<lambda>c. c\<lparr> co_coin := 1 \<rparr>), Leave, Process_flush, Enter, Flush_finish, Line_input]
      (Some (player_away True \<lparr> co_coin = 50, co_money = 100 \<rparr>
        \<lparr> pu_coin = 50, pu_money = 100, pu_total_coin_cost = 0, pu_total_money_cost = 0 \<rparr>)) = Some m \<and>
    held m \<in> {[], [db_coin m]} \<and>
    (\<forall>q. lg_player m = Some q \<longrightarrow> pu_coin q = co_coin (db_coin m) \<and> pu_money q = co_money (db_coin m))"
  by (rule one_purse) (simp add: login_allowed_def login_step_def login_step1_def login_defs player_away_def Let_def word_sle_eq word_sless_alt)

section \<open>Payments while the player is away\<close>

text \<open>A payment for a player that is away takes its amounts from the coin in the line scene, or nothing when there is not
  enough or an amount is negative, and says which.\<close>

theorem offline_payment_exact:
  assumes "li_coin m = Some c" "plmsg_line_reduce_gold False rg m = (m', r)"
  shows "\<exists>c'. li_coin m' = Some c' \<and>
    (if 0 \<le> sint (rg_coin rg) \<and> 0 \<le> sint (rg_money rg) \<and> sint (rg_coin rg) \<le> uint (co_coin c) \<and> sint (rg_money rg) \<le> uint (co_money c)
     then r = 2 \<and> uint (co_coin c') = uint (co_coin c) - sint (rg_coin rg) \<and>
       uint (co_money c') = uint (co_money c) - sint (rg_money rg) \<and> db_coin m' = c'
     else r = 3 \<and> m' = m)"
proof -
  define ok where "ok \<longleftrightarrow> 0 \<le>s rg_coin rg \<and> rg_coin rg \<le> co_coin c \<and> 0 \<le>s rg_money rg \<and> rg_money rg \<le> co_money c"
  have iff: "ok \<longleftrightarrow> 0 \<le> sint (rg_coin rg) \<and> 0 \<le> sint (rg_money rg) \<and> sint (rg_coin rg) \<le> uint (co_coin c) \<and>
      sint (rg_money rg) \<le> uint (co_money c)"
    unfolding ok_def using sint_uint_pos(1) [of "rg_coin rg"] sint_uint_pos(1) [of "rg_money rg"]
    by (auto simp: word_sle_eq word_le_def)
  show ?thesis
  proof (cases ok)
    case True
    define c' where "c' = c\<lparr> co_coin := co_coin c - rg_coin rg, co_money := co_money c - rg_money rg \<rparr>"
    have pay: "snd (reduce_offline_player_coin rg m) = Some 2 \<and> li_coin (fst (reduce_offline_player_coin rg m)) = Some c' \<and>
        db_coin (fst (reduce_offline_player_coin rg m)) = c'"
      using True assms(1) by (simp add: reduce_offline_player_coin_def ok_def c'_def Let_def)
    then have "r = 2" "li_coin m' = Some c'" "db_coin m' = c'"
      using assms(2) by (auto simp: plmsg_line_reduce_gold_def split: prod.splits)
    moreover have "uint (co_coin c') = uint (co_coin c) - sint (rg_coin rg)" "uint (co_money c') = uint (co_money c) - sint (rg_money rg)"
      using True sint_uint_pos(1) [of "rg_coin rg"] sint_uint_pos(1) [of "rg_money rg"]
      by (simp_all add: ok_def c'_def uint_sub_if' word_le_def)
    ultimately show ?thesis using iff True by simp
  next
    case False
    then have "reduce_offline_player_coin rg m = (m, Some 3)"
      unfolding ok_def reduce_offline_player_coin_def assms(1) option.case by (rule if_not_P)
    then have "m' = m \<and> r = 3" using assms(2) by (simp add: plmsg_line_reduce_gold_def)
    then show ?thesis using iff False assms(1) by auto
  qed
qed

lemma offline_payment_exact_witness:
  "\<exists>c'. li_coin (fst (plmsg_line_reduce_gold False
        \<lparr> rg_money = 20, rg_coin = 5, rg_seniority = 0, rg_function_id = 7, rg_source_from = 1 \<rparr>
        (player_away True \<lparr> co_coin = 50, co_money = 100 \<rparr>
          \<lparr> pu_coin = 50, pu_money = 100, pu_total_coin_cost = 0, pu_total_money_cost = 0 \<rparr>))) = Some c' \<and>
    uint (co_coin c') = 45 \<and> uint (co_money c') = 80"
proof -
  let ?rg = "\<lparr> rg_money = 20, rg_coin = 5, rg_seniority = 0, rg_function_id = 7, rg_source_from = 1 \<rparr>"
  let ?m = "player_away True \<lparr> co_coin = 50, co_money = 100 \<rparr>
    \<lparr> pu_coin = 50, pu_money = 100, pu_total_coin_cost = 0, pu_total_money_cost = 0 \<rparr>"
  have "li_coin ?m = Some \<lparr> co_coin = 50, co_money = 100 \<rparr>" by (simp add: player_away_def)
  from offline_payment_exact [OF this surjective_pairing, of ?rg] show ?thesis by auto
qed

section \<open>Leaving while loading\<close>

text \<open>C35: A payment that was taken from a player while it was away is undone when the player enters and leaves before its
  data is loaded: the values it left with last time go back to the line scene.\<close>

theorem payment_undone:
  assumes "plmsg_line_reduce_gold False rg (player_away True c p) = (m, 2)" "pu_coin p = co_coin c" "pu_money p = co_money c"
  shows "\<exists>n. run_events login_step [Enter, Line_input, Scene_input, Leave, Load_finish True, Process_flush, Flush_finish, Line_input]
      (Some m) = Some n \<and> li_coin n = Some c \<and> lg_state n = None \<and> lg_player n = None"
proof -
  have "m = fst (reduce_offline_player_coin rg (player_away True c p))"
    using assms(1) by (simp add: plmsg_line_reduce_gold_def split: prod.splits option.splits)
  moreover have "li_coin (player_away True c p) = Some c" by (simp add: player_away_def)
  ultimately obtain d out where m: "m = (player_away True c p)\<lparr> li_coin := Some d, db_coin := d, li_out := out \<rparr>"
    using reduce_offline_shape [of "player_away True c p" c rg] by (fastforce simp: player_away_def)
  have "d\<lparr> co_coin := pu_coin p, co_money := pu_money p \<rparr> = c" using assms(2,3) by (cases d; cases c) simp
  then show ?thesis unfolding m by (simp add: login_step_def login_step1_def login_defs player_away_def)
qed

lemma payment_undone_witness:
  "\<exists>m n. plmsg_line_reduce_gold False
      \<lparr> rg_money = 20, rg_coin = 5, rg_seniority = 0, rg_function_id = 7, rg_source_from = 1 \<rparr>
      (player_away True \<lparr> co_coin = 50, co_money = 100 \<rparr>
        \<lparr> pu_coin = 50, pu_money = 100, pu_total_coin_cost = 0, pu_total_money_cost = 0 \<rparr>) = (m, 2) \<and>
    li_coin m = Some \<lparr> co_coin = 45, co_money = 80 \<rparr> \<and>
    run_events login_step [Enter, Line_input, Scene_input, Leave, Load_finish True, Process_flush, Flush_finish, Line_input]
      (Some m) = Some n \<and> li_coin n = Some \<lparr> co_coin = 50, co_money = 100 \<rparr>"
proof -
  let ?rg = "\<lparr> rg_money = 20, rg_coin = 5, rg_seniority = 0, rg_function_id = 7, rg_source_from = 1 \<rparr>"
  let ?c = "\<lparr> co_coin = 50, co_money = 100 \<rparr>"
  let ?p = "\<lparr> pu_coin = 50, pu_money = 100, pu_total_coin_cost = 0, pu_total_money_cost = 0 \<rparr>"
  let ?m = "fst (plmsg_line_reduce_gold False ?rg (player_away True ?c ?p))"
  have m: "plmsg_line_reduce_gold False ?rg (player_away True ?c ?p) = (?m, 2)" "li_coin ?m = Some \<lparr> co_coin = 45, co_money = 80 \<rparr>"
    by (simp_all add: plmsg_line_reduce_gold_def reduce_offline_player_coin_def player_away_def Let_def word_sle_eq word_sless_alt)
  from payment_undone [OF m(1)] m show ?thesis by auto
qed

text \<open>When a player enters, leaves, and enters again before its first flush, the flush forgets its state, and the end of the
  second load, whatever its result, uses an entry of the state map that is not there.\<close>

theorem second_load_faults:
  "run_events login_step
    [Enter, Line_input, Scene_input, Leave, Load_finish True, Enter, Process_flush, Flush_finish, Line_input, Line_input,
     Line_coin_loaded True, Scene_input, Load_finish success] (Some (player_away True c p)) = None"
  by (simp add: login_step_def login_step1_def login_defs player_away_def)

end
