(* ===== verification/Spec2Isabelle.thy ===== *)
theory Spec2Isabelle
  imports Session SessionPool GuidService RoleName PoolCache CacheFaults GridRuns ChargingOnce LineReward GateCases
    RoleMakeTold TerminalClaims MemberClaims PlayerEntityLaws PlayerLoginClaims
begin

text \<open>
  Verification of the server framework under \<^verbatim>\<open>src/aceinternal\<close>: the servers of an online game, C++ programs that
  exchange packets over ACE sockets.

  \<^bold>\<open>The program.\<close> Clients connect to a gate (\<^verbatim>\<open>gate\<close>). It validates them, asks the server of the roles
  (\<^verbatim>\<open>charsys\<close>) for the roles of an account or for a new one, and routes every other packet to a game server
  (\<^verbatim>\<open>terminal\<close> with the plugins of \<^verbatim>\<open>plugin\<close> and \<^verbatim>\<open>scene\<close>). Game servers keep the entities of their
  players in a pool (\<^verbatim>\<open>pool\<close>), which writes changes behind to the cache servers (\<^verbatim>\<open>cachesys\<close>), and those
  to the database. New entities get their guid from the guid server (\<^verbatim>\<open>guidsys\<close>). The line scene
  (\<^verbatim>\<open>plugin/manage_short\<close>) talks to the member server (\<^verbatim>\<open>membersys\<close>) about payments, and the member server to the
  operators of the game. All connections run over
  \<^verbatim>\<open>netcore\<close> with the packets of \<^verbatim>\<open>share\<close>.

  \<^bold>\<open>How it is modelled.\<close> Each component is a record with the fields of the class, and one definition per function
  of the class, under its name in lower case with underscores. Packets that leave are appended to a list of the state,
  the log; packets that arrive are events. A threaded component is a machine: a datatype of events, a step function
  \<open>event \<Rightarrow> state \<Rightarrow> state\<close>, runs by \<open>run_events\<close>. What ends the program, touches deleted memory or blocks a
  thread on its own mutex is a value: \<open>None\<close>, or \<open>Inl\<close> of a fault. Integers keep their width (\<open>u16\<close>, \<open>u32\<close>,
  \<open>u64\<close> of \<open>Prelude\<close>); pointers are kept where objects are shared and deleted by hand, as addresses of an
  explicit heap (\<open>CacheMemory\<close>, \<open>Grid\<close>, \<open>SessionPool\<close>, the sessions of \<open>GateState\<close>), and dropped where a
  pointer has one owner.

  \<^bold>\<open>The theories.\<close>
  \<^item> \<open>Prelude\<close>: machine types, runs of machines, the locales \<open>invariant_machine\<close> (what every step keeps, every run
    keeps) and \<open>refining_machine\<close> (an abstraction that commutes with every step), both interpreted by the components
    below, and facts on lists and finite maps.
  \<^item> \<open>Guid\<close>, \<open>GuidService\<close>: the macros of \<^verbatim>\<open>share/inc/coredef.h\<close>; \<^verbatim>\<open>guidsys/src/AllocGuid.cpp\<close> with its file,
    and the clients' \<^verbatim>\<open>MakeGuid\<close>. Guids are unique over runs with restarts of the server and of its clients.
  \<^item> \<open>Opcodes\<close>: the opcodes that several components use (\<^verbatim>\<open>common/inc/opcode.h\<close>).
  \<^item> \<open>Packets\<close>, \<open>Session\<close>, \<open>SessionPool\<close>: \<^verbatim>\<open>share/src/Packet.cpp\<close>, the framing of the servers and of the
    gate, one connection of \<^verbatim>\<open>netcore\<close> and the pools that own the connections. Round trips of the framing over any
    splitting of the stream, nothing is lost or sent twice by a connection, and no connection is used after its deletion.
  \<^item> \<open>RoleName\<close>: \<^verbatim>\<open>charsys/src/checkname\<close>, a tree of words; what is refused, in terms of the words.
  \<^item> \<open>RoleMake\<close>, \<open>RoleMakeRuns\<close>, \<open>RoleMakeCases\<close>, \<open>RoleMakeTold\<close>: the two threads of \<^verbatim>\<open>charsys\<close>. Names are given
    once, a client is told only what is stored, and which requests are lost.
  \<^item> \<open>Pool\<close>, \<open>PoolSync\<close>: \<^verbatim>\<open>pool/src\<close>, and its contract: after a frame that writes, the database holds exactly the entities that
    were added to be stored, with their content in memory. \<open>use_allowed\<close> has the rules of use (loading and unloading are among
    the uses); new coins, changed players and roles, entities added again too early or unloaded too early are not written.
  \<^item> \<open>CacheService\<close>, \<open>CacheMemory\<close>, \<open>CacheRuns\<close>, \<open>CacheFaults\<close>: \<^verbatim>\<open>cachesys/src\<close> with its heap. Under stated
    rules of use it refines a cache of values and never touches deleted memory; outside them it does.
  \<^item> \<open>PoolCache\<close>: a pool and a cache server joined by their packets; the contract of the pool for the pair, and the new
    coin that is not stored.
  \<^item> \<open>Grid\<close>, \<open>GridScreens\<close>, \<open>GridRuns\<close>: \<^verbatim>\<open>scene/src/ManageGridOptimize.cpp\<close>. Every screen shows the selected players with their
    current data; only a level-up is not shown to anybody.
  \<^item> \<open>Wallet\<close>, \<open>PlayerGrowth\<close>, \<open>PlayerCommands\<close>, \<open>WalletLaws\<close>: \<^verbatim>\<open>plugin/manage_player/src/ManagePlayer.cpp\<close>, what a player
    owns, how it grows, the inheritance between roles (which exchanges their levels) and the commands of the game
    masters; the entities that repeat a value agree after all of them.
  \<^item> \<open>PlayerEntities\<close>, \<open>PlayerEntityLaws\<close>: \<^verbatim>\<open>PlayerAssistant.cpp\<close>, the entities of a player as they are loaded,
    collected, written and removed. What is collected is what was loaded, and a player that leaves leaves nothing behind.
  \<^item> \<open>PlayerLogin\<close>, \<open>PlayerLoginRuns\<close>, \<open>PlayerLoginClaims\<close>: entering and leaving a map, and where the money is then. The
    coin of a player is in one place, unless the player leaves while it is loaded; then payments are undone.
  \<^item> \<open>Charging\<close>, \<open>ChargingOnce\<close>, \<open>LineReward\<close>: \<^verbatim>\<open>plugin/manage_short/src/ManageShort.cpp\<close>, payments from the
    member server to the player and back, and the rewards of the line scene.
  \<^item> \<open>GateState\<close>, \<open>Gate\<close>, \<open>GateSafe\<close>, \<open>GateRuns\<close>, \<open>GateLogoff\<close>, \<open>GateLive\<close>, \<open>GateCases\<close>: the gate. Sessions and routes
    stay consistent, roles whose client is gone leave; and the cases in which a client gets in that should not, a role
    enters twice because two threads check before either enters it, or a thread waits for itself.
  \<^item> \<open>Tickets\<close>, \<open>Terminal\<close>, \<open>TerminalWire\<close>, \<open>TerminalRuns\<close>, \<open>TerminalCases\<close>, \<open>TerminalLive\<close>, \<open>TerminalDrain\<close>,
    \<open>TerminalClaims\<close>: \<^verbatim>\<open>terminal/src\<close>, from the scene of a game server to its gates. Twenty threads route packets in
    numbered batches, a dispatcher puts the batches in order again, twenty threads for each gate write packets into
    blocks, whole and as few as possible, and a thread sends the blocks. \<open>Tickets\<close> has the order of the numbered batches; the others show that packets
    go out in the order of the scene, byte for byte, all of them while the connections hold, and what the loss of a
    gate and the return of a role through another gate break.
  \<^item> \<open>MemberWire\<close>, \<open>Member\<close>, \<open>MemberRuns\<close>, \<open>MemberClaims\<close>: \<^verbatim>\<open>membersys/src\<close>, its frames and structs, the requests of
    the operators and the answers of the gates. Replies and confirmations reach those who asked, the players online are
    those the gates report, pages partition the users; and the cases of lost sessions, used indices and names.

  \<^bold>\<open>Parameters and bounds.\<close> What other programs and libraries decide is an argument or an event: the database
  (answers, refusals and exceptions), the clock, random numbers, sockets (how many bytes a call takes or gives), the
  files of configuration, the content of serialised entities. Rules of use are predicates on events
  (\<open>cache_allowed\<close>, \<open>use_allowed\<close>, \<open>char_allowed\<close>, \<open>terminal_allowed\<close>, \<open>member_allowed\<close>, \<open>login_allowed\<close>, the \<open>allowed\<close> of each
  machine); every property under such a rule
  has a witness, and the rules that matter have a run that breaks them and what happens then. The loops of the code
  are structural recursions or functions with a measure; the one that does not end (picking up a reward) is modelled
  with the result \<open>None\<close> for not returning.
  Handlers are atomic: a thread that handles a packet is not interrupted where it holds no mutex, and queues between
  threads are part of the state. Where a handler takes several mutexes one after the other this merges steps: the
  twenty route tables of \<^verbatim>\<open>PlayerRoute::addRoute\<close>, and the input and the output of a new session in
  \<^verbatim>\<open>SessionPoolImp\<close>. The one handler where the order of two threads in between is known to matter, the entering of a role at
  the gate, is also given in its two halves (\<open>check_package\<close>, \<open>finish_package\<close>).

  \<^bold>\<open>Not modelled.\<close>
  \<^item> Loading: configuration files (\<^verbatim>\<open>ManageConfig\<close>, \<^verbatim>\<open>gamelogic/src/resource\<close>, \<^verbatim>\<open>ManageResourceImp.cpp\<close>), the
    XML wrappers (\<^verbatim>\<open>simplexml\<close>), and the loading of plugins and services: they copy attributes into fields.
  \<^item> Vendored and generated code: \<^verbatim>\<open>tinyxml\<close>, \<^verbatim>\<open>sqlite3.h\<close>, \<^verbatim>\<open>material-cpp\<close>, \<^verbatim>\<open>protocol_dec.h\<close>.
  \<^item> Thin layers over ACE and the operating system: reactors, acceptors, log files (\<^verbatim>\<open>logger\<close>, \<^verbatim>\<open>LoggerServer\<close>),
    statistics, dumps, and the second copy of the network library (\<^verbatim>\<open>netstream\<close>).
  \<^item> The conversion of SQLite files (\<^verbatim>\<open>convertsys\<close>), the text of SQL queries (their answers are parameters), and the
    exploration of protocol buffers by name (\<^verbatim>\<open>dynamicparse\<close>).
  \<^item> Of the terminals and of the member server: connecting, the event loops, the server with a single connection
    (\<^verbatim>\<open>ManageSingleTerminal.cpp\<close>), and the bytes of the messages to and from the gates.
  \<^item> Of the plugins: jumps between maps and what a map does when it loses its gate, transcripts, and what is sent to
    the client when a player enters; of the scene: movement and the line scene's
    bookkeeping of servers.
  \<^item> The examples of ACE (\<^verbatim>\<open>ch_*\<close>), tools with a window (\<^verbatim>\<open>DebugClient\<close>, \<^verbatim>\<open>proto_maker\<close>), tests and test plugins.
\<close>

end
